(* ===== verification/Sky_Prelude.thy ===== *)
theory Sky_Prelude
  imports Main "HOL-Library.Word"
begin

text \<open>
  Shared material of the development: the machine integer types of the C sources, the ways a
  C statement can go wrong as the values of \<open>c_error\<close>, the result type every fallible
  operation returns, bounds-checked array accesses, and the lemmas on lists, words and results
  the component theories use.

  A C function that may fail an \<open>assert\<close>, dereference a null or dangling pointer, read outside
  an array, read memory that was never written, overflow a signed \<open>int\<close>, divide by zero, spin forever or end the process is a
  function into \<open>'a res\<close>: \<open>Inl e\<close> says which of these happens, \<open>Inr x\<close> is the normal result.
  So "the operation is safe" is a theorem of the form \<open>f x = Inr y\<close>.
\<close>

unbundle bit_operations_syntax

section \<open>Machine types\<close>

type_synonym u8 = "8 word"
type_synonym u32 = "32 word"
type_synonym u64 = "64 word"

definition INT_MAX :: nat where
  "INT_MAX = 2147483647"

text \<open>The remainder of C for a positive divisor: it has the sign of the dividend.\<close>

definition c_rem :: "int \<Rightarrow> int \<Rightarrow> int" where
  "c_rem a b = (if 0 \<le> a then a mod b else - ((- a) mod b))"

section \<open>Results\<close>

datatype c_error =
    AssertFail
  | NullDeref
  | UseAfterFree
  | OutOfBounds
  | Uninitialised
  | IntOverflow
  | Diverges
  | Exits
  | Opaque
  | DivByZero

type_synonym 'a res = "c_error + 'a"

fun cbind :: "'a res \<Rightarrow> ('a \<Rightarrow> 'b res) \<Rightarrow> 'b res" where
  "cbind (Inl e) f = Inl e"
| "cbind (Inr x) f = f x"

definition c_assert :: "bool \<Rightarrow> unit res" where
  "c_assert b = (if b then Inr () else Inl AssertFail)"

text \<open>Dereferencing a pointer into a store: a missing address is a dangling pointer.\<close>

definition deref :: "('p \<Rightarrow> 'v option) \<Rightarrow> 'p \<Rightarrow> 'v res" where
  "deref st p = (case st p of None \<Rightarrow> Inl UseAfterFree | Some v \<Rightarrow> Inr v)"

text \<open>Arrays: a cell that was allocated and not yet written is \<open>None\<close>.\<close>

definition arr_get :: "'a option list \<Rightarrow> nat \<Rightarrow> 'a res" where
  "arr_get xs i =
     (if i < length xs then (case xs ! i of None \<Rightarrow> Inl Uninitialised | Some v \<Rightarrow> Inr v)
      else Inl OutOfBounds)"

definition arr_set :: "'a option list \<Rightarrow> nat \<Rightarrow> 'a \<Rightarrow> 'a option list res" where
  "arr_set xs i v = (if i < length xs then Inr (xs[i := Some v]) else Inl OutOfBounds)"

named_theorems cres_simps \<open>the equations that evaluate result-typed code\<close>

lemma c_assert_simps [simp]:
  "b \<Longrightarrow> c_assert b = Inr ()"
  "\<not> b \<Longrightarrow> c_assert b = Inl AssertFail"
  by (auto simp: c_assert_def)

lemma cbind_Inr_iff: "cbind m f = Inr y \<longleftrightarrow> (\<exists>x. m = Inr x \<and> f x = Inr y)"
  by (cases m) auto

lemma cbind_assoc: "cbind (cbind m f) g = cbind m (\<lambda>x. cbind (f x) g)"
  by (cases m) auto

lemma deref_Some [cres_simps]: "st p = Some v \<Longrightarrow> deref st p = Inr v"
  by (simp add: deref_def)

lemma deref_Inr_iff [simp]: "deref st p = Inr v \<longleftrightarrow> st p = Some v"
  by (auto simp: deref_def split: option.splits)

lemma arr_get_Some [cres_simps]: "i < length xs \<Longrightarrow> xs ! i = Some v \<Longrightarrow> arr_get xs i = Inr v"
  by (simp add: arr_get_def)

lemma arr_set_ok [cres_simps]: "i < length xs \<Longrightarrow> arr_set xs i v = Inr (xs[i := Some v])"
  by (simp add: arr_set_def)

section \<open>Lists\<close>

lemma map_upt_Cons:
  "0 < n \<Longrightarrow> map f [0..<n] = f 0 # map (\<lambda>i. f (Suc i)) [0..<n - 1]"
  by (rule nth_equalityI) (auto simp: nth_Cons split: nat.split)

lemma map_the_Some [simp]: "map (the \<circ> Some) xs = xs"
  by (induction xs) auto

section \<open>Capacities\<close>

text \<open>A capacity held in an \<open>int\<close> that starts at a power of two and only ever doubles.\<close>

definition cap_ok :: "nat \<Rightarrow> bool" where
  "cap_ok c \<longleftrightarrow> (\<exists>k \<le> 30. c = 2 ^ k)"

lemma cap_ok_pos [dest]: "cap_ok c \<Longrightarrow> 0 < c"
  by (auto simp: cap_ok_def)

lemma cap_ok_le: "cap_ok c \<Longrightarrow> c \<le> 2 ^ 30"
  unfolding cap_ok_def by (metis one_le_numeral power_increasing)

lemma cap_ok_double: "cap_ok c \<Longrightarrow> c < 2 ^ 30 \<Longrightarrow> cap_ok (c * 2)"
  unfolding cap_ok_def
  by (metis Suc_leI less_le_trans linorder_not_less mult.commute power_Suc power_strict_increasing_iff
      one_less_numeral_iff semiring_norm(76))

lemma cap_ok_2_pow: "k \<le> 30 \<Longrightarrow> cap_ok (2 ^ k)"
  by (auto simp: cap_ok_def)

lemma cap_ok_64 [simp]: "cap_ok 64"
  using cap_ok_2_pow [of 6] by simp

lemma cap_ok_1024 [simp]: "cap_ok 1024"
  using cap_ok_2_pow [of 10] by simp

lemma cap_lt_INT_MAX: "c < 2 ^ 30 \<Longrightarrow> c * 2 \<le> INT_MAX"
  by (simp add: INT_MAX_def)

text \<open>Ring arithmetic: distinct offsets below the capacity are distinct cells.\<close>

lemma mod_shift_inj:
  fixes h i j c :: nat
  assumes "(h + i) mod c = (h + j) mod c" "i < c" "j < c"
  shows "i = j"
proof -
  have "(int h + int i) mod int c = (int h + int j) mod int c"
    using assms(1) by (metis of_nat_add of_nat_mod)
  then have "int i mod int c = int j mod int c"
    by (metis add_diff_cancel_left' mod_diff_left_eq)
  with assms show ?thesis by simp
qed

section \<open>Words\<close>

text \<open>\<open>x & (n - 1)\<close> for a power of two \<open>n\<close> is the remainder by \<open>n\<close>.\<close>

lemma and_pow2_mask:
  fixes h :: "'a::len word"
  assumes "k \<le> LENGTH('a)"
  shows "unat (h AND (of_nat (2 ^ k) - 1)) = unat h mod 2 ^ k"
proof -
  have "h AND (of_nat (2 ^ k) - 1) = take_bit k h"
    by (simp add: take_bit_eq_mask mask_eq_exp_minus_1)
  moreover have "unat (take_bit k h) = take_bit k (unat h)"
    using assms by (simp add: unsigned_take_bit_eq)
  ultimately show ?thesis by (simp only: take_bit_eq_mod)
qed

end
