(* ===== verification/Sky_Queue.thy ===== *)
theory Sky_Queue
  imports Sky_Prelude
begin

text \<open>
  The interface of a first-in first-out queue whose operations may fail, as a locale, and what
  its clients rely on. Both ring buffers of the runtime promise it: the message queue of a
  service (\<^verbatim>\<open>skynet_mq.c\<close>) and the queue of messages that wait for a remote harbor
  (\<^verbatim>\<open>service_harbor.c\<close>). \<open>bound\<close> is the number of elements below which an insertion cannot
  overflow the capacity, a signed 32-bit integer that only ever doubles.

  \<open>drain\<close> is the loop by which both components empty a queue before they free it.
\<close>

section \<open>Emptying a queue\<close>

text \<open>
  The loop \<open>while (!pop(q, &msg)) drop_func(&msg, ud);\<close> over any state \<open>'s\<close> that holds the
  queue. \<open>None\<close> is a loop that does not end.
\<close>

partial_function (option) drain ::
  "('s \<Rightarrow> ('s \<times> 'm option) res) \<Rightarrow> ('m \<Rightarrow> 's \<Rightarrow> 's res) \<Rightarrow> 's \<Rightarrow> 's res option" where
  "drain pop dropf s =
     (case pop s of
        Inl e \<Rightarrow> Some (Inl e)
      | Inr r \<Rightarrow>
          (case snd r of
             None \<Rightarrow> Some (Inr (fst r))
           | Some m \<Rightarrow>
               (case dropf m (fst r) of
                  Inl e \<Rightarrow> Some (Inl e)
                | Inr s' \<Rightarrow> drain pop dropf s')))"

text \<open>Folding a fallible function over a list, left to right.\<close>

fun fold_res :: "('m \<Rightarrow> 's \<Rightarrow> 's res) \<Rightarrow> 'm list \<Rightarrow> 's \<Rightarrow> 's res" where
  "fold_res f [] s = Inr s"
| "fold_res f (m # ms) s = cbind (f m s) (fold_res f ms)"

lemma drain_empty: "pop s = Inr (s', None) \<Longrightarrow> drain pop f s = Some (Inr s')"
  by (subst drain.simps) simp

lemma drain_step:
  "pop s = Inr (s1, Some m) \<Longrightarrow> f m s1 = Inr s2 \<Longrightarrow> drain pop f s = drain pop f s2"
  by (subst drain.simps) simp

section \<open>Runs of operations\<close>

datatype 'a qop = Enq 'a | Deq

fun run_queue ::
  "('q \<Rightarrow> 'a \<Rightarrow> 'q res) \<Rightarrow> ('q \<Rightarrow> ('q \<times> 'a option) res) \<Rightarrow> 'q \<Rightarrow> 'a qop list
   \<Rightarrow> ('q \<times> 'a option list) res" where
  "run_queue enq deq q [] = Inr (q, [])"
| "run_queue enq deq q (Enq x # ops) = cbind (enq q x) (\<lambda>q. run_queue enq deq q ops)"
| "run_queue enq deq q (Deq # ops) =
     cbind (deq q) (\<lambda>(q, r). cbind (run_queue enq deq q ops) (\<lambda>(q, rs). Inr (q, r # rs)))"

text \<open>The specification: the same run on a list.\<close>

fun spec_queue :: "'a list \<Rightarrow> 'a qop list \<Rightarrow> 'a list \<times> 'a option list" where
  "spec_queue xs [] = (xs, [])"
| "spec_queue xs (Enq x # ops) = spec_queue (xs @ [x]) ops"
| "spec_queue [] (Deq # ops) = (let (ys, rs) = spec_queue [] ops in (ys, None # rs))"
| "spec_queue (x # xs) (Deq # ops) = (let (ys, rs) = spec_queue xs ops in (ys, Some x # rs))"

fun enqs :: "'a qop list \<Rightarrow> nat" where
  "enqs [] = 0"
| "enqs (Enq x # ops) = Suc (enqs ops)"
| "enqs (Deq # ops) = enqs ops"

text \<open>What it takes to empty a queue.\<close>

locale fifo_source =
  fixes deq :: "'q \<Rightarrow> ('q \<times> 'a option) res"
    and contents :: "'q \<Rightarrow> 'a list"
    and inv :: "'q \<Rightarrow> bool"
  assumes deq_empty: "inv q \<Longrightarrow> contents q = [] \<Longrightarrow>
      \<exists>q'. deq q = Inr (q', None) \<and> inv q' \<and> contents q' = []"
    and deq_cons: "inv q \<Longrightarrow> contents q = x # xs \<Longrightarrow>
      \<exists>q'. deq q = Inr (q', Some x) \<and> inv q' \<and> contents q' = xs"
begin

text \<open>Emptying the queue terminates and hands every element over once, oldest first.\<close>

lemma drain_contents:
  assumes "inv q" and "fold_res f (contents q) u = Inr u'"
  shows "\<exists>q'. drain (\<lambda>(q, u). cbind (deq q) (\<lambda>(q, m). Inr ((q, u), m)))
                (\<lambda>m (q, u). cbind (f m u) (\<lambda>u. Inr (q, u))) (q, u) = Some (Inr (q', u'))
          \<and> inv q' \<and> contents q' = []"
  using assms
proof (induction "contents q" arbitrary: q u)
  case Nil
  then obtain q1 where q1: "deq q = Inr (q1, None)" "inv q1" "contents q1 = []"
    using deq_empty [of q] by metis
  from Nil q1 show ?case
    by (intro exI [of _ q1]) (auto intro!: drain_empty)
next
  case (Cons x xs)
  then obtain q1 where q1: "deq q = Inr (q1, Some x)" "inv q1" "contents q1 = xs"
    using deq_cons [of q x xs] by metis
  from Cons.prems(2) obtain u1 where u1: "f x u = Inr u1" "fold_res f xs u1 = Inr u'"
    by (auto simp: Cons.hyps(2) [symmetric] cbind_Inr_iff)
  have "drain (\<lambda>(q, u). cbind (deq q) (\<lambda>(q, m). Inr ((q, u), m)))
          (\<lambda>m (q, u). cbind (f m u) (\<lambda>u. Inr (q, u))) (q, u)
      = drain (\<lambda>(q, u). cbind (deq q) (\<lambda>(q, m). Inr ((q, u), m)))
          (\<lambda>m (q, u). cbind (f m u) (\<lambda>u. Inr (q, u))) (q1, u1)"
    by (rule drain_step [where m = x and ?s1.0 = "(q1, u)"]) (simp_all add: q1 u1)
  with Cons.hyps(1) [of q1 u1] q1 u1 show ?case by simp
qed

end

text \<open>The whole queue.\<close>

locale fifo_queue = fifo_source deq contents inv
  for deq :: "'q \<Rightarrow> ('q \<times> 'a option) res" and contents :: "'q \<Rightarrow> 'a list" and inv :: "'q \<Rightarrow> bool" +
  fixes enq :: "'q \<Rightarrow> 'a \<Rightarrow> 'q res"
    and bound :: nat
  assumes enq_ok: "inv q \<Longrightarrow> length (contents q) + 1 < bound \<Longrightarrow>
      \<exists>q'. enq q x = Inr q' \<and> inv q' \<and> contents q' = contents q @ [x]"
begin

lemma run_refines:
  assumes "inv q" and "length (contents q) + enqs ops + 1 \<le> bound"
  shows "\<exists>q'. run_queue enq deq q ops = Inr (q', snd (spec_queue (contents q) ops)) \<and> inv q'
    \<and> contents q' = fst (spec_queue (contents q) ops)"
  using assms
proof (induction ops arbitrary: q)
  case Nil
  then show ?case by simp
next
  case (Cons a ops)
  show ?case
  proof (cases a)
    case (Enq x)
    with Cons.prems obtain q1 where q1: "enq q x = Inr q1" "inv q1" "contents q1 = contents q @ [x]"
      using enq_ok [of q x] by auto
    with Cons.prems Enq have "length (contents q1) + enqs ops + 1 \<le> bound" by simp
    from Cons.IH [OF q1(2) this] q1 Enq show ?thesis by simp
  next
    case Deq
    show ?thesis
    proof (cases "contents q")
      case Nil
      from deq_empty [OF Cons.prems(1) Nil] obtain q1
        where q1: "deq q = Inr (q1, None)" "inv q1" "contents q1 = []" by blast
      from Cons.IH [OF q1(2)] q1 Cons.prems Deq Nil show ?thesis
        by (auto simp: case_prod_beta)
    next
      case (Cons x xs)
      from deq_cons [OF Cons.prems(1) Cons] obtain q1
        where q1: "deq q = Inr (q1, Some x)" "inv q1" "contents q1 = xs" by blast
      with Cons.prems Deq Cons have "length (contents q1) + enqs ops + 1 \<le> bound" by simp
      from Cons.IH [OF q1(2) this] q1 Deq Cons show ?thesis
        by (auto simp: case_prod_beta)
    qed
  qed
qed

end

end
