(* ===== verification/Sky_MQ.thy ===== *)
theory Sky_MQ
  imports Sky_Queue
begin

text \<open>
  Model of \<^verbatim>\<open>skynet-src/skynet_mq.c\<close>: the per-service message queue (a growing ring
  buffer), and the global queue, a singly linked list of the message queues that have work,
  threaded through their \<open>next\<close> fields. Message queues live in a store from addresses to
  records, so that the list surgery of \<open>skynet_globalmq_push\<close> and \<open>skynet_globalmq_pop\<close> is the
  one of the C code, aliasing included.

  First the ring buffer on one record, then the operations on the store. Every operation runs
  under the spin lock of its queue (or of the global queue), so it is one atomic step here.
\<close>

section \<open>Data\<close>

record skynet_message =
  source :: u32
  session :: int
  msg_data :: nat
  sz :: u64

type_synonym qptr = nat

record message_queue =
  mq_handle :: u32
  mq_cap :: nat
  mq_head :: nat
  mq_tail :: nat
  mq_release :: nat
  mq_in_global :: nat
  mq_overload :: nat
  mq_overload_threshold :: nat
  mq_queue :: "skynet_message option list"
  mq_next :: "qptr option"

record global_queue =
  mqs :: "qptr \<Rightarrow> message_queue option"
  gq_head :: "qptr option"
  gq_tail :: "qptr option"

definition DEFAULT_QUEUE_SIZE :: nat where "DEFAULT_QUEUE_SIZE = 64"
definition MQ_IN_GLOBAL :: nat where "MQ_IN_GLOBAL = 1"
definition MQ_OVERLOAD :: nat where "MQ_OVERLOAD = 1024"

text \<open>The type of a message is in the top 8 bits of \<open>sz\<close>; the types of \<^verbatim>\<open>skynet.h\<close> the core uses.\<close>

definition MESSAGE_TYPE_SHIFT :: nat where "MESSAGE_TYPE_SHIFT = 56"
definition MESSAGE_TYPE_MASK :: u64 where "MESSAGE_TYPE_MASK = drop_bit 8 (-1)"
definition PTYPE_TEXT :: nat where "PTYPE_TEXT = 0"
definition PTYPE_RESPONSE :: nat where "PTYPE_RESPONSE = 1"
definition PTYPE_CLIENT :: nat where "PTYPE_CLIENT = 3"
definition PTYPE_SYSTEM :: nat where "PTYPE_SYSTEM = 4"
definition PTYPE_HARBOR :: nat where "PTYPE_HARBOR = 5"
definition PTYPE_SOCKET :: nat where "PTYPE_SOCKET = 6"
definition PTYPE_ERROR :: nat where "PTYPE_ERROR = 7"

section \<open>One queue\<close>

definition mq_new :: "u32 \<Rightarrow> message_queue" where
  "mq_new handle = \<lparr>
     mq_handle = handle,
     mq_cap = DEFAULT_QUEUE_SIZE,
     mq_head = 0,
     mq_tail = 0,
     mq_release = 0,
     mq_in_global = MQ_IN_GLOBAL,
     mq_overload = 0,
     mq_overload_threshold = MQ_OVERLOAD,
     mq_queue = replicate DEFAULT_QUEUE_SIZE None,
     mq_next = None\<rparr>"

definition skynet_mq_length :: "message_queue \<Rightarrow> nat" where
  "skynet_mq_length q =
     (if mq_head q \<le> mq_tail q then mq_tail q - mq_head q
      else mq_tail q + mq_cap q - mq_head q)"

definition skynet_mq_overload :: "message_queue \<Rightarrow> message_queue \<times> nat" where
  "skynet_mq_overload q =
     (if mq_overload q \<noteq> 0 then (q\<lparr>mq_overload := 0\<rparr>, mq_overload q) else (q, 0))"

text \<open>
  The loop that raises the overload threshold, on (overload, threshold). With a threshold of
  zero the C loop would double zero for ever; the doubling is checked for signed overflow.
\<close>

function overload_loop :: "nat \<Rightarrow> nat \<Rightarrow> nat \<Rightarrow> (nat \<times> nat) res" where
  "overload_loop len overload threshold =
     (if len > threshold then
        if threshold = 0 then Inl Diverges
        else if 2 * threshold > INT_MAX then Inl IntOverflow
        else overload_loop len len (2 * threshold)
      else Inr (overload, threshold))"
  by pat_completeness auto
termination
  by (relation "measure (\<lambda>(len, overload, threshold). len - threshold)") auto

declare overload_loop.simps [simp del]

text \<open>\<open>mq_pop\<close> is the critical section of \<open>skynet_mq_pop\<close>; \<open>None\<close> is the return value 1.\<close>

definition mq_pop :: "message_queue \<Rightarrow> (message_queue \<times> skynet_message option) res" where
  "mq_pop q =
     (if mq_head q \<noteq> mq_tail q then
        cbind (arr_get (mq_queue q) (mq_head q)) (\<lambda>message.
        let head = mq_head q + 1;
            tail = mq_tail q;
            cap = mq_cap q;
            head = (if head \<ge> cap then 0 else head);
            len = int tail - int head;
            len = (if len < 0 then len + int cap else len)
        in cbind (overload_loop (nat len) (mq_overload q) (mq_overload_threshold q))
             (\<lambda>(overload, threshold).
                Inr (q\<lparr>mq_head := head, mq_overload := overload,
                       mq_overload_threshold := threshold\<rparr>, Some message)))
      else
        Inr (q\<lparr>mq_overload_threshold := MQ_OVERLOAD, mq_in_global := 0\<rparr>, None))"

text \<open>\<open>expand_queue\<close> copies every cell (written or not) of the full ring into a new array.\<close>

definition expand_queue :: "message_queue \<Rightarrow> message_queue res" where
  "expand_queue q =
     (if mq_cap q * 2 > INT_MAX then Inl IntOverflow
      else if length (mq_queue q) < mq_cap q then Inl OutOfBounds
      else Inr (q\<lparr>
        mq_queue := map (\<lambda>i. mq_queue q ! ((mq_head q + i) mod mq_cap q)) [0..<mq_cap q]
                    @ replicate (mq_cap q) None,
        mq_head := 0,
        mq_tail := mq_cap q,
        mq_cap := mq_cap q * 2\<rparr>))"

definition mq_enqueue :: "message_queue \<Rightarrow> skynet_message \<Rightarrow> message_queue res" where
  "mq_enqueue q message =
     cbind (arr_set (mq_queue q) (mq_tail q) message) (\<lambda>arr.
     let tail = mq_tail q + 1;
         tail = (if tail \<ge> mq_cap q then 0 else tail);
         q = q\<lparr>mq_queue := arr, mq_tail := tail\<rparr>
     in if mq_head q = mq_tail q then expand_queue q else Inr q)"

section \<open>The global queue\<close>

definition skynet_mq_init :: global_queue where
  "skynet_mq_init = \<lparr>mqs = (\<lambda>_. None), gq_head = None, gq_tail = None\<rparr>"

definition upd_mq :: "qptr \<Rightarrow> message_queue \<Rightarrow> global_queue \<Rightarrow> global_queue" where
  "upd_mq p q s = s\<lparr>mqs := (mqs s)(p \<mapsto> q)\<rparr>"

definition skynet_globalmq_push :: "global_queue \<Rightarrow> qptr \<Rightarrow> global_queue res" where
  "skynet_globalmq_push s p =
     cbind (deref (mqs s) p) (\<lambda>queue.
     cbind (c_assert (mq_next queue = None)) (\<lambda>_.
     case gq_tail s of
       Some t \<Rightarrow>
         cbind (deref (mqs s) t) (\<lambda>tq.
         Inr ((upd_mq t (tq\<lparr>mq_next := Some p\<rparr>) s)\<lparr>gq_tail := Some p\<rparr>))
     | None \<Rightarrow> Inr (s\<lparr>gq_head := Some p, gq_tail := Some p\<rparr>)))"

definition skynet_globalmq_pop :: "global_queue \<Rightarrow> (global_queue \<times> qptr option) res" where
  "skynet_globalmq_pop s =
     (case gq_head s of
        None \<Rightarrow> Inr (s, None)
      | Some p \<Rightarrow>
          cbind (deref (mqs s) p) (\<lambda>mq.
          let s = s\<lparr>gq_head := mq_next mq\<rparr> in
          if mq_next mq = None then
            cbind (c_assert (gq_tail s = Some p)) (\<lambda>_.
            Inr (upd_mq p (mq\<lparr>mq_next := None\<rparr>) (s\<lparr>gq_tail := None\<rparr>), Some p))
          else Inr (upd_mq p (mq\<lparr>mq_next := None\<rparr>) s, Some p)))"

text \<open>\<open>p\<close> is the address the allocator returned for the new queue.\<close>

definition skynet_mq_create :: "global_queue \<Rightarrow> qptr \<Rightarrow> u32 \<Rightarrow> global_queue" where
  "skynet_mq_create s p handle = upd_mq p (mq_new handle) s"

definition skynet_mq_handle :: "global_queue \<Rightarrow> qptr \<Rightarrow> u32 res" where
  "skynet_mq_handle s p = cbind (deref (mqs s) p) (\<lambda>q. Inr (mq_handle q))"

definition skynet_mq_pop :: "global_queue \<Rightarrow> qptr \<Rightarrow> (global_queue \<times> skynet_message option) res" where
  "skynet_mq_pop s p =
     cbind (deref (mqs s) p) (\<lambda>q.
     cbind (mq_pop q) (\<lambda>(q', m). Inr (upd_mq p q' s, m)))"

definition skynet_mq_push :: "global_queue \<Rightarrow> qptr \<Rightarrow> skynet_message \<Rightarrow> global_queue res" where
  "skynet_mq_push s p message =
     cbind (deref (mqs s) p) (\<lambda>q.
     cbind (mq_enqueue q message) (\<lambda>q.
     if mq_in_global q = 0 then
       skynet_globalmq_push (upd_mq p (q\<lparr>mq_in_global := MQ_IN_GLOBAL\<rparr>) s) p
     else Inr (upd_mq p q s)))"

definition skynet_mq_mark_release :: "global_queue \<Rightarrow> qptr \<Rightarrow> global_queue res" where
  "skynet_mq_mark_release s p =
     cbind (deref (mqs s) p) (\<lambda>q.
     cbind (c_assert (mq_release q = 0)) (\<lambda>_.
     let s = upd_mq p (q\<lparr>mq_release := 1\<rparr>) s in
     if mq_in_global q \<noteq> MQ_IN_GLOBAL then skynet_globalmq_push s p else Inr s))"

definition mq_free :: "global_queue \<Rightarrow> qptr \<Rightarrow> global_queue res" where
  "mq_free s p =
     cbind (deref (mqs s) p) (\<lambda>q.
     cbind (c_assert (mq_next q = None)) (\<lambda>_.
     Inr (s\<lparr>mqs := (mqs s)(p := None)\<rparr>)))"

text \<open>
  \<open>skynet_mq_release\<close> with its \<open>_drop_queue\<close>: \<open>ud\<close> is what \<open>drop_func\<close> works on.
\<close>

definition drop_queue ::
  "(skynet_message \<Rightarrow> 'u \<Rightarrow> 'u res) \<Rightarrow> global_queue \<times> 'u \<Rightarrow> qptr \<Rightarrow> (global_queue \<times> 'u) res option" where
  "drop_queue drop_func su p =
     map_option (\<lambda>r. cbind r (\<lambda>(s, ud). cbind (mq_free s p) (\<lambda>s. Inr (s, ud))))
       (drain (\<lambda>(s, ud). cbind (skynet_mq_pop s p) (\<lambda>(s, m). Inr ((s, ud), m)))
              (\<lambda>m (s, ud). cbind (drop_func m ud) (\<lambda>ud. Inr (s, ud))) su)"

definition skynet_mq_release ::
  "(skynet_message \<Rightarrow> 'u \<Rightarrow> 'u res) \<Rightarrow> global_queue \<times> 'u \<Rightarrow> qptr \<Rightarrow> (global_queue \<times> 'u) res option" where
  "skynet_mq_release drop_func su p =
     (case deref (mqs (fst su)) p of
        Inl e \<Rightarrow> Some (Inl e)
      | Inr q \<Rightarrow>
          if mq_release q \<noteq> 0 then drop_queue drop_func su p
          else Some (cbind (skynet_globalmq_push (fst su) p) (\<lambda>s. Inr (s, snd su))))"

section \<open>The ring buffer is a first-in first-out queue\<close>

definition mq_contents :: "message_queue \<Rightarrow> skynet_message list" where
  "mq_contents q =
     map (\<lambda>i. the (mq_queue q ! ((mq_head q + i) mod mq_cap q))) [0..<skynet_mq_length q]"

definition mq_wf :: "message_queue \<Rightarrow> bool" where
  "mq_wf q \<longleftrightarrow>
     cap_ok (mq_cap q) \<and> length (mq_queue q) = mq_cap q
     \<and> mq_head q < mq_cap q \<and> mq_tail q < mq_cap q \<and> 0 < mq_overload_threshold q
     \<and> (\<forall>i < skynet_mq_length q. mq_queue q ! ((mq_head q + i) mod mq_cap q) \<noteq> None)"

text \<open>The bookkeeping fields play no part in the ring.\<close>

lemma mq_length_frame [simp]:
  "skynet_mq_length (q\<lparr>mq_in_global := g\<rparr>) = skynet_mq_length q"
  "skynet_mq_length (q\<lparr>mq_next := n\<rparr>) = skynet_mq_length q"
  "skynet_mq_length (q\<lparr>mq_release := r\<rparr>) = skynet_mq_length q"
  "skynet_mq_length (q\<lparr>mq_overload := v\<rparr>) = skynet_mq_length q"
  "skynet_mq_length (q\<lparr>mq_overload_threshold := t\<rparr>) = skynet_mq_length q"
  by (simp_all add: skynet_mq_length_def)

lemma mq_contents_frame [simp]:
  "mq_contents (q\<lparr>mq_in_global := g\<rparr>) = mq_contents q"
  "mq_contents (q\<lparr>mq_next := n\<rparr>) = mq_contents q"
  "mq_contents (q\<lparr>mq_release := r\<rparr>) = mq_contents q"
  "mq_contents (q\<lparr>mq_overload := v\<rparr>) = mq_contents q"
  "mq_contents (q\<lparr>mq_overload_threshold := t\<rparr>) = mq_contents q"
  by (simp_all add: mq_contents_def)

lemma mq_wf_frame [simp]:
  "mq_wf (q\<lparr>mq_in_global := g\<rparr>) = mq_wf q"
  "mq_wf (q\<lparr>mq_next := n\<rparr>) = mq_wf q"
  "mq_wf (q\<lparr>mq_release := r\<rparr>) = mq_wf q"
  "mq_wf (q\<lparr>mq_overload := v\<rparr>) = mq_wf q"
  "mq_wf q \<Longrightarrow> 0 < t \<Longrightarrow> mq_wf (q\<lparr>mq_overload_threshold := t\<rparr>)"
  by (simp_all add: mq_wf_def)

lemma mq_wfD:
  assumes "mq_wf q"
  shows "length (mq_queue q) = mq_cap q" "mq_head q < mq_cap q" "mq_tail q < mq_cap q"
    "0 < mq_overload_threshold q" "mq_cap q \<le> 2 ^ 30" "cap_ok (mq_cap q)"
  using assms by (simp_all add: mq_wf_def cap_ok_le del: power_numeral numeral_power_eq_of_nat_cancel_iff)

lemma mq_wf_slot:
  "mq_wf q \<Longrightarrow> i < skynet_mq_length q \<Longrightarrow>
    mq_queue q ! ((mq_head q + i) mod mq_cap q) = Some (mq_contents q ! i)"
  by (auto simp: mq_wf_def mq_contents_def)

lemma length_mq_contents [simp]: "length (mq_contents q) = skynet_mq_length q"
  by (simp add: mq_contents_def)

lemma mq_length_lt_cap: "mq_wf q \<Longrightarrow> skynet_mq_length q < mq_cap q"
  by (auto simp: mq_wf_def skynet_mq_length_def)

lemma mq_tail_eq:
  "mq_wf q \<Longrightarrow> mq_tail q = (mq_head q + skynet_mq_length q) mod mq_cap q"
  by (auto simp: mq_wf_def skynet_mq_length_def mod_if)

lemma mq_contents_empty: "mq_wf q \<Longrightarrow> mq_contents q = [] \<longleftrightarrow> mq_head q = mq_tail q"
  by (auto simp: mq_contents_def skynet_mq_length_def mq_wf_def)

lemma mq_new_wf: "mq_wf (mq_new h)"
  by (simp add: mq_wf_def mq_new_def DEFAULT_QUEUE_SIZE_def MQ_OVERLOAD_def skynet_mq_length_def)

lemma mq_new_contents [simp]: "mq_contents (mq_new h) = []"
  by (simp add: mq_contents_def mq_new_def skynet_mq_length_def)

text \<open>The overload loop ends with a threshold the length does not exceed.\<close>

lemma overload_loop_ok:
  assumes "0 < t" "len < 2 ^ 30"
  shows "\<exists>ov' t'. overload_loop len ov t = Inr (ov', t') \<and> len \<le> t' \<and> t \<le> t'
    \<and> ov' = (if t < len then len else ov)"
  using assms
proof (induction len ov t rule: overload_loop.induct)
  case (1 len ov t)
  show ?case
  proof (cases "len > t")
    case True
    with "1.prems" have small: "\<not> 2 * t > INT_MAX" by (simp add: INT_MAX_def)
    from "1.IH" True "1.prems" small obtain ov' t' where
      "overload_loop len len (2 * t) = Inr (ov', t')" "len \<le> t'" "2 * t \<le> t'"
      "ov' = (if 2 * t < len then len else len)"
      by auto
    with True small "1.prems" show ?thesis
      by (auto simp: overload_loop.simps [of len ov t])
  next
    case False
    then show ?thesis by (simp add: overload_loop.simps [of len ov t])
  qed
qed

lemma ring_next: "(if Suc i \<ge> c then 0 else Suc i) = Suc i mod c" if "i < c" for i c :: nat
  using that by (auto simp: not_less_eq_eq not_le mod_if)

lemma mq_pop_empty:
  assumes "mq_wf q" "mq_contents q = []"
  shows "mq_pop q = Inr (q\<lparr>mq_overload_threshold := MQ_OVERLOAD, mq_in_global := 0\<rparr>, None)"
  using assms by (simp add: mq_contents_empty mq_pop_def)

lemma mq_head_length:
  assumes "mq_wf q" "skynet_mq_length q = Suc n"
  shows "skynet_mq_length (q\<lparr>mq_head := Suc (mq_head q) mod mq_cap q\<rparr>) = n"
  using assms by (auto simp: skynet_mq_length_def mq_wf_def mod_if split: if_splits)

lemma mq_pop_cons:
  assumes wf: "mq_wf q" and c: "mq_contents q = x # xs"
  shows "\<exists>ov t. mq_pop q = Inr (q\<lparr>mq_head := Suc (mq_head q) mod mq_cap q,
      mq_overload := ov, mq_overload_threshold := t\<rparr>, Some x)
    \<and> length xs \<le> t \<and> mq_overload_threshold q \<le> t
    \<and> ov = (if mq_overload_threshold q < length xs then length xs else mq_overload q)"
proof -
  have len: "skynet_mq_length q = Suc (length xs)"
    using arg_cong [OF c, of length] by simp
  have ne: "mq_head q \<noteq> mq_tail q" using mq_contents_empty [OF wf] c by simp
  have get: "arr_get (mq_queue q) (mq_head q) = Inr x"
    using mq_wf_slot [OF wf, of 0] mq_wfD [OF wf] len c by (simp add: arr_get_Some)
  let ?h = "Suc (mq_head q) mod mq_cap q"
  have hlt: "h < mq_cap q \<Longrightarrow> skynet_mq_length (q\<lparr>mq_head := h\<rparr>) = n \<Longrightarrow>
      (if int (mq_tail q) - int h < 0 then int (mq_tail q) - int h + int (mq_cap q)
      else int (mq_tail q) - int h) = int n" for h n
    by (auto simp: skynet_mq_length_def split: if_splits)
  have lenh: "(if int (mq_tail q) - int ?h < 0 then int (mq_tail q) - int ?h + int (mq_cap q)
      else int (mq_tail q) - int ?h) = int (length xs)"
    by (rule hlt) (use mq_head_length [OF wf len] mq_wfD(2) [OF wf] in simp_all)
  have "length xs < 2 ^ 30"
    using mq_length_lt_cap [OF wf] mq_wfD(5) [OF wf] len by simp
  from overload_loop_ok [OF mq_wfD(4) [OF wf] this] obtain ov t where
    "overload_loop (length xs) (mq_overload q) (mq_overload_threshold q) = Inr (ov, t)"
    "length xs \<le> t" "mq_overload_threshold q \<le> t"
    "ov = (if mq_overload_threshold q < length xs then length xs else mq_overload q)"
    by blast
  note loop = this
  have "mq_pop q =
      cbind (overload_loop (nat (if int (mq_tail q) - int ?h < 0
          then int (mq_tail q) - int ?h + int (mq_cap q) else int (mq_tail q) - int ?h))
        (mq_overload q) (mq_overload_threshold q))
      (\<lambda>(ov, t). Inr (q\<lparr>mq_head := ?h, mq_overload := ov, mq_overload_threshold := t\<rparr>, Some x))"
    unfolding mq_pop_def Let_def Suc_eq_plus1 [symmetric] ring_next [OF mq_wfD(2) [OF wf]] get
    using ne by simp
  then have "mq_pop q =
      Inr (q\<lparr>mq_head := ?h, mq_overload := ov, mq_overload_threshold := t\<rparr>, Some x)"
    unfolding lenh nat_int loop(1) by simp
  with loop(2-) show ?thesis by blast
qed

text \<open>Advancing the head drops the first element.\<close>

lemma mq_contents_advance:
  fixes ov :: nat
  assumes wf: "mq_wf q" and c: "mq_contents q = x # xs" and t: "0 < t"
  defines "q' \<equiv> q\<lparr>mq_head := Suc (mq_head q) mod mq_cap q,
      mq_overload := ov, mq_overload_threshold := t\<rparr>"
  shows "mq_contents q' = xs" "mq_wf q'"
proof -
  have len: "skynet_mq_length q = Suc (length xs)"
    using arg_cong [OF c, of length] by simp
  have len': "skynet_mq_length q' = length xs"
    using mq_head_length [OF wf len] by (simp add: q'_def skynet_mq_length_def split: if_splits)
  have slot: "(mq_head q' + i) mod mq_cap q' = (mq_head q + Suc i) mod mq_cap q" for i
    by (simp add: q'_def mod_simps)
  show "mq_contents q' = xs"
  proof (rule nth_equalityI)
    show "length (mq_contents q') = length xs" by (simp add: len')
    fix i assume "i < length (mq_contents q')"
    then have i: "i < length xs" by (simp add: len')
    have "mq_queue q ! ((mq_head q + Suc i) mod mq_cap q) = Some (xs ! i)"
      using mq_wf_slot [OF wf, of "Suc i"] len c i by simp
    then show "mq_contents q' ! i = xs ! i"
      using i by (simp add: mq_contents_def len' slot) (simp add: q'_def)
  qed
  show "mq_wf q'"
    using wf t unfolding mq_wf_def len' len slot
    by (auto simp: q'_def)
qed

text \<open>Writing at the tail of a ring with a free cell to spare appends.\<close>

lemma mq_append_contents:
  fixes m :: skynet_message
  assumes wf: "mq_wf q" and room: "Suc (skynet_mq_length q) < mq_cap q"
  defines "q' \<equiv> q\<lparr>mq_queue := (mq_queue q)[mq_tail q := Some m],
      mq_tail := Suc (mq_tail q) mod mq_cap q\<rparr>"
  shows "mq_contents q' = mq_contents q @ [m]" "mq_wf q'"
proof -
  let ?n = "skynet_mq_length q"
  note D = mq_wfD [OF wf]
  have len': "skynet_mq_length q' = Suc ?n"
    using D room by (auto simp: q'_def skynet_mq_length_def mod_if split: if_splits)
  have old: "mq_queue q' ! ((mq_head q + i) mod mq_cap q) = Some (mq_contents q ! i)"
    if "i < ?n" for i
  proof -
    have "(mq_head q + i) mod mq_cap q \<noteq> mq_tail q"
      using mod_shift_inj [of "mq_head q" i "mq_cap q" ?n] mq_tail_eq [OF wf]
        mq_length_lt_cap [OF wf] that by auto
    then show ?thesis
      using mq_wf_slot [OF wf that] by (simp add: q'_def)
  qed
  have new: "mq_queue q' ! ((mq_head q + ?n) mod mq_cap q) = Some m"
    using mq_tail_eq [OF wf] D by (simp add: q'_def)
  have fields: "mq_head q' = mq_head q" "mq_cap q' = mq_cap q" by (simp_all add: q'_def)
  show "mq_contents q' = mq_contents q @ [m]"
  proof (rule nth_equalityI)
    show "length (mq_contents q') = length (mq_contents q @ [m])" by (simp add: len')
    fix i assume "i < length (mq_contents q')"
    then show "mq_contents q' ! i = (mq_contents q @ [m]) ! i"
      by (auto simp: mq_contents_def [of q'] len' fields less_Suc_eq nth_append old new)
  qed
  show "mq_wf q'"
    unfolding mq_wf_def len' fields
    using D old new by (auto simp: q'_def less_Suc_eq)
qed

text \<open>Expanding a completely filled ring (head and tail meet, every cell is a message).\<close>

lemma expand_queue_contents:
  assumes cap: "cap_ok (mq_cap q)" "mq_cap q < 2 ^ 30" and len: "length (mq_queue q) = mq_cap q"
    and full: "\<And>i. i < mq_cap q \<Longrightarrow> mq_queue q ! ((mq_head q + i) mod mq_cap q) = Some (ms ! i)"
    and ms: "length ms = mq_cap q" and t: "0 < mq_overload_threshold q"
  shows "\<exists>arr. expand_queue q = Inr (q\<lparr>mq_queue := arr, mq_head := 0, mq_tail := mq_cap q,
            mq_cap := mq_cap q * 2\<rparr>)
          \<and> mq_wf (q\<lparr>mq_queue := arr, mq_head := 0, mq_tail := mq_cap q, mq_cap := mq_cap q * 2\<rparr>)
          \<and> mq_contents (q\<lparr>mq_queue := arr, mq_head := 0, mq_tail := mq_cap q,
               mq_cap := mq_cap q * 2\<rparr>) = ms"
proof -
  let ?c = "mq_cap q"
  let ?arr = "map (\<lambda>i. mq_queue q ! ((mq_head q + i) mod ?c)) [0..<?c] @ replicate ?c None"
  let ?q = "q\<lparr>mq_queue := ?arr, mq_head := 0, mq_tail := ?c, mq_cap := ?c * 2\<rparr>"
  have pos: "0 < ?c" using cap by auto
  have cell: "?arr ! i = Some (ms ! i)" if "i < ?c" for i
    using that full by (simp add: nth_append)
  have "expand_queue q = Inr ?q"
    using cap_lt_INT_MAX [OF cap(2)] len by (simp add: expand_queue_def)
  moreover have lenq: "skynet_mq_length ?q = ?c" by (simp add: skynet_mq_length_def)
  moreover have "mq_contents ?q = ms"
    by (rule nth_equalityI) (simp_all add: mq_contents_def lenq ms cell)
  moreover have "mq_wf ?q"
    unfolding mq_wf_def lenq using cap_ok_double [OF cap] pos t
    by (auto simp: cell)
  ultimately show ?thesis by blast
qed

lemma mq_enqueue_step:
  assumes "mq_wf q"
  shows "mq_enqueue q m =
    (let q' = q\<lparr>mq_queue := (mq_queue q)[mq_tail q := Some m], mq_tail := Suc (mq_tail q) mod mq_cap q\<rparr>
     in if mq_head q = Suc (mq_tail q) mod mq_cap q then expand_queue q' else Inr q')"
  using mq_wfD [OF assms] by (simp add: mq_enqueue_def arr_set_ok Let_def ring_next)

lemma mq_enqueue_ok:
  assumes wf: "mq_wf q" and room: "Suc (skynet_mq_length q) < 2 ^ 30"
  shows "\<exists>q'. mq_enqueue q m = Inr q' \<and> mq_wf q' \<and> mq_contents q' = mq_contents q @ [m]
    \<and> mq_handle q' = mq_handle q \<and> mq_release q' = mq_release q
    \<and> mq_in_global q' = mq_in_global q \<and> mq_next q' = mq_next q"
proof -
  note D = mq_wfD [OF wf]
  let ?n = "skynet_mq_length q"
  let ?q = "q\<lparr>mq_queue := (mq_queue q)[mq_tail q := Some m],
      mq_tail := Suc (mq_tail q) mod mq_cap q\<rparr>"
  note step = mq_enqueue_step [OF wf, of m, unfolded Let_def]
  have tail: "Suc (mq_tail q) mod mq_cap q = (mq_head q + Suc ?n) mod mq_cap q"
    using mq_tail_eq [OF wf] by (simp add: mod_simps)
  have le: "Suc ?n \<le> mq_cap q" using mq_length_lt_cap [OF wf] by simp
  show ?thesis
  proof (cases "Suc ?n = mq_cap q")
    case True
    then have eq: "mq_head q = Suc (mq_tail q) mod mq_cap q" using tail D by simp
    have cells: "mq_queue ?q ! ((mq_head ?q + i) mod mq_cap ?q) = Some ((mq_contents q @ [m]) ! i)"
      if "i < mq_cap ?q" for i
    proof (cases "i = ?n")
      case True
      then show ?thesis using mq_tail_eq [OF wf] D by (simp add: nth_append)
    next
      case False
      with that \<open>Suc ?n = mq_cap q\<close> have i: "i < ?n" by simp
      have "(mq_head q + i) mod mq_cap q \<noteq> mq_tail q"
        using mod_shift_inj [of "mq_head q" i "mq_cap q" ?n] mq_tail_eq [OF wf]
          mq_length_lt_cap [OF wf] i by auto
      then show ?thesis using mq_wf_slot [OF wf i] i by (simp add: nth_append)
    qed
    have "\<exists>arr. expand_queue ?q = Inr (?q\<lparr>mq_queue := arr, mq_head := 0, mq_tail := mq_cap ?q,
            mq_cap := mq_cap ?q * 2\<rparr>)
          \<and> mq_wf (?q\<lparr>mq_queue := arr, mq_head := 0, mq_tail := mq_cap ?q, mq_cap := mq_cap ?q * 2\<rparr>)
          \<and> mq_contents (?q\<lparr>mq_queue := arr, mq_head := 0, mq_tail := mq_cap ?q,
               mq_cap := mq_cap ?q * 2\<rparr>) = mq_contents q @ [m]"
      by (rule expand_queue_contents) (use D room True cells in simp_all)
    with eq step show ?thesis by auto
  next
    case False
    with le have lt: "Suc ?n < mq_cap q" by simp
    have "mq_head q \<noteq> Suc (mq_tail q) mod mq_cap q"
    proof
      assume "mq_head q = Suc (mq_tail q) mod mq_cap q"
      then have "(mq_head q + 0) mod mq_cap q = (mq_head q + Suc ?n) mod mq_cap q"
        using tail D by simp
      from mod_shift_inj [OF this] lt show False by simp
    qed
    with step mq_append_contents [OF wf lt, of m] show ?thesis by auto
  qed
qed

text \<open>A push that succeeds had room: the capacity never exceeds \<open>2 ^ 30\<close> cells.\<close>

lemma mq_enqueue_room:
  assumes wf: "mq_wf q" and ok: "mq_enqueue q m = Inr q'"
  shows "Suc (skynet_mq_length q) < 2 ^ 30"
proof (rule ccontr)
  assume full: "\<not> Suc (skynet_mq_length q) < 2 ^ 30"
  note D = mq_wfD [OF wf]
  from full mq_length_lt_cap [OF wf] D(5) have c: "mq_cap q = Suc (skynet_mq_length q)"
    "mq_cap q = 2 ^ 30" by simp_all
  have "Suc (mq_tail q) mod mq_cap q = (mq_head q + mq_cap q) mod mq_cap q"
    using mq_tail_eq [OF wf] c(1) by (simp add: mod_simps)
  then have "mq_head q = Suc (mq_tail q) mod mq_cap q" using D by simp
  with ok c(2) show False
    by (simp add: mq_enqueue_step [OF wf] Let_def expand_queue_def INT_MAX_def)
qed

section \<open>The queue interface\<close>

interpretation mq: fifo_queue mq_pop mq_contents mq_wf mq_enqueue "2 ^ 30"
proof
  fix q :: message_queue
  assume *: "mq_wf q" "mq_contents q = []"
  let ?q = "q\<lparr>mq_overload_threshold := MQ_OVERLOAD, mq_in_global := 0\<rparr>"
  have "mq_wf ?q" "mq_contents ?q = []"
    using * by (simp_all add: MQ_OVERLOAD_def)
  with mq_pop_empty [OF *]
  show "\<exists>q'. mq_pop q = Inr (q', None) \<and> mq_wf q' \<and> mq_contents q' = []" by blast
next
  fix q :: message_queue and x xs
  assume *: "mq_wf q" "mq_contents q = x # xs"
  from mq_pop_cons [OF *] obtain ov t where
    pop: "mq_pop q = Inr (q\<lparr>mq_head := Suc (mq_head q) mod mq_cap q,
      mq_overload := ov, mq_overload_threshold := t\<rparr>, Some x)"
    and t: "mq_overload_threshold q \<le> t" by blast
  from t mq_wfD(4) [OF *(1)] have "0 < t" by simp
  with pop mq_contents_advance [OF * this, of ov]
  show "\<exists>q'. mq_pop q = Inr (q', Some x) \<and> mq_wf q' \<and> mq_contents q' = xs" by blast
next
  fix q :: message_queue and x :: skynet_message
  assume "mq_wf q" "length (mq_contents q) + 1 < 2 ^ 30"
  then show "\<exists>q'. mq_enqueue q x = Inr q' \<and> mq_wf q' \<and> mq_contents q' = mq_contents q @ [x]"
    using mq_enqueue_ok [of q x] by auto
qed

text \<open>
  C1. The ring buffer of \<^verbatim>\<open>skynet_mq.c\<close> refines a first-in first-out list. From any
  well-formed queue and for any interleaving of pushes and pops that keeps fewer than
  \<open>2 ^ 30\<close> messages, no operation fails (no assertion, no access outside the array, no read of
  a cell that was never written, no overflow of the doubling capacity, no endless overload
  loop), and every pop returns what the same operation on a list returns.
\<close>

theorem mq_refines_fifo:
  assumes "mq_wf q" and "length (mq_contents q) + enqs ops + 1 \<le> 2 ^ 30"
  shows "\<exists>q'. run_queue mq_enqueue mq_pop q ops = Inr (q', snd (spec_queue (mq_contents q) ops))
    \<and> mq_wf q' \<and> mq_contents q' = fst (spec_queue (mq_contents q) ops)"
  using mq.run_refines [OF assms] .

theorem mq_refines_fifo_witness:
  "\<exists>q'. run_queue mq_enqueue mq_pop (mq_new 1)
      [Deq, Enq \<lparr>source = 2, session = 7, msg_data = 0, sz = 0\<rparr>, Deq]
    = Inr (q', [None, Some \<lparr>source = 2, session = 7, msg_data = 0, sz = 0\<rparr>])
    \<and> mq_contents q' = []"
  using mq_refines_fifo [OF mq_new_wf,
      of 1 "[Deq, Enq \<lparr>source = 2, session = 7, msg_data = 0, sz = 0\<rparr>, Deq]"]
  by auto

text \<open>
  Overload bookkeeping. After a successful pop the threshold is at least the number of
  messages left and never smaller than before; the overload flag holds that number exactly
  when it was above the old threshold and is otherwise untouched; popping an empty queue
  resets the threshold and takes the queue out of the global queue (\<open>in_global = 0\<close>).
\<close>

theorem mq_pop_overload:
  assumes "mq_wf q"
  shows "(case mq_contents q of
      [] \<Rightarrow> mq_pop q = Inr (q\<lparr>mq_overload_threshold := MQ_OVERLOAD, mq_in_global := 0\<rparr>, None)
    | x # xs \<Rightarrow> \<exists>q'. mq_pop q = Inr (q', Some x) \<and> mq_contents q' = xs
        \<and> skynet_mq_length q' = length xs
        \<and> length xs \<le> mq_overload_threshold q'
        \<and> mq_overload_threshold q \<le> mq_overload_threshold q'
        \<and> mq_overload q' =
            (if mq_overload_threshold q < length xs then length xs else mq_overload q)
        \<and> mq_in_global q' = mq_in_global q)"
proof (cases "mq_contents q")
  case Nil
  with mq_pop_empty [OF assms] show ?thesis by simp
next
  case (Cons x xs)
  from mq_pop_cons [OF assms Cons] obtain ov t where
    p: "mq_pop q = Inr (q\<lparr>mq_head := Suc (mq_head q) mod mq_cap q,
      mq_overload := ov, mq_overload_threshold := t\<rparr>, Some x)"
    "length xs \<le> t" "mq_overload_threshold q \<le> t"
    "ov = (if mq_overload_threshold q < length xs then length xs else mq_overload q)" by blast
  from p(3) mq_wfD(4) [OF assms] have "0 < t" by simp
  from mq_contents_advance(1) [OF assms Cons this, of ov] p Cons show ?thesis
    by (auto simp flip: length_mq_contents)
qed

theorem mq_pop_overload_witness:
  "mq_pop (mq_new 3) = Inr ((mq_new 3)\<lparr>mq_overload_threshold := MQ_OVERLOAD, mq_in_global := 0\<rparr>, None)"
  using mq_pop_overload [OF mq_new_wf, of 3] by simp

end
