(* ===== verification/Sky_Sched.thy ===== *)
theory Sky_Sched
  imports Sky_MQ
begin

text \<open>
  The global queue of \<^verbatim>\<open>skynet_mq.c\<close> as a list, and the protocol by which worker threads
  share the message queues (\<^verbatim>\<open>skynet_context_message_dispatch\<close> in \<^verbatim>\<open>skynet_server.c\<close>).

  \<open>global_wf s ps\<close> says that the linked list threaded through the \<open>next\<close> fields is exactly
  \<open>ps\<close>. The protocol is a step relation: every operation that runs under one lock is one step,
  and any number of threads take steps in any order. Its invariant gives the two facts the
  runtime rests on: no two workers ever hold the same queue (so a service never runs on two
  threads), and a queue with messages is never forgotten.
\<close>

section \<open>The linked list\<close>

fun gq_path :: "(qptr \<Rightarrow> message_queue option) \<Rightarrow> qptr option \<Rightarrow> qptr list \<Rightarrow> bool" where
  "gq_path st p [] = (p = None)"
| "gq_path st p (x # xs) = (p = Some x \<and> (\<exists>q. st x = Some q \<and> gq_path st (mq_next q) xs))"

definition global_wf :: "global_queue \<Rightarrow> qptr list \<Rightarrow> bool" where
  "global_wf s ps \<longleftrightarrow>
     gq_path (mqs s) (gq_head s) ps \<and> distinct ps
     \<and> gq_tail s = (if ps = [] then None else Some (last ps))
     \<and> (\<forall>p q. mqs s p = Some q \<longrightarrow> p \<notin> set ps \<longrightarrow> mq_next q = None)"

text \<open>What a queue is apart from its place in the global list.\<close>

definition qview :: "global_queue \<Rightarrow> qptr \<Rightarrow> message_queue option" where
  "qview s p = map_option (\<lambda>q. q\<lparr>mq_next := None\<rparr>) (mqs s p)"

lemma qview_Some: "mqs s p = Some q \<Longrightarrow> qview s p = Some (q\<lparr>mq_next := None\<rparr>)"
  by (simp add: qview_def)

lemma qview_None [simp]: "qview s p = None \<longleftrightarrow> mqs s p = None"
  by (simp add: qview_def)

lemma mqs_upd_mq [simp]: "mqs (upd_mq p q s) = (mqs s)(p \<mapsto> q)"
  by (simp add: upd_mq_def)

lemma gq_upd_mq [simp]:
  "gq_head (upd_mq p q s) = gq_head s" "gq_tail (upd_mq p q s) = gq_tail s"
  by (simp_all add: upd_mq_def)

lemma qview_upd_mq [simp]: "qview (upd_mq p q s) = (qview s)(p \<mapsto> q\<lparr>mq_next := None\<rparr>)"
  by (rule ext) (simp add: qview_def)

lemma qview_global [simp]:
  "qview (s\<lparr>gq_head := h\<rparr>) = qview s" "qview (s\<lparr>gq_tail := h\<rparr>) = qview s"
  by (simp_all add: qview_def fun_eq_iff)

lemma gq_path_frame: "x \<notin> set ps \<Longrightarrow> gq_path (st(x := v)) p ps = gq_path st p ps"
  by (induction ps arbitrary: p) auto

lemma gq_path_dom: "gq_path st p ps \<Longrightarrow> x \<in> set ps \<Longrightarrow> \<exists>q. st x = Some q"
  by (induction ps arbitrary: p) auto

text \<open>Changing a queue without its \<open>next\<close> field keeps the list.\<close>

lemma gq_path_upd:
  "gq_path st p ps \<Longrightarrow> st x = Some q \<Longrightarrow> mq_next q' = mq_next q \<Longrightarrow>
   gq_path (st(x \<mapsto> q')) p ps"
  by (induction ps arbitrary: p) auto

lemma global_wf_upd:
  "global_wf s ps \<Longrightarrow> mqs s x = Some q \<Longrightarrow> mq_next q' = mq_next q \<Longrightarrow> global_wf (upd_mq x q' s) ps"
  by (auto simp: global_wf_def gq_path_upd)

lemma gq_path_snoc:
  assumes "gq_path st h ps" "ps \<noteq> []" "distinct ps" "st (last ps) = Some tq"
    "p \<notin> set ps" "st p = Some q" "mq_next q = None"
  shows "gq_path (st(last ps \<mapsto> tq\<lparr>mq_next := Some p\<rparr>)) h (ps @ [p])"
  using assms
proof (induction ps arbitrary: h)
  case Nil
  then show ?case by simp
next
  case (Cons x xs)
  show ?case
  proof (cases "xs = []")
    case True
    with Cons.prems show ?thesis by auto
  next
    case False
    with Cons.prems have "x \<noteq> last xs" by auto
    with Cons False show ?thesis by auto
  qed
qed

lemma globalmq_push_ok:
  assumes wf: "global_wf s ps" and q: "mqs s p = Some q" and new: "p \<notin> set ps"
  shows "\<exists>s'. skynet_globalmq_push s p = Inr s' \<and> global_wf s' (ps @ [p]) \<and> qview s' = qview s"
proof (cases "ps = []")
  case True
  with wf q have "mq_next q = None" by (auto simp: global_wf_def)
  with True wf q show ?thesis
    by (auto simp: skynet_globalmq_push_def global_wf_def deref_Some)
next
  case False
  from wf q new have nn: "mq_next q = None" by (auto simp: global_wf_def)
  from False wf obtain tq where tq: "mqs s (last ps) = Some tq"
    using gq_path_dom [of "mqs s" "gq_head s" ps "last ps"] by (auto simp: global_wf_def)
  from False new have neq: "last ps \<noteq> p" by (metis last_in_set)
  let ?s = "(upd_mq (last ps) (tq\<lparr>mq_next := Some p\<rparr>) s)\<lparr>gq_tail := Some p\<rparr>"
  have "skynet_globalmq_push s p = Inr ?s"
    using wf False q nn tq by (simp add: skynet_globalmq_push_def global_wf_def deref_Some)
  moreover have "global_wf ?s (ps @ [p])"
    using wf False new gq_path_snoc [of "mqs s" "gq_head s" ps tq p q] tq q nn
    by (auto simp: global_wf_def)
  moreover have "qview ?s = qview s"
    using tq by (auto simp: qview_def)
  ultimately show ?thesis by blast
qed

lemma globalmq_pop_nil: "global_wf s [] \<Longrightarrow> skynet_globalmq_pop s = Inr (s, None)"
  by (simp add: global_wf_def skynet_globalmq_pop_def)

lemma globalmq_pop_cons:
  assumes wf: "global_wf s (p # ps)"
  shows "\<exists>s'. skynet_globalmq_pop s = Inr (s', Some p) \<and> global_wf s' ps \<and> qview s' = qview s"
proof -
  from wf obtain q where q: "gq_head s = Some p" "mqs s p = Some q" "gq_path (mqs s) (mq_next q) ps"
    "p \<notin> set ps" by (auto simp: global_wf_def)
  show ?thesis
  proof (cases ps)
    case Nil
    with wf q show ?thesis
      by (auto simp: skynet_globalmq_pop_def global_wf_def deref_Some qview_def Let_def)
  next
    case (Cons y ys)
    with q have next_y: "mq_next q = Some y" by auto
    let ?s = "upd_mq p (q\<lparr>mq_next := None\<rparr>) (s\<lparr>gq_head := mq_next q\<rparr>)"
    have "skynet_globalmq_pop s = Inr (?s, Some p)"
      using q next_y by (simp add: skynet_globalmq_pop_def deref_Some Let_def)
    moreover have "global_wf ?s ps"
      using wf q Cons by (auto simp: global_wf_def gq_path_frame)
    moreover have "qview ?s = qview s" using q by (auto simp: qview_def)
    ultimately show ?thesis by blast
  qed
qed

section \<open>Operations on the store\<close>

lemma mq_push_ok:
  assumes wf: "global_wf s ps" and q: "mqs s p = Some q" "mq_wf q"
    and room: "Suc (skynet_mq_length q) < 2 ^ 30" and out: "mq_in_global q = 0 \<Longrightarrow> p \<notin> set ps"
  shows "\<exists>s' q'. skynet_mq_push s p m = Inr s' \<and> qview s' = (qview s)(p \<mapsto> q')
    \<and> global_wf s' (if mq_in_global q = 0 then ps @ [p] else ps)
    \<and> mq_wf q' \<and> mq_contents q' = mq_contents q @ [m] \<and> mq_release q' = mq_release q
    \<and> mq_handle q' = mq_handle q \<and> mq_in_global q' = (if mq_in_global q = 0 then 1 else mq_in_global q)"
proof -
  from mq_enqueue_ok [OF q(2) room, of m] obtain q1 where q1: "mq_enqueue q m = Inr q1" "mq_wf q1"
    "mq_contents q1 = mq_contents q @ [m]" "mq_handle q1 = mq_handle q" "mq_release q1 = mq_release q"
    "mq_in_global q1 = mq_in_global q" "mq_next q1 = mq_next q" by blast
  show ?thesis
  proof (cases "mq_in_global q = 0")
    case True
    let ?q = "q1\<lparr>mq_in_global := MQ_IN_GLOBAL\<rparr>"
    have wf1: "global_wf (upd_mq p ?q s) ps"
      using global_wf_upd [OF wf q(1), of ?q] q1 by simp
    from globalmq_push_ok [OF wf1, of p ?q] out True obtain s'
      where "skynet_globalmq_push (upd_mq p ?q s) p = Inr s'" "global_wf s' (ps @ [p])"
        "qview s' = qview (upd_mq p ?q s)" by auto
    with True q q1 show ?thesis
      by (auto simp: skynet_mq_push_def deref_Some MQ_IN_GLOBAL_def)
  next
    case False
    with q q1 wf global_wf_upd [OF wf q(1), of q1] show ?thesis
      by (auto simp: skynet_mq_push_def deref_Some)
  qed
qed

lemma mq_pop_frame:
  "mq_pop q = Inr (q', r) \<Longrightarrow> mq_next q' = mq_next q \<and> mq_release q' = mq_release q
    \<and> mq_handle q' = mq_handle q \<and> mq_in_global q' = (if r = None then 0 else mq_in_global q)"
  by (auto simp: mq_pop_def cbind_Inr_iff Let_def split: if_splits)

lemma mq_pop_store:
  assumes wf: "global_wf s ps" and q: "mqs s p = Some q" and p: "mq_pop q = Inr (q', r)"
  shows "skynet_mq_pop s p = Inr (upd_mq p q' s, r)" "global_wf (upd_mq p q' s) ps"
  using assms mq_pop_frame [OF p] by (auto simp: skynet_mq_pop_def deref_Some intro: global_wf_upd)

lemma mq_mark_release_ok:
  assumes wf: "global_wf s ps" and q: "mqs s p = Some q" "mq_release q = 0"
    and out: "mq_in_global q \<noteq> MQ_IN_GLOBAL \<Longrightarrow> p \<notin> set ps"
  shows "\<exists>s'. skynet_mq_mark_release s p = Inr s'
    \<and> qview s' = (qview s)(p \<mapsto> q\<lparr>mq_release := 1, mq_next := None\<rparr>)
    \<and> global_wf s' (if mq_in_global q \<noteq> MQ_IN_GLOBAL then ps @ [p] else ps)"
proof -
  let ?s = "upd_mq p (q\<lparr>mq_release := 1\<rparr>) s"
  have wf1: "global_wf ?s ps" using global_wf_upd [OF wf q(1)] by simp
  from globalmq_push_ok [OF wf1, of p "q\<lparr>mq_release := 1\<rparr>"] out wf1 q show ?thesis
    by (cases "mq_in_global q = MQ_IN_GLOBAL")
      (auto simp: skynet_mq_mark_release_def deref_Some Let_def)
qed

lemma mq_free_ok:
  assumes wf: "global_wf s ps" and q: "mqs s p = Some q" and out: "p \<notin> set ps"
  shows "mq_free s p = Inr (s\<lparr>mqs := (mqs s)(p := None)\<rparr>)"
    "global_wf (s\<lparr>mqs := (mqs s)(p := None)\<rparr>) ps"
  using assms by (auto simp: mq_free_def deref_Some global_wf_def gq_path_frame)

text \<open>The store-level queue is a queue again, so that emptying it is the interface's lemma.\<close>

definition store_inv :: "global_queue \<Rightarrow> qptr list \<Rightarrow> qptr \<Rightarrow> global_queue \<Rightarrow> bool" where
  "store_inv s0 ps p s \<longleftrightarrow> global_wf s ps \<and> (\<exists>q. mqs s p = Some q \<and> mq_wf q)
     \<and> (\<forall>x. x \<noteq> p \<longrightarrow> mqs s x = mqs s0 x)"

definition store_contents :: "qptr \<Rightarrow> global_queue \<Rightarrow> skynet_message list" where
  "store_contents p s = (case mqs s p of None \<Rightarrow> [] | Some q \<Rightarrow> mq_contents q)"

interpretation store: fifo_source "\<lambda>s. skynet_mq_pop s p" "store_contents p" "store_inv s0 ps p"
  for p s0 ps
proof
  fix s :: global_queue
  assume *: "store_inv s0 ps p s" "store_contents p s = []"
  then obtain q where q: "global_wf s ps" "mqs s p = Some q" "mq_wf q" "mq_contents q = []"
    by (auto simp: store_inv_def store_contents_def)
  from mq.deq_empty [OF q(3,4)] obtain q' where q': "mq_pop q = Inr (q', None)" "mq_wf q'"
    "mq_contents q' = []" by blast
  from mq_pop_store [OF q(1,2) q'(1)] q' *(1)
  show "\<exists>s'. skynet_mq_pop s p = Inr (s', None) \<and> store_inv s0 ps p s' \<and> store_contents p s' = []"
    by (auto simp: store_inv_def store_contents_def)
next
  fix s :: global_queue and x xs
  assume *: "store_inv s0 ps p s" "store_contents p s = x # xs"
  then obtain q where q: "global_wf s ps" "mqs s p = Some q" "mq_wf q" "mq_contents q = x # xs"
    by (auto simp: store_inv_def store_contents_def)
  from mq.deq_cons [OF q(3,4)] obtain q' where q': "mq_pop q = Inr (q', Some x)" "mq_wf q'"
    "mq_contents q' = xs" by blast
  from mq_pop_store [OF q(1,2) q'(1)] q' *(1)
  show "\<exists>s'. skynet_mq_pop s p = Inr (s', Some x) \<and> store_inv s0 ps p s' \<and> store_contents p s' = xs"
    by (auto simp: store_inv_def store_contents_def)
qed

lemma mq_release_drop:
  assumes wf: "global_wf s ps" and q: "mqs s p = Some q" "mq_wf q" "mq_release q \<noteq> 0"
    and out: "p \<notin> set ps" and fold: "fold_res f (mq_contents q) u = Inr u'"
  shows "\<exists>s'. skynet_mq_release f (s, u) p = Some (Inr (s', u'))
    \<and> global_wf s' ps \<and> qview s' = (qview s)(p := None)"
proof -
  have "store_inv s ps p s" using wf q by (auto simp: store_inv_def)
  moreover have "fold_res f (store_contents p s) u = Inr u'" using fold q by (simp add: store_contents_def)
  ultimately obtain s1 where s1:
    "drain (\<lambda>(q, u). cbind (skynet_mq_pop q p) (\<lambda>(q, m). Inr ((q, u), m)))
       (\<lambda>m (q, u). cbind (f m u) (\<lambda>u. Inr (q, u))) (s, u) = Some (Inr (s1, u'))"
    "store_inv s ps p s1"
    using store.drain_contents [of s ps p s f u u'] by blast
  from s1(2) obtain q1 where q1: "global_wf s1 ps" "mqs s1 p = Some q1"
    "\<And>x. x \<noteq> p \<Longrightarrow> mqs s1 x = mqs s x" by (auto simp: store_inv_def)
  from mq_free_ok [OF q1(1,2) out] s1(1) q1 q show ?thesis
    by (auto simp: skynet_mq_release_def drop_queue_def deref_Some qview_def fun_eq_iff)
qed

section \<open>The protocol of the worker threads\<close>

text \<open>
  \<open>held w\<close> are the queues in the local variables of worker \<open>w\<close> (two of them between taking the
  next queue and pushing the old one back); \<open>creating\<close> are the queues of services whose
  \<open>skynet_context_new\<close> has not returned. The steps are the locked operations of
  \<open>skynet_context_new\<close> (\<open>create\<close>, \<open>launch\<close>, \<open>launch_failed\<close>), of any thread that sends to a
  service whose context it has grabbed, so that the queue is not released (\<open>send\<close>), of
  \<open>delete_context\<close> (\<open>mark\<close>), and of \<open>skynet_context_message_dispatch\<close>: \<open>take\<close> a queue, pop a
  message and run the callback (\<open>dispatch\<close>), give up an empty queue (\<open>idle\<close>), \<open>yield\<close> to the
  next queue in two steps, or \<open>release\<close> the queue of a service that is gone. A worker that pops
  has grabbed the context of the queue, so at \<open>idle\<close> the queue is not marked for release. What
  the dropped messages cause are sends of their own.
\<close>

record sched =
  gq :: global_queue
  held :: "nat \<Rightarrow> qptr list"
  creating :: "qptr set"

definition sched_init :: sched where
  "sched_init = \<lparr>gq = skynet_mq_init, held = (\<lambda>_. []), creating = {}\<rparr>"

abbreviation drop_silently :: "skynet_message \<Rightarrow> unit \<Rightarrow> unit res" where
  "drop_silently \<equiv> (\<lambda>m u. Inr u)"

inductive sched_step :: "sched \<Rightarrow> sched \<Rightarrow> bool" where
  create: "mqs (gq s) p = None \<Longrightarrow>
    sched_step s (s\<lparr>gq := skynet_mq_create (gq s) p h, creating := insert p (creating s)\<rparr>)"
| launch: "p \<in> creating s \<Longrightarrow> skynet_globalmq_push (gq s) p = Inr g \<Longrightarrow>
    sched_step s (s\<lparr>gq := g, creating := creating s - {p}\<rparr>)"
| launch_failed: "p \<in> creating s \<Longrightarrow>
    skynet_mq_release drop_silently (gq s, ()) p = Some (Inr (g, ())) \<Longrightarrow>
    sched_step s (s\<lparr>gq := g, creating := creating s - {p}\<rparr>)"
| send: "mqs (gq s) p = Some q \<Longrightarrow> mq_release q = 0 \<Longrightarrow> skynet_mq_push (gq s) p m = Inr g \<Longrightarrow>
    sched_step s (s\<lparr>gq := g\<rparr>)"
| mark: "mqs (gq s) p = Some q \<Longrightarrow> mq_release q = 0 \<Longrightarrow> skynet_mq_mark_release (gq s) p = Inr g \<Longrightarrow>
    sched_step s (s\<lparr>gq := g\<rparr>)"
| take: "held s w = [] \<Longrightarrow> skynet_globalmq_pop (gq s) = Inr (g, Some p) \<Longrightarrow>
    sched_step s (s\<lparr>gq := g, held := (held s)(w := [p])\<rparr>)"
| dispatch: "held s w = [p] \<Longrightarrow> skynet_mq_pop (gq s) p = Inr (g, Some m) \<Longrightarrow>
    sched_step s (s\<lparr>gq := g\<rparr>)"
| idle: "held s w = [p] \<Longrightarrow> skynet_mq_pop (gq s) p = Inr (g, None) \<Longrightarrow>
    mqs (gq s) p = Some q \<Longrightarrow> mq_release q = 0 \<Longrightarrow>
    sched_step s (s\<lparr>gq := g, held := (held s)(w := [])\<rparr>)"
| yield_take: "held s w = [p] \<Longrightarrow> skynet_globalmq_pop (gq s) = Inr (g, Some nq) \<Longrightarrow>
    sched_step s (s\<lparr>gq := g, held := (held s)(w := [p, nq])\<rparr>)"
| yield_push: "held s w = [p, nq] \<Longrightarrow> skynet_globalmq_push (gq s) p = Inr g \<Longrightarrow>
    sched_step s (s\<lparr>gq := g, held := (held s)(w := [nq])\<rparr>)"
| release: "held s w = [p] \<Longrightarrow>
    skynet_mq_release drop_silently (gq s, ()) p = Some (Inr (g, ())) \<Longrightarrow>
    sched_step s (s\<lparr>gq := g, held := (held s)(w := [])\<rparr>)"

inductive sched_reachable :: "sched \<Rightarrow> bool" where
  start: "sched_reachable sched_init"
| step: "sched_reachable s \<Longrightarrow> sched_step s t \<Longrightarrow> sched_reachable t"

section \<open>The invariant\<close>

text \<open>
  Ownership: a queue is in at most one place (the global list, one variable of one worker, a
  service under creation); \<open>act\<close> is the set of the queues that are somewhere.
\<close>

definition act :: "(nat \<Rightarrow> qptr list) \<Rightarrow> qptr set \<Rightarrow> qptr list \<Rightarrow> qptr set" where
  "act h C ps = set ps \<union> C \<union> (\<Union>w. set (h w))"

definition own_inv :: "(nat \<Rightarrow> qptr list) \<Rightarrow> qptr set \<Rightarrow> qptr list \<Rightarrow> bool" where
  "own_inv h C ps \<longleftrightarrow>
     distinct ps \<and> (\<forall>w. distinct (h w))
     \<and> (\<forall>w w' p. p \<in> set (h w) \<longrightarrow> p \<in> set (h w') \<longrightarrow> w = w')
     \<and> (\<forall>w p. p \<in> set (h w) \<longrightarrow> p \<notin> set ps \<and> p \<notin> C)
     \<and> (\<forall>p \<in> C. p \<notin> set ps)"

text \<open>The flags of a queue say whether it is somewhere, and a queue with messages is.\<close>

definition queue_ok :: "qptr set \<Rightarrow> qptr \<Rightarrow> message_queue \<Rightarrow> bool" where
  "queue_ok A p q \<longleftrightarrow>
     mq_wf q \<and> mq_in_global q \<in> {0, MQ_IN_GLOBAL}
     \<and> (p \<in> A \<longleftrightarrow> mq_in_global q \<noteq> 0 \<or> mq_release q \<noteq> 0)
     \<and> (mq_contents q \<noteq> [] \<longrightarrow> p \<in> A)"

definition queue_inv :: "(qptr \<Rightarrow> message_queue option) \<Rightarrow> qptr set \<Rightarrow> bool" where
  "queue_inv v A \<longleftrightarrow> A \<subseteq> dom v \<and> (\<forall>p q. v p = Some q \<longrightarrow> queue_ok A p q)"

definition sched_inv :: "sched \<Rightarrow> qptr list \<Rightarrow> bool" where
  "sched_inv s ps \<longleftrightarrow> global_wf (gq s) ps \<and> own_inv (held s) (creating s) ps
     \<and> queue_inv (qview (gq s)) (act (held s) (creating s) ps)"

lemma queue_ok_frame [simp]: "queue_ok A p (q\<lparr>mq_next := n\<rparr>) = queue_ok A p q"
  by (simp add: queue_ok_def)

lemma queue_ok_insert_other: "x \<noteq> p \<Longrightarrow> queue_ok (insert p A) x q = queue_ok A x q"
  by (simp add: queue_ok_def)

lemma queue_ok_remove_other: "x \<noteq> p \<Longrightarrow> queue_ok (A - {p}) x q = queue_ok A x q"
  by (simp add: queue_ok_def)

lemma queue_inv_upd:
  "queue_inv v A \<Longrightarrow> queue_ok A p q \<Longrightarrow> queue_inv (v(p \<mapsto> q)) A"
  by (auto simp: queue_inv_def)

lemma queue_inv_insert:
  "queue_inv v A \<Longrightarrow> queue_ok (insert p A) p q \<Longrightarrow> queue_inv (v(p \<mapsto> q)) (insert p A)"
  by (auto simp: queue_inv_def queue_ok_insert_other)

lemma queue_inv_remove_upd:
  "queue_inv v A \<Longrightarrow> queue_ok (A - {p}) p q \<Longrightarrow> queue_inv (v(p \<mapsto> q)) (A - {p})"
  by (auto simp: queue_inv_def queue_ok_remove_other)

lemma queue_inv_free:
  "queue_inv v A \<Longrightarrow> queue_inv (v(p := None)) (A - {p})"
  by (auto simp: queue_inv_def queue_ok_remove_other)

text \<open>How the steps move a queue from one place to another.\<close>

lemma act_at: "act h C ps = set ps \<union> C \<union> set (h w) \<union> (\<Union>x \<in> - {w}. set (h x))"
  unfolding act_def by auto

lemma act_fun_upd: "act (h(w := qs)) C ps = set ps \<union> C \<union> set qs \<union> (\<Union>x \<in> - {w}. set (h x))"
  unfolding act_at [of "h(w := qs)" C ps w] by auto

lemma own_push_new:
  "own_inv h C ps \<Longrightarrow> p \<notin> act h C ps \<Longrightarrow> own_inv h C (ps @ [p])"
  "act h C (ps @ [p]) = insert p (act h C ps)"
  by (auto simp: own_inv_def act_def)

lemma own_create:
  "own_inv h C ps \<Longrightarrow> p \<notin> act h C ps \<Longrightarrow> own_inv h (insert p C) ps"
  "act h (insert p C) ps = insert p (act h C ps)"
  by (auto simp: own_inv_def act_def)

lemma own_created:
  assumes "own_inv h C ps" "p \<in> C"
  shows "own_inv h (C - {p}) (ps @ [p])" "act h (C - {p}) (ps @ [p]) = act h C ps"
    "own_inv h (C - {p}) ps" "act h (C - {p}) ps = act h C ps - {p}"
  using assms by (auto simp: own_inv_def act_def)

lemma own_take:
  assumes "own_inv h C (p # ps)" "h w = qs" "length qs \<le> 1"
  shows "own_inv (h(w := qs @ [p])) C ps" "act (h(w := qs @ [p])) C ps = act h C (p # ps)"
proof -
  have n: "p \<notin> set (h x)" "p \<notin> C" "p \<notin> set ps" for x using assms by (auto simp: own_inv_def)
  show "own_inv (h(w := qs @ [p])) C ps"
    using assms n unfolding own_inv_def by auto
  show "act (h(w := qs @ [p])) C ps = act h C (p # ps)"
    using assms by (auto simp: act_fun_upd act_at [of h C "p # ps" w])
qed

lemma own_put_back:
  assumes "own_inv h C ps" "h w = p # qs"
  shows "own_inv (h(w := qs)) C (ps @ [p])" "act (h(w := qs)) C (ps @ [p]) = act h C ps"
proof -
  have n: "p \<notin> set ps" "p \<notin> C" "p \<notin> set qs" "\<And>x. p \<in> set (h x) \<Longrightarrow> x = w"
    using assms unfolding own_inv_def by (metis list.set_intros(1) distinct.simps(2))+
  show "own_inv (h(w := qs)) C (ps @ [p])"
    using assms n unfolding own_inv_def
    by (auto split: if_splits) (metis distinct.simps(2) list.set_intros(2))+
  show "act (h(w := qs)) C (ps @ [p]) = act h C ps"
    using assms by (auto simp: act_fun_upd act_at [of h C ps w])
qed

lemma own_drop:
  assumes "own_inv h C ps" "h w = [p]"
  shows "own_inv (h(w := [])) C ps" "act (h(w := [])) C ps = act h C ps - {p}"
proof -
  have n: "p \<notin> set ps" "p \<notin> C" "\<And>x. p \<in> set (h x) \<Longrightarrow> x = w"
    using assms unfolding own_inv_def by (metis list.set_intros(1))+
  show "own_inv (h(w := [])) C ps"
    using assms unfolding own_inv_def by (auto split: if_splits)
  show "act (h(w := [])) C ps = act h C ps - {p}"
    using assms n by (auto simp: act_fun_upd act_at [of h C ps w])
qed

text \<open>Each step keeps the invariant; one lemma per kind of operation.\<close>

lemma queue_inv_ok: "queue_inv (qview g) A \<Longrightarrow> mqs g p = Some q \<Longrightarrow> queue_ok A p q"
  using qview_Some [of g p q] by (fastforce simp: queue_inv_def)

lemma queue_inv_alloc: "queue_inv (qview g) A \<Longrightarrow> p \<in> A \<Longrightarrow> \<exists>q. mqs g p = Some q"
  by (auto simp: queue_inv_def dom_def qview_def subset_iff)

lemma act_ps: "p \<in> set ps \<Longrightarrow> p \<in> act h C ps" "p \<in> C \<Longrightarrow> p \<in> act h C ps"
  "p \<in> set (h w) \<Longrightarrow> p \<in> act h C ps"
  by (auto simp: act_def)

lemma fold_drop_silently: "fold_res drop_silently ms u = Inr u"
  by (induction ms) auto

lemma inv_create:
  assumes "sched_inv s ps" "mqs (gq s) p = None"
  shows "sched_inv (s\<lparr>gq := skynet_mq_create (gq s) p h, creating := insert p (creating s)\<rparr>) ps"
proof -
  let ?A = "act (held s) (creating s) ps"
  from assms have inv: "global_wf (gq s) ps" "own_inv (held s) (creating s) ps"
    "queue_inv (qview (gq s)) ?A" by (auto simp: sched_inv_def)
  with assms(2) have new: "p \<notin> ?A" using queue_inv_alloc [OF inv(3), of p] by auto
  have "global_wf (skynet_mq_create (gq s) p h) ps"
    using inv(1) new by (auto simp: global_wf_def skynet_mq_create_def gq_path_frame act_def mq_new_def)
  moreover have "queue_ok (insert p ?A) p (mq_new h)"
    by (simp add: queue_ok_def mq_new_wf) (simp add: mq_new_def MQ_IN_GLOBAL_def)
  ultimately show ?thesis
    using own_create(1) [OF inv(2) new] queue_inv_insert [OF inv(3)]
    by (simp add: sched_inv_def own_create(2) skynet_mq_create_def)
qed

lemma inv_release_common:
  assumes inv: "sched_inv s ps" and p: "p \<in> act (held s) (creating s) ps" "p \<notin> set ps"
    and ok: "skynet_mq_release drop_silently (gq s, ()) p = Some (Inr (g, ()))"
  shows "global_wf g (ps @ [p]) \<and> queue_inv (qview g) (act (held s) (creating s) ps)
    \<or> global_wf g ps \<and> queue_inv (qview g) (act (held s) (creating s) ps - {p})"
proof -
  from inv have i: "global_wf (gq s) ps" "queue_inv (qview (gq s)) (act (held s) (creating s) ps)"
    by (auto simp: sched_inv_def)
  from queue_inv_alloc [OF i(2) p(1)] obtain q where q: "mqs (gq s) p = Some q" by blast
  show ?thesis
  proof (cases "mq_release q = 0")
    case True
    with ok q globalmq_push_ok [OF i(1) q p(2)] i(2) show ?thesis
      by (auto simp: skynet_mq_release_def deref_Some)
  next
    case False
    from queue_inv_ok [OF i(2) q] have "mq_wf q" by (simp add: queue_ok_def)
    from mq_release_drop [OF i(1) q this False p(2) fold_drop_silently] ok
      queue_inv_free [OF i(2), of p] show ?thesis by auto
  qed
qed

lemma inv_send:
  assumes inv: "sched_inv s ps" and q: "mqs (gq s) p = Some q" "mq_release q = 0"
    and ok: "skynet_mq_push (gq s) p m = Inr g"
  shows "\<exists>ps'. sched_inv (s\<lparr>gq := g\<rparr>) ps'"
proof -
  let ?A = "act (held s) (creating s)"
  from inv have i: "global_wf (gq s) ps" "own_inv (held s) (creating s) ps"
    "queue_inv (qview (gq s)) (?A ps)" by (auto simp: sched_inv_def)
  from queue_inv_ok [OF i(3) q(1)] have qok: "queue_ok (?A ps) p q" .
  then have wf: "mq_wf q" by (simp add: queue_ok_def)
  from ok q obtain q1 where "mq_enqueue q m = Inr q1"
    by (auto simp: skynet_mq_push_def deref_Some cbind_Inr_iff)
  from mq_enqueue_room [OF wf this] have room: "Suc (skynet_mq_length q) < 2 ^ 30" .
  have out: "mq_in_global q = 0 \<Longrightarrow> p \<notin> ?A ps" using qok q(2) by (simp add: queue_ok_def)
  then have "mq_in_global q = 0 \<Longrightarrow> p \<notin> set ps" using act_ps by blast
  from mq_push_ok [OF i(1) q(1) wf room this, of m] ok obtain q' where
    q': "qview g = (qview (gq s))(p \<mapsto> q')"
    "global_wf g (if mq_in_global q = 0 then ps @ [p] else ps)"
    "mq_wf q'" "mq_release q' = mq_release q"
    "mq_in_global q' = (if mq_in_global q = 0 then 1 else mq_in_global q)" by auto
  show ?thesis
  proof (cases "mq_in_global q = 0")
    case True
    with q' qok have "queue_ok (insert p (?A ps)) p q'"
      by (simp add: queue_ok_def MQ_IN_GLOBAL_def)
    from queue_inv_insert [OF i(3) this] True q' own_push_new(1) [OF i(2) out]
    have "sched_inv (s\<lparr>gq := g\<rparr>) (ps @ [p])" by (simp add: sched_inv_def own_push_new(2))
    then show ?thesis by blast
  next
    case False
    with q' qok have "queue_ok (?A ps) p q'" by (auto simp: queue_ok_def)
    from queue_inv_upd [OF i(3) this] False q' i(2)
    have "sched_inv (s\<lparr>gq := g\<rparr>) ps" by (simp add: sched_inv_def)
    then show ?thesis by blast
  qed
qed

lemma inv_mark:
  assumes inv: "sched_inv s ps" and q: "mqs (gq s) p = Some q" "mq_release q = 0"
    and ok: "skynet_mq_mark_release (gq s) p = Inr g"
  shows "\<exists>ps'. sched_inv (s\<lparr>gq := g\<rparr>) ps'"
proof -
  let ?A = "act (held s) (creating s)"
  from inv have i: "global_wf (gq s) ps" "own_inv (held s) (creating s) ps"
    "queue_inv (qview (gq s)) (?A ps)" by (auto simp: sched_inv_def)
  from queue_inv_ok [OF i(3) q(1)] have qok: "queue_ok (?A ps) p q" .
  have out: "mq_in_global q \<noteq> MQ_IN_GLOBAL \<Longrightarrow> p \<notin> ?A ps"
    using qok q(2) by (auto simp: queue_ok_def)
  then have "mq_in_global q \<noteq> MQ_IN_GLOBAL \<Longrightarrow> p \<notin> set ps" using act_ps by blast
  from mq_mark_release_ok [OF i(1) q this] ok have
    g: "qview g = (qview (gq s))(p \<mapsto> q\<lparr>mq_release := 1, mq_next := None\<rparr>)"
    "global_wf g (if mq_in_global q \<noteq> MQ_IN_GLOBAL then ps @ [p] else ps)" by auto
  show ?thesis
  proof (cases "mq_in_global q = MQ_IN_GLOBAL")
    case False
    with qok have "queue_ok (insert p (?A ps)) p (q\<lparr>mq_release := 1, mq_next := None\<rparr>)"
      by (simp add: queue_ok_def)
    from queue_inv_insert [OF i(3) this] False g own_push_new(1) [OF i(2) out]
    have "sched_inv (s\<lparr>gq := g\<rparr>) (ps @ [p])" by (simp add: sched_inv_def own_push_new(2))
    then show ?thesis by blast
  next
    case True
    with qok have "queue_ok (?A ps) p (q\<lparr>mq_release := 1, mq_next := None\<rparr>)"
      by (auto simp: queue_ok_def MQ_IN_GLOBAL_def)
    from queue_inv_upd [OF i(3) this] True g i(2)
    have "sched_inv (s\<lparr>gq := g\<rparr>) ps" by (simp add: sched_inv_def)
    then show ?thesis by blast
  qed
qed

lemma inv_globalmq_pop:
  assumes "global_wf g ps" "skynet_globalmq_pop g = Inr (g', Some p)"
  shows "\<exists>ps'. ps = p # ps' \<and> global_wf g' ps' \<and> qview g' = qview g"
proof (cases ps)
  case Nil
  with assms globalmq_pop_nil [of g] show ?thesis by simp
next
  case (Cons x xs)
  with assms globalmq_pop_cons [of g x xs] show ?thesis by auto
qed

lemma inv_take:
  assumes inv: "sched_inv s ps" and h: "held s w = qs" "length qs \<le> 1"
    and ok: "skynet_globalmq_pop (gq s) = Inr (g, Some p)"
  shows "\<exists>ps'. sched_inv (s\<lparr>gq := g, held := (held s)(w := qs @ [p])\<rparr>) ps'"
proof -
  from inv_globalmq_pop [of "gq s" ps g p] inv ok obtain ps' where
    ps: "ps = p # ps'" "global_wf g ps'" "qview g = qview (gq s)" by (auto simp: sched_inv_def)
  from inv ps(1) have "own_inv (held s) (creating s) (p # ps')" by (simp add: sched_inv_def)
  from own_take [OF this h] inv ps show ?thesis by (auto simp: sched_inv_def)
qed

lemma held_not_in:
  assumes "sched_inv s ps" "p \<in> set (held s w)"
  shows "p \<in> act (held s) (creating s) ps" "p \<notin> set ps"
  using assms by (auto simp: sched_inv_def act_def own_inv_def)

lemma inv_yield_push:
  assumes inv: "sched_inv s ps" and h: "held s w = [p, nq]"
    and ok: "skynet_globalmq_push (gq s) p = Inr g"
  shows "sched_inv (s\<lparr>gq := g, held := (held s)(w := [nq])\<rparr>) (ps @ [p])"
proof -
  from inv have i: "global_wf (gq s) ps" "own_inv (held s) (creating s) ps"
    "queue_inv (qview (gq s)) (act (held s) (creating s) ps)" by (auto simp: sched_inv_def)
  from held_not_in [OF inv, of p w] h have p: "p \<in> act (held s) (creating s) ps" "p \<notin> set ps" by auto
  from queue_inv_alloc [OF i(3) p(1)] obtain q where "mqs (gq s) p = Some q" by blast
  from globalmq_push_ok [OF i(1) this p(2)] ok own_put_back [OF i(2) h] i(3) show ?thesis
    by (auto simp: sched_inv_def)
qed

lemma inv_pop:
  assumes inv: "sched_inv s ps" and h: "held s w = [p]"
    and ok: "skynet_mq_pop (gq s) p = Inr (g, r)"
    and live: "r = None \<Longrightarrow> \<forall>q. mqs (gq s) p = Some q \<longrightarrow> mq_release q = 0"
  shows "sched_inv (s\<lparr>gq := g, held := (if r = None then (held s)(w := []) else held s)\<rparr>) ps"
proof -
  let ?A = "act (held s) (creating s) ps"
  from inv have i: "global_wf (gq s) ps" "own_inv (held s) (creating s) ps"
    "queue_inv (qview (gq s)) ?A" by (auto simp: sched_inv_def)
  from held_not_in [OF inv, of p w] h have p: "p \<in> ?A" by auto
  from queue_inv_alloc [OF i(3) p] obtain q where q: "mqs (gq s) p = Some q" by blast
  from queue_inv_ok [OF i(3) q] have qok: "queue_ok ?A p q" .
  then have wf: "mq_wf q" by (simp add: queue_ok_def)
  from ok q obtain q' where q': "mq_pop q = Inr (q', r)" "g = upd_mq p q' (gq s)"
    by (auto simp: skynet_mq_pop_def deref_Some cbind_Inr_iff)
  note st = mq_pop_store(2) [OF i(1) q q'(1)] and fr = mq_pop_frame [OF q'(1)]
  show ?thesis
  proof (cases "mq_contents q")
    case Nil
    with mq.deq_empty [OF wf] q'(1) have r: "r = None" "mq_wf q'" "mq_contents q' = []" by auto
    with fr live q have "queue_ok (?A - {p}) p q'" by (auto simp: queue_ok_def)
    from queue_inv_remove_upd [OF i(3), of p "q'\<lparr>mq_next := None\<rparr>"] this
      own_drop [OF i(2) h] st r q'(2) show ?thesis by (simp add: sched_inv_def)
  next
    case (Cons x xs)
    with mq.deq_cons [OF wf Cons] q'(1) have r: "r = Some x" "mq_wf q'" by auto
    with fr qok p have "queue_ok ?A p q'" by (simp add: queue_ok_def)
    from queue_inv_upd [OF i(3), of p "q'\<lparr>mq_next := None\<rparr>"] this i(2) st r q'(2)
    show ?thesis by (simp add: sched_inv_def)
  qed
qed

lemma sched_inv_init: "sched_inv sched_init []"
  by (auto simp: sched_inv_def sched_init_def skynet_mq_init_def global_wf_def own_inv_def
      queue_inv_def act_def qview_def)

lemma sched_step_inv:
  assumes "sched_step s t" "sched_inv s ps"
  shows "\<exists>ps'. sched_inv t ps'"
  using assms
proof (induction rule: sched_step.induct)
  case (create s p h)
  from inv_create [OF create(2,1)] show ?case by blast
next
  case (launch p s g)
  then have i: "global_wf (gq s) ps" "own_inv (held s) (creating s) ps"
    "queue_inv (qview (gq s)) (act (held s) (creating s) ps)" by (auto simp: sched_inv_def)
  from launch(1) i(2) have p: "p \<in> act (held s) (creating s) ps" "p \<notin> set ps"
    by (auto simp: act_def own_inv_def)
  from queue_inv_alloc [OF i(3) p(1)] obtain q where "mqs (gq s) p = Some q" by blast
  from globalmq_push_ok [OF i(1) this p(2)] launch(2) own_created [OF i(2) launch(1)] i(3)
  have "sched_inv (s\<lparr>gq := g, creating := creating s - {p}\<rparr>) (ps @ [p])" by (auto simp: sched_inv_def)
  then show ?case by blast
next
  case (launch_failed p s g)
  then have i: "own_inv (held s) (creating s) ps" by (simp add: sched_inv_def)
  from launch_failed(1) i have p: "p \<in> act (held s) (creating s) ps" "p \<notin> set ps"
    by (auto simp: act_def own_inv_def)
  from inv_release_common [OF launch_failed(3) p launch_failed(2)] own_created [OF i launch_failed(1)]
  have "sched_inv (s\<lparr>gq := g, creating := creating s - {p}\<rparr>) (ps @ [p])
    \<or> sched_inv (s\<lparr>gq := g, creating := creating s - {p}\<rparr>) ps" by (auto simp: sched_inv_def)
  then show ?case by blast
next
  case (send s p q m g)
  from inv_send [OF send(4,1-3)] show ?case .
next
  case (mark s p q g)
  from inv_mark [OF mark(4,1-3)] show ?case .
next
  case (take s w g p)
  from inv_take [OF take(3,1) _ take(2)] show ?case by simp
next
  case (dispatch s w p g m)
  from inv_pop [OF dispatch(3,1,2)] show ?case by auto
next
  case (idle s w p g q)
  from inv_pop [OF idle(5,1,2)] idle(3,4) show ?case by auto
next
  case (yield_take s w p g nq)
  from inv_take [OF yield_take(3,1) _ yield_take(2)] show ?case by simp
next
  case (yield_push s w p nq g)
  from inv_yield_push [OF yield_push(3,1,2)] show ?case by blast
next
  case (release s w p g)
  then have i: "own_inv (held s) (creating s) ps" by (simp add: sched_inv_def)
  from held_not_in [OF release(3), of p w] release(1)
  have p: "p \<in> act (held s) (creating s) ps" "p \<notin> set ps" by auto
  from inv_release_common [OF release(3) p release(2)] own_drop [OF i release(1)]
    own_put_back [OF i release(1)]
  have "sched_inv (s\<lparr>gq := g, held := (held s)(w := [])\<rparr>) (ps @ [p])
    \<or> sched_inv (s\<lparr>gq := g, held := (held s)(w := [])\<rparr>) ps" by (auto simp: sched_inv_def)
  then show ?case by blast
qed

lemma sched_reachable_inv: "sched_reachable s \<Longrightarrow> \<exists>ps. sched_inv s ps"
proof (induction rule: sched_reachable.induct)
  case start
  from sched_inv_init show ?case by blast
next
  case (step s t)
  then show ?case using sched_step_inv by blast
qed

section \<open>Properties\<close>

text \<open>A small run for the witnesses: a service is created, gets a message, is launched and taken.\<close>

definition demo_msg :: skynet_message where
  "demo_msg = \<lparr>source = 2, session = 7, msg_data = 0, sz = 0\<rparr>"

definition demo_mq :: message_queue where
  "demo_mq = (mq_new 1)\<lparr>mq_queue := (replicate 64 None)[0 := Some demo_msg], mq_tail := 1\<rparr>"

definition demo_gq :: "message_queue \<Rightarrow> qptr option \<Rightarrow> global_queue" where
  "demo_gq q h = \<lparr>mqs = (\<lambda>_. None)(0 \<mapsto> q), gq_head = h, gq_tail = h\<rparr>"

definition demo_sched :: "message_queue \<Rightarrow> qptr option \<Rightarrow> qptr list \<Rightarrow> qptr set \<Rightarrow> sched" where
  "demo_sched q h hs C = \<lparr>gq = demo_gq q h, held = (\<lambda>_. [])(0 := hs), creating = C\<rparr>"

lemmas demo_defs = demo_msg_def demo_mq_def demo_gq_def demo_sched_def sched_init_def
  skynet_mq_init_def skynet_mq_create_def upd_mq_def mq_new_def

lemma demo_created: "sched_reachable (demo_sched (mq_new 1) None [] {0})"
  using sched_reachable.step [OF sched_reachable.start sched_step.create [of sched_init 0 1]]
  by (simp add: demo_defs fun_upd_def)

lemma demo_push: "skynet_mq_push (demo_gq (mq_new 1) None) 0 demo_msg = Inr (demo_gq demo_mq None)"
  by (simp add: skynet_mq_push_def demo_defs deref_def mq_enqueue_def arr_set_def Let_def
      DEFAULT_QUEUE_SIZE_def MQ_IN_GLOBAL_def)

lemma demo_sent: "sched_reachable (demo_sched demo_mq None [] {0})"
  using sched_reachable.step [OF demo_created sched_step.send [of _ 0 "mq_new 1" demo_msg "demo_gq demo_mq None"]]
    demo_push
  by (simp add: demo_sched_def) (simp add: demo_gq_def mq_new_def)

lemma demo_launched: "sched_reachable (demo_sched demo_mq (Some 0) [] {})"
  using sched_reachable.step [OF demo_sent sched_step.launch [of 0 _ "demo_gq demo_mq (Some 0)"]]
  by (simp add: demo_sched_def skynet_globalmq_push_def demo_gq_def deref_def)
    (simp add: demo_mq_def mq_new_def)

lemma demo_mq_fields [simp]:
  "mq_next demo_mq = None" "demo_mq\<lparr>mq_next := None\<rparr> = demo_mq" "mq_release demo_mq = 0"
  "mq_contents demo_mq = [demo_msg]" "mq_wf demo_mq"
  by (simp_all add: demo_mq_def mq_new_def mq_contents_def skynet_mq_length_def mq_wf_def
      DEFAULT_QUEUE_SIZE_def MQ_OVERLOAD_def)

lemma demo_taken: "sched_reachable (demo_sched demo_mq None [0] {})"
  using sched_reachable.step [OF demo_launched sched_step.take [of _ 0 "demo_gq demo_mq None" 0]]
  by (simp add: demo_sched_def skynet_globalmq_pop_def demo_gq_def deref_def upd_mq_def)

text \<open>
  The linked list of \<^verbatim>\<open>skynet_globalmq_push\<close> and \<^verbatim>\<open>skynet_globalmq_pop\<close> is a first-in
  first-out list. When the \<open>next\<close> fields thread exactly the queues \<open>ps\<close>, pushing a queue that is
  not in the list appends it and popping returns the oldest; neither assertion fails, no
  pointer dangles, and nothing else of any queue changes.
\<close>

theorem globalmq_fifo:
  assumes "global_wf s ps"
  shows "(\<forall>p q. mqs s p = Some q \<longrightarrow> p \<notin> set ps \<longrightarrow>
       (\<exists>s'. skynet_globalmq_push s p = Inr s' \<and> global_wf s' (ps @ [p]) \<and> qview s' = qview s))
    \<and> (case ps of [] \<Rightarrow> skynet_globalmq_pop s = Inr (s, None)
       | p # ps' \<Rightarrow> \<exists>s'. skynet_globalmq_pop s = Inr (s', Some p) \<and> global_wf s' ps'
           \<and> qview s' = qview s)"
  using assms globalmq_push_ok globalmq_pop_nil globalmq_pop_cons by (auto split: list.split)

theorem globalmq_fifo_witness:
  "\<exists>s'. skynet_globalmq_pop (demo_gq demo_mq (Some 0)) = Inr (s', Some 0) \<and> global_wf s' []"
proof -
  have "global_wf (demo_gq demo_mq (Some 0)) [0]" by (auto simp: global_wf_def demo_gq_def)
  from globalmq_fifo [OF this] show ?thesis by auto
qed

text \<open>
  Releasing a queue that is marked for release terminates, hands every pending message to
  \<open>drop_func\<close> exactly once and in order, frees the queue and leaves every other queue and the
  global list alone; a queue not yet marked is put back into the global list.
\<close>

theorem mq_release_drops_all:
  assumes "global_wf s ps" "mqs s p = Some q" "mq_wf q" "p \<notin> set ps"
    and "fold_res f (mq_contents q) u = Inr u'"
  shows "\<exists>s'. skynet_mq_release f (s, u) p = Some (Inr (s', if mq_release q = 0 then u else u'))
    \<and> (if mq_release q = 0 then global_wf s' (ps @ [p]) \<and> qview s' = qview s
        else global_wf s' ps \<and> qview s' = (qview s)(p := None))"
proof (cases "mq_release q = 0")
  case True
  with globalmq_push_ok [OF assms(1,2,4)] assms(2) show ?thesis
    by (auto simp: skynet_mq_release_def deref_Some)
next
  case False
  with mq_release_drop [OF assms(1-3) False assms(4,5)] show ?thesis by simp
qed

theorem mq_release_drops_all_witness:
  "\<exists>s'. skynet_mq_release (\<lambda>m ms. Inr (ms @ [m])) (demo_gq (demo_mq\<lparr>mq_release := 1\<rparr>) None, []) 0
      = Some (Inr (s', [demo_msg])) \<and> mqs s' 0 = None"
proof -
  let ?s = "demo_gq (demo_mq\<lparr>mq_release := 1\<rparr>) None"
  have wf: "global_wf ?s []" "mqs ?s 0 = Some (demo_mq\<lparr>mq_release := 1\<rparr>)"
    by (simp_all add: global_wf_def demo_gq_def)
  have "\<exists>s'. skynet_mq_release (\<lambda>m ms. Inr (ms @ [m])) (?s, []) 0 = Some (Inr (s', [demo_msg]))
      \<and> global_wf s' [] \<and> qview s' = (qview ?s)(0 := None)"
    using mq_release_drops_all [OF wf, of "\<lambda>m ms. Inr (ms @ [m])" "[]" "[demo_msg]"] by simp
  then show ?thesis by (metis fun_upd_same qview_None)
qed

text \<open>
  C2. No service runs on two threads. In every reachable state of the worker protocol a message
  queue is held by at most one worker, and a queue that a worker holds is not in the global
  list, so no other worker can take it.
\<close>

theorem one_worker_per_queue:
  assumes "sched_reachable s" "p \<in> set (held s w)"
  shows "(\<forall>w'. p \<in> set (held s w') \<longrightarrow> w' = w) \<and> p \<notin> creating s
    \<and> (\<exists>ps. global_wf (gq s) ps \<and> distinct ps \<and> p \<notin> set ps)"
proof -
  from sched_reachable_inv [OF assms(1)] obtain ps where "sched_inv s ps" ..
  with assms(2) show ?thesis unfolding sched_inv_def own_inv_def by blast
qed

theorem one_worker_per_queue_witness:
  "sched_reachable (demo_sched demo_mq None [0] {}) \<and> 0 \<in> set (held (demo_sched demo_mq None [0] {}) 0)
   \<and> 0 \<notin> set (held (demo_sched demo_mq None [0] {}) 1) \<and> 0 \<notin> creating (demo_sched demo_mq None [0] {})"
  using one_worker_per_queue [OF demo_taken, of 0 0] demo_taken by (auto simp: demo_sched_def)

text \<open>
  C3. No message is forgotten. In every reachable state a queue that holds messages is in the
  global list, or a worker holds it, or its service is still being created: some thread will
  look at it again.
\<close>

theorem no_queue_lost:
  assumes "sched_reachable s" "mqs (gq s) p = Some q" "mq_contents q \<noteq> []"
  shows "\<exists>ps. global_wf (gq s) ps \<and> (p \<in> set ps \<or> p \<in> creating s \<or> (\<exists>w. p \<in> set (held s w)))"
proof -
  from sched_reachable_inv [OF assms(1)] obtain ps where inv: "sched_inv s ps" ..
  then have "queue_ok (act (held s) (creating s) ps) p q"
    using queue_inv_ok [OF _ assms(2)] by (simp add: sched_inv_def)
  with assms(3) have "p \<in> act (held s) (creating s) ps" unfolding queue_ok_def by blast
  with inv show ?thesis by (auto simp: sched_inv_def act_def)
qed

theorem no_queue_lost_witness:
  "mq_contents demo_mq = [demo_msg] \<and>
   (\<exists>ps. global_wf (gq (demo_sched demo_mq (Some 0) [] {})) ps \<and> 0 \<in> set ps)"
  using no_queue_lost [OF demo_launched, of 0 demo_mq] by (auto simp: demo_sched_def demo_gq_def)

text \<open>
  C4. The protocol never gets stuck on a failing operation. In every reachable state: taking
  from the global queue succeeds; a worker that holds a queue can pop it, and can put it back;
  releasing it ends; a live queue (not marked for release) accepts a message as long as it has
  fewer than \<open>2 ^ 30 - 1\<close>, and can be marked. No assertion of \<^verbatim>\<open>skynet_mq.c\<close> fails.
\<close>

theorem sched_ops_safe:
  assumes "sched_reachable s"
  shows "(\<exists>r. skynet_globalmq_pop (gq s) = Inr r)
    \<and> (\<forall>w p. p \<in> set (held s w) \<longrightarrow>
          (\<exists>r. skynet_mq_pop (gq s) p = Inr r) \<and> (\<exists>g. skynet_globalmq_push (gq s) p = Inr g)
        \<and> (\<exists>g. skynet_mq_release drop_silently (gq s, ()) p = Some (Inr (g, ()))))
    \<and> (\<forall>p q m. mqs (gq s) p = Some q \<longrightarrow> mq_release q = 0 \<longrightarrow>
          (\<exists>g. skynet_mq_mark_release (gq s) p = Inr g)
        \<and> (Suc (skynet_mq_length q) < 2 ^ 30 \<longrightarrow> (\<exists>g. skynet_mq_push (gq s) p m = Inr g)))"
proof -
  from sched_reachable_inv [OF assms] obtain ps where inv: "sched_inv s ps" ..
  let ?A = "act (held s) (creating s) ps"
  from inv have wf: "global_wf (gq s) ps" and qi: "queue_inv (qview (gq s)) ?A"
    by (auto simp: sched_inv_def)
  have 1: "\<exists>r. skynet_globalmq_pop (gq s) = Inr r"
    using globalmq_pop_nil globalmq_pop_cons wf by (cases ps) blast+
  have 2: "(\<exists>r. skynet_mq_pop (gq s) p = Inr r) \<and> (\<exists>g. skynet_globalmq_push (gq s) p = Inr g)
        \<and> (\<exists>g. skynet_mq_release drop_silently (gq s, ()) p = Some (Inr (g, ())))"
    if "p \<in> set (held s w)" for w p
  proof -
    note p = held_not_in [OF inv that]
    from queue_inv_alloc [OF qi p(1)] obtain q where q: "mqs (gq s) p = Some q" by blast
    from queue_inv_ok [OF qi q] have qwf: "mq_wf q" by (simp add: queue_ok_def)
    have "\<exists>r. mq_pop q = Inr r"
      using mq.deq_empty [OF qwf] mq.deq_cons [OF qwf] by (cases "mq_contents q") blast+
    then have "\<exists>r. skynet_mq_pop (gq s) p = Inr r" using q by (auto simp: skynet_mq_pop_def deref_Some)
    moreover have "\<exists>g. skynet_globalmq_push (gq s) p = Inr g"
      using globalmq_push_ok [OF wf q p(2)] by blast
    moreover have "\<exists>g. skynet_mq_release drop_silently (gq s, ()) p = Some (Inr (g, ()))"
      using globalmq_push_ok [OF wf q p(2)] mq_release_drop [OF wf q qwf _ p(2) fold_drop_silently]
      by (cases "mq_release q = 0") (auto simp: skynet_mq_release_def deref_Some q)
    ultimately show ?thesis by blast
  qed
  have 3: "(\<exists>g. skynet_mq_mark_release (gq s) p = Inr g)
        \<and> (Suc (skynet_mq_length q) < 2 ^ 30 \<longrightarrow> (\<exists>g. skynet_mq_push (gq s) p m = Inr g))"
    if q: "mqs (gq s) p = Some q" "mq_release q = 0" for p q m
  proof -
    from queue_inv_ok [OF qi q(1)] have qok: "queue_ok ?A p q" .
    then have out: "mq_in_global q \<noteq> MQ_IN_GLOBAL \<Longrightarrow> p \<notin> set ps" "mq_in_global q = 0 \<Longrightarrow> p \<notin> set ps"
      and qwf: "mq_wf q"
      using q(2) act_ps(1) [of p ps] by (auto simp: queue_ok_def)
    from mq_mark_release_ok [OF wf q out(1)] mq_push_ok [OF wf q(1) qwf _ out(2), of m]
    show ?thesis by blast
  qed
  from 1 2 3 show ?thesis by blast
qed

theorem sched_ops_safe_witness:
  "\<exists>r. skynet_mq_pop (gq (demo_sched demo_mq None [0] {})) 0 = Inr r"
  using sched_ops_safe [OF demo_taken] by (simp add: demo_sched_def)

end
