(* ===== verification/Sky_Handle.thy ===== *)
theory Sky_Handle
  imports Sky_Prelude "HOL-Library.List_Lexorder" "HOL-Library.Char_ord"
begin

text \<open>
  Model of \<^verbatim>\<open>skynet-src/skynet_handle.c\<close>: the table from service handles to contexts (an
  array indexed by the low bits of the handle, doubled when a scan finds no free slot) and the
  sorted array of service names. All operations run under the write or read lock of the
  storage and are one step each.

  A context is an address; \<open>ch\<close> gives the \<open>handle\<close> field of the context at an address
  (\<open>skynet_context_handle\<close>), which \<open>skynet_context_new\<close> sets only after
  \<open>skynet_handle_register\<close> has returned. The reference counts that \<open>skynet_handle_grab\<close> and
  \<open>skynet_handle_retire\<close> change belong to the context.
\<close>

section \<open>Data\<close>

definition HANDLE_MASK :: u32 where "HANDLE_MASK = 0xffffff"
definition HANDLE_REMOTE_SHIFT :: nat where "HANDLE_REMOTE_SHIFT = 24"
definition DEFAULT_SLOT_SIZE :: nat where "DEFAULT_SLOT_SIZE = 4"
definition MAX_SLOT_SIZE :: nat where "MAX_SLOT_SIZE = 0x40000000"

type_synonym cptr = nat

record handle_name =
  hn_name :: string
  hn_handle :: u32

record handle_storage =
  harbor :: u32
  handle_index :: u32
  slot_size :: nat
  slot :: "cptr option list"
  name_cap :: nat
  name_count :: nat
  name :: "handle_name option list"

section \<open>Handles\<close>

definition slot_hash :: "handle_storage \<Rightarrow> u32 \<Rightarrow> nat" where
  "slot_hash s handle = unat (handle AND (of_nat (slot_size s) - 1))"

definition slot_at :: "cptr option list \<Rightarrow> nat \<Rightarrow> cptr option res" where
  "slot_at sl i = (if i < length sl then Inr (sl ! i) else Inl OutOfBounds)"

text \<open>The inner loop of \<open>skynet_handle_register\<close>: \<open>n\<close> more slots to try, from \<open>handle\<close> on.\<close>

fun register_scan :: "handle_storage \<Rightarrow> nat \<Rightarrow> u32 \<Rightarrow> u32 option res" where
  "register_scan s 0 handle = Inr None"
| "register_scan s (Suc n) handle =
     (let handle = (if handle > HANDLE_MASK then 1 else handle) in
      cbind (slot_at (slot s) (slot_hash s handle)) (\<lambda>c.
      if c = None then Inr (Some handle) else register_scan s n (handle + 1)))"

text \<open>Moving the contexts into an array of twice the size.\<close>

fun rehash :: "(cptr \<Rightarrow> u32) \<Rightarrow> nat \<Rightarrow> cptr option list \<Rightarrow> cptr option list \<Rightarrow> cptr option list res" where
  "rehash ch size2 [] new_slot = Inr new_slot"
| "rehash ch size2 (None # cs) new_slot = rehash ch size2 cs new_slot"
| "rehash ch size2 (Some c # cs) new_slot =
     (let hash = unat (ch c AND (of_nat size2 - 1)) in
      cbind (slot_at new_slot hash) (\<lambda>old.
      cbind (c_assert (old = None)) (\<lambda>_.
      rehash ch size2 cs (new_slot[hash := Some c]))))"

text \<open>With no slots at all the loop would double zero for ever.\<close>

function skynet_handle_register ::
  "(cptr \<Rightarrow> u32) \<Rightarrow> handle_storage \<Rightarrow> cptr \<Rightarrow> (handle_storage \<times> u32) res" where
  "skynet_handle_register ch s ctx =
     (case register_scan s (slot_size s) (handle_index s) of
        Inl e \<Rightarrow> Inl e
      | Inr (Some handle) \<Rightarrow>
          Inr (s\<lparr>slot := (slot s)[slot_hash s handle := Some ctx], handle_index := handle + 1\<rparr>,
               handle OR harbor s)
      | Inr None \<Rightarrow>
          if slot_size s = 0 then Inl Diverges
          else if \<not> slot_size s * 2 - 1 \<le> unat HANDLE_MASK then Inl AssertFail
          else (case rehash ch (slot_size s * 2) (take (slot_size s) (slot s))
                       (replicate (slot_size s * 2) None) of
                  Inl e \<Rightarrow> Inl e
                | Inr new_slot \<Rightarrow>
                    skynet_handle_register ch
                      (s\<lparr>slot := new_slot, slot_size := slot_size s * 2\<rparr>) ctx))"
  by pat_completeness auto
termination
  by (relation "measure (\<lambda>(ch, s, ctx). 2 ^ 25 - slot_size s)") (auto simp: HANDLE_MASK_def)

declare skynet_handle_register.simps [simp del]

text \<open>The lookup that \<open>skynet_handle_grab\<close> and \<open>skynet_handle_retire\<close> share.\<close>

definition handle_lookup :: "(cptr \<Rightarrow> u32) \<Rightarrow> handle_storage \<Rightarrow> u32 \<Rightarrow> cptr option res" where
  "handle_lookup ch s handle =
     cbind (slot_at (slot s) (slot_hash s handle)) (\<lambda>c.
     case c of
       None \<Rightarrow> Inr None
     | Some ctx \<Rightarrow> Inr (if ch ctx = handle then Some ctx else None))"

text \<open>The compaction of the name array: \<open>k\<close> more entries from \<open>i\<close> on, the next kept one goes to \<open>j\<close>.\<close>

fun compact_names ::
  "handle_name option list \<Rightarrow> u32 \<Rightarrow> nat \<Rightarrow> nat \<Rightarrow> nat \<Rightarrow> (handle_name option list \<times> nat) res" where
  "compact_names arr handle i 0 j = Inr (arr, j)"
| "compact_names arr handle i (Suc k) j =
     cbind (arr_get arr i) (\<lambda>n.
     if hn_handle n = handle then compact_names arr handle (Suc i) k j
     else if i \<noteq> j then
       cbind (arr_set arr j n) (\<lambda>arr. compact_names arr handle (Suc i) k (Suc j))
     else compact_names arr handle (Suc i) k (Suc j))"

text \<open>
  \<open>skynet_handle_retire\<close> up to the unlock: the context to release, if there was one, and the
  storage without it and without its names.
\<close>

definition handle_retire :: "(cptr \<Rightarrow> u32) \<Rightarrow> handle_storage \<Rightarrow> u32 \<Rightarrow> (handle_storage \<times> cptr option) res" where
  "handle_retire ch s handle =
     cbind (handle_lookup ch s handle) (\<lambda>c.
     case c of
       None \<Rightarrow> Inr (s, None)
     | Some ctx \<Rightarrow>
         cbind (compact_names (name s) handle 0 (name_count s) 0) (\<lambda>(arr, j).
         Inr (s\<lparr>slot := (slot s)[slot_hash s handle := None], name := arr, name_count := j\<rparr>,
              Some ctx)))"

section \<open>Names\<close>

fun strcmp :: "string \<Rightarrow> string \<Rightarrow> int" where
  "strcmp [] [] = 0"
| "strcmp [] (y # ys) = -1"
| "strcmp (x # xs) [] = 1"
| "strcmp (x # xs) (y # ys) =
     (if x = y then strcmp xs ys else if (of_char x :: nat) < of_char y then -1 else 1)"

datatype search_result = Found nat | NotFound nat

text \<open>The binary search of \<open>skynet_handle_findname\<close> and \<open>_insert_name\<close>.\<close>

function name_search :: "handle_name option list \<Rightarrow> string \<Rightarrow> int \<Rightarrow> int \<Rightarrow> search_result res" where
  "name_search arr nm begin0 end0 =
     (if begin0 \<le> end0 then
        if begin0 + end0 > int INT_MAX then Inl IntOverflow
        else
          let mid = (begin0 + end0) div 2 in
          (case arr_get arr (nat mid) of
             Inl e \<Rightarrow> Inl e
           | Inr n \<Rightarrow>
               let c = strcmp (hn_name n) nm in
               if c = 0 then Inr (Found (nat mid))
               else if c < 0 then name_search arr nm (mid + 1) end0
               else name_search arr nm begin0 (mid - 1))
      else Inr (NotFound (nat begin0)))"
  by pat_completeness auto
termination
  by (relation "measure (\<lambda>(arr, nm, b, e). nat (e - b + 1))") auto

declare name_search.simps [simp del]

definition skynet_handle_findname :: "handle_storage \<Rightarrow> string \<Rightarrow> u32 res" where
  "skynet_handle_findname s nm =
     cbind (name_search (name s) nm 0 (int (name_count s) - 1)) (\<lambda>r.
     case r of
       Found i \<Rightarrow> cbind (arr_get (name s) i) (\<lambda>n. Inr (hn_handle n))
     | NotFound _ \<Rightarrow> Inr 0)"

text \<open>\<open>for (k times from i) dst[i + off] = src[i]\<close>\<close>

fun copy_cells :: "'a option list \<Rightarrow> 'a option list \<Rightarrow> nat \<Rightarrow> nat \<Rightarrow> nat \<Rightarrow> 'a option list res" where
  "copy_cells src dst i 0 off = Inr dst"
| "copy_cells src dst i (Suc k) off =
     cbind (arr_get src i) (\<lambda>v.
     cbind (arr_set dst (i + off) v) (\<lambda>dst. copy_cells src dst (Suc i) k off))"

text \<open>\<open>for (i = before + k; i > before; i--) arr[i] = arr[i - 1]\<close>\<close>

fun shift_up :: "'a option list \<Rightarrow> nat \<Rightarrow> nat \<Rightarrow> 'a option list res" where
  "shift_up arr before 0 = Inr arr"
| "shift_up arr before (Suc k) =
     cbind (arr_get arr (before + k)) (\<lambda>v.
     cbind (arr_set arr (Suc (before + k)) v) (\<lambda>arr. shift_up arr before k))"

definition insert_name_before :: "handle_storage \<Rightarrow> string \<Rightarrow> u32 \<Rightarrow> nat \<Rightarrow> handle_storage res" where
  "insert_name_before s nm handle before =
     cbind
       (if name_count s \<ge> name_cap s then
          if name_cap s * 2 > INT_MAX then Inl IntOverflow
          else
            cbind (c_assert (name_cap s * 2 \<le> MAX_SLOT_SIZE)) (\<lambda>_.
            cbind (copy_cells (name s) (replicate (name_cap s * 2) None) 0 before 0) (\<lambda>n.
            cbind (copy_cells (name s) n before (name_count s - before) 1) (\<lambda>n.
            Inr (s\<lparr>name := n, name_cap := name_cap s * 2\<rparr>))))
        else
          cbind (shift_up (name s) before (name_count s - before)) (\<lambda>arr. Inr (s\<lparr>name := arr\<rparr>)))
     (\<lambda>s.
     cbind (arr_set (name s) before \<lparr>hn_name = nm, hn_handle = handle\<rparr>) (\<lambda>arr.
     Inr (s\<lparr>name := arr, name_count := name_count s + 1\<rparr>)))"

text \<open>\<open>None\<close> is the null pointer \<open>_insert_name\<close> returns when the name is taken.\<close>

definition skynet_handle_namehandle ::
  "handle_storage \<Rightarrow> u32 \<Rightarrow> string \<Rightarrow> (handle_storage \<times> string option) res" where
  "skynet_handle_namehandle s handle nm =
     cbind (name_search (name s) nm 0 (int (name_count s) - 1)) (\<lambda>r.
     case r of
       Found _ \<Rightarrow> Inr (s, None)
     | NotFound b \<Rightarrow>
         cbind (insert_name_before s nm handle b) (\<lambda>s. Inr (s, Some nm)))"

definition skynet_handle_init :: "int \<Rightarrow> handle_storage" where
  "skynet_handle_init hb = \<lparr>
     harbor = push_bit HANDLE_REMOTE_SHIFT (word_of_int hb AND 0xff),
     handle_index = 1,
     slot_size = DEFAULT_SLOT_SIZE,
     slot = replicate DEFAULT_SLOT_SIZE None,
     name_cap = 2,
     name_count = 0,
     name = replicate 2 None\<rparr>"

section \<open>Correctness of the handle table\<close>

definition handle_wf :: "(cptr \<Rightarrow> u32) \<Rightarrow> handle_storage \<Rightarrow> bool" where
  "handle_wf ch s \<longleftrightarrow>
     slot_size s \<in> (\<lambda>k. 2 ^ k) ` {2..24} \<and> length (slot s) = slot_size s
     \<and> 1 \<le> unat (handle_index s) \<and> unat (handle_index s) \<le> 2 ^ 24
     \<and> harbor s AND HANDLE_MASK = 0
     \<and> (\<forall>i < length (slot s). \<forall>c. slot s ! i = Some c \<longrightarrow>
          slot_hash s (ch c) = i \<and> ch c AND HANDLE_MASK \<noteq> 0 \<and> ch c AND NOT HANDLE_MASK = harbor s)"

definition registered :: "handle_storage \<Rightarrow> cptr set" where
  "registered s = {c. Some c \<in> set (slot s)}"

lemma unat_low: "unat (h AND HANDLE_MASK) = unat h mod 2 ^ 24"
  using and_pow2_mask [of 24 h] by (simp add: HANDLE_MASK_def)

lemma unat_HANDLE_MASK [simp]: "unat HANDLE_MASK = 16777215"
  by (simp add: HANDLE_MASK_def)

lemma low_id: "h \<le> HANDLE_MASK \<Longrightarrow> h AND HANDLE_MASK = h"
  by (rule word_unat_eq_iff [THEN iffD2]) (simp add: unat_low word_le_nat_alt)

lemma low_or: "h \<le> HANDLE_MASK \<Longrightarrow> hb AND HANDLE_MASK = 0 \<Longrightarrow> (h OR hb) AND HANDLE_MASK = h"
  by (simp add: bit.conj_disj_distrib2 low_id)

lemma high_or:
  assumes "h \<le> HANDLE_MASK" "hb AND HANDLE_MASK = 0"
  shows "(h OR hb) AND NOT HANDLE_MASK = hb"
proof -
  have "h AND NOT HANDLE_MASK = (h AND HANDLE_MASK) AND NOT HANDLE_MASK"
    using low_id [OF assms(1)] by simp
  then have 1: "h AND NOT HANDLE_MASK = 0" by (simp add: and.assoc)
  have "hb = (hb AND HANDLE_MASK) OR (hb AND NOT HANDLE_MASK)"
    by (simp flip: bit.conj_disj_distrib)
  with assms(2) have "hb AND NOT HANDLE_MASK = hb" by simp
  with 1 show ?thesis by (simp add: bit.conj_disj_distrib2)
qed

lemma handle_wfD:
  assumes "handle_wf ch s"
  obtains k where "2 \<le> k" "k \<le> 24" "slot_size s = 2 ^ k" "length (slot s) = 2 ^ k"
  using assms by (auto simp: handle_wf_def)

lemma slot_hash_mod: "slot_size s = 2 ^ k \<Longrightarrow> k \<le> 24 \<Longrightarrow> slot_hash s h = unat h mod 2 ^ k"
  using and_pow2_mask [of k h] by (simp add: slot_hash_def)

lemma slot_hash_lt: "handle_wf ch s \<Longrightarrow> slot_hash s h < length (slot s)"
  by (erule handle_wfD) (simp add: slot_hash_mod)

text \<open>Only the low 24 bits of a handle choose the slot.\<close>

lemma slot_hash_low:
  assumes "slot_size s = 2 ^ k" "k \<le> 24" "h AND HANDLE_MASK = h' AND HANDLE_MASK"
  shows "slot_hash s h = slot_hash s h'"
proof -
  have "unat h mod 2 ^ 24 = unat h' mod 2 ^ 24"
    using arg_cong [OF assms(3), of unat] by (simp only: unat_low)
  then have "unat h mod 2 ^ 24 mod 2 ^ k = unat h' mod 2 ^ 24 mod 2 ^ k" by simp
  moreover have "(2::nat) ^ k dvd 2 ^ 24" using assms(2) by (rule le_imp_power_dvd)
  ultimately show ?thesis
    using slot_hash_mod [OF assms(1,2)] by (simp only: mod_mod_cancel)
qed

subsection \<open>The scan\<close>

text \<open>The \<open>i\<close>-th handle the scan tries when it starts at \<open>h\<close>: it skips 0 on wrapping around.\<close>

definition visit :: "nat \<Rightarrow> nat \<Rightarrow> nat" where
  "visit h i = (h - 1 + i) mod 16777215 + 1"

lemma visit_bounds: "1 \<le> visit h i" "visit h i < 2 ^ 24"
  by (simp_all add: visit_def)

definition wrap_handle :: "u32 \<Rightarrow> u32" where
  "wrap_handle h = (if h > HANDLE_MASK then 1 else h)"

lemma wrap_handle_visit:
  assumes "1 \<le> unat h" "unat h \<le> 2 ^ 24"
  shows "unat (wrap_handle h) = visit (unat h) 0" "unat (wrap_handle h + 1) = visit (unat h) 0 + 1"
    "visit (Suc (visit (unat h) 0)) i = visit (unat h) (Suc i)"
proof -
  show u: "unat (wrap_handle h) = visit (unat h) 0"
    using assms by (auto simp: wrap_handle_def visit_def word_less_nat_alt not_less mod_if)
  have "unat (wrap_handle h) + 1 < 2 ^ 32" using visit_bounds(2) [of "unat h" 0] u by simp
  then show "unat (wrap_handle h + 1) = visit (unat h) 0 + 1"
    using u by (simp add: unat_word_ariths)
  show "visit (Suc (visit (unat h) 0)) i = visit (unat h) (Suc i)"
    using mod_add_left_eq [of "unat h - 1" 16777215 "Suc i"] by (simp add: visit_def)
qed

text \<open>The scan returns a free slot, or every slot it tried is taken.\<close>

lemma register_scan_ok:
  assumes size: "slot_size s = 2 ^ k" "k \<le> 24" "length (slot s) = 2 ^ k"
    and h: "1 \<le> unat h" "unat h \<le> 2 ^ 24"
  shows "\<exists>r. register_scan s n h = Inr r \<and>
    (case r of
       Some h' \<Rightarrow> 1 \<le> unat h' \<and> unat h' < 2 ^ 24 \<and> slot s ! slot_hash s h' = None
     | None \<Rightarrow> \<forall>i < n. slot s ! (visit (unat h) i mod 2 ^ k) \<noteq> None)"
  using h
proof (induction n arbitrary: h)
  case 0
  then show ?case by simp
next
  case (Suc n)
  note W = wrap_handle_visit [OF Suc.prems]
  let ?h = "wrap_handle h"
  have hash: "slot_hash s ?h = visit (unat h) 0 mod 2 ^ k"
    by (simp add: slot_hash_mod [OF size(1,2)] W(1))
  have lt: "slot_hash s ?h < length (slot s)" by (simp add: hash size(3))
  have step: "register_scan s (Suc n) h =
      (if slot s ! slot_hash s ?h = None then Inr (Some ?h) else register_scan s n (?h + 1))"
    using lt by (simp add: wrap_handle_def [symmetric] Let_def slot_at_def)
  show ?case
  proof (cases "slot s ! slot_hash s ?h = None")
    case True
    with step visit_bounds [of "unat h" 0] show ?thesis by (simp add: W(1))
  next
    case False
    have "1 \<le> unat (?h + 1)" "unat (?h + 1) \<le> 2 ^ 24"
      using visit_bounds [of "unat h" 0] by (simp_all add: W(2))
    from Suc.IH [OF this] obtain r where r: "register_scan s n (?h + 1) = Inr r"
      "(case r of Some h' \<Rightarrow> 1 \<le> unat h' \<and> unat h' < 2 ^ 24 \<and> slot s ! slot_hash s h' = None
       | None \<Rightarrow> \<forall>i < n. slot s ! (visit (unat (?h + 1)) i mod 2 ^ k) \<noteq> None)" by blast
    from r(2) have "(case r of Some h' \<Rightarrow> 1 \<le> unat h' \<and> unat h' < 2 ^ 24 \<and> slot s ! slot_hash s h' = None
       | None \<Rightarrow> \<forall>i < Suc n. slot s ! (visit (unat h) i mod 2 ^ k) \<noteq> None)"
      using False hash by (auto simp: W(2,3) less_Suc_eq_0_disj split: option.splits)
    with step False r(1) show ?thesis by simp
  qed
qed

text \<open>\<open>2 ^ 24\<close> tries visit every handle but the reserved 0.\<close>

lemma visit_all:
  assumes "1 \<le> v" "v < 2 ^ 24"
  shows "\<exists>i < 2 ^ 24. visit h i = v"
proof -
  let ?m = "16777215 :: nat"
  let ?i = "(v - 1 + (?m - (h - 1) mod ?m)) mod ?m"
  have "visit h ?i = (h - 1 + (v - 1 + (?m - (h - 1) mod ?m))) mod ?m + 1"
    by (simp add: visit_def mod_simps)
  also have "h - 1 + (v - 1 + (?m - (h - 1) mod ?m)) = ((h - 1) div ?m + 1) * ?m + (v - 1)"
  proof -
    have "h - 1 = (h - 1) div ?m * ?m + (h - 1) mod ?m" by simp
    moreover have "(h - 1) mod ?m < ?m" by simp
    ultimately show ?thesis by (simp only: add_mult_distrib) linarith
  qed
  also have "(\<dots>) mod ?m + 1 = v" unfolding mod_mult_self3 using assms by simp
  finally have "visit h ?i = v" .
  moreover have "?i < 2 ^ 24" by (rule less_trans [of _ ?m]) simp_all
  ultimately show ?thesis by blast
qed

subsection \<open>Doubling the table\<close>

definition somes :: "'a option list \<Rightarrow> 'a list" where
  "somes = List.map_filter (\<lambda>x. x)"

lemma somes_simps [simp]: "somes [] = []" "somes (None # xs) = somes xs" "somes (Some x # xs) = x # somes xs"
  by (simp_all add: somes_def map_filter_simps)

lemma set_somes [simp]: "c \<in> set (somes xs) \<longleftrightarrow> Some c \<in> set xs"
  by (induction xs) (auto simp: somes_def map_filter_simps split: option.split)

lemma somes_positions:
  assumes "\<And>i c. i < length cs \<Longrightarrow> cs ! i = Some c \<Longrightarrow> g c = i0 + i"
  shows "distinct (map g (somes cs)) \<and> (\<forall>c \<in> set (somes cs). i0 \<le> g c)"
  using assms
proof (induction cs arbitrary: i0)
  case Nil
  then show ?case by simp
next
  case (Cons x cs)
  have "g c = Suc i0 + i" if "i < length cs" "cs ! i = Some c" for i c
    using Cons.prems [of "Suc i" c] that by simp
  from Cons.IH [OF this] Cons.prems [of 0] show ?case
    by (cases x) (auto simp: image_iff Suc_le_eq)
qed

lemma rehash_ok:
  assumes "size2 = 2 ^ k" "k \<le> 32" "length acc = size2"
    and "distinct (map (\<lambda>c. unat (ch c) mod 2 ^ k) (somes cs))"
    and "\<And>c. Some c \<in> set cs \<Longrightarrow> acc ! (unat (ch c) mod 2 ^ k) = None"
  shows "\<exists>new. rehash ch size2 cs acc = Inr new \<and> length new = size2
    \<and> (\<forall>j < size2. new ! j = (case find (\<lambda>c. unat (ch c) mod 2 ^ k = j) (somes cs) of
                               None \<Rightarrow> acc ! j | Some c \<Rightarrow> Some c))"
  using assms(3-5)
proof (induction cs arbitrary: acc)
  case Nil
  then show ?case by simp
next
  case (Cons x cs)
  show ?case
  proof (cases x)
    case None
    with Cons show ?thesis by simp
  next
    case (Some c)
    let ?h = "unat (ch c) mod 2 ^ k"
    have hash: "unat (ch c AND (of_nat size2 - 1)) = ?h"
      using and_pow2_mask [of k "ch c"] assms(1,2) by simp
    have lt: "?h < length acc" using Cons.prems(1) assms(1) by simp
    from Cons.prems(3) [of c] Some have free: "acc ! ?h = None" by simp
    have others: "(acc[?h := Some c]) ! (unat (ch d) mod 2 ^ k) = None" if "Some d \<in> set cs" for d
      using Cons.prems(2) Cons.prems(3) [of d] that Some by (auto simp: nth_list_update image_iff)
    from Cons.IH [of "acc[?h := Some c]"] others Cons.prems(1,2) Some obtain new where
      new: "rehash ch size2 cs (acc[?h := Some c]) = Inr new" "length new = size2"
      "\<forall>j < size2. new ! j = (case find (\<lambda>c. unat (ch c) mod 2 ^ k = j) (somes cs) of
         None \<Rightarrow> (acc[?h := Some c]) ! j | Some c \<Rightarrow> Some c)" by auto
    have nf: "find (\<lambda>d. unat (ch d) mod 2 ^ k = ?h) (somes cs) = None"
      using Cons.prems(2) Some by (auto simp: find_None_iff image_iff simp del: set_somes)
    have "rehash ch size2 (x # cs) acc = Inr new"
      using Some hash lt free new(1) by (simp add: Let_def slot_at_def)
    moreover have "\<forall>j < size2. new ! j =
        (case find (\<lambda>c. unat (ch c) mod 2 ^ k = j) (somes (x # cs)) of
           None \<Rightarrow> acc ! j | Some c \<Rightarrow> Some c)"
      using new(3) Some nf Cons.prems(1) lt by (auto simp: nth_list_update split: option.split)
    ultimately show ?thesis using new(2) by blast
  qed
qed

text \<open>In a well-formed table the doubling keeps every context and finds no collision.\<close>

lemma double_ok:
  assumes wf: "handle_wf ch s" and size: "slot_size s = 2 ^ k" "k < 24"
  shows "\<exists>new. rehash ch (slot_size s * 2) (take (slot_size s) (slot s))
      (replicate (slot_size s * 2) None) = Inr new
    \<and> handle_wf ch (s\<lparr>slot := new, slot_size := slot_size s * 2\<rparr>)
    \<and> registered (s\<lparr>slot := new, slot_size := slot_size s * 2\<rparr>) = registered s"
proof -
  let ?s2 = "slot_size s * 2"
  let ?g = "\<lambda>c. unat (ch c) mod 2 ^ k" and ?h = "\<lambda>c. unat (ch c) mod 2 ^ Suc k"
  have len: "length (slot s) = slot_size s" using wf by (simp add: handle_wf_def)
  have pos: "?g c = i" if "i < length (slot s)" "slot s ! i = Some c" for i c
    using wf that slot_hash_mod [OF size(1)] size(2) by (auto simp: handle_wf_def)
  have "distinct (map ?g (somes (slot s)))"
    using somes_positions [of "slot s" ?g 0] pos by simp
  moreover have "?g = (\<lambda>j. j mod 2 ^ k) \<circ> ?h"
    by (auto simp: fun_eq_iff mod_mod_cancel)
  ultimately have dist: "distinct (map ?h (somes (slot s)))"
    by (metis distinct_map inj_on_imageI2)
  have "\<exists>new. rehash ch ?s2 (slot s) (replicate ?s2 None) = Inr new \<and> length new = ?s2
      \<and> (\<forall>j < ?s2. new ! j = (case find (\<lambda>c. ?h c = j) (somes (slot s)) of
            None \<Rightarrow> replicate ?s2 None ! j | Some c \<Rightarrow> Some c))"
    by (rule rehash_ok) (use size dist in \<open>simp_all add: mult.commute [of "2 ^ k" 2]\<close>)
  then obtain new where new: "rehash ch ?s2 (slot s) (replicate ?s2 None) = Inr new" "length new = ?s2"
    and cells: "\<forall>j < ?s2. new ! j = (case find (\<lambda>c. ?h c = j) (somes (slot s)) of
            None \<Rightarrow> replicate ?s2 None ! j | Some c \<Rightarrow> Some c)" by blast
  have new3: "new ! j = find (\<lambda>c. ?h c = j) (somes (slot s))" if "j < ?s2" for j
    using cells that by (cases "find (\<lambda>c. ?h c = j) (somes (slot s))") simp_all
  let ?t = "s\<lparr>slot := new, slot_size := ?s2\<rparr>"
  have cell: "new ! j = Some c \<longleftrightarrow> Some c \<in> set (slot s) \<and> ?h c = j" if "j < ?s2" for j c
    using new3 [OF that] dist
    by (auto simp: find_Some_iff in_set_conv_nth [of _ "somes (slot s)"] distinct_conv_nth
        simp flip: set_somes)
  have hash2: "slot_hash ?t d = unat d mod 2 ^ Suc k" for d
    by (rule slot_hash_mod) (use size in simp_all)
  have old: "ch c AND HANDLE_MASK \<noteq> 0 \<and> ch c AND NOT HANDLE_MASK = harbor s" if "Some c \<in> set (slot s)" for c
    using wf that by (auto simp: handle_wf_def in_set_conv_nth)
  have "handle_wf ch ?t"
    using wf new(2) size cell old hash2
    by (auto simp: handle_wf_def intro!: image_eqI [of _ _ "Suc k"])
  moreover have "registered ?t = registered s"
  proof -
    have "Some c \<in> set new \<longleftrightarrow> Some c \<in> set (slot s)" for c
    proof
      assume "Some c \<in> set new"
      then show "Some c \<in> set (slot s)" using new(2) cell by (auto simp: in_set_conv_nth)
    next
      assume "Some c \<in> set (slot s)"
      then have "new ! ?h c = Some c" "?h c < length new" using cell [of "?h c" c] new(2) size
        by (simp_all add: mult.commute [of "2 ^ k" 2])
      then show "Some c \<in> set new" by (metis nth_mem)
    qed
    then show ?thesis by (simp add: registered_def)
  qed
  ultimately show ?thesis using new(1) len by auto
qed

subsection \<open>Registration\<close>

lemma finite_registered [simp]: "finite (registered s)"
proof -
  have "registered s = set (somes (slot s))" by (auto simp: registered_def)
  then show ?thesis by simp
qed

lemma register_found:
  assumes wf: "handle_wf ch s" and new: "ctx \<notin> registered s"
    and h: "1 \<le> unat h0" "unat h0 < 2 ^ 24" "slot s ! slot_hash s h0 = None"
  defines "s' \<equiv> s\<lparr>slot := (slot s)[slot_hash s h0 := Some ctx], handle_index := h0 + 1\<rparr>"
    and "h \<equiv> h0 OR harbor s"
  shows "handle_wf (ch(ctx := h)) s'" "registered s' = insert ctx (registered s)"
    "h AND HANDLE_MASK = h0" "h AND NOT HANDLE_MASK = harbor s" "\<forall>c \<in> registered s. ch c \<noteq> h"
proof -
  from wf obtain k where k: "2 \<le> k" "k \<le> 24" "slot_size s = 2 ^ k" "length (slot s) = 2 ^ k"
    by (rule handle_wfD)
  have hb: "harbor s AND HANDLE_MASK = 0" using wf by (simp add: handle_wf_def)
  have le: "h0 \<le> HANDLE_MASK" using h by (simp add: word_le_nat_alt)
  show low: "h AND HANDLE_MASK = h0" and high: "h AND NOT HANDLE_MASK = harbor s"
    unfolding h_def by (rule low_or [OF le hb], rule high_or [OF le hb])
  have nz: "h0 \<noteq> 0" using h(1) by auto
  have hash: "slot_hash s h = slot_hash s h0"
    using slot_hash_low [OF k(3,2), of h h0] low low_id [OF le] by simp
  have hs: "slot_hash s' d = slot_hash s d" for d by (simp add: slot_hash_def s'_def)
  have lt: "slot_hash s h0 < length (slot s)" by (rule slot_hash_lt [OF wf])
  have "unat (h0 + 1) = unat h0 + 1" using h(2) by (simp add: unat_word_ariths)
  moreover have "c \<noteq> ctx" if "i < length (slot s)" "slot s ! i = Some c" for i c
    using that new by (metis (mono_tags, lifting) mem_Collect_eq nth_mem registered_def)
  ultimately show "handle_wf (ch(ctx := h)) s'"
    using wf h lt nz low high hash unfolding handle_wf_def hs
    by (auto simp: s'_def nth_list_update split: if_splits)
  show "registered s' = insert ctx (registered s)"
  proof (rule set_eqI)
    fix c
    have "Some c \<in> set ((slot s)[slot_hash s h0 := Some ctx]) \<longleftrightarrow> c = ctx \<or> Some c \<in> set (slot s)"
      using lt h(3) by (auto simp: in_set_conv_nth nth_list_update split: if_splits) (metis option.distinct(1))+
    then show "c \<in> registered s' \<longleftrightarrow> c \<in> insert ctx (registered s)"
      by (auto simp: registered_def s'_def)
  qed
  show "\<forall>c \<in> registered s. ch c \<noteq> h"
    using wf h(3) hash by (auto simp: registered_def handle_wf_def in_set_conv_nth)
qed

lemma full_table:
  assumes wf: "handle_wf ch s" and size: "slot_size s = 2 ^ 24"
    and full: "\<forall>i < 2 ^ 24. slot s ! (visit h i mod 2 ^ 24) \<noteq> None"
  shows "2 ^ 24 - 1 \<le> card (registered s)"
proof -
  have "{1..<2 ^ 24} \<subseteq> (\<lambda>c. slot_hash s (ch c)) ` registered s"
  proof
    fix v :: nat assume "v \<in> {1..<2 ^ 24}"
    then have v: "1 \<le> v" "v < 2 ^ 24" by simp_all
    from visit_all [OF v] obtain i where "i < 2 ^ 24" "visit h i = v" by blast
    with full v obtain c where c: "slot s ! v = Some c" by fastforce
    with wf size v have "slot_hash s (ch c) = v" "Some c \<in> set (slot s)"
      by (auto simp: handle_wf_def in_set_conv_nth)
    then show "v \<in> (\<lambda>c. slot_hash s (ch c)) ` registered s" by (auto simp: registered_def)
  qed
  from surj_card_le [OF finite_registered this] show ?thesis by simp
qed

lemma register_ok:
  assumes "handle_wf ch s" "ctx \<notin> registered s" "card (registered s) < 2 ^ 24 - 1"
  shows "\<exists>s' h. skynet_handle_register ch s ctx = Inr (s', h)
    \<and> handle_wf (ch(ctx := h)) s' \<and> registered s' = insert ctx (registered s)
    \<and> h AND HANDLE_MASK \<noteq> 0 \<and> h AND NOT HANDLE_MASK = harbor s \<and> (\<forall>c \<in> registered s. ch c \<noteq> h)
    \<and> harbor s' = harbor s \<and> name s' = name s \<and> name_count s' = name_count s \<and> name_cap s' = name_cap s"
  using assms
proof (induction ch s ctx rule: skynet_handle_register.induct)
  case (1 ch s ctx)
  note wf = "1.prems"(1)
  from wf obtain k where k: "2 \<le> k" "k \<le> 24" "slot_size s = 2 ^ k" "length (slot s) = 2 ^ k"
    by (rule handle_wfD)
  have hi: "1 \<le> unat (handle_index s)" "unat (handle_index s) \<le> 2 ^ 24"
    using wf by (simp_all add: handle_wf_def)
  from register_scan_ok [OF k(3,2,4) hi, of "slot_size s"] obtain r where
    r: "register_scan s (slot_size s) (handle_index s) = Inr r"
    "(case r of
       Some h' \<Rightarrow> 1 \<le> unat h' \<and> unat h' < 2 ^ 24 \<and> slot s ! slot_hash s h' = None
     | None \<Rightarrow> \<forall>i < slot_size s. slot s ! (visit (unat (handle_index s)) i mod 2 ^ k) \<noteq> None)" by blast
  show ?case
  proof (cases r)
    case (Some h0)
    with r(2) have h0: "1 \<le> unat h0" "unat h0 < 2 ^ 24" "slot s ! slot_hash s h0 = None" by simp_all
    then have "h0 \<noteq> 0" by auto
    with register_found [OF wf "1.prems"(2) h0] Some r(1) show ?thesis
      by (simp add: skynet_handle_register.simps [of ch s ctx] fun_upd_def)
  next
    case None
    have "k \<noteq> 24"
    proof
      assume "k = 24"
      with None r(2) k(3) full_table [OF wf, of "unat (handle_index s)"] "1.prems"(3)
      show False by simp
    qed
    with k(2) have k24: "k < 24" by simp
    from double_ok [OF wf k(3) k24] obtain new where new:
      "rehash ch (slot_size s * 2) (take (slot_size s) (slot s)) (replicate (slot_size s * 2) None) = Inr new"
      "handle_wf ch (s\<lparr>slot := new, slot_size := slot_size s * 2\<rparr>)"
      "registered (s\<lparr>slot := new, slot_size := slot_size s * 2\<rparr>) = registered s" by blast
    have "(2::nat) ^ k * 2 \<le> 2 ^ 24" using power_increasing [of "Suc k" 24 "2::nat"] k24 by simp
    then have bounds: "slot_size s \<noteq> 0" "slot_size s * 2 - 1 \<le> unat HANDLE_MASK"
      using k(3) by simp_all
    let ?t = "s\<lparr>slot := new, slot_size := slot_size s * 2\<rparr>"
    have "skynet_handle_register ch s ctx = skynet_handle_register ch ?t ctx"
      using r(1) None bounds new(1) by (simp add: skynet_handle_register.simps [of ch s ctx])
    moreover note "1.IH" [OF r(1) None bounds(1) _ new(1) new(2)]
    ultimately show ?thesis using new(3) "1.prems"(2,3) bounds(2) by simp
  qed
qed

subsection \<open>Lookup and retirement\<close>

lemma registered_iff:
  assumes wf: "handle_wf ch s"
  shows "c \<in> registered s \<longleftrightarrow> slot s ! slot_hash s (ch c) = Some c"
proof
  assume "c \<in> registered s"
  then show "slot s ! slot_hash s (ch c) = Some c"
    using wf by (auto simp: registered_def handle_wf_def in_set_conv_nth)
next
  assume "slot s ! slot_hash s (ch c) = Some c"
  then show "c \<in> registered s"
    using nth_mem [OF slot_hash_lt [OF wf, of "ch c"]] by (simp add: registered_def)
qed

text \<open>A lookup returns exactly the registered context that carries the handle.\<close>

lemma handle_lookup_ok:
  assumes wf: "handle_wf ch s"
  shows "\<exists>r. handle_lookup ch s h = Inr r \<and> (\<forall>c. r = Some c \<longleftrightarrow> c \<in> registered s \<and> ch c = h)"
proof -
  note lt = slot_hash_lt [OF wf, of h]
  have at: "slot s ! slot_hash s h = Some c" if "c \<in> registered s" "ch c = h" for c
    using that wf by (auto simp: registered_def handle_wf_def in_set_conv_nth)
  show ?thesis
  proof (cases "slot s ! slot_hash s h")
    case None
    with lt at show ?thesis by (auto simp: handle_lookup_def slot_at_def)
  next
    case (Some c)
    then have "c \<in> registered s" using nth_mem [OF lt] by (simp add: registered_def)
    with at Some have uniq: "(x \<in> registered s \<and> ch x = h) = (x = c \<and> ch c = h)" for x by auto
    have "handle_lookup ch s h = Inr (if ch c = h then Some c else None)"
      using Some lt by (simp add: handle_lookup_def slot_at_def)
    then show ?thesis unfolding uniq by auto
  qed
qed

section \<open>Correctness of the name table\<close>

definition name_tbl :: "handle_storage \<Rightarrow> handle_name list" where
  "name_tbl s = map the (take (name_count s) (name s))"

definition names_wf :: "handle_storage \<Rightarrow> bool" where
  "names_wf s \<longleftrightarrow>
     cap_ok (name_cap s) \<and> length (name s) = name_cap s \<and> name_count s \<le> name_cap s
     \<and> (\<forall>i < name_count s. name s ! i \<noteq> None)
     \<and> sorted_wrt (<) (map hn_name (name_tbl s))"

lemma strcmp_eq: "strcmp a b = 0 \<longleftrightarrow> a = b"
  by (induction a b rule: strcmp.induct) auto

lemma strcmp_less: "strcmp a b < 0 \<longleftrightarrow> a < b"
  by (induction a b rule: strcmp.induct) (auto simp: less_char_def)

lemma length_name_tbl [simp]: "names_wf s \<Longrightarrow> length (name_tbl s) = name_count s"
  by (simp add: name_tbl_def names_wf_def)

lemma name_cell: "names_wf s \<Longrightarrow> i < name_count s \<Longrightarrow> name s ! i = Some (name_tbl s ! i)"
  by (auto simp: names_wf_def name_tbl_def)

subsection \<open>Binary search\<close>

lemma name_search_ok:
  assumes arr: "\<And>i. i < length t \<Longrightarrow> i < length arr \<and> arr ! i = Some (t ! i)"
    and sorted: "sorted_wrt (<) (map hn_name t)" and len: "length t \<le> 2 ^ 30"
    and b: "0 \<le> b" "b \<le> e + 1" "e < int (length t)"
    and lo: "\<And>i. int i < b \<Longrightarrow> hn_name (t ! i) < nm"
    and hi: "\<And>i. e < int i \<Longrightarrow> i < length t \<Longrightarrow> nm < hn_name (t ! i)"
  shows "\<exists>r. name_search arr nm b e = Inr r \<and>
    (case r of
       Found i \<Rightarrow> i < length t \<and> hn_name (t ! i) = nm
     | NotFound p \<Rightarrow> p \<le> length t \<and> (\<forall>i < p. hn_name (t ! i) < nm)
         \<and> (\<forall>i. p \<le> i \<longrightarrow> i < length t \<longrightarrow> nm < hn_name (t ! i)))"
  using arr b lo hi
proof (induction arr nm b e rule: name_search.induct)
  case (1 arr nm b e)
  show ?case
  proof (cases "b \<le> e")
    case False
    with "1.prems" show ?thesis by (auto simp: name_search.simps [of arr nm b e])
  next
    case True
    let ?mid = "(b + e) div 2"
    have mid: "b \<le> ?mid" "?mid \<le> e" "0 \<le> ?mid" using True "1.prems"(2) by auto
    have m: "nat ?mid < length t" using mid "1.prems"(4) by linarith
    have small: "\<not> int INT_MAX < b + e" using "1.prems"(2-4) len True by (simp add: INT_MAX_def)
    from "1.prems"(1) [OF m] have get: "arr_get arr (nat ?mid) = Inr (t ! nat ?mid)"
      by (simp add: arr_get_Some)
    have mono: "i < j \<Longrightarrow> j < length t \<Longrightarrow> hn_name (t ! i) < hn_name (t ! j)" for i j
      using sorted by (auto simp: sorted_wrt_iff_nth_less)
    note unf = name_search.simps [of arr nm b e]
    consider (eq) "hn_name (t ! nat ?mid) = nm" | (less) "hn_name (t ! nat ?mid) < nm"
      | (greater) "nm < hn_name (t ! nat ?mid)" using less_linear by blast
    then show ?thesis
    proof cases
      case eq
      with True small get m show ?thesis by (simp add: unf Let_def strcmp_eq)
    next
      case less
      have lo': "hn_name (t ! i) < nm" if "int i < ?mid + 1" for i
      proof (cases "i = nat ?mid")
        case False
        with that have "i < nat ?mid" by linarith
        from mono [OF this m] less show ?thesis by (rule less_trans)
      qed (simp add: less)
      have ne: "strcmp (hn_name (t ! nat ?mid)) nm \<noteq> 0" "strcmp (hn_name (t ! nat ?mid)) nm < 0"
        using less by (auto simp: strcmp_eq strcmp_less)
      have step: "name_search arr nm b e = name_search arr nm (?mid + 1) e"
        using True small get ne by (simp add: unf Let_def)
      from "1.IH"(1) [OF True small refl get refl ne "1.prems"(1) _ _ "1.prems"(4) lo' "1.prems"(6)] mid
      show ?thesis unfolding step by simp
    next
      case greater
      have hi': "nm < hn_name (t ! i)" if "?mid - 1 < int i" "i < length t" for i
      proof (cases "i = nat ?mid")
        case False
        with that mid(3) have "nat ?mid < i" by linarith
        from greater mono [OF this that(2)] show ?thesis by (rule less_trans)
      qed (simp add: greater)
      have ne: "strcmp (hn_name (t ! nat ?mid)) nm \<noteq> 0" "\<not> strcmp (hn_name (t ! nat ?mid)) nm < 0"
        using greater by (auto simp: strcmp_eq strcmp_less)
      have step: "name_search arr nm b e = name_search arr nm b (?mid - 1)"
        using True small get ne by (simp add: unf Let_def)
      from "1.IH"(2) [OF True small refl get refl ne "1.prems"(1,2) _ _ "1.prems"(5) hi'] mid "1.prems"(4)
      show ?thesis unfolding step by simp
    qed
  qed
qed

lemma name_search_table:
  assumes wf: "names_wf s"
  shows "\<exists>r. name_search (name s) nm 0 (int (name_count s) - 1) = Inr r \<and>
    (case r of
       Found i \<Rightarrow> i < name_count s \<and> hn_name (name_tbl s ! i) = nm
     | NotFound p \<Rightarrow> p \<le> name_count s \<and> (\<forall>i < p. hn_name (name_tbl s ! i) < nm)
         \<and> (\<forall>i. p \<le> i \<longrightarrow> i < name_count s \<longrightarrow> nm < hn_name (name_tbl s ! i)))"
proof -
  have "name_count s \<le> 2 ^ 30" using wf cap_ok_le [of "name_cap s"] by (simp add: names_wf_def)
  then show ?thesis
    using name_search_ok [of "name_tbl s" "name s" 0 "int (name_count s) - 1" nm,
        unfolded length_name_tbl [OF wf]] wf name_cell [OF wf]
    by (simp add: names_wf_def)
qed

subsection \<open>Moving entries\<close>

lemma copy_cells_ok:
  assumes "i + k \<le> length src" "i + off + k \<le> length dst"
    and "\<And>x. i \<le> x \<Longrightarrow> x < i + k \<Longrightarrow> src ! x \<noteq> None"
  shows "\<exists>dst'. copy_cells src dst i k off = Inr dst' \<and> length dst' = length dst
    \<and> (\<forall>y < length dst. dst' ! y = (if i + off \<le> y \<and> y < i + off + k then src ! (y - off) else dst ! y))"
  using assms
proof (induction k arbitrary: i dst)
  case 0
  then show ?case by auto
next
  case (Suc k)
  from Suc.prems(3) [of i] obtain v where v: "src ! i = Some v" by auto
  let ?d = "dst[i + off := Some v]"
  from Suc.IH [of "Suc i" ?d] Suc.prems obtain dst' where d:
    "copy_cells src ?d (Suc i) k off = Inr dst'" "length dst' = length dst"
    "\<forall>y < length dst. dst' ! y = (if Suc i + off \<le> y \<and> y < Suc i + off + k then src ! (y - off) else ?d ! y)"
    by auto
  have "copy_cells src dst i (Suc k) off = Inr dst'"
    using d(1) v Suc.prems by (simp add: arr_get_Some arr_set_ok)
  moreover have "dst' ! y = (if i + off \<le> y \<and> y < i + off + Suc k then src ! (y - off) else dst ! y)"
    if "y < length dst" for y
    using d(3) that v by (cases "y = i + off") auto
  ultimately show ?case using d(2) by blast
qed

lemma shift_up_ok:
  assumes "b + k < length arr" and "\<And>x. b \<le> x \<Longrightarrow> x < b + k \<Longrightarrow> arr ! x \<noteq> None"
  shows "\<exists>arr'. shift_up arr b k = Inr arr' \<and> length arr' = length arr
    \<and> (\<forall>y < length arr. arr' ! y = (if b < y \<and> y \<le> b + k then arr ! (y - 1) else arr ! y))"
  using assms
proof (induction k arbitrary: arr)
  case 0
  then show ?case by auto
next
  case (Suc k)
  from Suc.prems(2) [of "b + k"] obtain v where v: "arr ! (b + k) = Some v" by auto
  let ?a = "arr[Suc (b + k) := Some v]"
  from Suc.IH [of ?a] Suc.prems obtain arr' where a:
    "shift_up ?a b k = Inr arr'" "length arr' = length arr"
    "\<forall>y < length arr. arr' ! y = (if b < y \<and> y \<le> b + k then ?a ! (y - 1) else ?a ! y)" by auto
  have "shift_up arr b (Suc k) = Inr arr'"
    using a(1) v Suc.prems(1) by (simp add: arr_get_Some arr_set_ok)
  moreover have "arr' ! y = (if b < y \<and> y \<le> b + Suc k then arr ! (y - 1) else arr ! y)"
    if "y < length arr" for y
    using a(3) that v by (cases "y = Suc (b + k)") (auto simp: nth_list_update)
  ultimately show ?case using a(2) by blast
qed

text \<open>Both branches of \<open>_insert_name_before\<close> put the new entry between its neighbours.\<close>

lemma insert_name_before_ok:
  assumes wf: "names_wf s" and p: "p \<le> name_count s" and room: "name_count s < 2 ^ 30"
  shows "\<exists>arr cap. insert_name_before s nm h p =
      Inr (s\<lparr>name := arr, name_cap := cap, name_count := name_count s + 1\<rparr>)
    \<and> cap_ok cap \<and> length arr = cap \<and> name_count s < cap
    \<and> (\<forall>y \<le> name_count s. arr ! y = Some (if y < p then name_tbl s ! y
          else if y = p then \<lparr>hn_name = nm, hn_handle = h\<rparr> else name_tbl s ! (y - 1)))"
proof -
  let ?n = "name_count s" and ?new = "\<lparr>hn_name = nm, hn_handle = h\<rparr>"
  from wf have W: "cap_ok (name_cap s)" "length (name s) = name_cap s" "?n \<le> name_cap s"
    by (simp_all add: names_wf_def)
  note cell = name_cell [OF wf]
  show ?thesis
  proof (cases "?n \<ge> name_cap s")
    case True
    with W have full: "?n = name_cap s" by simp
    with room have cap: "name_cap s < 2 ^ 30" by simp
    let ?c2 = "name_cap s * 2"
    have pos: "0 < name_cap s" using W(1) by auto
    have chk: "\<not> ?c2 > INT_MAX" "?c2 \<le> MAX_SLOT_SIZE"
      using cap cap_lt_INT_MAX [OF cap] cap_ok_le [OF cap_ok_double [OF W(1) cap]]
      by (simp_all add: MAX_SLOT_SIZE_def)
    from copy_cells_ok [of 0 p "name s" 0 "replicate ?c2 None"] W p cell full obtain n1 where n1:
      "copy_cells (name s) (replicate ?c2 None) 0 p 0 = Inr n1" "length n1 = ?c2"
      "\<forall>y < ?c2. n1 ! y = (if y < p then name s ! y else replicate ?c2 None ! y)" by auto
    from copy_cells_ok [of p "?n - p" "name s" 1 n1] W p cell full n1(2) pos obtain n2 where n2:
      "copy_cells (name s) n1 p (?n - p) 1 = Inr n2" "length n2 = ?c2"
      "\<forall>y < ?c2. n2 ! y = (if p + 1 \<le> y \<and> y < p + 1 + (?n - p) then name s ! (y - 1) else n1 ! y)"
      by auto
    have "insert_name_before s nm h p =
        Inr (s\<lparr>name := n2[p := Some ?new], name_cap := ?c2, name_count := ?n + 1\<rparr>)"
      using True chk n1 n2 p full pos by (simp add: insert_name_before_def arr_set_ok)
    moreover have "(n2[p := Some ?new]) ! y = Some (if y < p then name_tbl s ! y
          else if y = p then ?new else name_tbl s ! (y - 1))" if "y \<le> ?n" for y
      using that n1(3) n2(2,3) cell p full pos by (auto simp: nth_list_update)
    ultimately show ?thesis
      using cap_ok_double [OF W(1) cap] n2(2) full pos
      by (intro exI [of _ "n2[p := Some ?new]"] exI [of _ ?c2]) auto
  next
    case False
    from shift_up_ok [of p "?n - p" "name s"] W p cell False obtain a where a:
      "shift_up (name s) p (?n - p) = Inr a" "length a = name_cap s"
      "\<forall>y < name_cap s. a ! y = (if p < y \<and> y \<le> p + (?n - p) then name s ! (y - 1) else name s ! y)"
      by auto
    have "insert_name_before s nm h p = Inr (s\<lparr>name := a[p := Some ?new], name_count := ?n + 1\<rparr>)"
      using False a p by (simp add: insert_name_before_def arr_set_ok)
    moreover have "(a[p := Some ?new]) ! y = Some (if y < p then name_tbl s ! y
          else if y = p then ?new else name_tbl s ! (y - 1))" if "y \<le> ?n" for y
      using that a(2,3) cell p False by (auto simp: nth_list_update)
    ultimately show ?thesis
      using W a(2) False
      by (intro exI [of _ "a[p := Some ?new]"] exI [of _ "name_cap s"]) auto
  qed
qed

subsection \<open>The table as a map\<close>

definition name_map :: "handle_storage \<Rightarrow> string \<Rightarrow> u32 option" where
  "name_map s = map_of (map (\<lambda>n. (hn_name n, hn_handle n)) (name_tbl s))"

lemma names_wf_distinct: "names_wf s \<Longrightarrow> distinct (map hn_name (name_tbl s))"
  by (simp add: names_wf_def strict_sorted_iff)

lemma name_map_at:
  assumes "names_wf s" "i < name_count s"
  shows "name_map s (hn_name (name_tbl s ! i)) = Some (hn_handle (name_tbl s ! i))"
  unfolding name_map_def
proof (rule map_of_is_SomeI)
  show "distinct (map fst (map (\<lambda>n. (hn_name n, hn_handle n)) (name_tbl s)))"
    using names_wf_distinct [OF assms(1)] by (simp add: comp_def)
  show "(hn_name (name_tbl s ! i), hn_handle (name_tbl s ! i))
      \<in> set (map (\<lambda>n. (hn_name n, hn_handle n)) (name_tbl s))"
    using assms by simp
qed

lemma name_map_None:
  "names_wf s \<Longrightarrow> name_map s nm = None \<longleftrightarrow> (\<forall>i < name_count s. hn_name (name_tbl s ! i) \<noteq> nm)"
  by (auto simp: name_map_def map_of_eq_None_iff image_image in_set_conv_nth image_iff Bex_def)

lemma findname_ok:
  assumes wf: "names_wf s"
  shows "skynet_handle_findname s nm = Inr (case name_map s nm of None \<Rightarrow> 0 | Some h \<Rightarrow> h)"
proof -
  from name_search_table [OF wf, of nm] obtain r where
    r: "name_search (name s) nm 0 (int (name_count s) - 1) = Inr r"
    "(case r of
       Found i \<Rightarrow> i < name_count s \<and> hn_name (name_tbl s ! i) = nm
     | NotFound p \<Rightarrow> p \<le> name_count s \<and> (\<forall>i < p. hn_name (name_tbl s ! i) < nm)
         \<and> (\<forall>i. p \<le> i \<longrightarrow> i < name_count s \<longrightarrow> nm < hn_name (name_tbl s ! i)))" by blast
  show ?thesis
  proof (cases r)
    case (Found i)
    with r(2) have i: "i < name_count s" "hn_name (name_tbl s ! i) = nm" by simp_all
    then have "i < length (name s)" using wf by (simp add: names_wf_def)
    with Found r(1) i name_map_at [OF wf i(1)] name_cell [OF wf i(1)] show ?thesis
      by (simp add: skynet_handle_findname_def arr_get_Some)
  next
    case (NotFound p)
    with r(2) have "\<forall>i < name_count s. hn_name (name_tbl s ! i) \<noteq> nm"
      by simp (metis less_irrefl not_le)
    with name_map_None [OF wf, of nm] have "name_map s nm = None" by simp
    with NotFound r(1) show ?thesis by (simp add: skynet_handle_findname_def)
  qed
qed

lemma namehandle_ok:
  assumes wf: "names_wf s" and room: "name_count s < 2 ^ 30"
  shows "\<exists>s'. skynet_handle_namehandle s h nm = Inr (s', if name_map s nm = None then Some nm else None)
    \<and> names_wf s' \<and> name_map s' = (if name_map s nm = None then (name_map s)(nm \<mapsto> h) else name_map s)
    \<and> slot s' = slot s \<and> slot_size s' = slot_size s \<and> handle_index s' = handle_index s
    \<and> harbor s' = harbor s \<and> name_count s' \<le> name_count s + 1"
proof -
  from name_search_table [OF wf, of nm] obtain r where
    r: "name_search (name s) nm 0 (int (name_count s) - 1) = Inr r"
    "(case r of
       Found i \<Rightarrow> i < name_count s \<and> hn_name (name_tbl s ! i) = nm
     | NotFound p \<Rightarrow> p \<le> name_count s \<and> (\<forall>i < p. hn_name (name_tbl s ! i) < nm)
         \<and> (\<forall>i. p \<le> i \<longrightarrow> i < name_count s \<longrightarrow> nm < hn_name (name_tbl s ! i)))" by blast
  show ?thesis
  proof (cases r)
    case (Found i)
    with r name_map_at [OF wf, of i] have "name_map s nm \<noteq> None" by auto
    with Found r(1) wf show ?thesis by (auto simp: skynet_handle_namehandle_def)
  next
    case (NotFound p)
    with r(2) have p: "p \<le> name_count s" "\<And>i. i < p \<Longrightarrow> hn_name (name_tbl s ! i) < nm"
      "\<And>i. p \<le> i \<Longrightarrow> i < name_count s \<Longrightarrow> nm < hn_name (name_tbl s ! i)" by simp_all
    then have fresh: "name_map s nm = None"
      unfolding name_map_None [OF wf] by (metis less_irrefl not_le)
    let ?n = "name_count s" and ?t = "name_tbl s" and ?new = "\<lparr>hn_name = nm, hn_handle = h\<rparr>"
    note lt = length_name_tbl [OF wf]
    from insert_name_before_ok [OF wf p(1) room, of nm h] obtain arr cap where
      ins: "insert_name_before s nm h p = Inr (s\<lparr>name := arr, name_cap := cap, name_count := ?n + 1\<rparr>)"
      and ac: "cap_ok cap" "length arr = cap" "?n < cap"
      and cells: "\<forall>y \<le> ?n. arr ! y = Some (if y < p then ?t ! y else if y = p then ?new else ?t ! (y - 1))"
      by blast
    let ?s = "s\<lparr>name := arr, name_cap := cap, name_count := ?n + 1\<rparr>"
    have tbl: "name_tbl ?s = take p ?t @ ?new # drop p ?t"
    proof (rule nth_equalityI)
      show "length (name_tbl ?s) = length (take p ?t @ ?new # drop p ?t)"
        using ac lt p(1) by (simp add: name_tbl_def)
      fix y assume "y < length (name_tbl ?s)"
      then have y: "y \<le> ?n" using ac by (simp add: name_tbl_def)
      then have "name_tbl ?s ! y = the (arr ! y)" using ac by (simp add: name_tbl_def)
      with y cells p(1) lt show "name_tbl ?s ! y = (take p ?t @ ?new # drop p ?t) ! y"
        by (auto simp: nth_append nth_Cons' min_def)
    qed
    have low: "x < nm" if "x \<in> hn_name ` set (take p ?t)" for x
      using that p(1,2) lt by (auto simp: in_set_conv_nth)
    have high: "nm < x" if "x \<in> hn_name ` set (drop p ?t)" for x
      using that p(1) p(3) [of "p + _"] lt by (auto simp: in_set_conv_nth)
    have "sorted_wrt (<) (map hn_name (take p ?t) @ map hn_name (drop p ?t))"
      using wf by (simp add: names_wf_def flip: map_append)
    then have "sorted_wrt (<) (map hn_name (name_tbl ?s))"
      unfolding tbl using low high by (auto simp: sorted_wrt_append intro: less_trans)
    then have wf': "names_wf ?s" using ac cells by (auto simp: names_wf_def less_Suc_eq_le)
    have split: "name_map s = map_of (map (\<lambda>n. (hn_name n, hn_handle n)) (take p ?t)
        @ map (\<lambda>n. (hn_name n, hn_handle n)) (drop p ?t))"
      by (simp add: name_map_def flip: map_append)
    have "map_of (map (\<lambda>n. (hn_name n, hn_handle n)) (take p ?t)) nm = None"
      using low by (fastforce simp: map_of_eq_None_iff)
    then have "name_map ?s = (name_map s)(nm \<mapsto> h)"
      unfolding name_map_def [of ?s] tbl split by (auto simp: map_add_def fun_eq_iff split: option.split)
    with NotFound r(1) ins fresh wf' show ?thesis
      by (simp add: skynet_handle_namehandle_def)
  qed
qed

subsection \<open>Retiring a handle\<close>

lemma compact_names_ok:
  fixes h :: u32
  assumes "j \<le> i" "i + length ns \<le> length arr"
    and "\<And>x. x < length ns \<Longrightarrow> arr ! (i + x) = Some (ns ! x)"
  defines "ks \<equiv> filter (\<lambda>n. hn_handle n \<noteq> h) ns"
  shows "\<exists>arr'. compact_names arr h i (length ns) j = Inr (arr', j + length ks)
    \<and> length arr' = length arr \<and> (\<forall>x < j. arr' ! x = arr ! x)
    \<and> (\<forall>x < length ks. arr' ! (j + x) = Some (ks ! x))"
  using assms(1-3) unfolding ks_def
proof (induction ns arbitrary: arr i j)
  case Nil
  then show ?case by simp
next
  case (Cons n ns)
  from Cons.prems(2) Cons.prems(3) [of 0] have get: "arr_get arr i = Inr n" by (simp add: arr_get_Some)
  have rest: "arr ! (Suc i + x) = Some (ns ! x)" if "x < length ns" for x
    using Cons.prems(3) [of "Suc x"] that by simp
  show ?case
  proof (cases "hn_handle n = h")
    case True
    with get Cons.IH [of j "Suc i" arr] Cons.prems(1,2) rest show ?thesis by simp
  next
    case False
    let ?a = "if i \<noteq> j then arr[j := Some n] else arr"
    have aj: "?a ! j = Some n" "length ?a = length arr" "\<And>x. x \<noteq> j \<Longrightarrow> ?a ! x = arr ! x"
      using Cons.prems(1,2) Cons.prems(3) [of 0] by auto
    have step: "compact_names arr h i (length (n # ns)) j = compact_names ?a h (Suc i) (length ns) (Suc j)"
      using False get Cons.prems(1,2) by (simp add: arr_set_ok)
    have rest': "?a ! (Suc i + x) = Some (ns ! x)" if "x < length ns" for x
      using rest [OF that] aj(3) [of "Suc i + x"] Cons.prems(1) by simp
    from Cons.IH [of "Suc j" "Suc i" ?a] rest' Cons.prems(1,2) aj(2) obtain arr' where a:
      "compact_names ?a h (Suc i) (length ns) (Suc j)
         = Inr (arr', Suc j + length (filter (\<lambda>n. hn_handle n \<noteq> h) ns))"
      "length arr' = length arr" "\<forall>x < Suc j. arr' ! x = ?a ! x"
      "\<forall>x < length (filter (\<lambda>n. hn_handle n \<noteq> h) ns).
         arr' ! (Suc j + x) = Some (filter (\<lambda>n. hn_handle n \<noteq> h) ns ! x)" by auto
    have "arr' ! (j + x) = Some (filter (\<lambda>n. hn_handle n \<noteq> h) (n # ns) ! x)"
      if "x < length (filter (\<lambda>n. hn_handle n \<noteq> h) (n # ns))" for x
      using a(3,4) aj(1) False that by (cases x) auto
    moreover have "\<forall>x < j. arr' ! x = arr ! x" using a(3) aj(3) by simp
    ultimately show ?thesis unfolding step using a(1,2) False by simp
  qed
qed

lemma map_of_filter_values:
  "distinct (map fst xs) \<Longrightarrow> map_of (filter (\<lambda>kv. snd kv \<noteq> h) xs)
    = (\<lambda>k. if map_of xs k = Some h then None else map_of xs k)"
proof (induction xs)
  case Nil
  then show ?case by simp
next
  case (Cons kv xs)
  then have "map_of xs (fst kv) = None" by (simp add: map_of_eq_None_iff)
  with Cons show ?case by (auto simp: fun_eq_iff)
qed

lemma handle_retire_ok:
  assumes wf: "handle_wf ch s" and nwf: "names_wf s"
  shows "\<exists>s' r. handle_retire ch s h = Inr (s', r) \<and> handle_wf ch s' \<and> names_wf s'
    \<and> (\<forall>c. r = Some c \<longleftrightarrow> c \<in> registered s \<and> ch c = h)
    \<and> registered s' = registered s - set_option r
    \<and> name_map s' = (if r = None then name_map s
         else (\<lambda>k. if name_map s k = Some h then None else name_map s k))
    \<and> (r = None \<longrightarrow> s' = s)"
proof -
  from handle_lookup_ok [OF wf, of h] obtain r where
    r: "handle_lookup ch s h = Inr r" "\<forall>c. r = Some c \<longleftrightarrow> c \<in> registered s \<and> ch c = h" by blast
  show ?thesis
  proof (cases r)
    case None
    with r wf nwf show ?thesis by (auto simp: handle_retire_def)
  next
    case (Some ctx)
    let ?t = "name_tbl s" and ?k = "filter (\<lambda>n. hn_handle n \<noteq> h) (name_tbl s)"
    note lt = length_name_tbl [OF nwf]
    from nwf have N: "name_count s \<le> length (name s)" "length (name s) = name_cap s" "cap_ok (name_cap s)"
      by (simp_all add: names_wf_def)
    from compact_names_ok [of 0 0 ?t "name s" h] N lt name_cell [OF nwf] obtain arr where a:
      "compact_names (name s) h 0 (name_count s) 0 = Inr (arr, length ?k)" "length arr = length (name s)"
      "\<forall>x < length ?k. arr ! x = Some (?k ! x)" by auto
    let ?s = "s\<lparr>slot := (slot s)[slot_hash s h := None], name := arr, name_count := length ?k\<rparr>"
    have ret: "handle_retire ch s h = Inr (?s, Some ctx)"
      using r(1) Some a(1) by (simp add: handle_retire_def)
    have hs: "slot_hash ?s d = slot_hash s d" for d by (simp add: slot_hash_def)
    have old: "slot s ! i = Some c"
      if "i < length (slot s)" "(slot s)[slot_hash s h := None] ! i = Some c" for i c
      using that by (cases "i = slot_hash s h") auto
    have "handle_wf ch ?s"
      using wf old unfolding handle_wf_def hs by simp
    have klen: "length ?k \<le> name_count s" using lt length_filter_le [of "\<lambda>n. hn_handle n \<noteq> h" ?t] by simp
    have tbl: "name_tbl ?s = ?k"
    proof (rule nth_equalityI)
      show "length (name_tbl ?s) = length ?k" using a(2) N klen by (simp add: name_tbl_def)
      fix y assume "y < length (name_tbl ?s)"
      then have "y < length ?k" using a(2) N klen by (simp add: name_tbl_def)
      with a(3) a(2) N klen show "name_tbl ?s ! y = ?k ! y" by (simp add: name_tbl_def [of ?s])
    qed
    have "sorted_wrt (<) (map hn_name ?t)" using nwf by (simp add: names_wf_def)
    then have "sorted_wrt (<) (map hn_name ?k)"
      by (induction ?t) (simp_all add: sorted_wrt_map sorted_wrt_filter)
    then have nwf': "names_wf ?s" using N a klen by (simp add: names_wf_def tbl)
    have split: "map (\<lambda>n. (hn_name n, hn_handle n)) ?k
        = filter (\<lambda>kv. snd kv \<noteq> h) (map (\<lambda>n. (hn_name n, hn_handle n)) ?t)"
      by (simp add: filter_map comp_def)
    have "distinct (map fst (map (\<lambda>n. (hn_name n, hn_handle n)) ?t))"
      using names_wf_distinct [OF nwf] by (simp add: comp_def)
    from map_of_filter_values [OF this, of h]
    have nm: "name_map ?s = (\<lambda>k. if name_map s k = Some h then None else name_map s k)"
      unfolding name_map_def tbl split .
    have lth: "slot_hash s d < length (slot s)" for d by (rule slot_hash_lt [OF wf])
    have "slot s ! slot_hash s h = Some ctx" using r(1) Some lth [of h]
      by (auto simp: handle_lookup_def slot_at_def split: option.splits if_splits)
    moreover have "ch ctx = h" using r(2) Some by blast
    ultimately have "registered ?s = registered s - {ctx}"
      using lth registered_iff [OF \<open>handle_wf ch ?s\<close>, unfolded hs] registered_iff [OF wf]
      by (auto simp: nth_list_update split: if_splits)
    with ret \<open>handle_wf ch ?s\<close> nwf' nm r(2) Some show ?thesis by auto
  qed
qed

end
