(* ===== verification/Sky_Handle_Spec.thy ===== *)
theory Sky_Handle_Spec
  imports Sky_Handle
begin

text \<open>
  What \<^verbatim>\<open>skynet_handle.c\<close> promises its callers. The name service is an interface: a table
  of names that can be searched and extended, whose laws are the locale \<open>name_service\<close> and
  whose provider is the sorted array. The properties of the handle table follow, and the
  window between \<open>skynet_handle_register\<close> and the assignment of \<open>ctx->handle\<close> in which a
  concurrent registration can lose a context.
\<close>

section \<open>The name service\<close>

locale name_service =
  fixes find_name :: "'s \<Rightarrow> string \<Rightarrow> u32 res"
    and bind_name :: "'s \<Rightarrow> u32 \<Rightarrow> string \<Rightarrow> ('s \<times> string option) res"
    and names :: "'s \<Rightarrow> string \<Rightarrow> u32 option"
    and inv :: "'s \<Rightarrow> bool"
    and room :: "'s \<Rightarrow> bool"
  assumes find_law: "inv s \<Longrightarrow> find_name s n = Inr (case names s n of None \<Rightarrow> 0 | Some h \<Rightarrow> h)"
    and bind_law: "inv s \<Longrightarrow> room s \<Longrightarrow>
      \<exists>s'. bind_name s h n = Inr (s', if names s n = None then Some n else None) \<and> inv s'
        \<and> names s' = (if names s n = None then (names s)(n \<mapsto> h) else names s)"
begin

lemma bind_then_find:
  assumes "inv s" "room s"
  shows "\<exists>s'. bind_name s h n = Inr (s', if names s n = None then Some n else None) \<and> inv s'
    \<and> find_name s' n = Inr (case names s n of None \<Rightarrow> h | Some h' \<Rightarrow> h')
    \<and> (\<forall>m. m \<noteq> n \<longrightarrow> find_name s' m = find_name s m)"
proof -
  from bind_law [OF assms, of h n] obtain s' where
    "bind_name s h n = Inr (s', if names s n = None then Some n else None)" "inv s'"
    "names s' = (if names s n = None then (names s)(n \<mapsto> h) else names s)" by blast
  with find_law [of s'] find_law [OF assms(1)] show ?thesis by (auto split: option.split)
qed

end

interpretation handle_names: name_service skynet_handle_findname skynet_handle_namehandle name_map
  names_wf "\<lambda>s. name_count s < 2 ^ 30"
proof
  fix s n assume "names_wf s"
  then show "skynet_handle_findname s n = Inr (case name_map s n of None \<Rightarrow> 0 | Some h \<Rightarrow> h)"
    by (rule findname_ok)
next
  fix s h n assume "names_wf s" "name_count s < 2 ^ 30"
  from namehandle_ok [OF this, of h n]
  show "\<exists>s'. skynet_handle_namehandle s h n = Inr (s', if name_map s n = None then Some n else None)
      \<and> names_wf s' \<and> name_map s' = (if name_map s n = None then (name_map s)(n \<mapsto> h) else name_map s)"
    by blast
qed

section \<open>The initial state\<close>

lemma cap_ok_2 [simp]: "cap_ok 2"
  using cap_ok_2_pow [of 1] by simp

lemma HANDLE_MASK_mask: "HANDLE_MASK = mask 24"
  by (simp add: HANDLE_MASK_def mask_eq_exp_minus_1)

lemma harbor_bits: "push_bit 24 w AND HANDLE_MASK = 0" for w :: u32
  unfolding HANDLE_MASK_mask by (rule bit_word_eqI) (auto simp: bit_simps)

lemma handle_init_wf: "handle_wf ch (skynet_handle_init hb)"
proof -
  have "(4::nat) = 2 ^ 2" by simp
  then have "(4::nat) \<in> (\<lambda>k. 2 ^ k) ` {2..24}" by (rule image_eqI) simp
  then show ?thesis
    using harbor_bits [of "word_of_int hb AND 0xff"]
    by (simp add: handle_wf_def skynet_handle_init_def DEFAULT_SLOT_SIZE_def HANDLE_REMOTE_SHIFT_def)
qed

lemma handle_init_names_wf: "names_wf (skynet_handle_init hb)"
  by (simp add: names_wf_def skynet_handle_init_def name_tbl_def)

lemma handle_init_registered [simp]: "registered (skynet_handle_init hb) = {}"
  by (simp add: registered_def skynet_handle_init_def)

lemma handle_init_name_map [simp]: "name_map (skynet_handle_init hb) = Map.empty"
  by (simp add: name_map_def name_tbl_def skynet_handle_init_def)

section \<open>Properties\<close>

text \<open>
  C5. Registering a context. As long as fewer than \<open>2 ^ 24 - 1\<close> services are registered,
  \<open>skynet_handle_register\<close> returns (the retry loop ends, no assertion fails, no rehashed context
  collides) with a handle whose low 24 bits are not zero, whose high 8 bits are those of this
  harbor, and that no registered service has; once the handle is stored in the context, the
  handle finds this context and every other handle finds what it found before.
\<close>

theorem handle_register_correct:
  assumes "handle_wf ch s" "ctx \<notin> registered s" "card (registered s) < 2 ^ 24 - 1"
  shows "\<exists>s' h. skynet_handle_register ch s ctx = Inr (s', h)
    \<and> handle_wf (ch(ctx := h)) s' \<and> registered s' = insert ctx (registered s)
    \<and> h AND HANDLE_MASK \<noteq> 0 \<and> h AND NOT HANDLE_MASK = harbor s \<and> (\<forall>c \<in> registered s. ch c \<noteq> h)
    \<and> handle_lookup (ch(ctx := h)) s' h = Inr (Some ctx)
    \<and> (\<forall>d. d \<noteq> h \<longrightarrow> handle_lookup (ch(ctx := h)) s' d = handle_lookup ch s d)"
proof -
  from register_ok [OF assms] obtain s' h where r: "skynet_handle_register ch s ctx = Inr (s', h)"
    and wf': "handle_wf (ch(ctx := h)) s'" and reg: "registered s' = insert ctx (registered s)"
    and h: "h AND HANDLE_MASK \<noteq> 0" "h AND NOT HANDLE_MASK = harbor s" "\<forall>c \<in> registered s. ch c \<noteq> h"
    by blast
  have "handle_lookup (ch(ctx := h)) s' h = Inr (Some ctx)"
    using handle_lookup_ok [OF wf', of h] reg by auto
  moreover have "handle_lookup (ch(ctx := h)) s' d = handle_lookup ch s d" if "d \<noteq> h" for d
  proof -
    from handle_lookup_ok [OF wf', of d] obtain r1 where
      r1: "handle_lookup (ch(ctx := h)) s' d = Inr r1"
      "\<forall>c. r1 = Some c \<longleftrightarrow> c \<in> registered s' \<and> (ch(ctx := h)) c = d" by blast
    from handle_lookup_ok [OF assms(1), of d] obtain r2 where
      r2: "handle_lookup ch s d = Inr r2" "\<forall>c. r2 = Some c \<longleftrightarrow> c \<in> registered s \<and> ch c = d" by blast
    have "r1 = Some c \<longleftrightarrow> r2 = Some c" for c using r1(2) r2(2) reg assms(2) that by auto
    then have "r1 = r2" by (metis not_Some_eq)
    with r1 r2 show ?thesis by simp
  qed
  ultimately show ?thesis using r wf' reg h by blast
qed

theorem handle_register_correct_witness:
  "\<exists>s' h. skynet_handle_register (\<lambda>_. 0) (skynet_handle_init 1) 7 = Inr (s', h)
    \<and> handle_lookup ((\<lambda>_. 0)(7 := h)) s' h = Inr (Some 7)"
  using handle_register_correct [OF handle_init_wf, of 7 1 "\<lambda>_. 0"] by auto

text \<open>
  C6. Retiring a handle. \<open>skynet_handle_retire\<close> takes out exactly the context that carries the
  handle, if there is one, together with all its names; afterwards the handle finds nothing,
  every other handle and the names of every other service are as before, and a handle nobody
  carries changes nothing.
\<close>

theorem handle_retire_correct:
  assumes "handle_wf ch s" "names_wf s"
  shows "\<exists>s' r. handle_retire ch s h = Inr (s', r) \<and> handle_wf ch s' \<and> names_wf s'
    \<and> handle_lookup ch s h = Inr r \<and> handle_lookup ch s' h = Inr None
    \<and> (\<forall>d. d \<noteq> h \<longrightarrow> handle_lookup ch s' d = handle_lookup ch s d)
    \<and> (\<forall>n. name_map s' n =
          (if r \<noteq> None \<and> name_map s n = Some h then None else name_map s n))
    \<and> (r = None \<longrightarrow> s' = s)"
proof -
  from handle_retire_ok [OF assms, of h] obtain s' r where r: "handle_retire ch s h = Inr (s', r)"
    "handle_wf ch s'" "names_wf s'" "\<forall>c. r = Some c \<longleftrightarrow> c \<in> registered s \<and> ch c = h"
    "registered s' = registered s - set_option r"
    "name_map s' = (if r = None then name_map s
         else (\<lambda>k. if name_map s k = Some h then None else name_map s k))"
    "r = None \<longrightarrow> s' = s" by blast
  have look: "handle_lookup ch s d = Inr x \<longleftrightarrow> (\<forall>c. x = Some c \<longleftrightarrow> c \<in> registered s \<and> ch c = d)" for x d
    using handle_lookup_ok [OF assms(1), of d] by (metis not_Some_eq sum.inject(2))
  have look': "handle_lookup ch s' d = Inr x \<longleftrightarrow> (\<forall>c. x = Some c \<longleftrightarrow> c \<in> registered s' \<and> ch c = d)" for x d
    using handle_lookup_ok [OF r(2), of d] by (metis not_Some_eq sum.inject(2))
  have "handle_lookup ch s h = Inr r" using r(4) look by blast
  moreover have "handle_lookup ch s' h = Inr None"
    unfolding look' using r(4,5) by auto
  moreover have "handle_lookup ch s' d = handle_lookup ch s d" if "d \<noteq> h" for d
  proof -
    obtain x where x: "handle_lookup ch s d = Inr x" using handle_lookup_ok [OF assms(1)] by blast
    have "\<forall>c. x = Some c \<longleftrightarrow> c \<in> registered s' \<and> ch c = d"
      using x [unfolded look] r(4,5) that by (auto simp: elem_set)
    with x look' show ?thesis by simp
  qed
  ultimately show ?thesis using r by auto
qed

theorem handle_retire_correct_witness:
  "\<exists>s'. handle_retire (\<lambda>_. 0) (skynet_handle_init 1) 5 = Inr (s', None)
    \<and> handle_lookup (\<lambda>_. 0) s' 5 = Inr None"
  using handle_retire_correct [OF handle_init_wf handle_init_names_wf, of "\<lambda>_. 0" 1 5]
    handle_lookup_ok [OF handle_init_wf, of "\<lambda>_. 0" 1 5] by auto

text \<open>
  Looking up a service name. The binary search over the name array ends, never reads
  outside the array or an unwritten entry, and returns the handle the name was given, 0 when
  the name is unknown.
\<close>

theorem findname_correct:
  assumes "names_wf s"
  shows "skynet_handle_findname s n = Inr (case name_map s n of None \<Rightarrow> 0 | Some h \<Rightarrow> h)"
  using handle_names.find_law [OF assms] .

theorem findname_correct_witness: "skynet_handle_findname (skynet_handle_init 1) ''logger'' = Inr 0"
  using findname_correct [OF handle_init_names_wf, of 1 "''logger''"] by simp

text \<open>
  Naming a service. With room in the table \<open>skynet_handle_namehandle\<close> keeps the names sorted
  and without duplicates; a new name is returned and from then on finds the handle; a name that
  is taken is refused with a null pointer and keeps its handle; no other name changes.
\<close>

theorem namehandle_correct:
  assumes "names_wf s" "name_count s < 2 ^ 30"
  shows "\<exists>s'. skynet_handle_namehandle s h n = Inr (s', if name_map s n = None then Some n else None)
    \<and> names_wf s'
    \<and> skynet_handle_findname s' n = Inr (case name_map s n of None \<Rightarrow> h | Some h' \<Rightarrow> h')
    \<and> (\<forall>m. m \<noteq> n \<longrightarrow> skynet_handle_findname s' m = skynet_handle_findname s m)"
  using handle_names.bind_then_find [OF assms] .

theorem namehandle_correct_witness:
  "\<exists>s'. skynet_handle_namehandle (skynet_handle_init 1) 9 ''logger'' = Inr (s', Some ''logger'')
    \<and> skynet_handle_findname s' ''logger'' = Inr 9"
  using namehandle_correct [OF handle_init_names_wf, of 1 9 "''logger''"]
  by (auto simp: skynet_handle_init_def [THEN arg_cong [of _ _ name_count]])

section \<open>The window between registration and the assignment of the handle\<close>

text \<open>A full table but for slot 0: the services 1, 2 and 3 carry the handles 1, 2 and 3.\<close>

definition race_ch :: "cptr \<Rightarrow> u32" where
  "race_ch = (\<lambda>c. 0)(1 := 1, 2 := 2, 3 := 3)"

definition race_tbl :: "nat \<Rightarrow> cptr option list \<Rightarrow> u32 \<Rightarrow> handle_storage" where
  "race_tbl n sl i = \<lparr>harbor = 0, handle_index = i, slot_size = n, slot = sl, name_cap = 2, name_count = 0, name = [None, None]\<rparr>"

lemma register_scan_numeral:
  "register_scan s (numeral n) handle =
     (let handle = (if handle > HANDLE_MASK then 1 else handle) in
      cbind (slot_at (slot s) (slot_hash s handle)) (\<lambda>c.
      if c = None then Inr (Some handle) else register_scan s (pred_numeral n) (handle + 1)))"
  by (simp only: numeral_eq_Suc register_scan.simps)

lemma race_first: "skynet_handle_register race_ch (race_tbl 4 [None, Some 1, Some 2, Some 3] 4) 4 = Inr (race_tbl 4 [Some 4, Some 1, Some 2, Some 3] 5, 4)"
  by (subst skynet_handle_register.simps) (simp add: race_tbl_def register_scan_numeral slot_at_def slot_hash_def HANDLE_MASK_def cres_simps)

lemma race_scan_full: "register_scan (race_tbl 4 [Some 4, Some 1, Some 2, Some 3] 5) 4 5 = Inr None"
  by (simp add: race_tbl_def register_scan_numeral slot_at_def slot_hash_def HANDLE_MASK_def cres_simps)

lemma race_rehash: "rehash race_ch 8 [Some 4, Some 1, Some 2, Some 3] (replicate 8 None) = Inr [Some 4, Some 1, Some 2, Some 3, None, None, None, None]"
proof -
  have r: "replicate 8 None = [None, None, None, None, None, None, None, None]"
    by (simp add: numeral_eq_Suc)
  show ?thesis
    unfolding r by (simp add: slot_at_def race_ch_def c_assert_def cres_simps)
qed

lemma race_double: "skynet_handle_register race_ch (race_tbl 4 [Some 4, Some 1, Some 2, Some 3] 5) 5 = 
  skynet_handle_register race_ch (race_tbl 8 [Some 4, Some 1, Some 2, Some 3, None, None, None, None] 5) 5"
  using race_scan_full race_rehash by (subst skynet_handle_register.simps) (simp add: race_tbl_def)

lemma race_second: "skynet_handle_register race_ch (race_tbl 8 [Some 4, Some 1, Some 2, Some 3, None, None, None, None] 5) 5 = Inr 
   (race_tbl 8 [Some 4, Some 1, Some 2, Some 3, None, Some 5, None, None] 6, 5)"
  by (subst skynet_handle_register.simps) (simp add: race_tbl_def register_scan_numeral slot_at_def slot_hash_def HANDLE_MASK_def cres_simps)

lemma race_lookup: "handle_lookup (race_ch(4 := 4, 5 := 5)) (race_tbl 8 [Some 4, Some 1, Some 2, Some 3, None, Some 5, None, None] 6) 4 = Inr None"
 by (simp add: handle_lookup_def race_tbl_def slot_at_def slot_hash_def  cres_simps)

lemma race_wf: "handle_wf race_ch (race_tbl 4 [None, Some 1, Some 2, Some 3] 4)"
proof -
  have p: "(4::nat) \<in> (\<lambda>k. 2 ^ k) ` {2..24}" by (rule image_eqI [of _ _ 2]) simp_all
  have s: "i = c \<and> (c = 1 \<or> c = 2 \<or> c = 3)" if "i < 4" "[None, Some 1, Some 2, Some 3] ! i = Some c" for i c :: nat
    using that by (auto simp: nth_Cons' split: if_splits)
  have h: "slot_hash (race_tbl 4 sl 4) (race_ch c) = c \<and> race_ch c AND HANDLE_MASK \<noteq> 0 \<and> race_ch c AND NOT HANDLE_MASK = 0"
    if "c = 1 \<or> c = 2 \<or> c = 3" for c sl
    using that by (elim disjE) (simp_all add: slot_hash_def race_tbl_def race_ch_def HANDLE_MASK_def)
  have f: "slot_size (race_tbl n sl i) = n" "slot (race_tbl n sl i) = sl" "handle_index (race_tbl n sl i) = i"
    "harbor (race_tbl n sl i) = 0" for n sl i by (simp_all add: race_tbl_def)
  have a: "slot_hash (race_tbl 4 sl 4) (race_ch c) = i \<and> race_ch c AND HANDLE_MASK \<noteq> 0 \<and> race_ch c AND NOT HANDLE_MASK = 0"
    if "i < length [None, Some 1, Some 2, Some (3::nat)]" "[None, Some 1, Some 2, Some 3] ! i = Some c" for i c sl
  proof -
    have "i < 4" using that(1) by simp
    with s [OF this that(2)] h [of c sl] show ?thesis by metis
  qed
  have l: "length [None, Some 1, Some 2, Some (3::nat)] = 4" "1 \<le> unat (4::u32)" "unat (4::u32) \<le> 2 ^ 24" "(0::u32) AND HANDLE_MASK = 0"
    by simp_all
  show ?thesis
    unfolding handle_wf_def f using p l a by blast
qed

text \<open>
  The window in \<open>skynet_context_new\<close>. Between the return of \<open>skynet_handle_register\<close> and the
  assignment to \<open>ctx->handle\<close> the context is in the table with handle 0. If another thread registers
  a context in this window and the table doubles, the first one is moved to slot 0 and, even after
  both handles are assigned, the handle it was given finds nothing, although the context still
  occupies a slot.
\<close>

theorem register_window_loses_handle:
  "\<exists>ch s s1 s2 h1 h2. handle_wf ch s \<and> ch 4 = 0 \<and> ch 5 = 0
     \<and> skynet_handle_register ch s 4 = Inr (s1, h1)
     \<and> skynet_handle_register ch s1 5 = Inr (s2, h2)
     \<and> 4 \<in> registered s2 \<and> handle_lookup (ch(4 := h1, 5 := h2)) s2 h1 = Inr None"
proof -
  have "4 \<in> registered (race_tbl 8 [Some 4, Some 1, Some 2, Some 3, None, Some 5, None, None] 6)"
    by (simp add: registered_def race_tbl_def)
  moreover have "race_ch 4 = 0" "race_ch 5 = 0" by (simp_all add: race_ch_def)
  ultimately show ?thesis using race_wf race_first race_second [folded race_double] race_lookup by blast
qed

end
