(* ===== verification/Sky_Timer.thy ===== *)
theory Sky_Timer
  imports Sky_MQ
begin

text \<open>
  Model of \<^verbatim>\<open>skynet-src/skynet_timer.c\<close>: the hierarchical timing wheel. 256 lists hold the
  timers of the current block of 256 ticks, four levels of 64 lists the later ones; the tick
  counter and the expiry times are 32-bit words and wrap around.

  A \<open>link_list\<close> (a singly linked list with a tail pointer to append in constant time) is the list
  of its nodes; \<open>link\<close> appends, \<open>link_clear\<close> takes the list away. The sections under \<open>SPIN_LOCK\<close>
  are one step each. \<open>timer_execute\<close> drops the lock while it dispatches a list: the calls of
  \<open>timer_add\<close> that other threads make meanwhile are the parameter \<open>env\<close>, one list of calls for
  each such window. A dispatch is the pair of a handle and a message that
  \<open>skynet_context_push\<close> is called with.
\<close>

section \<open>Data\<close>

definition TIME_NEAR_SHIFT :: nat where "TIME_NEAR_SHIFT = 8"
definition TIME_NEAR :: nat where "TIME_NEAR = 2 ^ TIME_NEAR_SHIFT"
definition TIME_LEVEL_SHIFT :: nat where "TIME_LEVEL_SHIFT = 6"
definition TIME_LEVEL :: nat where "TIME_LEVEL = 2 ^ TIME_LEVEL_SHIFT"
definition TIME_NEAR_MASK :: u32 where "TIME_NEAR_MASK = of_nat TIME_NEAR - 1"
definition TIME_LEVEL_MASK :: u32 where "TIME_LEVEL_MASK = of_nat TIME_LEVEL - 1"

record timer_event =
  te_handle :: u32
  te_session :: int

record timer_node =
  expire :: u32
  event :: timer_event

record timer =
  tm_near :: "timer_node list list"
  tm_t :: "timer_node list list list"
  tm_time :: u32
  tm_starttime :: u32
  tm_current :: u64
  tm_current_point :: u64

section \<open>The wheel\<close>

definition link_near :: "timer \<Rightarrow> nat \<Rightarrow> timer_node \<Rightarrow> timer res" where
  "link_near T i node =
     (if i < length (tm_near T)
      then Inr (T\<lparr>tm_near := (tm_near T)[i := tm_near T ! i @ [node]]\<rparr>)
      else Inl OutOfBounds)"

definition link_level :: "timer \<Rightarrow> nat \<Rightarrow> nat \<Rightarrow> timer_node \<Rightarrow> timer res" where
  "link_level T i idx node =
     (if i < length (tm_t T) \<and> idx < length (tm_t T ! i)
      then Inr (T\<lparr>tm_t := (tm_t T)[i := (tm_t T ! i)[idx := tm_t T ! i ! idx @ [node]]]\<rparr>)
      else Inl OutOfBounds)"

text \<open>The loop that finds the level of an expiry time: \<open>mask\<close> is \<open>2 ^ (14 + 6 * i)\<close>.\<close>

function add_level :: "u32 \<Rightarrow> u32 \<Rightarrow> u32 \<Rightarrow> nat \<Rightarrow> nat" where
  "add_level time current_time msk i =
     (if i < 3 then
        if time OR (msk - 1) = current_time OR (msk - 1) then i
        else add_level time current_time (push_bit TIME_LEVEL_SHIFT msk) (Suc i)
      else i)"
  by pat_completeness auto
termination
  by (relation "measure (\<lambda>(t, c, m, i). 3 - i)") auto

declare add_level.simps [simp del]

definition add_node :: "timer \<Rightarrow> timer_node \<Rightarrow> timer res" where
  "add_node T node =
     (let time = expire node; current_time = tm_time T in
      if time OR TIME_NEAR_MASK = current_time OR TIME_NEAR_MASK then
        link_near T (unat (time AND TIME_NEAR_MASK)) node
      else
        let i = add_level time current_time (push_bit TIME_LEVEL_SHIFT (of_nat TIME_NEAR)) 0 in
        link_level T i (unat (drop_bit (TIME_NEAR_SHIFT + i * TIME_LEVEL_SHIFT) time AND TIME_LEVEL_MASK))
          node)"

definition timer_add :: "timer \<Rightarrow> timer_event \<Rightarrow> int \<Rightarrow> timer res" where
  "timer_add T arg time = add_node T \<lparr>expire = of_int time + tm_time T, event = arg\<rparr>"

definition move_list :: "timer \<Rightarrow> nat \<Rightarrow> nat \<Rightarrow> timer res" where
  "move_list T level idx =
     (if level < length (tm_t T) \<and> idx < length (tm_t T ! level) then
        fold_res (\<lambda>current T. add_node T current) (tm_t T ! level ! idx)
          (T\<lparr>tm_t := (tm_t T)[level := (tm_t T ! level)[idx := []]]\<rparr>)
      else Inl OutOfBounds)"

text \<open>The loop of \<open>timer_shift\<close>; \<open>mask\<close> is a signed \<open>int\<close> there.\<close>

function shift_loop :: "timer \<Rightarrow> u32 \<Rightarrow> u32 \<Rightarrow> nat \<Rightarrow> nat \<Rightarrow> timer res" where
  "shift_loop T ct time msk i =
     (if ct AND (of_nat msk - 1) = 0 then
        let idx = unat (time AND TIME_LEVEL_MASK) in
        if idx \<noteq> 0 then move_list T i idx
        else if msk = 0 then Inl Diverges
        else if msk * 2 ^ TIME_LEVEL_SHIFT > INT_MAX then Inl IntOverflow
        else shift_loop T ct (drop_bit TIME_LEVEL_SHIFT time) (msk * 2 ^ TIME_LEVEL_SHIFT) (Suc i)
      else Inr T)"
  by pat_completeness auto
termination
  by (relation "measure (\<lambda>(T, ct, time, msk, i). INT_MAX - msk)")
     (auto simp: TIME_LEVEL_SHIFT_def)

declare shift_loop.simps [simp del]

definition timer_shift :: "timer \<Rightarrow> timer res" where
  "timer_shift T =
     (let ct = tm_time T + 1; T = T\<lparr>tm_time := ct\<rparr> in
      if ct = 0 then move_list T 3 0
      else shift_loop T ct (drop_bit TIME_NEAR_SHIFT ct) TIME_NEAR 0)"

section \<open>Dispatch\<close>

type_synonym push = "u32 \<times> skynet_message"

definition timeout_message :: "int \<Rightarrow> skynet_message" where
  "timeout_message s =
     \<lparr>source = 0, session = s, msg_data = 0,
      sz = push_bit MESSAGE_TYPE_SHIFT (of_nat PTYPE_RESPONSE)\<rparr>"

definition dispatch_list :: "timer_node list \<Rightarrow> push list" where
  "dispatch_list nodes =
     map (\<lambda>n. (te_handle (event n), timeout_message (te_session (event n)))) nodes"

type_synonym env = "(timer_event \<times> int) list list"

definition env_adds :: "(timer_event \<times> int) list \<Rightarrow> timer \<Rightarrow> timer res" where
  "env_adds = fold_res (\<lambda>(ev, d) T. timer_add T ev d)"

partial_function (option) timer_execute :: "env \<Rightarrow> timer \<Rightarrow> (timer \<times> push list \<times> env) res option" where
  "timer_execute env T =
     (let idx = unat (tm_time T AND TIME_NEAR_MASK) in
      if \<not> idx < length (tm_near T) then Some (Inl OutOfBounds)
      else if tm_near T ! idx = [] then Some (Inr (T, [], env))
      else
        let current = tm_near T ! idx;
            T = T\<lparr>tm_near := (tm_near T)[idx := []]\<rparr> in
        (case env_adds (case env of [] \<Rightarrow> [] | adds # _ \<Rightarrow> adds) T of
           Inl e \<Rightarrow> Some (Inl e)
         | Inr T \<Rightarrow>
             Option.bind (timer_execute (tl env) T) (\<lambda>r.
               Some (cbind r (\<lambda>(T, out, env). Inr (T, dispatch_list current @ out, env))))))"

definition timer_update :: "env \<Rightarrow> timer \<Rightarrow> (timer \<times> push list \<times> env) res option" where
  "timer_update env T =
     Option.bind (timer_execute env T) (\<lambda>r.
     case r of
       Inl e \<Rightarrow> Some (Inl e)
     | Inr (T, out1, env) \<Rightarrow>
        (case timer_shift T of
           Inl e \<Rightarrow> Some (Inl e)
         | Inr T \<Rightarrow>
             Option.bind (timer_execute env T) (\<lambda>r.
             Some (cbind r (\<lambda>(T, out2, env). Inr (T, out1 @ out2, env))))))"

section \<open>The interface\<close>

definition timer_create_timer :: timer where
  "timer_create_timer =
     \<lparr>tm_near = replicate TIME_NEAR [], tm_t = replicate 4 (replicate TIME_LEVEL []),
      tm_time = 0, tm_starttime = 0, tm_current = 0, tm_current_point = 0\<rparr>"

text \<open>
  \<open>push_ok\<close> says whether \<open>skynet_context_push\<close> finds the handle. The result is the timer, the
  messages pushed at once and the return value.
\<close>

definition skynet_timeout ::
  "(u32 \<Rightarrow> bool) \<Rightarrow> timer \<Rightarrow> u32 \<Rightarrow> int \<Rightarrow> int \<Rightarrow> (timer \<times> push list \<times> int) res" where
  "skynet_timeout push_ok T handle time sess =
     (if time \<le> 0 then
        if push_ok handle then Inr (T, [(handle, timeout_message sess)], sess)
        else Inr (T, [], -1)
      else
        cbind (timer_add T \<lparr>te_handle = handle, te_session = sess\<rparr> time)
          (\<lambda>T. Inr (T, [], sess)))"

text \<open>The clocks: \<open>(tv_sec, tv_nsec)\<close> of the \<open>timespec\<close> the system call fills in.\<close>

definition systime :: "int \<times> int \<Rightarrow> u32 \<times> u32" where
  "systime ti = (of_int (fst ti), of_int (snd ti div 10000000))"

definition gettime :: "int \<times> int \<Rightarrow> u64" where
  "gettime ti = of_int (fst ti) * 100 + of_int (snd ti div 10000000)"

definition skynet_timer_init :: "int \<times> int \<Rightarrow> int \<times> int \<Rightarrow> timer" where
  "skynet_timer_init realtime monotonic =
     (let (sec, cs) = systime realtime in
      timer_create_timer\<lparr>tm_starttime := sec, tm_current := ucast cs,
        tm_current_point := gettime monotonic\<rparr>)"

definition skynet_starttime :: "timer \<Rightarrow> u32" where
  "skynet_starttime = tm_starttime"

definition skynet_now :: "timer \<Rightarrow> u64" where
  "skynet_now = tm_current"

definition skynet_thread_time :: "int \<times> int \<Rightarrow> u64" where
  "skynet_thread_time ti = of_int (fst ti) * 1000000 + of_int (snd ti) div (1000000000 div 1000000)"

fun update_loop :: "nat \<Rightarrow> env \<Rightarrow> timer \<Rightarrow> (timer \<times> push list \<times> env) res option" where
  "update_loop 0 env T = Some (Inr (T, [], env))"
| "update_loop (Suc n) env T =
     Option.bind (timer_update env T) (\<lambda>r.
     case r of
       Inl e \<Rightarrow> Some (Inl e)
     | Inr (T, out, env) \<Rightarrow>
         Option.bind (update_loop n env T) (\<lambda>r.
         Some (cbind r (\<lambda>(T, out', env). Inr (T, out @ out', env)))))"

text \<open>The counter of the loop is an \<open>int\<close>: it overflows when there are \<open>2 ^ 31\<close> ticks or more to catch up.\<close>

definition skynet_updatetime :: "int \<times> int \<Rightarrow> env \<Rightarrow> timer \<Rightarrow> (timer \<times> push list \<times> env) res option" where
  "skynet_updatetime clock env T =
     (let cp = gettime clock in
      if cp < tm_current_point T then Some (Inr (T\<lparr>tm_current_point := cp\<rparr>, [], env))
      else if cp \<noteq> tm_current_point T then
        let diff = ucast (cp - tm_current_point T) :: u32;
            T = T\<lparr>tm_current_point := cp, tm_current := tm_current T + ucast diff\<rparr> in
        if unat diff > INT_MAX then Some (Inl IntOverflow)
        else update_loop (unat diff) env T
      else Some (Inr (T, [], env)))"

end
