(* ===== verification/Sky_Wheel.thy ===== *)
theory Sky_Wheel
  imports Sky_Timer
begin

text \<open>
  Correctness of the timing wheel of \<^verbatim>\<open>Sky_Timer\<close>. Its invariant: every waiting timer is in the
  list where \<open>add_node\<close> would put it now (\<open>place\<close>), and expires within the next \<open>2 ^ 31 - 1\<close> ticks,
  counted with wrap-around (\<open>later\<close>). The specification is a plain list of pairs of remaining ticks
  and events; the wheel refines it, order of dispatch included.
\<close>

section \<open>Blocks\<close>

definition blk :: "nat \<Rightarrow> u32 \<Rightarrow> nat" where
  "blk j x = unat x div 2 ^ (8 + 6 * j)"

lemma unat_drop: "unat (drop_bit k (x :: u32)) = unat x div 2 ^ k"
  using unsigned_less [of x, where 'a = nat]
  by (subst unsigned_drop_bit_eq) (simp add: drop_bit_eq_div take_bit_nat_eq_self)

lemma or_mask_eq_iff: "(a :: u32) OR mask k = b OR mask k \<longleftrightarrow> unat a div 2 ^ k = unat b div 2 ^ k"
proof -
  have "a OR mask k = b OR mask k \<longleftrightarrow> drop_bit k a = drop_bit k b"
  proof
    assume a: "a OR mask k = b OR mask k"
    show "drop_bit k a = drop_bit k b"
    proof (rule bit_word_eqI)
      fix n
      have "bit (a OR mask k) (k + n) = bit (b OR mask k) (k + n)" using a by simp
      then show "bit (drop_bit k a) n = bit (drop_bit k b) n"
        by (simp add: bit_simps)
    qed
  next
    assume a: "drop_bit k a = drop_bit k b"
    show "a OR mask k = b OR mask k"
    proof (rule bit_word_eqI)
      fix n assume "n < LENGTH(32)"
      have "bit (drop_bit k a) (n - k) = bit (drop_bit k b) (n - k)" using a by simp
      then show "bit (a OR mask k) n = bit (b OR mask k) n"
        using \<open>n < LENGTH(32)\<close> by (cases "n < k") (simp_all add: bit_simps)
    qed
  qed
  then show ?thesis by (metis unat_drop word_unat_eq_iff)
qed

lemma masks: "TIME_NEAR_MASK = mask 8" "TIME_LEVEL_MASK = mask 6"
  "push_bit TIME_LEVEL_SHIFT (of_nat TIME_NEAR) - 1 = (mask 14 :: u32)"
  "push_bit TIME_LEVEL_SHIFT (push_bit TIME_LEVEL_SHIFT (of_nat TIME_NEAR)) - 1 = (mask 20 :: u32)"
  "push_bit TIME_LEVEL_SHIFT (push_bit TIME_LEVEL_SHIFT (push_bit TIME_LEVEL_SHIFT (of_nat TIME_NEAR))) - 1 = (mask 26 :: u32)"
  by (simp_all add: TIME_NEAR_MASK_def TIME_LEVEL_MASK_def TIME_NEAR_def TIME_LEVEL_def TIME_NEAR_SHIFT_def TIME_LEVEL_SHIFT_def mask_eq_exp_minus_1 push_bit_eq_mult)

lemma unat_and_mask: "k < 32 \<Longrightarrow> unat ((x :: u32) AND mask k) = unat x mod 2 ^ k"
  by (simp only: take_bit_eq_mask [symmetric] unsigned_take_bit_eq less_imp_le_nat len_of_numeral_defs
      flip: take_bit_eq_mod)

definition lev :: "u32 \<Rightarrow> u32 \<Rightarrow> nat" where
  "lev T e = (if blk 1 T = blk 1 e then 0 else if blk 2 T = blk 2 e then 1
     else if blk 3 T = blk 3 e then 2 else 3)"

lemma add_level_eq: "add_level e T (push_bit TIME_LEVEL_SHIFT (of_nat TIME_NEAR)) 0 = lev T e"
proof -
  have c: "(blk j T = blk j e) = (unat e div 2 ^ (8 + 6 * j) = unat T div 2 ^ (8 + 6 * j))" for j
    by (auto simp: blk_def)
  show ?thesis
    unfolding lev_def c
    by (subst add_level.simps, subst add_level.simps, subst add_level.simps, subst add_level.simps)
       (simp only: masks or_mask_eq_iff, simp)
qed

datatype loc = Near nat | Lev nat nat

definition place :: "u32 \<Rightarrow> u32 \<Rightarrow> loc" where
  "place T e = (if blk 0 T = blk 0 e then Near (unat e mod 256) else Lev (lev T e) (blk (lev T e) e mod 64))"

lemma blk_Suc: "blk (Suc j) x = blk j x div 64"
  by (simp add: blk_def div_mult2_eq [symmetric] power_add)

lemma blk_Suc_eq: "blk j a = blk j b \<Longrightarrow> blk (Suc j) a = blk (Suc j) b"
  by (simp add: blk_Suc)

definition later :: "u32 \<Rightarrow> u32 \<Rightarrow> bool" where
  "later T e \<longleftrightarrow> e \<noteq> T \<and> unat (e - T) < 2 ^ 31"

lemma later_cases:
  assumes "later T e"
  shows "unat T < unat e \<or> unat e + 2 ^ 31 < unat T"
proof -
  have "unat e = (unat T + unat (e - T)) mod 2 ^ 32"
    using unat_word_ariths(1) [of T "e - T"] by simp
  moreover have "unat (e - T) \<noteq> 0" using assms by (simp add: later_def unat_eq_zero)
  moreover have "unat T < 2 ^ 32" using unsigned_less [of T, where 'a = nat] by simp
  moreover have "(a + d) mod m = (if a + d < m then a + d else a + d - m)" if "a < m" "d < m" for a d m :: nat
    using that by (simp add: mod_if)
  ultimately show ?thesis using assms unfolding later_def by (auto split: if_splits)
qed

lemma unat_succ: "T + 1 \<noteq> 0 \<Longrightarrow> unat (T + 1 :: u32) = Suc (unat T)"
  by (metis Suc_eq_plus1 add.commute unatSuc)

lemma blk_same:
  assumes "unat (T + 1 :: u32) mod 2 ^ (8 + 6 * j) \<noteq> 0"
  shows "blk j (T + 1) = blk j T"
proof -
  have "T + 1 \<noteq> 0" using assms by (metis mod_0 unsigned_0)
  then show ?thesis using assms unfolding blk_def by (simp add: unat_succ div_Suc)
qed

lemma blk_later:
  assumes "unat (T + 1 :: u32) mod 2 ^ (8 + 6 * j) = 0" "later T e" "j < 4"
  shows "blk j T \<noteq> blk j e"
proof (cases "unat T < unat e")
  case True
  have "unat e < 2 ^ 32" using unsigned_less [of e, where 'a = nat] by simp
  with True have "T + 1 \<noteq> 0"
    by (metis max_word_max word_order.not_eq_extremum less_irrefl linorder_not_less word_less_nat_alt add.commute add_eq_0_iff2 add.right_neutral eq_neg_iff_add_eq_0)
  then have s: "unat (T + 1) = Suc (unat T)" by (rule unat_succ)
  have "Suc (unat T) div 2 ^ (8 + 6 * j) \<le> unat e div 2 ^ (8 + 6 * j)"
    using True by (intro div_le_mono) simp
  then show ?thesis using assms(1) unfolding blk_def s by (simp add: div_Suc)
next
  case False
  then have "unat e + 2 ^ 31 < unat T" using later_cases [OF assms(2)] by simp
  moreover have "(2::nat) ^ (8 + 6 * j) \<le> 2 ^ 31" using assms(3) by (intro power_increasing) auto
  ultimately have "unat e + 2 ^ (8 + 6 * j) \<le> unat T" by linarith
  from div_le_mono [OF this, of "2 ^ (8 + 6 * j)"] show ?thesis
    unfolding blk_def by (simp add: div_add_self2)
qed

lemma blk_up:
  "blk 0 a = blk 0 b \<Longrightarrow> blk 1 a = blk 1 b" "blk 1 a = blk 1 b \<Longrightarrow> blk 2 a = blk 2 b"
  "blk 2 a = blk 2 b \<Longrightarrow> blk 3 a = blk 3 b"
  using blk_Suc_eq [of 0 a b] blk_Suc_eq [of 1 a b] blk_Suc_eq [of 2 a b]
  by (simp_all add: eval_nat_numeral)

lemma mod_pow_mono: "(n :: nat) mod 2 ^ b = 0 \<Longrightarrow> a \<le> b \<Longrightarrow> n mod 2 ^ a = 0"
  by (metis dvd_eq_mod_eq_0 le_imp_power_dvd dvd_trans)

lemma place_step:
  assumes "later T e" "k < 4" "unat (T + 1) mod 2 ^ (8 + 6 * k) = 0"
    and up: "k < 3 \<Longrightarrow> unat (T + 1) mod 2 ^ (8 + 6 * Suc k) \<noteq> 0"
  shows "place (T + 1) e = place T e \<or> place T e = Lev k (blk k (T + 1) mod 64)"
proof -
  have lo: "blk j T \<noteq> blk j e" if "j \<le> k" for j
    using that assms(2) by (intro blk_later [OF mod_pow_mono [OF assms(3)] assms(1)]) auto
  have hi: "blk j (T + 1) = blk j T" if "k < j" "j < 4" for j
    by (rule blk_same, rule notI, drule mod_pow_mono [of _ _ "8 + 6 * Suc k"]) (use that up in auto)
  note up = blk_up [of "T + 1" e]
  consider "k = 0" | "k = 1" | "k = 2" | "k = 3" using assms(2) by linarith
  then show ?thesis
  proof cases
    case 1
    then show ?thesis using lo [of 0] hi [of 1] hi [of 2] hi [of 3] up
      by (cases "blk 0 (T + 1) = blk 0 e") (simp_all add: place_def lev_def)
  next
    case 2
    then show ?thesis using lo [of 0] lo [of 1] hi [of 2] hi [of 3] up
      by (cases "blk 1 (T + 1) = blk 1 e") (auto simp: place_def lev_def)
  next
    case 3
    then show ?thesis using lo [of 0] lo [of 1] lo [of 2] hi [of 3] up
      by (cases "blk 2 (T + 1) = blk 2 e") (auto simp: place_def lev_def)
  next
    case 4
    then show ?thesis using lo [of 0] lo [of 1] lo [of 2] lo [of 3] up
      by (cases "blk 3 (T + 1) = blk 3 e") (auto simp: place_def lev_def)
  qed
qed
section \<open>The lists of the wheel\<close>

fun view :: "timer \<Rightarrow> loc \<Rightarrow> timer_node list" where
  "view T (Near i) = (if i < 256 then tm_near T ! i else [])"
| "view T (Lev l i) = (if l < 4 \<and> i < 64 then tm_t T ! l ! i else [])"

definition shape :: "timer \<Rightarrow> bool" where
  "shape T \<longleftrightarrow> length (tm_near T) = 256 \<and> length (tm_t T) = 4 \<and> (\<forall>l < 4. length (tm_t T ! l) = 64)"

definition clocks :: "timer \<Rightarrow> u32 \<times> u32 \<times> u64 \<times> u64" where
  "clocks T = (tm_time T, tm_starttime T, tm_current T, tm_current_point T)"

lemma clocks_time: "clocks T' = clocks T \<Longrightarrow> tm_time T' = tm_time T"
  by (simp add: clocks_def)

lemma link_near_ok:
  assumes "shape T" "i < 256"
  shows "\<exists>T'. link_near T i n = Inr T' \<and> shape T' \<and> clocks T' = clocks T
    \<and> view T' = (view T)(Near i := view T (Near i) @ [n])"
proof -
  let ?T = "T\<lparr>tm_near := (tm_near T)[i := tm_near T ! i @ [n]]\<rparr>"
  have "view ?T p = ((view T)(Near i := view T (Near i) @ [n])) p" for p
    using assms by (cases p) (auto simp: shape_def)
  then show ?thesis using assms by (auto simp: link_near_def shape_def clocks_def)
qed

lemma link_level_ok:
  assumes "shape T" "l < 4" "i < 64"
  shows "\<exists>T'. link_level T l i n = Inr T' \<and> shape T' \<and> clocks T' = clocks T
    \<and> view T' = (view T)(Lev l i := view T (Lev l i) @ [n])"
proof -
  let ?T = "T\<lparr>tm_t := (tm_t T)[l := (tm_t T ! l)[i := tm_t T ! l ! i @ [n]]]\<rparr>"
  have "view ?T p = ((view T)(Lev l i := view T (Lev l i) @ [n])) p" for p
    using assms by (cases p) (auto simp: shape_def nth_list_update)
  moreover have "shape ?T" using assms by (auto simp: shape_def nth_list_update)
  ultimately show ?thesis using assms by (auto simp: link_level_def shape_def clocks_def)
qed

lemma lev_less: "lev T e < 4"
  by (simp add: lev_def)

lemma add_node_ok:
  assumes "shape T"
  shows "\<exists>T'. add_node T n = Inr T' \<and> shape T' \<and> clocks T' = clocks T
    \<and> view T' = (view T)(place (tm_time T) (expire n) := view T (place (tm_time T) (expire n)) @ [n])"
proof -
  have near: "(expire n OR TIME_NEAR_MASK = tm_time T OR TIME_NEAR_MASK) = (blk 0 (tm_time T) = blk 0 (expire n))"
    by (auto simp: masks or_mask_eq_iff blk_def)
  have idx: "unat (expire n AND TIME_NEAR_MASK) = unat (expire n) mod 256"
    using unat_and_mask [of 8 "expire n"] by (simp add: masks)
  have lidx: "unat (drop_bit (TIME_NEAR_SHIFT + i * TIME_LEVEL_SHIFT) (expire n) AND TIME_LEVEL_MASK) = blk i (expire n) mod 64" for i
    using unat_and_mask [of 6 "drop_bit (TIME_NEAR_SHIFT + i * TIME_LEVEL_SHIFT) (expire n)"]
    by (simp add: masks unat_drop blk_def TIME_NEAR_SHIFT_def TIME_LEVEL_SHIFT_def mult.commute)
  show ?thesis
    unfolding add_node_def Let_def near idx add_level_eq lidx place_def
    using link_near_ok [OF assms, of "unat (expire n) mod 256" n]
      link_level_ok [OF assms lev_less, of "blk (lev (tm_time T) (expire n)) (expire n) mod 64" "tm_time T" "expire n" n]
    by auto
qed

lemma fold_add_ok:
  assumes "shape T"
  shows "\<exists>T'. fold_res (\<lambda>c T. add_node T c) ns T = Inr T' \<and> shape T' \<and> clocks T' = clocks T
    \<and> (\<forall>p. view T' p = view T p @ filter (\<lambda>n. place (tm_time T) (expire n) = p) ns)"
  using assms
proof (induction ns arbitrary: T)
  case (Cons n ns)
  from add_node_ok [OF Cons.prems, of n] obtain T1 where 1: "add_node T n = Inr T1" "shape T1" "clocks T1 = clocks T"
    "view T1 = (view T)(place (tm_time T) (expire n) := view T (place (tm_time T) (expire n)) @ [n])" by blast
  from Cons.IH [OF 1(2)] show ?case using 1 clocks_time [OF 1(3)] by auto
qed simp

lemma move_list_ok:
  assumes "shape T" "l < 4" "i < 64"
  shows "\<exists>T'. move_list T l i = Inr T' \<and> shape T' \<and> clocks T' = clocks T
    \<and> (\<forall>p. view T' p = ((view T)(Lev l i := [])) p @ filter (\<lambda>n. place (tm_time T) (expire n) = p) (view T (Lev l i)))"
proof -
  let ?T = "T\<lparr>tm_t := (tm_t T)[l := (tm_t T ! l)[i := []]]\<rparr>"
  have v: "view ?T p = ((view T)(Lev l i := [])) p" for p
    using assms by (cases p) (auto simp: shape_def nth_list_update)
  have s: "shape ?T" using assms by (auto simp: shape_def nth_list_update)
  have "clocks ?T = clocks T" "tm_time ?T = tm_time T" by (simp_all add: clocks_def)
  with fold_add_ok [OF s, of "tm_t T ! l ! i"] v show ?thesis
    using assms by (simp add: move_list_def shape_def)
qed

section \<open>Advancing the wheel\<close>

lemma mod_level:
  "unat (x :: u32) mod 2 ^ (8 + 6 * Suc j) = 0 \<longleftrightarrow> unat x mod 2 ^ (8 + 6 * j) = 0 \<and> blk j x mod 64 = 0"
proof -
  have "unat x mod 2 ^ (8 + 6 * Suc j) = 2 ^ (8 + 6 * j) * (blk j x mod 64) + unat x mod 2 ^ (8 + 6 * j)"
    using mod_mult2_eq [of "unat x" "2 ^ (8 + 6 * j)" 64] by (simp add: blk_def power_add)
  then show ?thesis by auto
qed

lemma and_mask_zero: "k < 32 \<Longrightarrow> ((x :: u32) AND (of_nat (2 ^ k) - 1) = 0) = (unat x mod 2 ^ k = 0)"
  using and_pow2_mask [of k x] by (simp only: unat_eq_zero [symmetric]) simp

lemma shift_loop_step:
  assumes "j < 4" "unat ct mod 2 ^ (8 + 6 * j) = 0" "time = drop_bit (8 + 6 * j) ct"
  shows "shift_loop T ct time (2 ^ (8 + 6 * j)) j =
    (if blk j ct mod 64 \<noteq> 0 then move_list T j (blk j ct mod 64)
     else if j = 3 then Inl IntOverflow
     else shift_loop T ct (drop_bit (8 + 6 * Suc j) ct) (2 ^ (8 + 6 * Suc j)) (Suc j))"
proof -
  have idx: "unat (time AND TIME_LEVEL_MASK) = blk j ct mod 64"
    using unat_and_mask [of 6 time] by (simp add: masks assms(3) unat_drop blk_def)
  have "(2::nat) ^ (8 + 6 * j) * 2 ^ TIME_LEVEL_SHIFT > INT_MAX \<longleftrightarrow> j = 3"
  proof -
    consider "j = 0" | "j = 1" | "j = 2" | "j = 3" using assms(1) by linarith
    then show ?thesis by cases (simp_all add: INT_MAX_def TIME_LEVEL_SHIFT_def)
  qed
  moreover have "drop_bit TIME_LEVEL_SHIFT time = drop_bit (8 + 6 * Suc j) ct"
    by (simp add: assms(3) TIME_LEVEL_SHIFT_def drop_bit_drop_bit add.commute)
  moreover have "(2::nat) ^ (8 + 6 * j) * 2 ^ TIME_LEVEL_SHIFT = 2 ^ (8 + 6 * Suc j)"
    by (simp add: TIME_LEVEL_SHIFT_def power_add)
  moreover have "ct AND (of_nat (2 ^ (8 + 6 * j)) - 1) = 0"
    using assms and_mask_zero [of "8 + 6 * j" ct] by simp
  ultimately show ?thesis
    by (subst shift_loop.simps) (simp only: idx Let_def if_True power_not_zero zero_neq_numeral not_False_eq_True if_False, simp)
qed

lemma shift_loop_cases:
  assumes "j < 4" "unat ct mod 2 ^ (8 + 6 * j) = 0" "ct \<noteq> 0"
  shows "\<exists>k < 4. shift_loop T ct (drop_bit (8 + 6 * j) ct) (2 ^ (8 + 6 * j)) j = move_list T k (blk k ct mod 64)
    \<and> unat ct mod 2 ^ (8 + 6 * k) = 0 \<and> (k < 3 \<longrightarrow> unat ct mod 2 ^ (8 + 6 * Suc k) \<noteq> 0)"
  using assms(1,2)
proof (induction "3 - j" arbitrary: j)
  case 0
  then have j: "j = 3" by simp
  have "unat ct \<noteq> 0" using assms(3) by (simp add: unat_eq_zero)
  moreover have "unat ct < 2 ^ 32" using unsigned_less [of ct, where 'a = nat] by simp
  ultimately have "unat ct mod 2 ^ (8 + 6 * Suc 3) \<noteq> 0" by simp
  then have "blk 3 ct mod 64 \<noteq> 0" using mod_level [of ct 3] 0(3) j by simp
  then show ?case using shift_loop_step [OF 0(2,3) refl, of T] j 0(3) by (intro exI [of _ 3]) simp
next
  case (Suc d)
  show ?case
  proof (cases "blk j ct mod 64 = 0")
    case True
    with Suc.prems have "unat ct mod 2 ^ (8 + 6 * Suc j) = 0" using mod_level [of ct j] by simp
    with Suc.hyps(1) [of "Suc j"] Suc.hyps(2) Suc.prems(1) show ?thesis
      using shift_loop_step [OF Suc.prems refl, of T] True by auto
  next
    case False
    then show ?thesis using shift_loop_step [OF Suc.prems refl, of T] mod_level [of ct j] Suc.prems by auto
  qed
qed

lemma timer_shift_cases:
  fixes T defines "ct \<equiv> tm_time T + 1"
  shows "(unat ct mod 2 ^ 8 \<noteq> 0 \<and> timer_shift T = Inr (T\<lparr>tm_time := ct\<rparr>))
    \<or> (\<exists>k < 4. timer_shift T = move_list (T\<lparr>tm_time := ct\<rparr>) k (blk k ct mod 64)
        \<and> unat ct mod 2 ^ (8 + 6 * k) = 0 \<and> (k < 3 \<longrightarrow> unat ct mod 2 ^ (8 + 6 * Suc k) \<noteq> 0))"
proof (cases "ct = 0")
  case True
  then have "timer_shift T = move_list (T\<lparr>tm_time := ct\<rparr>) 3 (blk 3 ct mod 64)"
    by (simp add: timer_shift_def ct_def blk_def)
  with True show ?thesis by (intro disjI2 exI [of _ 3]) simp
next
  case False
  then have t: "timer_shift T = shift_loop (T\<lparr>tm_time := ct\<rparr>) ct (drop_bit 8 ct) (2 ^ 8) 0"
    by (simp add: timer_shift_def ct_def TIME_NEAR_SHIFT_def TIME_NEAR_def Let_def)
  show ?thesis
  proof (cases "unat ct mod 2 ^ 8 = 0")
    case True
    with shift_loop_cases [of 0 ct "T\<lparr>tm_time := ct\<rparr>"] False t show ?thesis by simp
  next
    case False
    then have "ct AND (of_nat (2 ^ 8) - 1) \<noteq> 0" using and_mask_zero [of 8 ct] by simp
    with False show ?thesis unfolding t by (subst shift_loop.simps) simp
  qed
qed

text \<open>Every node is where \<open>add_node\<close> would put it, and its expiry satisfies \<open>Q\<close>.\<close>

definition placed :: "(u32 \<Rightarrow> bool) \<Rightarrow> timer \<Rightarrow> bool" where
  "placed Q T \<longleftrightarrow> shape T \<and>
     (\<forall>p. \<forall>n \<in> set (view T p). p = place (tm_time T) (expire n) \<and> Q (expire n))"

definition wheel_inv :: "timer \<Rightarrow> bool" where
  "wheel_inv T \<longleftrightarrow> placed (later (tm_time T)) T"

text \<open>The nodes that expire at \<open>e\<close>, in the order in which they will be dispatched.\<close>

definition expiring :: "timer \<Rightarrow> u32 \<Rightarrow> timer_node list" where
  "expiring T e = filter (\<lambda>n. expire n = e) (view T (place (tm_time T) e))"

lemma placedD: "placed Q T \<Longrightarrow> n \<in> set (view T p) \<Longrightarrow> p = place (tm_time T) (expire n) \<and> Q (expire n)"
  by (simp add: placed_def)

lemma filter_expire_other:
  assumes "placed Q T" "place (tm_time T) e \<noteq> p"
  shows "filter (\<lambda>n. expire n = e) (view T p) = []"
  using assms by (auto simp: filter_empty_conv placed_def)

lemma time_shape [simp]: "shape (T\<lparr>tm_time := c\<rparr>) = shape T" "view (T\<lparr>tm_time := c\<rparr>) p = view T p"
  by (simp_all add: shape_def, cases p) simp_all

lemma timer_shift_ok:
  assumes "wheel_inv T"
  shows "\<exists>T'. timer_shift T = Inr T' \<and> clocks T' = clocks (T\<lparr>tm_time := tm_time T + 1\<rparr>)
    \<and> placed (later (tm_time T)) T' \<and> (\<forall>e. later (tm_time T) e \<longrightarrow> expiring T' e = expiring T e)"
proof -
  let ?t = "tm_time T" and ?c = "tm_time T + 1"
  let ?T = "T\<lparr>tm_time := ?c\<rparr>"
  have inv: "placed (later ?t) T" and sh: "shape T" using assms by (simp_all add: wheel_inv_def placed_def)
  consider "unat ?c mod 2 ^ 8 \<noteq> 0" "timer_shift T = Inr ?T"
    | k where "k < 4" "timer_shift T = move_list ?T k (blk k ?c mod 64)" "unat ?c mod 2 ^ (8 + 6 * k) = 0"
        "k < 3 \<Longrightarrow> unat ?c mod 2 ^ (8 + 6 * Suc k) \<noteq> 0"
    using timer_shift_cases [of T] by auto
  then show ?thesis
  proof cases
    case 1
    have "blk j ?c = blk j ?t" for j
      by (rule blk_same, rule notI, drule mod_pow_mono [of _ _ 8]) (use 1 in auto)
    then have "place ?c = place ?t" by (intro ext) (simp add: place_def lev_def)
    then show ?thesis using 1 inv sh by (simp add: placed_def expiring_def)
  next
    case 2
    let ?q = "Lev k (blk k ?c mod 64)"
    have step: "place ?c e = place ?t e \<or> place ?t e = ?q" if "later ?t e" for e
      by (rule place_step [OF that 2(1) 2(3)]) (fact 2(4))
    from move_list_ok [of ?T k "blk k ?c mod 64"] 2(1,2) sh obtain T' where
      T': "timer_shift T = Inr T'" "shape T'" "clocks T' = clocks ?T"
      and v: "\<And>p. view T' p = ((view T)(?q := [])) p @ filter (\<lambda>n. place ?c (expire n) = p) (view T ?q)"
      by auto
    have t: "tm_time T' = ?c" using clocks_time [OF T'(3)] by simp
    have "placed (later ?t) T'"
      unfolding placed_def t
    proof (intro conjI allI ballI)
      fix p n assume n: "n \<in> set (view T' p)"
      then obtain p' where p': "n \<in> set (view T p')" "p' = p \<and> p \<noteq> ?q \<or> place ?c (expire n) = p"
        unfolding v by (auto simp del: view.simps split: if_splits)
      then show "later ?t (expire n)" using placedD [OF inv p'(1)] by simp
      then show "p = place ?c (expire n)" using placedD [OF inv p'(1)] p'(2) step by metis
    qed (fact T'(2))
    moreover have "expiring T' e = expiring T e" if e: "later ?t e" for e
    proof -
      let ?F = "filter (\<lambda>n. expire n = e)"
      have x: "expiring T' e = ?F (((view T)(?q := [])) (place ?c e)) @ ?F (view T ?q)"
        unfolding expiring_def t v by (auto intro!: arg_cong2 [of _ _ _ _ append] filter_cong)
      show ?thesis
      proof (cases "place ?t e = ?q")
        case True
        then have "?F (((view T)(?q := [])) (place ?c e)) = []"
          using filter_expire_other [OF inv, of e "place ?c e"] by auto
        then show ?thesis unfolding x using True by (simp add: expiring_def del: view.simps)
      next
        case False
        then show ?thesis using step [OF e] filter_expire_other [OF inv False]
          unfolding x by (auto simp: expiring_def simp del: view.simps)
      qed
    qed
    ultimately show ?thesis using T' by blast
  qed
qed

section \<open>Adding and dispatching\<close>

lemma later_succ:
  assumes "later T e" shows "e = T + 1 \<or> later (T + 1) e"
proof -
  have "unat (e - T) \<noteq> 0" using assms by (simp add: later_def unat_eq_zero)
  moreover have "e - (T + 1) = (e - T) - 1" by simp
  ultimately have "unat (e - (T + 1)) \<le> unat (e - T)"
    by (metis unat_eq_zero unat_minus_one diff_le_self)
  then show ?thesis using assms by (auto simp: later_def)
qed

lemma later_add:
  assumes "0 < d" "d \<le> int INT_MAX" shows "later T (of_int d + T)"
proof -
  obtain m where m: "d = int m" "0 < m" "m < 2 ^ 31"
    using assms by (cases d) (auto simp: INT_MAX_def)
  then have "unat (of_nat m :: u32) = m" by (simp add: unsigned_of_nat take_bit_nat_eq_self)
  with m show ?thesis by (auto simp: later_def unat_eq_zero)
qed

lemma timer_add_ok:
  assumes "wheel_inv T" "0 < d" "d \<le> int INT_MAX"
  shows "\<exists>T'. timer_add T ev d = Inr T' \<and> wheel_inv T' \<and> clocks T' = clocks T
    \<and> (\<forall>e. expiring T' e = expiring T e @ (if e = of_int d + tm_time T then [\<lparr>expire = e, event = ev\<rparr>] else []))"
proof -
  let ?n = "\<lparr>expire = of_int d + tm_time T, event = ev\<rparr>"
  have inv: "placed (later (tm_time T)) T" using assms(1) by (simp add: wheel_inv_def)
  then have "shape T" by (simp add: placed_def)
  from add_node_ok [OF this, of ?n] obtain T' where T': "timer_add T ev d = Inr T'" "shape T'" "clocks T' = clocks T"
    "view T' = (view T)(place (tm_time T) (expire ?n) := view T (place (tm_time T) (expire ?n)) @ [?n])"
    by (auto simp: timer_add_def)
  have t: "tm_time T' = tm_time T" using clocks_time [OF T'(3)] .
  have "wheel_inv T'" using T' inv later_add [OF assms(2,3)]
    unfolding wheel_inv_def placed_def t by auto
  moreover have "expiring T' e = expiring T e @ (if e = of_int d + tm_time T then [\<lparr>expire = e, event = ev\<rparr>] else [])" for e
    unfolding expiring_def t T'(4) by auto
  ultimately show ?thesis using T' by blast
qed

lemma place_now: "place T e = Near (unat T mod 256) \<longleftrightarrow> e = T"
proof
  assume p: "place T e = Near (unat T mod 256)"
  then have "unat T div 256 = unat e div 256" "unat e mod 256 = unat T mod 256"
    by (auto simp: place_def blk_def split: if_splits)
  then have "unat e = unat T" by (metis div_mult_mod_eq)
  then show "e = T" by (simp add: word_unat_eq_iff)
qed (simp add: place_def)

lemma expiring_none: "placed Q T \<Longrightarrow> \<not> Q e \<Longrightarrow> expiring T e = []"
  by (auto simp: expiring_def filter_empty_conv placed_def)

lemma near_now:
  assumes "placed Q T"
  shows "unat (tm_time T AND TIME_NEAR_MASK) < length (tm_near T)"
    "tm_near T ! unat (tm_time T AND TIME_NEAR_MASK) = expiring T (tm_time T)"
proof -
  have i: "unat (tm_time T AND TIME_NEAR_MASK) = unat (tm_time T) mod 256"
    using unat_and_mask [of 8 "tm_time T"] by (simp add: masks)
  show "unat (tm_time T AND TIME_NEAR_MASK) < length (tm_near T)"
    using assms unfolding i by (simp add: placed_def shape_def)
  let ?l = "view T (Near (unat (tm_time T) mod 256))"
  have "\<forall>n \<in> set ?l. expire n = tm_time T"
    using placedD [OF assms] place_now by metis
  then have "filter (\<lambda>n. expire n = tm_time T) ?l = ?l" by (simp add: filter_id_conv)
  then show "tm_near T ! unat (tm_time T AND TIME_NEAR_MASK) = expiring T (tm_time T)"
    unfolding i expiring_def using place_now [of "tm_time T" "tm_time T"] by (simp del: filter_id_conv)
qed

lemma clear_now:
  assumes "placed (\<lambda>e. e = tm_time T \<or> later (tm_time T) e) T"
  defines "T' \<equiv> T\<lparr>tm_near := (tm_near T)[unat (tm_time T AND TIME_NEAR_MASK) := []]\<rparr>"
  shows "wheel_inv T' \<and> clocks T' = clocks T \<and> (\<forall>e. e \<noteq> tm_time T \<longrightarrow> expiring T' e = expiring T e)"
proof -
  let ?i = "unat (tm_time T) mod 256"
  have i: "unat (tm_time T AND TIME_NEAR_MASK) = ?i"
    using unat_and_mask [of 8 "tm_time T"] by (simp add: masks)
  have sh: "shape T" using assms(1) by (simp add: placed_def)
  have v: "view T' p = (if p = Near ?i then [] else view T p)" for p
    using sh by (cases p) (auto simp: shape_def T'_def i)
  have t: "tm_time T' = tm_time T" by (simp add: T'_def)
  have "shape T'" using sh by (simp add: shape_def T'_def)
  moreover have "p = place (tm_time T) (expire n) \<and> later (tm_time T) (expire n)" if "n \<in> set (view T' p)" for p n
    using that placedD [OF assms(1), of n p] place_now [of "tm_time T" "expire n"]
    unfolding v by (auto split: if_splits simp del: view.simps)
  ultimately have "wheel_inv T'" unfolding wheel_inv_def placed_def t by blast
  moreover have "expiring T' e = expiring T e" if "e \<noteq> tm_time T" for e
    using that unfolding expiring_def t v place_now by simp
  moreover have "clocks T' = clocks T" by (simp add: clocks_def T'_def)
  ultimately show ?thesis by blast
qed

lemma wheel_inv_now: "wheel_inv T \<Longrightarrow> expiring T (tm_time T) = []"
  by (auto simp: wheel_inv_def later_def intro: expiring_none)

text \<open>With nothing due \<open>timer_execute\<close> does nothing: the first call in \<open>timer_update\<close>.\<close>

lemma timer_execute_idle:
  assumes "wheel_inv T" shows "timer_execute env T = Some (Inr (T, [], env))"
proof -
  have p: "placed (later (tm_time T)) T" using assms by (simp add: wheel_inv_def)
  show ?thesis using near_now [OF p] wheel_inv_now [OF assms] by (subst timer_execute.simps) simp
qed

section \<open>The specification\<close>

text \<open>A list of remaining ticks and events, in the order they were requested.\<close>

type_synonym waiting = "(nat \<times> timer_event) list"

definition spec_due :: "waiting \<Rightarrow> timer_event list" where
  "spec_due L = map snd (filter (\<lambda>x. fst x = 1) L)"

definition spec_rest :: "waiting \<Rightarrow> waiting" where
  "spec_rest L = map (\<lambda>x. (fst x - 1, snd x)) (filter (\<lambda>x. fst x \<noteq> 1) L)"

definition spec_adds :: "(timer_event \<times> int) list \<Rightarrow> waiting" where
  "spec_adds adds = map (\<lambda>(ev, d). (nat d, ev)) adds"

definition delay_ok :: "int \<Rightarrow> bool" where
  "delay_ok d \<longleftrightarrow> 0 < d \<and> d \<le> int INT_MAX"

definition timer_rel :: "timer \<Rightarrow> waiting \<Rightarrow> bool" where
  "timer_rel T L \<longleftrightarrow> wheel_inv T \<and> (\<forall>x \<in> set L. delay_ok (int (fst x)))
     \<and> (\<forall>r. delay_ok (int r) \<longrightarrow>
          map event (expiring T (of_nat r + tm_time T)) = map snd (filter (\<lambda>x. fst x = r) L))"

lemma of_int_delay_inj: "delay_ok d \<Longrightarrow> delay_ok (int r) \<Longrightarrow> (of_nat r :: u32) = of_int d \<longleftrightarrow> int r = d"
proof -
  assume a: "delay_ok d" "delay_ok (int r)"
  then obtain m where m: "d = int m" "m < 2 ^ 31" "r < 2 ^ 31"
    by (cases d) (auto simp: INT_MAX_def delay_ok_def)
  then have "unat (of_nat m :: u32) = m" "unat (of_nat r :: u32) = r"
    by (simp_all add: unsigned_of_nat take_bit_nat_eq_self)
  with m show ?thesis by (metis of_int_of_nat_eq of_nat_eq_iff)
qed

lemma timer_add_rel:
  assumes "timer_rel T L" "delay_ok d"
  shows "\<exists>T'. timer_add T ev d = Inr T' \<and> clocks T' = clocks T \<and> timer_rel T' (L @ [(nat d, ev)])"
proof -
  from timer_add_ok [of T d ev] assms obtain T' where T': "timer_add T ev d = Inr T'" "wheel_inv T'" "clocks T' = clocks T"
    "\<And>e. expiring T' e = expiring T e @ (if e = of_int d + tm_time T then [\<lparr>expire = e, event = ev\<rparr>] else [])"
    by (auto simp: timer_rel_def delay_ok_def)
  have t: "tm_time T' = tm_time T" using clocks_time [OF T'(3)] .
  have "map event (expiring T' (of_nat r + tm_time T')) = map snd (filter (\<lambda>x. fst x = r) (L @ [(nat d, ev)]))"
    if "delay_ok (int r)" for r
  proof -
    have "(of_nat r + tm_time T = of_int d + tm_time T) = (nat d = r)"
      using of_int_delay_inj [OF assms(2) that] assms(2) by (auto simp: delay_ok_def)
    then show ?thesis using assms(1) that unfolding timer_rel_def T'(4) t by simp
  qed
  then show ?thesis using T' assms by (auto simp: timer_rel_def delay_ok_def)
qed

lemma env_adds_rel:
  assumes "timer_rel T L" "\<forall>(ev, d) \<in> set adds. delay_ok d"
  shows "\<exists>T'. env_adds adds T = Inr T' \<and> clocks T' = clocks T \<and> timer_rel T' (L @ spec_adds adds)"
  using assms
proof (induction adds arbitrary: T L)
  case (Cons a adds)
  obtain ev d where a: "a = (ev, d)" by (cases a)
  with timer_add_rel [OF Cons.prems(1), of d ev] Cons.prems(2) obtain T1 where
    1: "timer_add T ev d = Inr T1" "clocks T1 = clocks T" "timer_rel T1 (L @ [(nat d, ev)])" by auto
  from Cons.IH [OF 1(3)] Cons.prems(2) 1 show ?case by (auto simp: env_adds_def a spec_adds_def)
qed (simp add: env_adds_def spec_adds_def)

definition env_ok :: "env \<Rightarrow> bool" where
  "env_ok env \<longleftrightarrow> (\<forall>adds \<in> set env. \<forall>(ev, d) \<in> set adds. delay_ok d)"

definition window :: "env \<Rightarrow> (timer_event \<times> int) list" where
  "window env = (case env of [] \<Rightarrow> [] | adds # _ \<Rightarrow> adds)"

lemma env_ok_window: "env_ok env \<Longrightarrow> \<forall>(ev, d) \<in> set (window env). delay_ok d"
  by (cases env) (auto simp: env_ok_def window_def)

lemma env_ok_tl: "env_ok env \<Longrightarrow> env_ok (tl env)"
  by (cases env) (auto simp: env_ok_def)

definition push_event :: "timer_event \<Rightarrow> push" where
  "push_event ev = (te_handle ev, timeout_message (te_session ev))"

lemma dispatch_list_events: "dispatch_list ns = map push_event (map event ns)"
  by (simp add: dispatch_list_def push_event_def)

text \<open>The waiting timers after a tick, and the windows that are left.\<close>

definition spec_update :: "env \<Rightarrow> waiting \<Rightarrow> waiting \<times> timer_event list \<times> env" where
  "spec_update env L =
     (if spec_due L = [] then (spec_rest L, [], env)
      else (spec_rest L @ spec_adds (window env), spec_due L, tl env))"

lemma later_ex: "later T e \<longleftrightarrow> (\<exists>r. delay_ok (int r) \<and> e = of_nat r + T)"
proof
  assume l: "later T e"
  have "e = of_nat (unat (e - T)) + T" by simp
  moreover have "delay_ok (int m)" if "m \<noteq> 0" "m < 2 ^ 31" for m
    using that by (simp add: delay_ok_def INT_MAX_def)
  then have "delay_ok (int (unat (e - T)))" using l unfolding later_def by (metis right_minus_eq unat_eq_zero)
  ultimately show "\<exists>r. delay_ok (int r) \<and> e = of_nat r + T" by blast
next
  assume "\<exists>r. delay_ok (int r) \<and> e = of_nat r + T"
  then obtain r where "delay_ok (int r)" "e = of_int (int r) + T" by auto
  then show "later T e" using later_add [of "int r" T] by (simp add: delay_ok_def)
qed

lemma filter_spec_rest:
  assumes "0 < r"
  shows "map snd (filter (\<lambda>x. fst x = r) (spec_rest L)) = map snd (filter (\<lambda>x. fst x = Suc r) L)"
  using assms by (induction L) (auto simp: spec_rest_def)

lemma rest_rel:
  assumes rel: "timer_rel T L" and inv: "wheel_inv T'" and t: "tm_time T' = tm_time T + 1"
    and e: "\<And>e. later (tm_time T) e \<Longrightarrow> e \<noteq> tm_time T + 1 \<Longrightarrow> expiring T' e = expiring T e"
    and q: "\<And>e. \<not> later (tm_time T) e \<Longrightarrow> expiring T' e = []"
  shows "timer_rel T' (spec_rest L)"
  unfolding timer_rel_def
proof (intro conjI allI ballI impI)
  fix x assume "x \<in> set (spec_rest L)"
  then show "delay_ok (int (fst x))" using rel by (auto simp: spec_rest_def timer_rel_def delay_ok_def)
next
  fix r assume r: "delay_ok (int r)"
  let ?e = "of_nat r + tm_time T'"
  have e1: "?e = of_nat (Suc r) + tm_time T" by (simp add: t)
  show "map event (expiring T' ?e) = map snd (filter (\<lambda>x. fst x = r) (spec_rest L))"
  proof (cases "delay_ok (int (Suc r))")
    case True
    have "?e \<noteq> tm_time T + 1"
      using of_int_delay_inj [of 1 "Suc r"] True r by (auto simp: e1 delay_ok_def INT_MAX_def)
    moreover have "later (tm_time T) ?e" using True e1 later_ex by blast
    moreover have "map event (expiring T ?e) = map snd (filter (\<lambda>x. fst x = Suc r) L)"
      using rel True unfolding e1 timer_rel_def by blast
    ultimately show ?thesis using e filter_spec_rest [of r L] r by (simp add: delay_ok_def)
  next
    case False
    then have "filter (\<lambda>x. fst x = Suc r) L = []"
      using rel by (auto simp: timer_rel_def filter_empty_conv)
    moreover have "\<not> later (tm_time T) ?e"
    proof -
      have "r = INT_MAX" using False r by (simp add: delay_ok_def)
      then have "?e - tm_time T = 2147483648" by (simp add: t INT_MAX_def)
      then show ?thesis by (simp add: later_def)
    qed
    ultimately show ?thesis using q filter_spec_rest [of r L] r by (simp add: delay_ok_def)
  qed
qed (fact inv)

lemma timer_update_rel:
  assumes "timer_rel T L" "env_ok env" "spec_update env L = (L', due, env')"
  shows "\<exists>T'. timer_update env T = Some (Inr (T', map push_event due, env'))
    \<and> clocks T' = clocks (T\<lparr>tm_time := tm_time T + 1\<rparr>) \<and> timer_rel T' L'"
proof -
  have inv: "wheel_inv T" using assms(1) by (simp add: timer_rel_def)
  from timer_shift_ok [OF inv] obtain T1 where
    sh: "timer_shift T = Inr T1" and c1: "clocks T1 = clocks (T\<lparr>tm_time := tm_time T + 1\<rparr>)"
    and p1: "placed (later (tm_time T)) T1" and e1: "\<And>e. later (tm_time T) e \<Longrightarrow> expiring T1 e = expiring T e"
    by blast
  have t1: "tm_time T1 = tm_time T + 1" using clocks_time [OF c1] by simp
  have p1': "placed (\<lambda>e. e = tm_time T1 \<or> later (tm_time T1) e) T1"
    using p1 later_succ unfolding placed_def t1 by blast
  have now: "map event (expiring T1 (tm_time T1)) = spec_due L"
  proof -
    have ok: "delay_ok (int 1)" by (simp add: delay_ok_def INT_MAX_def)
    then have "later (tm_time T) (of_nat 1 + tm_time T)" using later_ex by blast
    then have "expiring T1 (tm_time T1) = expiring T (of_nat 1 + tm_time T)"
      using e1 by (simp add: t1 add.commute)
    moreover have "map event (expiring T (of_nat 1 + tm_time T)) = map snd (filter (\<lambda>x. fst x = 1) L)"
      using assms(1) ok unfolding timer_rel_def by blast
    ultimately show ?thesis by (simp add: spec_due_def)
  qed
  have upd: "timer_update env T = Option.bind (timer_execute env T1) (\<lambda>r. Some (cbind r (\<lambda>(T, out, env). Inr (T, out, env))))"
    by (simp add: timer_update_def timer_execute_idle [OF inv] sh)
  note near = near_now [OF p1]
  show ?thesis
  proof (cases "spec_due L = []")
    case True
    then have "expiring T1 (tm_time T1) = []" using now by simp
    moreover have "wheel_inv T1"
      unfolding wheel_inv_def placed_def
    proof (intro conjI allI ballI)
      fix p n assume n: "n \<in> set (view T1 p)"
      show "p = place (tm_time T1) (expire n)" using placedD [OF p1' n] by simp
      then have "expire n \<noteq> tm_time T1"
        using n calculation by (auto simp: expiring_def filter_empty_conv)
      then show "later (tm_time T1) (expire n)" using placedD [OF p1' n] by simp
    qed (use p1 in \<open>simp add: placed_def\<close>)
    moreover from this have "timer_rel T1 (spec_rest L)"
      using rest_rel [OF assms(1) _ t1] e1 expiring_none [OF p1] by blast
    ultimately show ?thesis using True assms(3) c1 timer_execute_idle [of T1 env]
      unfolding upd by (auto simp: spec_update_def)
  next
    case False
    let ?T2 = "T1\<lparr>tm_near := (tm_near T1)[unat (tm_time T1 AND TIME_NEAR_MASK) := []]\<rparr>"
    have 2: "wheel_inv ?T2" "clocks ?T2 = clocks T1" "\<And>e. e \<noteq> tm_time T1 \<Longrightarrow> expiring ?T2 e = expiring T1 e"
      using clear_now [OF p1'] by blast+
    have "later (tm_time T) (tm_time T1)"
      using later_add [of 1 "tm_time T"] by (simp add: t1 INT_MAX_def add.commute)
    then have "expiring ?T2 e = []" if "\<not> later (tm_time T) e" for e
      using that 2(3) [of e] expiring_none [OF p1 that] by metis
    then have "timer_rel ?T2 (spec_rest L)"
      using 2(3) e1 t1 by (intro rest_rel [OF assms(1) 2(1)]) auto
    from env_adds_rel [OF this env_ok_window [OF assms(2)]] obtain T3 where
      3: "env_adds (window env) ?T2 = Inr T3" "clocks T3 = clocks ?T2" "timer_rel T3 (spec_rest L @ spec_adds (window env))"
      by blast
    then have "timer_execute (tl env) T3 = Some (Inr (T3, [], tl env))"
      using timer_execute_idle by (simp add: timer_rel_def)
    moreover have "expiring T1 (tm_time T1) \<noteq> []" using False now by auto
    ultimately have "timer_execute env T1 = Some (Inr (T3, dispatch_list (expiring T1 (tm_time T1)), tl env))"
      using near 3(1) by (subst timer_execute.simps) (simp add: window_def)
    then show ?thesis using 2 3 c1 False assms(3) now
      unfolding upd by (auto simp: spec_update_def dispatch_list_events simp del: map_map)
  qed
qed

end
