(* ===== verification/Sky_Timer_Spec.thy ===== *)
theory Sky_Timer_Spec
  imports Sky_Wheel
begin

text \<open>
  What the timer promises its clients: runs of timeouts and ticks, as the services and the timer
  thread make them, behave as on the list of waiting events, and an event is dispatched in
  exactly the tick it asked for. The interface is the locale \<open>delay_queue\<close>.
\<close>

section \<open>Runs\<close>

text \<open>A request of a service, or one \<open>timer_update\<close> of the timer thread.\<close>

datatype timer_op = Timeout u32 int int | Update

fun run_timer ::
  "('t \<Rightarrow> u32 \<Rightarrow> int \<Rightarrow> int \<Rightarrow> ('t \<times> push list \<times> int) res) \<Rightarrow> (env \<Rightarrow> 't \<Rightarrow> ('t \<times> push list \<times> env) res option)
   \<Rightarrow> timer_op list \<Rightarrow> env \<Rightarrow> 't \<Rightarrow> ('t \<times> push list list \<times> env) res option" where
  "run_timer request tick [] env T = Some (Inr (T, [], env))"
| "run_timer request tick (Timeout h d s # ops) env T =
     (case request T h d s of
        Inl e \<Rightarrow> Some (Inl e)
      | Inr (T, out, _) \<Rightarrow>
          Option.bind (run_timer request tick ops env T) (\<lambda>r.
          Some (cbind r (\<lambda>(T, outs, env). Inr (T, out # outs, env)))))"
| "run_timer request tick (Update # ops) env T =
     Option.bind (tick env T) (\<lambda>r.
     case r of
       Inl e \<Rightarrow> Some (Inl e)
     | Inr (T, out, env) \<Rightarrow>
         Option.bind (run_timer request tick ops env T) (\<lambda>r.
         Some (cbind r (\<lambda>(T, outs, env). Inr (T, out # outs, env)))))"

fun spec_run :: "(u32 \<Rightarrow> bool) \<Rightarrow> timer_op list \<Rightarrow> env \<Rightarrow> waiting \<Rightarrow> waiting \<times> push list list \<times> env" where
  "spec_run push_ok [] env L = (L, [], env)"
| "spec_run push_ok (Timeout h d s # ops) env L =
     (let out = (if d \<le> 0 \<and> push_ok h then [(h, timeout_message s)] else []);
          L = (if d \<le> 0 then L else L @ [(nat d, \<lparr>te_handle = h, te_session = s\<rparr>)]);
          (L, outs, env) = spec_run push_ok ops env L
      in (L, out # outs, env))"
| "spec_run push_ok (Update # ops) env L =
     (let (L, due, env) = spec_update env L; (L, outs, env) = spec_run push_ok ops env L
      in (L, map push_event due # outs, env))"

fun op_ok :: "timer_op \<Rightarrow> bool" where
  "op_ok (Timeout h d s) = (d \<le> int INT_MAX)"
| "op_ok Update = True"

fun op_event :: "timer_op \<Rightarrow> timer_event option" where
  "op_event (Timeout h d s) = Some \<lparr>te_handle = h, te_session = s\<rparr>"
| "op_event Update = None"

definition ticks :: "timer_op list \<Rightarrow> nat" where
  "ticks ops = length (filter (\<lambda>x. x = Update) ops)"

section \<open>When an event is due, on the specification\<close>

lemma spec_run_length: "spec_run ok ops env L = (L', outs, env') \<Longrightarrow> length outs = length ops"
proof (induction ops arbitrary: env L outs L' env')
  case (Cons a ops)
  then show ?case by (cases a) (auto simp: Let_def split: prod.splits)
qed simp

lemma env_ok_spec_update: "env_ok env \<Longrightarrow> spec_update env L = (L', due, env') \<Longrightarrow> env_ok env'"
  by (auto simp: spec_update_def env_ok_tl split: if_splits)

definition env_events :: "env \<Rightarrow> timer_event set" where
  "env_events env = fst ` \<Union> (set ` set env)"

lemma spec_update_events:
  assumes "spec_update env L = (L', due, env')" "ev \<notin> env_events env"
  shows "ev \<in> set due \<longleftrightarrow> (1, ev) \<in> set L" "(r, ev) \<in> set L' \<longleftrightarrow> (\<exists>q. q \<noteq> 1 \<and> (q, ev) \<in> set L \<and> r = q - 1)"
    "ev \<notin> env_events env'"
proof -
  have w: "(q, ev) \<notin> set (spec_adds (window env))" for q
    using assms(2) by (cases env) (force simp: env_events_def spec_adds_def window_def)+
  show "ev \<in> set due \<longleftrightarrow> (1, ev) \<in> set L"
    using assms(1) by (force simp: spec_update_def spec_due_def filter_empty_conv split: if_splits)
  show "(r, ev) \<in> set L' \<longleftrightarrow> (\<exists>q. q \<noteq> 1 \<and> (q, ev) \<in> set L \<and> r = q - 1)"
    using assms(1) w by (force simp: spec_update_def spec_rest_def split: if_splits)
  show "ev \<notin> env_events env'"
    using assms by (cases env) (force simp: spec_update_def env_events_def split: if_splits)+
qed

lemma push_event_inj: "push_event a = push_event b \<longleftrightarrow> a = b"
  by (cases a, cases b) (auto simp: push_event_def timeout_message_def)

lemma push_event_image: "push_event ev \<in> push_event ` S \<longleftrightarrow> ev \<in> S"
  by (auto simp: push_event_inj)

lemma ticks_Cons: "ticks (a # ops) = (if a = Update then Suc (ticks ops) else ticks ops)"
  by (simp add: ticks_def)

lemma spec_run_dead:
  assumes "spec_run ok ops env L = (L', outs, env')" "ev \<notin> snd ` set L" "Some ev \<notin> op_event ` set ops"
    "ev \<notin> env_events env" "out \<in> set outs"
  shows "push_event ev \<notin> set out"
  using assms
proof (induction ops arbitrary: env L outs L' env')
  case (Cons a ops)
  show ?case
  proof (cases a)
    case (Timeout h d s)
    define L1 where "L1 = (if d \<le> 0 then L else L @ [(nat d, \<lparr>te_handle = h, te_session = s\<rparr>)])"
    obtain L2 outs1 env1 where r: "spec_run ok ops env L1 = (L2, outs1, env1)" by (cases "spec_run ok ops env L1")
    have o: "outs = (if d \<le> 0 \<and> ok h then [push_event \<lparr>te_handle = h, te_session = s\<rparr>] else []) # outs1"
      using Cons.prems(1) r by (auto simp: Timeout L1_def [symmetric] push_event_def)
    have ne: "ev \<noteq> \<lparr>te_handle = h, te_session = s\<rparr>" using Cons.prems(3) Timeout by auto
    then have "ev \<notin> snd ` set L1" using Cons.prems(2) by (auto simp: L1_def)
    with Cons.IH [OF r] Cons.prems ne show ?thesis unfolding o by (auto simp: push_event_inj split: if_splits)
  next
    case Update
    obtain L1 due env1 where u: "spec_update env L = (L1, due, env1)" by (cases "spec_update env L")
    obtain L2 outs1 env2 where r: "spec_run ok ops env1 L1 = (L2, outs1, env2)" by (cases "spec_run ok ops env1 L1")
    have o: "outs = map push_event due # outs1" using Cons.prems(1) u r by (simp add: Update)
    note e = spec_update_events [OF u Cons.prems(4)]
    have "ev \<notin> set due" using e(1) Cons.prems(2) by force
    moreover have "ev \<notin> snd ` set L1" using e(2) Cons.prems(2) by force
    ultimately show ?thesis using Cons.IH [OF r _ _ e(3)] Cons.prems(3,5)
      unfolding o by (auto simp: push_event_image)
  qed
qed simp

lemma spec_run_live:
  assumes "spec_run ok ops env L = (L', outs, env')" "\<forall>q. (q, ev) \<in> set L \<longleftrightarrow> q = r" "0 < r"
    "Some ev \<notin> op_event ` set ops" "ev \<notin> env_events env" "k < length ops"
  shows "push_event ev \<in> set (outs ! k) \<longleftrightarrow> ops ! k = Update \<and> ticks (take (Suc k) ops) = r"
  using assms
proof (induction ops arbitrary: env L outs L' env' r k)
  case (Cons a ops)
  show ?case
  proof (cases a)
    case (Timeout h d s)
    define L1 where "L1 = (if d \<le> 0 then L else L @ [(nat d, \<lparr>te_handle = h, te_session = s\<rparr>)])"
    obtain L2 outs1 env1 where r: "spec_run ok ops env L1 = (L2, outs1, env1)" by (cases "spec_run ok ops env L1")
    have o: "outs = (if d \<le> 0 \<and> ok h then [push_event \<lparr>te_handle = h, te_session = s\<rparr>] else []) # outs1"
      using Cons.prems(1) r by (auto simp: Timeout L1_def [symmetric] push_event_def)
    have ne: "ev \<noteq> \<lparr>te_handle = h, te_session = s\<rparr>" using Cons.prems(4) Timeout by auto
    then have "\<forall>q. (q, ev) \<in> set L1 \<longleftrightarrow> q = r" using Cons.prems(2) by (auto simp: L1_def)
    from Cons.IH [OF r this Cons.prems(3)] Cons.prems(4-6) ne show ?thesis
      unfolding o by (cases k) (auto simp: push_event_inj Timeout ticks_Cons)
  next
    case Update
    obtain L1 due env1 where u: "spec_update env L = (L1, due, env1)" by (cases "spec_update env L")
    obtain L2 outs1 env2 where run: "spec_run ok ops env1 L1 = (L2, outs1, env2)" by (cases "spec_run ok ops env1 L1")
    have o: "outs = map push_event due # outs1" using Cons.prems(1) u run by (simp add: Update)
    note e = spec_update_events [OF u Cons.prems(5)]
    have ev: "Some ev \<notin> op_event ` set ops" using Cons.prems(4) by auto
    show ?thesis
    proof (cases k)
      case 0
      then show ?thesis using e(1) Cons.prems(2) unfolding o
        by (auto simp: Update push_event_image ticks_def)
    next
      case (Suc j)
      then have j: "j < length ops" using Cons.prems(6) by simp
      show ?thesis
      proof (cases "r = 1")
        case True
        then have "ev \<notin> snd ` set L1" using e(2) Cons.prems(2) by force
        then have "push_event ev \<notin> set (outs1 ! j)"
          using spec_run_dead [OF run _ ev e(3)] spec_run_length [OF run] j by simp
        moreover have "ops ! j = Update \<Longrightarrow> ticks (take (Suc j) ops) \<noteq> 0"
          using j by (auto simp: ticks_def take_Suc_conv_app_nth)
        ultimately show ?thesis using True unfolding o Suc by (auto simp: Update ticks_Cons)
      next
        case False
        then have "\<forall>q. (q, ev) \<in> set L1 \<longleftrightarrow> q = r - 1" using e(2) Cons.prems(2) by auto
        from Cons.IH [OF run this _ ev e(3) j] False Cons.prems(3) show ?thesis
          unfolding o Suc by (auto simp: Update ticks_Cons)
      qed
    qed
  qed
qed simp

section \<open>The interface\<close>

locale delay_queue =
  fixes push_ok :: "u32 \<Rightarrow> bool"
    and request :: "'t \<Rightarrow> u32 \<Rightarrow> int \<Rightarrow> int \<Rightarrow> ('t \<times> push list \<times> int) res"
    and tick :: "env \<Rightarrow> 't \<Rightarrow> ('t \<times> push list \<times> env) res option"
    and rel :: "'t \<Rightarrow> waiting \<Rightarrow> bool"
  assumes request_law:
    "rel T L \<Longrightarrow> delay_ok d \<Longrightarrow>
       \<exists>T'. request T h d s = Inr (T', [], s) \<and> rel T' (L @ [(nat d, \<lparr>te_handle = h, te_session = s\<rparr>)])"
  and request_now_law:
    "d \<le> 0 \<Longrightarrow> request T h d s =
       (if push_ok h then Inr (T, [(h, timeout_message s)], s) else Inr (T, [], -1))"
  and tick_law:
    "rel T L \<Longrightarrow> env_ok env \<Longrightarrow> spec_update env L = (L', due, env') \<Longrightarrow>
       \<exists>T'. tick env T = Some (Inr (T', map push_event due, env')) \<and> rel T' L'"
begin

lemma run_refines:
  assumes "rel T L" "env_ok env" "\<forall>a \<in> set ops. op_ok a" "spec_run push_ok ops env L = (L', outs, env')"
  shows "\<exists>T'. run_timer request tick ops env T = Some (Inr (T', outs, env')) \<and> rel T' L'"
  using assms
proof (induction ops arbitrary: T env L outs)
  case (Cons a ops)
  show ?case
  proof (cases a)
    case (Timeout h d s)
    define L1 where "L1 = (if d \<le> 0 then L else L @ [(nat d, \<lparr>te_handle = h, te_session = s\<rparr>)])"
    define out where "out = (if d \<le> 0 \<and> push_ok h then [(h, timeout_message s)] else [])"
    obtain outs1 where run: "spec_run push_ok ops env L1 = (L', outs1, env')" "outs = out # outs1"
      using Cons.prems(4) by (auto simp: Timeout L1_def [symmetric] out_def [symmetric] split: prod.splits)
    have "d \<le> 0 \<or> delay_ok d" using Cons.prems(3) Timeout by (auto simp: delay_ok_def)
    then obtain T1 x where "request T h d s = Inr (T1, out, x)" "rel T1 L1"
      using request_law [OF Cons.prems(1), of d h s] request_now_law [of d T h s] Cons.prems(1)
      by (auto simp: L1_def out_def delay_ok_def split: if_splits)
    with Cons.IH [OF _ Cons.prems(2) _ run(1)] Cons.prems(3) run(2) show ?thesis
      by (fastforce simp: Timeout)
  next
    case Update
    obtain L1 due env1 where u: "spec_update env L = (L1, due, env1)" by (cases "spec_update env L")
    then obtain outs1 where run: "spec_run push_ok ops env1 L1 = (L', outs1, env')" "outs = map push_event due # outs1"
      using Cons.prems(4) by (auto simp: Update split: prod.splits)
    from tick_law [OF Cons.prems(1,2) u] obtain T1 where
      "tick env T = Some (Inr (T1, map push_event due, env1))" "rel T1 L1" by blast
    with Cons.IH [OF _ env_ok_spec_update [OF Cons.prems(2) u] _ run(1)] Cons.prems(3) run(2) show ?thesis
      by (fastforce simp: Update)
  qed
qed simp

lemma fires_in_its_tick:
  fixes h s
  defines "ev \<equiv> \<lparr>te_handle = h, te_session = s\<rparr>"
  assumes "rel T L" "env_ok env" "\<forall>a \<in> set ops. op_ok a" "delay_ok d"
    and fresh: "ev \<notin> snd ` set L" "Some ev \<notin> op_event ` set ops" "ev \<notin> env_events env"
  shows "\<exists>T1 T2 outs env'. request T h d s = Inr (T1, [], s)
    \<and> run_timer request tick ops env T1 = Some (Inr (T2, outs, env')) \<and> length outs = length ops
    \<and> (\<forall>k < length ops. (h, timeout_message s) \<in> set (outs ! k)
          \<longleftrightarrow> ops ! k = Update \<and> ticks (take (Suc k) ops) = nat d)"
proof -
  from request_law [OF assms(2,5), of h s] obtain T1 where
    1: "request T h d s = Inr (T1, [], s)" "rel T1 (L @ [(nat d, ev)])" by (auto simp: ev_def)
  obtain L' outs env' where run: "spec_run push_ok ops env (L @ [(nat d, ev)]) = (L', outs, env')"
    by (cases "spec_run push_ok ops env (L @ [(nat d, ev)])")
  from run_refines [OF 1(2) assms(3,4) run] obtain T2 where
    "run_timer request tick ops env T1 = Some (Inr (T2, outs, env'))" by blast
  moreover have "\<forall>q. (q, ev) \<in> set (L @ [(nat d, ev)]) \<longleftrightarrow> q = nat d" "0 < nat d"
    using fresh(1) assms(5) by (force simp: delay_ok_def)+
  from spec_run_live [OF run this fresh(2,3)] have
    "\<forall>k < length ops. (h, timeout_message s) \<in> set (outs ! k)
       \<longleftrightarrow> ops ! k = Update \<and> ticks (take (Suc k) ops) = nat d"
    by (simp add: ev_def push_event_def)
  ultimately show ?thesis using 1 spec_run_length [OF run] by blast
qed

end

interpretation wheel: delay_queue push_ok "skynet_timeout push_ok" timer_update timer_rel for push_ok
proof
  fix T L d h s assume "timer_rel T L" "delay_ok d"
  then show "\<exists>T'. skynet_timeout push_ok T h d s = Inr (T', [], s)
      \<and> timer_rel T' (L @ [(nat d, \<lparr>te_handle = h, te_session = s\<rparr>)])"
    using timer_add_rel [of T L d "\<lparr>te_handle = h, te_session = s\<rparr>"]
    by (auto simp: skynet_timeout_def delay_ok_def)
next
  fix d T h s assume "d \<le> (0 :: int)"
  then show "skynet_timeout push_ok T h d s =
      (if push_ok h then Inr (T, [(h, timeout_message s)], s) else Inr (T, [], -1))"
    by (simp add: skynet_timeout_def)
next
  fix T L env L' due env' assume "timer_rel T L" "env_ok env" "spec_update env L = (L', due, env')"
  then show "\<exists>T'. timer_update env T = Some (Inr (T', map push_event due, env')) \<and> timer_rel T' L'"
    using timer_update_rel by blast
qed

section \<open>Starting and advancing the clock\<close>

lemma init_view: "view (timer_create_timer\<lparr>tm_starttime := a, tm_current := b, tm_current_point := c\<rparr>) p = []"
  by (cases p) (simp_all add: timer_create_timer_def TIME_NEAR_def TIME_NEAR_SHIFT_def TIME_LEVEL_def TIME_LEVEL_SHIFT_def)

lemma timer_init_rel: "timer_rel (skynet_timer_init realtime monotonic) []"
proof -
  have "shape (timer_create_timer\<lparr>tm_starttime := a, tm_current := b, tm_current_point := c\<rparr>)" for a b c
    by (simp add: shape_def timer_create_timer_def TIME_NEAR_def TIME_NEAR_SHIFT_def TIME_LEVEL_def TIME_LEVEL_SHIFT_def)
  then show ?thesis
    unfolding timer_rel_def wheel_inv_def placed_def skynet_timer_init_def expiring_def
    by (simp add: init_view split: prod.splits)
qed

lemma env_ok_Nil [simp]: "env_ok []"
  by (simp add: env_ok_def)

lemma update_loop_rel:
  assumes "timer_rel T L" "env_ok env" "spec_run push_ok (replicate n Update) env L = (L', outs, env')"
  shows "\<exists>T'. update_loop n env T = Some (Inr (T', concat outs, env')) \<and> timer_rel T' L'
    \<and> clocks T' = clocks (T\<lparr>tm_time := tm_time T + of_nat n\<rparr>)"
  using assms
proof (induction n arbitrary: T env L outs)
  case (Suc n)
  obtain L1 due env1 where u: "spec_update env L = (L1, due, env1)" by (cases "spec_update env L")
  then obtain outs1 where run: "spec_run push_ok (replicate n Update) env1 L1 = (L', outs1, env')" "outs = map push_event due # outs1"
    using Suc.prems(3) by (auto split: prod.splits)
  from timer_update_rel [OF Suc.prems(1,2) u] obtain T1 where
    1: "timer_update env T = Some (Inr (T1, map push_event due, env1))" "clocks T1 = clocks (T\<lparr>tm_time := tm_time T + 1\<rparr>)"
    "timer_rel T1 L1" by blast
  from Suc.IH [OF 1(3) env_ok_spec_update [OF Suc.prems(2) u] run(1)] obtain T2 where
    2: "update_loop n env1 T1 = Some (Inr (T2, concat outs1, env'))" "timer_rel T2 L'"
    "clocks T2 = clocks (T1\<lparr>tm_time := tm_time T1 + of_nat n\<rparr>)" by blast
  have "clocks T2 = clocks (T\<lparr>tm_time := tm_time T + of_nat (Suc n)\<rparr>)"
    using 1(2) 2(3) by (simp add: clocks_def add.assoc)
  then show ?case using 1 2 run(2) by simp
qed (simp add: clocks_def)

lemma clock_fields_rel:
  "timer_rel (T\<lparr>tm_current_point := a, tm_current := b\<rparr>) L = timer_rel T L"
  "timer_rel (T\<lparr>tm_current_point := a\<rparr>) L = timer_rel T L"
proof -
  have "view (T\<lparr>tm_current_point := a, tm_current := b\<rparr>) p = view T p" "view (T\<lparr>tm_current_point := a\<rparr>) p = view T p" for p
    by (cases p; simp)+
  moreover have "shape (T\<lparr>tm_current_point := a, tm_current := b\<rparr>) = shape T" "shape (T\<lparr>tm_current_point := a\<rparr>) = shape T"
    by (simp_all add: shape_def)
  ultimately show "timer_rel (T\<lparr>tm_current_point := a, tm_current := b\<rparr>) L = timer_rel T L"
    "timer_rel (T\<lparr>tm_current_point := a\<rparr>) L = timer_rel T L"
    by (simp_all add: timer_rel_def wheel_inv_def placed_def expiring_def)
qed

section \<open>Properties\<close>

text \<open>
  C7. The timing wheel is a list of waiting events. For any sequence of \<open>skynet_timeout\<close> calls of
  services and ticks of the timer thread, and whatever \<open>timer_add\<close> calls other threads make in the
  windows in which \<open>timer_execute\<close> has dropped the lock, every operation returns (no loop of the
  wheel runs on, no list index or mask is out of range) and dispatches exactly the events the
  specification has due in that tick, in the order they were requested, across every cascade
  between the levels and across the wrap-around of the 32-bit tick counter.
\<close>

theorem timer_refines_waiting_list:
  assumes "timer_rel T L" "env_ok env" "\<forall>a \<in> set ops. op_ok a"
    "spec_run push_ok ops env L = (L', outs, env')"
  shows "\<exists>T'. run_timer (skynet_timeout push_ok) timer_update ops env T = Some (Inr (T', outs, env'))
    \<and> timer_rel T' L'"
  using wheel.run_refines [OF assms] .

theorem timer_refines_waiting_list_witness:
  "\<exists>T'. run_timer (skynet_timeout (\<lambda>_. True)) timer_update
       [Timeout 1 2 7, Timeout 3 1 8, Update, Update] [] (skynet_timer_init (0, 0) (0, 0))
     = Some (Inr (T', [[], [], [(3, timeout_message 8)], [(1, timeout_message 7)]], []))"
  using timer_refines_waiting_list [OF timer_init_rel, of "[]" "[Timeout 1 2 7, Timeout 3 1 8, Update, Update]"
      "\<lambda>_. True" "[]" "[[], [], [(3, timeout_message 8)], [(1, timeout_message 7)]]" "[]" "(0, 0)" "(0, 0)"]
  by (auto simp: INT_MAX_def spec_update_def spec_due_def spec_rest_def spec_adds_def window_def push_event_def)

text \<open>
  C8. A timeout is answered in its tick, once. A service that asks for a timeout of \<open>d > 0\<close> ticks
  gets its session back at once and its response in the \<open>d\<close>-th tick from then on and in no
  other, whatever other timeouts are requested meanwhile by calls and by concurrent threads
  (no other waiting or later timeout has the same handle and session).
\<close>

theorem timeout_fires_in_its_tick:
  assumes "timer_rel T L" "env_ok env" "\<forall>a \<in> set ops. op_ok a" "delay_ok d"
    and "\<lparr>te_handle = h, te_session = s\<rparr> \<notin> snd ` set L"
    and "Some \<lparr>te_handle = h, te_session = s\<rparr> \<notin> op_event ` set ops"
    and "\<lparr>te_handle = h, te_session = s\<rparr> \<notin> env_events env"
  shows "\<exists>T1 T2 outs env'. skynet_timeout push_ok T h d s = Inr (T1, [], s)
    \<and> run_timer (skynet_timeout push_ok) timer_update ops env T1 = Some (Inr (T2, outs, env'))
    \<and> length outs = length ops
    \<and> (\<forall>k < length ops. (h, timeout_message s) \<in> set (outs ! k)
          \<longleftrightarrow> ops ! k = Update \<and> ticks (take (Suc k) ops) = nat d)"
  using wheel.fires_in_its_tick [OF assms] .

theorem timeout_fires_in_its_tick_witness:
  "\<exists>T1 T2 outs env'. skynet_timeout (\<lambda>_. True) (skynet_timer_init (0, 0) (0, 0)) 5 2 9 = Inr (T1, [], 9)
    \<and> run_timer (skynet_timeout (\<lambda>_. True)) timer_update [Update, Update] [] T1 = Some (Inr (T2, outs, env'))
    \<and> (5, timeout_message 9) \<notin> set (outs ! 0) \<and> (5, timeout_message 9) \<in> set (outs ! 1)"
proof -
  have "delay_ok 2" by (simp add: delay_ok_def INT_MAX_def)
  from timeout_fires_in_its_tick [OF timer_init_rel [of "(0, 0)" "(0, 0)"] env_ok_Nil, where ops = "[Update, Update]"
      and d = 2 and h = 5 and s = 9 and push_ok = "\<lambda>_. True"] this
  obtain T1 T2 outs env' where
    "skynet_timeout (\<lambda>_. True) (skynet_timer_init (0, 0) (0, 0)) 5 2 9 = Inr (T1, [], 9)"
    "run_timer (skynet_timeout (\<lambda>_. True)) timer_update [Update, Update] [] T1 = Some (Inr (T2, outs, env'))"
    and k: "\<forall>k < 2. (5, timeout_message 9) \<in> set (outs ! k)
      \<longleftrightarrow> [Update, Update] ! k = Update \<and> ticks (take (Suc k) [Update, Update]) = nat 2"
    by (auto simp: env_events_def)
  with k [rule_format, of 0] k [rule_format, of 1] show ?thesis by (auto simp: ticks_def)
qed

text \<open>
  Catching up with the clock. When the monotonic clock has advanced by \<open>n\<close> centiseconds
  (\<open>n\<close> below \<open>2 ^ 31\<close>), \<open>skynet_updatetime\<close> runs exactly \<open>n\<close> ticks: the tick counter and
  \<open>skynet_now\<close> advance by \<open>n\<close> and the messages dispatched are those of \<open>n\<close> ticks of the
  specification, in order.
\<close>

theorem updatetime_catches_up:
  assumes "timer_rel T L" "env_ok env"
    and "gettime clock \<ge> tm_current_point T"
    and "n = unat (gettime clock - tm_current_point T)" "n \<le> INT_MAX"
    and "spec_run push_ok (replicate n Update) env L = (L', outs, env')"
  shows "\<exists>T'. skynet_updatetime clock env T = Some (Inr (T', concat outs, env')) \<and> timer_rel T' L'
    \<and> tm_time T' = tm_time T + of_nat n \<and> skynet_now T' = skynet_now T + of_nat n
    \<and> tm_current_point T' = gettime clock \<and> skynet_starttime T' = skynet_starttime T"
proof (cases "n = 0")
  case True
  then have "gettime clock = tm_current_point T" using assms(4) by (simp add: unat_eq_zero)
  then show ?thesis using assms True by (simp add: skynet_updatetime_def)
next
  case False
  let ?diff = "ucast (gettime clock - tm_current_point T) :: u32"
  let ?T = "T\<lparr>tm_current_point := gettime clock, tm_current := tm_current T + ucast ?diff\<rparr>"
  have ne: "gettime clock \<noteq> tm_current_point T" "\<not> gettime clock < tm_current_point T"
    using False assms(3,4) by auto
  have d: "unat ?diff = n"
    using assms(4,5) by (simp add: INT_MAX_def unsigned_ucast_eq take_bit_nat_eq_self)
  have "(ucast ?diff :: u64) = of_nat (unat ?diff)" by (simp only: of_nat_unat)
  then have u: "(ucast ?diff :: u64) = of_nat n" by (simp only: d)
  have "timer_rel ?T L" using assms(1) by (simp add: clock_fields_rel)
  from update_loop_rel [OF this assms(2,6)] show ?thesis
    using ne d assms(5) u by (auto simp: skynet_updatetime_def Let_def clocks_def skynet_now_def skynet_starttime_def)
qed

theorem updatetime_catches_up_witness:
  "\<exists>T'. skynet_updatetime (0, 20000000) [] (skynet_timer_init (0, 0) (0, 0)) = Some (Inr (T', [], []))
    \<and> skynet_now T' = 2 \<and> tm_current_point T' = 2"
proof -
  have c: "tm_current_point (skynet_timer_init (0, 0) (0, 0)) = 0" "skynet_now (skynet_timer_init (0, 0) (0, 0)) = 0"
    by (simp_all add: skynet_timer_init_def gettime_def systime_def skynet_now_def)
  have g: "gettime (0, 20000000) = 2" by (simp add: gettime_def)
  have r: "spec_run (\<lambda>_. True) (replicate 2 Update) [] [] = ([], [[], []], [])"
    by (simp add: numeral_2_eq_2 spec_update_def spec_due_def spec_rest_def)
  show ?thesis
    using updatetime_catches_up [OF timer_init_rel env_ok_Nil, of "(0, 0)" "(0, 0)" "(0, 20000000)" 2 "\<lambda>_. True" "[]" "[[], []]" "[]"]
    by (auto simp: c g r INT_MAX_def)
qed

end
