(* ===== verification/Sky_Locks.thy ===== *)
theory Sky_Locks
  imports Main
begin

text \<open>
  Model of \<^verbatim>\<open>skynet-src/rwlock.h\<close> and \<^verbatim>\<open>skynet-src/spinlock.h\<close> (the versions on C11 atomics) at
  the level of their atomic operations. A state is the shared integers and a program counter for
  every thread; a step is one atomic operation of one thread. The other theories treat a critical
  section as one step: the mutual exclusion proved here is what they rely on.

  The atomic operations are sequentially consistent. A weak compare-and-swap may fail for no
  reason. The counter of readers is an integer: it would take \<open>2 ^ 31\<close> threads to overflow it.
\<close>

section \<open>The read-write lock\<close>

datatype rw_pc =
    RW_Idle
  | R_spin     \<comment> \<open>\<open>while (ATOM_LOAD(&lock->write))\<close>\<close>
  | R_inc      \<comment> \<open>\<open>ATOM_FINC(&lock->read)\<close>\<close>
  | R_check    \<comment> \<open>\<open>if (ATOM_LOAD(&lock->write))\<close>\<close>
  | R_back     \<comment> \<open>\<open>ATOM_FDEC(&lock->read)\<close> and again\<close>
  | Reading
  | W_cas      \<comment> \<open>\<open>while (!ATOM_CAS(&lock->write, 0, 1))\<close>\<close>
  | W_drain    \<comment> \<open>\<open>while (ATOM_LOAD(&lock->read))\<close>\<close>
  | Writing

record rwlock =
  rw_write :: int
  rw_read :: int
  rw_at :: "nat \<Rightarrow> rw_pc"

definition rwlock_init :: rwlock where
  "rwlock_init = \<lparr>rw_write = 0, rw_read = 0, rw_at = (\<lambda>_. RW_Idle)\<rparr>"

definition goto :: "nat \<Rightarrow> rw_pc \<Rightarrow> rwlock \<Rightarrow> rwlock" where
  "goto t pc s = s\<lparr>rw_at := (rw_at s)(t := pc)\<rparr>"

inductive rw_step :: "rwlock \<Rightarrow> rwlock \<Rightarrow> bool" where
  rlock: "rw_at s t = RW_Idle \<Longrightarrow> rw_step s (goto t R_spin s)"
| rlock_spin: "rw_at s t = R_spin \<Longrightarrow> rw_step s (goto t (if rw_write s \<noteq> 0 then R_spin else R_inc) s)"
| rlock_inc: "rw_at s t = R_inc \<Longrightarrow> rw_step s (goto t R_check (s\<lparr>rw_read := rw_read s + 1\<rparr>))"
| rlock_check: "rw_at s t = R_check \<Longrightarrow> rw_step s (goto t (if rw_write s \<noteq> 0 then R_back else Reading) s)"
| rlock_back: "rw_at s t = R_back \<Longrightarrow> rw_step s (goto t R_spin (s\<lparr>rw_read := rw_read s - 1\<rparr>))"
| runlock: "rw_at s t = Reading \<Longrightarrow> rw_step s (goto t RW_Idle (s\<lparr>rw_read := rw_read s - 1\<rparr>))"
| wlock: "rw_at s t = RW_Idle \<Longrightarrow> rw_step s (goto t W_cas s)"
| wlock_cas: "rw_at s t = W_cas \<Longrightarrow> rw_write s = 0 \<Longrightarrow> rw_step s (goto t W_drain (s\<lparr>rw_write := 1\<rparr>))"
| wlock_cas_fail: "rw_at s t = W_cas \<Longrightarrow> rw_step s s"
| wlock_drain: "rw_at s t = W_drain \<Longrightarrow> rw_step s (goto t (if rw_read s \<noteq> 0 then W_drain else Writing) s)"
| wunlock: "rw_at s t = Writing \<Longrightarrow> rw_step s (goto t RW_Idle (s\<lparr>rw_write := 0\<rparr>))"

inductive rw_reachable :: "rwlock \<Rightarrow> bool" where
  rw_start: "rw_reachable rwlock_init"
| rw_next: "rw_reachable s \<Longrightarrow> rw_step s s' \<Longrightarrow> rw_reachable s'"

text \<open>The threads whose presence \<open>read\<close> counts, and those that have set \<open>write\<close>.\<close>

definition counted :: "rwlock \<Rightarrow> nat set" where
  "counted s = {t. rw_at s t \<in> {R_check, R_back, Reading}}"

definition owning :: "rwlock \<Rightarrow> nat set" where
  "owning s = {t. rw_at s t \<in> {W_drain, Writing}}"

definition rw_inv :: "rwlock \<Rightarrow> bool" where
  "rw_inv s \<longleftrightarrow> finite (counted s) \<and> rw_read s = int (card (counted s))
     \<and> (if rw_write s = 0 then owning s = {} else \<exists>t. owning s = {t})
     \<and> (\<forall>t t'. rw_at s t = Writing \<longrightarrow> rw_at s t' \<noteq> Reading)"

lemma counted_goto:
  "counted (goto t pc s) = (if pc \<in> {R_check, R_back, Reading} then insert t (counted s) else counted s - {t})"
  "owning (goto t pc s) = (if pc \<in> {W_drain, Writing} then insert t (owning s) else owning s - {t})"
  by (auto simp: counted_def owning_def goto_def)

lemma counted_fields [simp]:
  "counted (s\<lparr>rw_read := n\<rparr>) = counted s" "counted (s\<lparr>rw_write := n\<rparr>) = counted s"
  "owning (s\<lparr>rw_read := n\<rparr>) = owning s" "owning (s\<lparr>rw_write := n\<rparr>) = owning s"
  "rw_read (goto t pc s) = rw_read s" "rw_write (goto t pc s) = rw_write s"
  "rw_at (goto t pc s) = (rw_at s)(t := pc)"
  by (simp_all add: counted_def owning_def goto_def)

lemma in_counted:
  "rw_at s t \<in> {R_check, R_back, Reading} \<Longrightarrow> t \<in> counted s"
  "rw_at s t \<notin> {R_check, R_back, Reading} \<Longrightarrow> t \<notin> counted s"
  "rw_at s t \<in> {W_drain, Writing} \<Longrightarrow> t \<in> owning s"
  "rw_at s t \<notin> {W_drain, Writing} \<Longrightarrow> t \<notin> owning s"
  by (simp_all add: counted_def owning_def)

text \<open>When the count is 0 nobody reads; when \<open>write\<close> is clear nobody writes.\<close>

lemma no_reader: "rw_inv s \<Longrightarrow> rw_read s = 0 \<Longrightarrow> rw_at s t \<noteq> Reading"
  by (auto simp: rw_inv_def counted_def)

lemma no_writer: "rw_inv s \<Longrightarrow> rw_write s = 0 \<Longrightarrow> rw_at s t \<noteq> Writing"
  by (auto simp: rw_inv_def owning_def)

lemma card_pred: "finite A \<Longrightarrow> t \<in> A \<Longrightarrow> int (card A - Suc 0) = int (card A) - 1"
  by (cases "card A") auto

lemma rw_step_inv: "rw_step s s' \<Longrightarrow> rw_inv s \<Longrightarrow> rw_inv s'"
proof (induction rule: rw_step.induct)
  case (rlock_check s t)
  then show ?case using in_counted [of s t] no_writer [OF rlock_check(2)]
    by (auto simp: rw_inv_def counted_goto insert_absorb)
next
  case (wlock_drain s t)
  then show ?case using in_counted [of s t] no_reader [OF wlock_drain(2)]
    by (auto simp: rw_inv_def counted_goto insert_absorb split: if_splits)
next
  case (rlock_back s t)
  then show ?case using in_counted [of s t] card_pred [of "counted s" t]
    by (auto simp: rw_inv_def counted_goto split: if_splits)
next
  case (runlock s t)
  then show ?case using in_counted [of s t] card_pred [of "counted s" t]
    by (auto simp: rw_inv_def counted_goto split: if_splits)
next
  case (wunlock s t)
  then show ?case using in_counted(3) [of s t] in_counted(2) [of s t]
    by (auto simp: rw_inv_def counted_goto split: if_splits)
qed (use in_counted in \<open>auto simp: rw_inv_def counted_goto split: if_splits\<close>)

lemma rw_reachable_inv: "rw_reachable s \<Longrightarrow> rw_inv s"
proof (induction rule: rw_reachable.induct)
  case rw_start
  show ?case by (simp add: rw_inv_def rwlock_init_def counted_def owning_def)
qed (rule rw_step_inv)

section \<open>The spin lock\<close>

datatype spin_pc =
    S_Idle
  | S_set      \<comment> \<open>\<open>atomic_test_and_set_\<close> of \<open>spinlock_lock\<close>\<close>
  | S_spin     \<comment> \<open>\<open>while (atomic_load_relaxed_(&lock->lock))\<close>\<close>
  | S_try      \<comment> \<open>the load of \<open>spinlock_trylock\<close>\<close>
  | S_try_set  \<comment> \<open>its \<open>atomic_test_and_set_\<close>\<close>
  | S_Holding

record spinlock =
  sp_lock :: int
  sp_at :: "nat \<Rightarrow> spin_pc"

definition spinlock_init :: spinlock where
  "spinlock_init = \<lparr>sp_lock = 0, sp_at = (\<lambda>_. S_Idle)\<rparr>"

definition sgoto :: "nat \<Rightarrow> spin_pc \<Rightarrow> spinlock \<Rightarrow> spinlock" where
  "sgoto t pc s = s\<lparr>sp_at := (sp_at s)(t := pc)\<rparr>"

inductive spin_step :: "spinlock \<Rightarrow> spinlock \<Rightarrow> bool" where
  lock: "sp_at s t = S_Idle \<Longrightarrow> spin_step s (sgoto t S_set s)"
| lock_set: "sp_at s t = S_set \<Longrightarrow>
    spin_step s (sgoto t (if sp_lock s = 0 then S_Holding else S_spin) (s\<lparr>sp_lock := 1\<rparr>))"
| lock_spin: "sp_at s t = S_spin \<Longrightarrow> spin_step s (sgoto t (if sp_lock s \<noteq> 0 then S_spin else S_set) s)"
| trylock: "sp_at s t = S_Idle \<Longrightarrow> spin_step s (sgoto t S_try s)"
| trylock_load: "sp_at s t = S_try \<Longrightarrow> spin_step s (sgoto t (if sp_lock s \<noteq> 0 then S_Idle else S_try_set) s)"
| trylock_set: "sp_at s t = S_try_set \<Longrightarrow>
    spin_step s (sgoto t (if sp_lock s = 0 then S_Holding else S_Idle) (s\<lparr>sp_lock := 1\<rparr>))"
| unlock: "sp_at s t = S_Holding \<Longrightarrow> spin_step s (sgoto t S_Idle (s\<lparr>sp_lock := 0\<rparr>))"

inductive spin_reachable :: "spinlock \<Rightarrow> bool" where
  spin_start: "spin_reachable spinlock_init"
| spin_next: "spin_reachable s \<Longrightarrow> spin_step s s' \<Longrightarrow> spin_reachable s'"

definition spin_inv :: "spinlock \<Rightarrow> bool" where
  "spin_inv s \<longleftrightarrow> (if sp_lock s = 0 then \<forall>t. sp_at s t \<noteq> S_Holding
      else \<exists>t. \<forall>t'. sp_at s t' = S_Holding \<longleftrightarrow> t' = t)"

lemma spin_step_inv: "spin_step s s' \<Longrightarrow> spin_inv s \<Longrightarrow> spin_inv s'"
  by (induction rule: spin_step.induct)
     (auto simp: spin_inv_def sgoto_def split: if_splits, (metis spin_pc.distinct)+)

lemma spin_reachable_inv: "spin_reachable s \<Longrightarrow> spin_inv s"
proof (induction rule: spin_reachable.induct)
  case spin_start
  show ?case by (simp add: spin_inv_def spinlock_init_def)
qed (rule spin_step_inv)

section \<open>Properties\<close>

text \<open>A state with one writer and one waiting reader, for the witnesses.\<close>

lemma demo_writer: "rw_reachable \<lparr>rw_write = 1, rw_read = 0, rw_at = (\<lambda>_. RW_Idle)(1 := Writing)\<rparr>"
proof -
  have "rw_reachable (goto 1 W_cas rwlock_init)"
    by (rule rw_next [OF rw_start wlock]) (simp add: rwlock_init_def)
  then have "rw_reachable (goto 1 W_drain ((goto 1 W_cas rwlock_init)\<lparr>rw_write := 1\<rparr>))"
    by (rule rw_next [OF _ wlock_cas]) (simp_all add: rwlock_init_def)
  from rw_next [OF this wlock_drain [of _ 1]] show ?thesis
    by (simp add: rwlock_init_def goto_def)
qed

lemma demo_holder: "spin_reachable \<lparr>sp_lock = 1, sp_at = (\<lambda>_. S_Idle)(1 := S_Holding)\<rparr>"
proof -
  have "spin_reachable (sgoto 1 S_set spinlock_init)"
    by (rule spin_next [OF spin_start lock]) (simp add: spinlock_init_def)
  from spin_next [OF this lock_set [of _ 1]] show ?thesis
    by (simp add: spinlock_init_def sgoto_def)
qed

text \<open>
  C9. The read-write lock excludes. In every interleaving of the atomic operations of any number
  of threads, while a thread has the lock for writing no other thread has it for reading or for
  writing, although a reader announces itself before it looks at the writer's flag again.
\<close>

theorem rwlock_excludes:
  assumes "rw_reachable s" "rw_at s t = Writing" "t' \<noteq> t"
  shows "rw_at s t' \<noteq> Writing \<and> rw_at s t' \<noteq> Reading"
proof -
  have inv: "rw_inv s" using rw_reachable_inv [OF assms(1)] .
  have "t \<in> owning s" using assms(2) by (simp add: owning_def)
  then have "owning s = {t}" using inv unfolding rw_inv_def by (auto split: if_splits)
  then have "t' \<notin> owning s" using assms(3) by simp
  then show ?thesis using inv assms(2) unfolding rw_inv_def owning_def by auto
qed

theorem rwlock_excludes_witness:
  "rw_at \<lparr>rw_write = 1, rw_read = 0, rw_at = (\<lambda>_. RW_Idle)(1 := Writing)\<rparr> 2 \<noteq> Reading"
  using rwlock_excludes [OF demo_writer, of 1 2] by simp

text \<open>
  The spin lock excludes. In every interleaving of the atomic operations of \<open>spinlock_lock\<close>,
  \<open>spinlock_trylock\<close> and \<open>spinlock_unlock\<close> at most one thread holds the lock.
\<close>

theorem spinlock_excludes:
  assumes "spin_reachable s" "sp_at s t = S_Holding" "sp_at s t' = S_Holding"
  shows "t' = t"
  using spin_reachable_inv [OF assms(1)] assms(2,3) unfolding spin_inv_def by (auto split: if_splits)

theorem spinlock_excludes_witness:
  "sp_at \<lparr>sp_lock = 1, sp_at = (\<lambda>_. S_Idle)(1 := S_Holding)\<rparr> 2 \<noteq> S_Holding"
  using spinlock_excludes [OF demo_holder, of 1 2] by auto

end
