(* ===== verification/Sky_CString.thy ===== *)
theory Sky_CString
  imports Sky_Prelude
begin

text \<open>
  The C library's string functions the sources call, on character lists. A buffer is a list of
  characters in which \<open>NUL\<close> ends a string; a pointer into it is an index.
\<close>

definition NUL :: char where "NUL = CHR 0x00"

definition cstr :: "string \<Rightarrow> nat \<Rightarrow> string" where
  "cstr buf p = takeWhile (\<lambda>c. c \<noteq> NUL) (drop p buf)"

definition isspace :: "char \<Rightarrow> bool" where
  "isspace c \<longleftrightarrow> c \<in> set [CHR '' '', CHR 0x09, CHR 0x0A, CHR 0x0B, CHR 0x0C, CHR 0x0D]"

definition digit_val :: "char \<Rightarrow> nat" where
  "digit_val c =
     (let n = of_char c :: nat in
      if 48 \<le> n \<and> n \<le> 57 then n - 48
      else if 97 \<le> n \<and> n \<le> 102 then n - 87
      else if 65 \<le> n \<and> n \<le> 70 then n - 55
      else 99)"

definition digits_val :: "nat \<Rightarrow> string \<Rightarrow> nat" where
  "digits_val base s = foldl (\<lambda>v c. v * base + digit_val c) 0 s"

definition leading_digits :: "nat \<Rightarrow> string \<Rightarrow> string" where
  "leading_digits base s = takeWhile (\<lambda>c. digit_val c < base) s"

text \<open>White space and a sign, as \<open>strtol\<close> and \<open>strtoul\<close> skip them.\<close>

definition skip_sign :: "string \<Rightarrow> bool \<times> string" where
  "skip_sign s =
     (case dropWhile isspace s of
        [] \<Rightarrow> (False, [])
      | c # cs \<Rightarrow> if c = CHR ''-'' then (True, cs) else if c = CHR ''+'' then (False, cs) else (False, c # cs))"

text \<open>\<open>strtol(s, NULL, 10)\<close>, clamped to a 64-bit \<open>long\<close>, and its conversion to \<open>int\<close>.\<close>

definition strtol10 :: "string \<Rightarrow> int" where
  "strtol10 s =
     (let (neg, s) = skip_sign s; v = int (digits_val 10 (leading_digits 10 s)) in
      if neg then max (- v) (- (2 ^ 63)) else min v (2 ^ 63 - 1))"

definition to_int :: "int \<Rightarrow> int" where
  "to_int v = sint (word_of_int v :: u32)"

text \<open>\<open>strtoul(s, NULL, 16)\<close> on a 64-bit \<open>unsigned long\<close>.\<close>

definition skip_0x :: "string \<Rightarrow> string" where
  "skip_0x s =
     (case s of
        a # b # c # cs \<Rightarrow>
          if a = CHR ''0'' \<and> (b = CHR ''x'' \<or> b = CHR ''X'') \<and> digit_val c < 16 then c # cs else s
      | _ \<Rightarrow> s)"

definition strtoul16 :: "string \<Rightarrow> u64" where
  "strtoul16 s =
     (let (neg, s) = skip_sign s; v = digits_val 16 (leading_digits 16 (skip_0x s)) in
      if v \<ge> 2 ^ 64 then -1 else if neg then - of_nat v else of_nat v)"

text \<open>
  \<open>strsep(&p, " ")\<close>: the first separator from \<open>p\<close> on is overwritten by \<open>NUL\<close>; the token starts at
  \<open>p\<close> and the second result is the new \<open>p\<close>, none when there was no separator.
\<close>

definition strsep :: "string \<Rightarrow> nat \<Rightarrow> string \<times> nat option" where
  "strsep buf p =
     (let e = p + length (takeWhile (\<lambda>c. c \<noteq> NUL \<and> c \<noteq> CHR '' '') (drop p buf)) in
      if e < length buf \<and> buf ! e = CHR '' '' then (buf[e := NUL], Some (e + 1)) else (buf, None))"

text \<open>\<open>memcmp(buf, literal, n) == 0\<close>; past the end of the literal nothing is equal.\<close>

definition memcmp_eq :: "string \<Rightarrow> string \<Rightarrow> nat \<Rightarrow> bool" where
  "memcmp_eq buf lit n \<longleftrightarrow> n \<le> length lit + 1 \<and> take n buf = take n (lit @ [NUL])"

text \<open>The conversions \<open>%d\<close> and \<open>%x\<close> of \<open>printf\<close>.\<close>

definition digit_char :: "nat \<Rightarrow> char" where
  "digit_char d = (if d < 10 then char_of (48 + d) else char_of (87 + d))"

function nat_digits :: "nat \<Rightarrow> nat \<Rightarrow> string" where
  "nat_digits base n =
     (if n < base \<or> base < 2 then [digit_char n] else nat_digits base (n div base) @ [digit_char (n mod base)])"
  by pat_completeness auto
termination
  by (relation "measure snd") auto

declare nat_digits.simps [simp del]

lemma length_nat_digits: "2 \<le> base \<Longrightarrow> n < base ^ Suc k \<Longrightarrow> length (nat_digits base n) \<le> Suc k"
proof (induction k arbitrary: n)
  case (Suc k)
  have "n div base < base ^ Suc k"
    using Suc.prems by (simp add: less_mult_imp_div_less mult.commute)
  then show ?case
    using Suc by (subst nat_digits.simps) auto
qed (simp add: nat_digits.simps)

definition int_str :: "int \<Rightarrow> string" where
  "int_str n = (if n < 0 then CHR ''-'' # nat_digits 10 (nat (- n)) else nat_digits 10 (nat n))"

definition hex_str :: "u32 \<Rightarrow> string" where
  "hex_str n = nat_digits 16 (unat n)"

lemma length_hex_str: "length (hex_str h) \<le> 8"
  using length_nat_digits [of 16 "unat h" 7] unsigned_less [of h, where ?'a = nat] by (simp add: hex_str_def)

definition str_bytes :: "string \<Rightarrow> u8 list" where
  "str_bytes s = map (\<lambda>c. of_nat (of_char c)) s"

definition bytes_str :: "u8 list \<Rightarrow> string" where
  "bytes_str bs = map (\<lambda>b. char_of (unat b)) bs"

lemma bytes_str_inverse: "bytes_str (str_bytes s) = s"
proof -
  have "unat (of_nat (of_char c) :: u8) = (of_char c :: nat)" for c
    using of_char_mod_256 [of c] by (simp add: unsigned_of_nat take_bit_eq_mod)
  then show ?thesis by (simp add: bytes_str_def str_bytes_def map_idI)
qed

lemma digit_val_char: "d < 16 \<Longrightarrow> digit_val (digit_char d) = d"
  by (simp add: digit_val_def digit_char_def Let_def of_char_of)

lemma digit_val_mod: "2 \<le> base \<Longrightarrow> base \<le> 16 \<Longrightarrow> digit_val (digit_char (n mod base)) = n mod base"
  by (rule digit_val_char, rule less_le_trans [of _ base]) simp_all

lemma digits_val_snoc: "digits_val base (s @ [c]) = digits_val base s * base + digit_val c"
  by (simp add: digits_val_def)

text \<open>Printing a number and reading it back.\<close>

lemma nat_digits_val: "2 \<le> base \<Longrightarrow> base \<le> 16 \<Longrightarrow> digits_val base (nat_digits base n) = n"
proof (induction base n rule: nat_digits.induct)
  case (1 base n)
  show ?case
  proof (cases "n < base")
    case True
    then show ?thesis using 1 by (subst nat_digits.simps) (simp add: digits_val_def digit_val_char)
  next
    case False
    then show ?thesis using 1 by (subst nat_digits.simps) (simp add: digits_val_snoc digit_val_mod)
  qed
qed

lemma nat_digits_digits: "2 \<le> base \<Longrightarrow> base \<le> 16 \<Longrightarrow> c \<in> set (nat_digits base n) \<Longrightarrow> digit_val c < base"
proof (induction base n rule: nat_digits.induct)
  case (1 base n)
  then show ?case
    by (subst (asm) nat_digits.simps) (auto simp: digit_val_char digit_val_mod split: if_splits)
qed

end
