(* ===== verification/Sky_Service.thy ===== *)
theory Sky_Service
  imports Sky_MQ Sky_CString
begin

text \<open>
  What a C service does to the rest of the node: the calls of \<^verbatim>\<open>skynet.h\<close> and
  \<^verbatim>\<open>skynet_socket.h\<close> it makes, in order, as the values of \<open>svc_out\<close>. The functions of a service
  return their new state and these calls. Answers the service waits for (the handle of a name, the
  id of a listening socket) are parameters of the functions that ask.
\<close>

definition PTYPE_TAG_DONTCOPY :: int where "PTYPE_TAG_DONTCOPY = 0x10000"

definition SKYNET_SOCKET_TYPE_DATA :: int where "SKYNET_SOCKET_TYPE_DATA = 1"
definition SKYNET_SOCKET_TYPE_CONNECT :: int where "SKYNET_SOCKET_TYPE_CONNECT = 2"
definition SKYNET_SOCKET_TYPE_CLOSE :: int where "SKYNET_SOCKET_TYPE_CLOSE = 3"
definition SKYNET_SOCKET_TYPE_ACCEPT :: int where "SKYNET_SOCKET_TYPE_ACCEPT = 4"
definition SKYNET_SOCKET_TYPE_ERROR :: int where "SKYNET_SOCKET_TYPE_ERROR = 5"
definition SKYNET_SOCKET_TYPE_WARNING :: int where "SKYNET_SOCKET_TYPE_WARNING = 7"

definition SOCKET_DATA :: int where "SOCKET_DATA = 0"
definition SOCKET_CLOSE :: int where "SOCKET_CLOSE = 1"
definition SOCKET_OPEN :: int where "SOCKET_OPEN = 2"
definition SOCKET_ACCEPT :: int where "SOCKET_ACCEPT = 3"
definition SOCKET_ERR :: int where "SOCKET_ERR = 4"
definition SOCKET_EXIT :: int where "SOCKET_EXIT = 5"
definition SOCKET_UDP :: int where "SOCKET_UDP = 6"
definition SOCKET_WARNING :: int where "SOCKET_WARNING = 7"
definition SKYNET_SOCKET_TYPE_UDP :: int where "SKYNET_SOCKET_TYPE_UDP = 6"

text \<open>Only for internal use of the socket server.\<close>

definition SOCKET_RST :: int where "SOCKET_RST = 8"
definition SOCKET_MORE :: int where "SOCKET_MORE = 9"

lemmas socket_events = SOCKET_DATA_def SOCKET_CLOSE_def SOCKET_OPEN_def SOCKET_ACCEPT_def SOCKET_ERR_def SOCKET_EXIT_def
  SOCKET_UDP_def SOCKET_WARNING_def SOCKET_RST_def SOCKET_MORE_def

lemmas socket_types = SKYNET_SOCKET_TYPE_DATA_def SKYNET_SOCKET_TYPE_CONNECT_def SKYNET_SOCKET_TYPE_CLOSE_def
  SKYNET_SOCKET_TYPE_ACCEPT_def SKYNET_SOCKET_TYPE_ERROR_def SKYNET_SOCKET_TYPE_WARNING_def

text \<open>A message of the socket thread; \<open>ss_tail\<close> are the bytes that follow the structure.\<close>

record socket_message =
  ss_type :: int
  ss_id :: int
  ss_ud :: int
  ss_buffer :: "u8 list"
  ss_tail :: "u8 list"

datatype svc_out =
    Send u32 u32 int int "u8 list"   \<comment> \<open>\<open>skynet_send(ctx, source, destination, type, session, msg)\<close>\<close>
  | SocketListen string int
  | SocketStart int
  | SocketClose int
  | SocketSend int "u8 list"
  | LogError string                  \<comment> \<open>\<open>skynet_error\<close>\<close>
  | SetCallback
  | Command string string            \<comment> \<open>\<open>skynet_command(ctx, cmd, parm)\<close>\<close>

end
