(* ===== verification/Sky_Hashid.thy ===== *)
theory Sky_Hashid
  imports Sky_Prelude
begin

text \<open>
  Model of \<^verbatim>\<open>service-src/hashid.h\<close>: the map from socket ids to the slots of a fixed array of
  connections that the gate uses. The nodes live in an array, a node of the array being its index;
  each of the hash buckets is a chain of nodes through their \<open>next\<close> field. The id \<open>-1\<close> marks a
  free node.

  A chain of nodes in an array of length \<open>n\<close> either ends within \<open>n\<close> nodes or is a cycle: the walks
  along a chain take \<open>n\<close> steps at most and \<open>Diverges\<close> is the value of a walk that goes on.
\<close>

section \<open>Data and operations\<close>

record hashid_node =
  hid :: int
  hnext :: "nat option"

record hashid =
  hi_hashmod :: nat
  hi_cap :: nat
  hi_count :: nat
  hi_id :: "hashid_node list"
  hi_hash :: "nat option list"

text \<open>The doubling loop of \<open>hashid_init\<close>.\<close>

function hash_capacity :: "nat \<Rightarrow> nat \<Rightarrow> nat res" where
  "hash_capacity hashcap mx =
     (if hashcap < mx then
        if hashcap = 0 then Inl Diverges
        else if hashcap * 2 > INT_MAX then Inl IntOverflow
        else hash_capacity (hashcap * 2) mx
      else Inr hashcap)"
  by pat_completeness auto
termination
  by (relation "measure (\<lambda>(hashcap, mx). mx - hashcap)") auto

declare hash_capacity.simps [simp del]

definition hashid_init :: "nat \<Rightarrow> hashid res" where
  "hashid_init mx =
     cbind (hash_capacity 16 mx) (\<lambda>hashcap.
     Inr \<lparr>hi_hashmod = hashcap - 1, hi_cap = mx, hi_count = 0,
          hi_id = replicate mx \<lparr>hid = -1, hnext = None\<rparr>,
          hi_hash = replicate hashcap None\<rparr>)"

definition hashid_clear :: "hashid \<Rightarrow> hashid" where
  "hashid_clear hi = hi\<lparr>hi_id := [], hi_hash := [], hi_hashmod := 1, hi_cap := 0, hi_count := 0\<rparr>"

definition hash_index :: "hashid \<Rightarrow> int \<Rightarrow> nat" where
  "hash_index hi fd = nat (fd AND int (hi_hashmod hi))"

definition bucket :: "hashid \<Rightarrow> nat \<Rightarrow> nat option res" where
  "bucket hi h = (if h < length (hi_hash hi) then Inr (hi_hash hi ! h) else Inl OutOfBounds)"

definition node_at :: "hashid_node list \<Rightarrow> nat \<Rightarrow> hashid_node res" where
  "node_at ns i = (if i < length ns then Inr (ns ! i) else Inl OutOfBounds)"

fun lookup_loop :: "hashid_node list \<Rightarrow> nat \<Rightarrow> nat option \<Rightarrow> int \<Rightarrow> int res" where
  "lookup_loop ns fuel None fd = Inr (-1)"
| "lookup_loop ns 0 (Some c) fd = Inl Diverges"
| "lookup_loop ns (Suc fuel) (Some c) fd =
     cbind (node_at ns c) (\<lambda>n.
     if hid n = fd then Inr (int c) else lookup_loop ns fuel (hnext n) fd)"

definition hashid_lookup :: "hashid \<Rightarrow> int \<Rightarrow> int res" where
  "hashid_lookup hi fd =
     cbind (bucket hi (hash_index hi fd)) (\<lambda>c. lookup_loop (hi_id hi) (length (hi_id hi)) c fd)"

text \<open>The label \<open>_clear\<close> of \<open>hashid_remove\<close>: the node \<open>c\<close> is free again.\<close>

definition clear_node :: "hashid \<Rightarrow> nat \<Rightarrow> hashid \<times> int" where
  "clear_node hi c =
     (hi\<lparr>hi_id := (hi_id hi)[c := \<lparr>hid = -1, hnext = None\<rparr>], hi_count := hi_count hi - 1\<rparr>, int c)"

fun remove_loop :: "hashid \<Rightarrow> nat \<Rightarrow> nat \<Rightarrow> int \<Rightarrow> (hashid \<times> int) res" where
  "remove_loop hi 0 c fd = Inl Diverges"
| "remove_loop hi (Suc fuel) c fd =
     cbind (node_at (hi_id hi) c) (\<lambda>n.
     case hnext n of
       None \<Rightarrow> Inr (hi, -1)
     | Some temp \<Rightarrow>
         cbind (node_at (hi_id hi) temp) (\<lambda>nt.
         if hid nt = fd then
           Inr (clear_node (hi\<lparr>hi_id := (hi_id hi)[c := n\<lparr>hnext := hnext nt\<rparr>]\<rparr>) temp)
         else remove_loop hi fuel temp fd))"

definition hashid_remove :: "hashid \<Rightarrow> int \<Rightarrow> (hashid \<times> int) res" where
  "hashid_remove hi fd =
     (let h = hash_index hi fd in
      cbind (bucket hi h) (\<lambda>b.
      case b of
        None \<Rightarrow> Inr (hi, -1)
      | Some c \<Rightarrow>
          cbind (node_at (hi_id hi) c) (\<lambda>n.
          if hid n = fd then
            Inr (clear_node (hi\<lparr>hi_hash := (hi_hash hi)[h := hnext n]\<rparr>) c)
          else remove_loop hi (length (hi_id hi)) c fd)))"

text \<open>The search for a free node: \<open>k\<close> more to try from offset \<open>i\<close> on. \<open>i + id\<close> is an \<open>int\<close>.\<close>

fun free_scan :: "hashid \<Rightarrow> int \<Rightarrow> nat \<Rightarrow> nat \<Rightarrow> nat option res" where
  "free_scan hi fd i 0 = Inr None"
| "free_scan hi fd i (Suc k) =
     (if int i + fd > int INT_MAX then Inl IntOverflow
      else
        let index = c_rem (int i + fd) (int (hi_cap hi)) in
        if index < 0 then Inl OutOfBounds
        else
          cbind (node_at (hi_id hi) (nat index)) (\<lambda>n.
          if hid n = -1 then Inr (Some (nat index)) else free_scan hi fd (Suc i) k))"

definition hashid_insert :: "hashid \<Rightarrow> int \<Rightarrow> (hashid \<times> nat) res" where
  "hashid_insert hi fd =
     cbind (free_scan hi fd 0 (hi_cap hi)) (\<lambda>r.
     case r of
       None \<Rightarrow> Inl AssertFail
     | Some c \<Rightarrow>
         cbind (c_assert (hnext (hi_id hi ! c) = None)) (\<lambda>_.
         let h = hash_index hi fd in
         cbind (bucket hi h) (\<lambda>b.
         Inr (hi\<lparr>hi_count := hi_count hi + 1, hi_id := (hi_id hi)[c := \<lparr>hid = fd, hnext = b\<rparr>],
                 hi_hash := (hi_hash hi)[h := Some c]\<rparr>, c))))"

definition hashid_full :: "hashid \<Rightarrow> bool" where
  "hashid_full hi \<longleftrightarrow> hi_count hi = hi_cap hi"

section \<open>Chains\<close>

fun chain :: "hashid_node list \<Rightarrow> nat option \<Rightarrow> nat list \<Rightarrow> bool" where
  "chain ns p [] = (p = None)"
| "chain ns p (x # xs) = (p = Some x \<and> x < length ns \<and> chain ns (hnext (ns ! x)) xs)"

lemma chain_in: "chain ns p xs \<Longrightarrow> x \<in> set xs \<Longrightarrow> x < length ns"
  by (induction xs arbitrary: p) auto

lemma chain_other: "chain ns p xs \<Longrightarrow> c \<notin> set xs \<Longrightarrow> chain (ns[c := n]) p xs"
  by (induction xs arbitrary: p) auto

lemma chain_nextD: "chain ns p (xs @ x # ys) \<Longrightarrow> x < length ns \<and> chain ns (hnext (ns ! x)) ys"
  by (induction xs arbitrary: p) auto

lemma chain_unlink:
  "chain ns p (xs @ x # y # ys) \<Longrightarrow> distinct (xs @ x # y # ys) \<Longrightarrow>
   chain (ns[x := (ns ! x)\<lparr>hnext := hnext (ns ! y)\<rparr>]) p (xs @ x # ys)"
  by (induction xs arbitrary: p) (auto intro: chain_other)

lemma distinct_chain_length:
  assumes "chain ns p xs" "distinct xs" shows "length xs \<le> length ns"
proof -
  have "set xs \<subseteq> {..<length ns}" using chain_in [OF assms(1)] by auto
  then have "card (set xs) \<le> length ns" using card_mono [of "{..<length ns}"] by auto
  then show ?thesis using distinct_card [OF assms(2)] by simp
qed

lemma lookup_loop_ok:
  assumes "chain ns p xs" "length xs \<le> fuel"
  shows "lookup_loop ns fuel p fd =
    Inr (case find (\<lambda>i. hid (ns ! i) = fd) xs of None \<Rightarrow> -1 | Some i \<Rightarrow> int i)"
  using assms
proof (induction xs arbitrary: p fuel)
  case (Cons x xs)
  then obtain f where "fuel = Suc f" by (cases fuel) auto
  with Cons show ?case by (auto simp: node_at_def)
qed simp

lemma remove_loop_ok:
  assumes "chain (hi_id hi) p (xs @ c # ys)" "length (c # ys) \<le> fuel"
  shows "remove_loop hi fuel c fd =
    (case find (\<lambda>i. hid (hi_id hi ! i) = fd) ys of
       None \<Rightarrow> Inr (hi, -1)
     | Some i \<Rightarrow>
        let prev = last (c # takeWhile (\<lambda>j. j \<noteq> i) ys) in
        Inr (clear_node (hi\<lparr>hi_id := (hi_id hi)[prev := (hi_id hi ! prev)\<lparr>hnext := hnext (hi_id hi ! i)\<rparr>]\<rparr>) i))"
  using assms
proof (induction ys arbitrary: xs c fuel)
  case Nil
  then obtain f where "fuel = Suc f" by (cases fuel) auto
  with chain_nextD [OF Nil(1)] show ?case by (simp add: node_at_def)
next
  case (Cons y ys)
  then obtain f where f: "fuel = Suc f" by (cases fuel) auto
  have c: "c < length (hi_id hi)" "hnext (hi_id hi ! c) = Some y" "y < length (hi_id hi)"
    using chain_nextD [OF Cons.prems(1)] by auto
  have IH: "hid (hi_id hi ! y) \<noteq> fd \<Longrightarrow> remove_loop hi f y fd =
      (case find (\<lambda>i. hid (hi_id hi ! i) = fd) ys of
         None \<Rightarrow> Inr (hi, -1)
       | Some i \<Rightarrow>
          let prev = last (y # takeWhile (\<lambda>j. j \<noteq> i) ys) in
          Inr (clear_node (hi\<lparr>hi_id := (hi_id hi)[prev := (hi_id hi ! prev)\<lparr>hnext := hnext (hi_id hi ! i)\<rparr>]\<rparr>) i))"
    using Cons.IH [of "xs @ [c]" y f] Cons.prems f by simp
  show ?case
  proof (cases "hid (hi_id hi ! y) = fd")
    case True
    then show ?thesis using c f by (simp add: node_at_def)
  next
    case False
    have "find (\<lambda>i. hid (hi_id hi ! i) = fd) ys = Some i \<Longrightarrow> i \<noteq> y" for i
      using False by (auto simp: find_Some_iff)
    then show ?thesis using IH [OF False] c f False
      by (auto simp: node_at_def split: option.splits)
  qed
qed

section \<open>The invariant\<close>

definition used :: "hashid \<Rightarrow> nat set" where
  "used hi = {i. i < hi_cap hi \<and> hid (hi_id hi ! i) \<noteq> -1}"

text \<open>\<open>ch h\<close> are the nodes of bucket \<open>h\<close>.\<close>

definition hashid_chains :: "hashid \<Rightarrow> (nat \<Rightarrow> nat list) \<Rightarrow> bool" where
  "hashid_chains hi ch \<longleftrightarrow>
     (\<forall>h < length (hi_hash hi). chain (hi_id hi) (hi_hash hi ! h) (ch h) \<and> distinct (ch h)
        \<and> (\<forall>i \<in> set (ch h). 0 \<le> hid (hi_id hi ! i) \<and> hash_index hi (hid (hi_id hi ! i)) = h))
     \<and> (\<forall>i < hi_cap hi. hid (hi_id hi ! i) \<noteq> -1 \<longrightarrow> i \<in> set (ch (hash_index hi (hid (hi_id hi ! i)))))"

definition hashid_nodes :: "hashid \<Rightarrow> bool" where
  "hashid_nodes hi \<longleftrightarrow> length (hi_id hi) = hi_cap hi \<and> hi_count hi = card (used hi)
     \<and> (\<exists>k. hi_hashmod hi + 1 = 2 ^ k) \<and> length (hi_hash hi) = hi_hashmod hi + 1
     \<and> (\<forall>i < hi_cap hi. hid (hi_id hi ! i) = -1 \<longrightarrow> hnext (hi_id hi ! i) = None)
     \<and> (\<forall>i < hi_cap hi. \<forall>j < hi_cap hi. hid (hi_id hi ! i) = hid (hi_id hi ! j) \<longrightarrow> hid (hi_id hi ! i) \<noteq> -1 \<longrightarrow> i = j)"

definition hashid_wf :: "hashid \<Rightarrow> bool" where
  "hashid_wf hi \<longleftrightarrow> hashid_nodes hi \<and> (\<exists>ch. hashid_chains hi ch)"

text \<open>The map from ids to slots.\<close>

definition slot_of :: "hashid \<Rightarrow> int \<Rightarrow> nat option" where
  "slot_of hi fd = (if fd < 0 then None else find (\<lambda>i. hid (hi_id hi ! i) = fd) [0..<hi_cap hi])"

lemma hash_index_less: "hashid_nodes hi \<Longrightarrow> hash_index hi fd < length (hi_hash hi)"
proof -
  assume a: "hashid_nodes hi"
  then obtain k where k: "hi_hashmod hi + 1 = 2 ^ k" by (auto simp: hashid_nodes_def)
  have "int (hi_hashmod hi) = 2 ^ k - 1" using arg_cong [OF k, of int] by simp
  then have "int (hi_hashmod hi) = mask k" by (simp add: mask_eq_exp_minus_1)
  then have "hash_index hi fd = nat (fd mod 2 ^ k)" by (simp add: hash_index_def take_bit_eq_mask [symmetric] take_bit_eq_mod)
  moreover have "nat (fd mod 2 ^ k) < 2 ^ k" by (simp add: nat_less_iff)
  ultimately show ?thesis using k a by (simp add: hashid_nodes_def)
qed

lemma slot_of_Some:
  assumes "hashid_nodes hi"
  shows "slot_of hi fd = Some i \<longleftrightarrow> 0 \<le> fd \<and> i < hi_cap hi \<and> hid (hi_id hi ! i) = fd"
proof -
  have u: "i = j" if "i < hi_cap hi" "j < hi_cap hi" "hid (hi_id hi ! i) = fd" "hid (hi_id hi ! j) = fd" "0 \<le> fd" for i j
    using assms that by (auto simp: hashid_nodes_def)
  show ?thesis
  proof (cases "find (\<lambda>i. hid (hi_id hi ! i) = fd) [0..<hi_cap hi]")
    case None
    then have "\<forall>i < hi_cap hi. hid (hi_id hi ! i) \<noteq> fd" by (simp add: find_None_iff)
    with None show ?thesis by (auto simp: slot_of_def)
  next
    case (Some j)
    then have "j < hi_cap hi" "hid (hi_id hi ! j) = fd" by (auto simp: find_Some_iff)
    with Some u show ?thesis by (auto simp: slot_of_def)
  qed
qed

lemma slot_of_None: "slot_of hi fd = None \<longleftrightarrow> fd < 0 \<or> (\<forall>i < hi_cap hi. hid (hi_id hi ! i) \<noteq> fd)"
  by (auto simp: slot_of_def find_None_iff)


lemma find_chain:
  assumes n: "hashid_nodes hi" and c: "hashid_chains hi ch"
  shows "find (\<lambda>i. hid (hi_id hi ! i) = fd) (ch (hash_index hi fd)) = slot_of hi fd"
proof (cases "find (\<lambda>i. hid (hi_id hi ! i) = fd) (ch (hash_index hi fd))")
  case None
  then have no: "\<forall>i \<in> set (ch (hash_index hi fd)). hid (hi_id hi ! i) \<noteq> fd" by (auto simp: find_None_iff)
  have "hid (hi_id hi ! i) \<noteq> fd" if "0 \<le> fd" "i < hi_cap hi" for i
    using c no that unfolding hashid_chains_def by force
  then have "slot_of hi fd = None" unfolding slot_of_None by force
  then show ?thesis using None by simp
next
  case (Some i)
  then have i: "i \<in> set (ch (hash_index hi fd))" "hid (hi_id hi ! i) = fd" by (auto simp: find_Some_iff)
  have "chain (hi_id hi) (hi_hash hi ! hash_index hi fd) (ch (hash_index hi fd))" "0 \<le> fd"
    using c i hash_index_less [OF n] by (auto simp: hashid_chains_def)
  moreover from this(1) have "i < length (hi_id hi)" using i(1) by (rule chain_in)
  ultimately have "slot_of hi fd = Some i"
    unfolding slot_of_Some [OF n] using i n by (simp add: hashid_nodes_def)
  then show ?thesis using Some by simp
qed

lemma lookup_ok:
  assumes "hashid_wf hi"
  shows "hashid_lookup hi fd = Inr (case slot_of hi fd of None \<Rightarrow> -1 | Some i \<Rightarrow> int i)"
proof -
  from assms obtain ch where n: "hashid_nodes hi" and c: "hashid_chains hi ch" by (auto simp: hashid_wf_def)
  let ?h = "hash_index hi fd"
  have h: "?h < length (hi_hash hi)" using hash_index_less [OF n] .
  have ch: "chain (hi_id hi) (hi_hash hi ! ?h) (ch ?h)" "distinct (ch ?h)"
    using c h by (auto simp: hashid_chains_def)
  then show ?thesis
    using h lookup_loop_ok [OF ch(1) distinct_chain_length [OF ch], of fd] find_chain [OF n c, of fd]
    by (simp add: hashid_lookup_def bucket_def)
qed

section \<open>Insertion\<close>

lemma free_scan_ok:
  assumes "hashid_nodes hi" "0 < hi_cap hi" "0 \<le> fd" "fd + int (i + k) \<le> int INT_MAX + 1"
  shows "\<exists>r. free_scan hi fd i k = Inr r
    \<and> (case r of None \<Rightarrow> \<forall>j. i \<le> j \<and> j < i + k \<longrightarrow> nat (int j + fd) mod hi_cap hi \<in> used hi
        | Some c \<Rightarrow> c < hi_cap hi \<and> hid (hi_id hi ! c) = -1)"
  using assms(4)
proof (induction k arbitrary: i)
  case (Suc k)
  let ?c = "nat (int i + fd) mod hi_cap hi"
  have c: "c_rem (int i + fd) (int (hi_cap hi)) = int ?c" using assms(3) by (simp add: c_rem_def zmod_int)
  have c': "?c < hi_cap hi" using assms(2) by simp
  have len: "length (hi_id hi) = hi_cap hi" using assms(1) by (simp add: hashid_nodes_def)
  have "\<not> int i + fd > int INT_MAX" using Suc.prems by simp
  then have step: "free_scan hi fd i (Suc k) = (if hid (hi_id hi ! ?c) = -1 then Inr (Some ?c) else free_scan hi fd (Suc i) k)"
    using c' by (simp add: c node_at_def len)
  show ?case
  proof (cases "hid (hi_id hi ! ?c) = -1")
    case True
    then show ?thesis unfolding step using c' by auto
  next
    case False
    then have u: "?c \<in> used hi" using c' by (simp add: used_def)
    from Suc.IH [of "Suc i"] Suc.prems obtain r where r: "free_scan hi fd (Suc i) k = Inr r"
      "case r of None \<Rightarrow> \<forall>j. Suc i \<le> j \<and> j < Suc i + k \<longrightarrow> nat (int j + fd) mod hi_cap hi \<in> used hi
        | Some c \<Rightarrow> c < hi_cap hi \<and> hid (hi_id hi ! c) = -1" by auto
    have "i \<le> j \<and> j < i + Suc k \<Longrightarrow> j = i \<or> (Suc i \<le> j \<and> j < Suc i + k)" for j by auto
    then show ?thesis unfolding step using False r u by (cases r) (simp, blast, simp)
  qed
qed auto

lemma rotation_onto:
  assumes "c < n" shows "\<exists>j < n. (j + f) mod n = (c :: nat)"
proof -
  let ?j = "(c + (n - f mod n)) mod n"
  have "(?j + f) mod n = (c + (n - f mod n) + f) mod n" by (simp add: mod_add_left_eq)
  also have "\<dots> = (c + (n - f mod n) + f mod n) mod n" by (simp add: mod_add_right_eq)
  also have "c + (n - f mod n) + f mod n = c + n"
    using assms mod_less_divisor [of n f] by linarith
  also have "(c + n) mod n = c" using assms by simp
  finally show ?thesis using assms by (intro exI [of _ ?j]) auto
qed

lemma free_scan_finds:
  assumes "hashid_nodes hi" "hi_count hi < hi_cap hi" "0 \<le> fd" "fd + int (hi_cap hi) \<le> int INT_MAX + 1"
  shows "\<exists>c. free_scan hi fd 0 (hi_cap hi) = Inr (Some c) \<and> c < hi_cap hi \<and> hid (hi_id hi ! c) = -1"
proof -
  from free_scan_ok [of hi fd 0 "hi_cap hi"] assms obtain r where r: "free_scan hi fd 0 (hi_cap hi) = Inr r"
    "case r of None \<Rightarrow> \<forall>j. 0 \<le> j \<and> j < 0 + hi_cap hi \<longrightarrow> nat (int j + fd) mod hi_cap hi \<in> used hi
        | Some c \<Rightarrow> c < hi_cap hi \<and> hid (hi_id hi ! c) = -1" by auto
  have "r \<noteq> None"
  proof
    assume "r = None"
    then have a: "\<forall>j < hi_cap hi. (j + nat fd) mod hi_cap hi \<in> used hi"
      using r(2) assms(3) by (simp add: nat_add_distrib)
    have "{..<hi_cap hi} \<subseteq> used hi"
    proof
      fix c assume "c \<in> {..<hi_cap hi}"
      then show "c \<in> used hi" using rotation_onto [of c "hi_cap hi" "nat fd"] a by auto
    qed
    moreover have "finite (used hi)" by (simp add: used_def)
    ultimately have "card {..<hi_cap hi} \<le> card (used hi)" by (intro card_mono)
    then show False using assms(1,2) by (simp add: hashid_nodes_def)
  qed
  then obtain c where "r = Some c" by auto
  then show ?thesis using r by simp
qed

lemma insert_ok:
  assumes "hashid_wf hi" "0 \<le> fd" "slot_of hi fd = None" "hi_count hi < hi_cap hi"
    "fd + int (hi_cap hi) \<le> int INT_MAX + 1"
  shows "\<exists>hi' c. hashid_insert hi fd = Inr (hi', c) \<and> hashid_wf hi' \<and> c < hi_cap hi
    \<and> c \<notin> ran (slot_of hi) \<and> slot_of hi' = (slot_of hi)(fd \<mapsto> c)
    \<and> hi_cap hi' = hi_cap hi \<and> hi_count hi' = hi_count hi + 1"
proof -
  from assms(1) obtain ch where n: "hashid_nodes hi" and c: "hashid_chains hi ch" by (auto simp: hashid_wf_def)
  from free_scan_finds [OF n assms(4,2,5)] obtain i where i: "free_scan hi fd 0 (hi_cap hi) = Inr (Some i)"
    "i < hi_cap hi" "hid (hi_id hi ! i) = -1" by blast
  let ?h = "hash_index hi fd"
  have h: "?h < length (hi_hash hi)" using hash_index_less [OF n] .
  have len: "length (hi_id hi) = hi_cap hi" using n by (simp add: hashid_nodes_def)
  define hi' where "hi' = hi\<lparr>hi_count := hi_count hi + 1, hi_id := (hi_id hi)[i := \<lparr>hid = fd, hnext = hi_hash hi ! ?h\<rparr>],
    hi_hash := (hi_hash hi)[?h := Some i]\<rparr>"
  have ins: "hashid_insert hi fd = Inr (hi', i)"
    using i h n by (simp add: hashid_insert_def bucket_def hi'_def hashid_nodes_def Let_def)
  have idx: "hash_index hi' x = hash_index hi x" for x by (simp add: hash_index_def hi'_def)
  have f: "hi_cap hi' = hi_cap hi" "length (hi_id hi') = hi_cap hi" "length (hi_hash hi') = length (hi_hash hi)"
    "hi_hashmod hi' = hi_hashmod hi" "hi_count hi' = hi_count hi + 1" by (simp_all add: hi'_def len)
  have hd: "hid (hi_id hi' ! j) = (if j = i then fd else hid (hi_id hi ! j))"
    "hnext (hi_id hi' ! j) = (if j = i then hi_hash hi ! ?h else hnext (hi_id hi ! j))" for j
    using i(2) len by (auto simp: hi'_def nth_list_update)
  have fresh: "hid (hi_id hi ! j) \<noteq> fd" if "j < hi_cap hi" for j
    using assms(2,3) that unfolding slot_of_None by auto
  have "used hi' = insert i (used hi)" "i \<notin> used hi"
    using i assms(2) by (auto simp: used_def f hd)
  then have card: "card (used hi') = card (used hi) + 1" by (simp add: used_def)
  have n': "hashid_nodes hi'"
    using n fresh assms(2) unfolding hashid_nodes_def f hd card by auto
  have notin: "i \<notin> set (ch g)" if "g < length (hi_hash hi)" for g
    using c i(3) that by (force simp: hashid_chains_def)
  have "hashid_chains hi' (ch(?h := i # ch ?h))"
    unfolding hashid_chains_def
  proof (intro conjI allI impI)
    fix g assume "g < length (hi_hash hi')"
    then have g: "g < length (hi_hash hi)" by (simp add: f)
    have old: "chain (hi_id hi') (hi_hash hi ! g) (ch g)" "distinct (ch g)"
      "\<forall>j \<in> set (ch g). 0 \<le> hid (hi_id hi ! j) \<and> hash_index hi (hid (hi_id hi ! j)) = g"
      using c g chain_other [OF _ notin [OF g]] by (auto simp: hashid_chains_def hi'_def)
    show "chain (hi_id hi') (hi_hash hi' ! g) ((ch(?h := i # ch ?h)) g)"
      using old g i(2) f hd(2) [of i] by (auto simp: hi'_def)
    show "distinct ((ch(?h := i # ch ?h)) g)" using old g notin by auto
    show "\<forall>j \<in> set ((ch(?h := i # ch ?h)) g). 0 \<le> hid (hi_id hi' ! j) \<and> hash_index hi' (hid (hi_id hi' ! j)) = g"
      using old assms(2) notin [OF g] by (auto simp: hd idx)
  next
    fix j assume "j < hi_cap hi'" "hid (hi_id hi' ! j) \<noteq> -1"
    then show "j \<in> set ((ch(?h := i # ch ?h)) (hash_index hi' (hid (hi_id hi' ! j))))"
      using c by (auto simp: hd idx f hashid_chains_def)
  qed
  then have wf: "hashid_wf hi'" using n' by (auto simp: hashid_wf_def)
  have "slot_of hi' x = ((slot_of hi)(fd \<mapsto> i)) x" for x
  proof -
    have "slot_of hi' x = Some j \<longleftrightarrow> ((slot_of hi)(fd \<mapsto> i)) x = Some j" for j
      using i assms(2,3) fresh by (auto simp: slot_of_Some [OF n] slot_of_Some [OF n'] hd f)
    then show ?thesis by (metis not_Some_eq)
  qed
  moreover have "i \<notin> ran (slot_of hi)"
    using i(3) by (auto simp: ran_def slot_of_Some [OF n])
  ultimately show ?thesis using ins wf i f by auto
qed

section \<open>Removal\<close>

lemma remove_node:
  assumes n: "hashid_nodes hi" and c: "hashid_chains hi ch" and i: "slot_of hi fd = Some i"
    and same: "hi_cap hi' = hi_cap hi" "hi_hashmod hi' = hi_hashmod hi" "hi_count hi' = hi_count hi - 1"
      "length (hi_id hi') = length (hi_id hi)"
    and hash: "hi_hash hi' = (hi_hash hi)[hash_index hi fd := p]"
    and hd: "\<And>j. hid (hi_id hi' ! j) = (if j = i then -1 else hid (hi_id hi ! j))"
    and nx: "\<And>j. j \<notin> set (ch (hash_index hi fd)) \<Longrightarrow> hi_id hi' ! j = hi_id hi ! j" "hnext (hi_id hi' ! i) = None"
    and free: "\<And>j. hid (hi_id hi' ! j) = -1 \<Longrightarrow> j \<noteq> i \<Longrightarrow> hi_id hi' ! j = hi_id hi ! j"
    and ch': "chain (hi_id hi') p (remove1 i (ch (hash_index hi fd)))"
  shows "hashid_wf hi' \<and> slot_of hi' = (slot_of hi)(fd := None)"
proof -
  let ?h = "hash_index hi fd"
  have h: "?h < length (hi_hash hi)" using hash_index_less [OF n] .
  have fd: "0 \<le> fd" "i < hi_cap hi" "hid (hi_id hi ! i) = fd" using i unfolding slot_of_Some [OF n] by auto
  have idx: "hash_index hi' x = hash_index hi x" for x by (simp add: hash_index_def same)
  have "used hi' = used hi - {i}" "i \<in> used hi" using fd by (auto simp: used_def same hd)
  then have card: "card (used hi') = card (used hi) - 1" by (simp add: used_def)
  have n': "hashid_nodes hi'"
    using n fd nx(2) free unfolding hashid_nodes_def same card hd hash length_list_update by (auto split: if_splits)
  have uniq: "j = i" if "j < hi_cap hi" "hid (hi_id hi ! j) = fd" for j
    using n that fd unfolding hashid_nodes_def by auto
  have "hashid_chains hi' (ch(?h := remove1 i (ch ?h)))"
    unfolding hashid_chains_def
  proof (intro conjI allI impI)
    fix g assume "g < length (hi_hash hi')"
    then have g: "g < length (hi_hash hi)" by (simp add: hash)
    have old: "chain (hi_id hi) (hi_hash hi ! g) (ch g)" "distinct (ch g)"
      "\<forall>j \<in> set (ch g). 0 \<le> hid (hi_id hi ! j) \<and> hash_index hi (hid (hi_id hi ! j)) = g"
      using c g by (auto simp: hashid_chains_def)
    have oldh: "\<forall>j \<in> set (ch ?h). hash_index hi (hid (hi_id hi ! j)) = ?h"
      using c h by (auto simp: hashid_chains_def)
    have keep: "chain (hi_id hi') q xs" if "chain (hi_id hi) q xs" "set xs \<inter> set (ch ?h) = {}" for q xs
      using that by (induction xs arbitrary: q) (auto simp: same nx)
    have disj: "g \<noteq> ?h \<Longrightarrow> set (ch g) \<inter> set (ch ?h) = {}" using old(3) oldh by fastforce
    show "chain (hi_id hi') (hi_hash hi' ! g) ((ch(?h := remove1 i (ch ?h))) g)"
      using ch' keep [OF old(1) disj] g by (auto simp: hash)
    show "distinct ((ch(?h := remove1 i (ch ?h))) g)" using old by auto
    show "\<forall>j \<in> set ((ch(?h := remove1 i (ch ?h))) g). 0 \<le> hid (hi_id hi' ! j) \<and> hash_index hi' (hid (hi_id hi' ! j)) = g"
      using old fd(3) by (auto simp: hd idx)
  next
    fix j assume "j < hi_cap hi'" "hid (hi_id hi' ! j) \<noteq> -1"
    then show "j \<in> set ((ch(?h := remove1 i (ch ?h))) (hash_index hi' (hid (hi_id hi' ! j))))"
      using c by (auto simp: hd idx same hashid_chains_def split: if_splits)
  qed
  moreover have "slot_of hi' x = ((slot_of hi)(fd := None)) x" for x
  proof -
    have "slot_of hi' x = Some j \<longleftrightarrow> ((slot_of hi)(fd := None)) x = Some j" for j
    proof (cases "j = i")
      case True
      then show ?thesis using fd(3) by (auto simp: slot_of_Some [OF n] slot_of_Some [OF n'] hd)
    next
      case False
      then show ?thesis using uniq [of j] by (auto simp: slot_of_Some [OF n] slot_of_Some [OF n'] hd same)
    qed
    then show ?thesis by (metis not_Some_eq)
  qed
  ultimately show ?thesis using n' by (auto simp: hashid_wf_def)
qed

lemma remove_ok:
  assumes "hashid_wf hi"
  shows "\<exists>hi'. hashid_remove hi fd = Inr (hi', case slot_of hi fd of None \<Rightarrow> -1 | Some i \<Rightarrow> int i)
    \<and> hashid_wf hi' \<and> slot_of hi' = (slot_of hi)(fd := None) \<and> hi_cap hi' = hi_cap hi
    \<and> hi_count hi' = (if slot_of hi fd = None then hi_count hi else hi_count hi - 1)"
proof -
  from assms obtain ch where n: "hashid_nodes hi" and c: "hashid_chains hi ch" by (auto simp: hashid_wf_def)
  let ?h = "hash_index hi fd" and ?ids = "hi_id hi"
  have h: "?h < length (hi_hash hi)" using hash_index_less [OF n] .
  have ch: "chain ?ids (hi_hash hi ! ?h) (ch ?h)" "distinct (ch ?h)" "\<And>j. j \<in> set (ch ?h) \<Longrightarrow> hid (?ids ! j) \<noteq> -1"
    using c h by (force simp: hashid_chains_def)+
  note fnd = find_chain [OF n c, of fd]
  note unlink = remove_node [OF n c]
  have keep: "slot_of hi fd = None \<Longrightarrow> slot_of hi = (slot_of hi)(fd := None)" by auto
  show ?thesis
  proof (cases "ch ?h")
    case Nil
    then have "slot_of hi fd = None" "hi_hash hi ! ?h = None" using fnd ch(1) by auto
    then show ?thesis using h assms keep by (simp add: hashid_remove_def bucket_def)
  next
    case (Cons x xs)
    then have x: "hi_hash hi ! ?h = Some x" "x < length ?ids" "chain ?ids (hnext (?ids ! x)) xs" "x \<notin> set xs"
      using ch by auto
    show ?thesis
    proof (cases "hid (?ids ! x) = fd")
      case True
      then have s: "slot_of hi fd = Some x" using fnd Cons by simp
      let ?hi = "fst (clear_node (hi\<lparr>hi_hash := (hi_hash hi)[?h := hnext (?ids ! x)]\<rparr>) x)"
      have "hashid_remove hi fd = Inr (?hi, int x)"
        using x h True by (simp add: hashid_remove_def bucket_def node_at_def Let_def clear_node_def)
      moreover have "hashid_wf ?hi \<and> slot_of ?hi = (slot_of hi)(fd := None)"
        using x chain_other [OF x(3,4)] Cons
        by (intro unlink [OF s, where p = "hnext (?ids ! x)"]) (auto simp: clear_node_def nth_list_update)
      ultimately show ?thesis using s by (simp add: clear_node_def)
    next
      case False
      have "length (x # xs) \<le> length ?ids"
        using distinct_chain_length [OF ch(1,2)] Cons by simp
      from remove_loop_ok [of hi "hi_hash hi ! ?h" "[]" x xs "length ?ids" fd] this ch(1) Cons False
      have rl: "hashid_remove hi fd = (case slot_of hi fd of None \<Rightarrow> Inr (hi, -1)
         | Some i \<Rightarrow> let prev = last (x # takeWhile (\<lambda>j. j \<noteq> i) xs) in
            Inr (clear_node (hi\<lparr>hi_id := ?ids[prev := (?ids ! prev)\<lparr>hnext := hnext (?ids ! i)\<rparr>]\<rparr>) i))"
        using x h fnd by (simp add: hashid_remove_def bucket_def node_at_def Let_def)
      show ?thesis
      proof (cases "slot_of hi fd")
        case None
        then show ?thesis using rl assms keep by simp
      next
        case (Some i)
        then have "i \<in> set xs" using fnd Cons False by (auto simp: find_Some_iff)
        then obtain as bs where xs: "xs = as @ i # bs" "i \<notin> set as" by (meson split_list_first)
        then have as_def: "as = takeWhile (\<lambda>j. j \<noteq> i) xs" by (auto simp: takeWhile_append)
        obtain us prev where us: "x # as = us @ [prev]" by (metis append_butlast_last_id list.distinct(1))
        have prev: "last (x # as) = prev" using us by simp
        have l: "ch ?h = us @ prev # i # bs" using Cons xs(1) us by (metis append_Cons append_assoc append_Nil)
        let ?ids' = "?ids[prev := (?ids ! prev)\<lparr>hnext := hnext (?ids ! i)\<rparr>]"
        let ?hi = "fst (clear_node (hi\<lparr>hi_id := ?ids'\<rparr>) i)"
        have d: "i \<notin> set (us @ prev # bs)" "distinct (us @ prev # i # bs)" using ch(2) l by auto
        have lt: "prev < length ?ids" "i < length ?ids" using chain_in [OF ch(1)] l by auto
        have "chain ?ids' (hi_hash hi ! ?h) (us @ prev # bs)"
          using chain_unlink [of ?ids _ us prev i bs] ch(1) d(2) l by simp
        from chain_other [OF this d(1)] have cc: "chain (?ids'[i := \<lparr>hid = -1, hnext = None\<rparr>]) (hi_hash hi ! ?h) (us @ prev # bs)" .
        have r1: "remove1 i (us @ prev # i # bs) = us @ prev # bs" using d by (auto simp: remove1_append)
        have "hashid_remove hi fd = Inr (?hi, int i)"
          using rl Some prev by (simp add: as_def [symmetric] Let_def clear_node_def)
        moreover have "hashid_wf ?hi \<and> slot_of ?hi = (slot_of hi)(fd := None)"
          using lt d ch(3) [of prev] unfolding l
          by (intro unlink [OF Some, where p = "hi_hash hi ! ?h"], unfold l r1)
             (use cc in \<open>auto simp: clear_node_def nth_list_update split: if_splits\<close>)
        ultimately show ?thesis using Some by (simp add: clear_node_def)
      qed
    qed
  qed
qed

section \<open>The interface\<close>

text \<open>
  What the gate relies on: a partial map from ids to slots of an array, in which no two ids share
  a slot.
\<close>

datatype id_op = Insert int | Remove int | Lookup int

fun run_ids ::
  "('h \<Rightarrow> int \<Rightarrow> ('h \<times> nat) res) \<Rightarrow> ('h \<Rightarrow> int \<Rightarrow> int res) \<Rightarrow> ('h \<Rightarrow> int \<Rightarrow> ('h \<times> int) res)
   \<Rightarrow> 'h \<Rightarrow> id_op list \<Rightarrow> ('h \<times> int list) res" where
  "run_ids ins look rem h [] = Inr (h, [])"
| "run_ids ins look rem h (a # ops) =
     cbind (case a of
              Insert fd \<Rightarrow> cbind (ins h fd) (\<lambda>(h, c). Inr (h, int c))
            | Remove fd \<Rightarrow> rem h fd
            | Lookup fd \<Rightarrow> cbind (look h fd) (\<lambda>r. Inr (h, r))) (\<lambda>(h, r).
     cbind (run_ids ins look rem h ops) (\<lambda>(h, rs). Inr (h, r # rs)))"

text \<open>
  What a client may do that stores at most \<open>cap\<close> ids, when it has stored those of \<open>S\<close>: an id is not stored
  twice, and the scan for a free slot, which starts at the id, does not overflow.
\<close>

fun id_allowed :: "nat \<Rightarrow> int set \<Rightarrow> id_op list \<Rightarrow> bool" where
  "id_allowed cap S [] = True"
| "id_allowed cap S (Insert fd # ops) =
     (0 \<le> fd \<and> fd + int cap \<le> int INT_MAX + 1 \<and> fd \<notin> S \<and> card S < cap \<and> id_allowed cap (insert fd S) ops)"
| "id_allowed cap S (Remove fd # ops) = id_allowed cap (S - {fd}) ops"
| "id_allowed cap S (Lookup fd # ops) = id_allowed cap S ops"

text \<open>The results of a partial map: an insert may choose any slot no id has.\<close>

definition slot_result :: "(int \<rightharpoonup> nat) \<Rightarrow> int \<Rightarrow> int" where
  "slot_result m fd = (case m fd of None \<Rightarrow> -1 | Some i \<Rightarrow> int i)"

fun map_results :: "nat \<Rightarrow> (int \<rightharpoonup> nat) \<Rightarrow> id_op list \<Rightarrow> int list \<Rightarrow> bool" where
  "map_results cap m [] [] = True"
| "map_results cap m (Insert fd # ops) (r # rs) =
     (0 \<le> r \<and> r < int cap \<and> nat r \<notin> ran m \<and> map_results cap (m(fd \<mapsto> nat r)) ops rs)"
| "map_results cap m (Remove fd # ops) (r # rs) = (r = slot_result m fd \<and> map_results cap (m(fd := None)) ops rs)"
| "map_results cap m (Lookup fd # ops) (r # rs) = (r = slot_result m fd \<and> map_results cap m ops rs)"
| "map_results cap m _ _ = False"

locale slot_map =
  fixes ins :: "'h \<Rightarrow> int \<Rightarrow> ('h \<times> nat) res"
    and look :: "'h \<Rightarrow> int \<Rightarrow> int res"
    and rem :: "'h \<Rightarrow> int \<Rightarrow> ('h \<times> int) res"
    and slots :: "'h \<Rightarrow> int \<rightharpoonup> nat" and inv :: "'h \<Rightarrow> bool" and room :: "'h \<Rightarrow> int \<Rightarrow> bool" and cap :: "'h \<Rightarrow> nat"
  assumes look_law: "inv h \<Longrightarrow> look h fd = Inr (case slots h fd of None \<Rightarrow> -1 | Some i \<Rightarrow> int i)"
    and ins_law: "inv h \<Longrightarrow> slots h fd = None \<Longrightarrow> room h fd \<Longrightarrow>
      \<exists>h' c. ins h fd = Inr (h', c) \<and> inv h' \<and> cap h' = cap h \<and> c < cap h \<and> c \<notin> ran (slots h)
        \<and> slots h' = (slots h)(fd \<mapsto> c)"
    and rem_law: "inv h \<Longrightarrow> \<exists>h'. rem h fd = Inr (h', case slots h fd of None \<Rightarrow> -1 | Some i \<Rightarrow> int i)
        \<and> inv h' \<and> cap h' = cap h \<and> slots h' = (slots h)(fd := None)"
    and slots_inj: "inv h \<Longrightarrow> slots h a = Some i \<Longrightarrow> slots h b = Some i \<Longrightarrow> a = b"
    and room_law: "inv h \<Longrightarrow> 0 \<le> fd \<Longrightarrow> fd + int (cap h) \<le> int INT_MAX + 1 \<Longrightarrow> card (dom (slots h)) < cap h \<Longrightarrow> room h fd"
begin

lemma run_is_map:
  assumes "inv h" and "id_allowed (cap h) (dom (slots h)) ops"
  shows "\<exists>h' rs. run_ids ins look rem h ops = Inr (h', rs) \<and> inv h' \<and> map_results (cap h) (slots h) ops rs"
  using assms
proof (induction ops arbitrary: h)
  case (Cons a ops)
  show ?case
  proof (cases a)
    case (Insert fd)
    then have room: "slots h fd = None" "room h fd"
      using Cons.prems room_law[of h fd] by auto
    obtain h1 c where h1: "ins h fd = Inr (h1, c)" "inv h1" "cap h1 = cap h" "c < cap h" "c \<notin> ran (slots h)" "slots h1 = (slots h)(fd \<mapsto> c)"
      using ins_law[OF Cons.prems(1) room] by blast
    then have "id_allowed (cap h1) (dom (slots h1)) ops"
      using Cons.prems(2) Insert by simp
    from Cons.IH[OF h1(2) this] obtain h' rs where "run_ids ins look rem h1 ops = Inr (h', rs)" "inv h'"
      "map_results (cap h) ((slots h)(fd \<mapsto> c)) ops rs"
      unfolding h1(3,6) by blast
    then show ?thesis
      using h1(1,4,5) Insert by (intro exI[of _ h'] exI[of _ "int c # rs"]) simp
  next
    case (Remove fd)
    obtain h1 where h1: "rem h fd = Inr (h1, slot_result (slots h) fd)" "inv h1" "cap h1 = cap h" "slots h1 = (slots h)(fd := None)"
      using rem_law[OF Cons.prems(1), of fd] by (auto simp: slot_result_def)
    then have "id_allowed (cap h1) (dom (slots h1)) ops"
      using Cons.prems(2) Remove by simp
    from Cons.IH[OF h1(2) this] obtain h' rs where "run_ids ins look rem h1 ops = Inr (h', rs)" "inv h'"
      "map_results (cap h) ((slots h)(fd := None)) ops rs"
      unfolding h1(3,4) by blast
    then show ?thesis
      using h1(1) Remove by (intro exI[of _ h'] exI[of _ "slot_result (slots h) fd # rs"]) simp
  next
    case (Lookup fd)
    then obtain h' rs where "run_ids ins look rem h ops = Inr (h', rs)" "inv h'" "map_results (cap h) (slots h) ops rs"
      using Cons.IH[OF Cons.prems(1)] Cons.prems(2) by auto
    then show ?thesis
      using look_law[OF Cons.prems(1), of fd] Lookup
      by (intro exI[of _ h'] exI[of _ "slot_result (slots h) fd # rs"]) (simp add: slot_result_def)
  qed
qed simp

lemma insert_then_lookup:
  assumes "inv h" "slots h fd = None" "room h fd"
  shows "\<exists>h' c. ins h fd = Inr (h', c) \<and> inv h' \<and> c < cap h \<and> look h' fd = Inr (int c)
    \<and> (\<forall>d. d \<noteq> fd \<longrightarrow> look h' d = look h d \<and> look h d \<noteq> Inr (int c))"
proof -
  from ins_law [OF assms] obtain h' c where h': "ins h fd = Inr (h', c)" "inv h'" "c < cap h" "c \<notin> ran (slots h)"
    "slots h' = (slots h)(fd \<mapsto> c)" by blast
  have "look h' d = look h d \<and> look h d \<noteq> Inr (int c)" if "d \<noteq> fd" for d
    using that look_law [OF assms(1), of d] look_law [OF h'(2), of d] h'(4,5)
    by (cases "slots h d") (auto simp: ran_def)
  moreover have "look h' fd = Inr (int c)" using look_law [OF h'(2), of fd] h'(5) by simp
  ultimately show ?thesis using h' by blast
qed

lemma remove_then_lookup:
  assumes "inv h"
  shows "\<exists>h' r. rem h fd = Inr (h', r) \<and> inv h' \<and> look h fd = Inr r \<and> look h' fd = Inr (-1)
    \<and> (\<forall>d. d \<noteq> fd \<longrightarrow> look h' d = look h d)"
proof -
  from rem_law [OF assms, of fd] obtain h' where h': "rem h fd = Inr (h', case slots h fd of None \<Rightarrow> -1 | Some i \<Rightarrow> int i)"
    "inv h'" "slots h' = (slots h)(fd := None)" by blast
  then show ?thesis using look_law [OF assms] look_law [OF h'(2)] by auto
qed

end

definition hashid_room :: "hashid \<Rightarrow> int \<Rightarrow> bool" where
  "hashid_room hi fd \<longleftrightarrow> 0 \<le> fd \<and> \<not> hashid_full hi \<and> fd + int (hi_cap hi) \<le> int INT_MAX + 1"

lemma count_le_cap: "hashid_wf hi \<Longrightarrow> hi_count hi \<le> hi_cap hi"
  using card_mono [of "{..<hi_cap hi}" "used hi"] by (auto simp: hashid_wf_def hashid_nodes_def used_def)

lemma count_is_size:
  assumes "hashid_wf hi"
  shows "card (dom (slot_of hi)) = hi_count hi"
proof -
  let ?id = "\<lambda>i. hid (hi_id hi ! i)"
  have n: "hashid_nodes hi"
    using assms by (simp add: hashid_wf_def)
  have "0 \<le> ?id i" if "i \<in> used hi" for i
    using assms that hash_index_less[OF n, of "?id i"] unfolding hashid_wf_def hashid_chains_def used_def by auto
  then have "dom (slot_of hi) = ?id ` used hi"
    by (auto simp: dom_def slot_of_Some[OF n] used_def)
  moreover have "inj_on ?id (used hi)"
    using n by (auto simp: inj_on_def used_def hashid_nodes_def)
  ultimately show ?thesis
    using n by (simp add: card_image hashid_nodes_def)
qed

interpretation hashids: slot_map hashid_insert hashid_lookup hashid_remove slot_of hashid_wf hashid_room hi_cap
proof
  fix h fd assume "hashid_wf h" "slot_of h fd = None" "hashid_room h fd"
  then show "\<exists>h' c. hashid_insert h fd = Inr (h', c) \<and> hashid_wf h' \<and> hi_cap h' = hi_cap h \<and> c < hi_cap h
      \<and> c \<notin> ran (slot_of h) \<and> slot_of h' = (slot_of h)(fd \<mapsto> c)"
    using insert_ok [of h fd] count_le_cap [of h] by (fastforce simp: hashid_room_def hashid_full_def)
next
  fix h a b i assume "hashid_wf h" "slot_of h a = Some i" "slot_of h b = Some i"
  then show "a = b" by (auto simp: hashid_wf_def slot_of_Some)
next
  fix h and fd :: int
  assume "hashid_wf h" "0 \<le> fd" "fd + int (hi_cap h) \<le> int INT_MAX + 1" "card (dom (slot_of h)) < hi_cap h"
  then show "hashid_room h fd" using count_is_size [of h] by (simp add: hashid_room_def hashid_full_def)
qed (use lookup_ok remove_ok in \<open>blast+\<close>)

lemma hash_capacity_ok:
  assumes "0 < k" "mx \<le> 2 ^ 30" "k \<le> 30"
  shows "\<exists>j \<le> 30. hash_capacity (2 ^ k) mx = Inr (2 ^ j)"
  using assms
proof (induction "30 - k" arbitrary: k)
  case 0
  then show ?case by (subst hash_capacity.simps) auto
next
  case (Suc d)
  have "(2::nat) ^ k * 2 \<le> INT_MAX"
  proof -
    have "k \<le> 29" using Suc.hyps(2) by simp
    then have "(2::nat) ^ k \<le> 2 ^ 29" by (rule power_increasing) simp
    then show ?thesis by (simp add: INT_MAX_def)
  qed
  moreover have "\<exists>j \<le> 30. hash_capacity (2 ^ Suc k) mx = Inr (2 ^ j)"
    using Suc by (intro Suc.hyps(1)) auto
  ultimately show ?case using Suc.prems by (subst hash_capacity.simps) (auto simp: mult.commute)
qed

lemma hashid_init_ok:
  assumes "mx \<le> 2 ^ 30"
  shows "\<exists>hi. hashid_init mx = Inr hi \<and> hashid_wf hi \<and> slot_of hi = (\<lambda>_. None) \<and> hi_cap hi = mx \<and> hi_count hi = 0"
proof -
  from hash_capacity_ok [of 4 mx] assms obtain j where j: "hash_capacity 16 mx = Inr (2 ^ j)" by auto
  let ?hi = "\<lparr>hi_hashmod = 2 ^ j - 1, hi_cap = mx, hi_count = 0, hi_id = replicate mx \<lparr>hid = -1, hnext = None\<rparr>,
    hi_hash = replicate (2 ^ j) None\<rparr>"
  have "hashid_chains ?hi (\<lambda>_. [])" by (simp add: hashid_chains_def)
  moreover have "hashid_nodes ?hi" by (auto simp: hashid_nodes_def used_def)
  moreover have "slot_of ?hi = (\<lambda>_. None)" by (rule ext) (auto simp: slot_of_None)
  ultimately show ?thesis using j by (auto simp: hashid_init_def hashid_wf_def)
qed

section \<open>Properties\<close>

text \<open>
  Storing a connection. On a table that is not full, \<open>hashid_insert\<close> of a new id finds a free
  slot that no other id has, never follows a broken chain or leaves an array, and from then on
  \<open>hashid_lookup\<close> finds this slot for the id and what it found before for every other id.
\<close>

theorem hashid_insert_lookup:
  assumes "hashid_wf hi" "hashid_lookup hi fd = Inr (-1)" "hashid_room hi fd"
  shows "\<exists>hi' c. hashid_insert hi fd = Inr (hi', c) \<and> hashid_wf hi' \<and> c < hi_cap hi
    \<and> hashid_lookup hi' fd = Inr (int c)
    \<and> (\<forall>d. d \<noteq> fd \<longrightarrow> hashid_lookup hi' d = hashid_lookup hi d \<and> hashid_lookup hi d \<noteq> Inr (int c))"
proof -
  have "slot_of hi fd = None"
    using assms(2) hashids.look_law [OF assms(1), of fd] by (cases "slot_of hi fd") auto
  then show ?thesis using hashids.insert_then_lookup [OF assms(1) _ assms(3)] by blast
qed

theorem hashid_insert_lookup_witness:
  "\<exists>hi hi' c. hashid_init 3 = Inr hi \<and> hashid_insert hi 7 = Inr (hi', c) \<and> hashid_lookup hi' 7 = Inr (int c)"
proof -
  from hashid_init_ok [of 3] obtain hi where hi: "hashid_init 3 = Inr hi" "hashid_wf hi" "slot_of hi = (\<lambda>_. None)"
    "hi_cap hi = 3" "hi_count hi = 0" by auto
  have "hashid_lookup hi 7 = Inr (-1)" "hashid_room hi 7"
    using hi lookup_ok [OF hi(2), of 7] by (simp_all add: hashid_room_def hashid_full_def INT_MAX_def)
  from hashid_insert_lookup [OF hi(2) this] hi(1) show ?thesis by blast
qed

text \<open>
  Removing a connection. \<open>hashid_remove\<close> returns the slot of the id (\<open>-1\<close> for an unknown id),
  from then on the id is unknown, and the chains still lead to every other id.
\<close>

theorem hashid_remove_lookup:
  assumes "hashid_wf hi"
  shows "\<exists>hi' r. hashid_remove hi fd = Inr (hi', r) \<and> hashid_wf hi' \<and> hashid_lookup hi fd = Inr r
    \<and> hashid_lookup hi' fd = Inr (-1) \<and> (\<forall>d. d \<noteq> fd \<longrightarrow> hashid_lookup hi' d = hashid_lookup hi d)"
  using hashids.remove_then_lookup [OF assms] .

theorem hashid_remove_lookup_witness:
  "\<exists>hi hi' r. hashid_init 3 = Inr hi \<and> hashid_remove hi 7 = Inr (hi', r) \<and> hashid_lookup hi' 7 = Inr (-1)"
  using hashid_init_ok [of 3] hashid_remove_lookup [of _ 7] by force

text \<open>
  C10. The table is a map from ids to slots. For every sequence of inserts, removals and lookups on a new table of up
  to \<open>2 ^ 30\<close> slots, in which no id is stored twice and never more are stored than there are slots, every
  operation succeeds: no chain is broken, no array left and no loop endless. The results are those of a
  partial map: an insert gives a slot that no stored id has, a lookup and a removal give the slot the
  id got when it was stored, and \<open>-1\<close> for any other id, also when it shares its bucket with stored ones.
\<close>

theorem hashid_refines_map:
  assumes "slots \<le> 2 ^ 30" and "id_allowed slots {} ops"
  shows "\<exists>hi hi' rs. hashid_init slots = Inr hi \<and> run_ids hashid_insert hashid_lookup hashid_remove hi ops = Inr (hi', rs) \<and>
    map_results slots Map.empty ops rs"
proof -
  obtain hi where hi: "hashid_init slots = Inr hi" "hashid_wf hi" "slot_of hi = Map.empty" "hi_cap hi = slots"
    using hashid_init_ok[OF assms(1)] by blast
  then show ?thesis
    using hashids.run_is_map[OF hi(2), of ops] assms(2) by auto
qed

theorem hashid_refines_map_witness:
  "\<exists>hi hi' a b c d. hashid_init 2 = Inr hi \<and>
     run_ids hashid_insert hashid_lookup hashid_remove hi [Insert 3, Insert 19, Remove 3, Lookup 19, Lookup 3] = Inr (hi', [a, b, c, d, -1]) \<and>
     a \<noteq> b \<and> c = a \<and> d = b"
proof -
  have "id_allowed 2 {} [Insert 3, Insert 19, Remove 3, Lookup 19, Lookup 3]"
    by (simp add: INT_MAX_def)
  then obtain hi hi' rs where r: "hashid_init 2 = Inr hi"
    "run_ids hashid_insert hashid_lookup hashid_remove hi [Insert 3, Insert 19, Remove 3, Lookup 19, Lookup 3] = Inr (hi', rs)"
    "map_results 2 Map.empty [Insert 3, Insert 19, Remove 3, Lookup 19, Lookup 3] rs"
    using hashid_refines_map[of 2 "[Insert 3, Insert 19, Remove 3, Lookup 19, Lookup 3]"] by (auto simp del: run_ids.simps)
  obtain a b c d e where rs: "rs = [a, b, c, d, e]"
    using r(3) by (auto elim!: map_results.elims)
  have "a \<noteq> b \<and> c = a \<and> d = b \<and> e = -1"
    using r(3) unfolding rs by (auto simp: slot_result_def)
  with r(1,2) show ?thesis
    unfolding rs by blast
qed

end
