(* ===== verification/Sky_Databuffer.thy ===== *)
theory Sky_Databuffer
  imports Sky_Prelude "HOL-Library.Multiset"
begin

text \<open>
  Model of \<^verbatim>\<open>service-src/databuffer.h\<close>: the buffer of received socket data of a connection, a chain
  of the chunks that arrived, and the pool of chain nodes that all connections of a gate share.

  The chain from \<open>head\<close> to \<open>tail\<close> is the list \<open>db_msgs\<close>; a node is known by its number in the
  pool, the \<open>i\<close>-th node of the \<open>k\<close>-th block being \<open>k * MESSAGEPOOL + i\<close>; the \<open>size\<close> of a node is the
  length of its data.
\<close>

section \<open>Data and operations\<close>

definition MESSAGEPOOL :: nat where "MESSAGEPOOL = 1023"

record message =
  m_node :: nat
  m_buffer :: "u8 list"

record databuffer =
  db_header :: int
  db_offset :: nat
  db_size :: nat
  db_msgs :: "message list"

record messagepool =
  mp_blocks :: nat
  mp_freelist :: "nat list"

definition empty_databuffer :: databuffer where
  "empty_databuffer = \<lparr>db_header = 0, db_offset = 0, db_size = 0, db_msgs = []\<rparr>"

definition empty_pool :: messagepool where
  "empty_pool = \<lparr>mp_blocks = 0, mp_freelist = []\<rparr>"

definition messagepool_free :: "messagepool \<Rightarrow> messagepool" where
  "messagepool_free mp = mp\<lparr>mp_blocks := 0, mp_freelist := []\<rparr>"

definition return_message :: "databuffer \<Rightarrow> messagepool \<Rightarrow> (databuffer \<times> messagepool) res" where
  "return_message db mp =
     (case db_msgs db of
        [] \<Rightarrow> Inl NullDeref
      | m # ms \<Rightarrow> Inr (db\<lparr>db_msgs := ms\<rparr>, mp\<lparr>mp_freelist := m_node m # mp_freelist mp\<rparr>))"

text \<open>The loop of \<open>databuffer_read\<close>; the last component is what is copied into \<open>buffer\<close>.\<close>

function read_loop :: "databuffer \<Rightarrow> messagepool \<Rightarrow> nat \<Rightarrow> (databuffer \<times> messagepool \<times> u8 list) res" where
  "read_loop db mp sz =
     (case db_msgs db of
        [] \<Rightarrow> Inl NullDeref
      | current # _ \<Rightarrow>
          if db_offset db > length (m_buffer current) then Inl OutOfBounds
          else
            let bytes = drop (db_offset db) (m_buffer current); bsz = length bytes in
            if bsz > sz then Inr (db\<lparr>db_offset := db_offset db + sz\<rparr>, mp, take sz bytes)
            else
              (case return_message db mp of
                 Inl e \<Rightarrow> Inl e
               | Inr (db, mp) \<Rightarrow>
                   if bsz = sz then Inr (db\<lparr>db_offset := 0\<rparr>, mp, bytes)
                   else cbind (read_loop (db\<lparr>db_offset := 0\<rparr>) mp (sz - bsz))
                          (\<lambda>(db, mp, rest). Inr (db, mp, bytes @ rest))))"
  by pat_completeness auto
termination
  by (relation "measure (\<lambda>(db, mp, sz). length (db_msgs db))")
     (auto simp: return_message_def split: list.splits)

declare read_loop.simps [simp del]

definition databuffer_read :: "databuffer \<Rightarrow> messagepool \<Rightarrow> nat \<Rightarrow> (databuffer \<times> messagepool \<times> u8 list) res" where
  "databuffer_read db mp sz =
     cbind (c_assert (db_size db \<ge> sz)) (\<lambda>_. read_loop (db\<lparr>db_size := db_size db - sz\<rparr>) mp sz)"

text \<open>Taking a node from the pool, a new block when there is no free one.\<close>

definition pool_take :: "messagepool \<Rightarrow> messagepool \<times> nat" where
  "pool_take mp =
     (case mp_freelist mp of
        m # rest \<Rightarrow> (mp\<lparr>mp_freelist := rest\<rparr>, m)
      | [] \<Rightarrow>
          let base = mp_blocks mp * MESSAGEPOOL in
          (mp\<lparr>mp_blocks := mp_blocks mp + 1, mp_freelist := [base + 1..<base + MESSAGEPOOL]\<rparr>, base))"

definition databuffer_push :: "databuffer \<Rightarrow> messagepool \<Rightarrow> u8 list \<Rightarrow> (databuffer \<times> messagepool) res" where
  "databuffer_push db mp data =
     (let (mp, m) = pool_take mp in
      if db_size db + length data > INT_MAX then Inl IntOverflow
      else Inr (db\<lparr>db_size := db_size db + length data,
                   db_msgs := db_msgs db @ [\<lparr>m_node = m, m_buffer = data\<rparr>]\<rparr>, mp))"

text \<open>
  The header as a number: two bytes, or four bytes shifted into a signed 32-bit \<open>int\<close> (the shift of
  a byte of 128 or more into the sign bit, undefined in C, gives a negative number with the compilers
  the project supports).
\<close>

definition header_value :: "nat \<Rightarrow> u8 list \<Rightarrow> int res" where
  "header_value header_size plen =
     (if header_size = 2 then
        (case plen of
           [a, b] \<Rightarrow> Inr (uint (push_bit 8 (ucast a) OR ucast b :: u32))
         | _ \<Rightarrow> Inl Uninitialised)
      else
        (case plen of
           [a, b, c, d] \<Rightarrow>
             Inr (sint (push_bit 24 (ucast a) OR push_bit 16 (ucast b) OR push_bit 8 (ucast c) OR ucast d :: u32))
         | _ \<Rightarrow> if length plen > 4 then Inl OutOfBounds else Inl Uninitialised))"

definition databuffer_readheader :: "databuffer \<Rightarrow> messagepool \<Rightarrow> nat \<Rightarrow> (databuffer \<times> messagepool \<times> int) res" where
  "databuffer_readheader db mp header_size =
     (let check = (\<lambda>db mp. if int (db_size db) < db_header db then Inr (db, mp, -1) else Inr (db, mp, db_header db)) in
      if db_header db = 0 then
        if db_size db < header_size then Inr (db, mp, -1)
        else
          cbind (databuffer_read db mp header_size) (\<lambda>(db, mp, plen).
          cbind (header_value header_size plen) (\<lambda>h.
          check (db\<lparr>db_header := h\<rparr>) mp))
      else check db mp)"

definition databuffer_reset :: "databuffer \<Rightarrow> databuffer" where
  "databuffer_reset db = db\<lparr>db_header := 0\<rparr>"

definition databuffer_clear :: "databuffer \<Rightarrow> messagepool \<Rightarrow> databuffer \<times> messagepool" where
  "databuffer_clear db mp =
     (empty_databuffer, mp\<lparr>mp_freelist := rev (map m_node (db_msgs db)) @ mp_freelist mp\<rparr>)"

section \<open>The buffered bytes\<close>

definition stream :: "databuffer \<Rightarrow> u8 list" where
  "stream db = drop (db_offset db) (concat (map m_buffer (db_msgs db)))"

definition db_chain :: "databuffer \<Rightarrow> bool" where
  "db_chain db \<longleftrightarrow> (case db_msgs db of [] \<Rightarrow> db_offset db = 0 | m # _ \<Rightarrow> db_offset db \<le> length (m_buffer m))"

definition db_wf :: "databuffer \<Rightarrow> bool" where
  "db_wf db \<longleftrightarrow> db_chain db \<and> db_size db = length (stream db)"

text \<open>The nodes in use by a buffer and the free nodes together.\<close>

definition nodes :: "databuffer \<Rightarrow> messagepool \<Rightarrow> nat multiset" where
  "nodes db mp = mset (map m_node (db_msgs db)) + mset (mp_freelist mp)"

lemma db_fields [simp]:
  "db_chain (db\<lparr>db_size := n\<rparr>) = db_chain db" "stream (db\<lparr>db_size := n\<rparr>) = stream db" "nodes (db\<lparr>db_size := n\<rparr>) mp = nodes db mp"
  "db_wf (db\<lparr>db_header := h\<rparr>) = db_wf db" "stream (db\<lparr>db_header := h\<rparr>) = stream db" "nodes (db\<lparr>db_header := h\<rparr>) mp = nodes db mp"
  by (simp_all add: db_chain_def db_wf_def stream_def nodes_def split: list.splits)

lemma stream_Cons:
  "db_msgs db = m # ms \<Longrightarrow> db_chain db \<Longrightarrow> stream db = drop (db_offset db) (m_buffer m) @ concat (map m_buffer ms)"
  by (simp add: stream_def db_chain_def)

lemma read_loop_ok:
  assumes "db_chain db" "sz \<le> length (stream db)" "0 < sz"
  shows "\<exists>db' mp'. read_loop db mp sz = Inr (db', mp', take sz (stream db)) \<and> db_chain db'
    \<and> stream db' = drop sz (stream db) \<and> db_header db' = db_header db \<and> db_size db' = db_size db
    \<and> mp_blocks mp' = mp_blocks mp \<and> nodes db' mp' = nodes db mp"
  using assms
proof (induction db mp sz rule: read_loop.induct)
  case (1 db mp sz)
  then obtain m ms where ms: "db_msgs db = m # ms" by (cases "db_msgs db") (auto simp: stream_def)
  let ?b = "drop (db_offset db) (m_buffer m)"
  have st: "stream db = ?b @ concat (map m_buffer ms)" using stream_Cons [OF ms 1(2)] .
  have off: "db_offset db \<le> length (m_buffer m)" using 1(2) ms by (simp add: db_chain_def)
  let ?db = "db\<lparr>db_msgs := ms, db_offset := 0\<rparr>" and ?mp = "mp\<lparr>mp_freelist := m_node m # mp_freelist mp\<rparr>"
  have st': "stream ?db = concat (map m_buffer ms)" "db_chain ?db" "nodes ?db ?mp = nodes db mp"
    by (auto simp: stream_def db_chain_def nodes_def ms split: list.splits)
  consider "sz < length ?b" | "sz = length ?b" | "length ?b < sz" by linarith
  then show ?case
  proof cases
    case 1
    then have "read_loop db mp sz = Inr (db\<lparr>db_offset := db_offset db + sz\<rparr>, mp, take sz ?b)"
      using ms off by (subst read_loop.simps) simp
    moreover have "db_chain (db\<lparr>db_offset := db_offset db + sz\<rparr>)" using 1 ms by (simp add: db_chain_def)
    ultimately show ?thesis using 1 st ms by (simp add: stream_def nodes_def add.commute)
  next
    case 2
    then have "read_loop db mp sz = Inr (?db, ?mp, ?b)"
      using ms off by (subst read_loop.simps) (simp add: return_message_def)
    then show ?thesis using 2 st st' by simp
  next
    case 3
    then have "\<not> length ?b > sz" "length ?b \<noteq> sz" by simp_all
    then have "\<exists>db' mp'. read_loop ?db ?mp (sz - length ?b) = Inr (db', mp', take (sz - length ?b) (stream ?db)) \<and> db_chain db'
      \<and> stream db' = drop (sz - length ?b) (stream ?db) \<and> db_header db' = db_header ?db \<and> db_size db' = db_size ?db
      \<and> mp_blocks mp' = mp_blocks ?mp \<and> nodes db' mp' = nodes ?db ?mp"
      using "1.IH" [OF ms _ refl refl _ _ refl] ms off "1.prems"(2) 3 st st'
      by (auto simp: return_message_def)
    moreover have "read_loop db mp sz = cbind (read_loop ?db ?mp (sz - length ?b)) (\<lambda>(db, mp, rest). Inr (db, mp, ?b @ rest))"
      using ms off 3 by (subst read_loop.simps) (simp add: return_message_def)
    ultimately show ?thesis using st st' 3 by auto
  qed
qed

lemma databuffer_read_ok:
  assumes "db_wf db" "sz \<le> db_size db" "0 < sz"
  shows "\<exists>db' mp'. databuffer_read db mp sz = Inr (db', mp', take sz (stream db)) \<and> db_wf db'
    \<and> stream db' = drop sz (stream db) \<and> db_header db' = db_header db
    \<and> mp_blocks mp' = mp_blocks mp \<and> nodes db' mp' = nodes db mp"
proof -
  let ?db = "db\<lparr>db_size := db_size db - sz\<rparr>"
  have "db_chain ?db" using assms(1) by (simp add: db_wf_def)
  with read_loop_ok [of ?db sz mp] assms show ?thesis
    by (auto simp: databuffer_read_def db_wf_def)
qed

lemma databuffer_push_ok:
  assumes "db_wf db" "db_size db + length data \<le> INT_MAX"
  shows "\<exists>db' mp'. databuffer_push db mp data = Inr (db', mp') \<and> db_wf db' \<and> stream db' = stream db @ data
    \<and> db_header db' = db_header db"
proof -
  obtain mp' m where p: "pool_take mp = (mp', m)" by (cases "pool_take mp")
  let ?db = "db\<lparr>db_size := db_size db + length data, db_msgs := db_msgs db @ [\<lparr>m_node = m, m_buffer = data\<rparr>]\<rparr>"
  have "stream ?db = stream db @ data" "db_chain ?db"
    using assms(1) by (cases "db_msgs db"; simp add: db_wf_def db_chain_def stream_def)+
  then show ?thesis using assms p by (simp add: databuffer_push_def db_wf_def)
qed

lemma empty_databuffer_wf [simp]: "db_wf empty_databuffer" "stream empty_databuffer = []" "db_header empty_databuffer = 0"
  by (simp_all add: db_wf_def db_chain_def stream_def empty_databuffer_def)

section \<open>Runs\<close>

text \<open>Every node of every block is either free or in the chain, once.\<close>

definition pool_ok :: "databuffer \<Rightarrow> messagepool \<Rightarrow> bool" where
  "pool_ok db mp \<longleftrightarrow> nodes db mp = mset [0..<mp_blocks mp * MESSAGEPOOL]"

lemma pool_take_ok:
  assumes "pool_ok db mp" "pool_take mp = (mp', m)"
  shows "add_mset m (nodes db mp') = mset [0..<mp_blocks mp' * MESSAGEPOOL]"
proof (cases "mp_freelist mp")
  case Nil
  let ?b = "mp_blocks mp * MESSAGEPOOL"
  have mp': "m = ?b" "mp' = mp\<lparr>mp_blocks := mp_blocks mp + 1, mp_freelist := [?b + 1..<?b + MESSAGEPOOL]\<rparr>"
    using assms(2) Nil by (auto simp: pool_take_def Let_def)
  have "[0..<?b + MESSAGEPOOL] = [0..<?b] @ ?b # [?b + 1..<?b + MESSAGEPOOL]"
    using upt_add_eq_append [of 0 ?b MESSAGEPOOL] upt_conv_Cons [of ?b "?b + MESSAGEPOOL"] by (simp add: MESSAGEPOOL_def)
  moreover have "nodes db mp' = nodes db mp + mset [?b + 1..<?b + MESSAGEPOOL]"
    by (simp add: nodes_def mp' Nil)
  ultimately show ?thesis using assms(1) by (simp add: mp' pool_ok_def add.commute)
next
  case (Cons x xs)
  then show ?thesis using assms by (auto simp: pool_take_def pool_ok_def nodes_def)
qed

lemma databuffer_push_pool:
  assumes "pool_ok db mp" "databuffer_push db mp data = Inr (db', mp')"
  shows "pool_ok db' mp'"
proof -
  obtain mp1 m where p: "pool_take mp = (mp1, m)" by (cases "pool_take mp")
  then have r: "mp' = mp1" "nodes db' mp' = add_mset m (nodes db mp1)"
    using assms(2) by (auto simp: databuffer_push_def nodes_def split: if_splits)
  then show ?thesis using pool_take_ok [OF assms(1) p] by (simp add: pool_ok_def)
qed

lemma databuffer_clear_ok:
  "databuffer_clear db mp = (empty_databuffer, mp') \<Longrightarrow> nodes empty_databuffer mp' = nodes db mp \<and> mp_blocks mp' = mp_blocks mp"
  by (auto simp: databuffer_clear_def nodes_def empty_databuffer_def)

datatype db_op = Push "u8 list" | Read nat

fun run_db :: "db_op list \<Rightarrow> databuffer \<Rightarrow> messagepool \<Rightarrow> (databuffer \<times> messagepool \<times> u8 list list) res" where
  "run_db [] db mp = Inr (db, mp, [])"
| "run_db (Push data # ops) db mp = cbind (databuffer_push db mp data) (\<lambda>(db, mp). run_db ops db mp)"
| "run_db (Read n # ops) db mp =
     cbind (databuffer_read db mp n) (\<lambda>(db, mp, bs).
     cbind (run_db ops db mp) (\<lambda>(db, mp, outs). Inr (db, mp, bs # outs)))"

text \<open>The specification: the bytes, and a read of at least one byte and no more than there are.\<close>

fun spec_db :: "db_op list \<Rightarrow> u8 list \<Rightarrow> (u8 list \<times> u8 list list) option" where
  "spec_db [] bs = Some (bs, [])"
| "spec_db (Push data # ops) bs = (if length bs + length data \<le> INT_MAX then spec_db ops (bs @ data) else None)"
| "spec_db (Read n # ops) bs =
     (if 0 < n \<and> n \<le> length bs then map_option (\<lambda>(r, outs). (r, take n bs # outs)) (spec_db ops (drop n bs))
      else None)"

section \<open>Properties\<close>

text \<open>
  C11. The receive buffer is a byte stream. Whatever the sizes of the chunks that arrive and of the
  reads, a run of \<open>databuffer_push\<close> and \<open>databuffer_read\<close> returns the bytes in the order they
  arrived, without a failing assertion or a bad access, and every node of the pool stays either
  free or in the chain, exactly once.
\<close>

theorem databuffer_is_stream:
  assumes "db_wf db" "pool_ok db mp" "spec_db ops (stream db) = Some (rest, outs)"
  shows "\<exists>db' mp'. run_db ops db mp = Inr (db', mp', outs) \<and> stream db' = rest \<and> db_wf db' \<and> pool_ok db' mp'"
  using assms
proof (induction ops arbitrary: db mp outs)
  case (Cons a ops)
  show ?case
  proof (cases a)
    case (Push data)
    then have sz: "db_size db + length data \<le> INT_MAX" and s: "spec_db ops (stream db @ data) = Some (rest, outs)"
      using Cons.prems by (auto simp: db_wf_def split: if_splits)
    from databuffer_push_ok [OF Cons.prems(1) sz] obtain db1 mp1 where
      1: "databuffer_push db mp data = Inr (db1, mp1)" "db_wf db1" "stream db1 = stream db @ data" by blast
    from Cons.IH [OF 1(2) databuffer_push_pool [OF Cons.prems(2) 1(1)]] s 1 show ?thesis
      by (simp add: Push)
  next
    case (Read n)
    then obtain outs1 where n: "0 < n" "n \<le> db_size db" and s: "spec_db ops (drop n (stream db)) = Some (rest, outs1)"
      "outs = take n (stream db) # outs1"
      using Cons.prems by (auto simp: db_wf_def split: if_splits)
    from databuffer_read_ok [OF Cons.prems(1) n(2,1)] obtain db1 mp1 where
      1: "databuffer_read db mp n = Inr (db1, mp1, take n (stream db))" "db_wf db1" "stream db1 = drop n (stream db)"
      "mp_blocks mp1 = mp_blocks mp" "nodes db1 mp1 = nodes db mp" by blast
    then have "pool_ok db1 mp1" using Cons.prems(2) by (simp add: pool_ok_def)
    from Cons.IH [OF 1(2) this] s 1 show ?thesis by (auto simp: Read)
  qed
qed simp

theorem databuffer_is_stream_witness:
  "\<exists>db' mp'. run_db [Push [1, 2], Push [3, 4, 5], Read 3, Read 1] empty_databuffer empty_pool = Inr (db', mp', [[1, 2, 3], [4]])
    \<and> stream db' = [5]"
proof -
  have "pool_ok empty_databuffer empty_pool" by (simp add: pool_ok_def nodes_def empty_databuffer_def empty_pool_def)
  from databuffer_is_stream [OF empty_databuffer_wf(1) this, of "[Push [1, 2], Push [3, 4, 5], Read 3, Read 1]" "[5]" "[[1, 2, 3], [4]]"]
  show ?thesis by (auto simp: INT_MAX_def)
qed

end
