(* ===== verification/Sky_Gate.thy ===== *)
theory Sky_Gate
  imports Sky_Service Sky_Hashid Sky_Databuffer
begin

text \<open>
  Model of \<^verbatim>\<open>service-src/service_gate.c\<close>: the service that accepts client connections, cuts their
  byte streams into packets by a 2- or 4-byte length header and forwards the packets to a broker,
  to the agent of the connection or to the watchdog.

  A connection is an index into \<open>g_conn\<close>. The loop of \<open>dispatch_message\<close> is
  \<open>dispatch_loop\<close>, whose value \<open>None\<close> is a loop that does not end.
\<close>

section \<open>Data\<close>

record connection =
  c_id :: int
  c_agent :: u32
  c_client :: u32
  c_remote_name :: string
  c_buffer :: databuffer

record gate =
  g_listen_id :: int
  g_watchdog :: u32
  g_broker :: u32
  g_client_tag :: int
  g_header_size :: nat
  g_max_connection :: nat
  g_hash :: hashid
  g_conn :: "connection list"
  g_mp :: messagepool

definition empty_connection :: "int \<Rightarrow> connection" where
  "empty_connection i = \<lparr>c_id = i, c_agent = 0, c_client = 0, c_remote_name = [], c_buffer = empty_databuffer\<rparr>"

definition gate_create :: gate where
  "gate_create =
     \<lparr>g_listen_id = -1, g_watchdog = 0, g_broker = 0, g_client_tag = 0, g_header_size = 0, g_max_connection = 0,
      g_hash = \<lparr>hi_hashmod = 0, hi_cap = 0, hi_count = 0, hi_id = [], hi_hash = []\<rparr>, g_conn = [], g_mp = empty_pool\<rparr>"

definition gate_release :: "gate \<Rightarrow> gate \<times> svc_out list" where
  "gate_release g =
     (g\<lparr>g_mp := messagepool_free (g_mp g), g_hash := hashid_clear (g_hash g), g_conn := []\<rparr>,
      map (\<lambda>c. SocketClose (c_id c)) (filter (\<lambda>c. c_id c \<ge> 0) (take (g_max_connection g) (g_conn g)))
      @ (if g_listen_id g \<ge> 0 then [SocketClose (g_listen_id g)] else []))"

definition conn_at :: "gate \<Rightarrow> int \<Rightarrow> connection res" where
  "conn_at g i = (if 0 \<le> i \<and> nat i < length (g_conn g) then Inr (g_conn g ! nat i) else Inl OutOfBounds)"

definition set_conn :: "gate \<Rightarrow> int \<Rightarrow> connection \<Rightarrow> gate" where
  "set_conn g i c = g\<lparr>g_conn := (g_conn g)[nat i := c]\<rparr>"

section \<open>Commands\<close>

text \<open>\<open>_parm\<close>: the blanks after the command are skipped and the rest moved to the front of the buffer.\<close>

definition parm :: "string \<Rightarrow> nat \<Rightarrow> nat \<Rightarrow> string" where
  "parm msg len command_sz =
     (let rest = dropWhile (\<lambda>c. c = CHR '' '') (drop command_sz (take len msg)) in
      rest @ NUL # drop (length rest + 1) msg)"

definition forward_agent :: "gate \<Rightarrow> int \<Rightarrow> u32 \<Rightarrow> u32 \<Rightarrow> gate res" where
  "forward_agent g fd agentaddr clientaddr =
     cbind (hashid_lookup (g_hash g) fd) (\<lambda>i.
     if i \<ge> 0 then
       cbind (conn_at g i) (\<lambda>c. Inr (set_conn g i (c\<lparr>c_agent := agentaddr, c_client := clientaddr\<rparr>)))
     else Inr g)"

definition ctrl_forward :: "gate \<Rightarrow> string \<Rightarrow> gate res" where
  "ctrl_forward g tmp =
     (case strsep tmp 0 of
        (_, None) \<Rightarrow> Inr g
      | (tmp, Some agent) \<Rightarrow>
          let fd = to_int (strtol10 (cstr tmp 0)) in
          (case strsep tmp agent of
             (_, None) \<Rightarrow> Inr g
           | (tmp, Some client) \<Rightarrow>
               forward_agent g fd (ucast (strtoul16 (cstr tmp (agent + 1)))) (ucast (strtoul16 (cstr tmp (client + 1))))))"

definition ctrl :: "(string \<Rightarrow> u32) \<Rightarrow> gate \<Rightarrow> string \<Rightarrow> (gate \<times> svc_out list) res" where
  "ctrl queryname g msg =
     (let len = length msg;
          tmp = msg @ [NUL];
          i = length (takeWhile (\<lambda>c. c \<noteq> CHR '' '') msg) in
      if len = 0 then Inr (g, [])
      else if memcmp_eq tmp ''kick'' i then
        let uid = to_int (strtol10 (cstr (parm tmp len i) 0)) in
        cbind (hashid_lookup (g_hash g) uid) (\<lambda>j. Inr (g, if j \<ge> 0 then [SocketClose uid] else []))
      else if memcmp_eq tmp ''forward'' i then
        cbind (ctrl_forward g (parm tmp len i)) (\<lambda>g. Inr (g, []))
      else if memcmp_eq tmp ''broker'' i then
        Inr (g\<lparr>g_broker := queryname (cstr (parm tmp len i) 0)\<rparr>, [])
      else if memcmp_eq tmp ''start'' i then
        let uid = to_int (strtol10 (cstr (parm tmp len i) 0)) in
        cbind (hashid_lookup (g_hash g) uid) (\<lambda>j. Inr (g, if j \<ge> 0 then [SocketStart uid] else []))
      else if memcmp_eq tmp ''close'' i then
        if g_listen_id g \<ge> 0 then Inr (g\<lparr>g_listen_id := -1\<rparr>, [SocketClose (g_listen_id g)]) else Inr (g, [])
      else Inr (g, [LogError (''[gate] Unknown command : '' @ cstr tmp 0)]))"

definition report :: "gate \<Rightarrow> string \<Rightarrow> svc_out list" where
  "report g data =
     (if g_watchdog g = 0 then [] else [Send 0 (g_watchdog g) (int PTYPE_TEXT) 0 (str_bytes data)])"

section \<open>Data\<close>

definition forward :: "gate \<Rightarrow> int \<Rightarrow> int \<Rightarrow> (gate \<times> svc_out list) res" where
  "forward g i psize =
     cbind (conn_at g i) (\<lambda>c.
     let fd = c_id c;
         read = (\<lambda>out. cbind (databuffer_read (c_buffer c) (g_mp g) (nat psize)) (\<lambda>(b, mp, temp).
                   Inr ((set_conn g i (c\<lparr>c_buffer := b\<rparr>))\<lparr>g_mp := mp\<rparr>, [out temp]))) in
     if fd \<le> 0 then Inr (g, [])
     else if g_broker g \<noteq> 0 then
       read (\<lambda>temp. Send 0 (g_broker g) (g_client_tag g OR PTYPE_TAG_DONTCOPY) fd temp)
     else if c_agent c \<noteq> 0 then
       read (\<lambda>temp. Send (c_client c) (c_agent c) (g_client_tag g OR PTYPE_TAG_DONTCOPY) fd temp)
     else if g_watchdog g \<noteq> 0 then
       read (\<lambda>temp. Send 0 (g_watchdog g) (int PTYPE_TEXT OR PTYPE_TAG_DONTCOPY) fd
                      (str_bytes (int_str fd @ '' data '') @ temp))
     else Inr (g, []))"

text \<open>One pass through the loop of \<open>dispatch_message\<close>: the last component says whether to go on.\<close>

definition dispatch_pass :: "gate \<Rightarrow> int \<Rightarrow> int \<Rightarrow> (gate \<times> svc_out list \<times> bool) res" where
  "dispatch_pass g i fd =
     cbind (conn_at g i) (\<lambda>c.
     cbind (databuffer_readheader (c_buffer c) (g_mp g) (g_header_size g)) (\<lambda>(b, mp, psize).
     let g = (set_conn g i (c\<lparr>c_buffer := b\<rparr>))\<lparr>g_mp := mp\<rparr> in
     if psize < 0 then Inr (g, [], False)
     else if psize > 0 then
       if psize \<ge> 0x1000000 then
         let (b, mp) = databuffer_clear b mp in
         Inr ((set_conn g i (c\<lparr>c_buffer := b\<rparr>))\<lparr>g_mp := mp\<rparr>,
              [SocketClose fd, LogError ''Recv socket message > 16M''], False)
       else
         cbind (forward g i psize) (\<lambda>(g, out).
         cbind (conn_at g i) (\<lambda>c.
         Inr (set_conn g i (c\<lparr>c_buffer := databuffer_reset (c_buffer c)\<rparr>), out, True)))
     else Inr (g, [], True)))"

partial_function (option) dispatch_loop :: "gate \<Rightarrow> int \<Rightarrow> int \<Rightarrow> (gate \<times> svc_out list) res option" where
  "dispatch_loop g i fd =
     (case dispatch_pass g i fd of
        Inl e \<Rightarrow> Some (Inl e)
      | Inr (g, out, again) \<Rightarrow>
          if again then
            Option.bind (dispatch_loop g i fd) (\<lambda>r. Some (cbind r (\<lambda>(g, outs). Inr (g, out @ outs))))
          else Some (Inr (g, out)))"

definition dispatch_message :: "gate \<Rightarrow> int \<Rightarrow> int \<Rightarrow> u8 list \<Rightarrow> (gate \<times> svc_out list) res" where
  "dispatch_message g i fd data =
     cbind (conn_at g i) (\<lambda>c.
     cbind (databuffer_push (c_buffer c) (g_mp g) data) (\<lambda>(b, mp).
     case dispatch_loop ((set_conn g i (c\<lparr>c_buffer := b\<rparr>))\<lparr>g_mp := mp\<rparr>) i fd of
       None \<Rightarrow> Inl Diverges
     | Some r \<Rightarrow> r))"

definition dispatch_socket_message :: "gate \<Rightarrow> socket_message \<Rightarrow> (gate \<times> svc_out list) res" where
  "dispatch_socket_message g m =
     (if ss_type m = SKYNET_SOCKET_TYPE_DATA then
        cbind (hashid_lookup (g_hash g) (ss_id m)) (\<lambda>i.
        if i \<ge> 0 then dispatch_message g i (ss_id m) (ss_buffer m)
        else Inr (g, [LogError (''Drop unknown connection '' @ int_str (ss_id m) @ '' message''), SocketClose (ss_id m)]))
      else if ss_type m = SKYNET_SOCKET_TYPE_CONNECT then
        if ss_id m = g_listen_id g then Inr (g, [])
        else
          cbind (hashid_lookup (g_hash g) (ss_id m)) (\<lambda>i.
          Inr (g, if i < 0 then [LogError (''Close unknown connection '' @ int_str (ss_id m)), SocketClose (ss_id m)] else []))
      else if ss_type m = SKYNET_SOCKET_TYPE_CLOSE \<or> ss_type m = SKYNET_SOCKET_TYPE_ERROR then
        cbind (hashid_remove (g_hash g) (ss_id m)) (\<lambda>(h, i).
        let g = g\<lparr>g_hash := h\<rparr> in
        if i \<ge> 0 then
          cbind (conn_at g i) (\<lambda>c.
          let (b, mp) = databuffer_clear (c_buffer c) (g_mp g);
              g = (set_conn g i (empty_connection (-1)))\<lparr>g_mp := mp\<rparr> in
          Inr (g, report g (int_str (ss_id m) @ '' close'') @ [SocketClose (ss_id m)]))
        else Inr (g, []))
      else if ss_type m = SKYNET_SOCKET_TYPE_ACCEPT then
        cbind (c_assert (g_listen_id g = ss_id m)) (\<lambda>_.
        if hashid_full (g_hash g) then Inr (g, [SocketClose (ss_ud m)])
        else
          cbind (hashid_insert (g_hash g) (ss_ud m)) (\<lambda>(h, j).
          let g = g\<lparr>g_hash := h\<rparr>; i = int j in
          cbind (conn_at g i) (\<lambda>c.
          let name = bytes_str (take 31 (ss_tail m));
              c = c\<lparr>c_id := ss_ud m, c_remote_name := name\<rparr>;
              g = set_conn g i c in
          Inr (g, report g (int_str (c_id c) @ '' open '' @ int_str (c_id c) @ '' '' @ cstr name 0 @ '':0'')
                  @ [LogError (''socket open: '' @ hex_str (word_of_int (c_id c)))]))))
      else if ss_type m = SKYNET_SOCKET_TYPE_WARNING then
        Inr (g, [LogError (''fd ('' @ int_str (ss_id m) @ '') send buffer ('' @ int_str (ss_ud m) @ '')K'')])
      else Inr (g, []))"

section \<open>The callback and the start\<close>

text \<open>What arrives: text, data of a client message, or a message of the socket thread.\<close>

datatype gate_msg = Text string | Client "u8 list" | Socket socket_message | Other

text \<open>The id in the last four bytes of a client message, lowest byte first.\<close>

definition client_uid :: "u8 list \<Rightarrow> u32" where
  "client_uid idbuf =
     (case idbuf of
        [a, b, c, d] \<Rightarrow> ucast a OR push_bit 8 (ucast b) OR push_bit 16 (ucast c) OR push_bit 24 (ucast d)
      | _ \<Rightarrow> 0)"

definition gate_cb :: "(string \<Rightarrow> u32) \<Rightarrow> gate \<Rightarrow> u32 \<Rightarrow> gate_msg \<Rightarrow> (gate \<times> svc_out list \<times> int) res" where
  "gate_cb queryname g src m =
     (case m of
        Text msg \<Rightarrow> cbind (ctrl queryname g msg) (\<lambda>(g, out). Inr (g, out, 0))
      | Client msg \<Rightarrow>
          if length msg \<le> 4 then Inr (g, [LogError (''Invalid client message from '' @ hex_str src)], 0)
          else
            let uid = client_uid (drop (length msg - 4) msg) in
            cbind (hashid_lookup (g_hash g) (sint uid)) (\<lambda>i.
            if i \<ge> 0 then Inr (g, [SocketSend (sint uid) (take (length msg - 4) msg)], 1)
            else Inr (g, [LogError (''Invalid client id '' @ int_str (sint uid) @ '' from '' @ hex_str src)], 0))
      | Socket m \<Rightarrow> cbind (dispatch_socket_message g m) (\<lambda>(g, out). Inr (g, out, 0))
      | Other \<Rightarrow> Inr (g, [], 0))"

text \<open>The last colon splits host and port.\<close>

definition split_addr :: "string \<Rightarrow> string \<times> string" where
  "split_addr addr =
     (if CHR '':'' \<in> set addr
      then (let port = rev (takeWhile (\<lambda>c. c \<noteq> CHR '':'') (rev addr)) in (take (length addr - length port - 1) addr, port))
      else ('''', addr))"

definition start_listen :: "(string \<Rightarrow> int \<Rightarrow> int) \<Rightarrow> gate \<Rightarrow> string \<Rightarrow> gate \<times> svc_out list \<times> int" where
  "start_listen listen g listen_addr =
     (let (host, portstr) = split_addr listen_addr;
          port = to_int (strtol10 portstr) in
      if port \<le> 0 then (g, [LogError (''Invalid gate address '' @ listen_addr)], 1)
      else
        let lid = listen host port; g = g\<lparr>g_listen_id := lid\<rparr> in
        if lid < 0 then (g, [SocketListen host port], 1)
        else (g, [SocketListen host port, SocketStart lid], 0))"

text \<open>
  \<open>sscanf(parm, "%c %s %s %d %d", ...)\<close>: the number of conversions, and the values. A conversion
  that fails ends the scan.
\<close>

definition scan_word :: "string \<Rightarrow> string \<times> string" where
  "scan_word s = (let s = dropWhile isspace s in (takeWhile (\<lambda>c. \<not> isspace c) s, dropWhile (\<lambda>c. \<not> isspace c) s))"

definition scan_int :: "string \<Rightarrow> (int \<times> string) option" where
  "scan_int s =
     (let (neg, t) = skip_sign s; ds = leading_digits 10 t in
      if ds = [] then None else Some (to_int (strtol10 s), drop (length ds) t))"

definition scan_parm :: "string \<Rightarrow> nat \<times> char \<times> string \<times> string \<times> int \<times> int" where
  "scan_parm p =
     (case p of
        [] \<Rightarrow> (0, NUL, [], [], 0, 0)
      | header # p \<Rightarrow>
          let (watchdog, p) = scan_word p; (binding, p) = scan_word p in
          if watchdog = [] then (1, header, [], [], 0, 0)
          else if binding = [] then (2, header, watchdog, [], 0, 0)
          else
            (case scan_int p of
               None \<Rightarrow> (3, header, watchdog, binding, 0, 0)
             | Some (client_tag, p) \<Rightarrow>
                 (case scan_int p of
                    None \<Rightarrow> (4, header, watchdog, binding, client_tag, 0)
                  | Some (mx, _) \<Rightarrow> (5, header, watchdog, binding, client_tag, mx))))"

definition gate_init ::
  "(string \<Rightarrow> u32) \<Rightarrow> (string \<Rightarrow> int \<Rightarrow> int) \<Rightarrow> gate \<Rightarrow> string option \<Rightarrow> (gate \<times> svc_out list \<times> int) res" where
  "gate_init queryname listen g p =
     (case p of
        None \<Rightarrow> Inr (g, [], 1)
      | Some arg \<Rightarrow>
          let (n, header, watchdog, binding, client_tag, mx) = scan_parm arg in
          if n < 4 then Inr (g, [LogError (''Invalid gate parm '' @ arg)], 1)
          else if mx \<le> 0 then Inr (g, [LogError ''Need max connection''], 1)
          else if header \<noteq> CHR ''S'' \<and> header \<noteq> CHR ''L'' then Inr (g, [LogError ''Invalid data header style''], 1)
          else
            let wd = (if hd watchdog = CHR ''!'' then 0 else queryname watchdog) in
            if hd watchdog \<noteq> CHR ''!'' \<and> wd = 0 then Inr (g\<lparr>g_watchdog := wd\<rparr>, [LogError (''Invalid watchdog '' @ watchdog)], 1)
            else
              cbind (hashid_init (nat mx)) (\<lambda>h.
              let g = g\<lparr>g_watchdog := wd, g_hash := h, g_conn := replicate (nat mx) (empty_connection (-1)),
                        g_max_connection := nat mx,
                        g_client_tag := (if client_tag = 0 then int PTYPE_CLIENT else client_tag),
                        g_header_size := (if header = CHR ''S'' then 2 else 4)\<rparr>;
                  (g, out, ret) = start_listen listen g binding in
              Inr (g, SetCallback # out, ret)))"

end
