(* ===== verification/Sky_Gate_Frames.thy ===== *)
theory Sky_Gate_Frames
  imports Sky_Gate
begin

text \<open>
  Correctness of the packet framing of the gate: the loop of \<open>dispatch_message\<close> always ends and
  does what a parser of the byte stream (\<open>parse\<close>) does, so that what is forwarded does not depend on
  how the network cut the stream, and every packet a client encodes is forwarded once, in order.
\<close>

section \<open>The specification\<close>

definition hdr :: "nat \<Rightarrow> u8 list \<Rightarrow> int" where
  "hdr hs bs = (case header_value hs bs of Inl _ \<Rightarrow> 0 | Inr h \<Rightarrow> h)"

datatype frame = Packet "u8 list" | Oversize

text \<open>
  The frames in a stream, from header \<open>h\<close> on (0: the header is still to be read), with the header
  and the bytes that are left over.
\<close>

function parse :: "nat \<Rightarrow> int \<Rightarrow> u8 list \<Rightarrow> frame list \<times> int \<times> u8 list" where
  "parse hs h bs =
     (if h = 0 then
        if hs = 0 \<or> length bs < hs then ([], 0, bs)
        else parse hs (hdr hs (take hs bs)) (drop hs bs)
      else if h < 0 \<or> int (length bs) < h then ([], h, bs)
      else if h \<ge> 0x1000000 then ([Oversize], 0, [])
      else (case parse hs 0 (drop (nat h) bs) of (fs, h', r) \<Rightarrow> (Packet (take (nat h) bs) # fs, h', r)))"
  by pat_completeness auto
termination
  by (relation "measure (\<lambda>(hs, h, bs). length bs)") auto

declare parse.simps [simp del]

section \<open>The loop\<close>

definition upd :: "gate \<Rightarrow> int \<Rightarrow> connection \<Rightarrow> databuffer \<Rightarrow> messagepool \<Rightarrow> gate" where
  "upd g i c b mp = (set_conn g i (c\<lparr>c_buffer := b\<rparr>))\<lparr>g_mp := mp\<rparr>"

definition valid_index :: "gate \<Rightarrow> int \<Rightarrow> bool" where
  "valid_index g i \<longleftrightarrow> 0 \<le> i \<and> nat i < length (g_conn g)"

lemma upd_simps [simp]:
  "valid_index g i \<Longrightarrow> conn_at (upd g i c b mp) i = Inr (c\<lparr>c_buffer := b\<rparr>)"
  "(upd g i c b mp)\<lparr>g_mp := mp'\<rparr> = upd g i c b mp'"
  "set_conn (upd g i c b mp) i (c\<lparr>c_buffer := b'\<rparr>) = upd g i c b' mp"
  "g_mp (upd g i c b mp) = mp" "g_header_size (upd g i c b mp) = g_header_size g"
  "g_broker (upd g i c b mp) = g_broker g" "g_watchdog (upd g i c b mp) = g_watchdog g"
  "g_client_tag (upd g i c b mp) = g_client_tag g" "valid_index (upd g i c b mp) i = valid_index g i"
  by (simp_all add: upd_def conn_at_def set_conn_def valid_index_def)

text \<open>Somebody wants the packets of the connection, and its socket is open.\<close>

definition has_dest :: "gate \<Rightarrow> connection \<Rightarrow> bool" where
  "has_dest g c \<longleftrightarrow> 0 < c_id c \<and> (g_broker g \<noteq> 0 \<or> c_agent c \<noteq> 0 \<or> g_watchdog g \<noteq> 0)"

definition packet_out :: "gate \<Rightarrow> connection \<Rightarrow> u8 list \<Rightarrow> svc_out" where
  "packet_out g c p =
     (if g_broker g \<noteq> 0 then Send 0 (g_broker g) (g_client_tag g OR PTYPE_TAG_DONTCOPY) (c_id c) p
      else if c_agent c \<noteq> 0 then Send (c_client c) (c_agent c) (g_client_tag g OR PTYPE_TAG_DONTCOPY) (c_id c) p
      else Send 0 (g_watchdog g) (int PTYPE_TEXT OR PTYPE_TAG_DONTCOPY) (c_id c)
             (str_bytes (int_str (c_id c) @ '' data '') @ p))"

fun frame_out :: "gate \<Rightarrow> connection \<Rightarrow> int \<Rightarrow> frame \<Rightarrow> svc_out list" where
  "frame_out g c fd (Packet p) = [packet_out g c p]"
| "frame_out g c fd Oversize = [SocketClose fd, LogError ''Recv socket message > 16M'']"

lemma forward_dest:
  assumes "valid_index g i" "has_dest g c"
  shows "forward (upd g i c b mp) i n =
    cbind (databuffer_read b mp (nat n)) (\<lambda>(b, mp, p). Inr (upd g i c b mp, [packet_out g c p]))"
  using assms by (auto simp: forward_def has_dest_def packet_out_def Let_def)

definition header_ok :: "nat \<Rightarrow> bool" where
  "header_ok hs \<longleftrightarrow> hs = 2 \<or> hs = 4"

lemma header_value_ok: "header_ok hs \<Longrightarrow> length bs = hs \<Longrightarrow> header_value hs bs = Inr (hdr hs bs)"
  by (auto simp: header_ok_def hdr_def header_value_def numeral_eq_Suc length_Suc_conv)

lemma readheader_zero:
  assumes "db_wf b" "header_ok hs" "db_header b = 0" "hs \<le> length (stream b)"
  shows "\<exists>b1 mp1. db_wf b1 \<and> db_header b1 = hdr hs (take hs (stream b)) \<and> stream b1 = drop hs (stream b)
    \<and> databuffer_readheader b mp hs =
        (if int (db_size b1) < db_header b1 then Inr (b1, mp1, -1) else Inr (b1, mp1, db_header b1))"
proof -
  have sz: "hs \<le> db_size b" "0 < hs" using assms by (auto simp: db_wf_def header_ok_def)
  from databuffer_read_ok [OF assms(1) sz, of mp] obtain b0 mp1 where
    r: "databuffer_read b mp hs = Inr (b0, mp1, take hs (stream b))" "db_wf b0" "stream b0 = drop hs (stream b)" by blast
  let ?b = "b0\<lparr>db_header := hdr hs (take hs (stream b))\<rparr>"
  have "header_value hs (take hs (stream b)) = Inr (hdr hs (take hs (stream b)))"
    using assms by (intro header_value_ok) auto
  then have "databuffer_readheader b mp hs =
      (if int (db_size ?b) < db_header ?b then Inr (?b, mp1, -1) else Inr (?b, mp1, db_header ?b))"
    using assms(3) sz r by (simp add: databuffer_readheader_def)
  then show ?thesis using r by (intro exI [of _ ?b] exI [of _ mp1]) simp
qed

lemma readheader_nonzero:
  "db_header b \<noteq> 0 \<Longrightarrow> databuffer_readheader b mp hs =
     (if int (db_size b) < db_header b then Inr (b, mp, -1) else Inr (b, mp, db_header b))"
  by (simp add: databuffer_readheader_def)

lemma dispatch_pass_upd:
  assumes "valid_index g i"
  shows "dispatch_pass (upd g i c b mp) i fd =
    cbind (databuffer_readheader b mp (g_header_size g)) (\<lambda>(b, mp, n).
      if n < 0 then Inr (upd g i c b mp, [], False)
      else if n > 0 then
        if n \<ge> 0x1000000 then
          Inr (upd g i c (fst (databuffer_clear b mp)) (snd (databuffer_clear b mp)), frame_out g c fd Oversize, False)
        else cbind (forward (upd g i c b mp) i n) (\<lambda>(g, out). cbind (conn_at g i) (\<lambda>c.
               Inr (set_conn g i (c\<lparr>c_buffer := databuffer_reset (c_buffer c)\<rparr>), out, True)))
      else Inr (upd g i c b mp, [], True))"
  using assms by (cases "databuffer_readheader b mp (g_header_size g)")
    (auto simp: dispatch_pass_def Let_def split: prod.splits)

text \<open>Once the header is read, the loop is where it would be with the header read before.\<close>

lemma dispatch_loop_header:
  assumes "valid_index g i"
    "databuffer_readheader b mp (g_header_size g) =
        (if int (db_size b1) < db_header b1 then Inr (b1, mp1, -1) else Inr (b1, mp1, db_header b1))"
  shows "dispatch_loop (upd g i c b mp) i fd = dispatch_loop (upd g i c b1 mp1) i fd"
proof (cases "db_header b1 = 0")
  case True
  then have "dispatch_pass (upd g i c b mp) i fd = Inr (upd g i c b1 mp1, [], True)"
    using assms by (simp add: dispatch_pass_upd)
  then show ?thesis
    by (subst dispatch_loop.simps)
       (cases "dispatch_loop (upd g i c b1 mp1) i fd"; auto simp: Option.bind_def split: sum.splits;
        metis cbind.simps prod.exhaust_sel sum.exhaust_sel)
next
  case False
  then have "dispatch_pass (upd g i c b mp) i fd = dispatch_pass (upd g i c b1 mp1) i fd"
    using assms readheader_nonzero [OF False] by (simp add: dispatch_pass_upd)
  then show ?thesis by (subst (1 2) dispatch_loop.simps) simp
qed

lemma dispatch_loop_wait:
  assumes "valid_index g i" "databuffer_readheader b mp (g_header_size g) = Inr (b', mp', n)" "n < 0"
  shows "dispatch_loop (upd g i c b mp) i fd = Some (Inr (upd g i c b' mp', []))"
  using assms by (subst dispatch_loop.simps) (simp add: dispatch_pass_upd)

text \<open>From buffer \<open>b\<close> on the loop does what the parser does.\<close>

definition loop_parses :: "gate \<Rightarrow> int \<Rightarrow> connection \<Rightarrow> int \<Rightarrow> databuffer \<Rightarrow> bool" where
  "loop_parses g i c fd b \<longleftrightarrow>
     (\<forall>mp fs h r. parse (g_header_size g) (db_header b) (stream b) = (fs, h, r) \<longrightarrow>
        (\<exists>b' mp'. dispatch_loop (upd g i c b mp) i fd = Some (Inr (upd g i c b' mp', concat (map (frame_out g c fd) fs)))
           \<and> db_wf b' \<and> db_header b' = h \<and> stream b' = r))"

lemma loop_parses_packet:
  assumes "valid_index g i" "has_dest g c" "db_wf b"
    and h: "0 < db_header b" "db_header b \<le> int (length (stream b))" "db_header b < 0x1000000"
    and IH: "\<And>b'. length (stream b') < length (stream b) \<Longrightarrow> db_wf b' \<Longrightarrow> loop_parses g i c fd b'"
  shows "loop_parses g i c fd b"
  unfolding loop_parses_def
proof (intro allI impI)
  let ?h = "db_header b" and ?hs = "g_header_size g"
  fix mp fs h r assume pr: "parse ?hs ?h (stream b) = (fs, h, r)"
  have "nat ?h \<le> db_size b" "0 < nat ?h" using h assms(3) by (auto simp: db_wf_def)
  from databuffer_read_ok [OF assms(3) this, of mp] obtain b1 mp1 where
    r1: "databuffer_read b mp (nat ?h) = Inr (b1, mp1, take (nat ?h) (stream b))" "db_wf b1"
    "stream b1 = drop (nat ?h) (stream b)" by blast
  let ?b = "databuffer_reset b1"
  have st: "db_wf ?b" "db_header ?b = 0" "stream ?b = drop (nat ?h) (stream b)"
    using r1 by (simp_all add: databuffer_reset_def)
  obtain fs1 where p1: "parse ?hs (db_header ?b) (stream ?b) = (fs1, h, r)" "fs = Packet (take (nat ?h) (stream b)) # fs1"
    using pr h st by (subst (asm) parse.simps) (auto split: prod.splits)
  have "length (stream ?b) < length (stream b)" using h st by simp
  from IH [OF this st(1)] p1 obtain b2 mp2 where
    2: "dispatch_loop (upd g i c ?b mp1) i fd = Some (Inr (upd g i c b2 mp2, concat (map (frame_out g c fd) fs1)))"
    "db_wf b2" "db_header b2 = h" "stream b2 = r" unfolding loop_parses_def by blast
  have "dispatch_pass (upd g i c b mp) i fd = Inr (upd g i c ?b mp1, [packet_out g c (take (nat ?h) (stream b))], True)"
    using readheader_nonzero [of b mp ?hs] h assms r1 by (simp add: dispatch_pass_upd forward_dest db_wf_def)
  then have "dispatch_loop (upd g i c b mp) i fd = Some (Inr (upd g i c b2 mp2, concat (map (frame_out g c fd) fs)))"
    using 2 p1 by (subst dispatch_loop.simps) simp
  then show "\<exists>b' mp'. dispatch_loop (upd g i c b mp) i fd = Some (Inr (upd g i c b' mp', concat (map (frame_out g c fd) fs)))
      \<and> db_wf b' \<and> db_header b' = h \<and> stream b' = r" using 2 by blast
qed

lemma loop_parses_oversize:
  assumes "valid_index g i" "db_wf b" "db_header b \<ge> 0x1000000" "db_header b \<le> int (length (stream b))"
  shows "loop_parses g i c fd b"
  unfolding loop_parses_def
proof (intro allI impI)
  fix mp fs h r assume pr: "parse (g_header_size g) (db_header b) (stream b) = (fs, h, r)"
  have eq: "fs = [Oversize] \<and> h = 0 \<and> r = []"
    using pr assms(3,4) unfolding parse.simps [of _ "db_header b"] by (auto split: if_splits)
  have "dispatch_pass (upd g i c b mp) i fd =
      Inr (upd g i c (fst (databuffer_clear b mp)) (snd (databuffer_clear b mp)), frame_out g c fd Oversize, False)"
    using readheader_nonzero [of b mp "g_header_size g"] assms by (simp add: dispatch_pass_upd db_wf_def)
  then have "dispatch_loop (upd g i c b mp) i fd =
      Some (Inr (upd g i c empty_databuffer (snd (databuffer_clear b mp)), frame_out g c fd Oversize))"
    by (subst dispatch_loop.simps) (simp add: databuffer_clear_def)
  then show "\<exists>b' mp'. dispatch_loop (upd g i c b mp) i fd = Some (Inr (upd g i c b' mp', concat (map (frame_out g c fd) fs)))
      \<and> db_wf b' \<and> db_header b' = h \<and> stream b' = r"
    using eq by auto
qed

lemma loop_parses_wait:
  assumes "valid_index g i" "db_wf b" "db_header b < 0 \<or> int (length (stream b)) < db_header b"
  shows "loop_parses g i c fd b"
  unfolding loop_parses_def
proof (intro allI impI)
  fix mp fs h r assume pr: "parse (g_header_size g) (db_header b) (stream b) = (fs, h, r)"
  have ne: "db_header b \<noteq> 0" using assms(3) by auto
  have eq: "fs = [] \<and> h = db_header b \<and> r = stream b"
    using pr assms(3) ne unfolding parse.simps [of _ "db_header b"] by (auto split: if_splits)
  obtain n where "databuffer_readheader b mp (g_header_size g) = Inr (b, mp, n)" "n < 0"
    using readheader_nonzero [OF ne, of mp "g_header_size g"] assms
    by (cases "int (length (stream b)) < db_header b") (auto simp: db_wf_def)
  from dispatch_loop_wait [OF assms(1) this] show
    "\<exists>b' mp'. dispatch_loop (upd g i c b mp) i fd = Some (Inr (upd g i c b' mp', concat (map (frame_out g c fd) fs)))
      \<and> db_wf b' \<and> db_header b' = h \<and> stream b' = r"
    using eq assms(2) by auto
qed

lemma dispatch_loop_parses:
  assumes "valid_index g i" "has_dest g c" "header_ok (g_header_size g)" "db_wf b"
  shows "loop_parses g i c fd b"
  using assms(4)
proof (induction "length (stream b)" arbitrary: b rule: less_induct)
  case less
  let ?hs = "g_header_size g"
  have hs: "0 < ?hs" using assms(3) by (auto simp: header_ok_def)
  consider "db_header b < 0 \<or> int (length (stream b)) < db_header b"
    | "db_header b \<ge> 0x1000000" "db_header b \<le> int (length (stream b))"
    | "0 < db_header b" "db_header b \<le> int (length (stream b))" "db_header b < 0x1000000"
    | "db_header b = 0" "length (stream b) < ?hs" | "db_header b = 0" "?hs \<le> length (stream b)" by linarith
  then show ?case
  proof cases
    case 4
    then have "databuffer_readheader b mp ?hs = Inr (b, mp, -1)" for mp
      using less.prems by (simp add: databuffer_readheader_def db_wf_def)
    with 4 less.prems dispatch_loop_wait [OF assms(1)] show ?thesis
      unfolding loop_parses_def by (subst parse.simps) auto
  next
    case 5
    show ?thesis unfolding loop_parses_def
    proof (intro allI impI)
      fix mp fs h r assume pr: "parse ?hs (db_header b) (stream b) = (fs, h, r)"
      from readheader_zero [OF less.prems assms(3) 5, of mp] obtain b1 mp1 where
        1: "db_wf b1" "db_header b1 = hdr ?hs (take ?hs (stream b))" "stream b1 = drop ?hs (stream b)"
        and rh: "databuffer_readheader b mp ?hs =
            (if int (db_size b1) < db_header b1 then Inr (b1, mp1, -1) else Inr (b1, mp1, db_header b1))" by auto
      have "parse ?hs (db_header b1) (stream b1) = (fs, h, r)"
        using pr 5 hs 1 by (subst (asm) parse.simps) simp
      moreover have "loop_parses g i c fd b1" using less.hyps [OF _ 1(1)] 1 5 hs by simp
      ultimately show "\<exists>b' mp'. dispatch_loop (upd g i c b mp) i fd = Some (Inr (upd g i c b' mp', concat (map (frame_out g c fd) fs)))
          \<and> db_wf b' \<and> db_header b' = h \<and> stream b' = r"
        unfolding dispatch_loop_header [OF assms(1) rh] loop_parses_def by blast
    qed
  qed (use less assms loop_parses_packet loop_parses_wait loop_parses_oversize in blast)+
qed

section \<open>Chunks\<close>

lemma dispatch_message_parse:
  assumes "valid_index g i" "g_conn g ! nat i = c" "has_dest g c" "header_ok (g_header_size g)" "db_wf (c_buffer c)"
    "length (stream (c_buffer c)) + length data \<le> INT_MAX"
    "parse (g_header_size g) (db_header (c_buffer c)) (stream (c_buffer c) @ data) = (fs, h, r)"
  shows "\<exists>b' mp'. dispatch_message g i fd data = Inr (upd g i c b' mp', concat (map (frame_out g c fd) fs))
    \<and> db_wf b' \<and> db_header b' = h \<and> stream b' = r"
proof -
  have c: "conn_at g i = Inr c" using assms(1,2) by (simp add: conn_at_def valid_index_def)
  have "db_size (c_buffer c) + length data \<le> INT_MAX" using assms(5,6) by (simp add: db_wf_def)
  from databuffer_push_ok [OF assms(5) this, of "g_mp g"] obtain b mp where
    p: "databuffer_push (c_buffer c) (g_mp g) data = Inr (b, mp)" "db_wf b" "stream b = stream (c_buffer c) @ data"
    "db_header b = db_header (c_buffer c)" by blast
  from dispatch_loop_parses [OF assms(1,3,4) p(2), of fd] assms(7) p(3,4) obtain b' mp' where
    "dispatch_loop (upd g i c b mp) i fd = Some (Inr (upd g i c b' mp', concat (map (frame_out g c fd) fs)))"
    "db_wf b'" "db_header b' = h" "stream b' = r" unfolding loop_parses_def by fastforce
  then show ?thesis using c p(1) by (auto simp: dispatch_message_def upd_def [symmetric])
qed

fun feed :: "gate \<Rightarrow> int \<Rightarrow> int \<Rightarrow> u8 list list \<Rightarrow> (gate \<times> svc_out list) res" where
  "feed g i fd [] = Inr (g, [])"
| "feed g i fd (d # ds) =
     cbind (dispatch_message g i fd d) (\<lambda>(g, out). cbind (feed g i fd ds) (\<lambda>(g, outs). Inr (g, out @ outs)))"

lemma parse_append:
  "parse hs h bs = (fs1, h1, r1) \<Longrightarrow> Oversize \<notin> set fs1 \<Longrightarrow> parse hs h1 (r1 @ ds) = (fs2, h2, r2) \<Longrightarrow>
   parse hs h (bs @ ds) = (fs1 @ fs2, h2, r2)"
proof (induction hs h bs arbitrary: fs1 rule: parse.induct)
  case (1 hs h bs)
  consider "h = 0" "hs = 0 \<or> length bs < hs" | "h = 0" "hs \<noteq> 0" "hs \<le> length bs"
    | "h \<noteq> 0" "h < 0 \<or> int (length bs) < h" | "0 < h" "h \<le> int (length bs)" "h \<ge> 0x1000000"
    | "0 < h" "h \<le> int (length bs)" "h < 0x1000000" by linarith
  then show ?case
  proof cases
    case 2
    then have "parse hs (hdr hs (take hs bs)) (drop hs bs) = (fs1, h1, r1)"
      using "1.prems"(1) by (subst (asm) parse.simps) simp
    from "1.IH"(1) [OF 2(1) _ this "1.prems"(2,3)] 2 show ?thesis by (subst parse.simps) simp
  next
    case 5
    then obtain fs where fs: "parse hs 0 (drop (nat h) bs) = (fs, h1, r1)" "fs1 = Packet (take (nat h) bs) # fs"
      using "1.prems"(1) by (subst (asm) parse.simps) (auto split: prod.splits)
    have "parse hs 0 (drop (nat h) bs @ ds) = (fs @ fs2, h2, r2)"
      using "1.IH"(2) [OF _ _ _ fs(1)] fs(2) "1.prems"(2,3) 5 by simp
    then show ?thesis using 5 fs(2) by (subst parse.simps) simp
  next
    case 4
    then show ?thesis using "1.prems"(1,2) by (subst (asm) parse.simps) auto
  qed (use "1.prems" in \<open>(subst (asm) parse.simps, auto)+\<close>)
qed

lemma parse_oversize:
  "Oversize \<in> set (fst (parse hs h bs)) \<Longrightarrow> Oversize \<in> set (fst (parse hs h (bs @ ds)))"
proof (induction hs h bs rule: parse.induct)
  case (1 hs h bs)
  consider "h = 0" "hs = 0 \<or> length bs < hs" | "h = 0" "hs \<noteq> 0" "hs \<le> length bs"
    | "h \<noteq> 0" "h < 0 \<or> int (length bs) < h" | "0 < h" "h \<le> int (length bs)" "h \<ge> 0x1000000"
    | "0 < h" "h \<le> int (length bs)" "h < 0x1000000" by linarith
  then show ?case
  proof cases
    case 2
    then have "Oversize \<in> set (fst (parse hs (hdr hs (take hs bs)) (drop hs bs)))"
      using "1.prems" by (subst (asm) parse.simps) simp
    from "1.IH"(1) [OF 2(1) _ this] 2 show ?thesis by (subst parse.simps) simp
  next
    case 5
    then have "Oversize \<in> set (fst (parse hs 0 (drop (nat h) bs)))"
      using "1.prems" by (subst (asm) parse.simps) (auto split: prod.splits)
    with "1.IH"(2) 5 have "Oversize \<in> set (fst (parse hs 0 (drop (nat h) bs @ ds)))" by simp
    with 5 show ?thesis by (subst parse.simps) (auto split: prod.splits)
  next
    case 4
    then show ?thesis by (subst parse.simps) simp
  qed (use "1.prems" in \<open>(subst (asm) parse.simps, auto)+\<close>)
qed

lemma parse_length: "length (snd (snd (parse hs h bs))) \<le> length bs"
proof (induction hs h bs rule: parse.induct)
  case (1 hs h bs)
  then show ?case by (subst parse.simps) (auto simp: Let_def split: prod.splits)
qed

lemma upd_again:
  "valid_index g i \<Longrightarrow> upd (upd g i c b mp) i (c\<lparr>c_buffer := b\<rparr>) b' mp' = upd g i c b' mp'"
  "valid_index g i \<Longrightarrow> g_conn (upd g i c b mp) ! nat i = c\<lparr>c_buffer := b\<rparr>"
  "has_dest (upd g i c b mp) (c\<lparr>c_buffer := b\<rparr>) = has_dest g c"
  by (simp_all add: upd_def set_conn_def valid_index_def has_dest_def)

lemma frame_out_again: "frame_out (upd g i c b mp) (c\<lparr>c_buffer := b\<rparr>) fd = frame_out g c fd"
proof
  fix f show "frame_out (upd g i c b mp) (c\<lparr>c_buffer := b\<rparr>) fd f = frame_out g c fd f"
    by (cases f) (simp_all add: packet_out_def)
qed

lemma feed_parse:
  assumes "ds \<noteq> []" "valid_index g i" "g_conn g ! nat i = c" "has_dest g c" "header_ok (g_header_size g)" "db_wf (c_buffer c)"
    "length (stream (c_buffer c)) + length (concat ds) \<le> INT_MAX"
    "parse (g_header_size g) (db_header (c_buffer c)) (stream (c_buffer c) @ concat ds) = (fs, h, r)" "Oversize \<notin> set fs"
  shows "\<exists>b' mp'. feed g i fd ds = Inr (upd g i c b' mp', concat (map (frame_out g c fd) fs))
    \<and> db_wf b' \<and> db_header b' = h \<and> stream b' = r"
  using assms
proof (induction ds arbitrary: g c fs rule: list_nonempty_induct)
  case (single d)
  with dispatch_message_parse [of g i c d fs h r fd] show ?case by fastforce
next
  case (cons d ds)
  let ?hs = "g_header_size g" and ?S = "stream (c_buffer c)"
  obtain fs1 h1 r1 where p1: "parse ?hs (db_header (c_buffer c)) (?S @ d) = (fs1, h1, r1)"
    by (cases "parse ?hs (db_header (c_buffer c)) (?S @ d)")
  have no: "Oversize \<notin> set fs1"
    using parse_oversize [of ?hs "db_header (c_buffer c)" "?S @ d" "concat ds"] p1 cons.prems(7,8) by auto
  obtain fs2 h2 r2 where p2: "parse ?hs h1 (r1 @ concat ds) = (fs2, h2, r2)" by (cases "parse ?hs h1 (r1 @ concat ds)")
  from parse_append [OF p1 no p2] cons.prems(7) have e: "fs = fs1 @ fs2" "h2 = h" "r2 = r" by auto
  have len: "length ?S + length d \<le> INT_MAX" "length r1 \<le> length (?S @ d)"
    using cons.prems(6) parse_length [of ?hs "db_header (c_buffer c)" "?S @ d"] p1 by auto
  from dispatch_message_parse [OF cons.prems(1-5) len(1) p1, of fd] obtain b1 mp1 where
    1: "dispatch_message g i fd d = Inr (upd g i c b1 mp1, concat (map (frame_out g c fd) fs1))"
    "db_wf b1" "db_header b1 = h1" "stream b1 = r1" by blast
  let ?g = "upd g i c b1 mp1" and ?c = "c\<lparr>c_buffer := b1\<rparr>"
  have "\<exists>b' mp'. feed ?g i fd ds = Inr (upd ?g i ?c b' mp', concat (map (frame_out ?g ?c fd) fs2))
    \<and> db_wf b' \<and> db_header b' = h \<and> stream b' = r"
    using cons.prems 1 p2 e len by (intro cons.IH) (auto simp: upd_again)
  then obtain b' mp' where "feed ?g i fd ds = Inr (upd g i c b' mp', concat (map (frame_out g c fd) fs2))"
    "db_wf b'" "db_header b' = h" "stream b' = r" using cons.prems(1) by (auto simp: upd_again frame_out_again)
  then show ?case using 1 e by (intro exI [of _ b'] exI [of _ mp']) simp
qed

section \<open>Encoding\<close>

text \<open>What a client sends for a packet: the length, highest byte first, and the packet.\<close>

definition be_bytes :: "nat \<Rightarrow> u32 \<Rightarrow> u8 list" where
  "be_bytes hs w = (if hs = 2 then [ucast (drop_bit 8 w), ucast w]
     else [ucast (drop_bit 24 w), ucast (drop_bit 16 w), ucast (drop_bit 8 w), ucast w])"

definition encode :: "nat \<Rightarrow> u8 list \<Rightarrow> u8 list" where
  "encode hs p = be_bytes hs (of_nat (length p)) @ p"

definition fits :: "nat \<Rightarrow> u8 list \<Rightarrow> bool" where
  "fits hs p \<longleftrightarrow> length p < (if hs = 2 then 2 ^ 16 else 2 ^ 24)"

lemma be2_word:
  "push_bit 8 (ucast (ucast (drop_bit 8 w) :: u8)) OR ucast (ucast w :: u8) = (take_bit 16 w :: u32)"
  (is "?l = ?r")
proof (rule bit_word_eqI)
  fix n assume "n < LENGTH(32)"
  then show "bit ?l n = bit ?r n"
    by (cases "n < 8") (auto simp: bit_simps)
qed

lemma be4_word:
  "push_bit 24 (ucast (ucast (drop_bit 24 w) :: u8)) OR push_bit 16 (ucast (ucast (drop_bit 16 w) :: u8))
   OR push_bit 8 (ucast (ucast (drop_bit 8 w) :: u8)) OR ucast (ucast w :: u8) = (w :: u32)"
  (is "?l = _")
proof (rule bit_word_eqI)
  fix n assume n: "n < LENGTH(32)"
  consider "n < 8" | "8 \<le> n" "n < 16" | "16 \<le> n" "n < 24" | "24 \<le> n" by linarith
  then show "bit ?l n = bit w n"
    using n by cases (auto simp: bit_simps)
qed

lemma hdr_be_bytes:
  assumes "header_ok hs" "fits hs p"
  shows "hdr hs (be_bytes hs (of_nat (length p))) = int (length p)"
proof -
  have lt: "length p < 2 ^ 24" using assms by (auto simp: fits_def header_ok_def split: if_splits)
  then have u: "uint (of_nat (length p) :: u32) = int (length p)" "sint (of_nat (length p) :: u32) = int (length p)"
    by (simp_all add: unsigned_of_nat signed_of_nat take_bit_nat_eq_self signed_take_bit_int_eq_self)
  show ?thesis
  proof (cases "hs = 2")
    case True
    then have "take_bit 16 (of_nat (length p)) = (of_nat (length p) :: u32)"
      using assms(2) by (simp add: fits_def take_bit_of_nat take_bit_nat_eq_self)
    then show ?thesis using True be2_word [of "of_nat (length p)"] u
      by (simp add: hdr_def header_value_def be_bytes_def)
  next
    case False
    then show ?thesis using assms(1) be4_word [of "of_nat (length p)"] u
      by (simp add: hdr_def header_value_def be_bytes_def header_ok_def)
  qed
qed

lemma parse_encode:
  assumes "header_ok hs" "\<forall>p \<in> set ps. fits hs p"
  shows "parse hs 0 (concat (map (encode hs) ps)) = (map Packet (filter (\<lambda>p. p \<noteq> []) ps), 0, [])"
  using assms(2)
proof (induction ps)
  case Nil
  then show ?case using assms(1) by (subst parse.simps) (auto simp: header_ok_def)
next
  case (Cons p ps)
  let ?rest = "concat (map (encode hs) ps)"
  have l: "length (be_bytes hs w) = hs" for w using assms(1) by (auto simp: be_bytes_def header_ok_def)
  have lt: "length p < 2 ^ 24" using assms(1) Cons.prems by (auto simp: fits_def header_ok_def split: if_splits)
  have "parse hs 0 (encode hs p @ ?rest) = parse hs (int (length p)) (p @ ?rest)"
    using l hdr_be_bytes [OF assms(1), of p] Cons.prems assms(1)
    by (subst parse.simps) (auto simp: encode_def header_ok_def)
  also have "\<dots> = (map Packet (filter (\<lambda>p. p \<noteq> []) (p # ps)), 0, [])"
    using Cons.IH Cons.prems lt by (cases "p = []") (simp, subst parse.simps, auto)
  finally show ?case by simp
qed

section \<open>A connection nobody listens to\<close>

lemma forward_nodest:
  "valid_index g i \<Longrightarrow> \<not> has_dest g c \<Longrightarrow> forward (upd g i c b mp) i n = Inr (upd g i c b mp, [])"
  by (auto simp: forward_def has_dest_def Let_def)

lemma dispatch_loop_skip:
  assumes "valid_index g i" "\<not> has_dest g c" "db_wf b" "0 < db_header b" "db_header b \<le> int (length (stream b))"
    "db_header b < 0x1000000"
  shows "dispatch_loop (upd g i c b mp) i fd = dispatch_loop (upd g i c (databuffer_reset b) mp) i fd"
proof -
  have "dispatch_pass (upd g i c b mp) i fd = Inr (upd g i c (databuffer_reset b) mp, [], True)"
    using readheader_nonzero [of b mp "g_header_size g"] assms by (simp add: dispatch_pass_upd forward_nodest db_wf_def)
  then show ?thesis
    by (subst dispatch_loop.simps)
       (cases "dispatch_loop (upd g i c (databuffer_reset b) mp) i fd"; auto simp: Option.bind_def split: sum.splits;
        metis cbind.simps prod.exhaust_sel sum.exhaust_sel)
qed

lemma dispatch_loop_returns_nodest:
  assumes "valid_index g i" "\<not> has_dest g c" "header_ok (g_header_size g)" "db_wf b"
  shows "\<exists>b' mp' out. dispatch_loop (upd g i c b mp) i fd = Some (Inr (upd g i c b' mp', out)) \<and> db_wf b'"
  using assms(4)
proof (induction "2 * length (stream b) + (if db_header b = 0 then 0 else 1)" arbitrary: b mp rule: less_induct)
  case less
  let ?hs = "g_header_size g"
  have hs: "0 < ?hs" using assms(3) by (auto simp: header_ok_def)
  consider "db_header b < 0 \<or> int (length (stream b)) < db_header b"
    | "db_header b \<ge> 0x1000000" "db_header b \<le> int (length (stream b))"
    | "0 < db_header b" "db_header b \<le> int (length (stream b))" "db_header b < 0x1000000"
    | "db_header b = 0" "length (stream b) < ?hs" | "db_header b = 0" "?hs \<le> length (stream b)" by linarith
  then show ?case
  proof cases
    case 1
    then show ?thesis using loop_parses_wait [OF assms(1) less.prems 1, of c fd]
      unfolding loop_parses_def by (metis prod.exhaust_sel)
  next
    case 2
    then show ?thesis using loop_parses_oversize [OF assms(1) less.prems 2, of c fd]
      unfolding loop_parses_def by (metis prod.exhaust_sel)
  next
    case 3
    have "db_wf (databuffer_reset b)" "stream (databuffer_reset b) = stream b" "db_header (databuffer_reset b) = 0"
      using less.prems by (simp_all add: databuffer_reset_def)
    then show ?thesis using less.hyps [of "databuffer_reset b" mp] 3
      unfolding dispatch_loop_skip [OF assms(1,2) less.prems 3] by simp
  next
    case 4
    then have "databuffer_readheader b mp ?hs = Inr (b, mp, -1)"
      using less.prems by (simp add: databuffer_readheader_def db_wf_def)
    then show ?thesis using dispatch_loop_wait [OF assms(1), of b mp b mp "-1" c fd] less.prems by auto
  next
    case 5
    from readheader_zero [OF less.prems assms(3) 5, of mp] obtain b1 mp1 where
      1: "db_wf b1" "stream b1 = drop ?hs (stream b)"
      and rh: "databuffer_readheader b mp ?hs =
          (if int (db_size b1) < db_header b1 then Inr (b1, mp1, -1) else Inr (b1, mp1, db_header b1))" by auto
    have "length (stream b1) + ?hs = length (stream b)" using 1 5 by simp
    then have "2 * length (stream b1) + (if db_header b1 = 0 then 0 else 1) < 2 * length (stream b) + (if db_header b = 0 then 0 else 1)"
      using 5 hs by auto
    from less.hyps [OF this 1(1), of mp1] show ?thesis unfolding dispatch_loop_header [OF assms(1) rh] .
  qed
qed

lemma dispatch_message_returns:
  assumes "valid_index g i" "g_conn g ! nat i = c" "header_ok (g_header_size g)" "db_wf (c_buffer c)"
    "length (stream (c_buffer c)) + length data \<le> INT_MAX"
  shows "\<exists>b' mp' out. dispatch_message g i fd data = Inr (upd g i c b' mp', out) \<and> db_wf b'"
proof (cases "has_dest g c")
  case True
  obtain fs h r where "parse (g_header_size g) (db_header (c_buffer c)) (stream (c_buffer c) @ data) = (fs, h, r)"
    by (metis prod.exhaust)
  from dispatch_message_parse [OF assms(1,2) True assms(3-5) this, of fd] show ?thesis by blast
next
  case False
  have c: "conn_at g i = Inr c" using assms(1,2) by (simp add: conn_at_def valid_index_def)
  have "db_size (c_buffer c) + length data \<le> INT_MAX" using assms(4,5) by (simp add: db_wf_def)
  from databuffer_push_ok [OF assms(4) this, of "g_mp g"] obtain b mp where
    p: "databuffer_push (c_buffer c) (g_mp g) data = Inr (b, mp)" "db_wf b" by blast
  from dispatch_loop_returns_nodest [OF assms(1) False assms(3) p(2), of mp fd] obtain b' mp' out where
    "dispatch_loop (upd g i c b mp) i fd = Some (Inr (upd g i c b' mp', out))" "db_wf b'" by blast
  with c p(1) show ?thesis
    by (intro exI [of _ b'] exI [of _ mp'] exI [of _ out]) (simp add: dispatch_message_def upd_def [symmetric])
qed

section \<open>The connections\<close>

definition gate_wf :: "gate \<Rightarrow> bool" where
  "gate_wf g \<longleftrightarrow> hashid_wf (g_hash g) \<and> hi_cap (g_hash g) = length (g_conn g) \<and> header_ok (g_header_size g)
     \<and> (\<forall>c \<in> set (g_conn g). db_wf (c_buffer c))
     \<and> (\<forall>i < length (g_conn g). \<forall>fd. slot_of (g_hash g) fd = Some i \<longleftrightarrow> 0 \<le> fd \<and> c_id (g_conn g ! i) = fd)"

text \<open>What the socket layer guarantees of its messages.\<close>

definition socket_msg_ok :: "gate \<Rightarrow> socket_message \<Rightarrow> bool" where
  "socket_msg_ok g m \<longleftrightarrow>
     (ss_type m = SKYNET_SOCKET_TYPE_DATA \<longrightarrow>
        (\<forall>c \<in> set (g_conn g). c_id c = ss_id m \<longrightarrow> length (stream (c_buffer c)) + length (ss_buffer m) \<le> INT_MAX))
     \<and> (ss_type m = SKYNET_SOCKET_TYPE_ACCEPT \<longrightarrow>
        ss_id m = g_listen_id g \<and> 0 \<le> ss_ud m \<and> (\<forall>c \<in> set (g_conn g). c_id c \<noteq> ss_ud m)
        \<and> ss_ud m + int (length (g_conn g)) \<le> int INT_MAX + 1)"

lemma gate_slot:
  assumes "gate_wf g" "slot_of (g_hash g) fd = Some i"
  shows "i < length (g_conn g)" "c_id (g_conn g ! i) = fd" "0 \<le> fd" "conn_at g (int i) = Inr (g_conn g ! i)"
    "valid_index g (int i)" "db_wf (c_buffer (g_conn g ! i))"
proof -
  show i: "i < length (g_conn g)"
    using assms unfolding gate_wf_def hashid_wf_def by (auto simp: slot_of_Some)
  then show "c_id (g_conn g ! i) = fd" "0 \<le> fd" "conn_at g (int i) = Inr (g_conn g ! i)" "valid_index g (int i)"
    "db_wf (c_buffer (g_conn g ! i))"
    using assms by (auto simp: gate_wf_def conn_at_def valid_index_def)
qed

lemma gate_wf_upd:
  assumes "gate_wf g" "i < length (g_conn g)" "c_id c = c_id (g_conn g ! i)" "db_wf b"
  shows "gate_wf (upd g (int i) c b mp)"
  using assms unfolding gate_wf_def
  by (auto simp: upd_def set_conn_def nth_list_update dest!: set_update_subset_insert [THEN subsetD])

lemma lookup_gate: "gate_wf g \<Longrightarrow> hashid_lookup (g_hash g) fd = Inr (case slot_of (g_hash g) fd of None \<Rightarrow> -1 | Some i \<Rightarrow> int i)"
  by (simp add: gate_wf_def lookup_ok)

lemma gate_data_ok:
  assumes "gate_wf g" "socket_msg_ok g m" "ss_type m = SKYNET_SOCKET_TYPE_DATA"
  shows "\<exists>g' out. dispatch_socket_message g m = Inr (g', out) \<and> gate_wf g'
    \<and> length (g_conn g') = length (g_conn g)
    \<and> (\<forall>i < length (g_conn g). c_id (g_conn g ! i) \<noteq> ss_id m \<longrightarrow> g_conn g' ! i = g_conn g ! i)"
proof (cases "slot_of (g_hash g) (ss_id m)")
  case None
  then show ?thesis using assms lookup_gate [OF assms(1), of "ss_id m"] by (simp add: dispatch_socket_message_def)
next
  case (Some i)
  note s = gate_slot [OF assms(1) Some]
  have "length (stream (c_buffer (g_conn g ! i))) + length (ss_buffer m) \<le> INT_MAX"
    using assms(2,3) s(1,2) by (simp add: socket_msg_ok_def)
  moreover have "header_ok (g_header_size g)" using assms(1) by (simp add: gate_wf_def)
  ultimately obtain b mp out where d: "dispatch_message g (int i) (ss_id m) (ss_buffer m) = Inr (upd g (int i) (g_conn g ! i) b mp, out)" "db_wf b"
    using dispatch_message_returns [OF s(5) _ _ s(6), of "ss_buffer m" "ss_id m"] by auto
  have "dispatch_socket_message g m = Inr (upd g (int i) (g_conn g ! i) b mp, out)"
    using assms(3) lookup_gate [OF assms(1), of "ss_id m"] Some d by (simp add: dispatch_socket_message_def)
  moreover have "gate_wf (upd g (int i) (g_conn g ! i) b mp)" using gate_wf_upd [OF assms(1) s(1) refl d(2)] .
  moreover have "g_conn (upd g (int i) (g_conn g ! i) b mp) ! j = g_conn g ! j" if "c_id (g_conn g ! j) \<noteq> ss_id m" for j
    using that s(2) by (cases "j = i") (auto simp: upd_def set_conn_def)
  ultimately show ?thesis by (auto simp: upd_def set_conn_def)
qed

lemma gate_wf_bytes: "gate_wf (g\<lparr>g_mp := mp\<rparr>) = gate_wf g"
  by (simp add: gate_wf_def)

lemma gate_close_ok:
  assumes "gate_wf g" "ss_type m = SKYNET_SOCKET_TYPE_CLOSE \<or> ss_type m = SKYNET_SOCKET_TYPE_ERROR"
  shows "\<exists>g' out. dispatch_socket_message g m = Inr (g', out) \<and> gate_wf g'
    \<and> length (g_conn g') = length (g_conn g) \<and> hashid_lookup (g_hash g') (ss_id m) = Inr (-1)
    \<and> (\<forall>i < length (g_conn g). c_id (g_conn g ! i) \<noteq> ss_id m \<longrightarrow> g_conn g' ! i = g_conn g ! i)"
proof -
  have "hashid_wf (g_hash g)" using assms(1) by (simp add: gate_wf_def)
  from hashids.rem_law [OF this, of "ss_id m"] obtain h where
    h: "hashid_remove (g_hash g) (ss_id m) = Inr (h, case slot_of (g_hash g) (ss_id m) of None \<Rightarrow> -1 | Some i \<Rightarrow> int i)"
    "hashid_wf h" "hi_cap h = hi_cap (g_hash g)" "slot_of h = (slot_of (g_hash g))(ss_id m := None)" by blast
  let ?g = "g\<lparr>g_hash := h\<rparr>"
  have ty: "ss_type m \<noteq> SKYNET_SOCKET_TYPE_DATA" "ss_type m \<noteq> SKYNET_SOCKET_TYPE_CONNECT"
    using assms(2) by (auto simp: socket_types)
  have gone: "hashid_lookup h (ss_id m) = Inr (-1)" using lookup_ok [OF h(2), of "ss_id m"] h(4) by simp
  show ?thesis
  proof (cases "slot_of (g_hash g) (ss_id m)")
    case None
    then have "dispatch_socket_message g m = Inr (?g, [])"
      using ty assms(2) h by (simp add: dispatch_socket_message_def)
    moreover have "gate_wf ?g"
      using assms(1) h None unfolding gate_wf_def by (auto simp: fun_upd_idem)
    ultimately show ?thesis using gone by simp
  next
    case (Some i)
    note s = gate_slot [OF assms(1) Some]
    obtain b mp where b: "databuffer_clear (c_buffer (g_conn g ! i)) (g_mp g) = (b, mp)" by (metis prod.exhaust)
    let ?g' = "(set_conn ?g (int i) (empty_connection (-1)))\<lparr>g_mp := mp\<rparr>"
    have "conn_at ?g (int i) = Inr (g_conn g ! i)" using s(1) by (simp add: conn_at_def)
    then have d: "dispatch_socket_message g m = Inr (?g', report ?g' (int_str (ss_id m) @ '' close'') @ [SocketClose (ss_id m)])"
      using ty assms(2) h Some b by (simp add: dispatch_socket_message_def Let_def)
    have "slot_of h fd = Some j \<longleftrightarrow> 0 \<le> fd \<and> c_id (((g_conn g)[i := empty_connection (-1)]) ! j) = fd"
      if "j < length (g_conn g)" for j fd
    proof (cases "j = i")
      case True
      have "slot_of (g_hash g) fd = Some i \<Longrightarrow> fd = ss_id m" using gate_slot(2) [OF assms(1)] s(2) by metis
      then show ?thesis using True s(1) unfolding h(4) by (auto simp: empty_connection_def)
    next
      case False
      have "slot_of (g_hash g) fd = Some j \<longleftrightarrow> 0 \<le> fd \<and> c_id (g_conn g ! j) = fd"
        using that assms(1) by (simp add: gate_wf_def)
      then show ?thesis using False Some unfolding h(4) by auto
    qed
    then have "gate_wf ?g'"
      using assms(1) h(2,3) unfolding gate_wf_def
      by (auto simp: set_conn_def empty_connection_def dest!: set_update_subset_insert [THEN subsetD])
    moreover have "(g_conn g)[i := empty_connection (-1)] ! j = g_conn g ! j" if "c_id (g_conn g ! j) \<noteq> ss_id m" for j
      using that s(2) by (cases "j = i") auto
    ultimately show ?thesis using d gone by (auto simp: set_conn_def)
  qed
qed

lemma gate_accept_ok:
  assumes "gate_wf g" "socket_msg_ok g m" "ss_type m = SKYNET_SOCKET_TYPE_ACCEPT" "\<not> hashid_full (g_hash g)"
  shows "\<exists>g' out i. dispatch_socket_message g m = Inr (g', out) \<and> gate_wf g'
    \<and> length (g_conn g') = length (g_conn g) \<and> i < length (g_conn g)
    \<and> hashid_lookup (g_hash g') (ss_ud m) = Inr (int i)
    \<and> (\<forall>j < length (g_conn g). j \<noteq> i \<longrightarrow> g_conn g' ! j = g_conn g ! j)"
proof -
  let ?fd = "ss_ud m"
  have wf: "hashid_wf (g_hash g)" and cap: "hi_cap (g_hash g) = length (g_conn g)" using assms(1) by (auto simp: gate_wf_def)
  have ok: "ss_id m = g_listen_id g" "0 \<le> ?fd" "\<forall>c \<in> set (g_conn g). c_id c \<noteq> ?fd" "?fd + int (length (g_conn g)) \<le> int INT_MAX + 1"
    using assms(2,3) by (auto simp: socket_msg_ok_def)
  have "slot_of (g_hash g) ?fd = None"
  proof (cases "slot_of (g_hash g) ?fd")
    case (Some i)
    with gate_slot [OF assms(1) Some] ok(3) show ?thesis by (metis nth_mem)
  qed simp
  moreover have "hashid_room (g_hash g) ?fd" using ok assms(4) cap by (simp add: hashid_room_def)
  ultimately obtain h i where
    h: "hashid_insert (g_hash g) ?fd = Inr (h, i)" "hashid_wf h" "hi_cap h = hi_cap (g_hash g)" "i < hi_cap (g_hash g)"
    "i \<notin> ran (slot_of (g_hash g))" "slot_of h = (slot_of (g_hash g))(?fd \<mapsto> i)"
    using hashids.ins_law [OF wf] by blast
  have i: "i < length (g_conn g)" using h(4) cap by simp
  let ?g = "g\<lparr>g_hash := h\<rparr>"
  let ?c = "(g_conn g ! i)\<lparr>c_id := ?fd, c_remote_name := bytes_str (take 31 (ss_tail m))\<rparr>"
  let ?g' = "set_conn ?g (int i) ?c"
  have "conn_at ?g (int i) = Inr (g_conn g ! i)" using i by (simp add: conn_at_def)
  then obtain out where d: "dispatch_socket_message g m = Inr (?g', out)"
    using assms(3,4) ok(1) h(1) by (simp add: dispatch_socket_message_def socket_types Let_def)
  have "slot_of h fd = Some j \<longleftrightarrow> 0 \<le> fd \<and> c_id (((g_conn g)[i := ?c]) ! j) = fd" if j: "j < length (g_conn g)" for j fd
  proof (cases "j = i")
    case True
    have "slot_of (g_hash g) x \<noteq> Some i" for x using h(5) by (auto simp: ran_def)
    then show ?thesis using True i ok(2) unfolding h(6) by auto
  next
    case False
    then show ?thesis using assms(1) j ok(3) unfolding h(6) gate_wf_def by (auto dest: nth_mem)
  qed
  then have "gate_wf ?g'"
    using assms(1) h(2,3) i unfolding gate_wf_def
    by (auto simp: set_conn_def dest!: set_update_subset_insert [THEN subsetD])
  moreover have "hashid_lookup h ?fd = Inr (int i)" using lookup_ok [OF h(2), of ?fd] h(6) by simp
  ultimately show ?thesis using d i by (auto simp: set_conn_def)
qed

end
