(* ===== verification/Sky_Gate_Spec.thy ===== *)
theory Sky_Gate_Spec
  imports Sky_Gate_Frames
begin

text \<open>
  The properties of the gate: packets and chunks, the invariant of the connections over the whole
  callback, the start, and the two ways in which the framing can go wrong.
\<close>

section \<open>The callback keeps the invariant\<close>

lemma gate_wf_conn:
  assumes "gate_wf g" "i < length (g_conn g)" "c_id c = c_id (g_conn g ! i)" "db_wf (c_buffer c)"
  shows "gate_wf (set_conn g (int i) c)"
  using assms unfolding gate_wf_def
  by (auto simp: set_conn_def nth_list_update dest!: set_update_subset_insert [THEN subsetD])

lemma forward_agent_ok:
  assumes "gate_wf g" shows "\<exists>g'. forward_agent g fd a c = Inr g' \<and> gate_wf g'"
proof (cases "slot_of (g_hash g) fd")
  case None
  then show ?thesis using lookup_gate [OF assms, of fd] assms by (simp add: forward_agent_def)
next
  case (Some i)
  note s = gate_slot [OF assms Some]
  have "gate_wf (set_conn g (int i) ((g_conn g ! i)\<lparr>c_agent := a, c_client := c\<rparr>))"
    by (rule gate_wf_conn [OF assms s(1)]) (use s in simp_all)
  then show ?thesis using Some lookup_gate [OF assms, of fd] s(4) by (simp add: forward_agent_def)
qed

lemma ctrl_forward_ok: "gate_wf g \<Longrightarrow> \<exists>g'. ctrl_forward g tmp = Inr g' \<and> gate_wf g'"
  using forward_agent_ok by (auto simp: ctrl_forward_def Let_def split: prod.splits option.splits)

lemma gate_wf_fields:
  "gate_wf (g\<lparr>g_broker := b\<rparr>) = gate_wf g" "gate_wf (g\<lparr>g_listen_id := l\<rparr>) = gate_wf g"
  by (simp_all add: gate_wf_def)

lemma ctrl_ok:
  assumes "gate_wf g" shows "\<exists>g' out. ctrl q g msg = Inr (g', out) \<and> gate_wf g'"
proof -
  have l: "\<exists>j. hashid_lookup (g_hash g) fd = Inr j" for fd using lookup_gate [OF assms] by blast
  have k: "\<exists>g' out. cbind (hashid_lookup (g_hash g) fd) (\<lambda>j. Inr (g, f j)) = Inr (g', out) \<and> gate_wf g'"
    for fd and f :: "int \<Rightarrow> svc_out list" using l [of fd] assms by auto
  have f: "\<exists>g' out. cbind (ctrl_forward g tmp) (\<lambda>g. Inr (g, [])) = Inr (g', out :: svc_out list) \<and> gate_wf g'" for tmp
    using ctrl_forward_ok [OF assms, of tmp] by auto
  show ?thesis unfolding ctrl_def Let_def using k f assms by (auto simp: gate_wf_fields)
qed

lemma gate_socket_ok:
  assumes "gate_wf g" "socket_msg_ok g m"
  shows "\<exists>g' out. dispatch_socket_message g m = Inr (g', out) \<and> gate_wf g'"
proof -
  consider "ss_type m = SKYNET_SOCKET_TYPE_DATA" | "ss_type m = SKYNET_SOCKET_TYPE_CLOSE \<or> ss_type m = SKYNET_SOCKET_TYPE_ERROR"
    | "ss_type m = SKYNET_SOCKET_TYPE_ACCEPT" "\<not> hashid_full (g_hash g)"
    | "ss_type m = SKYNET_SOCKET_TYPE_ACCEPT" "hashid_full (g_hash g)" | "ss_type m = SKYNET_SOCKET_TYPE_CONNECT"
    | "ss_type m \<notin> {SKYNET_SOCKET_TYPE_DATA, SKYNET_SOCKET_TYPE_CLOSE, SKYNET_SOCKET_TYPE_ERROR,
        SKYNET_SOCKET_TYPE_ACCEPT, SKYNET_SOCKET_TYPE_CONNECT}" by auto
  then show ?thesis
  proof cases
    case 1
    then show ?thesis using gate_data_ok [OF assms] by blast
  next
    case 2
    then show ?thesis using gate_close_ok [OF assms(1)] by blast
  next
    case 3
    then show ?thesis using gate_accept_ok [OF assms] by blast
  next
    case 4
    then show ?thesis using assms by (simp add: dispatch_socket_message_def socket_types socket_msg_ok_def)
  next
    case 5
    then show ?thesis using assms lookup_gate [OF assms(1), of "ss_id m"]
      by (simp add: dispatch_socket_message_def socket_types)
  next
    case 6
    then show ?thesis using assms(1) by (simp add: dispatch_socket_message_def)
  qed
qed

section \<open>The start\<close>

lemma gate_start_wf:
  assumes "hashid_init n = Inr h" "n \<le> 2 ^ 30" "header_ok (g_header_size g)"
  shows "gate_wf (g\<lparr>g_hash := h, g_conn := replicate n (empty_connection (-1))\<rparr>)"
proof -
  from hashid_init_ok [OF assms(2)] assms(1) have "hashid_wf h" "slot_of h = (\<lambda>_. None)" "hi_cap h = n" by auto
  then show ?thesis using assms(3) by (auto simp: gate_wf_def empty_connection_def)
qed

lemma start_listen_fields:
  assumes "start_listen listen g addr = (g', out, ret)"
  shows "gate_wf g' = gate_wf g \<and> g_conn g' = g_conn g"
  using assms by (auto simp: start_listen_def Let_def gate_wf_def split: prod.splits if_splits)

lemma gate_init_wf:
  assumes "gate_init q l g (Some s) = Inr (g', out, 0)" "scan_parm s = (n, header, watchdog, binding, client_tag, mx)" "mx \<le> 2 ^ 30"
  shows "gate_wf g' \<and> length (g_conn g') = nat mx \<and> 0 < mx"
proof -
  have mx: "0 < mx" using assms by (auto simp: gate_init_def split: if_splits)
  then have "nat mx \<le> 2 ^ 30" using assms(3) by simp
  then obtain h where h: "hashid_init (nat mx) = Inr h" using hashid_init_ok by blast
  have ok: "\<not> n < 4" "header = CHR ''S'' \<or> header = CHR ''L''" "\<not> (hd watchdog \<noteq> CHR ''!'' \<and> q watchdog = 0)"
    using assms(1,2) mx by (auto simp: gate_init_def Let_def split: if_splits)
  define G where "G = g\<lparr>g_watchdog := (if hd watchdog = CHR ''!'' then 0 else q watchdog), g_hash := h,
    g_conn := replicate (nat mx) (empty_connection (-1)), g_max_connection := nat mx,
    g_client_tag := (if client_tag = 0 then int PTYPE_CLIENT else client_tag),
    g_header_size := (if header = CHR ''S'' then 2 else 4)\<rparr>"
  obtain g1 o1 r1 where sl: "start_listen l G binding = (g1, o1, r1)" by (metis prod.exhaust)
  have "g1 = g'" using assms(1,2) mx ok h sl by (auto simp: gate_init_def Let_def G_def split: if_splits)
  moreover have "gate_wf G"
    using gate_start_wf [OF h \<open>nat mx \<le> 2 ^ 30\<close>, of G] by (simp add: G_def header_ok_def gate_wf_def)
  moreover have "g_conn G = replicate (nat mx) (empty_connection (-1))" by (simp add: G_def)
  ultimately show ?thesis using start_listen_fields [OF sl] mx by simp
qed

section \<open>Properties\<close>

text \<open>A gate with one open connection, for the witnesses.\<close>

definition demo_gate :: "nat \<Rightarrow> u32 \<Rightarrow> gate" where
  "demo_gate hs watchdog =
     gate_create\<lparr>g_header_size := hs, g_watchdog := watchdog, g_conn := [empty_connection 5]\<rparr>"

lemma demo_gate_simps:
  "valid_index (demo_gate hs w) 0" "g_conn (demo_gate hs w) ! 0 = empty_connection 5"
  "g_header_size (demo_gate hs w) = hs" "c_buffer (empty_connection 5) = empty_databuffer"
  "has_dest (demo_gate hs w) (empty_connection 5) \<longleftrightarrow> w \<noteq> 0"
  by (simp_all add: demo_gate_def valid_index_def empty_connection_def has_dest_def gate_create_def)

text \<open>
  C12. Packets arrive whole, once and in order, however the network cuts the stream. When a client
  sends packets that fit the length header, and the bytes reach the gate in chunks of any sizes, the
  gate forwards exactly the packets that are not empty, each in one message and in the order they
  were sent; the loop of \<open>dispatch_message\<close> ends for every chunk and nothing stays in the buffer.
\<close>

theorem gate_packets_any_chunking:
  assumes "valid_index g i" "g_conn g ! nat i = c" "has_dest g c" "header_ok (g_header_size g)"
    "db_wf (c_buffer c)" "stream (c_buffer c) = []" "db_header (c_buffer c) = 0"
    and "\<forall>p \<in> set ps. fits (g_header_size g) p" "concat chunks = concat (map (encode (g_header_size g)) ps)"
    and "length (concat chunks) \<le> INT_MAX" "chunks \<noteq> []"
  shows "\<exists>b mp. feed g i fd chunks
      = Inr (upd g i c b mp, map (packet_out g c) (filter (\<lambda>p. p \<noteq> []) ps))
    \<and> db_wf b \<and> stream b = [] \<and> db_header b = 0"
proof -
  let ?fs = "map Packet (filter (\<lambda>p. p \<noteq> []) ps)"
  have "parse (g_header_size g) (db_header (c_buffer c)) (stream (c_buffer c) @ concat chunks) = (?fs, 0, [])"
    using parse_encode [OF assms(4,8)] assms(6,7,9) by simp
  from feed_parse [OF assms(11,1-5) _ this, of fd] obtain b mp where
    "feed g i fd chunks = Inr (upd g i c b mp, concat (map (frame_out g c fd) ?fs))" "db_wf b" "db_header b = 0" "stream b = []"
    using assms(6,10) by auto
  moreover have "concat (map (frame_out g c fd) (map Packet qs)) = map (packet_out g c) qs" for qs
    by (induction qs) auto
  ultimately show ?thesis by auto
qed

theorem gate_packets_any_chunking_witness:
  "\<exists>g' c. feed (demo_gate 2 9) 0 5 [[0, 2, 7], [8, 0, 1], [1]] = Inr (g', map (packet_out (demo_gate 2 9) c) [[7, 8], [1]])"
proof -
  let ?g = "demo_gate 2 9" and ?c = "empty_connection 5"
  have "\<exists>b mp. feed ?g 0 5 [[0, 2, 7], [8, 0, 1], [1]]
      = Inr (upd ?g 0 ?c b mp, map (packet_out ?g ?c) (filter (\<lambda>p. p \<noteq> []) [[7, 8], [1]]))
    \<and> db_wf b \<and> stream b = [] \<and> db_header b = 0"
    by (rule gate_packets_any_chunking)
       (simp_all add: demo_gate_simps header_ok_def fits_def INT_MAX_def encode_def be_bytes_def)
  then show ?thesis by (simp del: feed.simps) blast
qed



text \<open>
  The 16M limit does not bound what a client can make the gate buffer. After a 4-byte header
  that announces more than has arrived - also one of 16M or more, and also one with the top bit set,
  which the gate reads as a negative length - every further chunk is only stored: no message is
  sent and the connection is not closed. A negative length never ends this state.
\<close>

theorem gate_buffers_past_limit:
  assumes "valid_index g i" "g_conn g ! nat i = c" "has_dest g c" "g_header_size g = 4" "c_buffer c = empty_databuffer"
    and "length hb = 4" "hdr 4 hb < 0 \<or> int (length rest) < hdr 4 hb" "concat chunks = hb @ rest" "chunks \<noteq> []"
    and "length (concat chunks) \<le> INT_MAX"
  shows "\<exists>b mp. feed g i fd chunks = Inr (upd g i c b mp, []) \<and> stream b = rest \<and> db_header b = hdr 4 hb"
proof -
  have "parse 4 0 (hb @ rest) = ([], hdr 4 hb, rest)"
    using assms(6,7) by (subst parse.simps, simp) (subst parse.simps, auto)
  with feed_parse [OF assms(9,1-3), of "[]" "hdr 4 hb" rest fd] assms(4,5,8,10) show ?thesis
    by (auto simp: header_ok_def)
qed

theorem gate_buffers_past_limit_witness:
  "hdr 4 [0x80, 0, 0, 1] < 0
    \<and> (\<exists>b mp. feed (demo_gate 4 9) 0 5 [[0x80, 0], [0, 1, 7], [8]] = Inr (upd (demo_gate 4 9) 0 (empty_connection 5) b mp, [])
        \<and> stream b = [7, 8])"
proof -
  let ?g = "demo_gate 4 9" and ?c = "empty_connection 5"
  have neg: "hdr 4 [0x80, 0, 0, 1] < 0" by (simp add: hdr_def header_value_def)
  then have "\<exists>b mp. feed ?g 0 5 [[0x80, 0], [0, 1, 7], [8]] = Inr (upd ?g 0 ?c b mp, [])
      \<and> stream b = [7, 8] \<and> db_header b = hdr 4 [0x80, 0, 0, 1]"
    by (intro gate_buffers_past_limit) (simp_all add: demo_gate_simps INT_MAX_def)
  with neg show ?thesis by blast
qed

text \<open>
  Without a destination the framing is lost. When a connection has no agent yet and the gate
  neither a broker nor a watchdog, a complete packet is not taken out of the buffer, but its header
  is forgotten all the same: the loop goes on as if the payload were the start of the stream, and
  bytes of the payload are taken for the next header.
\<close>

theorem gate_without_destination_desyncs:
  assumes "valid_index g i" "\<not> has_dest g c" "db_wf b" "db_header b = int n" "0 < n" "n < 0x1000000"
    "n \<le> length (stream b)"
  shows "dispatch_loop (upd g i c b mp) i fd = dispatch_loop (upd g i c (databuffer_reset b) mp) i fd
    \<and> stream (databuffer_reset b) = stream b \<and> db_header (databuffer_reset b) = 0"
  using dispatch_loop_skip [OF assms(1-3), of mp fd] assms(4-7) by (simp add: databuffer_reset_def)

theorem gate_without_destination_desyncs_witness:
  "\<exists>b. stream b = [7, 8] \<and> db_header b = 2 \<and>
    dispatch_loop (upd (demo_gate 2 0) 0 (empty_connection 5) b empty_pool) 0 5
      = dispatch_loop (upd (demo_gate 2 0) 0 (empty_connection 5) (databuffer_reset b) empty_pool) 0 5
    \<and> stream (databuffer_reset b) = [7, 8]"
proof -
  let ?b = "\<lparr>db_header = 2, db_offset = 0, db_size = 2, db_msgs = [\<lparr>m_node = 0, m_buffer = [7, 8]\<rparr>]\<rparr>"
  have "db_wf ?b" "stream ?b = [7, 8]" by (simp_all add: db_wf_def db_chain_def stream_def)
  with gate_without_destination_desyncs [of "demo_gate 2 0" 0 "empty_connection 5" ?b 2 empty_pool 5]
  show ?thesis by (intro exI [of _ ?b]) (auto simp: demo_gate_simps)
qed

end
