(* ===== verification/Sky_Harbor_Queue.thy ===== *)
theory Sky_Harbor_Queue
  imports Sky_Queue
begin

text \<open>
  The queue of messages that wait for a remote harbor or for a name, in
  \<^verbatim>\<open>service-src/service_harbor.c\<close>: a ring buffer that keeps one cell free and grows before it is
  full. It provides the same interface as the message queue of a service.
\<close>

section \<open>Data and operations\<close>

definition HARBOR_QUEUE_SIZE :: nat where "HARBOR_QUEUE_SIZE = 1024"

record remote_header =
  rh_source :: u32
  rh_destination :: u32
  rh_session :: u32

record harbor_msg =
  hm_header :: remote_header
  hm_buffer :: "u8 list"

record harbor_queue =
  hq_size :: nat
  hq_head :: nat
  hq_tail :: nat
  hq_data :: "harbor_msg option list"

definition hq_grow :: "harbor_queue \<Rightarrow> harbor_queue res" where
  "hq_grow q =
     (if hq_size q * 2 > INT_MAX then Inl IntOverflow
      else if length (hq_data q) < hq_size q then Inl OutOfBounds
      else Inr (q\<lparr>
        hq_data := map (\<lambda>i. hq_data q ! ((i + hq_head q) mod hq_size q)) [0..<hq_size q - 1]
                   @ replicate (hq_size q + 1) None,
        hq_head := 0,
        hq_tail := hq_size q - 1,
        hq_size := hq_size q * 2\<rparr>))"

definition push_queue_msg :: "harbor_queue \<Rightarrow> harbor_msg \<Rightarrow> harbor_queue res" where
  "push_queue_msg q m =
     cbind (if (hq_tail q + 1) mod hq_size q = hq_head q then hq_grow q else Inr q) (\<lambda>q.
     cbind (arr_set (hq_data q) (hq_tail q) m) (\<lambda>data.
     Inr (q\<lparr>hq_data := data, hq_tail := (hq_tail q + 1) mod hq_size q\<rparr>)))"

definition push_queue :: "harbor_queue \<Rightarrow> u8 list \<Rightarrow> remote_header \<Rightarrow> harbor_queue res" where
  "push_queue q buffer header = push_queue_msg q \<lparr>hm_header = header, hm_buffer = buffer\<rparr>"

definition pop_queue :: "harbor_queue \<Rightarrow> (harbor_queue \<times> harbor_msg option) res" where
  "pop_queue q =
     (if hq_head q = hq_tail q then Inr (q, None)
      else cbind (arr_get (hq_data q) (hq_head q)) (\<lambda>m.
           Inr (q\<lparr>hq_head := (hq_head q + 1) mod hq_size q\<rparr>, Some m)))"

definition new_queue :: harbor_queue where
  "new_queue = \<lparr>hq_size = HARBOR_QUEUE_SIZE, hq_head = 0, hq_tail = 0, hq_data = replicate HARBOR_QUEUE_SIZE None\<rparr>"

section \<open>The ring is a queue\<close>

definition hq_length :: "harbor_queue \<Rightarrow> nat" where
  "hq_length q = (if hq_head q \<le> hq_tail q then hq_tail q - hq_head q else hq_tail q + hq_size q - hq_head q)"

definition hq_contents :: "harbor_queue \<Rightarrow> harbor_msg list" where
  "hq_contents q = map (\<lambda>i. the (hq_data q ! ((hq_head q + i) mod hq_size q))) [0..<hq_length q]"

definition hq_wf :: "harbor_queue \<Rightarrow> bool" where
  "hq_wf q \<longleftrightarrow> cap_ok (hq_size q) \<and> 2 \<le> hq_size q \<and> length (hq_data q) = hq_size q
     \<and> hq_head q < hq_size q \<and> hq_tail q < hq_size q
     \<and> (\<forall>i < hq_length q. hq_data q ! ((hq_head q + i) mod hq_size q) \<noteq> None)"

lemma length_hq_contents [simp]: "length (hq_contents q) = hq_length q"
  by (simp add: hq_contents_def)

lemma hq_wfD:
  assumes "hq_wf q"
  shows "length (hq_data q) = hq_size q" "hq_head q < hq_size q" "hq_tail q < hq_size q" "hq_size q \<le> 2 ^ 30"
    "hq_length q < hq_size q" "hq_tail q = (hq_head q + hq_length q) mod hq_size q"
  using assms cap_ok_le by (auto simp: hq_wf_def hq_length_def mod_if)

lemma hq_slot:
  "hq_wf q \<Longrightarrow> i < hq_length q \<Longrightarrow> hq_data q ! ((hq_head q + i) mod hq_size q) = Some (hq_contents q ! i)"
  by (auto simp: hq_wf_def hq_contents_def)

lemma hq_empty: "hq_wf q \<Longrightarrow> hq_contents q = [] \<longleftrightarrow> hq_head q = hq_tail q"
  by (auto simp: hq_contents_def hq_length_def hq_wf_def)

text \<open>A ring holds \<open>xs\<close> when its cells from the head on do.\<close>

lemma hq_holds:
  assumes "hq_length q = length xs" "\<And>i. i < length xs \<Longrightarrow> hq_data q ! ((hq_head q + i) mod hq_size q) = Some (xs ! i)"
    "cap_ok (hq_size q)" "2 \<le> hq_size q" "length (hq_data q) = hq_size q" "hq_head q < hq_size q" "hq_tail q < hq_size q"
  shows "hq_wf q \<and> hq_contents q = xs"
proof -
  have "hq_contents q = xs" by (rule nth_equalityI) (simp_all add: hq_contents_def assms(1,2))
  moreover have "hq_wf q" using assms by (simp add: hq_wf_def)
  ultimately show ?thesis by blast
qed

lemma pop_queue_cons:
  assumes wf: "hq_wf q" and c: "hq_contents q = x # xs"
  shows "\<exists>q'. pop_queue q = Inr (q', Some x) \<and> hq_wf q' \<and> hq_contents q' = xs"
proof -
  have len: "hq_length q = Suc (length xs)" using arg_cong [OF c, of length] by simp
  note D = hq_wfD [OF wf]
  let ?q = "q\<lparr>hq_head := (hq_head q + 1) mod hq_size q\<rparr>"
  have "arr_get (hq_data q) (hq_head q) = Inr x"
    using hq_slot [OF wf, of 0] D len c by (simp add: arr_get_Some)
  then have pop: "pop_queue q = Inr (?q, Some x)" using hq_empty [OF wf] c by (simp add: pop_queue_def)
  have len': "hq_length ?q = length xs"
    using len D(2,3) by (auto simp: hq_length_def mod_if split: if_splits)
  have slot: "hq_data ?q ! ((hq_head ?q + i) mod hq_size ?q) = Some (xs ! i)" if "i < length xs" for i
    using hq_slot [OF wf, of "Suc i"] that len c by (simp add: mod_simps)
  have "hq_wf ?q \<and> hq_contents ?q = xs"
    using wf by (intro hq_holds len' slot) (auto simp: hq_wf_def)
  then show ?thesis using pop by blast
qed

lemma hq_append:
  fixes m :: harbor_msg
  assumes wf: "hq_wf q" and room: "Suc (hq_length q) < hq_size q"
  defines "q' \<equiv> q\<lparr>hq_data := (hq_data q)[hq_tail q := Some m], hq_tail := (hq_tail q + 1) mod hq_size q\<rparr>"
  shows "hq_wf q' \<and> hq_contents q' = hq_contents q @ [m]"
proof -
  note D = hq_wfD [OF wf]
  have len': "hq_length q' = length (hq_contents q @ [m])"
    using D(2,3) room by (auto simp: q'_def hq_length_def mod_if split: if_splits)
  have f: "hq_head q' = hq_head q" "hq_size q' = hq_size q" by (simp_all add: q'_def)
  have "hq_data q' ! ((hq_head q + i) mod hq_size q) = Some ((hq_contents q @ [m]) ! i)"
    if i: "i < length (hq_contents q @ [m])" for i
  proof (cases "i = hq_length q")
    case True
    then show ?thesis using D(1,3) D(6) [symmetric] by (simp add: q'_def nth_append)
  next
    case False
    then have lt: "i < hq_length q" using i by simp
    have "(hq_head q + i) mod hq_size q \<noteq> hq_tail q"
      using mod_shift_inj [of "hq_head q" i "hq_size q" "hq_length q"] D(5,6) lt by auto
    then show ?thesis using hq_slot [OF wf lt] lt by (simp add: q'_def nth_append)
  qed
  then show ?thesis
    using wf by (intro hq_holds len') (auto simp: hq_wf_def q'_def)
qed

lemma hq_grow_ok:
  assumes wf: "hq_wf q" and full: "Suc (hq_length q) = hq_size q" and cap: "hq_size q < 2 ^ 30"
  shows "\<exists>q'. hq_grow q = Inr q' \<and> hq_wf q' \<and> hq_contents q' = hq_contents q \<and> Suc (hq_length q') < hq_size q'"
proof -
  note D = hq_wfD [OF wf]
  define d where "d = map (\<lambda>i. hq_data q ! ((i + hq_head q) mod hq_size q)) [0..<hq_size q - 1] @ replicate (hq_size q + 1) None"
  let ?q = "q\<lparr>hq_data := d, hq_head := 0, hq_tail := hq_size q - 1, hq_size := hq_size q * 2\<rparr>"
  have g: "hq_grow q = Inr ?q" using cap_lt_INT_MAX [OF cap] D(1) by (simp add: hq_grow_def d_def)
  have len': "hq_length ?q = length (hq_contents q)" using full by (simp add: hq_length_def)
  have cells: "d ! i = Some (hq_contents q ! i)" if "i < hq_length q" for i
    using hq_slot [OF wf that] that full by (simp add: d_def nth_append add.commute)
  have two: "cap_ok (hq_size q * 2)" "2 \<le> hq_size q" using wf cap_ok_double [OF _ cap] by (auto simp: hq_wf_def)
  have "hq_wf ?q \<and> hq_contents ?q = hq_contents q"
    using two cells full by (intro hq_holds len') (auto simp: d_def)
  then show ?thesis using g len' full two by (intro exI [of _ ?q]) simp
qed

lemma push_queue_msg_ok:
  assumes wf: "hq_wf q" and room: "hq_length q + 1 < 2 ^ 30"
  shows "\<exists>q'. push_queue_msg q m = Inr q' \<and> hq_wf q' \<and> hq_contents q' = hq_contents q @ [m]"
proof -
  note D = hq_wfD [OF wf]
  have app: "\<exists>q'. cbind (arr_set (hq_data p) (hq_tail p) m) (\<lambda>data. Inr (p\<lparr>hq_data := data, hq_tail := (hq_tail p + 1) mod hq_size p\<rparr>)) = Inr q'
    \<and> hq_wf q' \<and> hq_contents q' = hq_contents p @ [m]" if "hq_wf p" "Suc (hq_length p) < hq_size p" for p
    using hq_append [OF that, of m] hq_wfD [OF that(1)] by (simp add: arr_set_ok)
  have eq: "(hq_tail q + 1) mod hq_size q = hq_head q \<longleftrightarrow> Suc (hq_length q) = hq_size q"
    using D(2,3) by (auto simp: hq_length_def mod_if split: if_splits)
  show ?thesis
  proof (cases "Suc (hq_length q) = hq_size q")
    case True
    then have "hq_size q < 2 ^ 30" using room by simp
    from hq_grow_ok [OF wf True this] app eq True show ?thesis unfolding push_queue_msg_def by fastforce
  next
    case False
    then show ?thesis using app [OF wf] eq D(5) unfolding push_queue_msg_def by simp
  qed
qed

interpretation hq: fifo_queue pop_queue hq_contents hq_wf push_queue_msg "2 ^ 30"
proof
  fix q assume "hq_wf q" "hq_contents q = []"
  then show "\<exists>q'. pop_queue q = Inr (q', None) \<and> hq_wf q' \<and> hq_contents q' = []"
    by (simp add: pop_queue_def hq_empty [symmetric])
next
  fix q x xs assume "hq_wf q" "hq_contents q = x # xs"
  then show "\<exists>q'. pop_queue q = Inr (q', Some x) \<and> hq_wf q' \<and> hq_contents q' = xs" by (rule pop_queue_cons)
next
  fix q x assume "hq_wf q" "length (hq_contents q) + 1 < 2 ^ 30"
  then show "\<exists>q'. push_queue_msg q x = Inr q' \<and> hq_wf q' \<and> hq_contents q' = hq_contents q @ [x]"
    using push_queue_msg_ok [of q x] by simp
qed

lemma new_queue_ok [simp]: "hq_wf new_queue" "hq_contents new_queue = []"
  by (simp_all add: hq_wf_def hq_contents_def hq_length_def new_queue_def HARBOR_QUEUE_SIZE_def)

section \<open>Properties\<close>

text \<open>
  The queue of waiting remote messages refines a first-in first-out list, through every growth
  of the ring: for any interleaving of pushes and pops with fewer than \<open>2 ^ 30\<close> messages no
  operation fails and every pop returns what it returns on a list.
\<close>

theorem harbor_queue_refines_fifo:
  assumes "hq_wf q" "length (hq_contents q) + enqs ops + 1 \<le> 2 ^ 30"
  shows "\<exists>q'. run_queue push_queue_msg pop_queue q ops = Inr (q', snd (spec_queue (hq_contents q) ops))
    \<and> hq_wf q' \<and> hq_contents q' = fst (spec_queue (hq_contents q) ops)"
  using hq.run_refines [OF assms] .

theorem harbor_queue_refines_fifo_witness:
  "\<exists>q' m. run_queue push_queue_msg pop_queue new_queue [Enq m, Deq, Deq] = Inr (q', [Some m, None])"
  using harbor_queue_refines_fifo [OF new_queue_ok(1), of "[Enq m, Deq, Deq]"] by auto

end
