(* ===== verification/Sky_Harbor.thy ===== *)
theory Sky_Harbor
  imports Sky_Harbor_Queue Sky_Service Sky_Handle
begin

text \<open>
  Model of \<^verbatim>\<open>service-src/service_harbor.c\<close>: the service that exchanges messages with the other
  nodes of the network over one TCP connection each, and that resolves global names.

  A node of the network is an index below \<open>REMOTE_MAX\<close> into \<open>h_s\<close>. The map of global names is an array
  of chains, indexed by the hash of the 16 bytes of the name; a chain is a list of \<open>keyvalue\<close>s,
  known by their keys. The text of a diagnostic is kept without its numbers. \<open>send_ok\<close> says for which
  destinations \<open>skynet_send\<close> does not fail.
\<close>

section \<open>Data\<close>

definition HASH_SIZE :: nat where "HASH_SIZE = 4096"
definition HEADER_COOKIE_LENGTH :: nat where "HEADER_COOKIE_LENGTH = 12"
definition GLOBALNAME_LENGTH :: nat where "GLOBALNAME_LENGTH = 16"
definition REMOTE_MAX :: nat where "REMOTE_MAX = 256"

record keyvalue =
  kv_key :: "u8 list"
  kv_hash :: u32
  kv_value :: u32
  kv_queue :: "harbor_queue option"

type_synonym hashmap = "nat \<Rightarrow> keyvalue list"

datatype status = STATUS_WAIT | STATUS_HANDSHAKE | STATUS_HEADER | STATUS_CONTENT | STATUS_DOWN

text \<open>\<open>sl_size\<close> are the bytes of the header read so far, \<open>sl_recv\<close> the content read so far.\<close>

record slave =
  sl_fd :: int
  sl_queue :: "harbor_queue option"
  sl_status :: status
  sl_length :: nat
  sl_read :: nat
  sl_size :: "u8 list"
  sl_recv :: "u8 list"

record harbor =
  h_id :: int
  h_slave :: u32
  h_map :: hashmap
  h_s :: "slave list"

section \<open>The map of names\<close>

definition le32 :: "u8 list \<Rightarrow> u32" where
  "le32 bs = ucast (bs ! 0) OR push_bit 8 (ucast (bs ! 1)) OR push_bit 16 (ucast (bs ! 2)) OR push_bit 24 (ucast (bs ! 3))"

definition name_hash :: "u8 list \<Rightarrow> u32" where
  "name_hash n = le32 n XOR le32 (drop 4 n) XOR le32 (drop 8 n) XOR le32 (drop 12 n)"

text \<open>\<open>strncmp(a, b, GLOBALNAME_LENGTH) == 0\<close>\<close>

definition same_name :: "u8 list \<Rightarrow> u8 list \<Rightarrow> bool" where
  "same_name a b \<longleftrightarrow>
     takeWhile (\<lambda>c. c \<noteq> 0) (take GLOBALNAME_LENGTH a) = takeWhile (\<lambda>c. c \<noteq> 0) (take GLOBALNAME_LENGTH b)"

definition kv_is :: "u8 list \<Rightarrow> keyvalue \<Rightarrow> bool" where
  "kv_is n node \<longleftrightarrow> kv_hash node = name_hash n \<and> same_name (kv_key node) n"

definition hash_search :: "hashmap \<Rightarrow> u8 list \<Rightarrow> keyvalue option" where
  "hash_search hm n = find (kv_is n) (hm (unat (name_hash n) mod HASH_SIZE))"

definition hash_insert :: "hashmap \<Rightarrow> u8 list \<Rightarrow> hashmap \<times> keyvalue" where
  "hash_insert hm n =
     (let h = name_hash n; i = unat h mod HASH_SIZE;
          node = \<lparr>kv_key = n, kv_hash = h, kv_value = 0, kv_queue = None\<rparr> in
      (hm(i := node # hm i), node))"

text \<open>Writing through the pointer to a node that \<open>hash_search\<close> or \<open>hash_insert\<close> returned.\<close>

fun replace_first :: "('a \<Rightarrow> bool) \<Rightarrow> 'a \<Rightarrow> 'a list \<Rightarrow> 'a list" where
  "replace_first P y [] = []"
| "replace_first P y (x # xs) = (if P x then y # xs else x # replace_first P y xs)"

definition hash_store :: "hashmap \<Rightarrow> u8 list \<Rightarrow> keyvalue \<Rightarrow> hashmap" where
  "hash_store hm n node =
     (let i = unat (name_hash n) mod HASH_SIZE in hm(i := replace_first (kv_is n) node (hm i)))"

definition hash_node :: "hashmap \<Rightarrow> u8 list \<Rightarrow> hashmap \<times> keyvalue" where
  "hash_node hm n = (case hash_search hm n of None \<Rightarrow> hash_insert hm n | Some node \<Rightarrow> (hm, node))"

definition hash_new :: hashmap where
  "hash_new = (\<lambda>_. [])"

section \<open>Connections\<close>

definition slave_at :: "harbor \<Rightarrow> nat \<Rightarrow> slave res" where
  "slave_at h i = (if i < length (h_s h) then Inr (h_s h ! i) else Inl OutOfBounds)"

definition set_slave :: "harbor \<Rightarrow> nat \<Rightarrow> slave \<Rightarrow> harbor" where
  "set_slave h i s = h\<lparr>h_s := (h_s h)[i := s]\<rparr>"

definition close_harbor :: "harbor \<Rightarrow> nat \<Rightarrow> (harbor \<times> svc_out list) res" where
  "close_harbor h i =
     cbind (slave_at h i) (\<lambda>s.
     Inr (set_slave h i (s\<lparr>sl_status := STATUS_DOWN, sl_fd := 0, sl_queue := None\<rparr>),
          if sl_fd s \<noteq> 0 then [SocketClose (sl_fd s)] else []))"

definition report_harbor_down :: "harbor \<Rightarrow> nat \<Rightarrow> svc_out list" where
  "report_harbor_down h i = [Send 0 (h_slave h) (int PTYPE_TEXT) 0 (str_bytes (''D '' @ int_str (int i)))]"

definition empty_slave :: slave where
  "empty_slave = \<lparr>sl_fd = 0, sl_queue = None, sl_status = STATUS_WAIT, sl_length = 0, sl_read = 0,
     sl_size = [0, 0, 0, 0], sl_recv = []\<rparr>"

definition harbor_create :: harbor where
  "harbor_create = \<lparr>h_id = 0, h_slave = 0, h_map = hash_new, h_s = replicate REMOTE_MAX empty_slave\<rparr>"

fun close_remotes :: "nat list \<Rightarrow> harbor \<Rightarrow> (harbor \<times> svc_out list) res" where
  "close_remotes [] h = Inr (h, [])"
| "close_remotes (i # is) h =
     cbind (close_harbor h i) (\<lambda>(h, out). cbind (close_remotes is h) (\<lambda>(h, outs). Inr (h, out @ outs)))"

definition close_all_remotes :: "harbor \<Rightarrow> (harbor \<times> svc_out list) res" where
  "close_all_remotes h = close_remotes [1..<REMOTE_MAX] h"

definition harbor_release :: "harbor \<Rightarrow> (harbor \<times> svc_out list) res" where
  "harbor_release h = cbind (close_all_remotes h) (\<lambda>(h, out). Inr (h\<lparr>h_map := hash_new\<rparr>, out))"

section \<open>Packets\<close>

definition to_bigendian :: "u32 \<Rightarrow> u8 list" where
  "to_bigendian n = [ucast (drop_bit 24 n), ucast (drop_bit 16 n), ucast (drop_bit 8 n), ucast n]"

definition header_to_message :: "remote_header \<Rightarrow> u8 list" where
  "header_to_message header =
     to_bigendian (rh_source header) @ to_bigendian (rh_destination header) @ to_bigendian (rh_session header)"

definition from_bigendian :: "u8 list \<Rightarrow> u32" where
  "from_bigendian bs =
     push_bit 24 (ucast (bs ! 0)) OR push_bit 16 (ucast (bs ! 1)) OR push_bit 8 (ucast (bs ! 2)) OR ucast (bs ! 3)"

definition message_to_header :: "u8 list \<Rightarrow> remote_header" where
  "message_to_header m =
     \<lparr>rh_source = from_bigendian (take 4 m), rh_destination = from_bigendian (take 4 (drop 4 m)),
      rh_session = from_bigendian (take 4 (drop 8 m))\<rparr>"

definition forward_local_message :: "(u32 \<Rightarrow> bool) \<Rightarrow> harbor \<Rightarrow> u8 list \<Rightarrow> svc_out list res" where
  "forward_local_message send_ok h msg =
     (if length msg < HEADER_COOKIE_LENGTH then Inl OutOfBounds
      else
        let n = length msg - HEADER_COOKIE_LENGTH;
            header = message_to_header (drop n msg);
            type = uint (drop_bit HANDLE_REMOTE_SHIFT (rh_destination header));
            destination = (rh_destination header AND HANDLE_MASK) OR push_bit HANDLE_REMOTE_SHIFT (word_of_int (h_id h));
            send = Send (rh_source header) destination (type OR PTYPE_TAG_DONTCOPY) (sint (rh_session header)) (take n msg) in
        if send_ok destination then Inr [send]
        else Inr (send #
               (if type \<noteq> int PTYPE_ERROR
                then [Send destination (rh_source header) (int PTYPE_ERROR) (sint (rh_session header)) []] else [])
               @ [LogError (''Unknown destination :'' @ hex_str destination)]))"

definition send_remote :: "int \<Rightarrow> u8 list \<Rightarrow> remote_header \<Rightarrow> svc_out list" where
  "send_remote fd buffer cookie =
     (let sz_header = length buffer + HEADER_COOKIE_LENGTH in
      if sz_header > 0xffffffff then [LogError (''remote message from :'' @ hex_str (rh_source cookie) @ '' is too large.'')]
      else [SocketSend fd (to_bigendian (of_nat sz_header) @ buffer @ header_to_message cookie)])"

section \<open>Queues\<close>

text \<open>
  The loops \<open>while ((m = pop_queue(queue)) != NULL)\<close>: the queue is emptied and each message handled by
  \<open>f\<close>, which adds to the calls made. A loop that goes on would be the value \<open>Diverges\<close>.
\<close>

definition pop_all :: "(harbor_msg \<Rightarrow> 'u \<Rightarrow> 'u res) \<Rightarrow> harbor_queue \<Rightarrow> 'u \<Rightarrow> (harbor_queue \<times> 'u) res" where
  "pop_all f q u =
     (case drain (\<lambda>(q, u). cbind (pop_queue q) (\<lambda>(q, m). Inr ((q, u), m)))
             (\<lambda>m (q, u). cbind (f m u) (\<lambda>u. Inr (q, u))) (q, u) of
        None \<Rightarrow> Inl Diverges
      | Some r \<Rightarrow> r)"

definition emit :: "(harbor_msg \<Rightarrow> svc_out list) \<Rightarrow> harbor_msg \<Rightarrow> svc_out list \<Rightarrow> svc_out list res" where
  "emit f m out = Inr (out @ f m)"

text \<open>
  \<open>dispatch_name_queue\<close>, on the node of the name and its queue. The result has the harbor, the queue
  the node is left with, and the calls.
\<close>

definition dispatch_name_queue ::
  "harbor \<Rightarrow> keyvalue \<Rightarrow> harbor_queue \<Rightarrow> (harbor \<times> harbor_queue option \<times> svc_out list) res" where
  "dispatch_name_queue h node queue =
     (let handle = kv_value node; harbor_id = unat (drop_bit HANDLE_REMOTE_SHIFT handle) in
      cbind (slave_at h harbor_id) (\<lambda>s.
      if sl_fd s = 0 then
        if sl_status s = STATUS_DOWN then
          Inr (h, Some queue, [LogError (''Drop message to '' @ cstr (bytes_str (kv_key node)) 0)])
        else
          cbind (case sl_queue s of
                   None \<Rightarrow> Inr (queue, None)
                 | Some sq \<Rightarrow> cbind (pop_all (\<lambda>m sq. push_queue_msg sq m) queue sq) (\<lambda>(queue, sq). Inr (sq, Some queue)))
            (\<lambda>(sq, nq).
          if harbor_id = unat (drop_bit HANDLE_REMOTE_SHIFT (h_slave h)) then
            cbind (pop_all (emit (\<lambda>m. [Send (rh_source (hm_header m)) handle
                       (uint (drop_bit HANDLE_REMOTE_SHIFT (rh_destination (hm_header m))) OR PTYPE_TAG_DONTCOPY)
                       (sint (rh_session (hm_header m))) (hm_buffer m)])) sq []) (\<lambda>(_, out).
            Inr (set_slave h harbor_id (s\<lparr>sl_queue := None\<rparr>), nq, out))
          else Inr (set_slave h harbor_id (s\<lparr>sl_queue := Some sq\<rparr>), nq, []))
      else
        cbind (pop_all (emit (\<lambda>m. send_remote (sl_fd s) (hm_buffer m)
                 ((hm_header m)\<lparr>rh_destination := rh_destination (hm_header m) OR (handle AND HANDLE_MASK)\<rparr>))) queue [])
          (\<lambda>(queue, out). Inr (h, Some queue, out))))"

definition dispatch_queue :: "harbor \<Rightarrow> nat \<Rightarrow> (harbor \<times> svc_out list) res" where
  "dispatch_queue h i =
     cbind (slave_at h i) (\<lambda>s.
     cbind (c_assert (sl_fd s \<noteq> 0)) (\<lambda>_.
     case sl_queue s of
       None \<Rightarrow> Inr (h, [])
     | Some queue \<Rightarrow>
         cbind (pop_all (emit (\<lambda>m. send_remote (sl_fd s) (hm_buffer m) (hm_header m))) queue []) (\<lambda>(_, out).
         Inr (set_slave h i (s\<lparr>sl_queue := None\<rparr>), out))))"

section \<open>Received data\<close>

definition find_fd :: "harbor \<Rightarrow> int \<Rightarrow> nat option" where
  "find_fd h fd = find (\<lambda>i. sl_fd (h_s h ! i) = fd) [1..<min REMOTE_MAX (length (h_s h))]"

text \<open>
  One pass through the loop of \<open>push_socket_data\<close> with the bytes that are left: \<open>Inr\<close> of the new
  state, the calls, and the bytes to go on with (none: the function returns).
\<close>

definition content_pass ::
  "(u32 \<Rightarrow> bool) \<Rightarrow> harbor \<Rightarrow> nat \<Rightarrow> u8 list \<Rightarrow> (harbor \<times> svc_out list \<times> u8 list option) res" where
  "content_pass send_ok h i buffer =
     cbind (slave_at h i) (\<lambda>s.
     let need = sl_length s - sl_read s in
     if length buffer < need then
       Inr (set_slave h i (s\<lparr>sl_recv := take (sl_read s) (sl_recv s) @ buffer, sl_read := sl_read s + length buffer\<rparr>), [], None)
     else
       cbind (forward_local_message send_ok h (take (sl_read s) (sl_recv s) @ take need buffer)) (\<lambda>out.
       Inr (set_slave h i (s\<lparr>sl_length := 0, sl_read := 0, sl_recv := [], sl_status := STATUS_HEADER\<rparr>), out,
            if length buffer = need then None else Some (drop need buffer))))"

definition header_pass ::
  "(u32 \<Rightarrow> bool) \<Rightarrow> harbor \<Rightarrow> nat \<Rightarrow> u8 list \<Rightarrow> (harbor \<times> svc_out list \<times> u8 list option) res" where
  "header_pass send_ok h i buffer =
     cbind (slave_at h i) (\<lambda>s.
     let need = 4 - sl_read s in
     if length buffer < need then
       Inr (set_slave h i (s\<lparr>sl_size := take (sl_read s) (sl_size s) @ buffer @ drop (sl_read s + length buffer) (sl_size s),
                             sl_read := sl_read s + length buffer\<rparr>), [], None)
     else
       let size4 = take (sl_read s) (sl_size s) @ take need buffer; buffer = drop need buffer;
           s = s\<lparr>sl_size := size4\<rparr> in
       if size4 ! 0 \<noteq> 0 then
         cbind (close_harbor (set_slave h i s) i) (\<lambda>(h, out).
         Inr (h, LogError ''Message is too long from harbor'' # out, None))
       else
         let len = unat (push_bit 16 (ucast (size4 ! 1)) OR push_bit 8 (ucast (size4 ! 2)) OR ucast (size4 ! 3) :: u32);
             h = set_slave h i (s\<lparr>sl_length := len, sl_read := 0, sl_recv := [], sl_status := STATUS_CONTENT\<rparr>) in
         if buffer = [] then Inr (h, [], None) else content_pass send_ok h i buffer)"

definition data_pass ::
  "(u32 \<Rightarrow> bool) \<Rightarrow> harbor \<Rightarrow> nat \<Rightarrow> u8 list \<Rightarrow> (harbor \<times> svc_out list \<times> u8 list option) res" where
  "data_pass send_ok h i buffer =
     cbind (slave_at h i) (\<lambda>s.
     case sl_status s of
       STATUS_HANDSHAKE \<Rightarrow>
         (case buffer of
            [] \<Rightarrow> Inl OutOfBounds
          | remote_id # buffer \<Rightarrow>
              if unat remote_id \<noteq> i then
                cbind (close_harbor h i) (\<lambda>(h, out). Inr (h, LogError ''Invalid shakehand id'' # out, None))
              else
                cbind (dispatch_queue (set_slave h i (s\<lparr>sl_status := STATUS_HEADER\<rparr>)) i) (\<lambda>(h, out).
                if buffer = [] then Inr (h, out, Some [])
                else cbind (header_pass send_ok h i buffer) (\<lambda>(h, out', rest). Inr (h, out @ out', rest))))
     | STATUS_HEADER \<Rightarrow> header_pass send_ok h i buffer
     | STATUS_CONTENT \<Rightarrow> content_pass send_ok h i buffer
     | _ \<Rightarrow> Inr (h, [], None))"

partial_function (option) data_loop ::
  "(u32 \<Rightarrow> bool) \<Rightarrow> harbor \<Rightarrow> nat \<Rightarrow> u8 list \<Rightarrow> (harbor \<times> svc_out list) res option" where
  "data_loop send_ok h i buffer =
     (case data_pass send_ok h i buffer of
        Inl e \<Rightarrow> Some (Inl e)
      | Inr (h, out, rest) \<Rightarrow>
          (case rest of
             None \<Rightarrow> Some (Inr (h, out))
           | Some buffer \<Rightarrow>
               Option.bind (data_loop send_ok h i buffer) (\<lambda>r. Some (cbind r (\<lambda>(h, outs). Inr (h, out @ outs))))))"

definition push_socket_data :: "(u32 \<Rightarrow> bool) \<Rightarrow> harbor \<Rightarrow> socket_message \<Rightarrow> (harbor \<times> svc_out list) res" where
  "push_socket_data send_ok h m =
     cbind (c_assert (ss_type m = SKYNET_SOCKET_TYPE_DATA)) (\<lambda>_.
     case find_fd h (ss_id m) of
       None \<Rightarrow> Inr (h, [LogError (''Invalid socket fd ('' @ int_str (ss_id m) @ '') data'')])
     | Some i \<Rightarrow>
         (case data_loop send_ok h i (ss_buffer m) of None \<Rightarrow> Inl Diverges | Some r \<Rightarrow> r))"

section \<open>Names and messages to other nodes\<close>

definition update_name :: "harbor \<Rightarrow> u8 list \<Rightarrow> u32 \<Rightarrow> (harbor \<times> svc_out list) res" where
  "update_name h n handle =
     (let (hm, node) = hash_node (h_map h) n;
          node = node\<lparr>kv_value := handle\<rparr>;
          h = h\<lparr>h_map := hash_store hm n node\<rparr> in
      case kv_queue node of
        None \<Rightarrow> Inr (h, [])
      | Some queue \<Rightarrow>
          cbind (dispatch_name_queue h node queue) (\<lambda>(h, _, out).
          Inr (h\<lparr>h_map := hash_store (h_map h) n (node\<lparr>kv_queue := None\<rparr>)\<rparr>, out)))"

text \<open>The result says whether the message is kept (1) or may be freed (0).\<close>

definition remote_send_handle ::
  "harbor \<Rightarrow> u32 \<Rightarrow> u32 \<Rightarrow> int \<Rightarrow> int \<Rightarrow> u8 list \<Rightarrow> (harbor \<times> svc_out list \<times> int) res" where
  "remote_send_handle h src destination type sess msg =
     (let harbor_id = unat (drop_bit HANDLE_REMOTE_SHIFT destination);
          header = \<lparr>rh_source = src,
                    rh_destination = push_bit HANDLE_REMOTE_SHIFT (word_of_int type) OR (destination AND HANDLE_MASK),
                    rh_session = word_of_int sess\<rparr> in
      if int harbor_id = h_id h then Inr (h, [Send src destination (type OR PTYPE_TAG_DONTCOPY) sess msg], 1)
      else
        cbind (slave_at h harbor_id) (\<lambda>s.
        if sl_fd s = 0 \<or> sl_status s = STATUS_HANDSHAKE then
          if sl_status s = STATUS_DOWN then
            Inr (h, [Send destination src (int PTYPE_ERROR) sess [], LogError ''Drop message to harbor''], 0)
          else
            cbind (push_queue (case sl_queue s of None \<Rightarrow> new_queue | Some q \<Rightarrow> q) msg header) (\<lambda>q.
            Inr (set_slave h harbor_id (s\<lparr>sl_queue := Some q\<rparr>), [], 1))
        else Inr (h, send_remote (sl_fd s) msg header, 0)))"

definition remote_send_name ::
  "harbor \<Rightarrow> u32 \<Rightarrow> u8 list \<Rightarrow> int \<Rightarrow> int \<Rightarrow> u8 list \<Rightarrow> (harbor \<times> svc_out list \<times> int) res" where
  "remote_send_name h src n type sess msg =
     (let (hm, node) = hash_node (h_map h) n; h = h\<lparr>h_map := hm\<rparr> in
      if kv_value node = 0 then
        cbind (push_queue (case kv_queue node of None \<Rightarrow> new_queue | Some q \<Rightarrow> q) msg
                 \<lparr>rh_source = src, rh_destination = push_bit HANDLE_REMOTE_SHIFT (word_of_int type), rh_session = word_of_int sess\<rparr>)
          (\<lambda>q.
        Inr (h\<lparr>h_map := hash_store hm n (node\<lparr>kv_queue := Some q\<rparr>)\<rparr>,
             [Send 0 (h_slave h) (int PTYPE_TEXT) 0 (str_bytes ''Q '' @ takeWhile (\<lambda>c. c \<noteq> 0) (take GLOBALNAME_LENGTH n))], 1))
      else remote_send_handle h src (kv_value node) type sess msg)"

definition handshake :: "harbor \<Rightarrow> int \<Rightarrow> svc_out list" where
  "handshake h fd = [SocketSend fd [word_of_int (h_id h)]]"

text \<open>\<open>sscanf(buffer, "%d %d", &fd, &id)\<close>, both 0 when not converted.\<close>

definition scan_d :: "string \<Rightarrow> int \<times> string" where
  "scan_d s =
     (let (neg, t) = skip_sign s; ds = leading_digits 10 t in
      if ds = [] then (0, []) else (to_int (strtol10 s), drop (length ds) t))"

definition harbor_command :: "harbor \<Rightarrow> string \<Rightarrow> u32 \<Rightarrow> (harbor \<times> svc_out list) res" where
  "harbor_command h msg src =
     (case msg of
        [] \<Rightarrow> Inl OutOfBounds
      | cmd # _ \<Rightarrow>
          let name = drop 2 msg; s = int (length msg) - 2 in
          if cmd = CHR ''N'' then
            if s \<le> 0 \<or> s \<ge> int GLOBALNAME_LENGTH then Inr (h, [LogError (''Invalid global name '' @ name)])
            else update_name h (str_bytes name @ replicate (GLOBALNAME_LENGTH - length name) 0) src
          else if cmd = CHR ''S'' \<or> cmd = CHR ''A'' then
            if s < 0 then Inl OutOfBounds
            else
              let (fd, rest) = scan_d (cstr name 0); (i, _) = scan_d rest in
              if fd = 0 \<or> i \<le> 0 \<or> i \<ge> int REMOTE_MAX then Inr (h, [LogError (''Invalid command '' @ [cmd])])
              else
                cbind (slave_at h (nat i)) (\<lambda>sl.
                if sl_fd sl \<noteq> 0 then Inr (h, [LogError (''Harbor alreay exist'')])
                else
                  let sl = sl\<lparr>sl_fd := fd\<rparr>; out = SocketStart fd # handshake h fd in
                  if cmd = CHR ''S'' then
                    Inr (set_slave h (nat i) (sl\<lparr>sl_status := STATUS_HANDSHAKE\<rparr>), out)
                  else
                    cbind (dispatch_queue (set_slave h (nat i) (sl\<lparr>sl_status := STATUS_HEADER\<rparr>)) (nat i)) (\<lambda>(h, out').
                    Inr (h, out @ out')))
          else Inr (h, [LogError (''Unknown command '' @ msg)]))"

definition harbor_id :: "harbor \<Rightarrow> int \<Rightarrow> nat" where
  "harbor_id h fd = (case find_fd h fd of None \<Rightarrow> 0 | Some i \<Rightarrow> i)"

section \<open>The callback and the start\<close>

datatype harbor_input =
    Socket_msg socket_message
  | Harbor_cmd string
  | Remote_handle u32 int "u8 list"        \<comment> \<open>a \<open>remote_message\<close> to a handle, with its type\<close>
  | Remote_name "u8 list" int "u8 list"    \<comment> \<open>to a name\<close>
  | Unknown int

definition mainloop ::
  "(u32 \<Rightarrow> bool) \<Rightarrow> harbor \<Rightarrow> int \<Rightarrow> u32 \<Rightarrow> harbor_input \<Rightarrow> (harbor \<times> svc_out list) res" where
  "mainloop send_ok h sess src m =
     (case m of
        Socket_msg sm \<Rightarrow>
          if ss_type sm = SKYNET_SOCKET_TYPE_DATA then push_socket_data send_ok h sm
          else if ss_type sm = SKYNET_SOCKET_TYPE_ERROR \<or> ss_type sm = SKYNET_SOCKET_TYPE_CLOSE then
            let i = harbor_id h (ss_id sm) in
            Inr (h, if i \<noteq> 0 then report_harbor_down h i else [LogError (''Unknown fd ('' @ int_str (ss_id sm) @ '') closed'')])
          else if ss_type sm = SKYNET_SOCKET_TYPE_CONNECT then Inr (h, [])
          else if ss_type sm = SKYNET_SOCKET_TYPE_WARNING then
            Inr (h, if harbor_id h (ss_id sm) \<noteq> 0 then [LogError ''message havn't send to Harbor''] else [])
          else Inr (h, [LogError ''recv invalid socket message type''])
      | Harbor_cmd s \<Rightarrow> harbor_command h s src
      | Remote_handle destination type msg \<Rightarrow>
          cbind (remote_send_handle h src destination type sess msg) (\<lambda>(h, out, _). Inr (h, out))
      | Remote_name n type msg \<Rightarrow>
          cbind (remote_send_name h src n type sess msg) (\<lambda>(h, out, _). Inr (h, out))
      | Unknown type \<Rightarrow>
          Inr (h, LogError (''recv invalid message from '' @ hex_str src) #
                  (if sess \<noteq> 0 \<and> type \<noteq> int PTYPE_ERROR then [Send 0 src (int PTYPE_ERROR) sess []] else [])))"

definition harbor_init :: "harbor \<Rightarrow> string \<Rightarrow> (harbor \<times> svc_out list \<times> int) res" where
  "harbor_init h args =
     (let (hid, rest) = scan_d args; sl = word_of_int (fst (scan_d rest)) :: u32 in
      if sl = 0 then Inr (h, [], 1)
      else
        let h = h\<lparr>h_id := hid, h_slave := sl\<rparr> in
        cbind (if hid = 0 then close_all_remotes h else Inr (h, [])) (\<lambda>(h, out).
        Inr (h, out @ [SetCallback], 0)))"

end
