(* ===== verification/Sky_Harbor_Wire.thy ===== *)
theory Sky_Harbor_Wire
  imports Sky_Harbor
begin

text \<open>
  The wire format between two harbors: what \<open>send_remote\<close> writes, and that \<open>push_socket_data\<close> at the
  other end delivers every message once and in order, however the stream is cut.
\<close>

section \<open>Numbers and headers\<close>

lemma from_to_bigendian [simp]: "from_bigendian (to_bigendian n) = n"
proof (rule bit_word_eqI)
  fix k assume k: "k < LENGTH(32)"
  consider "k < 8" | "8 \<le> k" "k < 16" | "16 \<le> k" "k < 24" | "24 \<le> k" by linarith
  then show "bit (from_bigendian (to_bigendian n)) k = bit n k"
    using k by cases (auto simp: from_bigendian_def to_bigendian_def bit_simps)
qed

lemma length_to_bigendian [simp]: "length (to_bigendian n) = 4"
  by (simp add: to_bigendian_def)

lemma length_header_to_message [simp]: "length (header_to_message hdr) = 12"
  by (simp add: header_to_message_def)

lemma message_header_inverse [simp]: "message_to_header (header_to_message hdr) = hdr"
  by (simp add: message_to_header_def header_to_message_def)

section \<open>The specification of the stream\<close>

definition len24 :: "u8 list \<Rightarrow> nat" where
  "len24 bs = unat (push_bit 16 (ucast (bs ! 1)) OR push_bit 8 (ucast (bs ! 2)) OR ucast (bs ! 3) :: u32)"

lemma len24_append: "4 \<le> length bs \<Longrightarrow> len24 (bs @ ds) = len24 bs"
  by (simp add: len24_def nth_append)

lemma len24_take: "4 \<le> length bs \<Longrightarrow> len24 (take 4 bs) = len24 bs"
  by (simp add: len24_def)

text \<open>The packets in a stream and the bytes left over; \<open>None\<close> for a length that is not allowed.\<close>

function rparse :: "u8 list \<Rightarrow> (u8 list list \<times> u8 list) option" where
  "rparse bs =
     (if length bs < 4 then Some ([], bs)
      else if bs ! 0 \<noteq> 0 \<or> len24 bs < 12 then None
      else if length bs < 4 + len24 bs then Some ([], bs)
      else map_option (\<lambda>(ps, r). (take (len24 bs) (drop 4 bs) # ps, r)) (rparse (drop (4 + len24 bs) bs)))"
  by pat_completeness auto
termination
  by (relation "measure length") auto

declare rparse.simps [simp del]

lemma rparse_bad: "4 \<le> length bs \<Longrightarrow> bs ! 0 \<noteq> 0 \<or> len24 bs < 12 \<Longrightarrow> rparse (bs @ ds) = None"
  using len24_append [of bs ds] by (subst rparse.simps) (cases bs; auto)

lemma rparse_wait: "length bs < 4 \<or> length bs < 4 + len24 bs \<and> bs ! 0 = 0 \<and> 12 \<le> len24 bs \<Longrightarrow> rparse bs = Some ([], bs)"
  by (subst rparse.simps) auto

lemma rparse_packet:
  assumes "4 + len24 bs \<le> length bs" "bs ! 0 = 0" "12 \<le> len24 bs"
  shows "rparse (bs @ ds) =
    map_option (\<lambda>(ps, r). (take (len24 bs) (drop 4 bs) # ps, r)) (rparse (drop (4 + len24 bs) bs @ ds))"
proof -
  have "len24 (bs @ ds) = len24 bs" "(bs @ ds) ! 0 = 0" using assms by (auto simp: len24_append nth_append)
  then show ?thesis using assms by (subst rparse.simps) (simp add: not_less)
qed

lemma rparse_cases:
  obtains (wait) "length bs < 4 \<or> length bs < 4 + len24 bs \<and> bs ! 0 = 0 \<and> 12 \<le> len24 bs"
    | (bad) "4 \<le> length bs" "bs ! 0 \<noteq> 0 \<or> len24 bs < 12"
    | (packet) "4 + len24 bs \<le> length bs" "bs ! 0 = 0" "12 \<le> len24 bs"
  by linarith

text \<open>What the state of a connection stands for: the bytes \<open>P\<close> of an unfinished packet.\<close>

definition holds :: "int \<Rightarrow> slave \<Rightarrow> u8 list \<Rightarrow> bool" where
  "holds fd s P \<longleftrightarrow> sl_fd s = fd \<and>
     ((sl_status s = STATUS_HEADER \<and> length P < 4 \<and> sl_read s = length P \<and> length (sl_size s) = 4
        \<and> take (sl_read s) (sl_size s) = P)
   \<or> (sl_status s = STATUS_CONTENT \<and> 4 \<le> length P \<and> P ! 0 = 0 \<and> 12 \<le> len24 P \<and> sl_length s = len24 P
        \<and> sl_read s = length P - 4 \<and> length P < 4 + len24 P \<and> take (sl_read s) (sl_recv s) = drop 4 P \<and> length (sl_size s) = 4))"

definition deliver :: "(u32 \<Rightarrow> bool) \<Rightarrow> harbor \<Rightarrow> u8 list \<Rightarrow> svc_out list" where
  "deliver send_ok h p = (case forward_local_message send_ok h p of Inl _ \<Rightarrow> [] | Inr out \<Rightarrow> out)"

lemma deliver_ok: "12 \<le> length p \<Longrightarrow> forward_local_message send_ok h p = Inr (deliver send_ok h p)"
  by (simp add: deliver_def forward_local_message_def HEADER_COOKIE_LENGTH_def Let_def)

lemma deliver_set_slave [simp]: "deliver send_ok (set_slave h i s) = deliver send_ok h"
  by (rule ext) (simp add: deliver_def forward_local_message_def set_slave_def)

lemma set_slave_simps [simp]:
  "i < length (h_s h) \<Longrightarrow> slave_at (set_slave h i s) i = Inr s"
  "set_slave (set_slave h i s) i s' = set_slave h i s'"
  "h_id (set_slave h i s) = h_id h" "length (h_s (set_slave h i s)) = length (h_s h)"
  by (simp_all add: slave_at_def set_slave_def)

text \<open>The connection does what the parser does from \<open>P\<close> on.\<close>

definition follows :: "int \<Rightarrow> (u32 \<Rightarrow> bool) \<Rightarrow> harbor \<Rightarrow> nat \<Rightarrow> u8 list \<Rightarrow> (harbor \<times> svc_out list) res option \<Rightarrow> bool" where
  "follows fd send_ok h i bs r \<longleftrightarrow>
     (\<forall>ps rest. rparse bs = Some (ps, rest) \<longrightarrow>
        (\<exists>s'. r = Some (Inr (set_slave h i s', concat (map (deliver send_ok h) ps))) \<and> holds fd s' rest))"

definition continue ::
  "(u32 \<Rightarrow> bool) \<Rightarrow> nat \<Rightarrow> (harbor \<times> svc_out list \<times> u8 list option) res \<Rightarrow> (harbor \<times> svc_out list) res option" where
  "continue send_ok i p =
     (case p of
        Inl e \<Rightarrow> Some (Inl e)
      | Inr (h, out, None) \<Rightarrow> Some (Inr (h, out))
      | Inr (h, out, Some b) \<Rightarrow>
          Option.bind (data_loop send_ok h i b) (\<lambda>r. Some (cbind r (\<lambda>(h, outs). Inr (h, out @ outs)))))"

lemma data_loop_continue: "data_loop send_ok h i b = continue send_ok i (data_pass send_ok h i b)"
  by (subst data_loop.simps) (simp add: continue_def split: sum.splits option.splits prod.splits)

lemma content_pass_follows:
  assumes i: "i < length (h_s h)" and s: "holds fd s P" "sl_status s = STATUS_CONTENT" and b: "b \<noteq> []"
    and IH: "\<And>b' s' P'. length b' < length b \<Longrightarrow> holds fd s' P' \<Longrightarrow> b' \<noteq> [] \<Longrightarrow>
      follows fd send_ok h i (P' @ b') (data_loop send_ok (set_slave h i s') i b')"
  shows "follows fd send_ok h i (P @ b) (continue send_ok i (content_pass send_ok (set_slave h i s) i b))"
  unfolding follows_def
proof (intro allI impI)
  fix ps rest assume pr: "rparse (P @ b) = Some (ps, rest)"
  have P: "4 \<le> length P" "P ! 0 = 0" "12 \<le> len24 P" "sl_length s = len24 P" "sl_read s = length P - 4"
    "length P < 4 + len24 P" "take (sl_read s) (sl_recv s) = drop 4 P" "length (sl_size s) = 4" "sl_fd s = fd"
    using s by (auto simp: holds_def)
  let ?n = "len24 P" and ?need = "len24 P - (length P - 4)"
  have l24: "len24 (P @ b) = ?n" "(P @ b) ! 0 = 0" using P by (auto simp: len24_append nth_append)
  show "\<exists>s'. continue send_ok i (content_pass send_ok (set_slave h i s) i b)
      = Some (Inr (set_slave h i s', concat (map (deliver send_ok h) ps))) \<and> holds fd s' rest"
  proof (cases "length b < ?need")
    case True
    let ?s = "s\<lparr>sl_recv := drop 4 P @ b, sl_read := length P - 4 + length b\<rparr>"
    have "rparse (P @ b) = Some ([], P @ b)" using P True l24 by (subst rparse.simps) auto
    then have "ps = []" "rest = P @ b" using pr by auto
    moreover have "holds fd ?s (P @ b)" using s(2) P True l24 by (auto simp: holds_def)
    ultimately show ?thesis using i P True
      by (intro exI [of _ ?s]) (simp add: content_pass_def continue_def)
  next
    case False
    let ?pkt = "drop 4 P @ take ?need b" and ?b = "drop ?need b"
    let ?s = "s\<lparr>sl_length := 0, sl_read := 0, sl_recv := [], sl_status := STATUS_HEADER\<rparr>"
    have pkt: "length ?pkt = ?n" "take ?n (drop 4 (P @ b)) = ?pkt" "drop (4 + ?n) (P @ b) = ?b"
      using P False by (auto simp: add.commute)
    obtain ps1 where p1: "rparse ?b = Some (ps1, rest)" "ps = ?pkt # ps1"
    proof -
      have "\<not> length (P @ b) < 4" "\<not> length (P @ b) < 4 + ?n" using P False by auto
      then have "rparse (P @ b) = map_option (\<lambda>(ps, r). (?pkt # ps, r)) (rparse ?b)"
        using rparse.simps [of "P @ b", unfolded l24 pkt] P(3) by (simp only: if_False not_less [symmetric] simp_thms if_cancel)
      then show ?thesis using pr that by (cases "rparse ?b") auto
    qed
    have h0: "holds fd ?s []" using P by (simp add: holds_def)
    have fw: "forward_local_message send_ok (set_slave h i s) ?pkt = Inr (deliver send_ok h ?pkt)"
      using deliver_ok [of ?pkt send_ok "set_slave h i s"] pkt(1) P(3) by simp
    have cp: "content_pass send_ok (set_slave h i s) i b =
        Inr (set_slave h i ?s, deliver send_ok h ?pkt, if length b = ?need then None else Some ?b)"
      using i P False fw by (simp add: content_pass_def Let_def)
    show ?thesis
    proof (cases "?b = []")
      case True
      then have "length b = ?need" "ps1 = []" "rest = []" using False p1(1) by (auto simp: rparse.simps [of "[]"])
      then show ?thesis using cp p1(2) h0 by (auto simp: continue_def)
    next
      case Fb: False
      then have "length ?b < length b" using P(1,6) b by simp
      from IH [OF this h0 Fb] p1(1) obtain s' where
        "data_loop send_ok (set_slave h i ?s) i ?b = Some (Inr (set_slave h i s', concat (map (deliver send_ok h) ps1)))" "holds fd s' rest"
        by (auto simp: follows_def)
      then show ?thesis using cp p1(2) Fb by (auto simp: continue_def)
    qed
  qed
qed

lemma header_pass_follows:
  assumes i: "i < length (h_s h)" and s: "holds fd s P" "sl_status s = STATUS_HEADER" and b: "b \<noteq> []"
    and IH: "\<And>b' s' P'. length b' < length b \<Longrightarrow> holds fd s' P' \<Longrightarrow> b' \<noteq> [] \<Longrightarrow>
      follows fd send_ok h i (P' @ b') (data_loop send_ok (set_slave h i s') i b')"
  shows "follows fd send_ok h i (P @ b) (continue send_ok i (header_pass send_ok (set_slave h i s) i b))"
  unfolding follows_def
proof (intro allI impI)
  fix ps rest assume pr: "rparse (P @ b) = Some (ps, rest)"
  have P: "length P < 4" "sl_read s = length P" "length (sl_size s) = 4" "take (length P) (sl_size s) = P" "sl_fd s = fd"
    using s by (auto simp: holds_def)
  let ?need = "4 - length P"
  show "\<exists>s'. continue send_ok i (header_pass send_ok (set_slave h i s) i b)
      = Some (Inr (set_slave h i s', concat (map (deliver send_ok h) ps))) \<and> holds fd s' rest"
  proof (cases "length b < ?need")
    case True
    let ?s = "s\<lparr>sl_size := P @ b @ drop (length P + length b) (sl_size s), sl_read := length P + length b\<rparr>"
    have "rparse (P @ b) = Some ([], P @ b)" using True by (subst rparse.simps) auto
    then have "ps = []" "rest = P @ b" using pr by auto
    moreover have "holds fd ?s (P @ b)" using s(2) P True by (auto simp: holds_def)
    ultimately show ?thesis using i P True
      by (intro exI [of _ ?s]) (simp add: header_pass_def continue_def)
  next
    case False
    let ?S = "P @ take ?need b" and ?b = "drop ?need b"
    have S: "length ?S = 4" "P @ b = ?S @ ?b" using False P(1) by simp_all
    have ok: "?S ! 0 = 0" "12 \<le> len24 ?S"
      using pr rparse_bad [of ?S ?b, unfolded S(2) [symmetric]] eq_imp_le [OF S(1) [symmetric]] by (metis not_less option.distinct(1))+
    let ?s = "s\<lparr>sl_size := ?S, sl_length := len24 ?S, sl_read := 0, sl_recv := [], sl_status := STATUS_CONTENT\<rparr>"
    have h4: "holds fd ?s ?S" using ok S(1) P(5) by (simp add: holds_def)
    have hp: "header_pass send_ok (set_slave h i s) i b =
        (if ?b = [] then Inr (set_slave h i ?s, [], None) else content_pass send_ok (set_slave h i ?s) i ?b)"
      using i P False ok by (simp add: header_pass_def Let_def len24_def)
    show ?thesis
    proof (cases "?b = []")
      case True
      then have "P @ b = ?S" using S(2) by (metis append_Nil2)
      moreover have "rparse ?S = Some ([], ?S)" using S(1) ok by (intro rparse_wait) linarith
      ultimately have "rparse (P @ b) = Some ([], ?S)" by metis
      then have e: "ps = []" "rest = ?S" using pr by auto
      have "header_pass send_ok (set_slave h i s) i b = Inr (set_slave h i ?s, [], None)" using hp True by simp
      then have "continue send_ok i (header_pass send_ok (set_slave h i s) i b) = Some (Inr (set_slave h i ?s, []))"
        by (simp add: continue_def)
      then show ?thesis using h4 e by auto
    next
      case Fb: False
      have "follows fd send_ok h i (?S @ ?b) (continue send_ok i (content_pass send_ok (set_slave h i ?s) i ?b))"
        by (rule content_pass_follows [OF i h4 _ Fb]) (use IH b in \<open>simp_all add: less_diff_conv\<close>)
      then have "follows fd send_ok h i (P @ b) (continue send_ok i (header_pass send_ok (set_slave h i s) i b))"
        unfolding S(2) [symmetric] hp if_not_P [OF Fb] .
      then show ?thesis using pr unfolding follows_def by blast
    qed
  qed
qed

lemma data_loop_follows:
  assumes "i < length (h_s h)" "holds fd s P" "b \<noteq> []"
  shows "follows fd send_ok h i (P @ b) (data_loop send_ok (set_slave h i s) i b)"
  using assms(2,3)
proof (induction "length b" arbitrary: b s P rule: less_induct)
  case less
  have "sl_status s = STATUS_HEADER \<or> sl_status s = STATUS_CONTENT" using less.prems(1) by (auto simp: holds_def)
  then show ?case
    using header_pass_follows [OF assms(1) less.prems(1) _ less.prems(2) less.hyps]
      content_pass_follows [OF assms(1) less.prems(1) _ less.prems(2) less.hyps]
    unfolding data_loop_continue by (auto simp: data_pass_def assms(1))
qed

section \<open>Chunks\<close>

lemma rparse_append:
  "rparse bs = Some (ps1, r1) \<Longrightarrow> rparse (r1 @ ds) = Some (ps2, r2) \<Longrightarrow> rparse (bs @ ds) = Some (ps1 @ ps2, r2)"
proof (induction bs arbitrary: ps1 rule: rparse.induct)
  case (1 bs)
  show ?case
  proof (cases bs rule: rparse_cases)
    case packet
    with "1.prems"(1) obtain qs where q: "rparse (drop (4 + len24 bs) bs) = Some (qs, r1)" "ps1 = take (len24 bs) (drop 4 bs) # qs"
      using rparse_packet [OF packet, of "[]"] by (auto dest!: sym [of "Some _"])
    from "1.IH" [OF _ _ _ q(1) "1.prems"(2)] packet show ?thesis using q(2) by (simp add: rparse_packet)
  qed (use "1.prems" rparse_bad [of bs "[]"] in \<open>auto simp: rparse_wait\<close>)
qed

lemma rparse_split:
  "rparse (bs @ ds) = Some (ps, r) \<Longrightarrow>
   \<exists>ps1 r1 ps2. rparse bs = Some (ps1, r1) \<and> rparse (r1 @ ds) = Some (ps2, r) \<and> ps = ps1 @ ps2"
proof (induction bs arbitrary: ps rule: rparse.induct)
  case (1 bs)
  show ?case
  proof (cases bs rule: rparse_cases)
    case packet
    with "1.prems" obtain qs where q: "rparse (drop (4 + len24 bs) bs @ ds) = Some (qs, r)" "ps = take (len24 bs) (drop 4 bs) # qs"
      by (auto simp: rparse_packet)
    from "1.IH" [OF _ _ _ q(1)] packet obtain qs1 r1 qs2 where
      "rparse (drop (4 + len24 bs) bs) = Some (qs1, r1)" "rparse (r1 @ ds) = Some (qs2, r)" "qs = qs1 @ qs2"
      by auto
    then show ?thesis using rparse_packet [OF packet, of "[]"] q(2) by auto
  qed (use "1.prems" rparse_bad [of bs ds] in \<open>auto simp: rparse_wait\<close>)
qed

text \<open>The stream of a connection, as the messages of the socket thread.\<close>

definition data_msg :: "int \<Rightarrow> u8 list \<Rightarrow> socket_message" where
  "data_msg fd d = \<lparr>ss_type = SKYNET_SOCKET_TYPE_DATA, ss_id = fd, ss_ud = int (length d), ss_buffer = d, ss_tail = []\<rparr>"

fun receive :: "(u32 \<Rightarrow> bool) \<Rightarrow> harbor \<Rightarrow> int \<Rightarrow> u8 list list \<Rightarrow> (harbor \<times> svc_out list) res" where
  "receive send_ok h fd [] = Inr (h, [])"
| "receive send_ok h fd (d # ds) =
     cbind (push_socket_data send_ok h (data_msg fd d)) (\<lambda>(h, out).
     cbind (receive send_ok h fd ds) (\<lambda>(h, outs). Inr (h, out @ outs)))"

lemma find_fd_set_slave:
  assumes "find_fd (set_slave h i s) fd = Some i" "sl_fd s = fd" "sl_fd s' = fd"
  shows "find_fd (set_slave h i s') fd = Some i"
proof -
  have "sl_fd ((h_s h)[i := s'] ! j) = sl_fd ((h_s h)[i := s] ! j)" if "j < length (h_s h)" for j
    using assms(2,3) that by (cases "i = j") simp_all
  then have "find_fd (set_slave h i s') fd = find_fd (set_slave h i s) fd"
    unfolding find_fd_def set_slave_def by (simp, intro find_cong) auto
  then show ?thesis using assms(1) by simp
qed

lemma receive_rparse:
  assumes "i < length (h_s h)" "holds fd s P" "find_fd (set_slave h i s) fd = Some i"
    "\<forall>d \<in> set ds. d \<noteq> []" "rparse (P @ concat ds) = Some (ps, rest)"
  shows "\<exists>s'. receive send_ok (set_slave h i s) fd ds = Inr (set_slave h i s', concat (map (deliver send_ok h) ps))
    \<and> holds fd s' rest"
  using assms(2-5)
proof (induction ds arbitrary: s P ps)
  case Nil
  have "rparse P = Some ([], P)" using Nil.prems(1) by (intro rparse_wait) (auto simp: holds_def)
  then show ?case using Nil.prems by auto
next
  case (Cons d ds)
  obtain ps1 r1 ps2 where r: "rparse (P @ d) = Some (ps1, r1)" "rparse (r1 @ concat ds) = Some (ps2, rest)" "ps = ps1 @ ps2"
    using rparse_split [of "P @ d" "concat ds"] Cons.prems(4) by auto
  have d: "d \<noteq> []" "\<forall>d \<in> set ds. d \<noteq> []" using Cons.prems(3) by auto
  from data_loop_follows [OF assms(1) Cons.prems(1) d(1), of send_ok] r(1) obtain s1 where
    s1: "data_loop send_ok (set_slave h i s) i d = Some (Inr (set_slave h i s1, concat (map (deliver send_ok h) ps1)))" "holds fd s1 r1"
    by (auto simp: follows_def)
  have "find_fd (set_slave h i s1) fd = Some i"
    using Cons.prems(1,2) s1(2) by (auto simp: holds_def intro: find_fd_set_slave)
  from Cons.IH [OF s1(2) this d(2) r(2)] show ?case using s1(1) r(3) Cons.prems(2)
    by (auto simp: push_socket_data_def data_msg_def)
qed

section \<open>What is sent\<close>

type_synonym remote_msg = "remote_header \<times> u8 list"

text \<open>The packet of a message, and the message the other side passes on to its services.\<close>

definition packet :: "remote_msg \<Rightarrow> u8 list" where
  "packet m = to_bigendian (of_nat (length (snd m) + 12)) @ snd m @ header_to_message (fst m)"

definition local_send :: "int \<Rightarrow> remote_msg \<Rightarrow> svc_out" where
  "local_send hid m =
     (let d = rh_destination (fst m) in
      Send (rh_source (fst m)) ((d AND HANDLE_MASK) OR push_bit HANDLE_REMOTE_SHIFT (word_of_int hid))
        (uint (drop_bit HANDLE_REMOTE_SHIFT d) OR PTYPE_TAG_DONTCOPY) (sint (rh_session (fst m))) (snd m))"

definition wire_fits :: "remote_msg \<Rightarrow> bool" where
  "wire_fits m \<longleftrightarrow> length (snd m) + 12 < 2 ^ 24"

lemma length_packet: "length (packet m) = length (snd m) + 16"
  by (simp add: packet_def)

lemma send_remote_packet: "wire_fits m \<Longrightarrow> send_remote fd (snd m) (fst m) = [SocketSend fd (packet m)]"
  by (simp add: send_remote_def packet_def wire_fits_def HEADER_COOKIE_LENGTH_def)

lemma deliver_packet: "deliver (\<lambda>_. True) h (snd m @ header_to_message (fst m)) = [local_send (h_id h) m]"
  by (simp add: deliver_def forward_local_message_def HEADER_COOKIE_LENGTH_def local_send_def Let_def)


lemma bigendian_24:
  fixes w :: u32
  assumes "unat w < 2 ^ 24"
  shows "to_bigendian w ! 0 = 0" "len24 (to_bigendian w) = unat w"
proof -
  have w: "take_bit 24 w = w" using assms by (simp add: word_unat_eq_iff unsigned_take_bit_eq take_bit_nat_eq_self) 
  have 0: "\<not> bit w k" if "24 \<le> k" for k
    using that by (subst w [symmetric]) (simp add: bit_simps)
  show "to_bigendian w ! 0 = 0"
    by (simp add: to_bigendian_def) (rule bit_word_eqI, simp add: bit_simps 0)
  have "(push_bit 16 (ucast (to_bigendian w ! 1)) OR push_bit 8 (ucast (to_bigendian w ! 2)) OR ucast (to_bigendian w ! 3) :: u32) = w"
  proof (rule bit_word_eqI)
    fix k assume "k < LENGTH(32)"
    consider "k < 8" | "8 \<le> k" "k < 16" | "16 \<le> k" "k < 24" | "24 \<le> k" by linarith
    then show "bit (push_bit 16 (ucast (to_bigendian w ! 1)) OR push_bit 8 (ucast (to_bigendian w ! 2)) OR ucast (to_bigendian w ! 3) :: u32) k = bit w k"
      by cases (auto simp: to_bigendian_def bit_simps 0)
  qed
  then show "len24 (to_bigendian w) = unat w" by (simp add: len24_def)
qed

lemma rparse_packets:
  "\<forall>m \<in> set ms. wire_fits m \<Longrightarrow>
   rparse (concat (map packet ms)) = Some (map (\<lambda>m. snd m @ header_to_message (fst m)) ms, [])"
proof (induction ms)
  case (Cons m ms)
  let ?b = "packet m"
  have f: "length (snd m) + 12 < 2 ^ 24" using Cons.prems by (simp add: wire_fits_def)
  then have "unat (of_nat (length (snd m) + 12) :: u32) = length (snd m) + 12"
    by (simp only: unsigned_of_nat) (simp add: take_bit_nat_eq_self)
  then have b: "?b ! 0 = 0" "len24 ?b = length (snd m) + 12"
    using bigendian_24 [of "of_nat (length (snd m) + 12)"] f
    by (simp_all only: packet_def nth_append length_to_bigendian len24_append) simp_all
  then have "rparse (?b @ concat (map packet ms)) =
      map_option (\<lambda>(ps, r). (take (len24 ?b) (drop 4 ?b) # ps, r)) (rparse (drop (4 + len24 ?b) ?b @ concat (map packet ms)))"
    by (intro rparse_packet) (simp_all add: length_packet)
  moreover have "drop (4 + len24 ?b) ?b = []" "take (len24 ?b) (drop 4 ?b) = snd m @ header_to_message (fst m)"
    unfolding b(2) by (simp_all add: packet_def)
  ultimately show ?case using Cons by simp
qed (simp add: rparse.simps)

end
