(* ===== verification/Sky_Harbor_Spec.thy ===== *)
theory Sky_Harbor_Spec
  imports Sky_Harbor_Wire
begin

text \<open>
  What the harbor service promises: messages between nodes survive the stream, messages to nodes that
  are not connected and to names that are not known wait in order, and where it does not: names that
  become known before the connection, and lengths that only one side accepts.
\<close>

section \<open>Messages on the wire\<close>

text \<open>A connection that has received whole packets only.\<close>

definition idle :: "int \<Rightarrow> slave \<Rightarrow> bool" where
  "idle fd s \<longleftrightarrow> sl_fd s = fd \<and> sl_status s = STATUS_HEADER \<and> sl_read s = 0 \<and> length (sl_size s) = 4"

lemma set_slave_self: "i < length (h_s h) \<Longrightarrow> set_slave h i (h_s h ! i) = h"
  by (simp add: set_slave_def)

text \<open>
  C14. Messages between nodes survive the stream: for any messages below 16 MiB, \<open>send_remote\<close> writes
  one packet each, and when the other side's \<open>push_socket_data\<close> receives these packets, cut into any
  non-empty chunks, it sends exactly the original messages to its own services, once each and in
  order, and the connection is ready for the next packet. No chunk makes the loop run forever.
\<close>

theorem harbor_stream_roundtrip:
  assumes "\<forall>m \<in> set ms. wire_fits m" and "\<forall>d \<in> set ds. d \<noteq> []"
    and "concat ds = concat (map packet ms)"
    and "find_fd h fd = Some i" "i < length (h_s h)" "idle fd (h_s h ! i)"
  shows "concat (map (\<lambda>m. send_remote fd' (snd m) (fst m)) ms) = map (\<lambda>m. SocketSend fd' (packet m)) ms
    \<and> (\<exists>s'. receive (\<lambda>_. True) h fd ds = Inr (set_slave h i s', map (local_send (h_id h)) ms) \<and> idle fd s')"
proof -
  have s: "holds fd (h_s h ! i) []" using assms(6) by (simp add: holds_def idle_def)
  have "rparse ([] @ concat ds) = Some (map (\<lambda>m. snd m @ header_to_message (fst m)) ms, [])"
    using rparse_packets [OF assms(1)] assms(3) by simp
  from receive_rparse [OF assms(5) s _ assms(2) this, of "\<lambda>_. True"] assms(4) obtain s' where
    r: "receive (\<lambda>_. True) h fd ds = Inr (set_slave h i s', concat (map (deliver (\<lambda>_. True) h) (map (\<lambda>m. snd m @ header_to_message (fst m)) ms)))"
    and h: "holds fd s' []"
    by (auto simp: set_slave_self [OF assms(5)])
  have "concat (map (deliver (\<lambda>_. True) h) (map (\<lambda>m. snd m @ header_to_message (fst m)) ms)) = map (local_send (h_id h)) ms"
    by (simp add: comp_def deliver_packet concat_map_singleton)
  moreover have "idle fd s'" using h by (auto simp: holds_def idle_def)
  moreover have "concat (map (\<lambda>m. send_remote fd' (snd m) (fst m)) ms) = map (\<lambda>m. SocketSend fd' (packet m)) ms"
    using assms(1) by (induction ms) (simp_all add: send_remote_packet)
  ultimately show ?thesis using r by auto
qed

theorem harbor_stream_roundtrip_witness:
  "\<exists>h i m s'. h_id h = 2 \<and> wire_fits m \<and> snd m = [1, 2, 3] \<and> idle 7 s'
    \<and> receive (\<lambda>_. True) h 7 (map (\<lambda>b. [b]) (packet m @ packet m)) = Inr (set_slave h i s', [local_send 2 m, local_send 2 m])"
proof -
  let ?m = "(\<lparr>rh_source = 0x1000005, rh_destination = 0xa000007, rh_session = 3\<rparr>, [1, 2, 3] :: u8 list)"
  let ?h = "\<lparr>h_id = 2, h_slave = 0, h_map = hash_new, h_s = [empty_slave, empty_slave\<lparr>sl_fd := 7, sl_status := STATUS_HEADER\<rparr>]\<rparr>"
  have f: "find_fd ?h 7 = Some 1" "idle 7 (h_s ?h ! 1)"
    by (simp_all add: find_fd_def REMOTE_MAX_def idle_def empty_slave_def)
  have "concat (map (\<lambda>b. [b]) (packet ?m @ packet ?m)) = concat (map packet [?m, ?m])" by (simp add: concat_map_singleton)
  from harbor_stream_roundtrip [OF _ _ this f(1) _ f(2)] obtain s' where
    "receive (\<lambda>_. True) ?h 7 (map (\<lambda>b. [b]) (packet ?m @ packet ?m)) = Inr (set_slave ?h 1 s', [local_send 2 ?m, local_send 2 ?m])" "idle 7 s'"
    by (auto simp: wire_fits_def)
  then show ?thesis
    by (intro exI [of _ ?h] exI [of _ "1::nat"] exI [of _ ?m] exI [of _ s']) (simp add: wire_fits_def)
qed

section \<open>Messages that wait\<close>

text \<open>What a slot of the table has waiting, and a message of a service to another node.\<close>

definition sl_waiting :: "slave \<Rightarrow> harbor_msg list" where
  "sl_waiting s = (case sl_queue s of None \<Rightarrow> [] | Some q \<Rightarrow> hq_contents q)"

definition sl_waiting_wf :: "slave \<Rightarrow> bool" where
  "sl_waiting_wf s \<longleftrightarrow> (case sl_queue s of None \<Rightarrow> True | Some q \<Rightarrow> hq_wf q)"

record out_msg =
  om_source :: u32
  om_dest :: u32
  om_type :: int
  om_session :: int
  om_msg :: "u8 list"

definition om_header :: "out_msg \<Rightarrow> remote_header" where
  "om_header m = \<lparr>rh_source = om_source m,
     rh_destination = push_bit HANDLE_REMOTE_SHIFT (word_of_int (om_type m)) OR (om_dest m AND HANDLE_MASK),
     rh_session = word_of_int (om_session m)\<rparr>"

definition om_harbor :: "out_msg \<Rightarrow> nat" where
  "om_harbor m = unat (drop_bit HANDLE_REMOTE_SHIFT (om_dest m))"

fun send_handles :: "harbor \<Rightarrow> out_msg list \<Rightarrow> (harbor \<times> svc_out list) res" where
  "send_handles h [] = Inr (h, [])"
| "send_handles h (m # ms) =
     cbind (remote_send_handle h (om_source m) (om_dest m) (om_type m) (om_session m) (om_msg m)) (\<lambda>(h, out, _).
     cbind (send_handles h ms) (\<lambda>(h, outs). Inr (h, out @ outs)))"

lemma fold_emit: "fold_res (emit f) ms out = Inr (out @ concat (map f ms))"
  by (induction ms arbitrary: out) (simp_all add: emit_def)

lemma pop_all_emit:
  assumes "hq_wf q"
  shows "\<exists>q'. pop_all (emit f) q out = Inr (q', out @ concat (map f (hq_contents q))) \<and> hq_wf q' \<and> hq_contents q' = []"
  using hq.drain_contents [OF assms fold_emit, of f out] by (auto simp: pop_all_def)

lemma send_handles_wait:
  assumes "i < length (h_s h)" "int i \<noteq> h_id h" "\<forall>m \<in> set ms. om_harbor m = i"
    "sl_fd s = 0 \<or> sl_status s = STATUS_HANDSHAKE" "sl_status s \<noteq> STATUS_DOWN" "sl_waiting_wf s"
    "length (sl_waiting s) + length ms + 1 < 2 ^ 30"
  shows "\<exists>q. send_handles (set_slave h i s) ms = Inr (set_slave h i (s\<lparr>sl_queue := q\<rparr>), [])
    \<and> sl_waiting_wf (s\<lparr>sl_queue := q\<rparr>)
    \<and> sl_waiting (s\<lparr>sl_queue := q\<rparr>) = sl_waiting s @ map (\<lambda>m. \<lparr>hm_header = om_header m, hm_buffer = om_msg m\<rparr>) ms"
  using assms(3-7)
proof (induction ms arbitrary: s)
  case Nil
  then show ?case by (intro exI [of _ "sl_queue s"]) simp
next
  case (Cons m ms)
  let ?q0 = "case sl_queue s of None \<Rightarrow> new_queue | Some q \<Rightarrow> q"
  have q0: "hq_wf ?q0" "hq_contents ?q0 = sl_waiting s"
    using Cons.prems(4) by (auto simp: sl_waiting_wf_def sl_waiting_def split: option.splits)
  from hq.enq_ok [OF q0(1), of "\<lparr>hm_header = om_header m, hm_buffer = om_msg m\<rparr>"] q0(2) Cons.prems(5) obtain q1 where
    q1: "push_queue ?q0 (om_msg m) (om_header m) = Inr q1" "hq_wf q1"
      "hq_contents q1 = sl_waiting s @ [\<lparr>hm_header = om_header m, hm_buffer = om_msg m\<rparr>]"
    by (auto simp: push_queue_def)
  let ?s1 = "s\<lparr>sl_queue := Some q1\<rparr>"
  have "om_harbor m = i" using Cons.prems(1) by simp
  then have "remote_send_handle (set_slave h i s) (om_source m) (om_dest m) (om_type m) (om_session m) (om_msg m)
      = Inr (set_slave h i ?s1, [], 1)"
    using assms(1,2) Cons.prems(2,3) q1(1) by (auto simp: remote_send_handle_def om_harbor_def om_header_def Let_def)
  moreover have "\<exists>q. send_handles (set_slave h i ?s1) ms = Inr (set_slave h i (?s1\<lparr>sl_queue := q\<rparr>), [])
    \<and> sl_waiting_wf (?s1\<lparr>sl_queue := q\<rparr>)
    \<and> sl_waiting (?s1\<lparr>sl_queue := q\<rparr>) = sl_waiting ?s1 @ map (\<lambda>m. \<lparr>hm_header = om_header m, hm_buffer = om_msg m\<rparr>) ms"
    using Cons.prems q1 by (intro Cons.IH) (auto simp: sl_waiting_wf_def sl_waiting_def [of ?s1])
  ultimately show ?case using q1(3) by (auto simp: sl_waiting_def [of ?s1])
qed

lemma dispatch_queue_sends:
  assumes "i < length (h_s h)" "sl_fd s = fd" "fd \<noteq> 0" "sl_waiting_wf s"
  shows "dispatch_queue (set_slave h i s) i = Inr (set_slave h i (s\<lparr>sl_queue := None\<rparr>),
    concat (map (\<lambda>m. send_remote fd (hm_buffer m) (hm_header m)) (sl_waiting s)))"
proof (cases "sl_queue s")
  case None
  then have e: "s\<lparr>sl_queue := None\<rparr> = s" by simp
  show ?thesis unfolding e using assms None by (simp add: dispatch_queue_def sl_waiting_def)
next
  case (Some q)
  then show ?thesis using assms pop_all_emit [of q "\<lambda>m. send_remote fd (hm_buffer m) (hm_header m)" "[]"]
    by (auto simp: dispatch_queue_def sl_waiting_def sl_waiting_wf_def)
qed

lemma find_fd_new:
  assumes "length (h_s h) = REMOTE_MAX" "1 \<le> i" "i < REMOTE_MAX" "sl_fd s = fd" "\<forall>s \<in> set (h_s h). sl_fd s \<noteq> fd"
  shows "find_fd (set_slave h i s) fd = Some i"
proof -
  have o: "sl_fd (h_s h ! j) \<noteq> fd" if "j < REMOTE_MAX" for j using assms(1,5) that by simp
  have "find (\<lambda>j. sl_fd ((h_s h)[i := s] ! j) = fd) [1..<REMOTE_MAX] = Some i"
    unfolding find_Some_iff
    by (rule exI [of _ "i - 1"]) (use assms o in auto)
  then show ?thesis using assms(1) by (simp add: find_fd_def set_slave_def)
qed

lemma handshake_loop:
  assumes "i < length (h_s h)" "i < 256" "sl_status s = STATUS_HANDSHAKE" "sl_read s = 0" "length (sl_size s) = 4"
    "dispatch_queue (set_slave h i (s\<lparr>sl_status := STATUS_HEADER\<rparr>)) i = Inr (set_slave h i (s\<lparr>sl_status := STATUS_HEADER, sl_queue := None\<rparr>), out)"
  shows "data_loop send_ok (set_slave h i s) i [of_nat i] = Some (Inr (set_slave h i (s\<lparr>sl_status := STATUS_HEADER, sl_queue := None\<rparr>), out))"
proof -
  have u: "unat (of_nat i :: u8) = i" using assms(2) by (simp only: unsigned_of_nat) (simp add: take_bit_nat_eq_self)
  have "data_loop send_ok (set_slave h i (s\<lparr>sl_status := STATUS_HEADER, sl_queue := None\<rparr>)) i []
      = Some (Inr (set_slave h i (s\<lparr>sl_status := STATUS_HEADER, sl_queue := None\<rparr>), []))"
    using assms(1,4,5) by (subst data_loop.simps) (cases s, simp add: data_pass_def header_pass_def)
  then show ?thesis using assms(1,3,6) u by (subst data_loop.simps) (simp add: data_pass_def)
qed



section \<open>Names\<close>

lemma kv_is_own [simp]: "kv_is n \<lparr>kv_key = n, kv_hash = name_hash n, kv_value = v, kv_queue = q\<rparr>"
  by (simp add: kv_is_def same_name_def)

lemma find_replace_first: "find P xs = Some x \<Longrightarrow> P y \<Longrightarrow> find P (replace_first P y xs) = Some y"
  by (induction xs) (auto split: if_splits)

lemma search_store: "hash_search hm n = Some x \<Longrightarrow> kv_is n y \<Longrightarrow> hash_search (hash_store hm n y) n = Some y"
  by (simp add: hash_search_def hash_store_def Let_def find_replace_first)

lemma search_insert: "hash_search (fst (hash_insert hm n)) n = Some (snd (hash_insert hm n))"
  by (simp add: hash_search_def hash_insert_def Let_def)

definition query :: "harbor \<Rightarrow> u8 list \<Rightarrow> svc_out" where
  "query h n = Send 0 (h_slave h) (int PTYPE_TEXT) 0 (str_bytes ''Q '' @ takeWhile (\<lambda>c. c \<noteq> 0) (take GLOBALNAME_LENGTH n))"

fun send_names :: "harbor \<Rightarrow> u8 list \<Rightarrow> out_msg list \<Rightarrow> (harbor \<times> svc_out list) res" where
  "send_names h n [] = Inr (h, [])"
| "send_names h n (m # ms) =
     cbind (remote_send_name h (om_source m) n (om_type m) (om_session m) (om_msg m)) (\<lambda>(h, out, _).
     cbind (send_names h n ms) (\<lambda>(h, outs). Inr (h, out @ outs)))"

text \<open>A message that waits for a name has no handle in its header yet.\<close>

definition nameless :: "out_msg \<Rightarrow> harbor_msg" where
  "nameless m = \<lparr>hm_header = \<lparr>rh_source = om_source m,
     rh_destination = push_bit HANDLE_REMOTE_SHIFT (word_of_int (om_type m)), rh_session = word_of_int (om_session m)\<rparr>,
     hm_buffer = om_msg m\<rparr>"

definition unresolved :: "u8 list \<Rightarrow> harbor_queue option \<Rightarrow> keyvalue" where
  "unresolved n q = \<lparr>kv_key = n, kv_hash = name_hash n, kv_value = 0, kv_queue = q\<rparr>"

lemma remote_send_name_step:
  assumes "hash_node hm n = (hm0, unresolved n q0)" "hash_search hm0 n = Some (unresolved n q0)"
    "hq_wf (case q0 of None \<Rightarrow> new_queue | Some q \<Rightarrow> q)" "hq_contents (case q0 of None \<Rightarrow> new_queue | Some q \<Rightarrow> q) = xs" "length xs + 1 < 2 ^ 30"
  shows "\<exists>hm1 q1. remote_send_name (h\<lparr>h_map := hm\<rparr>) (om_source m) n (om_type m) (om_session m) (om_msg m)
      = Inr (h\<lparr>h_map := hm1\<rparr>, [query h n], 1)
    \<and> hash_search hm1 n = Some (unresolved n (Some q1)) \<and> hq_wf q1 \<and> hq_contents q1 = xs @ [nameless m]"
proof -
  from hq.enq_ok [OF assms(3), of "nameless m"] assms(4,5) obtain q1 where
    q1: "push_queue_msg (case q0 of None \<Rightarrow> new_queue | Some q \<Rightarrow> q) (nameless m) = Inr q1" "hq_wf q1"
    "hq_contents q1 = xs @ [nameless m]" by auto
  have "hash_search (hash_store hm0 n (unresolved n (Some q1))) n = Some (unresolved n (Some q1))"
    by (rule search_store [OF assms(2)]) (simp add: unresolved_def)
  with q1 show ?thesis
    by (intro exI [of _ "hash_store hm0 n (unresolved n (Some q1))"] exI [of _ q1])
      (simp add: remote_send_name_def assms(1) Let_def push_queue_def nameless_def query_def unresolved_def)
qed

lemma send_names_wait:
  assumes "hash_search hm n = Some (unresolved n (Some q))" "hq_wf q" "hq_contents q = xs" "length xs + length ms + 1 < 2 ^ 30"
  shows "\<exists>hm1 q1. send_names (h\<lparr>h_map := hm\<rparr>) n ms = Inr (h\<lparr>h_map := hm1\<rparr>, replicate (length ms) (query h n))
    \<and> hash_search hm1 n = Some (unresolved n (Some q1)) \<and> hq_wf q1 \<and> hq_contents q1 = xs @ map nameless ms"
  using assms
proof (induction ms arbitrary: hm q xs)
  case (Cons m ms)
  have "hash_node hm n = (hm, unresolved n (Some q))" using Cons.prems(1) by (simp add: hash_node_def)
  from remote_send_name_step [OF this Cons.prems(1), of xs h m] Cons.prems(2-4) obtain hm1 q1 where
    1: "remote_send_name (h\<lparr>h_map := hm\<rparr>) (om_source m) n (om_type m) (om_session m) (om_msg m) = Inr (h\<lparr>h_map := hm1\<rparr>, [query h n], 1)"
    "hash_search hm1 n = Some (unresolved n (Some q1))" "hq_wf q1" "hq_contents q1 = xs @ [nameless m]" by auto
  from Cons.IH [OF 1(2-4)] Cons.prems(4) 1(1) show ?case by fastforce
qed auto

lemma send_names_unknown:
  assumes "hash_search (h_map h) n = None" "ms \<noteq> []" "length ms + 1 < 2 ^ 30"
  shows "\<exists>hm1 q1. send_names h n ms = Inr (h\<lparr>h_map := hm1\<rparr>, replicate (length ms) (query h n))
    \<and> hash_search hm1 n = Some (unresolved n (Some q1)) \<and> hq_wf q1 \<and> hq_contents q1 = map nameless ms"
proof -
  obtain m ms' where ms: "ms = m # ms'" using assms(2) by (cases ms) auto
  let ?hm = "fst (hash_insert (h_map h) n)"
  have "hash_insert (h_map h) n = (?hm, unresolved n None)" by (simp add: hash_insert_def Let_def unresolved_def)
  moreover have "snd (hash_insert (h_map h) n) = unresolved n None" by (simp add: hash_insert_def Let_def unresolved_def)
  ultimately have "hash_node (h_map h) n = (?hm, unresolved n None)" "hash_search ?hm n = Some (unresolved n None)"
    using assms(1) search_insert [of "h_map h" n] by (simp_all add: hash_node_def)
  from remote_send_name_step [OF this, of "[]" h m] obtain hm1 q1 where
    1: "remote_send_name h (om_source m) n (om_type m) (om_session m) (om_msg m) = Inr (h\<lparr>h_map := hm1\<rparr>, [query h n], 1)"
    "hash_search hm1 n = Some (unresolved n (Some q1))" "hq_wf q1" "hq_contents q1 = [nameless m]" by auto
  from send_names_wait [OF 1(2-4), of ms' h] assms(3) 1(1) show ?thesis by (fastforce simp: ms)
qed

lemma update_name_resolves:
  assumes "hash_search (h_map h) n = Some (unresolved n (Some q))" 
    "dispatch_name_queue (h\<lparr>h_map := hash_store (h_map h) n ((unresolved n (Some q))\<lparr>kv_value := handle\<rparr>)\<rparr>)
       ((unresolved n (Some q))\<lparr>kv_value := handle\<rparr>) q = Inr (h', q', out)"
    "h_map h' = hash_store (h_map h) n ((unresolved n (Some q))\<lparr>kv_value := handle\<rparr>)"
  shows "\<exists>hm. update_name h n handle = Inr (h'\<lparr>h_map := hm\<rparr>, out)
    \<and> hash_search hm n = Some ((unresolved n None)\<lparr>kv_value := handle\<rparr>)"
proof -
  have "hash_search (h_map h') n = Some ((unresolved n (Some q))\<lparr>kv_value := handle\<rparr>)"
    unfolding assms(3) by (rule search_store [OF assms(1)]) (simp add: unresolved_def)
  then have "hash_search (hash_store (h_map h') n ((unresolved n None)\<lparr>kv_value := handle\<rparr>)) n = Some ((unresolved n None)\<lparr>kv_value := handle\<rparr>)"
    by (rule search_store) (simp add: unresolved_def)
  then show ?thesis using assms(1,2)
    by (intro exI [of _ "hash_store (h_map h') n ((unresolved n None)\<lparr>kv_value := handle\<rparr>)"])
      (simp add: update_name_def hash_node_def Let_def unresolved_def)
qed

lemma resolved_name_send:
  assumes "hash_search (h_map h) n = Some ((unresolved n None)\<lparr>kv_value := handle\<rparr>)" "handle \<noteq> 0"
  shows "remote_send_name h src n type sess msg = remote_send_handle h src handle type sess msg"
  using assms by (simp add: remote_send_name_def hash_node_def unresolved_def)

text \<open>
  C16. Messages to a global name wait until the name is known and then go to its handle: each message
  to an unknown name makes one query and is kept, and when the name is registered for a handle of a
  connected node, all of them are written to that connection in order, addressed to the handle, and
  every later message to the name is sent as one to the handle.
\<close>

theorem harbor_name_resolution:
  assumes "hash_search (h_map h) n = None" "ms \<noteq> []" "length ms + 1 < 2 ^ 30" "handle \<noteq> 0"
    and "i = unat (drop_bit HANDLE_REMOTE_SHIFT handle)" "i < length (h_s h)" "fd = sl_fd (h_s h ! i)" "fd \<noteq> 0"
  shows "\<exists>h1 h2. send_names h n ms = Inr (h1, replicate (length ms) (query h n))
    \<and> update_name h1 n handle =
        Inr (h2, concat (map (\<lambda>m. send_remote fd (om_msg m) (om_header (m\<lparr>om_dest := handle\<rparr>))) ms))
    \<and> (\<forall>src type sess msg. remote_send_name h2 src n type sess msg = remote_send_handle h2 src handle type sess msg)"
proof -
  obtain hm1 q1 where 1: "send_names h n ms = Inr (h\<lparr>h_map := hm1\<rparr>, replicate (length ms) (query h n))"
    "hash_search hm1 n = Some (unresolved n (Some q1))" "hq_wf q1" "hq_contents q1 = map nameless ms"
    using send_names_unknown [OF assms(1-3)] by blast
  let ?h1 = "h\<lparr>h_map := hm1\<rparr>" and ?node = "(unresolved n (Some q1))\<lparr>kv_value := handle\<rparr>"
  let ?out = "concat (map (\<lambda>m. send_remote fd (om_msg m) (om_header (m\<lparr>om_dest := handle\<rparr>))) ms)"
  have "\<exists>q'. dispatch_name_queue (?h1\<lparr>h_map := hash_store (h_map ?h1) n ?node\<rparr>) ?node q1 =
      Inr (?h1\<lparr>h_map := hash_store (h_map ?h1) n ?node\<rparr>, q', ?out)"
    using pop_all_emit [OF 1(3), of "\<lambda>m. send_remote fd (hm_buffer m)
        ((hm_header m)\<lparr>rh_destination := rh_destination (hm_header m) OR (handle AND HANDLE_MASK)\<rparr>)" "[]"] assms(5-8)
    by (auto simp: dispatch_name_queue_def slave_at_def 1(4) comp_def nameless_def om_header_def unresolved_def)
  then obtain q' where "dispatch_name_queue (?h1\<lparr>h_map := hash_store (h_map ?h1) n ?node\<rparr>) ?node q1 =
      Inr (?h1\<lparr>h_map := hash_store (h_map ?h1) n ?node\<rparr>, q', ?out)" by blast
  from update_name_resolves [OF _ this] 1(2) obtain hm2 where
    2: "update_name ?h1 n handle = Inr (h\<lparr>h_map := hm2\<rparr>, ?out)" "hash_search hm2 n = Some ((unresolved n None)\<lparr>kv_value := handle\<rparr>)" by auto
  have "remote_send_name (h\<lparr>h_map := hm2\<rparr>) src n type sess msg = remote_send_handle (h\<lparr>h_map := hm2\<rparr>) src handle type sess msg"
    for src type sess msg by (rule resolved_name_send) (simp_all add: 2(2) assms(4))
  with 1(1) 2(1) show ?thesis by blast
qed

theorem harbor_name_resolution_witness:
  "\<exists>h n m h1 h2. send_names h n [m, m] = Inr (h1, [query h n, query h n])
    \<and> update_name h1 n 0x1000005 =
        Inr (h2, send_remote 7 (om_msg m) (om_header (m\<lparr>om_dest := 0x1000005\<rparr>)) @ send_remote 7 (om_msg m) (om_header (m\<lparr>om_dest := 0x1000005\<rparr>)))"
proof -
  let ?m = "\<lparr>om_source = 0x2000001, om_dest = 0, om_type = 10, om_session = 3, om_msg = [1, 2]\<rparr>"
  let ?h = "\<lparr>h_id = 2, h_slave = 0, h_map = hash_new, h_s = [empty_slave, empty_slave\<lparr>sl_fd := 7, sl_status := STATUS_HEADER\<rparr>]\<rparr>"
  let ?n = "replicate 16 65 :: u8 list"
  have "hash_search (h_map ?h) ?n = None" by (simp add: hash_search_def hash_new_def)
  from harbor_name_resolution [OF this, of "[?m, ?m]" "0x1000005" 1 7] show ?thesis
    by (fastforce simp: HANDLE_REMOTE_SHIFT_def empty_slave_def simp del: send_names.simps)
qed

lemma set_slave_map: "h_map (set_slave h i s) = h_map h" "(set_slave (h\<lparr>h_map := hm\<rparr>) i s)\<lparr>h_map := hm'\<rparr> = set_slave (h\<lparr>h_map := hm'\<rparr>) i s"
  by (simp_all add: set_slave_def)

text \<open>
  The same message to a name is lost when the node of the handle is not connected at the moment
  the name becomes known: the messages are moved to the queue of the node without the handle, and when
  the connection is made they are written with the type but with handle 0 as destination, whatever
  handle the name was registered for.
\<close>

theorem harbor_name_queue_loses_handle:
  assumes "hash_search (h_map h) n = None" "ms \<noteq> []" "length ms + 1 < 2 ^ 30" "handle \<noteq> 0"
    and "i = unat (drop_bit HANDLE_REMOTE_SHIFT handle)" "i < length (h_s h)" "h_s h ! i = empty_slave"
    and "i \<noteq> unat (drop_bit HANDLE_REMOTE_SHIFT (h_slave h))" "1 \<le> i" "i < REMOTE_MAX"
    and c: "c = CHR ''A'' # c'" "2 \<le> length c" "scan_d (cstr (drop 2 c) 0) = (fd, rest)" "fst (scan_d rest) = int i" "fd \<noteq> 0"
  shows "\<exists>h1 h2 h3. send_names h n ms = Inr (h1, replicate (length ms) (query h n))
    \<and> update_name h1 n handle = Inr (h2, [])
    \<and> harbor_command h2 c src = Inr (h3, SocketStart fd # handshake h fd
        @ concat (map (\<lambda>m. send_remote fd (om_msg m) (om_header (m\<lparr>om_dest := 0\<rparr>))) ms))"
proof -
  obtain hm1 q1 where 1: "send_names h n ms = Inr (h\<lparr>h_map := hm1\<rparr>, replicate (length ms) (query h n))"
    "hash_search hm1 n = Some (unresolved n (Some q1))" "hq_wf q1" "hq_contents q1 = map nameless ms"
    using send_names_unknown [OF assms(1-3)] by blast
  let ?h1 = "h\<lparr>h_map := hm1\<rparr>" and ?node = "(unresolved n (Some q1))\<lparr>kv_value := handle\<rparr>"
  let ?s = "empty_slave\<lparr>sl_queue := Some q1\<rparr>"
  have "dispatch_name_queue (?h1\<lparr>h_map := hash_store (h_map ?h1) n ?node\<rparr>) ?node q1 =
      Inr (set_slave (?h1\<lparr>h_map := hash_store (h_map ?h1) n ?node\<rparr>) i ?s, None, [])"
    using assms(5-8) by (simp add: dispatch_name_queue_def slave_at_def unresolved_def empty_slave_def)
  from update_name_resolves [OF _ this] 1(2) obtain hm2 where
    2: "update_name ?h1 n handle = Inr (set_slave (h\<lparr>h_map := hm2\<rparr>) i ?s, [])" by (auto simp: set_slave_map)
  let ?h2 = "h\<lparr>h_map := hm2\<rparr>" and ?s3 = "?s\<lparr>sl_fd := fd, sl_status := STATUS_HEADER\<rparr>"
  have "sl_waiting_wf ?s3" "sl_waiting ?s3 = map nameless ms" using 1(3,4) by (simp_all add: sl_waiting_def sl_waiting_wf_def)
  then have d: "dispatch_queue (set_slave ?h2 i ?s3) i = Inr (set_slave ?h2 i (?s3\<lparr>sl_queue := None\<rparr>),
      concat (map (\<lambda>m. send_remote fd (om_msg m) (om_header (m\<lparr>om_dest := 0\<rparr>))) ms))"
    using dispatch_queue_sends [of i ?h2 ?s3 fd] c(5) assms(6) by (simp add: comp_def nameless_def om_header_def)
  obtain r2 where r2: "scan_d rest = (int i, r2)" using c(4) by (cases "scan_d rest") auto
  have "harbor_command (set_slave ?h2 i ?s) c src = Inr (set_slave ?h2 i (?s3\<lparr>sl_queue := None\<rparr>), SocketStart fd # handshake h fd
        @ concat (map (\<lambda>m. send_remote fd (om_msg m) (om_header (m\<lparr>om_dest := 0\<rparr>))) ms))"
    using assms(6,9,10) c(1-3) r2 c(5) d
    by (cases c') (simp_all add: harbor_command_def handshake_def empty_slave_def Let_def)
  with 1(1) 2 show ?thesis by blast
qed

theorem harbor_name_queue_loses_handle_witness:
  "\<exists>h n m h1 h2 h3. h_id h = 2 \<and> om_msg m = [1, 2] \<and> send_names h n [m] = Inr (h1, [query h n])
    \<and> update_name h1 n 0x1000005 = Inr (h2, [])
    \<and> harbor_command h2 ''A 7 1'' 0 = Inr (h3, [SocketStart 7, SocketSend 7 [2]] @ send_remote 7 (om_msg m) (om_header (m\<lparr>om_dest := 0\<rparr>)))"
proof -
  let ?m = "\<lparr>om_source = 0x2000001, om_dest = 0, om_type = 10, om_session = 3, om_msg = [1, 2]\<rparr>"
  let ?h = "\<lparr>h_id = 2, h_slave = 0, h_map = hash_new, h_s = [empty_slave, empty_slave]\<rparr>"
  let ?n = "replicate 16 65 :: u8 list"
  have h: "hash_search (h_map ?h) ?n = None" "h_s ?h ! 1 = empty_slave" by (simp_all add: hash_search_def hash_new_def)
  have s: "scan_d (cstr (drop 2 ''A 7 1'') 0) = (7, '' 1'')" "fst (scan_d '' 1'') = int 1" by code_simp+
  have "handshake ?h 7 = [SocketSend 7 [2]]" by (simp add: handshake_def)
  with harbor_name_queue_loses_handle [OF h(1) _ _ _ _ _ h(2) _ _ _ refl _ s, of "[?m]" "0x1000005" 0]
  obtain h1 h2 h3 where "send_names ?h ?n [?m] = Inr (h1, [query ?h ?n])" "update_name h1 ?n 0x1000005 = Inr (h2, [])"
    "harbor_command h2 ''A 7 1'' 0 = Inr (h3, [SocketStart 7, SocketSend 7 [2]] @ send_remote 7 (om_msg ?m) (om_header (?m\<lparr>om_dest := 0\<rparr>)))"
    by (auto simp: HANDLE_REMOTE_SHIFT_def REMOTE_MAX_def simp del: send_names.simps)
  then show ?thesis by (intro exI [of _ ?h] exI [of _ ?n] exI [of _ ?m] exI [of _ h1] exI [of _ h2] exI [of _ h3]) simp
qed

section \<open>Lengths the receiver does not expect\<close>

lemma idle_header:
  assumes "i < length (h_s h)" "idle fd (h_s h ! i)" "length b = 4 + n" "b ! 0 = 0" "len24 b = n" "0 < n"
  shows "header_pass send_ok h i b = content_pass send_ok (set_slave h i ((h_s h ! i)\<lparr>sl_size := take 4 b, sl_length := n,
      sl_read := 0, sl_recv := [], sl_status := STATUS_CONTENT\<rparr>)) i (drop 4 b)"
  using assms by (auto simp: header_pass_def idle_def slave_at_def set_slave_def Let_def len24_def)

lemma idle_header_long:
  assumes "i < length (h_s h)" "idle fd (h_s h ! i)" "4 \<le> length b" "b ! 0 \<noteq> 0" "fd \<noteq> 0"
  shows "header_pass send_ok h i b =
    Inr (set_slave h i ((h_s h ! i)\<lparr>sl_size := take 4 b, sl_status := STATUS_DOWN, sl_fd := 0, sl_queue := None\<rparr>),
      [LogError ''Message is too long from harbor'', SocketClose fd], None)"
  using assms by (simp add: header_pass_def idle_def slave_at_def close_harbor_def set_slave_def Let_def)

lemma bigendian_top:
  fixes w :: u32
  assumes "2 ^ 24 \<le> unat w"
  shows "to_bigendian w ! 0 \<noteq> 0"
proof
  assume "to_bigendian w ! 0 = 0"
  then have "unat (ucast (drop_bit 24 w) :: u8) = 0" by (simp add: to_bigendian_def)
  then have "unat w mod 2 ^ 32 div 2 ^ 24 = 0"
    by (simp add: unsigned_ucast_eq unsigned_drop_bit_eq take_bit_eq_mod drop_bit_eq_div [where 'a = nat])
  moreover have "unat w mod 2 ^ 32 = unat w" using unsigned_less [of w, where ?'a = nat] by simp
  ultimately show False using assms by (simp add: div_eq_0_iff)
qed

text \<open>
  The sizes the two sides agree on are narrower than the ones either accepts. A message of 16 MiB
  or more that \<open>send_remote\<close> writes makes the receiver close the connection and drop what waits for
  it; a packet shorter than the 12 bytes of a header is not refused: \<open>forward_local_messsage\<close> reads
  before the start of the buffer.
\<close>

theorem harbor_bad_lengths:
  assumes h: "find_fd h fd = Some i" "i < length (h_s h)" "idle fd (h_s h ! i)" "fd \<noteq> 0"
    and big: "2 ^ 24 \<le> length body + 12" "length body + 12 < 2 ^ 32"
    and short: "0 < length junk" "length junk < 12"
  shows "(\<exists>b h'. send_remote fd' body hdr = [SocketSend fd' b]
      \<and> push_socket_data send_ok h (data_msg fd b) = Inr (h', [LogError ''Message is too long from harbor'', SocketClose fd])
      \<and> sl_status (h_s h' ! i) = STATUS_DOWN \<and> sl_fd (h_s h' ! i) = 0 \<and> sl_queue (h_s h' ! i) = None)
    \<and> push_socket_data send_ok h (data_msg fd (to_bigendian (of_nat (length junk)) @ junk)) = Inl OutOfBounds"
proof
  let ?b = "to_bigendian (of_nat (length body + 12)) @ body @ header_to_message hdr"
  have u: "unat (of_nat (length body + 12) :: u32) = length body + 12"
    using big(2) by (simp only: unsigned_of_nat) (simp add: take_bit_nat_eq_self)
  have b0: "?b ! 0 \<noteq> 0" using bigendian_top [of "of_nat (length body + 12)"] big(1) u by (simp only: nth_append length_to_bigendian) simp
  have hp: "header_pass send_ok h i ?b = Inr (set_slave h i ((h_s h ! i)\<lparr>sl_size := take 4 ?b, sl_status := STATUS_DOWN, sl_fd := 0, sl_queue := None\<rparr>),
      [LogError ''Message is too long from harbor'', SocketClose fd], None)"
    by (rule idle_header_long [OF h(2,3) _ b0 h(4)]) simp
  have "push_socket_data send_ok h (data_msg fd ?b) = Inr (set_slave h i ((h_s h ! i)\<lparr>sl_size := take 4 ?b, sl_status := STATUS_DOWN, sl_fd := 0, sl_queue := None\<rparr>),
      [LogError ''Message is too long from harbor'', SocketClose fd])"
    using h hp by (simp add: push_socket_data_def data_msg_def data_loop_continue data_pass_def slave_at_def idle_def continue_def del: append_assoc)
  moreover have "send_remote fd' body hdr = [SocketSend fd' ?b]"
    using big(2) by (simp add: send_remote_def HEADER_COOKIE_LENGTH_def)
  ultimately show "\<exists>b h'. send_remote fd' body hdr = [SocketSend fd' b]
      \<and> push_socket_data send_ok h (data_msg fd b) = Inr (h', [LogError ''Message is too long from harbor'', SocketClose fd])
      \<and> sl_status (h_s h' ! i) = STATUS_DOWN \<and> sl_fd (h_s h' ! i) = 0 \<and> sl_queue (h_s h' ! i) = None"
    using h(2) by (auto simp: set_slave_def)
next
  let ?b = "to_bigendian (of_nat (length junk)) @ junk"
  have u: "unat (of_nat (length junk) :: u32) = length junk"
    using short(2) by (simp only: unsigned_of_nat) (simp add: take_bit_nat_eq_self)
  have b: "?b ! 0 = 0" "len24 ?b = length junk"
    using bigendian_24 [of "of_nat (length junk)"] u short(2) by (simp_all add: nth_append len24_append)
  have "header_pass send_ok h i ?b = Inl OutOfBounds"
    using idle_header [OF h(2,3) _ b, of send_ok] short h(2)
    by (simp add: content_pass_def forward_local_message_def HEADER_COOKIE_LENGTH_def Let_def)
  then show "push_socket_data send_ok h (data_msg fd ?b) = Inl OutOfBounds"
    using h by (simp add: push_socket_data_def data_msg_def data_loop_continue data_pass_def slave_at_def idle_def continue_def)
qed

theorem harbor_bad_lengths_witness:
  "\<exists>h fd junk. length junk = 3 \<and> push_socket_data (\<lambda>_. True) h (data_msg fd (to_bigendian (of_nat (length junk)) @ junk)) = Inl OutOfBounds"
proof -
  let ?h = "\<lparr>h_id = 2, h_slave = 0, h_map = hash_new, h_s = [empty_slave, empty_slave\<lparr>sl_fd := 7, sl_status := STATUS_HEADER\<rparr>]\<rparr>"
  have f: "find_fd ?h 7 = Some 1" "idle 7 (h_s ?h ! 1)"
    by (simp_all add: find_fd_def REMOTE_MAX_def idle_def empty_slave_def)
  have "length (replicate (2 ^ 24) 0 :: u8 list) = 2 ^ 24" by (simp only: length_replicate)
  with harbor_bad_lengths [OF f(1) _ f(2), of "replicate (2 ^ 24) 0" "[1, 2, 3]" 0 undefined "\<lambda>_. True"]
  have "push_socket_data (\<lambda>_. True) ?h (data_msg 7 (to_bigendian (of_nat (length [1, 2, 3 :: u8])) @ [1, 2, 3])) = Inl OutOfBounds"
    by simp
  then show ?thesis by (intro exI [of _ ?h] exI [of _ 7] exI [of _ "[1, 2, 3] :: u8 list"]) simp
qed

end
