(* ===== verification/Sky_Module.thy ===== *)
theory Sky_Module
  imports Sky_Queue Sky_CString
begin

text \<open>
  Model of \<^verbatim>\<open>skynet-src/skynet_module.c\<close>: the table of the C modules the node has loaded. The
  dynamic loader is a parameter: \<open>dlopen\<close> gives the handle of a library that can be loaded, \<open>dlsym\<close>
  the address of a symbol in it.
\<close>

section \<open>Data\<close>

definition MAX_MODULE_TYPE :: nat where "MAX_MODULE_TYPE = 32"

record skynet_module =
  md_name :: string
  md_module :: nat
  md_create :: "nat option"
  md_init :: "nat option"
  md_release :: "nat option"
  md_signal :: "nat option"

text \<open>The first \<open>count\<close> cells of the array \<open>m\<close> are the list \<open>ms_m\<close>.\<close>

record modules =
  ms_path :: string
  ms_m :: "skynet_module list"

section \<open>Operations\<close>

text \<open>
  The search path: templates separated by semicolons, in each of which the name takes the place of
  the first question mark. One pass of the loop of \<open>_try_open\<close> is one step of the recursion.
\<close>

function try_open :: "(string \<Rightarrow> nat option) \<Rightarrow> string \<Rightarrow> string \<Rightarrow> nat option res" where
  "try_open dlopen path nm =
     (let path = dropWhile (\<lambda>c. c = CHR '';'') path in
      if path = [] then Inr None
      else
        let len = length (takeWhile (\<lambda>c. c \<noteq> CHR '';'') path);
            i = length (takeWhile (\<lambda>c. c \<noteq> CHR ''?'') (take len path)) in
        if i < len then
          (case dlopen (take i path @ nm @ take (len - i - 1) (drop (i + 1) path)) of
             None \<Rightarrow> try_open dlopen (drop len path) nm
           | Some dl \<Rightarrow> Inr (Some dl))
        else Inl Exits)"
  by pat_completeness auto
termination
proof (relation "measure (\<lambda>(dlopen, path, nm). length path)")
  fix dlopen :: "string \<Rightarrow> nat option" and path nm :: string and x xa xb
  assume "x = dropWhile (\<lambda>c. c = CHR '';'') path" "x \<noteq> []" "xa = length (takeWhile (\<lambda>c. c \<noteq> CHR '';'') x)" "xb < xa"
  then have "0 < xa" "xa \<le> length x" "length x \<le> length path"
    by (auto simp: length_takeWhile_le length_dropWhile_le)
  then show "((dlopen, drop xa x, nm), dlopen, path, nm) \<in> measure (\<lambda>(dlopen, path, nm). length path)"
    by simp
qed simp

declare try_open.simps [simp del]

definition query_module :: "modules \<Rightarrow> string \<Rightarrow> nat option" where
  "query_module M nm = find (\<lambda>i. md_name (ms_m M ! i) = nm) [0..<length (ms_m M)]"

text \<open>\<open>strrchr(tmp, '.')\<close>: a symbol is named after the last component of the module's name.\<close>

definition get_api :: "(nat \<Rightarrow> string \<Rightarrow> nat option) \<Rightarrow> nat \<Rightarrow> string \<Rightarrow> string \<Rightarrow> nat option" where
  "get_api dlsym dl nm api_name = dlsym dl (rev (takeWhile (\<lambda>c. c \<noteq> CHR ''.'') (rev (nm @ api_name))))"

definition open_sym :: "(nat \<Rightarrow> string \<Rightarrow> nat option) \<Rightarrow> nat \<Rightarrow> string \<Rightarrow> skynet_module \<times> bool" where
  "open_sym dlsym dl nm =
     (let md = \<lparr>md_name = nm, md_module = dl, md_create = get_api dlsym dl nm ''_create'',
        md_init = get_api dlsym dl nm ''_init'', md_release = get_api dlsym dl nm ''_release'',
        md_signal = get_api dlsym dl nm ''_signal''\<rparr> in (md, md_init md = None))"

text \<open>A module is its index in the table; \<open>None\<close> is the null pointer.\<close>

definition skynet_module_query ::
  "(string \<Rightarrow> nat option) \<Rightarrow> (nat \<Rightarrow> string \<Rightarrow> nat option) \<Rightarrow> modules \<Rightarrow> string \<Rightarrow> (modules \<times> nat option) res" where
  "skynet_module_query dlopen dlsym M nm =
     (case query_module M nm of
        Some i \<Rightarrow> Inr (M, Some i)
      | None \<Rightarrow>
          if length (ms_m M) < MAX_MODULE_TYPE then
            cbind (try_open dlopen (ms_path M) nm) (\<lambda>r.
            case r of
              None \<Rightarrow> Inr (M, None)
            | Some dl \<Rightarrow>
                let (md, failed) = open_sym dlsym dl nm in
                if failed then Inr (M, None)
                else Inr (M\<lparr>ms_m := ms_m M @ [md]\<rparr>, Some (length (ms_m M))))
          else Inr (M, None))"

definition skynet_module_init :: "string \<Rightarrow> modules" where
  "skynet_module_init path = \<lparr>ms_path = path, ms_m = []\<rparr>"

section \<open>The search path\<close>

text \<open>The reference: cut the path at the semicolons, substitute, and try the candidates in order.\<close>

fun split_at :: "char \<Rightarrow> string \<Rightarrow> string list" where
  "split_at d [] = [[]]"
| "split_at d (c # cs) =
     (if c = d then [] # split_at d cs else (case split_at d cs of [] \<Rightarrow> [[c]] | s # ss \<Rightarrow> (c # s) # ss))"

fun subst_first :: "string \<Rightarrow> string \<Rightarrow> string option" where
  "subst_first nm [] = None"
| "subst_first nm (c # cs) = (if c = CHR ''?'' then Some (nm @ cs) else map_option (Cons c) (subst_first nm cs))"

fun first_opened :: "(string \<Rightarrow> nat option) \<Rightarrow> string option list \<Rightarrow> nat option res" where
  "first_opened dlopen [] = Inr None"
| "first_opened dlopen (None # ts) = Inl Exits"
| "first_opened dlopen (Some f # ts) = (case dlopen f of None \<Rightarrow> first_opened dlopen ts | Some dl \<Rightarrow> Inr (Some dl))"

definition templates :: "string \<Rightarrow> string list" where
  "templates path = filter (\<lambda>s. s \<noteq> []) (split_at (CHR '';'') path)"

lemma split_at_neq [simp]: "split_at d s \<noteq> []"
  by (cases s) (auto split: list.splits)

lemma split_at_prefix:
  "\<forall>c \<in> set a. c \<noteq> d \<Longrightarrow> split_at d (a @ b) = (case split_at d b of [] \<Rightarrow> [a] | s # ss \<Rightarrow> (a @ s) # ss)"
  by (induction a) (auto split: list.splits)

lemma templates_skip: "templates (dropWhile (\<lambda>c. c = CHR '';'') path) = templates path"
  by (induction path) (auto simp: templates_def)

lemma templates_cons:
  assumes "path \<noteq> []" "hd path \<noteq> CHR '';''"
  shows "templates path = takeWhile (\<lambda>c. c \<noteq> CHR '';'') path # templates (dropWhile (\<lambda>c. c \<noteq> CHR '';'') path)"
proof -
  let ?a = "takeWhile (\<lambda>c. c \<noteq> CHR '';'') path" and ?b = "dropWhile (\<lambda>c. c \<noteq> CHR '';'') path"
  have a: "?a \<noteq> []" using assms by (cases path) auto
  have "split_at (CHR '';'') path = split_at (CHR '';'') (?a @ ?b)" by simp
  also have "\<dots> = (case split_at (CHR '';'') ?b of [] \<Rightarrow> [?a] | s # ss \<Rightarrow> (?a @ s) # ss)"
    by (rule split_at_prefix) (auto dest: set_takeWhileD)
  finally have s: "split_at (CHR '';'') path = \<dots>" .
  show ?thesis
  proof (cases ?b)
    case Nil
    show ?thesis unfolding templates_def s Nil using a by simp
  next
    case (Cons c cs)
    then have "c = CHR '';''" by (simp add: dropWhile_eq_Cons_conv)
    then show ?thesis unfolding templates_def s Cons using a by simp
  qed
qed

lemma subst_first_eq:
  "subst_first nm s = (let i = length (takeWhile (\<lambda>c. c \<noteq> CHR ''?'') s) in
     if i < length s then Some (take i s @ nm @ drop (i + 1) s) else None)"
  by (induction s) (auto simp: Let_def)

lemma take_segment:
  "i \<le> n \<Longrightarrow> take i p = take i (take n p)" "take (n - i - 1) (drop (i + 1) p) = drop (i + 1) (take n p)"
  by (simp_all add: min_absorb1 drop_take)

text \<open>
  C17. The search of a module. \<open>_try_open\<close>, which walks the path with indices and copies into one
  buffer, tries exactly the candidates of the reference in their order: the path cut at its
  semicolons, empty templates skipped, the name in place of the first question mark. It returns for
  every path, and it ends the process for a template without a question mark when no earlier one
  could be opened.
\<close>

theorem try_open_equivalent:
  "try_open dlopen path nm = first_opened dlopen (map (subst_first nm) (templates path))"
proof (induction dlopen path nm rule: try_open.induct)
  case (1 dlopen path nm)
  let ?p = "dropWhile (\<lambda>c. c = CHR '';'') path"
  show ?case
  proof (cases "?p = []")
    case True
    have "templates ?p = []" unfolding True by (simp add: templates_def)
    then have "templates path = []" by (simp only: templates_skip)
    then show ?thesis using True by (subst try_open.simps) simp
  next
    case False
    define p seg i where "p = ?p" and "seg = takeWhile (\<lambda>c. c \<noteq> CHR '';'') p" and "i = length (takeWhile (\<lambda>c. c \<noteq> CHR ''?'') seg)"
    note defs = p_def [symmetric] seg_def [symmetric] i_def [symmetric]
    have ne: "p \<noteq> []" using False by (simp add: p_def)
    have t: "templates path = seg # templates (drop (length seg) p)"
      using templates_cons [OF ne] hd_dropWhile [OF False, folded p_def] templates_skip [of path, folded p_def]
      by (simp add: dropWhile_eq_drop seg_def)
    have seg: "take (length seg) p = seg" unfolding seg_def by (rule takeWhile_eq_take [symmetric])
    have il: "i \<le> length seg" unfolding i_def by (rule length_takeWhile_le)
    have step: "try_open dlopen path nm = (if i < length seg then
        (case dlopen (take i p @ nm @ take (length seg - i - 1) (drop (i + 1) p)) of
           None \<Rightarrow> try_open dlopen (drop (length seg) p) nm | Some dl \<Rightarrow> Inr (Some dl)) else Inl Exits)"
      by (subst try_open.simps) (simp only: Let_def defs seg ne if_False)
    have IH: "try_open dlopen (drop (length seg) p) nm = first_opened dlopen (map (subst_first nm) (templates (drop (length seg) p)))"
      if "i < length seg" "dlopen (take i p @ nm @ take (length seg - i - 1) (drop (i + 1) p)) = None"
      using "1.IH" [OF p_def ne refl refl] that unfolding defs seg by simp
    have s: "subst_first nm seg = (if i < length seg then Some (take i p @ nm @ take (length seg - i - 1) (drop (i + 1) p)) else None)"
      using take_segment [where i = i and n = "length seg" and p = p] il unfolding seg
      by (simp add: subst_first_eq i_def [symmetric] Let_def)
    show ?thesis unfolding step t using IH s by (auto split: option.splits)
  qed
qed

end
