(* ===== verification/Sky_Node.thy ===== *)
theory Sky_Node
  imports Sky_Sched Sky_Handle_Spec Sky_Module Sky_Service Sky_Timer
begin

text \<open>
  Model of \<^verbatim>\<open>skynet-src/skynet_server.c\<close> with the small files it is built from:
  \<^verbatim>\<open>skynet_harbor.c\<close>, \<^verbatim>\<open>skynet_env.c\<close>, \<^verbatim>\<open>skynet_error.c\<close>, \<^verbatim>\<open>skynet_log.c\<close> and
  \<^verbatim>\<open>skynet_monitor.c\<close>. The state of a node is one record: the global variables of these files, the
  handle table, the message queues, the timer, the modules, and three stores: contexts, memory blocks
  and open files by address. One counter gives out the addresses, so that none is used twice.

  The code of the services (what \<open>dlsym\<close> finds, and the callbacks they install), the dynamic loader,
  the file system and the clocks are the record \<open>svc\<close> of parameters.
\<close>

section \<open>Data\<close>

text \<open>The address 0 is the null pointer; \<open>rm_name\<close> is set only when \<open>rm_handle\<close> is 0.\<close>

record remote_message =
  rm_handle :: u32
  rm_name :: "u8 list"
  rm_message :: nat
  rm_sz :: u64
  rm_type :: int

text \<open>\<open>sizeof(struct remote_message)\<close> and \<open>sizeof(struct skynet_socket_message)\<close> on a 64-bit machine.\<close>

definition REMOTE_MESSAGE_SIZE :: u64 where "REMOTE_MESSAGE_SIZE = 48"
definition SOCKET_MESSAGE_SIZE :: u64 where "SOCKET_MESSAGE_SIZE = 24"

text \<open>A block of memory: bytes, a remote message, or a socket message with its buffer and the bytes behind it.\<close>

datatype block =
    Bytes "u8 list"
  | Remote remote_message
  | Sock int int int nat "u8 list"

record skynet_context =
  c_instance :: nat
  c_mod :: nat
  c_cb_ud :: nat
  c_cb :: "nat option"
  c_queue :: "qptr option"
  c_logfile :: nat
  c_cpu_cost :: u64
  c_cpu_start :: u64
  c_result :: string
  c_handle :: u32
  c_session_id :: u32
  c_ref :: int
  c_message_count :: u64
  c_init :: bool
  c_endless :: bool
  c_profile :: bool

record node =
  n_total :: int
  n_monitor_exit :: u32
  n_profile :: bool
  n_current :: u32
  n_storage :: handle_storage
  n_gq :: global_queue
  n_ctxs :: "cptr \<Rightarrow> skynet_context option"
  n_mem :: "nat \<Rightarrow> block option"
  n_files :: "nat \<Rightarrow> string option"
  n_brk :: nat
  n_mods :: modules
  n_timer :: timer
  n_env :: "string \<Rightarrow> string option"
  n_remote :: "cptr option"
  n_harbor :: u32
  n_logger :: u32

record svc =
  sv_dlopen :: "string \<Rightarrow> nat option"
  sv_dlsym :: "nat \<Rightarrow> string \<Rightarrow> nat option"
  sv_create :: "nat \<Rightarrow> node \<Rightarrow> (node \<times> nat) res"
  sv_init :: "nat \<Rightarrow> nat \<Rightarrow> cptr \<Rightarrow> string option \<Rightarrow> node \<Rightarrow> (node \<times> int) res"
  sv_release :: "nat \<Rightarrow> nat \<Rightarrow> node \<Rightarrow> node res"
  sv_signal :: "nat \<Rightarrow> nat \<Rightarrow> int \<Rightarrow> node \<Rightarrow> node res"
  sv_cb :: "nat \<Rightarrow> cptr \<Rightarrow> nat \<Rightarrow> int \<Rightarrow> int \<Rightarrow> u32 \<Rightarrow> nat \<Rightarrow> u64 \<Rightarrow> node \<Rightarrow> (node \<times> int) res"
  sv_thread_time :: "node \<Rightarrow> u64"
  sv_fopen :: "string \<Rightarrow> bool"
  sv_ctime :: "u64 \<Rightarrow> string"

definition PTYPE_TAG_ALLOCSESSION :: int where "PTYPE_TAG_ALLOCSESSION = 0x20000"
definition NO_INSTANCE :: nat where "NO_INSTANCE = 2 ^ 64 - 1"

section \<open>Memory and files\<close>

definition skynet_malloc :: "node \<Rightarrow> block \<Rightarrow> node \<times> nat" where
  "skynet_malloc n b = (n\<lparr>n_mem := (n_mem n)(n_brk n \<mapsto> b), n_brk := Suc (n_brk n)\<rparr>, n_brk n)"

definition skynet_free :: "node \<Rightarrow> nat \<Rightarrow> node res" where
  "skynet_free n p =
     (if p = 0 then Inr n
      else cbind (deref (n_mem n) p) (\<lambda>_. Inr (n\<lparr>n_mem := (n_mem n)(p := None)\<rparr>)))"

text \<open>
  Reading \<open>len\<close> bytes at \<open>p\<close>. The model does not lay out the structs as bytes: to read one as bytes,
  or bytes as one, is the error \<open>Opaque\<close>.
\<close>

definition read_bytes :: "node \<Rightarrow> nat \<Rightarrow> nat \<Rightarrow> u8 list res" where
  "read_bytes n p len =
     cbind (deref (n_mem n) p) (\<lambda>b.
     case b of
       Bytes bs \<Rightarrow> if len \<le> length bs then Inr (take len bs) else Inl OutOfBounds
     | _ \<Rightarrow> Inl Opaque)"

definition fputs :: "node \<Rightarrow> nat \<Rightarrow> string \<Rightarrow> node res" where
  "fputs n f s = cbind (deref (n_files n) f) (\<lambda>old. Inr (n\<lparr>n_files := (n_files n)(f \<mapsto> old @ s)\<rparr>))"

definition fclose :: "node \<Rightarrow> nat \<Rightarrow> node res" where
  "fclose n f = cbind (deref (n_files n) f) (\<lambda>_. Inr (n\<lparr>n_files := (n_files n)(f := None)\<rparr>))"

section \<open>Contexts and references\<close>

definition ctx_at :: "node \<Rightarrow> cptr \<Rightarrow> skynet_context res" where
  "ctx_at n c = deref (n_ctxs n) c"

definition set_ctx :: "node \<Rightarrow> cptr \<Rightarrow> skynet_context \<Rightarrow> node" where
  "set_ctx n c x = n\<lparr>n_ctxs := (n_ctxs n)(c \<mapsto> x)\<rparr>"

definition skynet_context_handle :: "node \<Rightarrow> cptr \<Rightarrow> u32" where
  "skynet_context_handle n c = (case n_ctxs n c of None \<Rightarrow> 0 | Some x \<Rightarrow> c_handle x)"

definition ctx_queue :: "skynet_context \<Rightarrow> qptr res" where
  "ctx_queue x = (case c_queue x of None \<Rightarrow> Inl Uninitialised | Some q \<Rightarrow> Inr q)"

definition skynet_context_total :: "node \<Rightarrow> int" where
  "skynet_context_total n = n_total n"

definition context_inc :: "node \<Rightarrow> node" where "context_inc n = n\<lparr>n_total := n_total n + 1\<rparr>"
definition context_dec :: "node \<Rightarrow> node" where "context_dec n = n\<lparr>n_total := n_total n - 1\<rparr>"

text \<open>The calls into a module.\<close>

definition module_at :: "node \<Rightarrow> nat \<Rightarrow> skynet_module res" where
  "module_at n m = (if m < length (ms_m (n_mods n)) then Inr (ms_m (n_mods n) ! m) else Inl OutOfBounds)"

definition skynet_module_instance_create :: "svc \<Rightarrow> node \<Rightarrow> nat \<Rightarrow> (node \<times> nat) res" where
  "skynet_module_instance_create sv n m =
     cbind (module_at n m) (\<lambda>md. case md_create md of None \<Rightarrow> Inr (n, NO_INSTANCE) | Some f \<Rightarrow> sv_create sv f n)"

definition skynet_module_instance_init ::
  "svc \<Rightarrow> node \<Rightarrow> nat \<Rightarrow> nat \<Rightarrow> cptr \<Rightarrow> string option \<Rightarrow> (node \<times> int) res" where
  "skynet_module_instance_init sv n m inst c parm =
     cbind (module_at n m) (\<lambda>md. case md_init md of None \<Rightarrow> Inl NullDeref | Some f \<Rightarrow> sv_init sv f inst c parm n)"

definition skynet_module_instance_release :: "svc \<Rightarrow> node \<Rightarrow> nat \<Rightarrow> nat \<Rightarrow> node res" where
  "skynet_module_instance_release sv n m inst =
     cbind (module_at n m) (\<lambda>md. case md_release md of None \<Rightarrow> Inr n | Some f \<Rightarrow> sv_release sv f inst n)"

definition skynet_module_instance_signal :: "svc \<Rightarrow> node \<Rightarrow> nat \<Rightarrow> nat \<Rightarrow> int \<Rightarrow> node res" where
  "skynet_module_instance_signal sv n m inst sig =
     cbind (module_at n m) (\<lambda>md. case md_signal md of None \<Rightarrow> Inr n | Some f \<Rightarrow> sv_signal sv f inst sig n)"

definition skynet_context_grab :: "node \<Rightarrow> cptr \<Rightarrow> node res" where
  "skynet_context_grab n c = cbind (ctx_at n c) (\<lambda>x. Inr (set_ctx n c (x\<lparr>c_ref := c_ref x + 1\<rparr>)))"

definition skynet_context_reserve :: "node \<Rightarrow> cptr \<Rightarrow> node res" where
  "skynet_context_reserve n c = cbind (skynet_context_grab n c) (\<lambda>n. Inr (context_dec n))"

definition delete_context :: "svc \<Rightarrow> node \<Rightarrow> cptr \<Rightarrow> node res" where
  "delete_context sv n c =
     cbind (ctx_at n c) (\<lambda>x.
     cbind (if c_logfile x \<noteq> 0 then fclose n (c_logfile x) else Inr n) (\<lambda>n.
     cbind (skynet_module_instance_release sv n (c_mod x) (c_instance x)) (\<lambda>n.
     cbind (ctx_queue x) (\<lambda>q.
     cbind (skynet_mq_mark_release (n_gq n) q) (\<lambda>g.
     Inr (context_dec (n\<lparr>n_gq := g, n_ctxs := (n_ctxs n)(c := None)\<rparr>)))))))"

definition skynet_context_release :: "svc \<Rightarrow> node \<Rightarrow> cptr \<Rightarrow> node res" where
  "skynet_context_release sv n c =
     cbind (ctx_at n c) (\<lambda>x.
     let n = set_ctx n c (x\<lparr>c_ref := c_ref x - 1\<rparr>) in
     if c_ref x = 1 then delete_context sv n c else Inr n)"

text \<open>The operations of \<^verbatim>\<open>skynet_handle.c\<close> that count references.\<close>

definition skynet_handle_grab :: "node \<Rightarrow> u32 \<Rightarrow> (node \<times> cptr option) res" where
  "skynet_handle_grab n handle =
     cbind (handle_lookup (skynet_context_handle n) (n_storage n) handle) (\<lambda>r.
     case r of
       None \<Rightarrow> Inr (n, None)
     | Some c \<Rightarrow> cbind (skynet_context_grab n c) (\<lambda>n. Inr (n, Some c)))"

definition skynet_handle_retire :: "svc \<Rightarrow> node \<Rightarrow> u32 \<Rightarrow> (node \<times> int) res" where
  "skynet_handle_retire sv n handle =
     cbind (handle_retire (skynet_context_handle n) (n_storage n) handle) (\<lambda>(s, r).
     let n = n\<lparr>n_storage := s\<rparr> in
     case r of
       None \<Rightarrow> Inr (n, 0)
     | Some c \<Rightarrow> cbind (skynet_context_release sv n c) (\<lambda>n. Inr (n, 1)))"

text \<open>
  \<open>skynet_handle_retireall\<close>: passes over the slots until one finds them all empty. \<open>retire_pass\<close> is
  one pass from slot \<open>i\<close> on, with the number of contexts seen.
\<close>

partial_function (option) retire_pass :: "svc \<Rightarrow> node \<Rightarrow> nat \<Rightarrow> nat \<Rightarrow> (node \<times> nat) res option" where
  "retire_pass sv n i cnt =
     (if i < slot_size (n_storage n) then
        (case slot_at (slot (n_storage n)) i of
           Inl e \<Rightarrow> Some (Inl e)
         | Inr None \<Rightarrow> retire_pass sv n (Suc i) cnt
         | Inr (Some c) \<Rightarrow>
             let handle = skynet_context_handle n c in
             if handle = 0 then retire_pass sv n (Suc i) (Suc cnt)
             else
               (case skynet_handle_retire sv n handle of
                  Inl e \<Rightarrow> Some (Inl e)
                | Inr (n, _) \<Rightarrow> retire_pass sv n (Suc i) (Suc cnt)))
      else Some (Inr (n, cnt)))"

partial_function (option) skynet_handle_retireall :: "svc \<Rightarrow> node \<Rightarrow> node res option" where
  "skynet_handle_retireall sv n =
     Option.bind (retire_pass sv n 0 0) (\<lambda>r.
     case r of
       Inl e \<Rightarrow> Some (Inl e)
     | Inr (n, cnt) \<Rightarrow> if cnt = 0 then Some (Inr n) else skynet_handle_retireall sv n)"

section \<open>Sending\<close>

definition push_to :: "node \<Rightarrow> cptr \<Rightarrow> skynet_message \<Rightarrow> node res" where
  "push_to n c msg =
     cbind (ctx_at n c) (\<lambda>x.
     cbind (ctx_queue x) (\<lambda>q.
     cbind (skynet_mq_push (n_gq n) q msg) (\<lambda>g. Inr (n\<lparr>n_gq := g\<rparr>))))"

definition skynet_context_push :: "svc \<Rightarrow> node \<Rightarrow> u32 \<Rightarrow> skynet_message \<Rightarrow> (node \<times> int) res" where
  "skynet_context_push sv n handle msg =
     cbind (skynet_handle_grab n handle) (\<lambda>(n, r).
     case r of
       None \<Rightarrow> Inr (n, -1)
     | Some c \<Rightarrow>
         cbind (push_to n c msg) (\<lambda>n.
         cbind (skynet_context_release sv n c) (\<lambda>n. Inr (n, 0))))"

definition skynet_context_endless :: "svc \<Rightarrow> node \<Rightarrow> u32 \<Rightarrow> node res" where
  "skynet_context_endless sv n handle =
     cbind (skynet_handle_grab n handle) (\<lambda>(n, r).
     case r of
       None \<Rightarrow> Inr n
     | Some c \<Rightarrow>
         cbind (ctx_at n c) (\<lambda>x. skynet_context_release sv (set_ctx n c (x\<lparr>c_endless := True\<rparr>)) c))"

definition skynet_context_send ::
  "node \<Rightarrow> cptr \<Rightarrow> nat \<Rightarrow> u64 \<Rightarrow> u32 \<Rightarrow> int \<Rightarrow> int \<Rightarrow> node res" where
  "skynet_context_send n c msg len src type sess =
     push_to n c \<lparr>source = src, session = sess, msg_data = msg,
       sz = len OR push_bit MESSAGE_TYPE_SHIFT (word_of_int type)\<rparr>"

text \<open>\<open>context\<close> may be the null pointer. \<open>text\<close> is the formatted message.\<close>

definition context_source :: "node \<Rightarrow> cptr option \<Rightarrow> u32 res" where
  "context_source n ctx = (case ctx of None \<Rightarrow> Inl NullDeref | Some c \<Rightarrow> cbind (ctx_at n c) (\<lambda>x. Inr (c_handle x)))"

definition skynet_error :: "svc \<Rightarrow> node \<Rightarrow> cptr option \<Rightarrow> string \<Rightarrow> node res" where
  "skynet_error sv n ctx text =
     cbind (if n_logger n = 0 then skynet_handle_findname (n_storage n) ''logger'' else Inr (n_logger n)) (\<lambda>logger.
     let n = n\<lparr>n_logger := logger\<rparr> in
     if logger = 0 then Inr n
     else
       let (n, data) = skynet_malloc n (Bytes (str_bytes text @ [0])) in
       cbind (case ctx of None \<Rightarrow> Inr 0 | Some _ \<Rightarrow> context_source n ctx) (\<lambda>src.
       cbind (skynet_context_push sv n logger \<lparr>source = src, session = 0, msg_data = data,
         sz = of_nat (length text) OR push_bit MESSAGE_TYPE_SHIFT (of_nat PTYPE_TEXT)\<rparr>) (\<lambda>(n, _). Inr n)))"

text \<open>
  \<open>session always be a positive number\<close>: the increment wraps around, and a session that is not
  positive starts again at 1.
\<close>

definition skynet_context_newsession :: "node \<Rightarrow> cptr \<Rightarrow> (node \<times> int) res" where
  "skynet_context_newsession n c =
     cbind (ctx_at n c) (\<lambda>x.
     let sess = c_session_id x + 1 in
     if sint sess \<le> 0 then Inr (set_ctx n c (x\<lparr>c_session_id := 1\<rparr>), 1)
     else Inr (set_ctx n c (x\<lparr>c_session_id := sess\<rparr>), sint sess))"

definition filter_args ::
  "node \<Rightarrow> cptr option \<Rightarrow> int \<Rightarrow> int \<Rightarrow> nat \<Rightarrow> u64 \<Rightarrow> (node \<times> int \<times> nat \<times> u64) res" where
  "filter_args n ctx type sess data len =
     cbind (if type AND PTYPE_TAG_ALLOCSESSION \<noteq> 0 then
              cbind (c_assert (sess = 0)) (\<lambda>_.
              case ctx of None \<Rightarrow> Inl NullDeref | Some c \<Rightarrow> skynet_context_newsession n c)
            else Inr (n, sess)) (\<lambda>(n, sess).
     cbind (if type AND PTYPE_TAG_DONTCOPY = 0 \<and> data \<noteq> 0 then
              cbind (read_bytes n data (unat len)) (\<lambda>bs. Inr (skynet_malloc n (Bytes (bs @ [0]))))
            else Inr (n, data)) (\<lambda>(n, data).
     Inr (n, sess, data, len OR push_bit MESSAGE_TYPE_SHIFT (word_of_int (type AND 0xff)))))"

definition invalid_type :: "int \<Rightarrow> bool" where
  "invalid_type type \<longleftrightarrow> type \<noteq> int PTYPE_SYSTEM \<and> type \<noteq> int PTYPE_HARBOR"

definition skynet_harbor_send :: "node \<Rightarrow> nat \<Rightarrow> u32 \<Rightarrow> int \<Rightarrow> node res" where
  "skynet_harbor_send n rmsg src sess =
     cbind (deref (n_mem n) rmsg) (\<lambda>b.
     case b of
       Remote r \<Rightarrow>
         cbind (c_assert (invalid_type (rm_type r) \<and> n_remote n \<noteq> None)) (\<lambda>_.
         skynet_context_send n (the (n_remote n)) rmsg REMOTE_MESSAGE_SIZE src (int PTYPE_SYSTEM) sess)
     | _ \<Rightarrow> Inl Opaque)"

definition skynet_harbor_message_isremote :: "node \<Rightarrow> u32 \<Rightarrow> bool res" where
  "skynet_harbor_message_isremote n handle =
     cbind (c_assert (n_harbor n \<noteq> -1)) (\<lambda>_.
     let h = handle AND NOT HANDLE_MASK in Inr (h \<noteq> n_harbor n \<and> h \<noteq> 0))"

definition skynet_harbor_init :: "node \<Rightarrow> int \<Rightarrow> node" where
  "skynet_harbor_init n hb = n\<lparr>n_harbor := push_bit HANDLE_REMOTE_SHIFT (word_of_int hb)\<rparr>"

definition skynet_harbor_start :: "node \<Rightarrow> cptr \<Rightarrow> node res" where
  "skynet_harbor_start n c = cbind (skynet_context_reserve n c) (\<lambda>n. Inr (n\<lparr>n_remote := Some c\<rparr>))"

definition skynet_harbor_exit :: "svc \<Rightarrow> node \<Rightarrow> node res" where
  "skynet_harbor_exit sv n =
     (case n_remote n of
        None \<Rightarrow> Inr (n\<lparr>n_remote := None\<rparr>)
      | Some c \<Rightarrow> skynet_context_release sv (n\<lparr>n_remote := None\<rparr>) c)"

definition skynet_isremote :: "node \<Rightarrow> u32 \<Rightarrow> (bool \<times> int) res" where
  "skynet_isremote n handle =
     cbind (skynet_harbor_message_isremote n handle) (\<lambda>r. Inr (r, uint (drop_bit HANDLE_REMOTE_SHIFT handle)))"

text \<open>A message too long for its type to fit is refused; the result is the session or a negative error.\<close>

definition too_large :: "u64 \<Rightarrow> bool" where
  "too_large len \<longleftrightarrow> len AND MESSAGE_TYPE_MASK \<noteq> len"

definition refuse_large :: "svc \<Rightarrow> node \<Rightarrow> cptr option \<Rightarrow> string \<Rightarrow> int \<Rightarrow> nat \<Rightarrow> (node \<times> int) res" where
  "refuse_large sv n ctx dst type data =
     cbind (skynet_error sv n ctx (''error: The message to '' @ dst @ '' is too large'')) (\<lambda>n.
     cbind (if type AND PTYPE_TAG_DONTCOPY \<noteq> 0 then skynet_free n data else Inr n) (\<lambda>n. Inr (n, -2)))"

definition send_remote_message :: "node \<Rightarrow> u32 \<Rightarrow> u8 list \<Rightarrow> nat \<Rightarrow> u64 \<Rightarrow> u32 \<Rightarrow> int \<Rightarrow> node res" where
  "send_remote_message n handle nm data len src sess =
     (let (n, p) = skynet_malloc n (Remote \<lparr>rm_handle = handle, rm_name = nm, rm_message = data,
        rm_sz = len AND MESSAGE_TYPE_MASK, rm_type = uint (drop_bit MESSAGE_TYPE_SHIFT len)\<rparr>) in
      skynet_harbor_send n p src sess)"

definition skynet_send ::
  "svc \<Rightarrow> node \<Rightarrow> cptr option \<Rightarrow> u32 \<Rightarrow> u32 \<Rightarrow> int \<Rightarrow> int \<Rightarrow> nat \<Rightarrow> u64 \<Rightarrow> (node \<times> int) res" where
  "skynet_send sv n ctx src destination type sess data len =
     (if too_large len then refuse_large sv n ctx (hex_str destination) type data
      else
        cbind (filter_args n ctx type sess data len) (\<lambda>(n, sess, data, len).
        cbind (if src = 0 then context_source n ctx else Inr src) (\<lambda>src.
        if destination = 0 then
          if data \<noteq> 0 then
            cbind (skynet_error sv n ctx ''error: Destination address can't be 0'') (\<lambda>n.
            cbind (skynet_free n data) (\<lambda>n. Inr (n, -1)))
          else Inr (n, sess)
        else
          cbind (skynet_harbor_message_isremote n destination) (\<lambda>remote.
          if remote then
            cbind (send_remote_message n destination [] data len src sess) (\<lambda>n. Inr (n, sess))
          else
            cbind (skynet_context_push sv n destination \<lparr>source = src, session = sess, msg_data = data, sz = len\<rparr>) (\<lambda>(n, r).
            if r \<noteq> 0 then cbind (skynet_free n data) (\<lambda>n. Inr (n, -1))
            else Inr (n, sess))))))"

text \<open>\<open>copy_name\<close>: at most 16 bytes, filled up with zeros.\<close>

definition copy_name :: "string \<Rightarrow> u8 list" where
  "copy_name addr = take 16 (str_bytes addr @ replicate 16 0)"

definition skynet_sendname ::
  "svc \<Rightarrow> node \<Rightarrow> cptr option \<Rightarrow> u32 \<Rightarrow> string \<Rightarrow> int \<Rightarrow> int \<Rightarrow> nat \<Rightarrow> u64 \<Rightarrow> (node \<times> int) res" where
  "skynet_sendname sv n ctx src addr type sess data len =
     cbind (if src = 0 then context_source n ctx else Inr src) (\<lambda>src.
     if take 1 addr = '':'' then
       skynet_send sv n ctx src (ucast (strtoul16 (drop 1 addr))) type sess data len
     else if take 1 addr = ''.'' then
       cbind (skynet_handle_findname (n_storage n) (drop 1 addr)) (\<lambda>des.
       if des = 0 then
         cbind (if type AND PTYPE_TAG_DONTCOPY \<noteq> 0 then skynet_free n data else Inr n) (\<lambda>n. Inr (n, -1))
       else skynet_send sv n ctx src des type sess data len)
     else if too_large len then refuse_large sv n ctx addr type data
     else
       cbind (filter_args n ctx type sess data len) (\<lambda>(n, sess, data, len).
       cbind (send_remote_message n 0 (copy_name addr) data len src sess) (\<lambda>n. Inr (n, sess))))"

section \<open>Creating a service\<close>

definition drop_message :: "svc \<Rightarrow> u32 \<Rightarrow> skynet_message \<Rightarrow> node \<Rightarrow> node res" where
  "drop_message sv handle msg n =
     cbind (skynet_free n (msg_data msg)) (\<lambda>n.
     cbind (c_assert (handle \<noteq> 0)) (\<lambda>_.
     cbind (skynet_send sv n None handle (source msg) (int PTYPE_ERROR) (session msg) 0 0) (\<lambda>(n, _). Inr n)))"

text \<open>\<open>skynet_mq_release\<close> with a \<open>drop_func\<close> that works on the whole node.\<close>

definition node_pop :: "qptr \<Rightarrow> node \<Rightarrow> (node \<times> skynet_message option) res" where
  "node_pop q n = cbind (skynet_mq_pop (n_gq n) q) (\<lambda>(g, m). Inr (n\<lparr>n_gq := g\<rparr>, m))"

definition node_mq_release :: "(skynet_message \<Rightarrow> node \<Rightarrow> node res) \<Rightarrow> node \<Rightarrow> qptr \<Rightarrow> node res" where
  "node_mq_release dropf n q =
     cbind (deref (mqs (n_gq n)) q) (\<lambda>mq.
     if mq_release mq \<noteq> 0 then
       (case drain (node_pop q) dropf n of
          None \<Rightarrow> Inl Diverges
        | Some r \<Rightarrow> cbind r (\<lambda>n. cbind (mq_free (n_gq n) q) (\<lambda>g. Inr (n\<lparr>n_gq := g\<rparr>))))
     else cbind (skynet_globalmq_push (n_gq n) q) (\<lambda>g. Inr (n\<lparr>n_gq := g\<rparr>)))"

definition new_context :: "node \<Rightarrow> nat \<Rightarrow> nat \<Rightarrow> skynet_context" where
  "new_context n m inst =
     \<lparr>c_instance = inst, c_mod = m, c_cb_ud = 0, c_cb = None, c_queue = None, c_logfile = 0, c_cpu_cost = 0,
      c_cpu_start = 0, c_result = [], c_handle = 0, c_session_id = 0, c_ref = 2, c_message_count = 0,
      c_init = False, c_endless = False, c_profile = n_profile n\<rparr>"

text \<open>Up to the call of \<open>init\<close>: the context is registered, has its handle and its queue, and is counted.\<close>

definition context_setup :: "node \<Rightarrow> nat \<Rightarrow> nat \<Rightarrow> (node \<times> cptr \<times> u32 \<times> qptr) res" where
  "context_setup n m inst =
     (let c = n_brk n; x = new_context n m inst; n = set_ctx (n\<lparr>n_brk := Suc c\<rparr>) c x in
      cbind (skynet_handle_register (skynet_context_handle n) (n_storage n) c) (\<lambda>(s, handle).
      let q = n_brk n;
          n = (set_ctx n c (x\<lparr>c_handle := handle, c_queue := Some q\<rparr>))
                \<lparr>n_storage := s, n_gq := skynet_mq_create (n_gq n) q handle, n_brk := Suc q\<rparr> in
      Inr (context_inc n, c, handle, q)))"

definition skynet_context_new :: "svc \<Rightarrow> node \<Rightarrow> string \<Rightarrow> string option \<Rightarrow> (node \<times> u32) res" where
  "skynet_context_new sv n nm param =
     cbind (skynet_module_query (sv_dlopen sv) (sv_dlsym sv) (n_mods n) nm) (\<lambda>(M, r).
     let n = n\<lparr>n_mods := M\<rparr> in
     case r of
       None \<Rightarrow> Inr (n, 0)
     | Some m \<Rightarrow>
         cbind (skynet_module_instance_create sv n m) (\<lambda>(n, inst).
         if inst = 0 then Inr (n, 0)
         else
           cbind (context_setup n m inst) (\<lambda>(n, c, handle, queue).
           cbind (skynet_module_instance_init sv n m inst c param) (\<lambda>(n, r).
           if r = 0 then
             cbind (ctx_at n c) (\<lambda>x.
             let n = set_ctx n c (x\<lparr>c_init := True\<rparr>) in
             cbind (skynet_globalmq_push (n_gq n) queue) (\<lambda>g.
             cbind (skynet_error sv (n\<lparr>n_gq := g\<rparr>) (Some c)
                      (''LAUNCH '' @ nm @ '' '' @ (case param of None \<Rightarrow> '''' | Some s \<Rightarrow> s))) (\<lambda>n.
             cbind (skynet_context_release sv n c) (\<lambda>n. Inr (n, handle)))))
           else
             cbind (skynet_error sv n (Some c) (''error: launch '' @ nm @ '' FAILED'')) (\<lambda>n.
             cbind (ctx_at n c) (\<lambda>x.
             let handle = c_handle x in
             cbind (skynet_context_release sv n c) (\<lambda>n.
             cbind (skynet_handle_retire sv n handle) (\<lambda>(n, _).
             cbind (node_mq_release (drop_message sv handle) n queue) (\<lambda>n. Inr (n, 0))))))))))"

section \<open>The start\<close>

text \<open>
  The global state once \<open>skynet_globalinit\<close> and the initialisation calls of \<open>skynet_start\<close> have run:
  the harbor, the handle table, the global queue, the modules, the timer and the profile flag. The
  address 0 is never given out.
\<close>

definition node_init :: "int \<Rightarrow> string \<Rightarrow> timer \<Rightarrow> bool \<Rightarrow> (string \<Rightarrow> string option) \<Rightarrow> node" where
  "node_init hb path T prof environment =
     skynet_harbor_init \<lparr>n_total = 0, n_monitor_exit = 0, n_profile = prof, n_current = - 1, n_storage = skynet_handle_init hb,
       n_gq = skynet_mq_init, n_ctxs = (\<lambda>_. None), n_mem = (\<lambda>_. None), n_files = (\<lambda>_. None), n_brk = 1,
       n_mods = skynet_module_init path, n_timer = T, n_env = environment, n_remote = None, n_harbor = - 1, n_logger = 0\<rparr> hb"

end
