(* ===== verification/Sky_Server.thy ===== *)
theory Sky_Server
  imports Sky_Node
begin

text \<open>
  The rest of \<^verbatim>\<open>skynet-src/skynet_server.c\<close>: the dispatch of messages to the callbacks of the services
  and the commands of \<open>skynet_command\<close>, with the monitor of a worker (\<^verbatim>\<open>skynet_monitor.c\<close>), the
  environment (\<^verbatim>\<open>skynet_env.c\<close>) and the log of the messages of a service (\<^verbatim>\<open>skynet_log.c\<close>).
\<close>

section \<open>The monitor of a worker\<close>

record skynet_monitor =
  mon_version :: int
  mon_check_version :: int
  mon_source :: u32
  mon_destination :: u32

definition skynet_monitor_new :: skynet_monitor where
  "skynet_monitor_new = \<lparr>mon_version = 0, mon_check_version = 0, mon_source = 0, mon_destination = 0\<rparr>"

definition skynet_monitor_trigger :: "skynet_monitor \<Rightarrow> u32 \<Rightarrow> u32 \<Rightarrow> skynet_monitor" where
  "skynet_monitor_trigger sm src destination =
     sm\<lparr>mon_source := src, mon_destination := destination, mon_version := to_int (mon_version sm + 1)\<rparr>"

text \<open>\<open>%08x\<close>, and the number of a version.\<close>

definition pad_left :: "nat \<Rightarrow> char \<Rightarrow> string \<Rightarrow> string" where
  "pad_left k c s = replicate (k - length s) c @ s"

definition hex08 :: "u32 \<Rightarrow> string" where
  "hex08 h = pad_left 8 (CHR ''0'') (hex_str h)"

definition skynet_monitor_check :: "svc \<Rightarrow> node \<Rightarrow> skynet_monitor \<Rightarrow> (node \<times> skynet_monitor) res" where
  "skynet_monitor_check sv n sm =
     (if mon_version sm = mon_check_version sm then
        if mon_destination sm \<noteq> 0 then
          cbind (skynet_context_endless sv n (mon_destination sm)) (\<lambda>n.
          cbind (skynet_error sv n None (''error: A message from [ :'' @ hex08 (mon_source sm) @ '' ] to [ :''
                   @ hex08 (mon_destination sm) @ '' ] maybe in an endless loop (version = '' @ int_str (mon_version sm) @ '')''))
            (\<lambda>n. Inr (n, sm)))
        else Inr (n, sm)
      else Inr (n, sm\<lparr>mon_check_version := mon_version sm\<rparr>))"

section \<open>The environment and the log of a service\<close>

definition skynet_getenv :: "node \<Rightarrow> string \<Rightarrow> string option" where
  "skynet_getenv n key = n_env n key"

definition skynet_setenv :: "node \<Rightarrow> string \<Rightarrow> string \<Rightarrow> node res" where
  "skynet_setenv n key val = cbind (c_assert (n_env n key = None)) (\<lambda>_. Inr (n\<lparr>n_env := (n_env n)(key \<mapsto> val)\<rparr>))"

text \<open>The address of the file is 0 when it could not be opened.\<close>

definition skynet_log_open :: "svc \<Rightarrow> node \<Rightarrow> cptr option \<Rightarrow> u32 \<Rightarrow> (node \<times> nat) res" where
  "skynet_log_open sv n ctx handle =
     (case skynet_getenv n ''logpath'' of
        None \<Rightarrow> Inr (n, 0)
      | Some logpath \<Rightarrow>
          let tmp = logpath @ ''/'' @ hex08 handle @ ''.log'' in
          if sv_fopen sv tmp then
            let f = n_brk n; n = n\<lparr>n_brk := Suc f, n_files := (n_files n)(f \<mapsto> [])\<rparr>;
                now = skynet_now (n_timer n); ti = ucast (skynet_starttime (n_timer n)) + now div 100 in
            cbind (skynet_error sv n ctx (''Open log file '' @ tmp)) (\<lambda>n.
            cbind (fputs n f (''open time: '' @ int_str (uint (ucast now :: u32)) @ '' '' @ sv_ctime sv ti)) (\<lambda>n. Inr (n, f)))
          else cbind (skynet_error sv n ctx (''Open log file '' @ tmp @ '' fail'')) (\<lambda>n. Inr (n, 0)))"

definition skynet_log_close :: "svc \<Rightarrow> node \<Rightarrow> cptr option \<Rightarrow> nat \<Rightarrow> u32 \<Rightarrow> node res" where
  "skynet_log_close sv n ctx f handle =
     cbind (skynet_error sv n ctx (''Close log file :'' @ hex08 handle)) (\<lambda>n.
     cbind (fputs n f (''close time: '' @ int_str (uint (ucast (skynet_now (n_timer n)) :: u32)) @ [CHR 0x0A])) (\<lambda>n.
     fclose n f))"

definition hex2 :: "u8 \<Rightarrow> string" where
  "hex2 b = pad_left 2 (CHR ''0'') (nat_digits 16 (unat b))"

definition log_blob :: "u8 list \<Rightarrow> string" where
  "log_blob bs = concat (map hex2 bs)"

text \<open>
  \<open>log_socket\<close>: with no buffer the text behind the message is printed by \<open>%*s\<close>, which pads to the
  width but reads up to a \<open>NUL\<close>: without one among the bytes of the message it reads past them.
\<close>

definition log_socket :: "node \<Rightarrow> nat \<Rightarrow> nat \<Rightarrow> node res" where
  "log_socket n f p =
     cbind (deref (n_mem n) p) (\<lambda>b.
     case b of
       Sock type i ud buffer tail \<Rightarrow>
         let head = ''[socket] '' @ int_str type @ '' '' @ int_str i @ '' '' @ int_str ud @ '' '' in
         cbind (if buffer = 0 then
                  if 0 \<in> set tail then
                    Inr (''['' @ bytes_str (takeWhile (\<lambda>c. c \<noteq> 0) tail) @ '']'')
                  else Inl OutOfBounds
                else cbind (read_bytes n buffer (unat (word_of_int ud :: u64))) (\<lambda>bs. Inr (log_blob bs))) (\<lambda>s.
         fputs n f (head @ s @ [CHR 0x0A]))
     | _ \<Rightarrow> Inl Opaque)"

definition skynet_log_output :: "node \<Rightarrow> nat \<Rightarrow> u32 \<Rightarrow> int \<Rightarrow> int \<Rightarrow> nat \<Rightarrow> u64 \<Rightarrow> node res" where
  "skynet_log_output n f src type sess buffer len =
     (if type = int PTYPE_SOCKET then log_socket n f buffer
      else
        cbind (if len = 0 then Inr [] else read_bytes n buffer (unat len)) (\<lambda>bs.
        fputs n f ('':'' @ hex08 src @ '' '' @ int_str type @ '' '' @ int_str sess @ '' ''
          @ int_str (uint (ucast (skynet_now (n_timer n)) :: u32)) @ '' '' @ log_blob bs @ [CHR 0x0A])))"

section \<open>Dispatch\<close>

text \<open>The type of a message and its size, as \<open>dispatch_message\<close> takes them apart.\<close>

definition msg_type :: "skynet_message \<Rightarrow> int" where
  "msg_type m = uint (drop_bit MESSAGE_TYPE_SHIFT (sz m))"

definition msg_size :: "skynet_message \<Rightarrow> u64" where
  "msg_size m = sz m AND MESSAGE_TYPE_MASK"

definition run_callback :: "svc \<Rightarrow> node \<Rightarrow> cptr \<Rightarrow> skynet_message \<Rightarrow> (node \<times> int) res" where
  "run_callback sv n c msg =
     cbind (ctx_at n c) (\<lambda>x.
     case c_cb x of
       None \<Rightarrow> Inl NullDeref
     | Some f \<Rightarrow> sv_cb sv f c (c_cb_ud x) (msg_type msg) (session msg) (source msg) (msg_data msg) (msg_size msg) n)"

definition dispatch_to_service :: "svc \<Rightarrow> node \<Rightarrow> cptr \<Rightarrow> skynet_message \<Rightarrow> node res" where
  "dispatch_to_service sv n c msg =
     cbind (ctx_at n c) (\<lambda>x.
     cbind (c_assert (c_init x)) (\<lambda>_.
     let n = n\<lparr>n_current := c_handle x\<rparr> in
     cbind (if c_logfile x \<noteq> 0
            then skynet_log_output n (c_logfile x) (source msg) (msg_type msg) (session msg) (msg_data msg) (msg_size msg)
            else Inr n) (\<lambda>n.
     let x = x\<lparr>c_message_count := c_message_count x + 1\<rparr> in
     cbind (if c_profile x then
              cbind (run_callback sv (set_ctx n c (x\<lparr>c_cpu_start := sv_thread_time sv n\<rparr>)) c msg) (\<lambda>(n, reserve_msg).
              cbind (ctx_at n c) (\<lambda>x.
              Inr (set_ctx n c (x\<lparr>c_cpu_cost := c_cpu_cost x + (sv_thread_time sv n - c_cpu_start x)\<rparr>), reserve_msg)))
            else run_callback sv (set_ctx n c x) c msg) (\<lambda>(n, reserve_msg).
     if reserve_msg = 0 then skynet_free n (msg_data msg) else Inr n))))"

definition skynet_context_dispatchall :: "svc \<Rightarrow> node \<Rightarrow> cptr \<Rightarrow> node res" where
  "skynet_context_dispatchall sv n c =
     cbind (ctx_at n c) (\<lambda>x.
     cbind (ctx_queue x) (\<lambda>q.
     case drain (node_pop q) (\<lambda>m n. dispatch_to_service sv n c m) n of None \<Rightarrow> Inl Diverges | Some r \<Rightarrow> r))"

text \<open>
  \<open>skynet_context_message_dispatch\<close>. \<open>dispatch_body\<close> is what the loop does with a message,
  \<open>dispatch_more\<close> up to \<open>k\<close> further passes: the flag says that the queue had a message for each.
\<close>

definition dispatch_body ::
  "svc \<Rightarrow> skynet_monitor \<Rightarrow> node \<Rightarrow> cptr \<Rightarrow> qptr \<Rightarrow> u32 \<Rightarrow> skynet_message \<Rightarrow> (skynet_monitor \<times> node) res" where
  "dispatch_body sv sm n c q handle msg =
     cbind (deref (mqs (n_gq n)) q) (\<lambda>mq.
     let (mq, overload) = skynet_mq_overload mq; n = n\<lparr>n_gq := upd_mq q mq (n_gq n)\<rparr> in
     cbind (if overload \<noteq> 0
            then skynet_error sv n (Some c) (''error: May overload, message queue length = '' @ int_str (int overload))
            else Inr n) (\<lambda>n.
     let sm = skynet_monitor_trigger sm (source msg) handle in
     cbind (ctx_at n c) (\<lambda>x.
     cbind (if c_cb x = None then skynet_free n (msg_data msg) else dispatch_to_service sv n c msg) (\<lambda>n.
     Inr (skynet_monitor_trigger sm 0 0, n)))))"

primrec dispatch_more ::
  "nat \<Rightarrow> svc \<Rightarrow> skynet_monitor \<Rightarrow> node \<Rightarrow> cptr \<Rightarrow> qptr \<Rightarrow> u32 \<Rightarrow> (skynet_monitor \<times> node \<times> bool) res" where
  "dispatch_more 0 sv sm n c q handle = Inr (sm, n, True)"
| "dispatch_more (Suc k) sv sm n c q handle =
     cbind (node_pop q n) (\<lambda>(n, r).
     case r of
       None \<Rightarrow> Inr (sm, n, False)
     | Some msg \<Rightarrow> cbind (dispatch_body sv sm n c q handle msg) (\<lambda>(sm, n). dispatch_more k sv sm n c q handle))"

definition next_queue :: "node \<Rightarrow> (node \<times> qptr option) res" where
  "next_queue n = cbind (skynet_globalmq_pop (n_gq n)) (\<lambda>(g, r). Inr (n\<lparr>n_gq := g\<rparr>, r))"

text \<open>The number of passes of the loop, from the length of the queue after the first message was taken.\<close>

definition batch :: "int \<Rightarrow> nat \<Rightarrow> nat" where
  "batch weight len = (if weight \<ge> 0 then len div 2 ^ nat weight else 1)"

definition run_queue_messages ::
  "svc \<Rightarrow> skynet_monitor \<Rightarrow> node \<Rightarrow> cptr \<Rightarrow> qptr \<Rightarrow> u32 \<Rightarrow> int \<Rightarrow> (skynet_monitor \<times> node \<times> bool) res" where
  "run_queue_messages sv sm n c q handle weight =
     cbind (node_pop q n) (\<lambda>(n, r).
     case r of
       None \<Rightarrow> Inr (sm, n, False)
     | Some msg \<Rightarrow>
         cbind (deref (mqs (n_gq n)) q) (\<lambda>mq.
         let cnt = batch weight (skynet_mq_length mq) in
         cbind (dispatch_body sv sm n c q handle msg) (\<lambda>(sm, n). dispatch_more (cnt - 1) sv sm n c q handle)))"

definition skynet_context_message_dispatch ::
  "svc \<Rightarrow> skynet_monitor \<Rightarrow> node \<Rightarrow> qptr option \<Rightarrow> int \<Rightarrow> (skynet_monitor \<times> node \<times> qptr option) res" where
  "skynet_context_message_dispatch sv sm n q weight =
     cbind (case q of None \<Rightarrow> next_queue n | Some _ \<Rightarrow> Inr (n, q)) (\<lambda>(n, q).
     case q of
       None \<Rightarrow> Inr (sm, n, None)
     | Some q \<Rightarrow>
         cbind (skynet_mq_handle (n_gq n) q) (\<lambda>handle.
         cbind (skynet_handle_grab n handle) (\<lambda>(n, r).
         case r of
           None \<Rightarrow>
             cbind (node_mq_release (drop_message sv handle) n q) (\<lambda>n.
             cbind (next_queue n) (\<lambda>(n, nq). Inr (sm, n, nq)))
         | Some c \<Rightarrow>
             cbind (run_queue_messages sv sm n c q handle weight) (\<lambda>(sm, n, more_work).
             if \<not> more_work then
               cbind (skynet_context_release sv n c) (\<lambda>n.
               cbind (next_queue n) (\<lambda>(n, nq). Inr (sm, n, nq)))
             else
               cbind (ctx_at n c) (\<lambda>x.
               cbind (c_assert (c_queue x = Some q)) (\<lambda>_.
               cbind (next_queue n) (\<lambda>(n, nq).
               cbind (if nq \<noteq> None then cbind (skynet_globalmq_push (n_gq n) q) (\<lambda>g. Inr (n\<lparr>n_gq := g\<rparr>)) else Inr n) (\<lambda>n.
               cbind (skynet_context_release sv n c) (\<lambda>n.
               Inr (sm, n, if nq \<noteq> None then nq else Some q))))))))))"

section \<open>Commands\<close>

text \<open>\<open>context->result\<close> has 32 bytes. The result of a command is a string or the null pointer.\<close>

definition set_result :: "node \<Rightarrow> cptr \<Rightarrow> string \<Rightarrow> (node \<times> string option) res" where
  "set_result n c s =
     cbind (ctx_at n c) (\<lambda>x.
     if length s < 32 then Inr (set_ctx n c (x\<lparr>c_result := s\<rparr>), Some s) else Inl OutOfBounds)"

definition id_to_hex :: "u32 \<Rightarrow> string" where
  "id_to_hex handle =
     CHR '':'' # map (\<lambda>i. ''0123456789ABCDEF'' ! unat ((drop_bit ((7 - i) * 4) handle) AND 0xf)) [0..<8]"

definition skynet_queryname :: "svc \<Rightarrow> node \<Rightarrow> cptr \<Rightarrow> string \<Rightarrow> (node \<times> u32) res" where
  "skynet_queryname sv n c nm =
     (if take 1 nm = '':'' then Inr (n, ucast (strtoul16 (drop 1 nm)))
      else if take 1 nm = ''.'' then cbind (skynet_handle_findname (n_storage n) (drop 1 nm)) (\<lambda>h. Inr (n, h))
      else cbind (skynet_error sv n (Some c) (''error: Don't support query global name '' @ nm)) (\<lambda>n. Inr (n, 0)))"

definition tohandle :: "svc \<Rightarrow> node \<Rightarrow> cptr \<Rightarrow> string \<Rightarrow> (node \<times> u32) res" where
  "tohandle sv n c param =
     (if take 1 param = '':'' then Inr (n, ucast (strtoul16 (drop 1 param)))
      else if take 1 param = ''.'' then cbind (skynet_handle_findname (n_storage n) (drop 1 param)) (\<lambda>h. Inr (n, h))
      else cbind (skynet_error sv n (Some c) (''error: Can't convert '' @ param @ '' to handle'')) (\<lambda>n. Inr (n, 0)))"

definition handle_exit :: "svc \<Rightarrow> node \<Rightarrow> cptr \<Rightarrow> u32 \<Rightarrow> node res" where
  "handle_exit sv n c handle =
     cbind (if handle = 0 then
              cbind (ctx_at n c) (\<lambda>x. cbind (skynet_error sv n (Some c) ''KILL self'') (\<lambda>n. Inr (n, c_handle x)))
            else cbind (skynet_error sv n (Some c) (''KILL :'' @ hex_str handle)) (\<lambda>n. Inr (n, handle))) (\<lambda>(n, handle).
     cbind (if n_monitor_exit n \<noteq> 0
            then cbind (skynet_send sv n (Some c) handle (n_monitor_exit n) (int PTYPE_CLIENT) 0 0 0) (\<lambda>(n, _). Inr n)
            else Inr n) (\<lambda>n.
     cbind (skynet_handle_retire sv n handle) (\<lambda>(n, _). Inr n)))"

type_synonym command = "svc \<Rightarrow> node \<Rightarrow> cptr \<Rightarrow> string option \<Rightarrow> (node \<times> string option) res"

text \<open>A command that reads its parameter.\<close>

definition with_param :: "string option \<Rightarrow> (string \<Rightarrow> 'a res) \<Rightarrow> 'a res" where
  "with_param param f = (case param of None \<Rightarrow> Inl NullDeref | Some s \<Rightarrow> f s)"

fun push_all :: "svc \<Rightarrow> node \<Rightarrow> push list \<Rightarrow> node res" where
  "push_all sv n [] = Inr n"
| "push_all sv n ((handle, msg) # ps) = cbind (skynet_context_push sv n handle msg) (\<lambda>(n, _). push_all sv n ps)"

definition cmd_timeout :: command where
  "cmd_timeout sv n c param =
     with_param param (\<lambda>s.
     cbind (skynet_context_newsession n c) (\<lambda>(n, sess).
     cbind (ctx_at n c) (\<lambda>x.
     cbind (skynet_timeout (\<lambda>h. handle_lookup (skynet_context_handle n) (n_storage n) h \<noteq> Inr None) (n_timer n)
              (c_handle x) (to_int (strtol10 s)) sess) (\<lambda>(T, pushes, _).
     cbind (push_all sv (n\<lparr>n_timer := T\<rparr>) pushes) (\<lambda>n.
     set_result n c (int_str sess))))))"

definition namehandle :: "node \<Rightarrow> u32 \<Rightarrow> string \<Rightarrow> (node \<times> string option) res" where
  "namehandle n handle nm =
     cbind (skynet_handle_namehandle (n_storage n) handle nm) (\<lambda>(s, r). Inr (n\<lparr>n_storage := s\<rparr>, r))"

definition cmd_reg :: command where
  "cmd_reg sv n c param =
     cbind (ctx_at n c) (\<lambda>x.
     case param of
       None \<Rightarrow> set_result n c ('':'' @ hex_str (c_handle x))
     | Some s \<Rightarrow>
         if s = [] then set_result n c ('':'' @ hex_str (c_handle x))
         else if take 1 s = ''.'' then namehandle n (c_handle x) (drop 1 s)
         else cbind (skynet_error sv n (Some c) (''error: Can't register global name '' @ s @ '' in C'')) (\<lambda>n. Inr (n, None)))"

definition cmd_query :: command where
  "cmd_query sv n c param =
     with_param param (\<lambda>s.
     if take 1 s = ''.'' then
       cbind (skynet_handle_findname (n_storage n) (drop 1 s)) (\<lambda>handle.
       if handle \<noteq> 0 then set_result n c ('':'' @ hex_str handle) else Inr (n, None))
     else Inr (n, None))"

text \<open>\<open>sscanf(s, "%s", buf)\<close>: the word and what is left; no word leaves the buffer as it was.\<close>

definition sscanf_word :: "string \<Rightarrow> string res \<times> string" where
  "sscanf_word s =
     (let s = dropWhile isspace s; w = takeWhile (\<lambda>c. \<not> isspace c) s in
      (if w = [] then Inl Uninitialised else Inr w, drop (length w) s))"

definition cmd_name :: command where
  "cmd_name sv n c param =
     with_param param (\<lambda>s.
     let (nm, rest) = sscanf_word s; (hd_str, _) = sscanf_word rest in
     cbind hd_str (\<lambda>handle.
     if take 1 handle \<noteq> '':'' then Inr (n, None)
     else
       let handle_id = ucast (strtoul16 (drop 1 handle)) :: u32 in
       if handle_id = 0 then Inr (n, None)
       else
         cbind nm (\<lambda>nm.
         if take 1 nm = ''.'' then namehandle n handle_id (drop 1 nm)
         else cbind (skynet_error sv n (Some c) (''error: Can't set global name '' @ nm @ '' in C'')) (\<lambda>n. Inr (n, None)))))"

definition cmd_exit :: command where
  "cmd_exit sv n c param = cbind (handle_exit sv n c 0) (\<lambda>n. Inr (n, None))"

definition cmd_kill :: command where
  "cmd_kill sv n c param =
     with_param param (\<lambda>s.
     cbind (tohandle sv n c s) (\<lambda>(n, handle).
     if handle \<noteq> 0 then cbind (handle_exit sv n c handle) (\<lambda>n. Inr (n, None)) else Inr (n, None)))"

text \<open>\<open>strsep(&p, delims)\<close> on a copy of the string: the token, and the rest if there was a delimiter.\<close>

definition sep_token :: "string \<Rightarrow> string \<Rightarrow> string \<times> string option" where
  "sep_token delims s =
     (let w = takeWhile (\<lambda>c. c \<notin> set delims) s in
      (w, if length w < length s then Some (drop (Suc (length w)) s) else None))"

definition cmd_launch :: command where
  "cmd_launch sv n c param =
     with_param param (\<lambda>s.
     let (md, rest) = sep_token [CHR '' '', CHR 0x09, CHR 0x0D, CHR 0x0A] s;
         args = map_option (\<lambda>r. fst (sep_token [CHR 0x0D, CHR 0x0A] r)) rest in
     cbind (skynet_context_new sv n md args) (\<lambda>(n, handle).
     if handle = 0 then Inr (n, None) else set_result n c (id_to_hex handle)))"

definition cmd_getenv :: command where
  "cmd_getenv sv n c param = with_param param (\<lambda>s. Inr (n, skynet_getenv n s))"

definition cmd_setenv :: command where
  "cmd_setenv sv n c param =
     with_param param (\<lambda>s.
     let key = takeWhile (\<lambda>c. c \<noteq> CHR '' '') s in
     if length key = length s then Inr (n, None)
     else cbind (skynet_setenv n key (drop (Suc (length key)) s)) (\<lambda>n. Inr (n, None)))"

definition cmd_starttime :: command where
  "cmd_starttime sv n c param = set_result n c (int_str (uint (skynet_starttime (n_timer n))))"

definition cmd_abort :: command where
  "cmd_abort sv n c param =
     (case skynet_handle_retireall sv n of None \<Rightarrow> Inl Diverges | Some r \<Rightarrow> cbind r (\<lambda>n. Inr (n, None)))"

definition cmd_monitor :: command where
  "cmd_monitor sv n c param =
     (if param = None \<or> param = Some [] then
        if n_monitor_exit n \<noteq> 0 then set_result n c ('':'' @ hex_str (n_monitor_exit n)) else Inr (n, None)
      else
        with_param param (\<lambda>s. cbind (tohandle sv n c s) (\<lambda>(n, handle). Inr (n\<lparr>n_monitor_exit := handle\<rparr>, None))))"

text \<open>\<open>"%lf"\<close> of a number of microseconds divided by a million: below 2 to the 52nd the double prints exactly.\<close>

definition seconds_str :: "u64 \<Rightarrow> string" where
  "seconds_str t = nat_digits 10 (unat t div 1000000) @ ''.'' @ pad_left 6 (CHR ''0'') (nat_digits 10 (unat t mod 1000000))"

definition cmd_stat :: command where
  "cmd_stat sv n c param =
     with_param param (\<lambda>s.
     cbind (ctx_at n c) (\<lambda>x.
     if s = ''mqlen'' then
       cbind (ctx_queue x) (\<lambda>q. cbind (deref (mqs (n_gq n)) q) (\<lambda>mq. set_result n c (int_str (int (skynet_mq_length mq)))))
     else if s = ''endless'' then
       if c_endless x then set_result (set_ctx n c (x\<lparr>c_endless := False\<rparr>)) c ''1'' else set_result n c ''0''
     else if s = ''cpu'' then set_result n c (seconds_str (c_cpu_cost x))
     else if s = ''time'' then
       if c_profile x then set_result n c (seconds_str (sv_thread_time sv n - c_cpu_start x)) else set_result n c ''0''
     else if s = ''message'' then set_result n c (nat_digits 10 (unat (c_message_count x)))
     else set_result n c []))"

text \<open>The commands on another service: a missing one is no error.\<close>

definition on_target ::
  "svc \<Rightarrow> node \<Rightarrow> cptr \<Rightarrow> string option \<Rightarrow> (node \<Rightarrow> u32 \<Rightarrow> cptr \<Rightarrow> string \<Rightarrow> node res) \<Rightarrow> (node \<times> string option) res" where
  "on_target sv n c param f =
     with_param param (\<lambda>s.
     cbind (tohandle sv n c s) (\<lambda>(n, handle).
     if handle = 0 then Inr (n, None)
     else
       cbind (skynet_handle_grab n handle) (\<lambda>(n, r).
       case r of
         None \<Rightarrow> Inr (n, None)
       | Some t \<Rightarrow>
           cbind (f n handle t s) (\<lambda>n.
           cbind (skynet_context_release sv n t) (\<lambda>n. Inr (n, None))))))"

definition cmd_logon :: command where
  "cmd_logon sv n c param =
     on_target sv n c param (\<lambda>n handle t s.
       cbind (ctx_at n t) (\<lambda>x.
       if c_logfile x = 0 then
         cbind (skynet_log_open sv n (Some c) handle) (\<lambda>(n, f).
         if f \<noteq> 0 then
           cbind (ctx_at n t) (\<lambda>x. if c_logfile x = 0 then Inr (set_ctx n t (x\<lparr>c_logfile := f\<rparr>)) else fclose n f)
         else Inr n)
       else Inr n))"

definition cmd_logoff :: command where
  "cmd_logoff sv n c param =
     on_target sv n c param (\<lambda>n handle t s.
       cbind (ctx_at n t) (\<lambda>x.
       if c_logfile x \<noteq> 0 then skynet_log_close sv (set_ctx n t (x\<lparr>c_logfile := 0\<rparr>)) (Some c) (c_logfile x) handle
       else Inr n))"

text \<open>\<open>strtol(s, NULL, 0)\<close>: the prefix chooses the base.\<close>

definition strtol0 :: "string \<Rightarrow> int" where
  "strtol0 s =
     (let (neg, t) = skip_sign s;
          v = (if length (skip_0x t) < length t then digits_val 16 (leading_digits 16 (skip_0x t))
               else if take 1 t = ''0'' then digits_val 8 (leading_digits 8 t)
               else digits_val 10 (leading_digits 10 t)) in
      if neg then max (- int v) (- (2 ^ 63)) else min (int v) (2 ^ 63 - 1))"

definition cmd_signal :: command where
  "cmd_signal sv n c param =
     on_target sv n c param (\<lambda>n handle t s.
       let p = dropWhile (\<lambda>c. c \<noteq> CHR '' '') s; sig = (if p = [] then 0 else to_int (strtol0 p)) in
       cbind (ctx_at n t) (\<lambda>x. skynet_module_instance_signal sv n (c_mod x) (c_instance x) sig))"

definition cmd_funcs :: "(string \<times> command) list" where
  "cmd_funcs =
     [(''TIMEOUT'', cmd_timeout), (''REG'', cmd_reg), (''QUERY'', cmd_query), (''NAME'', cmd_name),
      (''EXIT'', cmd_exit), (''KILL'', cmd_kill), (''LAUNCH'', cmd_launch), (''GETENV'', cmd_getenv),
      (''SETENV'', cmd_setenv), (''STARTTIME'', cmd_starttime), (''ABORT'', cmd_abort), (''MONITOR'', cmd_monitor),
      (''STAT'', cmd_stat), (''LOGON'', cmd_logon), (''LOGOFF'', cmd_logoff), (''SIGNAL'', cmd_signal)]"

definition skynet_command :: "svc \<Rightarrow> node \<Rightarrow> cptr \<Rightarrow> string \<Rightarrow> string option \<Rightarrow> (node \<times> string option) res" where
  "skynet_command sv n c cmd param =
     (case map_of cmd_funcs cmd of None \<Rightarrow> Inr (n, None) | Some f \<Rightarrow> f sv n c param)"

definition skynet_callback :: "node \<Rightarrow> cptr \<Rightarrow> nat \<Rightarrow> nat option \<Rightarrow> node res" where
  "skynet_callback n c ud cb = cbind (ctx_at n c) (\<lambda>x. Inr (set_ctx n c (x\<lparr>c_cb := cb, c_cb_ud := ud\<rparr>)))"

definition skynet_initthread :: "node \<Rightarrow> int \<Rightarrow> node" where
  "skynet_initthread n m = n\<lparr>n_current := word_of_int (- m)\<rparr>"

definition skynet_current_handle :: "node \<Rightarrow> u32" where
  "skynet_current_handle n = n_current n"

definition skynet_profile_enable :: "node \<Rightarrow> bool \<Rightarrow> node" where
  "skynet_profile_enable n enable = n\<lparr>n_profile := enable\<rparr>"

definition THREAD_MAIN :: int where "THREAD_MAIN = 1"

definition skynet_globalinit :: "node \<Rightarrow> node" where
  "skynet_globalinit n = skynet_initthread (n\<lparr>n_total := 0, n_monitor_exit := 0\<rparr>) THREAD_MAIN"

end
