(* ===== verification/Sky_Node_Spec.thy ===== *)
theory Sky_Node_Spec
  imports Sky_Server
begin

text \<open>
  What the core of the node promises to a service that sends: the text of a handle is read back, the
  sessions do not repeat, a message reaches the queue of its receiver and no other, and a message that
  cannot be delivered leaves nothing behind.
\<close>

section \<open>The text of a handle\<close>

lemma isspace_digit: "digit_val c < 16 \<Longrightarrow> \<not> isspace c"
  by (auto simp: isspace_def digit_val_def Let_def)

lemma digit_no_sign: "digit_val c < 16 \<Longrightarrow> c \<noteq> CHR ''-'' \<and> c \<noteq> CHR ''+'' \<and> c \<noteq> CHR ''x'' \<and> c \<noteq> CHR ''X''"
  by (auto simp: digit_val_def Let_def)

lemma strtoul16_digits:
  assumes "s \<noteq> []" "\<forall>c \<in> set s. digit_val c < 16" "digits_val 16 s < 2 ^ 64"
  shows "strtoul16 s = of_nat (digits_val 16 s)"
proof -
  have sp: "skip_sign s = (False, s)"
    using assms(1,2) isspace_digit digit_no_sign by (cases s) (auto simp: skip_sign_def)
  have "skip_0x s = s" using assms(2) digit_no_sign by (auto simp: skip_0x_def split: list.splits)
  moreover have "leading_digits 16 s = s" using assms(2) by (simp add: leading_digits_def)
  ultimately show ?thesis using assms(3) sp by (simp add: strtoul16_def)
qed

lemma ucast_64_32: "ucast (ucast h :: u64) = (h :: u32)"
  by (rule bit_word_eqI) (simp add: bit_simps)

lemma hex_str_read: "ucast (strtoul16 (hex_str h)) = h"
proof -
  have v: "digits_val 16 (hex_str h) = unat h" by (simp add: hex_str_def nat_digits_val)
  have "unat h < 2 ^ 32" using unsigned_less [of h, where ?'a = nat] by simp
  moreover have "hex_str h \<noteq> []" unfolding hex_str_def by (subst nat_digits.simps) auto
  moreover have "\<forall>c \<in> set (hex_str h). digit_val c < 16" by (auto simp: hex_str_def intro: nat_digits_digits)
  ultimately have "strtoul16 (hex_str h) = of_nat (unat h)" using v strtoul16_digits [of "hex_str h"] by simp
  then show ?thesis by (simp add: ucast_64_32)
qed

lemma hex_digit: "d < 16 \<Longrightarrow> digit_val (''0123456789ABCDEF'' ! d) = d"
proof -
  assume "d < 16"
  then have "d \<in> set [0..<16]" by simp
  moreover have "\<forall>d \<in> set [0..<16]. digit_val (''0123456789ABCDEF'' ! d) = d" by code_simp
  ultimately show ?thesis by blast
qed

lemma nibble: "unat ((drop_bit k h) AND 0xf) = (unat h div 2 ^ k) mod 16" for h :: u32
proof -
  have "(0xf :: u32) = mask 4" by (simp add: mask_eq_exp_minus_1)
  then have "(drop_bit k h) AND 0xf = take_bit 4 (drop_bit k h)" by (simp only: take_bit_eq_mask)
  then have "unat ((drop_bit k h) AND 0xf) = take_bit 4 (unat (drop_bit k h))" by (simp only: unsigned_take_bit_eq)
  moreover have "unat (drop_bit k h) = unat h div 2 ^ k"
    using unsigned_less [of h, where ?'a = nat] by (simp only: unsigned_drop_bit_eq) (simp add: take_bit_nat_eq_self drop_bit_eq_div)
  ultimately show ?thesis by (simp add: take_bit_eq_mod)
qed

lemma horner16: "N div (16 * k) * 16 + N div k mod 16 = N div k" for N k :: nat
  by (metis div_mult2_eq mult.commute div_mult_mod_eq)

definition nib :: "u32 \<Rightarrow> nat \<Rightarrow> char" where
  "nib h k = ''0123456789ABCDEF'' ! unat (drop_bit k h AND 0xf)"

lemma nib_val: "digit_val (nib h k) = unat h div 2 ^ k mod 16" "digit_val (nib h k) < 16"
  using hex_digit [of "unat (drop_bit k h AND 0xf)"] by (simp_all add: nib_def nibble)

lemma id_to_hex_nibs: "id_to_hex h = CHR '':'' # [nib h 28, nib h 24, nib h 20, nib h 16, nib h 12, nib h 8, nib h 4, nib h 0]"
  by (simp add: id_to_hex_def nib_def upt_rec)

lemma id_to_hex_read: "ucast (strtoul16 (drop 1 (id_to_hex h))) = h"
proof -
  let ?s = "drop 1 (id_to_hex h)" and ?N = "unat h"
  have N: "?N < 2 ^ 32" using unsigned_less [of h, where ?'a = nat] by simp
  have "?N div 2 ^ 28 < 16" using N by (simp add: less_mult_imp_div_less)
  then have top: "?N div 2 ^ 28 mod 16 = ?N div 2 ^ 28" by simp
  have "digits_val 16 ?s = ?N"
    using top horner16 [of ?N "2 ^ 28"] horner16 [of ?N "2 ^ 24"] horner16 [of ?N "2 ^ 20"] horner16 [of ?N "2 ^ 16"]
      horner16 [of ?N "2 ^ 12"] horner16 [of ?N "2 ^ 8"] horner16 [of ?N "2 ^ 4"] div_mult_mod_eq [of ?N 16]
    by (simp add: id_to_hex_nibs digits_val_def nib_val)
  then have "strtoul16 ?s = of_nat ?N"
    using N strtoul16_digits [of ?s] by (simp add: id_to_hex_nibs nib_val)
  then show ?thesis by (simp add: ucast_64_32)
qed

text \<open>
  The text of a handle. What \<open>LAUNCH\<close> returns (\<open>id_to_hex\<close>) and what \<open>REG\<close>, \<open>QUERY\<close> and \<open>MONITOR\<close>
  return (\<open>:%x\<close>) is read back to the same handle by \<open>skynet_queryname\<close> and by the commands that
  take an address, for every handle.
\<close>

theorem handle_text_roundtrip:
  "skynet_queryname sv n c (id_to_hex h) = Inr (n, h) \<and> tohandle sv n c (id_to_hex h) = Inr (n, h)
   \<and> skynet_queryname sv n c ('':'' @ hex_str h) = Inr (n, h) \<and> tohandle sv n c ('':'' @ hex_str h) = Inr (n, h)"
proof -
  have "take 1 (id_to_hex h) = '':''" by (simp add: id_to_hex_def)
  then show ?thesis
    using id_to_hex_read [of h] hex_str_read [of h] by (simp add: skynet_queryname_def tohandle_def)
qed

section \<open>Sessions\<close>

text \<open>The results of \<open>k\<close> calls of \<open>skynet_context_newsession\<close>.\<close>

fun newsessions :: "nat \<Rightarrow> node \<Rightarrow> cptr \<Rightarrow> (node \<times> int list) res" where
  "newsessions 0 n c = Inr (n, [])"
| "newsessions (Suc k) n c =
     cbind (skynet_context_newsession n c) (\<lambda>(n, s). cbind (newsessions k n c) (\<lambda>(n, ss). Inr (n, s # ss)))"

definition session_after :: "nat \<Rightarrow> nat \<Rightarrow> nat" where
  "session_after s i = (s + i) mod (2 ^ 31 - 1) + 1"

lemma sint_small: "unat w < 2 ^ 31 \<Longrightarrow> sint w = int (unat w)" for w :: u32
proof -
  assume "unat w < 2 ^ 31"
  then have "int (unat w) < int (2 ^ 31)" by (simp only: of_nat_less_iff)
  then have "uint w < 2 ^ 31" by simp
  moreover have "- (2 ^ 31) \<le> uint w" by (rule order_trans [of _ 0]) simp_all
  ultimately have "signed_take_bit 31 (uint w) = uint w" by (rule signed_take_bit_int_eq_self [rotated])
  then show ?thesis by (simp add: sint_uint)
qed

lemma newsession_step:
  assumes "n_ctxs n c = Some x" "unat (c_session_id x) < 2 ^ 31"
  shows "\<exists>x'. skynet_context_newsession n c = Inr (set_ctx n c x', int (session_after (unat (c_session_id x)) 0))
    \<and> unat (c_session_id x') = session_after (unat (c_session_id x)) 0"
proof (cases "unat (c_session_id x) = 2 ^ 31 - 1")
  case True
  then have "c_session_id x = 0x7fffffff" by (simp add: word_unat_eq_iff)
  then have "sint (c_session_id x + 1) < 0" by simp
  then show ?thesis using assms True by (auto simp: skynet_context_newsession_def ctx_at_def deref_Some session_after_def)
next
  case False
  then have u: "unat (c_session_id x + 1) = unat (c_session_id x) + 1" using assms(2) by (simp add: unat_word_ariths)
  then have "sint (c_session_id x + 1) = int (unat (c_session_id x) + 1)" using False assms(2) by (subst sint_small) simp_all
  moreover have "session_after (unat (c_session_id x)) 0 = unat (c_session_id x) + 1" using False assms(2) by (simp add: session_after_def)
  ultimately show ?thesis using assms(1) u
    by (intro exI [of _ "x\<lparr>c_session_id := c_session_id x + 1\<rparr>"]) (simp add: skynet_context_newsession_def ctx_at_def deref_Some Let_def add_pos_nonneg not_le)
qed

lemma set_ctx_same [simp]: "set_ctx (set_ctx n c x) c y = set_ctx n c y" "n_ctxs (set_ctx n c x) = (n_ctxs n)(c \<mapsto> x)"
  by (simp_all add: set_ctx_def)

lemma session_after_next: "session_after (session_after s 0) i = session_after s (Suc i)"
  using mod_add_left_eq [of s "2 ^ 31 - 1" "Suc i"] by (simp add: session_after_def)

lemma session_after_bound: "session_after s i < 2 ^ 31"
proof -
  have "(s + i) mod (2 ^ 31 - 1) < 2 ^ 31 - 1" by (rule mod_less_divisor) simp
  then show ?thesis by (simp add: session_after_def)
qed

lemma newsessions_eq:
  assumes "n_ctxs n c = Some x" "unat (c_session_id x) < 2 ^ 31"
  shows "\<exists>n'. newsessions k n c = Inr (n', map (\<lambda>i. int (session_after (unat (c_session_id x)) i)) [0..<k])"
  using assms
proof (induction k arbitrary: n x)
  case (Suc k)
  from newsession_step [OF Suc.prems] obtain x1 where
    x1: "skynet_context_newsession n c = Inr (set_ctx n c x1, int (session_after (unat (c_session_id x)) 0))"
    "unat (c_session_id x1) = session_after (unat (c_session_id x)) 0" by blast
  have "n_ctxs (set_ctx n c x1) c = Some x1" by simp
  from Suc.IH [OF this] x1(2) session_after_bound [of "unat (c_session_id x)" 0] obtain n' where
    "newsessions k (set_ctx n c x1) c = Inr (n', map (\<lambda>i. int (session_after (unat (c_session_id x)) (Suc i))) [0..<k])"
    by (auto simp: session_after_next)
  then show ?case using x1(1) by (simp add: map_upt_Cons del: upt_Suc)
qed simp

lemma session_after_inj_le:
  assumes "i \<le> j" "j < 2 ^ 31 - 1" "session_after s i = session_after s j"
  shows "i = j"
proof -
  have "(s + j) mod (2 ^ 31 - 1) = (s + i) mod (2 ^ 31 - 1)" using assms(3) by (simp add: session_after_def)
  then have "2 ^ 31 - 1 dvd j - i" using mod_eq_dvd_iff_nat [of "s + i" "s + j" "2 ^ 31 - 1"] assms(1) by simp
  then show ?thesis using assms(1,2) by (auto dest: dvd_imp_le)
qed

lemma session_after_inj: "i < 2 ^ 31 - 1 \<Longrightarrow> j < 2 ^ 31 - 1 \<Longrightarrow> session_after s i = session_after s j \<Longrightarrow> i = j"
  using session_after_inj_le [of i j s] session_after_inj_le [of j i s] by (cases "i \<le> j") auto

text \<open>
  C19. The sessions a service gets. From any session number a context can hold, the numbers
  \<open>skynet_context_newsession\<close> returns are positive, and any \<open>2 ^ 31 - 1\<close> consecutive ones, across the
  wrap-around of the counter, are pairwise different: a reply is never matched to another pending request.
\<close>

theorem newsession_unique:
  assumes "n_ctxs n c = Some x" "unat (c_session_id x) < 2 ^ 31" "k \<le> 2 ^ 31 - 1"
  shows "\<exists>n' ss. newsessions k n c = Inr (n', ss) \<and> length ss = k \<and> distinct ss \<and> (\<forall>s \<in> set ss. 0 < s \<and> s < 2 ^ 31)"
proof -
  obtain n' where "newsessions k n c = Inr (n', map (\<lambda>i. int (session_after (unat (c_session_id x)) i)) [0..<k])"
    using newsessions_eq [OF assms(1,2)] by blast
  moreover have "inj_on (\<lambda>i. int (session_after (unat (c_session_id x)) i)) {0..<k}"
    using assms(3) session_after_inj by (intro inj_onI) (simp add: less_le_trans)
  moreover have "0 < int (session_after s i) \<and> int (session_after s i) < 2 ^ 31" for s i
    using session_after_bound [of s i] by (simp add: session_after_def)
  ultimately show ?thesis by (auto simp: distinct_map)
qed

section \<open>Messages\<close>

lemma MESSAGE_TYPE_MASK_mask: "MESSAGE_TYPE_MASK = mask 56"
  unfolding MESSAGE_TYPE_MASK_def by (rule bit_word_eqI) (auto simp: bit_simps)

lemma not_too_large: "\<not> too_large len \<longleftrightarrow> take_bit 56 len = len"
  by (simp add: too_large_def MESSAGE_TYPE_MASK_mask take_bit_eq_mask)

text \<open>The type goes into the top byte of the size and comes out of it again.\<close>

lemma type_in_size:
  assumes "\<not> too_large len"
  shows "uint (drop_bit MESSAGE_TYPE_SHIFT (len OR push_bit MESSAGE_TYPE_SHIFT (word_of_int (type AND 0xff)))) = type AND 0xff"
    "(len OR push_bit MESSAGE_TYPE_SHIFT (word_of_int (type AND 0xff))) AND MESSAGE_TYPE_MASK = len"
proof -
  define w where "w = (word_of_int (type AND 0xff) :: u64)"
  have ff: "(0xff :: int) = mask 8" by (simp add: mask_eq_exp_minus_1)
  have wu: "uint w = type AND 0xff"
    unfolding w_def ff by (simp add: take_bit_eq_mask [symmetric] uint_word_of_int_eq min_def)
  have w8: "take_bit 8 w = w"
    unfolding w_def ff by (rule bit_word_eqI) (auto simp: bit_simps)
  have l: "\<not> bit len k" if "56 \<le> k" for k
    using that assms unfolding not_too_large by (metis bit_take_bit_iff not_less)
  have wb: "k < 8" if "bit w k" for k using that w8 by (metis bit_take_bit_iff)
  have "drop_bit 56 (len OR push_bit 56 w) = w"
    by (rule bit_word_eqI) (auto simp: bit_simps l dest: wb)
  then show "uint (drop_bit MESSAGE_TYPE_SHIFT (len OR push_bit MESSAGE_TYPE_SHIFT (word_of_int (type AND 0xff)))) = type AND 0xff"
    by (simp add: MESSAGE_TYPE_SHIFT_def w_def [symmetric] wu)
  have "take_bit 56 (len OR push_bit 56 w) = len"
    by (rule bit_word_eqI) (auto simp: bit_simps l not_less)
  then show "(len OR push_bit MESSAGE_TYPE_SHIFT (word_of_int (type AND 0xff))) AND MESSAGE_TYPE_MASK = len"
    by (simp add: MESSAGE_TYPE_SHIFT_def MESSAGE_TYPE_MASK_mask take_bit_eq_mask w_def)
qed

section \<open>Pushing a message to a handle\<close>

text \<open>The handle finds the context \<open>c\<close>, which is referenced and has its queue \<open>q\<close>.\<close>

definition reaches :: "node \<Rightarrow> u32 \<Rightarrow> cptr \<Rightarrow> qptr \<Rightarrow> bool" where
  "reaches n h c q \<longleftrightarrow>
     handle_lookup (skynet_context_handle n) (n_storage n) h = Inr (Some c)
     \<and> (\<exists>x. n_ctxs n c = Some x \<and> 1 \<le> c_ref x \<and> c_queue x = Some q)"

lemma set_ctx_id: "n_ctxs n c = Some x \<Longrightarrow> (set_ctx m c x)\<lparr>n_ctxs := n_ctxs n\<rparr> = m\<lparr>n_ctxs := n_ctxs n\<rparr>"
  by (simp add: set_ctx_def)

lemma context_push_live:
  assumes r: "reaches n h c q" and g: "skynet_mq_push (n_gq n) q msg = Inr g"
  shows "skynet_context_push sv n h msg = Inr (n\<lparr>n_gq := g\<rparr>, 0)"
proof -
  obtain x where x: "handle_lookup (skynet_context_handle n) (n_storage n) h = Inr (Some c)" "n_ctxs n c = Some x"
    "1 \<le> c_ref x" "c_queue x = Some q" using r by (auto simp: reaches_def)
  have "skynet_handle_grab n h = Inr (set_ctx n c (x\<lparr>c_ref := c_ref x + 1\<rparr>), Some c)"
    using x by (simp add: skynet_handle_grab_def skynet_context_grab_def ctx_at_def deref_Some)
  moreover have "push_to (set_ctx n c (x\<lparr>c_ref := c_ref x + 1\<rparr>)) c msg = Inr ((set_ctx n c (x\<lparr>c_ref := c_ref x + 1\<rparr>))\<lparr>n_gq := g\<rparr>)"
    using x g by (simp add: push_to_def ctx_at_def set_ctx_def ctx_queue_def deref_Some)
  moreover have "skynet_context_release sv ((set_ctx n c (x\<lparr>c_ref := c_ref x + 1\<rparr>))\<lparr>n_gq := g\<rparr>) c = Inr (n\<lparr>n_gq := g\<rparr>)"
    using x(2,3) by (auto simp: skynet_context_release_def ctx_at_def set_ctx_def deref_Some Let_def fun_upd_idem_iff intro!: node.equality)
  ultimately show ?thesis by (simp add: skynet_context_push_def)
qed

lemma context_push_dead:
  "handle_lookup (skynet_context_handle n) (n_storage n) h = Inr None \<Longrightarrow> skynet_context_push sv n h msg = Inr (n, -1)"
  by (simp add: skynet_context_push_def skynet_handle_grab_def)

text \<open>The queue of the receiver takes the message.\<close>

definition accepts :: "node \<Rightarrow> qptr list \<Rightarrow> qptr \<Rightarrow> message_queue \<Rightarrow> bool" where
  "accepts n ps q mq \<longleftrightarrow> global_wf (n_gq n) ps \<and> mqs (n_gq n) q = Some mq \<and> mq_wf mq
     \<and> Suc (skynet_mq_length mq) < 2 ^ 30 \<and> (mq_in_global mq = 0 \<longrightarrow> q \<notin> set ps)"

definition messages :: "node \<Rightarrow> qptr \<Rightarrow> skynet_message list" where
  "messages n q = (case mqs (n_gq n) q of None \<Rightarrow> [] | Some mq \<Rightarrow> mq_contents mq)"

lemma messages_qview: "messages n q = (case qview (n_gq n) q of None \<Rightarrow> [] | Some mq \<Rightarrow> mq_contents mq)"
  by (simp add: messages_def qview_def split: option.splits)

lemma push_delivers:
  assumes "reaches n h c q" "accepts n ps q mq"
  shows "\<exists>g. skynet_context_push sv n h msg = Inr (n\<lparr>n_gq := g\<rparr>, 0)
    \<and> messages (n\<lparr>n_gq := g\<rparr>) q = messages n q @ [msg] \<and> (\<forall>p. p \<noteq> q \<longrightarrow> messages (n\<lparr>n_gq := g\<rparr>) p = messages n p)"
proof -
  from mq_push_ok [of "n_gq n" ps q mq msg] assms(2) obtain g q' where
    g: "skynet_mq_push (n_gq n) q msg = Inr g" "qview g = (qview (n_gq n))(q \<mapsto> q')" "mq_contents q' = mq_contents mq @ [msg]"
    by (auto simp: accepts_def)
  have "messages n q = mq_contents mq" using assms(2) by (simp add: accepts_def messages_def)
  then show ?thesis using context_push_live [OF assms(1) g(1)] g by (auto simp: messages_qview)
qed


section \<open>skynet_send\<close>

text \<open>What the caller passes as data: nothing, or a block with the bytes of the message.\<close>

definition payload :: "node \<Rightarrow> nat \<Rightarrow> u64 \<Rightarrow> u8 list \<Rightarrow> bool" where
  "payload n data len bs \<longleftrightarrow> data = 0 \<or> n_mem n data = Some (Bytes bs) \<and> unat len \<le> length bs"

definition copies :: "int \<Rightarrow> nat \<Rightarrow> bool" where
  "copies type data \<longleftrightarrow> type AND PTYPE_TAG_DONTCOPY = 0 \<and> data \<noteq> 0"

lemma copies_0 [simp]: "\<not> copies type 0"
  by (simp add: copies_def)

lemma filter_args_plain:
  assumes "type AND PTYPE_TAG_ALLOCSESSION = 0" "payload n data len bs"
  shows "filter_args n ctx type sess data len =
    (let (n', p) = (if copies type data then skynet_malloc n (Bytes (take (unat len) bs @ [0])) else (n, data)) in
     Inr (n', sess, p, len OR push_bit MESSAGE_TYPE_SHIFT (word_of_int (type AND 0xff))))"
  using assms by (auto simp: filter_args_def copies_def payload_def read_bytes_def deref_Some skynet_malloc_def)

lemma handle_keeps [simp]: "skynet_context_handle (n\<lparr>n_mem := m\<rparr>) = skynet_context_handle n"
  "skynet_context_handle (n\<lparr>n_brk := b\<rparr>) = skynet_context_handle n" "skynet_context_handle (n\<lparr>n_gq := g\<rparr>) = skynet_context_handle n"
  "skynet_context_handle (n\<lparr>n_storage := s\<rparr>) = skynet_context_handle n" "skynet_context_handle (n\<lparr>n_total := t\<rparr>) = skynet_context_handle n"
  by (simp_all add: skynet_context_handle_def fun_eq_iff)

lemma malloc_keeps [simp]:
  "messages (n\<lparr>n_mem := m, n_brk := b\<rparr>) = messages n"
  "reaches (n\<lparr>n_mem := m, n_brk := b\<rparr>) = reaches n"
  "accepts (n\<lparr>n_mem := m, n_brk := b\<rparr>) = accepts n"
  "skynet_harbor_message_isremote (n\<lparr>n_mem := m, n_brk := b\<rparr>) = skynet_harbor_message_isremote n"
  "context_source (n\<lparr>n_mem := m, n_brk := b\<rparr>) = context_source n"
  by (auto simp: fun_eq_iff messages_def reaches_def accepts_def skynet_harbor_message_isremote_def context_source_def
        ctx_at_def split: option.splits)

text \<open>The message \<open>skynet_send\<close> makes of its arguments, with its data at \<open>p\<close>.\<close>

definition sent_message :: "u32 \<Rightarrow> int \<Rightarrow> int \<Rightarrow> u64 \<Rightarrow> nat \<Rightarrow> skynet_message" where
  "sent_message src type sess len p = \<lparr>source = src, session = sess, msg_data = p,
     sz = len OR push_bit MESSAGE_TYPE_SHIFT (word_of_int (type AND 0xff))\<rparr>"

lemma send_delivers:
  assumes "reaches n dest d q" "accepts n ps q mq" "dest \<noteq> 0"
    and "skynet_harbor_message_isremote n dest = Inr False"
    and "\<not> too_large len" "type AND PTYPE_TAG_ALLOCSESSION = 0" "payload n data len bs"
    and "if src = 0 then context_source n ctx = Inr src' else src' = src"
    and "n_mem n (n_brk n) = None" "0 < n_brk n"
  shows "\<exists>n' p. skynet_send sv n ctx src dest type sess data len = Inr (n', sess)
    \<and> messages n' q = messages n q @ [sent_message src' type sess len p]
    \<and> (\<forall>r. r \<noteq> q \<longrightarrow> messages n' r = messages n r)
    \<and> msg_type (sent_message src' type sess len p) = type AND 0xff \<and> msg_size (sent_message src' type sess len p) = len
    \<and> (if copies type data then n_mem n p = None \<and> n_mem n' = (n_mem n)(p \<mapsto> Bytes (take (unat len) bs @ [0]))
       else p = data \<and> n_mem n' = n_mem n) \<and> n_ctxs n' = n_ctxs n"
proof -
  let ?n1 = "if copies type data then fst (skynet_malloc n (Bytes (take (unat len) bs @ [0]))) else n"
  let ?p = "if copies type data then n_brk n else data"
  have f: "filter_args n ctx type sess data len = Inr (?n1, sess, ?p, len OR push_bit MESSAGE_TYPE_SHIFT (word_of_int (type AND 0xff)))"
    using filter_args_plain [OF assms(6,7)] by (simp add: skynet_malloc_def)
  have r1: "reaches ?n1 dest d q" "accepts ?n1 ps q mq" "skynet_harbor_message_isremote ?n1 dest = Inr False"
    "(if src = 0 then context_source ?n1 ctx else Inr src) = Inr src'" "messages ?n1 = messages n"
    using assms(1,2,4,8) by (auto simp: skynet_malloc_def split: if_splits)
  from push_delivers [OF r1(1,2), of sv "sent_message src' type sess len ?p"] obtain g where
    g: "skynet_context_push sv ?n1 dest (sent_message src' type sess len ?p) = Inr (?n1\<lparr>n_gq := g\<rparr>, 0)"
    "messages (?n1\<lparr>n_gq := g\<rparr>) q = messages ?n1 q @ [sent_message src' type sess len ?p]"
    "\<forall>r. r \<noteq> q \<longrightarrow> messages (?n1\<lparr>n_gq := g\<rparr>) r = messages ?n1 r" by blast
  have "skynet_send sv n ctx src dest type sess data len = Inr (?n1\<lparr>n_gq := g\<rparr>, sess)"
    using assms(3,5) f r1(3,4) g(1) by (simp add: skynet_send_def sent_message_def)
  moreover have "msg_type (sent_message src' type sess len ?p) = type AND 0xff" "msg_size (sent_message src' type sess len ?p) = len"
    using type_in_size [OF assms(5)] by (simp_all add: sent_message_def msg_type_def msg_size_def)
  moreover have "if copies type data then n_mem n ?p = None \<and> n_mem (?n1\<lparr>n_gq := g\<rparr>) = (n_mem n)(?p \<mapsto> Bytes (take (unat len) bs @ [0]))
       else ?p = data \<and> n_mem (?n1\<lparr>n_gq := g\<rparr>) = n_mem n" using assms(9) by (simp add: skynet_malloc_def)
  moreover have "n_ctxs (?n1\<lparr>n_gq := g\<rparr>) = n_ctxs n" by (simp add: skynet_malloc_def)
  ultimately show ?thesis using g(2,3) r1(5) by (intro exI [of _ "?n1\<lparr>n_gq := g\<rparr>"] exI [of _ ?p]) simp
qed


text \<open>
  Sending to a handle nobody has. \<open>skynet_send\<close> returns -1, no queue changes, and no memory is
  lost or freed twice: the copy it made is given back, and a block passed with \<open>PTYPE_TAG_DONTCOPY\<close>
  is freed for the caller.
\<close>

theorem skynet_send_unknown_frees:
  assumes "handle_lookup (skynet_context_handle n) (n_storage n) dest = Inr None" "dest \<noteq> 0"
    and "skynet_harbor_message_isremote n dest = Inr False"
    and "\<not> too_large len" "type AND PTYPE_TAG_ALLOCSESSION = 0" "payload n data len bs"
    and "if src = 0 then context_source n ctx = Inr src' else src' = src"
    and "n_mem n (n_brk n) = None" "0 < n_brk n"
  shows "\<exists>n'. skynet_send sv n ctx src dest type sess data len = Inr (n', -1) \<and> messages n' = messages n
    \<and> n_ctxs n' = n_ctxs n \<and> n_mem n' = (if copies type data \<or> data = 0 then n_mem n else (n_mem n)(data := None))"
proof -
  let ?n1 = "if copies type data then fst (skynet_malloc n (Bytes (take (unat len) bs @ [0]))) else n"
  let ?p = "if copies type data then n_brk n else data"
  have f: "filter_args n ctx type sess data len = Inr (?n1, sess, ?p, len OR push_bit MESSAGE_TYPE_SHIFT (word_of_int (type AND 0xff)))"
    using filter_args_plain [OF assms(5,6)] by (simp add: skynet_malloc_def)
  have r1: "skynet_context_push sv ?n1 dest m = Inr (?n1, -1)" "skynet_harbor_message_isremote ?n1 dest = Inr False"
    "(if src = 0 then context_source ?n1 ctx else Inr src) = Inr src'" for m
    using assms(1,3,7) by (auto intro!: context_push_dead simp: skynet_malloc_def split: if_splits)
  have "\<exists>n'. skynet_free ?n1 ?p = Inr n' \<and> messages n' = messages n \<and> n_ctxs n' = n_ctxs n
      \<and> n_mem n' = (if copies type data \<or> data = 0 then n_mem n else (n_mem n)(data := None))"
    using assms(6,8,9) by (auto simp: skynet_free_def skynet_malloc_def payload_def deref_Some messages_def fun_eq_iff)
  then show ?thesis using assms(2,4) f r1 by (auto simp: skynet_send_def)
qed

text \<open>A node with one service for the witnesses.\<close>

definition demo_node :: node where
  "demo_node = node_init 1 [] timer_create_timer False (\<lambda>_. None)"

lemma demo_setup:
  "\<exists>n. context_setup demo_node 0 9 = Inr (n, 1, 0x1000001, 2) \<and> reaches n 0x1000001 1 2
    \<and> accepts n [] 2 (mq_new 0x1000001) \<and> n_mem n = (\<lambda>_. None) \<and> n_brk n = 3
    \<and> skynet_harbor_message_isremote n 0x1000001 = Inr False \<and> context_source n (Some 1) = Inr 0x1000001 \<and> messages n 2 = []
    \<and> (\<forall>s. s \<noteq> 0x1000001 \<longrightarrow> handle_lookup (skynet_context_handle n) (n_storage n) s = Inr None)
    \<and> skynet_harbor_message_isremote n 0x1000009 = Inr False \<and> (\<forall>p. mqs (n_gq n) p = (if p = 2 then Some (mq_new 0x1000001) else None))"
proof -
  have r: "skynet_handle_register ch (skynet_handle_init 1) 1 =
      Inr ((skynet_handle_init 1)\<lparr>slot := [None, Some 1, None, None], handle_index := 2\<rparr>, 0x1000001)" for ch
    by (subst skynet_handle_register.simps)
      (simp add: skynet_handle_init_def DEFAULT_SLOT_SIZE_def slot_hash_def slot_at_def HANDLE_MASK_def HANDLE_REMOTE_SHIFT_def eval_nat_numeral)
  have g: "global_wf (skynet_mq_create skynet_mq_init 2 0x1000001) []"
    by (auto simp: global_wf_def skynet_mq_create_def skynet_mq_init_def upd_mq_def mq_new_def)
  let ?x = "(new_context demo_node 0 9)\<lparr>c_handle := 0x1000001, c_queue := Some 2\<rparr>"
  let ?n = "demo_node\<lparr>n_brk := 3, n_ctxs := [1 \<mapsto> ?x], n_total := 1,
      n_storage := (skynet_handle_init 1)\<lparr>slot := [None, Some 1, None, None], handle_index := 2\<rparr>,
      n_gq := skynet_mq_create skynet_mq_init 2 0x1000001\<rparr>"
  have "context_setup demo_node 0 9 = Inr (?n, 1, 0x1000001, 2)"
    by (simp add: context_setup_def demo_node_def node_init_def skynet_harbor_init_def r [unfolded One_nat_def]
        set_ctx_def Let_def context_inc_def numeral_2_eq_2 numeral_3_eq_3)
  moreover have "handle_lookup (skynet_context_handle ?n) (n_storage ?n) s = Inr None" if "s \<noteq> 0x1000001" for s
  proof -
    have h: "slot_hash (n_storage ?n) s < 4"
      using and_pow2_mask [of 2 s] by (simp add: slot_hash_def skynet_handle_init_def DEFAULT_SLOT_SIZE_def)
    then consider "slot_hash (n_storage ?n) s = 0" | "slot_hash (n_storage ?n) s = 1" | "slot_hash (n_storage ?n) s = 2"
      | "slot_hash (n_storage ?n) s = 3" by linarith
    then show ?thesis using that by cases (auto simp: handle_lookup_def slot_at_def skynet_context_handle_def)
  qed
  moreover have "mqs (n_gq ?n) p = (if p = 2 then Some (mq_new 0x1000001) else None)" for p
    by (simp add: skynet_mq_create_def upd_mq_def skynet_mq_init_def)
  moreover have "reaches ?n 0x1000001 1 2"
    by (simp_all add: reaches_def handle_lookup_def slot_hash_def slot_at_def skynet_handle_init_def DEFAULT_SLOT_SIZE_def
        skynet_context_handle_def new_context_def)
  moreover have "accepts ?n [] 2 (mq_new 0x1000001)"
    using g mq_new_wf [of "0x1000001"] by (simp add: accepts_def skynet_mq_create_def skynet_mq_length_def mq_new_def)
  moreover have "skynet_harbor_message_isremote ?n 0x1000001 = Inr False" "skynet_harbor_message_isremote ?n 0x1000009 = Inr False"
    by (simp_all add: skynet_harbor_message_isremote_def demo_node_def node_init_def skynet_harbor_init_def HANDLE_REMOTE_SHIFT_def HANDLE_MASK_def)
  moreover have "context_source ?n (Some 1) = Inr 0x1000001" "messages ?n 2 = []" "n_mem ?n = (\<lambda>_. None)"
    by (simp_all add: context_source_def ctx_at_def deref_Some messages_def skynet_mq_create_def demo_node_def node_init_def skynet_harbor_init_def)
  ultimately show ?thesis by (intro exI [of _ ?n]) simp
qed


theorem skynet_send_unknown_frees_witness:
  "\<exists>sv n n' data. n_mem n data \<noteq> None \<and> skynet_send sv n (Some 1) 0 0x1000009 (10 OR PTYPE_TAG_DONTCOPY) 5 data 3 = Inr (n', -1)
    \<and> n_mem n' data = None"
proof -
  obtain n where n: "n_mem n = (\<lambda>_. None)" "n_brk n = 3" "skynet_harbor_message_isremote n 0x1000009 = Inr False"
    "context_source n (Some 1) = Inr 0x1000001" "\<forall>s. s \<noteq> 0x1000001 \<longrightarrow> handle_lookup (skynet_context_handle n) (n_storage n) s = Inr None"
    using demo_setup by blast
  let ?n = "n\<lparr>n_mem := [3 \<mapsto> Bytes [7, 8, 9]], n_brk := 4\<rparr>" and ?t = "10 OR PTYPE_TAG_DONTCOPY"
  have c: "\<not> copies ?t 3" "payload ?n 3 3 [7, 8, 9]" "\<not> too_large 3" "?t AND PTYPE_TAG_ALLOCSESSION = 0"
    by (simp_all add: copies_def payload_def PTYPE_TAG_DONTCOPY_def PTYPE_TAG_ALLOCSESSION_def too_large_def MESSAGE_TYPE_MASK_mask mask_eq_exp_minus_1)
  obtain n' where "skynet_send undefined ?n (Some 1) 0 0x1000009 ?t 5 3 3 = Inr (n', -1)" "n_mem n' = (n_mem ?n)(3 := None)"
    using skynet_send_unknown_frees [of ?n "0x1000009" 3 ?t 3 "[7, 8, 9]" 0 "Some 1" "0x1000001" undefined 5] n c by auto
  then show ?thesis by (intro exI [of _ undefined] exI [of _ ?n] exI [of _ n'] exI [of _ 3]) simp
qed

theorem newsession_unique_witness:
  "\<exists>n n' ss. newsessions 3 n 1 = Inr (n', ss) \<and> length ss = 3 \<and> distinct ss"
proof -
  let ?x = "(new_context demo_node 0 9)\<lparr>c_session_id := 0x7ffffffe\<rparr>"
  have x: "n_ctxs (set_ctx demo_node 1 ?x) 1 = Some ?x" "unat (c_session_id ?x) < 2 ^ 31" by simp_all
  from newsession_unique [OF x, of 3] show ?thesis by auto
qed

section \<open>Messages of a service that is gone\<close>

text \<open>The queue of the service a handle belongs to.\<close>

definition target :: "node \<Rightarrow> u32 \<Rightarrow> qptr option" where
  "target n s =
     (if s = 0 then None
      else case handle_lookup (skynet_context_handle n) (n_storage n) s of
             Inr (Some c) \<Rightarrow> (case n_ctxs n c of None \<Rightarrow> None | Some x \<Rightarrow> c_queue x)
           | _ \<Rightarrow> None)"

text \<open>
  A state in which queue \<open>q\<close> can be emptied: it is not in the global list and belongs to no context,
  and the queues of all services have room for \<open>k\<close> more messages.
\<close>

definition receiver :: "node \<Rightarrow> qptr list \<Rightarrow> qptr \<Rightarrow> nat \<Rightarrow> u32 \<Rightarrow> cptr \<Rightarrow> qptr \<Rightarrow> message_queue \<Rightarrow> bool" where
  "receiver n ps q k s c p mq \<longleftrightarrow> reaches n s c p \<and> p \<noteq> q \<and> qview (n_gq n) p = Some mq \<and> mq_wf mq
     \<and> skynet_mq_length mq + k < 2 ^ 30 \<and> (mq_in_global mq = 0 \<longrightarrow> p \<notin> set ps)"

definition drainable :: "node \<Rightarrow> qptr list \<Rightarrow> qptr \<Rightarrow> nat \<Rightarrow> bool" where
  "drainable n ps q k \<longleftrightarrow>
     global_wf (n_gq n) ps \<and> q \<notin> set ps \<and> (\<exists>mq. qview (n_gq n) q = Some mq \<and> mq_wf mq)
     \<and> (\<forall>s. handle_lookup (skynet_context_handle n) (n_storage n) s = Inr None
          \<or> (\<exists>c p mq. receiver n ps q k s c p mq))"

definition freed :: "(nat \<Rightarrow> block option) \<Rightarrow> skynet_message \<Rightarrow> (nat \<Rightarrow> block option)" where
  "freed mem m = (if msg_data m = 0 then mem else mem(msg_data m := None))"

fun data_ok :: "(nat \<Rightarrow> block option) \<Rightarrow> skynet_message list \<Rightarrow> bool" where
  "data_ok mem [] = True"
| "data_ok mem (m # ms) =
     ((msg_data m = 0 \<or> mem (msg_data m) \<noteq> None) \<and> data_ok (freed mem m) ms)"

fun free_all :: "(nat \<Rightarrow> block option) \<Rightarrow> skynet_message list \<Rightarrow> (nat \<Rightarrow> block option)" where
  "free_all mem [] = mem"
| "free_all mem (m # ms) = free_all (freed mem m) ms"

definition error_reply :: "u32 \<Rightarrow> skynet_message \<Rightarrow> skynet_message" where
  "error_reply h m = sent_message h (int PTYPE_ERROR) (session m) 0 0"

lemma reaches_gq [simp]: "reaches (n\<lparr>n_gq := g\<rparr>) = reaches n" "reaches (n\<lparr>n_mem := mm\<rparr>) = reaches n"
  by (auto simp: fun_eq_iff reaches_def)

lemma target_gq [simp]: "target (n\<lparr>n_gq := g\<rparr>) = target n" "target (n\<lparr>n_mem := mm\<rparr>) = target n"
  by (auto simp: fun_eq_iff target_def split: sum.split option.split)

lemma isremote_gq [simp]: "skynet_harbor_message_isremote (n\<lparr>n_gq := g\<rparr>) = skynet_harbor_message_isremote n"
  "skynet_harbor_message_isremote (n\<lparr>n_mem := mm\<rparr>) = skynet_harbor_message_isremote n"
  by (auto simp: fun_eq_iff skynet_harbor_message_isremote_def)

lemma reaches_target: "reaches n s c p \<Longrightarrow> s \<noteq> 0 \<Longrightarrow> target n s = Some p"
  by (auto simp: reaches_def target_def)

lemma filter_args_empty: "filter_args n None (int PTYPE_ERROR) sess 0 0 =
    Inr (n, sess, 0, push_bit MESSAGE_TYPE_SHIFT (word_of_int (int PTYPE_ERROR AND 0xff)))"
  using filter_args_plain [of "int PTYPE_ERROR" n 0 0 "[]" None sess]
  by (simp add: payload_def PTYPE_TAG_ALLOCSESSION_def PTYPE_ERROR_def)

text \<open>The reply to a sender: nothing when there is none, a message in its queue when it is alive.\<close>

lemma send_error_none:
  assumes "h \<noteq> 0" "s = 0 \<or> skynet_harbor_message_isremote n s = Inr False \<and> handle_lookup (skynet_context_handle n) (n_storage n) s = Inr None"
  shows "\<exists>r. skynet_send sv n None h s (int PTYPE_ERROR) sess 0 0 = Inr (n, r)"
  using assms by (cases "s = 0") (auto simp: skynet_send_def too_large_def filter_args_empty context_push_dead skynet_free_def)

lemma send_error_live:
  assumes "h \<noteq> 0" "s \<noteq> 0" "skynet_harbor_message_isremote n s = Inr False" "reaches n s c p"
    "skynet_mq_push (n_gq n) p (sent_message h (int PTYPE_ERROR) sess 0 0) = Inr g"
  shows "skynet_send sv n None h s (int PTYPE_ERROR) sess 0 0 = Inr (n\<lparr>n_gq := g\<rparr>, sess)"
  using assms context_push_live [OF assms(4,5)]
  by (simp add: skynet_send_def too_large_def filter_args_empty sent_message_def)

lemma drainableI:
  assumes "global_wf (n_gq n) ps" "q \<notin> set ps" "\<exists>mq. qview (n_gq n) q = Some mq \<and> mq_wf mq"
    "\<And>s. handle_lookup (skynet_context_handle n) (n_storage n) s \<noteq> Inr None \<Longrightarrow> \<exists>c p mq. receiver n ps q k s c p mq"
  shows "drainable n ps q k"
  unfolding drainable_def using assms by blast

lemma drainable_receiver:
  "drainable n ps q k \<Longrightarrow> handle_lookup (skynet_context_handle n) (n_storage n) s \<noteq> Inr None \<Longrightarrow> \<exists>c p mq. receiver n ps q k s c p mq"
  unfolding drainable_def by blast

lemma receiver_less: "receiver n ps q (Suc k) s c p mq \<Longrightarrow> receiver n ps q k s c p mq"
  by (simp add: receiver_def)

lemma drainable_less: "drainable n ps q (Suc k) \<Longrightarrow> drainable n ps q k"
  unfolding drainable_def by (metis receiver_less)

lemma push_drainable:
  assumes d: "drainable n ps q (Suc k)" and rc: "receiver n ps q (Suc k) s c p mq"
  shows "\<exists>g ps'. skynet_mq_push (n_gq n) p msg = Inr g \<and> drainable (n\<lparr>n_gq := g\<rparr>) ps' q k \<and> qview g q = qview (n_gq n) q
    \<and> messages (n\<lparr>n_gq := g\<rparr>) p = messages n p @ [msg] \<and> (\<forall>p'. p' \<noteq> p \<longrightarrow> messages (n\<lparr>n_gq := g\<rparr>) p' = messages n p')"
proof -
  have r: "reaches n s c p" "p \<noteq> q" "qview (n_gq n) p = Some mq" "mq_wf mq"
    "skynet_mq_length mq + Suc k < 2 ^ 30" "mq_in_global mq = 0 \<longrightarrow> p \<notin> set ps" using rc by (auto simp: receiver_def)
  obtain mq0 where mq0: "mqs (n_gq n) p = Some mq0" "mq = mq0\<lparr>mq_next := None\<rparr>" using r(3) by (auto simp: qview_def)
  have wf: "global_wf (n_gq n) ps" "q \<notin> set ps" using d by (auto simp: drainable_def)
  from mq_push_ok [OF wf(1) mq0(1), of msg] r(4-6) mq0(2) obtain g q' where
    g: "skynet_mq_push (n_gq n) p msg = Inr g" "qview g = (qview (n_gq n))(p \<mapsto> q')"
      "global_wf g (if mq_in_global mq = 0 then ps @ [p] else ps)" "mq_wf q'" "mq_contents q' = mq_contents mq @ [msg]"
      "mq_in_global q' = (if mq_in_global mq = 0 then 1 else mq_in_global mq)"
    by auto
  have len: "skynet_mq_length q' = Suc (skynet_mq_length mq)" using arg_cong [OF g(5), of length] by simp
  let ?ps = "if mq_in_global mq = 0 then ps @ [p] else ps"
  have "drainable (n\<lparr>n_gq := g\<rparr>) ?ps q k"
  proof -
    have "\<exists>c p' mq'. receiver (n\<lparr>n_gq := g\<rparr>) ?ps q k s' c p' mq'"
      if "handle_lookup (skynet_context_handle n) (n_storage n) s' \<noteq> Inr None" for s'
    proof -
      obtain c' p' mq' where "receiver n ps q (Suc k) s' c' p' mq'" using d \<open>_ \<noteq> Inr None\<close> unfolding drainable_def by blast
      then have o: "reaches n s' c' p'" "p' \<noteq> q" "qview (n_gq n) p' = Some mq'" "mq_wf mq'"
        "skynet_mq_length mq' + Suc k < 2 ^ 30" "mq_in_global mq' = 0 \<longrightarrow> p' \<notin> set ps" by (auto simp: receiver_def)
      have "receiver (n\<lparr>n_gq := g\<rparr>) ?ps q k s' c' p' (if p' = p then q' else mq')"
        using o g(2,4,6) len r(5) unfolding receiver_def by auto
      then show ?thesis by blast
    qed
    moreover have "q \<notin> set ?ps" using wf(2) r(2) by auto
    moreover have "\<exists>mq. qview g q = Some mq \<and> mq_wf mq" using d g(2) r(2) by (auto simp: drainable_def)
    ultimately show ?thesis using g(3) by (intro drainableI) simp_all
  qed
  then show ?thesis using g r(2,3) by (auto simp: messages_qview)
qed

lemma drop_message_reply:
  assumes d: "drainable n ps q (Suc k)" and h: "h \<noteq> 0"
    and m: "source m = 0 \<or> skynet_harbor_message_isremote n (source m) = Inr False" "msg_data m = 0 \<or> n_mem n (msg_data m) \<noteq> None"
  shows "\<exists>g ps'. drop_message sv h m n = Inr (n\<lparr>n_gq := g, n_mem := freed (n_mem n) m\<rparr>)
    \<and> drainable (n\<lparr>n_gq := g\<rparr>) ps' q k \<and> qview g q = qview (n_gq n) q
    \<and> (\<forall>p. messages (n\<lparr>n_gq := g\<rparr>) p = messages n p @ (if target n (source m) = Some p then [error_reply h m] else []))"
proof -
  let ?M = "freed (n_mem n) m"
  let ?n = "n\<lparr>n_mem := ?M\<rparr>" and ?s = "source m"
  have f: "skynet_free n (msg_data m) = Inr ?n" using m(2) by (auto simp: skynet_free_def deref_Some freed_def)
  show ?thesis
  proof (cases "?s = 0 \<or> handle_lookup (skynet_context_handle n) (n_storage n) ?s = Inr None")
    case True
    then have "target n ?s = None" by (auto simp: target_def)
    moreover obtain r where "skynet_send sv ?n None h ?s (int PTYPE_ERROR) (session m) 0 0 = Inr (?n, r)"
      using send_error_none [OF h, of ?s ?n sv "session m"] True m(1) by auto
    ultimately show ?thesis using f h drainable_less [OF d] by (intro exI [of _ "n_gq n"] exI [of _ ps]) (simp add: drop_message_def)
  next
    case False
    then obtain c p mq where rc: "receiver n ps q (Suc k) ?s c p mq" using d unfolding drainable_def by blast
    then have r: "reaches n ?s c p" by (simp add: receiver_def)
    from push_drainable [OF d rc, of "error_reply h m"] obtain g ps' where
      g: "skynet_mq_push (n_gq n) p (error_reply h m) = Inr g" "drainable (n\<lparr>n_gq := g\<rparr>) ps' q k" "qview g q = qview (n_gq n) q"
        "messages (n\<lparr>n_gq := g\<rparr>) p = messages n p @ [error_reply h m]" "\<forall>p'. p' \<noteq> p \<longrightarrow> messages (n\<lparr>n_gq := g\<rparr>) p' = messages n p'" by blast
    have "skynet_send sv ?n None h ?s (int PTYPE_ERROR) (session m) 0 0 = Inr (?n\<lparr>n_gq := g\<rparr>, session m)"
      by (rule send_error_live [OF h]) (use False m(1) r g(1) in \<open>simp_all add: error_reply_def\<close>)
    then have "drop_message sv h m n = Inr (n\<lparr>n_gq := g, n_mem := ?M\<rparr>)" using f h by (simp add: drop_message_def)
    moreover have "target n ?s = Some p" using reaches_target [OF r] False by simp
    ultimately show ?thesis using g(2-5) by auto
  qed
qed

lemma node_pop_messages:
  assumes "drainable n ps q k"
  shows "\<exists>g. node_pop q n = Inr (n\<lparr>n_gq := g\<rparr>, case messages n q of [] \<Rightarrow> None | m # _ \<Rightarrow> Some m)
    \<and> drainable (n\<lparr>n_gq := g\<rparr>) ps q k \<and> messages (n\<lparr>n_gq := g\<rparr>) q = tl (messages n q)
    \<and> (\<forall>p. p \<noteq> q \<longrightarrow> messages (n\<lparr>n_gq := g\<rparr>) p = messages n p)"
proof -
  obtain mq where mq: "mqs (n_gq n) q = Some mq" "mq_wf mq" and wf: "global_wf (n_gq n) ps"
    using assms by (auto simp: drainable_def qview_def)
  have "\<exists>mq'. mq_pop mq = Inr (mq', case messages n q of [] \<Rightarrow> None | m # _ \<Rightarrow> Some m) \<and> mq_wf mq' \<and> mq_contents mq' = tl (messages n q)"
    using mq.deq_empty [OF mq(2)] mq.deq_cons [OF mq(2)] mq(1) by (cases "mq_contents mq") (auto simp: messages_def)
  then obtain mq' where mq': "mq_pop mq = Inr (mq', case messages n q of [] \<Rightarrow> None | m # _ \<Rightarrow> Some m)" "mq_wf mq'"
    "mq_contents mq' = tl (messages n q)" by blast
  note st = mq_pop_store [OF wf mq(1) mq'(1)]
  let ?g = "upd_mq q mq' (n_gq n)"
  have "drainable (n\<lparr>n_gq := ?g\<rparr>) ps q k"
  proof (rule drainableI)
    fix s assume "handle_lookup (skynet_context_handle (n\<lparr>n_gq := ?g\<rparr>)) (n_storage (n\<lparr>n_gq := ?g\<rparr>)) s \<noteq> Inr None"
    then obtain c p mq1 where "receiver n ps q k s c p mq1" using drainable_receiver [OF assms, of s] by auto
    then have "receiver (n\<lparr>n_gq := ?g\<rparr>) ps q k s c p mq1" by (auto simp: receiver_def)
    then show "\<exists>c p mq. receiver (n\<lparr>n_gq := ?g\<rparr>) ps q k s c p mq" by blast
  qed (use assms st(2) mq'(2) in \<open>auto simp: drainable_def\<close>)
  then show ?thesis using st(1) mq'(3) by (intro exI [of _ ?g]) (auto simp: node_pop_def messages_def)
qed


lemma drain_replies:
  assumes "drainable n ps q (length ms)" "messages n q = ms" "h \<noteq> 0" "data_ok (n_mem n) ms"
    "\<forall>m \<in> set ms. source m = 0 \<or> skynet_harbor_message_isremote n (source m) = Inr False"
  shows "\<exists>g ps'. drain (node_pop q) (drop_message sv h) n = Some (Inr (n\<lparr>n_gq := g, n_mem := free_all (n_mem n) ms\<rparr>))
    \<and> drainable (n\<lparr>n_gq := g\<rparr>) ps' q 0 \<and> messages (n\<lparr>n_gq := g\<rparr>) q = []
    \<and> (\<forall>p. p \<noteq> q \<longrightarrow> messages (n\<lparr>n_gq := g\<rparr>) p = messages n p @ map (error_reply h) (filter (\<lambda>m. target n (source m) = Some p) ms))"
  using assms
proof (induction ms arbitrary: n ps)
  case Nil
  from node_pop_messages [OF Nil.prems(1)] Nil.prems(2) obtain g where
    g: "node_pop q n = Inr (n\<lparr>n_gq := g\<rparr>, None)" "drainable (n\<lparr>n_gq := g\<rparr>) ps q 0" "messages (n\<lparr>n_gq := g\<rparr>) q = []"
    "\<forall>p. p \<noteq> q \<longrightarrow> messages (n\<lparr>n_gq := g\<rparr>) p = messages n p" by auto
  from drain_empty [of "node_pop q" n, OF g(1)] g(2-4) show ?case by auto
next
  case (Cons m ms)
  from node_pop_messages [OF Cons.prems(1)] Cons.prems(2) obtain g where
    g: "node_pop q n = Inr (n\<lparr>n_gq := g\<rparr>, Some m)" "drainable (n\<lparr>n_gq := g\<rparr>) ps q (Suc (length ms))"
    "messages (n\<lparr>n_gq := g\<rparr>) q = ms" "\<forall>p. p \<noteq> q \<longrightarrow> messages (n\<lparr>n_gq := g\<rparr>) p = messages n p" by auto
  let ?M = "freed (n_mem n) m"
  from drop_message_reply [OF g(2) Cons.prems(3), of m sv] Cons.prems(4,5) obtain g1 ps1 where
    g1: "drop_message sv h m (n\<lparr>n_gq := g\<rparr>) = Inr (n\<lparr>n_gq := g1, n_mem := ?M\<rparr>)" "drainable (n\<lparr>n_gq := g1\<rparr>) ps1 q (length ms)"
    "qview g1 q = qview g q"
    "\<forall>p. messages (n\<lparr>n_gq := g1\<rparr>) p = messages (n\<lparr>n_gq := g\<rparr>) p @ (if target n (source m) = Some p then [error_reply h m] else [])"
    by auto
  let ?n1 = "n\<lparr>n_gq := g1, n_mem := ?M\<rparr>"
  have d1: "drainable ?n1 ps1 q (length ms)" using g1(2) by (simp add: drainable_def receiver_def)
  have q1: "messages ?n1 q = ms" using g1(3) g(3) by (simp add: messages_qview)
  from Cons.IH [OF d1 q1 Cons.prems(3)] Cons.prems(4,5) obtain g2 ps2 where
    g2: "drain (node_pop q) (drop_message sv h) ?n1 = Some (Inr (?n1\<lparr>n_gq := g2, n_mem := free_all ?M ms\<rparr>))"
    "drainable (?n1\<lparr>n_gq := g2\<rparr>) ps2 q 0" "messages (?n1\<lparr>n_gq := g2\<rparr>) q = []"
    "\<forall>p. p \<noteq> q \<longrightarrow> messages (?n1\<lparr>n_gq := g2\<rparr>) p = messages ?n1 p @ map (error_reply h) (filter (\<lambda>m. target ?n1 (source m) = Some p) ms)"
    by auto
  have "drain (node_pop q) (drop_message sv h) n = drain (node_pop q) (drop_message sv h) ?n1"
    using g(1) g1(1) by (rule drain_step)
  moreover have "messages ?n1 p = messages (n\<lparr>n_gq := g1\<rparr>) p" "messages (?n1\<lparr>n_gq := g2\<rparr>) p = messages (n\<lparr>n_gq := g2\<rparr>) p" for p
    by (simp_all add: messages_def)
  moreover have "drainable (n\<lparr>n_gq := g2\<rparr>) ps2 q 0" using g2(2) by (simp add: drainable_def receiver_def)
  ultimately show ?case using g2 g1(4) g(4)
    by (intro exI [of _ g2] exI [of _ ps2]) auto
qed





end
