(* ===== verification/Sky_Start.thy ===== *)
theory Sky_Start
  imports Sky_Node_Spec
begin

text \<open>
  Model of \<^verbatim>\<open>skynet-src/skynet_start.c\<close>, the start of a node and the protocol by which its worker
  threads sleep and are woken up, and of \<open>forward_message\<close> and \<open>skynet_socket_poll\<close> in
  \<^verbatim>\<open>skynet-src/skynet_socket.c\<close>, through which the socket thread sends to the services.
\<close>

section \<open>Messages of the socket thread\<close>

text \<open>\<open>struct socket_message\<close>, what \<open>socket_server_poll\<close> fills in; \<open>se_data\<close> is an address.\<close>

record sock_event =
  se_id :: int
  se_opaque :: u64
  se_ud :: int
  se_data :: nat

definition c_string :: "node \<Rightarrow> nat \<Rightarrow> u8 list res" where
  "c_string n p =
     cbind (deref (n_mem n) p) (\<lambda>b.
     case b of
       Bytes bs \<Rightarrow> if 0 \<in> set bs then Inr (takeWhile (\<lambda>c. c \<noteq> 0) bs) else Inl OutOfBounds
     | _ \<Rightarrow> Inl Opaque)"

text \<open>The bytes copied behind a message with \<open>padding\<close>.\<close>

definition event_text :: "node \<Rightarrow> bool \<Rightarrow> sock_event \<Rightarrow> u8 list res" where
  "event_text n padding ev =
     (if padding \<and> se_data ev \<noteq> 0 then cbind (c_string n (se_data ev)) (\<lambda>s. Inr (take 128 s)) else Inr [])"

definition forward_message :: "svc \<Rightarrow> node \<Rightarrow> int \<Rightarrow> bool \<Rightarrow> sock_event \<Rightarrow> node res" where
  "forward_message sv n type padding result =
     cbind (event_text n padding result) (\<lambda>tail.
     let buffer = (if padding then 0 else se_data result);
         (n, sm) = skynet_malloc n (Sock type (se_id result) (se_ud result) buffer tail) in
     cbind (skynet_context_push sv n (ucast (se_opaque result))
              \<lparr>source = 0, session = 0, msg_data = sm,
               sz = (SOCKET_MESSAGE_SIZE + of_nat (length tail)) OR push_bit MESSAGE_TYPE_SHIFT (of_nat PTYPE_SOCKET)\<rparr>) (\<lambda>(n, r).
     if r \<noteq> 0 then cbind (skynet_free n buffer) (\<lambda>n. skynet_free n sm) else Inr n))"

text \<open>\<open>skynet_socket_poll\<close> on what \<open>socket_server_poll\<close> returned: its type, the event, and \<open>more\<close>.\<close>

definition skynet_socket_poll :: "svc \<Rightarrow> node \<Rightarrow> int \<Rightarrow> sock_event \<Rightarrow> bool \<Rightarrow> (node \<times> int) res" where
  "skynet_socket_poll sv n type result has_more =
     (let fwd = (\<lambda>t padding. cbind (forward_message sv n t padding result) (\<lambda>n. Inr (n, if has_more then -1 else 1))) in
      if type = SOCKET_EXIT then Inr (n, 0)
      else if type = SOCKET_DATA then fwd SKYNET_SOCKET_TYPE_DATA False
      else if type = SOCKET_CLOSE then fwd SKYNET_SOCKET_TYPE_CLOSE False
      else if type = SOCKET_OPEN then fwd SKYNET_SOCKET_TYPE_CONNECT True
      else if type = SOCKET_ERR then fwd SKYNET_SOCKET_TYPE_ERROR True
      else if type = SOCKET_ACCEPT then fwd SKYNET_SOCKET_TYPE_ACCEPT True
      else if type = SOCKET_UDP then fwd SKYNET_SOCKET_TYPE_UDP False
      else if type = SOCKET_WARNING then fwd SKYNET_SOCKET_TYPE_WARNING False
      else
        cbind (skynet_error sv n None (''error: Unknown socket message type '' @ int_str type @ ''.'')) (\<lambda>n. Inr (n, -1)))"

text \<open>The message \<open>forward_message\<close> pushes, with its block at \<open>p\<close> and \<open>len\<close> bytes of text behind it.\<close>

definition socket_smsg :: "nat \<Rightarrow> nat \<Rightarrow> skynet_message" where
  "socket_smsg p len = \<lparr>source = 0, session = 0, msg_data = p,
     sz = (SOCKET_MESSAGE_SIZE + of_nat len) OR push_bit MESSAGE_TYPE_SHIFT (of_nat PTYPE_SOCKET)\<rparr>"

lemma c_string_no_nul: "c_string n p = Inr s \<Longrightarrow> 0 \<notin> set s"
  unfolding c_string_def cbind_Inr_iff
  by (elim exE conjE, rename_tac b, case_tac b) (auto dest: set_takeWhileD split: if_splits)

lemma event_text_no_nul: "event_text n padding ev = Inr tail \<Longrightarrow> 0 \<notin> set tail \<and> length tail \<le> 128"
proof (cases "padding \<and> se_data ev \<noteq> 0")
  case True
  assume "event_text n padding ev = Inr tail"
  with True obtain s where "c_string n (se_data ev) = Inr s" "tail = take 128 s" by (auto simp: event_text_def cbind_Inr_iff)
  then show ?thesis using c_string_no_nul by (auto dest: in_set_takeD)
qed (auto simp: event_text_def split: if_splits)

lemma socket_smsg_type: "len \<le> 128 \<Longrightarrow> msg_type (socket_smsg p len) = int PTYPE_SOCKET"
proof -
  assume "len \<le> 128"
  then have "SOCKET_MESSAGE_SIZE + of_nat len \<le> (152 :: u64)"
    by (simp add: SOCKET_MESSAGE_SIZE_def word_le_nat_alt unat_word_ariths unat_of_nat)
  then have "unat (SOCKET_MESSAGE_SIZE + of_nat len :: u64) < 2 ^ 56"
    by (simp add: word_le_nat_alt)
  then have "take_bit 56 (SOCKET_MESSAGE_SIZE + of_nat len :: u64) = SOCKET_MESSAGE_SIZE + of_nat len"
    by (simp add: word_unat_eq_iff unsigned_take_bit_eq take_bit_nat_eq_self)
  then have "\<not> too_large (SOCKET_MESSAGE_SIZE + of_nat len)" by (simp only: not_too_large not_not)
  from type_in_size(1) [OF this, of "int PTYPE_SOCKET"] show ?thesis
    by (simp add: msg_type_def socket_smsg_def PTYPE_SOCKET_def)
qed

lemma forward_message_live:
  assumes "reaches n (ucast (se_opaque ev)) c q" "accepts n ps q mq" "event_text n padding ev = Inr tail"
  shows "\<exists>n'. forward_message sv n type padding ev = Inr n' \<and> messages n' q = messages n q @ [socket_smsg (n_brk n) (length tail)]
    \<and> n_mem n' = (n_mem n)(n_brk n \<mapsto> Sock type (se_id ev) (se_ud ev) (if padding then 0 else se_data ev) tail)"
proof -
  let ?b = "Sock type (se_id ev) (se_ud ev) (if padding then 0 else se_data ev) tail"
  let ?n = "n\<lparr>n_mem := (n_mem n)(n_brk n \<mapsto> ?b), n_brk := Suc (n_brk n)\<rparr>"
  have "reaches ?n (ucast (se_opaque ev)) c q" "accepts ?n ps q mq" using assms(1,2) by simp_all
  from push_delivers [OF this, of sv "socket_smsg (n_brk n) (length tail)"] obtain g where
    "skynet_context_push sv ?n (ucast (se_opaque ev)) (socket_smsg (n_brk n) (length tail)) = Inr (?n\<lparr>n_gq := g\<rparr>, 0)"
    "messages (?n\<lparr>n_gq := g\<rparr>) q = messages n q @ [socket_smsg (n_brk n) (length tail)]" by auto
  then show ?thesis using assms(3)
    by (simp add: forward_message_def skynet_malloc_def socket_smsg_def)
qed

text \<open>
  The log of a service reads past a socket message. The text that \<open>forward_message\<close> copies behind
  a connect, accept or error message (or none, for a close) has no \<open>NUL\<close> at its end; it reaches the queue
  of the receiver, and \<open>skynet_log_output\<close>, which \<open>dispatch_message\<close> calls on it when the log of the
  service is on, prints it by \<open>%*s\<close>, a width and not a precision, and reads out of the block.
\<close>

theorem log_socket_overreads:
  assumes "reaches n (ucast (se_opaque ev)) c q" "accepts n ps q mq" "event_text n padding ev = Inr tail"
    "padding \<or> se_data ev = 0"
  shows "\<exists>n' m. forward_message sv n type padding ev = Inr n' \<and> messages n' q = messages n q @ [m] \<and> source m = 0
    \<and> msg_type m = int PTYPE_SOCKET
    \<and> skynet_log_output n' f (source m) (msg_type m) (session m) (msg_data m) (msg_size m) = Inl OutOfBounds"
proof -
  obtain n' where n': "forward_message sv n type padding ev = Inr n'"
    "messages n' q = messages n q @ [socket_smsg (n_brk n) (length tail)]"
    "n_mem n' = (n_mem n)(n_brk n \<mapsto> Sock type (se_id ev) (se_ud ev) 0 tail)"
    using forward_message_live [OF assms(1-3), of sv type] assms(4) by (auto split: if_splits)
  have t: "0 \<notin> set tail" "msg_type (socket_smsg (n_brk n) (length tail)) = int PTYPE_SOCKET"
    using event_text_no_nul [OF assms(3)] socket_smsg_type by auto
  have "log_socket n' f (msg_data (socket_smsg (n_brk n) (length tail))) = Inl OutOfBounds"
    using n'(3) t(1) by (simp add: log_socket_def socket_smsg_def deref_Some)
  then show ?thesis using n' t(2)
    by (intro exI [of _ n'] exI [of _ "socket_smsg (n_brk n) (length tail)"]) (simp add: skynet_log_output_def socket_smsg_def)
qed

theorem log_socket_overreads_witness:
  "\<exists>n n' m. messages n 2 = [] \<and> n_mem n 7 = Some (Bytes [49, 50, 0])
    \<and> forward_message undefined n 2 True \<lparr>se_id = 3, se_opaque = 0x1000001, se_ud = 0, se_data = 7\<rparr> = Inr n' \<and> messages n' 2 = [m]
    \<and> skynet_log_output n' 9 (source m) (msg_type m) (session m) (msg_data m) (msg_size m) = Inl OutOfBounds"
proof -
  let ?ev = "\<lparr>se_id = 3, se_opaque = 0x1000001, se_ud = 0, se_data = 7\<rparr>"
  obtain n where n: "reaches n 0x1000001 1 2" "accepts n [] 2 (mq_new 0x1000001)" "messages n 2 = []" using demo_setup by blast
  let ?n = "n\<lparr>n_mem := [7 \<mapsto> Bytes [49, 50, 0]], n_brk := 8\<rparr>"
  have u: "ucast (se_opaque ?ev) = (0x1000001 :: u32)" by simp
  have t: "event_text ?n True ?ev = Inr [49, 50]" by (simp add: event_text_def c_string_def deref_Some)
  have r: "reaches ?n (ucast (se_opaque ?ev)) 1 2" "accepts ?n [] 2 (mq_new 0x1000001)" "messages ?n 2 = []"
    unfolding u using n by simp_all
  have "True \<or> se_data ?ev = 0" by simp
  from log_socket_overreads [OF r(1,2) t this, of undefined 2 9] r(3) obtain n' m where
    "forward_message undefined ?n 2 True ?ev = Inr n'" "messages n' 2 = [m]"
    "skynet_log_output n' 9 (source m) (msg_type m) (session m) (msg_data m) (msg_size m) = Inl OutOfBounds" by auto
  then show ?thesis using r(3) by (intro exI [of _ ?n] exI [of _ n'] exI [of _ m]) simp
qed

section \<open>Starting a node\<close>

record skynet_config =
  cf_thread :: nat
  cf_harbor :: int
  cf_profile :: bool
  cf_module_path :: string
  cf_bootstrap :: string
  cf_logger :: "string option"
  cf_logservice :: string

definition signal_hup :: "svc \<Rightarrow> node \<Rightarrow> node res" where
  "signal_hup sv n =
     cbind (skynet_handle_findname (n_storage n) ''logger'') (\<lambda>logger.
     if logger \<noteq> 0 then
       cbind (skynet_context_push sv n logger \<lparr>source = 0, session = 0, msg_data = 0,
         sz = push_bit MESSAGE_TYPE_SHIFT (of_nat PTYPE_SYSTEM)\<rparr>) (\<lambda>(n, _). Inr n)
     else Inr n)"

text \<open>The weights of the worker threads.\<close>

definition weight_table :: "int list" where
  "weight_table = [-1, -1, -1, -1, 0, 0, 0, 0, 1, 1, 1, 1, 1, 1, 1, 1, 2, 2, 2, 2, 2, 2, 2, 2, 3, 3, 3, 3, 3, 3, 3, 3]"

definition worker_weight :: "nat \<Rightarrow> int" where
  "worker_weight i = (if i < length weight_table then weight_table ! i else 0)"

text \<open>
  \<open>bootstrap\<close>: the arguments start behind as many characters as the name has, which is right when
  the command line does not start with white space.
\<close>

definition bootstrap :: "svc \<Rightarrow> node \<Rightarrow> u32 \<Rightarrow> string \<Rightarrow> node res" where
  "bootstrap sv n logger_handle cmdline =
     cbind (fst (sscanf_word cmdline)) (\<lambda>nm.
     let args = (if length nm < length cmdline then dropWhile (\<lambda>c. c = CHR '' '') (drop (length nm) cmdline) else []) in
     cbind (skynet_context_new sv n nm (Some args)) (\<lambda>(n, handle).
     if handle = 0 then
       cbind (skynet_handle_grab n logger_handle) (\<lambda>(n, r).
       case r of
         None \<Rightarrow> Inl Exits
       | Some c \<Rightarrow>
           cbind (skynet_error sv n None (''Bootstrap error : '' @ cmdline @ [CHR 0x0A])) (\<lambda>n.
           cbind (skynet_context_dispatchall sv n c) (\<lambda>n.
           cbind (skynet_context_release sv n c) (\<lambda>n. Inl Exits))))
     else Inr n))"

text \<open>\<open>skynet_start\<close> up to the start of the threads, and after they have ended.\<close>

definition skynet_start_boot ::
  "svc \<Rightarrow> skynet_config \<Rightarrow> timer \<Rightarrow> (string \<Rightarrow> string option) \<Rightarrow> node res" where
  "skynet_start_boot sv config T environment =
     (let n = node_init (cf_harbor config) (cf_module_path config) T (cf_profile config) environment in
      cbind (skynet_context_new sv n (cf_logservice config) (cf_logger config)) (\<lambda>(n, logger_handle).
      if logger_handle = 0 then Inl Exits
      else
        cbind (namehandle n logger_handle ''logger'') (\<lambda>(n, _).
        bootstrap sv n logger_handle (cf_bootstrap config))))"

definition skynet_start_exit :: "svc \<Rightarrow> node \<Rightarrow> node res" where
  "skynet_start_exit sv n = skynet_harbor_exit sv n"

text \<open>A pass of \<open>thread_monitor\<close> over the monitors of the workers.\<close>

fun monitor_pass :: "svc \<Rightarrow> node \<Rightarrow> skynet_monitor list \<Rightarrow> (node \<times> skynet_monitor list) res" where
  "monitor_pass sv n [] = Inr (n, [])"
| "monitor_pass sv n (m # ms) =
     cbind (skynet_monitor_check sv n m) (\<lambda>(n, m). cbind (monitor_pass sv n ms) (\<lambda>(n, ms). Inr (n, m # ms)))"

section \<open>Sleeping and waking\<close>

text \<open>
  Where a worker is in \<open>thread_worker\<close>: at the test of the loop, in the dispatch, about to take the
  mutex, holding it before the test of \<open>quit\<close>, in \<open>pthread_cond_wait\<close>, woken up but without the
  mutex, holding it again, and ended. Where the timer thread is at its end: running, about to take the
  mutex, holding it, having set \<open>quit\<close>, having sent the broadcast, and ended.
\<close>

datatype worker_pc = Check | Work | WantLock | HasLock | Waiting | Woken | Holding | Ended
datatype timer_pc = Ticking | TWantLock | THasLock | TQuitSet | TBroadcast | TEnded

datatype thread = Worker nat | TimerThread

record monitor =
  mo_count :: nat
  mo_sleep :: int
  mo_quit :: bool
  mo_mutex :: "thread option"
  mo_pc :: "nat \<Rightarrow> worker_pc"
  mo_timer :: timer_pc

definition monitor_start :: "nat \<Rightarrow> monitor" where
  "monitor_start threads =
     \<lparr>mo_count = threads, mo_sleep = 0, mo_quit = False, mo_mutex = None, mo_pc = (\<lambda>_. Check), mo_timer = Ticking\<rparr>"

definition wakeup :: "monitor \<Rightarrow> int \<Rightarrow> bool" where
  "wakeup m busy \<longleftrightarrow> mo_sleep m \<ge> int (mo_count m) - busy"

definition goto :: "monitor \<Rightarrow> nat \<Rightarrow> worker_pc \<Rightarrow> monitor" where
  "goto m w pc = m\<lparr>mo_pc := (mo_pc m)(w := pc)\<rparr>"

definition at_pc :: "monitor \<Rightarrow> nat \<Rightarrow> worker_pc \<Rightarrow> bool" where
  "at_pc m w pc \<longleftrightarrow> w < mo_count m \<and> mo_pc m w = pc"

text \<open>
  A step of any thread. \<open>pthread_cond_signal\<close> is called by the socket thread (no worker busy) and by
  the running timer thread (all but one busy) and wakes one waiting worker; a waiting worker may also
  wake up spuriously, and the broadcast wakes them all.
\<close>

inductive monitor_step :: "monitor \<Rightarrow> monitor \<Rightarrow> bool" where
  check_quit: "at_pc m w Check \<Longrightarrow> mo_quit m \<Longrightarrow> monitor_step m (goto m w Ended)"
| check_go: "at_pc m w Check \<Longrightarrow> \<not> mo_quit m \<Longrightarrow> monitor_step m (goto m w Work)"
| work_again: "at_pc m w Work \<Longrightarrow> monitor_step m (goto m w Check)"
| work_idle: "at_pc m w Work \<Longrightarrow> monitor_step m (goto m w WantLock)"
| lock: "at_pc m w WantLock \<Longrightarrow> mo_mutex m = None \<Longrightarrow>
    monitor_step m ((goto m w HasLock)\<lparr>mo_mutex := Some (Worker w), mo_sleep := mo_sleep m + 1\<rparr>)"
| wait: "at_pc m w HasLock \<Longrightarrow> \<not> mo_quit m \<Longrightarrow> monitor_step m ((goto m w Waiting)\<lparr>mo_mutex := None\<rparr>)"
| no_wait: "at_pc m w HasLock \<Longrightarrow> mo_quit m \<Longrightarrow> monitor_step m (goto m w Holding)"
| signal_wakes: "at_pc m w Waiting \<Longrightarrow> wakeup m busy \<Longrightarrow> busy = 0 \<or> busy = int (mo_count m) - 1 \<and> mo_timer m = Ticking \<Longrightarrow>
    monitor_step m (goto m w Woken)"
| spurious: "at_pc m w Waiting \<Longrightarrow> monitor_step m (goto m w Woken)"
| relock: "at_pc m w Woken \<Longrightarrow> mo_mutex m = None \<Longrightarrow> monitor_step m ((goto m w Holding)\<lparr>mo_mutex := Some (Worker w)\<rparr>)"
| unlock: "at_pc m w Holding \<Longrightarrow> monitor_step m ((goto m w Check)\<lparr>mo_mutex := None, mo_sleep := mo_sleep m - 1\<rparr>)"
| abort: "mo_timer m = Ticking \<Longrightarrow> monitor_step m (m\<lparr>mo_timer := TWantLock\<rparr>)"
| timer_lock: "mo_timer m = TWantLock \<Longrightarrow> mo_mutex m = None \<Longrightarrow>
    monitor_step m (m\<lparr>mo_timer := THasLock, mo_mutex := Some TimerThread\<rparr>)"
| timer_quit: "mo_timer m = THasLock \<Longrightarrow> monitor_step m (m\<lparr>mo_timer := TQuitSet, mo_quit := True\<rparr>)"
| timer_broadcast: "mo_timer m = TQuitSet \<Longrightarrow>
    monitor_step m (m\<lparr>mo_timer := TBroadcast, mo_pc := (\<lambda>w. if mo_pc m w = Waiting then Woken else mo_pc m w)\<rparr>)"
| timer_unlock: "mo_timer m = TBroadcast \<Longrightarrow> monitor_step m (m\<lparr>mo_timer := TEnded, mo_mutex := None\<rparr>)"

inductive monitor_reachable :: "nat \<Rightarrow> monitor \<Rightarrow> bool" for threads where
  start: "monitor_reachable threads (monitor_start threads)"
| step: "monitor_reachable threads m \<Longrightarrow> monitor_step m m' \<Longrightarrow> monitor_reachable threads m'"

subsection \<open>The invariant\<close>

definition asleep :: "monitor \<Rightarrow> nat set" where
  "asleep m = {w. w < mo_count m \<and> mo_pc m w \<in> {HasLock, Waiting, Woken, Holding}}"

fun locked :: "worker_pc \<Rightarrow> bool" where
  "locked HasLock = True" | "locked Holding = True" | "locked _ = False"

fun timer_locked :: "timer_pc \<Rightarrow> bool" where
  "timer_locked THasLock = True" | "timer_locked TQuitSet = True" | "timer_locked TBroadcast = True" | "timer_locked _ = False"

definition mutex_ok :: "monitor \<Rightarrow> bool" where
  "mutex_ok m \<longleftrightarrow>
     (\<forall>w. locked (mo_pc m w) \<longleftrightarrow> mo_mutex m = Some (Worker w))
     \<and> (timer_locked (mo_timer m) \<longleftrightarrow> mo_mutex m = Some TimerThread)"

definition quit_ok :: "monitor \<Rightarrow> bool" where
  "quit_ok m \<longleftrightarrow>
     (mo_quit m \<longleftrightarrow> mo_timer m \<in> {TQuitSet, TBroadcast, TEnded})
     \<and> (mo_timer m \<in> {TBroadcast, TEnded} \<longrightarrow> (\<forall>w. mo_pc m w \<noteq> Waiting))"

definition sleep_ok :: "monitor \<Rightarrow> bool" where
  "sleep_ok m \<longleftrightarrow> mo_sleep m = int (card (asleep m))"

definition monitor_inv :: "nat \<Rightarrow> monitor \<Rightarrow> bool" where
  "monitor_inv threads m \<longleftrightarrow>
     mo_count m = threads \<and> sleep_ok m \<and> mutex_ok m \<and> quit_ok m \<and> (\<forall>w. threads \<le> w \<longrightarrow> mo_pc m w = Check)"

lemma finite_asleep [simp]: "finite (asleep m)"
  by (rule finite_subset [of _ "{..<mo_count m}"]) (auto simp: asleep_def)

lemma asleep_goto:
  "w < mo_count m \<Longrightarrow> asleep (goto m w pc) =
     (if pc \<in> {HasLock, Waiting, Woken, Holding} then insert w (asleep m) else asleep m - {w})"
  by (auto simp: asleep_def goto_def)

lemma asleep_more [simp]:
  "asleep (m\<lparr>mo_mutex := u\<rparr>) = asleep m" "asleep (m\<lparr>mo_sleep := k\<rparr>) = asleep m" "asleep (m\<lparr>mo_timer := t\<rparr>) = asleep m"
  "asleep (m\<lparr>mo_quit := q\<rparr>) = asleep m"
  "asleep (m\<lparr>mo_timer := t, mo_pc := (\<lambda>w. if mo_pc m w = Waiting then Woken else mo_pc m w)\<rparr>) = asleep m"
  by (auto simp: asleep_def)

lemma goto_fields [simp]:
  "mo_count (goto m w pc) = mo_count m" "mo_sleep (goto m w pc) = mo_sleep m" "mo_quit (goto m w pc) = mo_quit m"
  "mo_mutex (goto m w pc) = mo_mutex m" "mo_timer (goto m w pc) = mo_timer m"
  "mo_pc (goto m w pc) = (mo_pc m)(w := pc)"
  by (simp_all add: goto_def)

lemma asleep_mem: "w < mo_count m \<Longrightarrow> w \<in> asleep m \<longleftrightarrow> mo_pc m w \<in> {HasLock, Waiting, Woken, Holding}"
  by (simp add: asleep_def)

lemma sleep_ok_step: "monitor_step m m' \<Longrightarrow> sleep_ok m \<Longrightarrow> sleep_ok m'"
proof (induction rule: monitor_step.induct)
  case (unlock m w)
  then have "w < mo_count m" "w \<in> asleep m" by (auto simp: asleep_def at_pc_def)
  moreover from this have "0 < card (asleep m)" by (auto simp: card_gt_0_iff)
  ultimately show ?case using unlock by (simp add: sleep_ok_def asleep_goto of_nat_diff)
qed (auto simp: sleep_ok_def asleep_goto at_pc_def asleep_mem insert_absorb)

lemma mutex_ok_sleep [simp]: "mutex_ok (m\<lparr>mo_sleep := k\<rparr>) = mutex_ok m"
  by (simp add: mutex_ok_def)

lemma mutex_keep: "at_pc m w old \<Longrightarrow> mutex_ok m \<Longrightarrow> locked old = locked pc \<Longrightarrow> mutex_ok (goto m w pc)"
  by (auto simp: mutex_ok_def at_pc_def)

lemma mutex_take: "mutex_ok m \<Longrightarrow> mo_mutex m = None \<Longrightarrow> locked pc \<Longrightarrow> mutex_ok ((goto m w pc)\<lparr>mo_mutex := Some (Worker w)\<rparr>)"
  by (auto simp: mutex_ok_def)

lemma mutex_give:
  assumes "mutex_ok m" "at_pc m w old" "locked old" "\<not> locked pc"
  shows "mutex_ok ((goto m w pc)\<lparr>mo_mutex := None\<rparr>)"
proof -
  have "mo_mutex m = Some (Worker w)" using assms(1-3) unfolding mutex_ok_def at_pc_def by metis
  then show ?thesis using assms(1,4) by (auto simp: mutex_ok_def)
qed

lemma mutex_ok_step: "monitor_step m m' \<Longrightarrow> mutex_ok m \<Longrightarrow> mutex_ok m'"
proof (induction rule: monitor_step.induct)
  case (wait m w)
  then show ?case by (intro mutex_give [where old = HasLock]) simp_all
next
  case (unlock m w)
  then show ?case by (simp add: mutex_give)
next
  case (lock m w)
  then show ?case by (simp add: mutex_take)
next
  case (relock m w)
  then show ?case by (simp add: mutex_take)
next
  case (timer_broadcast m)
  then show ?case by (auto simp: mutex_ok_def)
next
  case (timer_unlock m)
  then show ?case by (simp add: mutex_ok_def)
qed ((erule (1) mutex_keep, simp; fail) | (auto simp: mutex_ok_def; fail))+

lemma quit_ok_step: "monitor_step m m' \<Longrightarrow> quit_ok m \<Longrightarrow> quit_ok m'"
  by (induction rule: monitor_step.induct) (auto simp: quit_ok_def at_pc_def)

lemma monitor_frame: "monitor_step m m' \<Longrightarrow> mo_count m' = mo_count m \<and> (\<forall>w \<ge> mo_count m. mo_pc m w = Check \<longrightarrow> mo_pc m' w = Check)"
  by (induction rule: monitor_step.induct) (auto simp: at_pc_def)

lemma monitor_reachable_inv: "monitor_reachable threads m \<Longrightarrow> monitor_inv threads m"
proof (induction rule: monitor_reachable.induct)
  case start
  have "asleep (monitor_start threads) = {}" by (simp add: asleep_def monitor_start_def)
  then show ?case
    by (simp add: monitor_inv_def sleep_ok_def mutex_ok_def quit_ok_def) (simp add: monitor_start_def)
next
  case (step m m')
  then show ?case
    using sleep_ok_step mutex_ok_step quit_ok_step monitor_frame [of m m'] by (auto simp: monitor_inv_def)
qed


text \<open>One worker goes to sleep.\<close>

definition one_asleep :: monitor where
  "one_asleep = \<lparr>mo_count = 1, mo_sleep = 1, mo_quit = False, mo_mutex = None, mo_pc = (\<lambda>_. Check)(0 := Waiting), mo_timer = Ticking\<rparr>"

lemma one_asleep_reachable: "monitor_reachable 1 one_asleep"
proof -
  let ?s = "monitor_start 1"
  let ?m = "goto (goto ?s 0 Work) 0 WantLock"
  let ?l = "(goto ?m 0 HasLock)\<lparr>mo_mutex := Some (Worker 0), mo_sleep := mo_sleep ?m + 1\<rparr>"
  have "monitor_reachable 1 ?s" by (rule monitor_reachable.start)
  moreover have "monitor_step ?s (goto ?s 0 Work)" by (rule check_go) (simp_all add: at_pc_def monitor_start_def)
  ultimately have "monitor_reachable 1 (goto ?s 0 Work)" by (rule monitor_reachable.step)
  moreover have "monitor_step (goto ?s 0 Work) ?m" by (rule work_idle) (simp add: at_pc_def monitor_start_def)
  ultimately have "monitor_reachable 1 ?m" by (rule monitor_reachable.step)
  moreover have "monitor_step ?m ?l" by (rule lock) (simp_all add: at_pc_def monitor_start_def)
  ultimately have "monitor_reachable 1 ?l" by (rule monitor_reachable.step)
  moreover have "monitor_step ?l ((goto ?l 0 Waiting)\<lparr>mo_mutex := None\<rparr>)" by (rule wait) (simp_all add: at_pc_def monitor_start_def)
  ultimately have "monitor_reachable 1 ((goto ?l 0 Waiting)\<lparr>mo_mutex := None\<rparr>)" by (rule monitor_reachable.step)
  then show ?thesis by (simp add: one_asleep_def monitor_start_def goto_def)
qed


subsection \<open>The end of the threads\<close>

fun pc_rank :: "worker_pc \<Rightarrow> nat" where
  "pc_rank Work = 6" | "pc_rank WantLock = 5" | "pc_rank HasLock = 4" | "pc_rank Waiting = 4" | "pc_rank Woken = 3"
| "pc_rank Holding = 2" | "pc_rank Check = 1" | "pc_rank Ended = 0"

definition shutdown_rank :: "monitor \<Rightarrow> nat" where
  "shutdown_rank m = (\<Sum>w < mo_count m. pc_rank (mo_pc m w))"

lemma shutdown_rank_goto:
  assumes "at_pc m w old" "pc_rank new < pc_rank old"
  shows "shutdown_rank (goto m w new) < shutdown_rank m"
proof -
  have "w \<in> {..<mo_count m}" "mo_pc m w = old" using assms(1) by (auto simp: at_pc_def)
  then show ?thesis unfolding shutdown_rank_def goto_fields
    by (intro sum_strict_mono_ex1) (use assms(2) in auto)
qed

lemma shutdown_rank_more [simp]:
  "shutdown_rank (m\<lparr>mo_mutex := u\<rparr>) = shutdown_rank m" "shutdown_rank (m\<lparr>mo_sleep := k\<rparr>) = shutdown_rank m"
  by (simp_all add: shutdown_rank_def)

lemma shutdown_step:
  "monitor_step m m' \<Longrightarrow> mo_timer m = TEnded \<Longrightarrow> quit_ok m \<Longrightarrow> shutdown_rank m' < shutdown_rank m \<and> mo_timer m' = TEnded"
  by (induction rule: monitor_step.induct) (auto simp: quit_ok_def at_pc_def intro: shutdown_rank_goto)

lemma shutdown_bound: "shutdown_rank m \<le> 6 * mo_count m"
proof -
  have "pc_rank pc \<le> 6" for pc by (cases pc) simp_all
  then have "shutdown_rank m \<le> (\<Sum>w < mo_count m. 6)" unfolding shutdown_rank_def by (intro sum_mono) simp
  then show ?thesis by simp
qed

lemma shutdown_runs:
  assumes "(monitor_step ^^ j) m m'" "monitor_reachable threads m" "mo_timer m = TEnded"
  shows "monitor_reachable threads m' \<and> mo_timer m' = TEnded \<and> j + shutdown_rank m' \<le> shutdown_rank m"
  using assms(1)
proof (induction j arbitrary: m')
  case (Suc j)
  then obtain n where n: "(monitor_step ^^ j) m n" "monitor_step n m'" by auto
  with Suc.IH have IH: "monitor_reachable threads n" "mo_timer n = TEnded" "j + shutdown_rank n \<le> shutdown_rank m" by auto
  have "quit_ok n" using monitor_reachable_inv [OF IH(1)] by (simp add: monitor_inv_def)
  with shutdown_step [OF n(2) IH(2)] have "shutdown_rank m' < shutdown_rank n" "mo_timer m' = TEnded" by auto
  then show ?case using IH n(2) by (auto intro: monitor_reachable.step)
qed (use assms in simp)

text \<open>A thread that has not ended can move, or the holder of the mutex can.\<close>

lemma worker_can_step:
  assumes "monitor_inv threads m" "mo_timer m = TEnded" "w < threads" "mo_pc m w \<noteq> Ended"
  shows "\<exists>m'. monitor_step m m'"
proof -
  have q: "mo_quit m" "mo_pc m w \<noteq> Waiting" and c: "mo_count m = threads" using assms(1,2) by (auto simp: monitor_inv_def quit_ok_def)
  show ?thesis
  proof (cases "mo_mutex m")
    case None
    then have w: "at_pc m w (mo_pc m w)" "\<not> locked (mo_pc m w)" using assms(1,3) c by (auto simp: at_pc_def monitor_inv_def mutex_ok_def)
    then show ?thesis using assms(4) q None
      by (cases "mo_pc m w") (auto dest: check_quit work_again lock relock)
  next
    case (Some t)
    then obtain v where v: "locked (mo_pc m v)" using assms(1,2) by (cases t) (auto simp: monitor_inv_def mutex_ok_def)
    have "v < threads" by (rule ccontr) (use v assms(1) in \<open>auto simp: monitor_inv_def\<close>)
    then have "at_pc m v (mo_pc m v)" using c by (simp add: at_pc_def)
    then show ?thesis using v q(1) by (cases "mo_pc m v") (auto dest: no_wait unlock)
  qed
qed

text \<open>
  C21. The shutdown ends. Once the timer thread has set \<open>quit\<close>, sent its broadcast and ended, every
  interleaving of the workers from there takes at most six steps a worker, and it can stop only when
  every worker has left its loop: no worker sleeps through the shutdown and none is blocked, whatever
  it was doing when \<open>quit\<close> was set, so that \<open>pthread_join\<close> returns for all of them.
\<close>

theorem shutdown_terminates:
  assumes "monitor_reachable threads m" "mo_timer m = TEnded" "(monitor_step ^^ j) m m'"
  shows "j \<le> 6 * threads \<and> ((\<exists>m''. monitor_step m' m'') \<or> (\<forall>w < threads. mo_pc m' w = Ended))"
proof -
  have r: "monitor_reachable threads m'" "mo_timer m' = TEnded" "j + shutdown_rank m' \<le> shutdown_rank m"
    using shutdown_runs [OF assms(3,1,2)] by auto
  have "mo_count m = threads" using monitor_reachable_inv [OF assms(1)] by (simp add: monitor_inv_def)
  then have "j \<le> 6 * threads" using r(3) shutdown_bound [of m] by simp
  then show ?thesis using worker_can_step [OF monitor_reachable_inv [OF r(1)] r(2)] by blast
qed

definition quit_sent :: monitor where
  "quit_sent = (monitor_start 1)\<lparr>mo_timer := TEnded, mo_quit := True\<rparr>"

lemma quit_sent_reachable: "monitor_reachable 1 quit_sent"
proof -
  define a b c d where "a = (monitor_start 1)\<lparr>mo_timer := TWantLock\<rparr>" and "b = a\<lparr>mo_timer := THasLock, mo_mutex := Some TimerThread\<rparr>"
    and "c = b\<lparr>mo_timer := TQuitSet, mo_quit := True\<rparr>"
    and "d = c\<lparr>mo_timer := TBroadcast, mo_pc := (\<lambda>w. if mo_pc c w = Waiting then Woken else mo_pc c w)\<rparr>"
  note defs = a_def b_def c_def d_def monitor_start_def
  have "monitor_step (monitor_start 1) a" unfolding a_def by (rule abort) (simp add: monitor_start_def)
  moreover have "monitor_step a b" unfolding b_def by (rule timer_lock) (simp_all add: defs)
  moreover have "monitor_step b c" unfolding c_def by (rule timer_quit) (simp add: defs)
  moreover have "monitor_step c d" unfolding d_def by (rule timer_broadcast) (simp add: defs)
  moreover have "monitor_step d (d\<lparr>mo_timer := TEnded, mo_mutex := None\<rparr>)" by (rule timer_unlock) (simp add: defs)
  ultimately have "monitor_reachable 1 (d\<lparr>mo_timer := TEnded, mo_mutex := None\<rparr>)"
    using monitor_reachable.start [of 1] monitor_reachable.step by metis
  then show ?thesis by (simp add: quit_sent_def defs)
qed

theorem shutdown_terminates_witness:
  "\<exists>m. monitor_reachable 1 quit_sent \<and> mo_timer quit_sent = TEnded \<and> (monitor_step ^^ 1) quit_sent m
    \<and> 1 \<le> 6 * (1 :: nat) \<and> ((\<exists>m''. monitor_step m m'') \<or> mo_pc m 0 = Ended)"
proof -
  have t: "mo_timer quit_sent = TEnded" by (simp add: quit_sent_def)
  have "monitor_step quit_sent (goto quit_sent 0 Ended)"
    by (rule check_quit) (simp_all add: quit_sent_def at_pc_def monitor_start_def)
  then have one: "(monitor_step ^^ 1) quit_sent (goto quit_sent 0 Ended)" by (simp only: relpowp_1)
  from shutdown_terminates [OF quit_sent_reachable t one] show ?thesis
    using quit_sent_reachable t one by (intro exI [of _ "goto quit_sent 0 Ended"] conjI) simp_all
qed

end
