(* ===== verification/Sky_Socket.thy ===== *)
theory Sky_Socket
  imports Sky_Service
begin

text \<open>
  Model of \<^verbatim>\<open>skynet-src/socket_server.c\<close>, first part: the data of the socket server, its memory
  and its calls of the operating system, the allocation of socket ids, the lists of waiting writes,
  and the closing of a socket.

  The operating system is a parameter: a function from the calls made so far with their answers, and
  the next call, to its answer. Every behaviour of a kernel is one of these functions; what the code
  relies on is stated as a hypothesis where it is needed. A step of the socket thread or of a worker
  is one function of this theory; a spin lock that another thread holds is the flag \<open>so_lock\<close>.
\<close>

section \<open>The operating system\<close>

datatype family = AF_INET | AF_INET6 | AF_OTHER int

text \<open>A socket address: the port in network order, and 4 or 16 bytes of address.\<close>

record sockaddr =
  sa_family :: family
  sa_port :: "u8 list"
  sa_bytes :: "u8 list"

datatype errno = EINTR | EAGAIN | EINPROGRESS | EMFILE | ENFILE | E_OTHER int

text \<open>\<open>struct event\<close>: the socket is its slot, \<open>None\<close> for the pipe.\<close>

record poll_event =
  ev_s :: "nat option"
  ev_read :: bool
  ev_write :: bool
  ev_error :: bool
  ev_eof :: bool

datatype syscall =
    Sys_write int "u8 list"
  | Sys_sendto int "u8 list" sockaddr
  | Sys_read int nat
  | Sys_recvfrom int
  | Sys_accept int
  | Sys_close int
  | Sys_shutdown_rd int
  | Sys_shutdown_wr int
  | Sys_socket family bool
  | Sys_connect int sockaddr
  | Sys_getaddrinfo string int bool
  | Sys_reuseaddr int
  | Sys_bind int sockaddr
  | Sys_listen int int
  | Sys_keepalive int
  | Sys_nonblocking int
  | Sys_setsockopt int int int
  | Sys_so_error int
  | Sys_getsockname int
  | Sys_getpeername int
  | Sys_dup int
  | Sp_add int "nat option"
  | Sp_del int
  | Sp_enable int nat bool bool
  | Sp_wait

record answer =
  an_ret :: int
  an_errno :: errno
  an_bytes :: "u8 list"
  an_addrs :: "sockaddr list"
  an_so_error :: "errno option"
  an_events :: "poll_event list"
  an_text :: string

section \<open>Data\<close>

text \<open>A pointer is the address of a block and an offset into it.\<close>

type_synonym ptr = "nat \<times> nat"

definition USEROBJECT :: nat where "USEROBJECT = 2 ^ 64 - 1"
definition MAX_SOCKET :: nat where "MAX_SOCKET = 65536"
definition MIN_READ_BUFFER :: int where "MIN_READ_BUFFER = 64"
definition MAX_EVENT :: nat where "MAX_EVENT = 64"
definition WARNING_SIZE :: int where "WARNING_SIZE = 1024 * 1024"
definition PROTOCOL_TCP :: u8 where "PROTOCOL_TCP = 0"
definition PROTOCOL_UDP :: u8 where "PROTOCOL_UDP = 1"
definition PROTOCOL_UDPv6 :: u8 where "PROTOCOL_UDPv6 = 2"
definition PROTOCOL_UNKNOWN :: u8 where "PROTOCOL_UNKNOWN = 255"

text \<open>\<open>wb_addr\<close> is the address of a \<open>write_buffer_udp\<close>. A list of them is a list.\<close>

record write_buffer =
  wb_buffer :: nat
  wb_ptr :: ptr
  wb_sz :: nat
  wb_user :: bool
  wb_addr :: "u8 list"

datatype socket_type =
    SOCKET_TYPE_INVALID
  | SOCKET_TYPE_RESERVE
  | SOCKET_TYPE_PLISTEN
  | SOCKET_TYPE_LISTEN
  | SOCKET_TYPE_CONNECTING
  | SOCKET_TYPE_CONNECTED
  | SOCKET_TYPE_HALFCLOSE_READ
  | SOCKET_TYPE_HALFCLOSE_WRITE
  | SOCKET_TYPE_PACCEPT
  | SOCKET_TYPE_BIND

text \<open>
  The two members of the union \<open>p\<close> are two fields: \<open>so_size\<close> is used for TCP and \<open>so_addr\<close> for UDP
  only. \<open>so_sending\<close> is an unsigned long that the tests around its updates keep from wrapping around.
\<close>

record sock =
  so_opaque :: u64
  so_high :: "write_buffer list"
  so_low :: "write_buffer list"
  so_wb_size :: int
  so_rtime :: u64
  so_wtime :: u64
  so_read :: u64
  so_write :: u64
  so_sending :: nat
  so_fd :: int
  so_id :: int
  so_type :: socket_type
  so_protocol :: u8
  so_reading :: bool
  so_writing :: bool
  so_closing :: bool
  so_udpconnecting :: int
  so_warn_size :: int
  so_size :: int
  so_addr :: "u8 list"
  so_lock :: bool
  so_dw_offset :: nat
  so_dw_buffer :: nat
  so_dw_size :: nat

text \<open>The requests in the pipe, by the letter of their type.\<close>

datatype request =
    Req_R int u64
  | Req_S int u64
  | Req_B int int u64
  | Req_L int int u64
  | Req_K int bool u64
  | Req_O int int u64 string
  | Req_X
  | Req_W int
  | Req_D int nat nat
  | Req_P int nat nat
  | Req_A int nat nat "u8 list"
  | Req_C int "u8 list"
  | Req_N int int u64 "u8 list"
  | Req_T int int int
  | Req_U int int family u64

text \<open>The data of a \<open>socket_message\<close>: the null pointer, a text, or the address of a block.\<close>

datatype msg_text = NoData | Text string | Block nat

record poll_result =
  pr_id :: int
  pr_opaque :: u64
  pr_ud :: int
  pr_data :: msg_text

text \<open>
  \<open>struct socket_server\<close> with the memory, the pipe, the calls of the system with their answers, what
  was printed, and the message \<open>result\<close> that \<open>socket_server_poll\<close> fills in. The events that are left are
  those of \<open>srv_ev\<close> from \<open>srv_event_index\<close> on.
\<close>

record server =
  srv_time :: u64
  srv_reserve_fd :: int
  srv_checkctrl :: bool
  srv_alloc_id :: int
  srv_ev :: "poll_event list"
  srv_event_index :: nat
  srv_slot :: "nat \<Rightarrow> sock"
  srv_pipe :: "request list"
  srv_mem :: "nat \<Rightarrow> u8 list option"
  srv_brk :: nat
  srv_trace :: "(syscall \<times> answer) list"
  srv_errno :: errno
  srv_log :: "string list"
  srv_result :: poll_result

text \<open>The operating system, the texts of its errors and addresses, and the interface \<open>soi\<close> of user objects.\<close>

record sockenv =
  en_os :: "(syscall \<times> answer) list \<Rightarrow> syscall \<Rightarrow> answer"
  en_strerror :: "errno \<Rightarrow> string"
  en_ntop :: "sockaddr \<Rightarrow> string option"
  en_soi_buffer :: "nat \<Rightarrow> ptr"
  en_soi_size :: "nat \<Rightarrow> nat"
  en_soi_free :: "nat \<Rightarrow> (nat \<Rightarrow> u8 list option) \<Rightarrow> (nat \<Rightarrow> u8 list option) res"

section \<open>Calls, memory and slots\<close>

definition sysc :: "sockenv \<Rightarrow> server \<Rightarrow> syscall \<Rightarrow> server \<times> answer" where
  "sysc E ss c =
     (let a = en_os E (srv_trace ss) c in
      (ss\<lparr>srv_trace := srv_trace ss @ [(c, a)], srv_errno := (if an_ret a < 0 then an_errno a else srv_errno ss)\<rparr>, a))"

text \<open>A call whose answer is not looked at.\<close>

definition sysdo :: "sockenv \<Rightarrow> server \<Rightarrow> syscall \<Rightarrow> server" where
  "sysdo E ss c = fst (sysc E ss c)"

definition strerr :: "sockenv \<Rightarrow> server \<Rightarrow> string" where
  "strerr E ss = en_strerror E (srv_errno ss)"

definition log_error :: "server \<Rightarrow> string \<Rightarrow> server" where
  "log_error ss t = ss\<lparr>srv_log := srv_log ss @ [t]\<rparr>"

definition srv_malloc :: "server \<Rightarrow> u8 list \<Rightarrow> server \<times> nat" where
  "srv_malloc ss bs = (ss\<lparr>srv_mem := (srv_mem ss)(srv_brk ss \<mapsto> bs), srv_brk := Suc (srv_brk ss)\<rparr>, srv_brk ss)"

definition srv_free :: "server \<Rightarrow> nat \<Rightarrow> server res" where
  "srv_free ss p =
     (if p = 0 then Inr ss else cbind (deref (srv_mem ss) p) (\<lambda>_. Inr (ss\<lparr>srv_mem := (srv_mem ss)(p := None)\<rparr>)))"

definition soi_free :: "sockenv \<Rightarrow> server \<Rightarrow> nat \<Rightarrow> server res" where
  "soi_free E ss p = cbind (en_soi_free E p (srv_mem ss)) (\<lambda>mem. Inr (ss\<lparr>srv_mem := mem\<rparr>))"

definition read_ptr :: "server \<Rightarrow> ptr \<Rightarrow> nat \<Rightarrow> u8 list res" where
  "read_ptr ss p len =
     cbind (deref (srv_mem ss) (fst p)) (\<lambda>bs.
     if snd p + len \<le> length bs then Inr (take len (drop (snd p) bs)) else Inl OutOfBounds)"

definition HASH_ID :: "int \<Rightarrow> nat" where
  "HASH_ID i = nat (i mod 65536)"

definition ID_TAG16 :: "int \<Rightarrow> nat" where
  "ID_TAG16 i = nat ((i div 65536) mod 65536)"

definition set_sock :: "server \<Rightarrow> nat \<Rightarrow> sock \<Rightarrow> server" where
  "set_sock ss i s = ss\<lparr>srv_slot := (srv_slot ss)(i := s)\<rparr>"

definition set_type :: "server \<Rightarrow> nat \<Rightarrow> socket_type \<Rightarrow> server" where
  "set_type ss i t = set_sock ss i ((srv_slot ss i)\<lparr>so_type := t\<rparr>)"

definition put_result :: "server \<Rightarrow> int \<Rightarrow> u64 \<Rightarrow> int \<Rightarrow> msg_text \<Rightarrow> server" where
  "put_result ss i opaque ud data = ss\<lparr>srv_result := \<lparr>pr_id = i, pr_opaque = opaque, pr_ud = ud, pr_data = data\<rparr>\<rparr>"

definition sock_result :: "server \<Rightarrow> nat \<Rightarrow> int \<Rightarrow> msg_text \<Rightarrow> server" where
  "sock_result ss i ud data = put_result ss (so_id (srv_slot ss i)) (so_opaque (srv_slot ss i)) ud data"

definition result_data :: "server \<Rightarrow> msg_text \<Rightarrow> server" where
  "result_data ss data = ss\<lparr>srv_result := (srv_result ss)\<lparr>pr_data := data\<rparr>\<rparr>"

text \<open>The nested lock: \<open>l\<close> is the count of \<open>struct socket_lock\<close>. A lock that another thread holds blocks.\<close>

definition socket_lock :: "server \<Rightarrow> nat \<Rightarrow> nat \<Rightarrow> (server \<times> nat) res" where
  "socket_lock ss i l =
     (if l = 0 then
        if so_lock (srv_slot ss i) then Inl Diverges else Inr (set_sock ss i ((srv_slot ss i)\<lparr>so_lock := True\<rparr>), 1)
      else Inr (ss, Suc l))"

definition socket_trylock :: "server \<Rightarrow> nat \<Rightarrow> nat \<Rightarrow> (server \<times> nat) option" where
  "socket_trylock ss i l =
     (if l = 0 then
        if so_lock (srv_slot ss i) then None else Some (set_sock ss i ((srv_slot ss i)\<lparr>so_lock := True\<rparr>), 1)
      else Some (ss, Suc l))"

definition socket_unlock :: "server \<Rightarrow> nat \<Rightarrow> nat \<Rightarrow> server res" where
  "socket_unlock ss i l =
     cbind (c_assert (0 < l)) (\<lambda>_.
     if l = 1 then Inr (set_sock ss i ((srv_slot ss i)\<lparr>so_lock := False\<rparr>)) else Inr ss)"

definition socket_invalid :: "sock \<Rightarrow> int \<Rightarrow> bool" where
  "socket_invalid s i \<longleftrightarrow> so_id s \<noteq> i \<or> so_type s = SOCKET_TYPE_INVALID"

section \<open>Objects to send\<close>

datatype buffer_type = SOCKET_BUFFER_MEMORY | SOCKET_BUFFER_OBJECT | SOCKET_BUFFER_RAWPOINTER

record sendbuffer =
  sb_id :: int
  sb_type :: buffer_type
  sb_buffer :: nat
  sb_sz :: nat

datatype free_func = Free_soi | Free_mem | Free_dummy

record send_object =
  ob_buffer :: ptr
  ob_sz :: nat
  ob_free :: free_func

definition send_object_init :: "sockenv \<Rightarrow> nat \<Rightarrow> nat \<Rightarrow> send_object \<times> bool" where
  "send_object_init E object len =
     (if len = USEROBJECT
      then (\<lparr>ob_buffer = en_soi_buffer E object, ob_sz = en_soi_size E object, ob_free = Free_soi\<rparr>, True)
      else (\<lparr>ob_buffer = (object, 0), ob_sz = len, ob_free = Free_mem\<rparr>, False))"

definition send_object_init_from_sendbuffer :: "sockenv \<Rightarrow> sendbuffer \<Rightarrow> send_object" where
  "send_object_init_from_sendbuffer E buf =
     (case sb_type buf of
        SOCKET_BUFFER_MEMORY \<Rightarrow> fst (send_object_init E (sb_buffer buf) (sb_sz buf))
      | SOCKET_BUFFER_OBJECT \<Rightarrow> fst (send_object_init E (sb_buffer buf) USEROBJECT)
      | SOCKET_BUFFER_RAWPOINTER \<Rightarrow> \<lparr>ob_buffer = (sb_buffer buf, 0), ob_sz = sb_sz buf, ob_free = Free_dummy\<rparr>)"

fun free_object :: "sockenv \<Rightarrow> server \<Rightarrow> free_func \<Rightarrow> nat \<Rightarrow> server res" where
  "free_object E ss Free_soi p = soi_free E ss p"
| "free_object E ss Free_mem p = srv_free ss p"
| "free_object E ss Free_dummy p = Inr ss"

definition write_buffer_free :: "sockenv \<Rightarrow> server \<Rightarrow> write_buffer \<Rightarrow> server res" where
  "write_buffer_free E ss wb = free_object E ss (if wb_user wb then Free_soi else Free_mem) (wb_buffer wb)"

definition free_buffer :: "sockenv \<Rightarrow> server \<Rightarrow> buffer_type \<Rightarrow> nat \<Rightarrow> server res" where
  "free_buffer E ss type p =
     free_object E ss (case type of SOCKET_BUFFER_MEMORY \<Rightarrow> Free_mem | SOCKET_BUFFER_OBJECT \<Rightarrow> Free_soi | SOCKET_BUFFER_RAWPOINTER \<Rightarrow> Free_dummy) p"

text \<open>The buffer to keep, and its size: a raw pointer is copied.\<close>

definition clone_buffer :: "server \<Rightarrow> sendbuffer \<Rightarrow> (server \<times> nat \<times> nat) res" where
  "clone_buffer ss buf =
     (case sb_type buf of
        SOCKET_BUFFER_MEMORY \<Rightarrow> Inr (ss, sb_buffer buf, sb_sz buf)
      | SOCKET_BUFFER_OBJECT \<Rightarrow> Inr (ss, sb_buffer buf, USEROBJECT)
      | SOCKET_BUFFER_RAWPOINTER \<Rightarrow>
          cbind (read_ptr ss (sb_buffer buf, 0) (sb_sz buf)) (\<lambda>bs.
          let (ss, p) = srv_malloc ss bs in Inr (ss, p, sb_sz buf)))"

section \<open>Socket ids\<close>

text \<open>\<open>to_int\<close> is the wrap-around of \<open>int\<close>; the loop of \<open>reserve_id\<close> from its \<open>i\<close>-th pass on has \<open>k\<close> passes left.\<close>

primrec reserve_loop :: "nat \<Rightarrow> server \<Rightarrow> server \<times> int" where
  "reserve_loop 0 ss = (ss, -1)"
| "reserve_loop (Suc k) ss =
     (let a = to_int (srv_alloc_id ss + 1);
          i = (if a < 0 then a mod 2 ^ 31 else a);
          ss = ss\<lparr>srv_alloc_id := i\<rparr>;
          s = srv_slot ss (HASH_ID i) in
      if so_type s = SOCKET_TYPE_INVALID then
        (set_sock ss (HASH_ID i) (s\<lparr>so_type := SOCKET_TYPE_RESERVE, so_id := i, so_protocol := PROTOCOL_UNKNOWN,
           so_udpconnecting := 0, so_fd := -1\<rparr>), i)
      else reserve_loop k ss)"

definition reserve_id :: "server \<Rightarrow> server \<times> int" where
  "reserve_id ss = reserve_loop MAX_SOCKET ss"

section \<open>Closing a socket\<close>

primrec free_wb_list :: "sockenv \<Rightarrow> server \<Rightarrow> write_buffer list \<Rightarrow> server res" where
  "free_wb_list E ss [] = Inr ss"
| "free_wb_list E ss (wb # wbs) = cbind (write_buffer_free E ss wb) (\<lambda>ss. free_wb_list E ss wbs)"

definition force_close :: "sockenv \<Rightarrow> server \<Rightarrow> nat \<Rightarrow> nat \<Rightarrow> server res" where
  "force_close E ss i l =
     (let ss = sock_result ss i 0 NoData; type = so_type (srv_slot ss i) in
      if type = SOCKET_TYPE_INVALID then Inr ss
      else
        cbind (c_assert (type \<noteq> SOCKET_TYPE_RESERVE)) (\<lambda>_.
        cbind (free_wb_list E ss (so_high (srv_slot ss i))) (\<lambda>ss.
        let ss = set_sock ss i ((srv_slot ss i)\<lparr>so_high := []\<rparr>) in
        cbind (free_wb_list E ss (so_low (srv_slot ss i))) (\<lambda>ss.
        let ss = set_sock ss i ((srv_slot ss i)\<lparr>so_low := []\<rparr>);
            ss = sysdo E ss (Sp_del (so_fd (srv_slot ss i))) in
        cbind (socket_lock ss i l) (\<lambda>(ss, l).
        let ss = (if type \<noteq> SOCKET_TYPE_BIND then sysdo E ss (Sys_close (so_fd (srv_slot ss i))) else ss);
            ss = set_type ss i SOCKET_TYPE_INVALID;
            s = srv_slot ss i in
        cbind (if so_dw_buffer s \<noteq> 0 then
                 cbind (free_buffer E ss (if so_dw_size s = USEROBJECT then SOCKET_BUFFER_OBJECT else SOCKET_BUFFER_MEMORY)
                          (so_dw_buffer s)) (\<lambda>ss.
                 Inr (set_sock ss i ((srv_slot ss i)\<lparr>so_dw_buffer := 0\<rparr>)))
               else Inr ss) (\<lambda>ss.
        socket_unlock ss i l))))))"

section \<open>Events\<close>

definition enable_write :: "sockenv \<Rightarrow> server \<Rightarrow> nat \<Rightarrow> bool \<Rightarrow> server \<times> bool" where
  "enable_write E ss i enable =
     (let s = srv_slot ss i in
      if so_writing s \<noteq> enable then
        let ss = set_sock ss i (s\<lparr>so_writing := enable\<rparr>);
            (ss, a) = sysc E ss (Sp_enable (so_fd s) i (so_reading s) enable) in (ss, an_ret a \<noteq> 0)
      else (ss, False))"

definition enable_read :: "sockenv \<Rightarrow> server \<Rightarrow> nat \<Rightarrow> bool \<Rightarrow> server \<times> bool" where
  "enable_read E ss i enable =
     (let s = srv_slot ss i in
      if so_reading s \<noteq> enable then
        let ss = set_sock ss i (s\<lparr>so_reading := enable\<rparr>);
            (ss, a) = sysc E ss (Sp_enable (so_fd s) i enable (so_writing s)) in (ss, an_ret a \<noteq> 0)
      else (ss, False))"

text \<open>\<open>None\<close> is the null pointer.\<close>

definition new_fd :: "sockenv \<Rightarrow> server \<Rightarrow> int \<Rightarrow> int \<Rightarrow> u8 \<Rightarrow> u64 \<Rightarrow> bool \<Rightarrow> (server \<times> nat option) res" where
  "new_fd E ss sid fd protocol opaque reading =
     (let i = HASH_ID sid in
      cbind (c_assert (so_type (srv_slot ss i) = SOCKET_TYPE_RESERVE)) (\<lambda>_.
      let (ss, a) = sysc E ss (Sp_add fd (Some i)) in
      if an_ret a \<noteq> 0 then Inr (set_type ss i SOCKET_TYPE_INVALID, None)
      else
        let ss = set_sock ss i ((srv_slot ss i)\<lparr>so_id := sid, so_fd := fd, so_reading := True, so_writing := False,
               so_closing := False, so_sending := ID_TAG16 sid * 65536, so_protocol := protocol, so_size := MIN_READ_BUFFER,
               so_opaque := opaque, so_wb_size := 0, so_warn_size := 0\<rparr>) in
        cbind (c_assert (so_high (srv_slot ss i) = [])) (\<lambda>_.
        cbind (c_assert (so_low (srv_slot ss i) = [])) (\<lambda>_.
        let ss = set_sock ss i ((srv_slot ss i)\<lparr>so_dw_buffer := 0, so_dw_size := 0, so_rtime := 0, so_wtime := 0,
               so_read := 0, so_write := 0\<rparr>);
            (ss, err) = enable_read E ss i reading in
        if err then Inr (set_type ss i SOCKET_TYPE_INVALID, None) else Inr (ss, Some i)))))"

definition stat_read :: "server \<Rightarrow> nat \<Rightarrow> int \<Rightarrow> server" where
  "stat_read ss i n =
     set_sock ss i ((srv_slot ss i)\<lparr>so_read := so_read (srv_slot ss i) + of_int n, so_rtime := srv_time ss\<rparr>)"

definition stat_write :: "server \<Rightarrow> nat \<Rightarrow> int \<Rightarrow> server" where
  "stat_write ss i n =
     set_sock ss i ((srv_slot ss i)\<lparr>so_write := so_write (srv_slot ss i) + of_int n, so_wtime := srv_time ss\<rparr>)"

definition report_error :: "server \<Rightarrow> nat \<Rightarrow> string \<Rightarrow> server \<times> int" where
  "report_error ss i err = (sock_result ss i 0 (Text err), SOCKET_ERR)"

definition close_write :: "sockenv \<Rightarrow> server \<Rightarrow> nat \<Rightarrow> nat \<Rightarrow> (server \<times> int) res" where
  "close_write E ss i l =
     (let s = srv_slot ss i in
      if so_closing s \<or> so_type s = SOCKET_TYPE_HALFCLOSE_READ then
        cbind (force_close E ss i l) (\<lambda>ss. Inr (ss, SOCKET_RST))
      else if so_type s = SOCKET_TYPE_HALFCLOSE_WRITE then Inr (ss, SOCKET_RST)
      else
        let ss = set_type ss i SOCKET_TYPE_HALFCLOSE_WRITE;
            ss = sysdo E ss (Sys_shutdown_wr (so_fd s));
            (ss, _) = enable_write E ss i False in
        Inr (report_error ss i (strerr E ss)))"

section \<open>The write lists\<close>

text \<open>The list of the priority: \<open>hi\<close> is \<open>PRIORITY_HIGH\<close>.\<close>

definition wb_list :: "bool \<Rightarrow> sock \<Rightarrow> write_buffer list" where
  "wb_list hi s = (if hi then so_high s else so_low s)"

definition set_list :: "bool \<Rightarrow> write_buffer list \<Rightarrow> sock \<Rightarrow> sock" where
  "set_list hi wbs s = (if hi then s\<lparr>so_high := wbs\<rparr> else s\<lparr>so_low := wbs\<rparr>)"

definition shrink :: "server \<Rightarrow> nat \<Rightarrow> nat \<Rightarrow> server" where
  "shrink ss i n = set_sock ss i ((srv_slot ss i)\<lparr>so_wb_size := so_wb_size (srv_slot ss i) - int n\<rparr>)"

definition put_list :: "server \<Rightarrow> nat \<Rightarrow> bool \<Rightarrow> write_buffer list \<Rightarrow> server" where
  "put_list ss i hi wbs = set_sock ss i (set_list hi wbs (srv_slot ss i))"

text \<open>The inner loop of \<open>send_list_tcp\<close>: a write that was interrupted is tried again.\<close>

partial_function (option) write_retry :: "sockenv \<Rightarrow> server \<Rightarrow> int \<Rightarrow> u8 list \<Rightarrow> (server \<times> answer) option" where
  "write_retry E ss fd bs =
     (case sysc E ss (Sys_write fd bs) of
        (ss, a) \<Rightarrow> if an_ret a < 0 \<and> an_errno a = EINTR then write_retry E ss fd bs else Some (ss, a))"

definition write_result :: "sockenv \<Rightarrow> server \<Rightarrow> int \<Rightarrow> u8 list \<Rightarrow> (server \<times> answer) res" where
  "write_result E ss fd bs = (case write_retry E ss fd bs of None \<Rightarrow> Inl Diverges | Some r \<Rightarrow> Inr r)"

definition advance :: "write_buffer \<Rightarrow> nat \<Rightarrow> write_buffer" where
  "advance wb n = wb\<lparr>wb_ptr := (fst (wb_ptr wb), snd (wb_ptr wb) + n), wb_sz := wb_sz wb - n\<rparr>"

text \<open>The outer loop over the list it finds.\<close>

primrec tcp_loop :: "sockenv \<Rightarrow> nat \<Rightarrow> bool \<Rightarrow> nat \<Rightarrow> server \<Rightarrow> write_buffer list \<Rightarrow> (server \<times> int) res" where
  "tcp_loop E i hi l ss [] = Inr (ss, -1)"
| "tcp_loop E i hi l ss (tmp # rest) =
     cbind (read_ptr ss (wb_ptr tmp) (wb_sz tmp)) (\<lambda>bs.
     cbind (write_result E ss (so_fd (srv_slot ss i)) bs) (\<lambda>(ss, a).
     if an_ret a < 0 then
       if an_errno a = EAGAIN then Inr (ss, -1) else close_write E ss i l
     else
       let n = nat (an_ret a); ss = shrink (stat_write ss i (an_ret a)) i n in
       if n \<noteq> wb_sz tmp then Inr (put_list ss i hi (advance tmp n # rest), -1)
       else cbind (write_buffer_free E (put_list ss i hi rest) tmp) (\<lambda>ss. tcp_loop E i hi l ss rest)))"

definition send_list_tcp :: "sockenv \<Rightarrow> nat \<Rightarrow> bool \<Rightarrow> nat \<Rightarrow> server \<Rightarrow> (server \<times> int) res" where
  "send_list_tcp E i hi l ss = tcp_loop E i hi l ss (wb_list hi (srv_slot ss i))"

text \<open>The address of a datagram: \<open>None\<close> is the length 0.\<close>

definition udp_socket_address :: "sock \<Rightarrow> u8 list \<Rightarrow> sockaddr option" where
  "udp_socket_address s udp_address =
     (if hd udp_address \<noteq> so_protocol s then None
      else if so_protocol s = PROTOCOL_UDP then
        Some \<lparr>sa_family = AF_INET, sa_port = take 2 (drop 1 udp_address), sa_bytes = take 4 (drop 3 udp_address)\<rparr>
      else if so_protocol s = PROTOCOL_UDPv6 then
        Some \<lparr>sa_family = AF_INET6, sa_port = take 2 (drop 1 udp_address), sa_bytes = take 16 (drop 3 udp_address)\<rparr>
      else None)"

definition drop_udp :: "sockenv \<Rightarrow> server \<Rightarrow> nat \<Rightarrow> bool \<Rightarrow> write_buffer \<Rightarrow> write_buffer list \<Rightarrow> server res" where
  "drop_udp E ss i hi tmp rest = write_buffer_free E (put_list (shrink ss i (wb_sz tmp)) i hi rest) tmp"

text \<open>The loop of \<open>send_list_udp\<close> over the list it finds.\<close>

primrec udp_loop :: "sockenv \<Rightarrow> nat \<Rightarrow> bool \<Rightarrow> server \<Rightarrow> write_buffer list \<Rightarrow> (server \<times> int) res" where
  "udp_loop E i hi ss [] = Inr (ss, -1)"
| "udp_loop E i hi ss (tmp # rest) =
     (case udp_socket_address (srv_slot ss i) (wb_addr tmp) of
        None \<Rightarrow>
          cbind (drop_udp E (log_error ss (''socket-server : udp ('' @ int_str (so_id (srv_slot ss i)) @ '') error: type mismatch.''))
                   i hi tmp rest) (\<lambda>ss. Inr (ss, -1))
      | Some sa \<Rightarrow>
          cbind (read_ptr ss (wb_ptr tmp) (wb_sz tmp)) (\<lambda>bs.
          let (ss, a) = sysc E ss (Sys_sendto (so_fd (srv_slot ss i)) bs sa) in
          if an_ret a < 0 then
            if an_errno a = EINTR \<or> an_errno a = EAGAIN then Inr (ss, -1)
            else
              cbind (drop_udp E (log_error ss (''socket-server : udp ('' @ int_str (so_id (srv_slot ss i)) @ '') sendto error ''
                       @ strerr E ss @ ''.'')) i hi tmp rest) (\<lambda>ss. Inr (ss, -1))
          else
            cbind (drop_udp E (stat_write ss i (int (wb_sz tmp))) i hi tmp rest) (\<lambda>ss. udp_loop E i hi ss rest)))"

definition send_list_udp :: "sockenv \<Rightarrow> nat \<Rightarrow> bool \<Rightarrow> server \<Rightarrow> (server \<times> int) res" where
  "send_list_udp E i hi ss = udp_loop E i hi ss (wb_list hi (srv_slot ss i))"

definition send_list :: "sockenv \<Rightarrow> nat \<Rightarrow> bool \<Rightarrow> nat \<Rightarrow> server \<Rightarrow> (server \<times> int) res" where
  "send_list E i hi l ss =
     (if so_protocol (srv_slot ss i) = PROTOCOL_TCP then send_list_tcp E i hi l ss else send_list_udp E i hi ss)"

definition list_uncomplete :: "write_buffer list \<Rightarrow> bool" where
  "list_uncomplete wbs = (case wbs of [] \<Rightarrow> False | wb # _ \<Rightarrow> wb_ptr wb \<noteq> (wb_buffer wb, 0))"

definition raise_uncomplete :: "server \<Rightarrow> nat \<Rightarrow> server res" where
  "raise_uncomplete ss i =
     (let s = srv_slot ss i in
      case so_low s of
        [] \<Rightarrow> Inl NullDeref
      | tmp # rest \<Rightarrow>
          cbind (c_assert (so_high s = [])) (\<lambda>_. Inr (set_sock ss i (s\<lparr>so_low := rest, so_high := [tmp]\<rparr>))))"

definition send_buffer_empty :: "sock \<Rightarrow> bool" where
  "send_buffer_empty s \<longleftrightarrow> so_high s = [] \<and> so_low s = []"

definition finish_write :: "sockenv \<Rightarrow> server \<Rightarrow> nat \<Rightarrow> nat \<Rightarrow> (server \<times> int) res" where
  "finish_write E ss i l =
     cbind (c_assert (send_buffer_empty (srv_slot ss i) \<and> so_wb_size (srv_slot ss i) = 0)) (\<lambda>_.
     if so_closing (srv_slot ss i) then cbind (force_close E ss i l) (\<lambda>ss. Inr (ss, -1))
     else
       let (ss, err) = enable_write E ss i False in
       if err then Inr (report_error ss i ''disable write failed'')
       else if so_warn_size (srv_slot ss i) > 0 then
         let ss = set_sock ss i ((srv_slot ss i)\<lparr>so_warn_size := 0\<rparr>) in
         Inr (sock_result ss i 0 NoData, SOCKET_WARNING)
       else Inr (ss, -1))"

definition send_buffer_locked :: "sockenv \<Rightarrow> nat \<Rightarrow> nat \<Rightarrow> server \<Rightarrow> (server \<times> int) res" where
  "send_buffer_locked E i l ss =
     cbind (c_assert (\<not> list_uncomplete (so_low (srv_slot ss i)))) (\<lambda>_.
     cbind (send_list E i True l ss) (\<lambda>(ss, ret).
     if ret \<noteq> -1 then Inr (ss, if ret = SOCKET_ERR then SOCKET_ERR else -1)
     else if so_high (srv_slot ss i) \<noteq> [] then Inr (ss, -1)
     else if so_low (srv_slot ss i) = [] then finish_write E ss i l
     else
       cbind (send_list E i False l ss) (\<lambda>(ss, ret).
       if ret \<noteq> -1 then Inr (ss, if ret = SOCKET_ERR then SOCKET_ERR else -1)
       else if list_uncomplete (so_low (srv_slot ss i)) then cbind (raise_uncomplete ss i) (\<lambda>ss. Inr (ss, -1))
       else if so_low (srv_slot ss i) \<noteq> [] then Inr (ss, -1)
       else finish_write E ss i l)))"

text \<open>The rest of a direct write goes before the high list.\<close>

definition take_direct :: "sockenv \<Rightarrow> server \<Rightarrow> nat \<Rightarrow> server" where
  "take_direct E ss i =
     (let s = srv_slot ss i in
      if so_dw_buffer s \<noteq> 0 then
        let (so, user) = send_object_init E (so_dw_buffer s) (so_dw_size s);
            buf = \<lparr>wb_buffer = so_dw_buffer s, wb_ptr = (fst (ob_buffer so), snd (ob_buffer so) + so_dw_offset s),
                   wb_sz = ob_sz so - so_dw_offset s, wb_user = user, wb_addr = []\<rparr> in
        set_sock ss i (s\<lparr>so_wb_size := so_wb_size s + int (wb_sz buf), so_high := buf # so_high s, so_dw_buffer := 0\<rparr>)
      else ss)"

definition send_buffer :: "sockenv \<Rightarrow> nat \<Rightarrow> nat \<Rightarrow> server \<Rightarrow> (server \<times> int) res" where
  "send_buffer E i l ss =
     (case socket_trylock ss i l of
        None \<Rightarrow> Inr (ss, -1)
      | Some (ss, l) \<Rightarrow>
          cbind (send_buffer_locked E i l (take_direct E ss i)) (\<lambda>(ss, r).
          cbind (socket_unlock ss i l) (\<lambda>ss. Inr (ss, r))))"

definition append_sendbuffer :: "sockenv \<Rightarrow> server \<Rightarrow> nat \<Rightarrow> bool \<Rightarrow> nat \<Rightarrow> nat \<Rightarrow> u8 list \<Rightarrow> server" where
  "append_sendbuffer E ss i hi len buffer addr =
     (let (so, user) = send_object_init E buffer len; s = srv_slot ss i;
          buf = \<lparr>wb_buffer = buffer, wb_ptr = ob_buffer so, wb_sz = ob_sz so, wb_user = user, wb_addr = addr\<rparr> in
      set_sock ss i ((set_list hi (wb_list hi s @ [buf]) s)\<lparr>so_wb_size := so_wb_size s + int (ob_sz so)\<rparr>))"

end
