(* ===== verification/Sky_Socket_Ops.thy ===== *)
theory Sky_Socket_Ops
  imports Sky_Socket
begin

text \<open>
  Model of \<^verbatim>\<open>skynet-src/socket_server.c\<close>, second part: the requests the socket thread takes from its
  pipe, the events it waits for, and the functions the workers call.
\<close>

section \<open>Requests\<close>

text \<open>The loop of \<open>open_socket\<close> over the addresses: the connected socket with the status and the address.\<close>

primrec connect_loop :: "sockenv \<Rightarrow> server \<Rightarrow> sockaddr list \<Rightarrow> server \<times> (int \<times> int \<times> sockaddr) option" where
  "connect_loop E ss [] = (ss, None)"
| "connect_loop E ss (ai # ais) =
     (let (ss, a) = sysc E ss (Sys_socket (sa_family ai) True) in
      if an_ret a < 0 then connect_loop E ss ais
      else
        let fd = an_ret a;
            ss = sysdo E (sysdo E ss (Sys_keepalive fd)) (Sys_nonblocking fd);
            (ss, c) = sysc E ss (Sys_connect fd ai) in
        if an_ret c \<noteq> 0 \<and> srv_errno ss \<noteq> EINPROGRESS then connect_loop E (sysdo E ss (Sys_close fd)) ais
        else (ss, Some (fd, an_ret c, ai)))"

definition open_failed :: "server \<Rightarrow> int \<Rightarrow> string \<Rightarrow> server \<times> int" where
  "open_failed ss sid err = (set_type (result_data ss (Text err)) (HASH_ID sid) SOCKET_TYPE_INVALID, SOCKET_ERR)"

definition name_data :: "sockenv \<Rightarrow> sockaddr \<Rightarrow> msg_text" where
  "name_data E sa = (case en_ntop E sa of None \<Rightarrow> NoData | Some t \<Rightarrow> Text t)"

definition open_socket :: "sockenv \<Rightarrow> server \<Rightarrow> int \<Rightarrow> int \<Rightarrow> u64 \<Rightarrow> string \<Rightarrow> (server \<times> int) res" where
  "open_socket E ss sid port opaque host =
     (let ss = put_result ss sid opaque 0 NoData;
          (ss, a) = sysc E ss (Sys_getaddrinfo host port True) in
      if an_ret a \<noteq> 0 then Inr (open_failed ss sid (an_text a))
      else
        let (ss, r) = connect_loop E ss (an_addrs a) in
        case r of
          None \<Rightarrow> Inr (open_failed ss sid (strerr E ss))
        | Some (fd, status, ai) \<Rightarrow>
            cbind (new_fd E ss sid fd PROTOCOL_TCP opaque True) (\<lambda>(ss, ns).
            case ns of
              None \<Rightarrow> Inr (open_failed (sysdo E ss (Sys_close fd)) sid ''reach skynet socket number limit'')
            | Some i \<Rightarrow>
                if status = 0 then
                  Inr (result_data (set_type ss i SOCKET_TYPE_CONNECTED) (name_data E ai), SOCKET_OPEN)
                else
                  let (ss, err) = enable_write E ss i True in
                  if err then Inr (open_failed (sysdo E ss (Sys_close fd)) sid ''enable write failed'')
                  else Inr (set_type ss i SOCKET_TYPE_CONNECTING, -1)))"

definition trigger_write :: "sockenv \<Rightarrow> server \<Rightarrow> int \<Rightarrow> server \<times> int" where
  "trigger_write E ss sid =
     (let i = HASH_ID sid in
      if socket_invalid (srv_slot ss i) sid then (ss, -1)
      else
        let (ss, err) = enable_write E ss i True in
        if err then report_error ss i ''enable write failed'' else (ss, -1))"

text \<open>The end of \<open>send_socket\<close>: a warning each time the waiting data has doubled.\<close>

definition warn_size :: "server \<Rightarrow> nat \<Rightarrow> server \<times> int" where
  "warn_size ss i =
     (let s = srv_slot ss i in
      if so_wb_size s \<ge> WARNING_SIZE \<and> so_wb_size s \<ge> so_warn_size s then
        let w = (if so_warn_size s = 0 then WARNING_SIZE * 2 else so_warn_size s * 2);
            ss = set_sock ss i (s\<lparr>so_warn_size := w\<rparr>) in
        (sock_result ss i (if so_wb_size s mod 1024 = 0 then so_wb_size s div 1024 else so_wb_size s div 1024 + 1) NoData,
         SOCKET_WARNING)
      else (ss, -1))"

text \<open>\<open>udp_address\<close> is \<open>None\<close> for the null pointer.\<close>

definition send_socket :: "sockenv \<Rightarrow> server \<Rightarrow> int \<Rightarrow> nat \<Rightarrow> nat \<Rightarrow> bool \<Rightarrow> u8 list option \<Rightarrow> (server \<times> int) res" where
  "send_socket E ss sid len buffer hi udp_address =
     (let i = HASH_ID sid; s = srv_slot ss i; so = fst (send_object_init E buffer len); type = so_type s;
          drop = (\<lambda>ss. cbind (free_object E ss (ob_free so) buffer) (\<lambda>ss. Inr (ss, -1)));
          addr = (case udp_address of None \<Rightarrow> so_addr s | Some a \<Rightarrow> a) in
      if type = SOCKET_TYPE_INVALID \<or> so_id s \<noteq> sid \<or> type = SOCKET_TYPE_HALFCLOSE_WRITE \<or> type = SOCKET_TYPE_PACCEPT \<or> so_closing s
      then drop ss
      else if type = SOCKET_TYPE_PLISTEN \<or> type = SOCKET_TYPE_LISTEN then
        drop (log_error ss (''socket-server error: write to listen fd '' @ int_str sid @ ''.''))
      else if send_buffer_empty s then
        let go = (\<lambda>ss. let (ss, err) = enable_write E ss i True in
                  if err then Inr (report_error ss i ''enable write failed'') else Inr (warn_size ss i)) in
        if so_protocol s = PROTOCOL_TCP then go (append_sendbuffer E ss i True len buffer [])
        else
          (case udp_socket_address s addr of
             None \<Rightarrow> drop (log_error ss (''socket-server: udp socket ('' @ int_str sid @ '') error: type mismatch.''))
           | Some sa \<Rightarrow>
               cbind (read_ptr ss (ob_buffer so) (ob_sz so)) (\<lambda>bs.
               let (ss, a) = sysc E ss (Sys_sendto (so_fd s) bs sa) in
               if an_ret a \<noteq> int (ob_sz so) then go (append_sendbuffer E ss i hi len buffer addr)
               else drop (stat_write ss i (an_ret a))))
      else if so_protocol s = PROTOCOL_TCP then Inr (warn_size (append_sendbuffer E ss i hi len buffer []) i)
      else Inr (warn_size (append_sendbuffer E ss i hi len buffer addr) i))"

text \<open>\<open>ntohs\<close> of a port.\<close>

definition port_of :: "sockaddr \<Rightarrow> int" where
  "port_of sa = (case sa_port sa of [a, b] \<Rightarrow> uint a * 256 + uint b | _ \<Rightarrow> 0)"

definition listen_socket :: "sockenv \<Rightarrow> server \<Rightarrow> int \<Rightarrow> int \<Rightarrow> u64 \<Rightarrow> (server \<times> int) res" where
  "listen_socket E ss sid listen_fd opaque =
     cbind (new_fd E ss sid listen_fd PROTOCOL_TCP opaque False) (\<lambda>(ss, r).
     case r of
       None \<Rightarrow>
         let ss = put_result (sysdo E ss (Sys_close listen_fd)) sid opaque 0 (Text ''reach skynet socket number limit'') in
         Inr (set_type ss (HASH_ID sid) SOCKET_TYPE_INVALID, SOCKET_ERR)
     | Some i \<Rightarrow>
         let ss = put_result (set_type ss i SOCKET_TYPE_PLISTEN) sid opaque 0 (Text ''listen'');
             (ss, a) = sysc E ss (Sys_getsockname listen_fd) in
         if an_ret a = 0 then
           (case an_addrs a of
              [] \<Rightarrow> Inr (result_data ss (Text (strerr E ss)), SOCKET_ERR)
            | sa # _ \<Rightarrow>
                (case en_ntop E sa of
                   None \<Rightarrow> Inr (result_data ss (Text (strerr E ss)), SOCKET_ERR)
                 | Some t \<Rightarrow> Inr (put_result ss sid opaque (port_of sa) (Text t), SOCKET_OPEN)))
         else Inr (result_data ss (Text (strerr E ss)), SOCKET_ERR))"

definition nomore_sending_data :: "sock \<Rightarrow> bool" where
  "nomore_sending_data s \<longleftrightarrow>
     send_buffer_empty s \<and> so_dw_buffer s = 0 \<and> so_sending s mod 65536 = 0 \<or> so_type s = SOCKET_TYPE_HALFCLOSE_WRITE"

definition close_read :: "sockenv \<Rightarrow> server \<Rightarrow> nat \<Rightarrow> server" where
  "close_read E ss i =
     (let ss = set_type ss i SOCKET_TYPE_HALFCLOSE_READ;
          (ss, _) = enable_read E ss i False;
          ss = sysdo E ss (Sys_shutdown_rd (so_fd (srv_slot ss i))) in sock_result ss i 0 NoData)"

definition halfclose_read :: "sock \<Rightarrow> bool" where
  "halfclose_read s \<longleftrightarrow> so_type s = SOCKET_TYPE_HALFCLOSE_READ"

definition close_socket :: "sockenv \<Rightarrow> server \<Rightarrow> int \<Rightarrow> bool \<Rightarrow> (server \<times> int) res" where
  "close_socket E ss sid shut =
     (let i = HASH_ID sid; s = srv_slot ss i in
      if socket_invalid s sid then Inr (ss, -1)
      else if shut \<or> nomore_sending_data s then
        cbind (force_close E ss i 0) (\<lambda>ss. Inr (ss, if halfclose_read s then -1 else SOCKET_CLOSE))
      else
        let ss = set_sock ss i (s\<lparr>so_closing := True\<rparr>) in
        if \<not> halfclose_read s then Inr (close_read E ss i, SOCKET_CLOSE) else Inr (ss, -1))"

definition bind_socket :: "sockenv \<Rightarrow> server \<Rightarrow> int \<Rightarrow> int \<Rightarrow> u64 \<Rightarrow> (server \<times> int) res" where
  "bind_socket E ss sid fd opaque =
     cbind (new_fd E (put_result ss sid opaque 0 NoData) sid fd PROTOCOL_TCP opaque True) (\<lambda>(ss, r).
     case r of
       None \<Rightarrow> Inr (result_data ss (Text ''reach skynet socket number limit''), SOCKET_ERR)
     | Some i \<Rightarrow>
         Inr (result_data (set_type (sysdo E ss (Sys_nonblocking fd)) i SOCKET_TYPE_BIND) (Text ''binding''), SOCKET_OPEN))"

definition resume_socket :: "sockenv \<Rightarrow> server \<Rightarrow> int \<Rightarrow> u64 \<Rightarrow> server \<times> int" where
  "resume_socket E ss sid opaque =
     (let ss = put_result ss sid opaque 0 NoData; i = HASH_ID sid; s = srv_slot ss i in
      if socket_invalid s sid then (result_data ss (Text ''invalid socket''), SOCKET_ERR)
      else if halfclose_read s then (result_data ss (Text ''socket closed''), SOCKET_ERR)
      else
        let (ss, err) = enable_read E ss i True; type = so_type s in
        if err then (result_data ss (Text ''enable read failed''), SOCKET_ERR)
        else if type = SOCKET_TYPE_PACCEPT \<or> type = SOCKET_TYPE_PLISTEN then
          let ss = set_type ss i (if type = SOCKET_TYPE_PACCEPT then SOCKET_TYPE_CONNECTED else SOCKET_TYPE_LISTEN) in
          (result_data (set_sock ss i ((srv_slot ss i)\<lparr>so_opaque := opaque\<rparr>)) (Text ''start''), SOCKET_OPEN)
        else if type = SOCKET_TYPE_CONNECTED then
          (result_data (set_sock ss i ((srv_slot ss i)\<lparr>so_opaque := opaque\<rparr>)) (Text ''transfer''), SOCKET_OPEN)
        else (ss, -1))"

definition pause_socket :: "sockenv \<Rightarrow> server \<Rightarrow> int \<Rightarrow> server \<times> int" where
  "pause_socket E ss sid =
     (let i = HASH_ID sid in
      if socket_invalid (srv_slot ss i) sid then (ss, -1)
      else
        let (ss, err) = enable_read E ss i False in
        if err then report_error ss i ''enable read failed'' else (ss, -1))"

definition setopt_socket :: "sockenv \<Rightarrow> server \<Rightarrow> int \<Rightarrow> int \<Rightarrow> int \<Rightarrow> server" where
  "setopt_socket E ss sid what v =
     (let s = srv_slot ss (HASH_ID sid) in
      if socket_invalid s sid then ss else sysdo E ss (Sys_setsockopt (so_fd s) what v))"

definition add_udp_socket :: "sockenv \<Rightarrow> server \<Rightarrow> int \<Rightarrow> int \<Rightarrow> family \<Rightarrow> u64 \<Rightarrow> server res" where
  "add_udp_socket E ss sid fd fam opaque =
     cbind (new_fd E ss sid fd (if fam = AF_INET6 then PROTOCOL_UDPv6 else PROTOCOL_UDP) opaque True) (\<lambda>(ss, r).
     case r of
       None \<Rightarrow> Inr (set_type (sysdo E ss (Sys_close fd)) (HASH_ID sid) SOCKET_TYPE_INVALID)
     | Some i \<Rightarrow>
         let ss = set_type ss i SOCKET_TYPE_CONNECTED in
         Inr (set_sock ss i ((srv_slot ss i)\<lparr>so_addr := replicate 19 0\<rparr>)))"

text \<open>The number of bytes of an address of the type, and the copy of so many bytes over an address.\<close>

definition addr_len :: "u8 \<Rightarrow> nat" where
  "addr_len protocol = (if protocol = PROTOCOL_UDP then 1 + 2 + 4 else 1 + 2 + 16)"

definition copy_addr :: "u8 list \<Rightarrow> u8 list \<Rightarrow> u8 list" where
  "copy_addr address old = take (addr_len (hd address)) address @ drop (addr_len (hd address)) old"

definition set_udp_address :: "server \<Rightarrow> int \<Rightarrow> u8 list \<Rightarrow> server \<times> int" where
  "set_udp_address ss sid address =
     (let i = HASH_ID sid; s = srv_slot ss i in
      if socket_invalid s sid then (ss, -1)
      else if hd address \<noteq> so_protocol s then report_error ss i ''protocol mismatch''
      else
        (set_sock ss i (s\<lparr>so_addr := copy_addr address (so_addr s), so_udpconnecting := so_udpconnecting s - 1\<rparr>), -1))"

definition dial_udp_socket :: "sockenv \<Rightarrow> server \<Rightarrow> int \<Rightarrow> int \<Rightarrow> u64 \<Rightarrow> u8 list \<Rightarrow> (server \<times> int) res" where
  "dial_udp_socket E ss sid fd opaque address =
     cbind (new_fd E ss sid fd (hd address) opaque True) (\<lambda>(ss, r).
     case r of
       None \<Rightarrow> Inr (set_type (sysdo E ss (Sys_close fd)) (HASH_ID sid) SOCKET_TYPE_INVALID, -1)
     | Some i \<Rightarrow>
         let s = srv_slot ss i in
         Inr (set_sock ss i (s\<lparr>so_addr := copy_addr address (so_addr s), so_type := SOCKET_TYPE_CONNECTED,
           so_udpconnecting := so_udpconnecting s - 1\<rparr>), -1))"

text \<open>The count of requests on the way: a full count makes the caller wait for the socket thread.\<close>

definition inc_sending_ref :: "server \<Rightarrow> nat \<Rightarrow> int \<Rightarrow> server res" where
  "inc_sending_ref ss i sid =
     (let s = srv_slot ss i in
      if so_protocol s \<noteq> PROTOCOL_TCP then Inr ss
      else if so_sending s div 65536 = ID_TAG16 sid then
        if so_sending s mod 65536 = 65535 then Inl Diverges
        else Inr (set_sock ss i (s\<lparr>so_sending := so_sending s + 1\<rparr>))
      else Inr ss)"

definition dec_sending_ref :: "server \<Rightarrow> int \<Rightarrow> server res" where
  "dec_sending_ref ss sid =
     (let i = HASH_ID sid; s = srv_slot ss i in
      if so_id s = sid \<and> so_protocol s = PROTOCOL_TCP then
        cbind (c_assert (so_sending s mod 65536 \<noteq> 0)) (\<lambda>_.
        Inr (set_sock ss i (s\<lparr>so_sending := so_sending s - 1\<rparr>)))
      else Inr ss)"

definition send_request_cmd :: "sockenv \<Rightarrow> server \<Rightarrow> int \<Rightarrow> nat \<Rightarrow> nat \<Rightarrow> bool \<Rightarrow> (server \<times> int) res" where
  "send_request_cmd E ss sid len buffer hi =
     cbind (send_socket E ss sid len buffer hi None) (\<lambda>(ss, ret).
     cbind (dec_sending_ref ss sid) (\<lambda>ss. Inr (ss, ret)))"

fun ctrl_request :: "sockenv \<Rightarrow> server \<Rightarrow> request \<Rightarrow> (server \<times> int) res" where
  "ctrl_request E ss (Req_R sid opaque) = Inr (resume_socket E ss sid opaque)"
| "ctrl_request E ss (Req_S sid opaque) = Inr (pause_socket E ss sid)"
| "ctrl_request E ss (Req_B sid fd opaque) = bind_socket E ss sid fd opaque"
| "ctrl_request E ss (Req_L sid fd opaque) = listen_socket E ss sid fd opaque"
| "ctrl_request E ss (Req_K sid shut opaque) = close_socket E ss sid shut"
| "ctrl_request E ss (Req_O sid port opaque host) = open_socket E ss sid port opaque host"
| "ctrl_request E ss Req_X = Inr (put_result ss 0 0 0 NoData, SOCKET_EXIT)"
| "ctrl_request E ss (Req_W sid) = Inr (trigger_write E ss sid)"
| "ctrl_request E ss (Req_D sid len buffer) = send_request_cmd E ss sid len buffer True"
| "ctrl_request E ss (Req_P sid len buffer) = send_request_cmd E ss sid len buffer False"
| "ctrl_request E ss (Req_A sid len buffer address) = send_socket E ss sid len buffer True (Some address)"
| "ctrl_request E ss (Req_C sid address) = Inr (set_udp_address ss sid address)"
| "ctrl_request E ss (Req_N sid fd opaque address) = dial_udp_socket E ss sid fd opaque address"
| "ctrl_request E ss (Req_T sid what v) = Inr (setopt_socket E ss sid what v, -1)"
| "ctrl_request E ss (Req_U sid fd fam opaque) = cbind (add_udp_socket E ss sid fd fam opaque) (\<lambda>ss. Inr (ss, -1))"

text \<open>\<open>has_cmd\<close> says whether the pipe can be read; \<open>ctrl_cmd\<close> would wait for a request in an empty one.\<close>

definition has_cmd :: "server \<Rightarrow> bool" where
  "has_cmd ss \<longleftrightarrow> srv_pipe ss \<noteq> []"

definition ctrl_cmd :: "sockenv \<Rightarrow> server \<Rightarrow> (server \<times> int) res" where
  "ctrl_cmd E ss = (case srv_pipe ss of [] \<Rightarrow> Inl Diverges | r # rs \<Rightarrow> ctrl_request E (ss\<lparr>srv_pipe := rs\<rparr>) r)"

section \<open>Events\<close>

definition forward_message_tcp :: "sockenv \<Rightarrow> server \<Rightarrow> nat \<Rightarrow> nat \<Rightarrow> (server \<times> int) res" where
  "forward_message_tcp E ss i l =
     (let size = so_size (srv_slot ss i);
          (ss, a) = sysc E ss (Sys_read (so_fd (srv_slot ss i)) (nat size));
          n = an_ret a; s = srv_slot ss i in
      if n < 0 then
        if an_errno a = EINTR \<or> an_errno a = EAGAIN then Inr (ss, -1) else Inr (report_error ss i (strerr E ss))
      else if n = 0 then
        if so_closing s then
          if nomore_sending_data s then cbind (force_close E ss i l) (\<lambda>ss. Inr (ss, -1)) else Inr (ss, -1)
        else if so_type s = SOCKET_TYPE_HALFCLOSE_READ then Inr (ss, -1)
        else if so_type s = SOCKET_TYPE_HALFCLOSE_WRITE then cbind (force_close E ss i l) (\<lambda>ss. Inr (ss, SOCKET_CLOSE))
        else Inr (close_read E ss i, SOCKET_CLOSE)
      else if halfclose_read s then Inr (ss, -1)
      else
        let ss = stat_read ss i n; (ss, p) = srv_malloc ss (take (nat n) (an_bytes a)); ss = sock_result ss i n (Block p); s = srv_slot ss i in
        if n = size then
          if 2 * size > int INT_MAX then Inl IntOverflow
          else Inr (set_sock ss i (s\<lparr>so_size := 2 * size\<rparr>), SOCKET_MORE)
        else if size > MIN_READ_BUFFER \<and> n * 2 < size then Inr (set_sock ss i (s\<lparr>so_size := size div 2\<rparr>), SOCKET_DATA)
        else Inr (ss, SOCKET_DATA))"

definition gen_udp_address :: "u8 \<Rightarrow> sockaddr \<Rightarrow> u8 list" where
  "gen_udp_address protocol sa = protocol # take 2 (sa_port sa) @ take (if protocol = PROTOCOL_UDP then 4 else 16) (sa_bytes sa)"

definition forward_message_udp :: "sockenv \<Rightarrow> server \<Rightarrow> nat \<Rightarrow> nat \<Rightarrow> (server \<times> int) res" where
  "forward_message_udp E ss i l =
     (let (ss, a) = sysc E ss (Sys_recvfrom (so_fd (srv_slot ss i))); n = an_ret a in
      if n < 0 then
        if an_errno a = EINTR \<or> an_errno a = EAGAIN then Inr (ss, -1)
        else cbind (force_close E ss i l) (\<lambda>ss. Inr (result_data ss (Text (en_strerror E (an_errno a))), SOCKET_ERR))
      else
        let ss = stat_read ss i n; protocol = so_protocol (srv_slot ss i) in
        case an_addrs a of
          [] \<Rightarrow> Inr (ss, -1)
        | sa # _ \<Rightarrow>
            let wanted = (if sa_family sa = AF_INET then PROTOCOL_UDP else PROTOCOL_UDPv6) in
            if protocol \<noteq> wanted then Inr (ss, -1)
            else
              let (ss, p) = srv_malloc ss (take (nat n) (an_bytes a) @ gen_udp_address wanted sa) in
              Inr (sock_result ss i n (Block p), SOCKET_UDP))"

definition report_connect :: "sockenv \<Rightarrow> server \<Rightarrow> nat \<Rightarrow> nat \<Rightarrow> (server \<times> int) res" where
  "report_connect E ss i l =
     (let (ss, a) = sysc E ss (Sys_so_error (so_fd (srv_slot ss i)));
          failed = (if an_ret a < 0 then Some (an_errno a) else an_so_error a) in
      case failed of
        Some err \<Rightarrow> cbind (force_close E ss i l) (\<lambda>ss. Inr (result_data ss (Text (en_strerror E err)), SOCKET_ERR))
      | None \<Rightarrow>
          let ss = set_type ss i SOCKET_TYPE_CONNECTED;
              ss = sock_result ss i 0 NoData;
              (ss, err) = (if nomore_sending_data (srv_slot ss i) then enable_write E ss i False else (ss, False)) in
          if err then
            cbind (force_close E ss i l) (\<lambda>ss. Inr (result_data ss (Text ''disable write failed''), SOCKET_ERR))
          else
            let (ss, b) = sysc E ss (Sys_getpeername (so_fd (srv_slot ss i))) in
            Inr (result_data ss (if an_ret b = 0 then (case an_addrs b of [] \<Rightarrow> NoData | sa # _ \<Rightarrow> name_data E sa) else NoData),
                 SOCKET_OPEN))"

definition getname :: "sockenv \<Rightarrow> sockaddr \<Rightarrow> string option" where
  "getname E sa = map_option (\<lambda>t. t @ '':'' @ int_str (port_of sa)) (en_ntop E sa)"

text \<open>The peer of an accepted connection.\<close>

definition peer_data :: "sockenv \<Rightarrow> sockaddr list \<Rightarrow> msg_text" where
  "peer_data E sas = (case sas of [] \<Rightarrow> NoData | sa # _ \<Rightarrow> (case getname E sa of None \<Rightarrow> NoData | Some t \<Rightarrow> Text t))"

definition accept_reserve :: "sockenv \<Rightarrow> server \<Rightarrow> nat \<Rightarrow> server" where
  "accept_reserve E ss i =
     (if srv_reserve_fd ss \<ge> 0 then
        let ss = sysdo E ss (Sys_close (srv_reserve_fd ss));
            (ss, a) = sysc E ss (Sys_accept (so_fd (srv_slot ss i)));
            ss = (if an_ret a \<ge> 0 then sysdo E ss (Sys_close (an_ret a)) else ss);
            (ss, d) = sysc E ss (Sys_dup 1) in ss\<lparr>srv_reserve_fd := an_ret d\<rparr>
      else ss)"

definition report_accept :: "sockenv \<Rightarrow> server \<Rightarrow> nat \<Rightarrow> (server \<times> int) res" where
  "report_accept E ss i =
     (let (ss, a) = sysc E ss (Sys_accept (so_fd (srv_slot ss i))); client_fd = an_ret a in
      if client_fd < 0 then
        if an_errno a = EMFILE \<or> an_errno a = ENFILE then
          Inr (accept_reserve E (sock_result ss i 0 (Text (strerr E ss))) i, -1)
        else Inr (ss, 0)
      else
        let (ss, sid) = reserve_id ss in
        if sid < 0 then Inr (sysdo E ss (Sys_close client_fd), 0)
        else
          let ss = sysdo E (sysdo E ss (Sys_keepalive client_fd)) (Sys_nonblocking client_fd) in
          cbind (new_fd E ss sid client_fd PROTOCOL_TCP (so_opaque (srv_slot ss i)) False) (\<lambda>(ss, r).
          case r of
            None \<Rightarrow> Inr (sysdo E ss (Sys_close client_fd), 0)
          | Some j \<Rightarrow>
              let ss = stat_read ss i 1; ss = set_type ss j SOCKET_TYPE_PACCEPT in
              Inr (sock_result ss i sid (peer_data E (an_addrs a)), 1)))"

text \<open>The first event left that is for the closed socket is taken out.\<close>

fun clear_event :: "(nat \<Rightarrow> sock) \<Rightarrow> int \<Rightarrow> poll_event list \<Rightarrow> poll_event list" where
  "clear_event slots sid [] = []"
| "clear_event slots sid (e # es) =
     (case ev_s e of
        None \<Rightarrow> e # clear_event slots sid es
      | Some j \<Rightarrow>
          if socket_invalid (slots j) sid \<and> so_id (slots j) = sid then e\<lparr>ev_s := None\<rparr> # es
          else e # clear_event slots sid es)"

definition clear_closed_event :: "server \<Rightarrow> int \<Rightarrow> server" where
  "clear_closed_event ss type =
     (if type = SOCKET_CLOSE \<or> type = SOCKET_ERR then
        ss\<lparr>srv_ev := take (srv_event_index ss) (srv_ev ss)
             @ clear_event (srv_slot ss) (pr_id (srv_result ss)) (drop (srv_event_index ss) (srv_ev ss))\<rparr>
      else ss)"

text \<open>One event of a socket that is neither connecting nor listening nor invalid. \<open>None\<close> goes on with the loop.\<close>

definition back_event :: "server \<Rightarrow> server" where
  "back_event ss = ss\<lparr>srv_event_index := srv_event_index ss - 1\<rparr>"

definition no_read :: "server \<Rightarrow> server" where
  "no_read ss =
     ss\<lparr>srv_ev := (srv_ev ss)[srv_event_index ss - 1 := (srv_ev ss ! (srv_event_index ss - 1))\<lparr>ev_read := False\<rparr>]\<rparr>"

definition returned :: "server \<times> int \<Rightarrow> server \<times> int option" where
  "returned = (\<lambda>(ss, type). (ss, if type = -1 then None else Some type))"

definition event_io :: "sockenv \<Rightarrow> server \<Rightarrow> poll_event \<Rightarrow> nat \<Rightarrow> (server \<times> int option) res" where
  "event_io E ss e i =
     (let tcp = (so_protocol (srv_slot ss i) = PROTOCOL_TCP) in
      if ev_read e then
        cbind (if tcp then forward_message_tcp E ss i 0 else forward_message_udp E ss i 0) (\<lambda>(ss, type).
        if tcp \<and> type = SOCKET_MORE then Inr (back_event ss, Some SOCKET_DATA)
        else if \<not> tcp \<and> type = SOCKET_UDP then Inr (back_event ss, Some SOCKET_UDP)
        else
          let ss = (if ev_write e \<and> type \<noteq> SOCKET_CLOSE \<and> type \<noteq> SOCKET_ERR then back_event (no_read ss) else ss) in
          Inr (returned (ss, type)))
      else if ev_write e then cbind (send_buffer E i 0 ss) (\<lambda>r. Inr (returned r))
      else if ev_error e then
        let (ss, a) = sysc E ss (Sys_so_error (so_fd (srv_slot ss i))) in
        Inr (returned (report_error ss i
          (if an_ret a < 0 then strerr E ss
           else case an_so_error a of Some err \<Rightarrow> en_strerror E err | None \<Rightarrow> ''Unknown error'')))
      else if ev_eof e then
        cbind (force_close E ss i 0) (\<lambda>ss'. Inr (ss', if halfclose_read (srv_slot ss i) then None else Some SOCKET_CLOSE))
      else Inr (ss, None))"

definition poll_event_pass :: "sockenv \<Rightarrow> server \<Rightarrow> (server \<times> int option) res" where
  "poll_event_pass E ss =
     (let e = srv_ev ss ! srv_event_index ss; ss = ss\<lparr>srv_event_index := Suc (srv_event_index ss)\<rparr> in
      case ev_s e of
        None \<Rightarrow> Inr (ss, None)
      | Some i \<Rightarrow>
          (case so_type (srv_slot ss i) of
             SOCKET_TYPE_CONNECTING \<Rightarrow> cbind (report_connect E ss i 0) (\<lambda>(ss, type). Inr (ss, Some type))
           | SOCKET_TYPE_LISTEN \<Rightarrow>
               cbind (report_accept E ss i) (\<lambda>(ss, ok).
               Inr (ss, if ok > 0 then Some SOCKET_ACCEPT else if ok < 0 then Some SOCKET_ERR else None))
           | SOCKET_TYPE_INVALID \<Rightarrow> Inr (log_error ss ''socket-server error: invalid socket'', None)
           | _ \<Rightarrow> event_io E ss e i))"

text \<open>One pass of the loop of \<open>socket_server_poll\<close>; the flag is \<open>more\<close>.\<close>

definition poll_wait :: "sockenv \<Rightarrow> server \<Rightarrow> server" where
  "poll_wait E ss =
     (let (ss, a) = sysc E ss Sp_wait in
      ss\<lparr>srv_ev := (if an_ret a \<le> 0 then [] else take (nat (an_ret a)) (an_events a)), srv_checkctrl := True, srv_event_index := 0\<rparr>)"

definition poll_pass :: "sockenv \<Rightarrow> server \<Rightarrow> bool \<Rightarrow> (server \<times> bool \<times> int option) res" where
  "poll_pass E ss more_flag =
     (if srv_checkctrl ss \<and> has_cmd ss then
        cbind (ctrl_cmd E ss) (\<lambda>(ss, type).
        if type \<noteq> -1 then Inr (clear_closed_event ss type, more_flag, Some type) else Inr (ss, more_flag, None))
      else
        let ss = ss\<lparr>srv_checkctrl := False\<rparr> in
        if srv_event_index ss = length (srv_ev ss) then
          let ss = poll_wait E ss in
          if srv_ev ss = [] then
            Inr (if srv_errno ss \<noteq> EINTR then log_error ss (''socket-server error: '' @ strerr E ss) else ss, False, None)
          else cbind (poll_event_pass E ss) (\<lambda>(ss, r). Inr (ss, False, r))
        else cbind (poll_event_pass E ss) (\<lambda>(ss, r). Inr (ss, more_flag, r)))"

partial_function (option) socket_server_poll :: "sockenv \<Rightarrow> server \<Rightarrow> bool \<Rightarrow> (server \<times> bool \<times> int) res option" where
  "socket_server_poll E ss more_flag =
     (case poll_pass E ss more_flag of
        Inl e \<Rightarrow> Some (Inl e)
      | Inr (ss, more_flag, Some type) \<Rightarrow> Some (Inr (ss, more_flag, type))
      | Inr (ss, more_flag, None) \<Rightarrow> socket_server_poll E ss more_flag)"

section \<open>The functions of the workers\<close>

text \<open>
  A request is written to the pipe whole, and after those before it: it is shorter than the atomic
  size of a pipe, and a write that fails is tried again.
\<close>

definition send_request :: "server \<Rightarrow> request \<Rightarrow> server" where
  "send_request ss r = ss\<lparr>srv_pipe := srv_pipe ss @ [r]\<rparr>"

definition empty_sock :: sock where
  "empty_sock = \<lparr>so_opaque = 0, so_high = [], so_low = [], so_wb_size = 0, so_rtime = 0, so_wtime = 0, so_read = 0, so_write = 0,
     so_sending = 0, so_fd = 0, so_id = 0, so_type = SOCKET_TYPE_INVALID, so_protocol = 0, so_reading = False, so_writing = False,
     so_closing = False, so_udpconnecting = 0, so_warn_size = 0, so_size = 0, so_addr = replicate 19 0, so_lock = False,
     so_dw_offset = 0, so_dw_buffer = 0, so_dw_size = 0\<rparr>"

text \<open>
  \<open>socket_server_create\<close> once the event pool and the pipe are there: \<open>recvctrl_fd\<close> is added to the pool
  and a descriptor is reserved. Fields that \<open>MALLOC\<close> leaves undefined are zero here and are written
  before they are read.
\<close>

definition socket_server_create :: "sockenv \<Rightarrow> u64 \<Rightarrow> int \<Rightarrow> server option" where
  "socket_server_create E now recvctrl_fd =
     (let ss = \<lparr>srv_time = now, srv_reserve_fd = -1, srv_checkctrl = True, srv_alloc_id = 0, srv_ev = [], srv_event_index = 0,
            srv_slot = (\<lambda>_. empty_sock), srv_pipe = [], srv_mem = (\<lambda>_. None), srv_brk = 1, srv_trace = [], srv_errno = EINTR,
            srv_log = [], srv_result = \<lparr>pr_id = 0, pr_opaque = 0, pr_ud = 0, pr_data = NoData\<rparr>\<rparr>;
          (ss, a) = sysc E ss (Sp_add recvctrl_fd None) in
      if an_ret a \<noteq> 0 then None
      else let (ss, d) = sysc E ss (Sys_dup 1) in Some (ss\<lparr>srv_reserve_fd := an_ret d\<rparr>))"

definition socket_server_updatetime :: "server \<Rightarrow> u64 \<Rightarrow> server" where
  "socket_server_updatetime ss now = ss\<lparr>srv_time := now\<rparr>"

text \<open>The loop of \<open>socket_server_release\<close> over the slots, \<open>k\<close> of which are left.\<close>

primrec release_slots :: "sockenv \<Rightarrow> nat \<Rightarrow> server \<Rightarrow> server res" where
  "release_slots E 0 ss = Inr ss"
| "release_slots E (Suc k) ss =
     (let i = MAX_SOCKET - Suc k in
      cbind (if so_type (srv_slot ss i) \<noteq> SOCKET_TYPE_RESERVE then force_close E ss i 0 else Inr ss) (release_slots E k))"

definition socket_server_release :: "sockenv \<Rightarrow> server \<Rightarrow> server res" where
  "socket_server_release E ss =
     cbind (release_slots E MAX_SOCKET ss) (\<lambda>ss.
     Inr (if srv_reserve_fd ss \<ge> 0 then sysdo E ss (Sys_close (srv_reserve_fd ss)) else ss))"

text \<open>\<open>sizeof(struct request_open)\<close> is 24.\<close>

definition open_request :: "server \<Rightarrow> string \<Rightarrow> server \<times> int" where
  "open_request ss addr =
     (if length addr + 24 \<ge> 256 then (log_error ss (''socket-server error: Invalid addr '' @ addr @ ''.''), -1)
      else reserve_id ss)"

definition socket_server_connect :: "server \<Rightarrow> u64 \<Rightarrow> string \<Rightarrow> int \<Rightarrow> server \<times> int" where
  "socket_server_connect ss opaque addr port =
     (let (ss, sid) = open_request ss addr in
      if sid < 0 then (ss, -1) else (send_request ss (Req_O sid port opaque addr), sid))"

definition can_direct_write :: "sock \<Rightarrow> int \<Rightarrow> bool" where
  "can_direct_write s sid \<longleftrightarrow>
     so_id s = sid \<and> nomore_sending_data s \<and> so_type s = SOCKET_TYPE_CONNECTED \<and> so_udpconnecting s = 0"

text \<open>The request a worker leaves for the socket thread.\<close>

definition send_by_request :: "server \<Rightarrow> sendbuffer \<Rightarrow> (int \<Rightarrow> nat \<Rightarrow> nat \<Rightarrow> request) \<Rightarrow> (server \<times> int) res" where
  "send_by_request ss buf req =
     cbind (inc_sending_ref ss (HASH_ID (sb_id buf)) (sb_id buf)) (\<lambda>ss.
     cbind (clone_buffer ss buf) (\<lambda>(ss, p, len). Inr (send_request ss (req (sb_id buf) len p), 0)))"

text \<open>The direct write of a worker that has the lock, with the count \<open>l\<close>.\<close>

definition direct_write :: "sockenv \<Rightarrow> server \<Rightarrow> sendbuffer \<Rightarrow> nat \<Rightarrow> (server \<times> int) res" where
  "direct_write E ss buf l =
     (let i = HASH_ID (sb_id buf); s = srv_slot ss i; so = send_object_init_from_sendbuffer E buf;
          sa = udp_socket_address s (so_addr s); tcp = (so_protocol s = PROTOCOL_TCP) in
      if \<not> tcp \<and> sa = None then
        let ss = log_error ss (''socket-server : set udp ('' @ int_str (sb_id buf) @ '') error: address first.'') in
        cbind (socket_unlock ss i l) (\<lambda>ss.
        cbind (free_object E ss (ob_free so) (sb_buffer buf)) (\<lambda>ss. Inr (ss, -1)))
      else
        cbind (read_ptr ss (ob_buffer so) (ob_sz so)) (\<lambda>bs.
        let (ss, a) = sysc E ss (if tcp then Sys_write (so_fd s) bs else Sys_sendto (so_fd s) bs (the sa));
            n = (if an_ret a < 0 then 0 else an_ret a);
            ss = stat_write ss i n in
        if n = int (ob_sz so) then
          cbind (socket_unlock ss i l) (\<lambda>ss.
          cbind (free_object E ss (ob_free so) (sb_buffer buf)) (\<lambda>ss. Inr (ss, 0)))
        else
          cbind (clone_buffer ss buf) (\<lambda>(ss, p, len).
          let ss = set_sock ss i ((srv_slot ss i)\<lparr>so_dw_buffer := p, so_dw_size := len, so_dw_offset := nat n\<rparr>) in
          cbind (socket_unlock ss i l) (\<lambda>ss. Inr (send_request ss (Req_W (sb_id buf)), 0)))))"

definition socket_server_send :: "sockenv \<Rightarrow> server \<Rightarrow> sendbuffer \<Rightarrow> (server \<times> int) res" where
  "socket_server_send E ss buf =
     (let i = HASH_ID (sb_id buf); s = srv_slot ss i in
      if socket_invalid s (sb_id buf) \<or> so_closing s then
        cbind (free_buffer E ss (sb_type buf) (sb_buffer buf)) (\<lambda>ss. Inr (ss, -1))
      else if can_direct_write s (sb_id buf) then
        (case socket_trylock ss i 0 of
           None \<Rightarrow> send_by_request ss buf Req_D
         | Some (ss, l) \<Rightarrow> direct_write E ss buf l)
      else send_by_request ss buf Req_D)"

definition socket_server_send_lowpriority :: "sockenv \<Rightarrow> server \<Rightarrow> sendbuffer \<Rightarrow> (server \<times> int) res" where
  "socket_server_send_lowpriority E ss buf =
     (if socket_invalid (srv_slot ss (HASH_ID (sb_id buf))) (sb_id buf) then
        cbind (free_buffer E ss (sb_type buf) (sb_buffer buf)) (\<lambda>ss. Inr (ss, -1))
      else send_by_request ss buf Req_P)"

definition socket_server_exit :: "server \<Rightarrow> server" where
  "socket_server_exit ss = send_request ss Req_X"

definition socket_server_close :: "server \<Rightarrow> u64 \<Rightarrow> int \<Rightarrow> server" where
  "socket_server_close ss opaque sid = send_request ss (Req_K sid False opaque)"

definition socket_server_shutdown :: "server \<Rightarrow> u64 \<Rightarrow> int \<Rightarrow> server" where
  "socket_server_shutdown ss opaque sid = send_request ss (Req_K sid True opaque)"

text \<open>\<open>tcp\<close> says which protocol is asked for; the descriptor, negative when it failed, and the family.\<close>

definition do_bind :: "sockenv \<Rightarrow> server \<Rightarrow> string option \<Rightarrow> int \<Rightarrow> bool \<Rightarrow> server \<times> int \<times> family" where
  "do_bind E ss host port tcp =
     (let h = (case host of None \<Rightarrow> ''0.0.0.0'' | Some s \<Rightarrow> if s = [] then ''0.0.0.0'' else s);
          (ss, a) = sysc E ss (Sys_getaddrinfo h port tcp) in
      case an_addrs a of
        [] \<Rightarrow> (ss, -1, AF_INET)
      | ai # _ \<Rightarrow>
          if an_ret a \<noteq> 0 then (ss, -1, AF_INET)
          else
            let (ss, b) = sysc E ss (Sys_socket (sa_family ai) tcp); fd = an_ret b in
            if fd < 0 then (ss, -1, sa_family ai)
            else
              let (ss, c) = sysc E ss (Sys_reuseaddr fd) in
              if an_ret c = -1 then (sysdo E ss (Sys_close fd), -1, sa_family ai)
              else
                let (ss, d) = sysc E ss (Sys_bind fd ai) in
                if an_ret d \<noteq> 0 then (sysdo E ss (Sys_close fd), -1, sa_family ai) else (ss, fd, sa_family ai))"

definition do_listen :: "sockenv \<Rightarrow> server \<Rightarrow> string option \<Rightarrow> int \<Rightarrow> int \<Rightarrow> server \<times> int" where
  "do_listen E ss host port backlog =
     (let (ss, fd, _) = do_bind E ss host port True in
      if fd < 0 then (ss, -1)
      else
        let (ss, a) = sysc E ss (Sys_listen fd backlog) in
        if an_ret a = -1 then (sysdo E ss (Sys_close fd), -1) else (ss, fd))"

definition socket_server_listen :: "sockenv \<Rightarrow> server \<Rightarrow> u64 \<Rightarrow> string option \<Rightarrow> int \<Rightarrow> int \<Rightarrow> server \<times> int" where
  "socket_server_listen E ss opaque addr port backlog =
     (let (ss, fd) = do_listen E ss addr port backlog in
      if fd < 0 then (ss, -1)
      else
        let (ss, sid) = reserve_id ss in
        if sid < 0 then (sysdo E ss (Sys_close fd), sid) else (send_request ss (Req_L sid fd opaque), sid))"

definition socket_server_bind :: "server \<Rightarrow> u64 \<Rightarrow> int \<Rightarrow> server \<times> int" where
  "socket_server_bind ss opaque fd =
     (let (ss, sid) = reserve_id ss in if sid < 0 then (ss, -1) else (send_request ss (Req_B sid fd opaque), sid))"

definition socket_server_start :: "server \<Rightarrow> u64 \<Rightarrow> int \<Rightarrow> server" where
  "socket_server_start ss opaque sid = send_request ss (Req_R sid opaque)"

definition socket_server_pause :: "server \<Rightarrow> u64 \<Rightarrow> int \<Rightarrow> server" where
  "socket_server_pause ss opaque sid = send_request ss (Req_S sid opaque)"

definition TCP_NODELAY :: int where "TCP_NODELAY = 1"

definition socket_server_nodelay :: "server \<Rightarrow> int \<Rightarrow> server" where
  "socket_server_nodelay ss sid = send_request ss (Req_T sid TCP_NODELAY 1)"

subsection \<open>UDP\<close>

definition udp_register :: "sockenv \<Rightarrow> server \<Rightarrow> u64 \<Rightarrow> int \<Rightarrow> family \<Rightarrow> server \<times> int" where
  "udp_register E ss opaque fd fam =
     (let ss = sysdo E ss (Sys_nonblocking fd); (ss, sid) = reserve_id ss in
      if sid < 0 then (sysdo E ss (Sys_close fd), -1) else (send_request ss (Req_U sid fd fam opaque), sid))"

definition socket_server_udp :: "sockenv \<Rightarrow> server \<Rightarrow> u64 \<Rightarrow> string option \<Rightarrow> int \<Rightarrow> server \<times> int" where
  "socket_server_udp E ss opaque addr port =
     (let (ss, fd, fam) = (if port \<noteq> 0 \<or> addr \<noteq> None then do_bind E ss addr port False
            else let (ss, a) = sysc E ss (Sys_socket AF_INET False) in (ss, an_ret a, AF_INET)) in
      if fd < 0 then (ss, -1) else udp_register E ss opaque fd fam)"

definition socket_server_udp_listen :: "sockenv \<Rightarrow> server \<Rightarrow> u64 \<Rightarrow> string option \<Rightarrow> int \<Rightarrow> server \<times> int" where
  "socket_server_udp_listen E ss opaque addr port =
     (if port = 0 then (ss, -1)
      else
        let (ss, fd, fam) = do_bind E ss addr port False in
        if fd < 0 then (ss, -1) else udp_register E ss opaque fd fam)"

definition family_protocol :: "family \<Rightarrow> u8 option" where
  "family_protocol fam = (case fam of AF_INET \<Rightarrow> Some PROTOCOL_UDP | AF_INET6 \<Rightarrow> Some PROTOCOL_UDPv6 | AF_OTHER _ \<Rightarrow> None)"

definition socket_server_udp_dial :: "sockenv \<Rightarrow> server \<Rightarrow> u64 \<Rightarrow> string \<Rightarrow> int \<Rightarrow> server \<times> int" where
  "socket_server_udp_dial E ss opaque addr port =
     (let (ss, a) = sysc E ss (Sys_getaddrinfo addr port False) in
      if an_ret a \<noteq> 0 then (ss, -1)
      else
        case an_addrs a of
          [] \<Rightarrow> (ss, -1)
        | ai # _ \<Rightarrow>
            (case family_protocol (sa_family ai) of
               None \<Rightarrow> (ss, -1)
             | Some protocol \<Rightarrow>
                 let (ss, b) = sysc E ss (Sys_socket (sa_family ai) False); fd = an_ret b in
                 if fd < 0 then (ss, -1)
                 else
                   let (ss, sid) = reserve_id (sysdo E ss (Sys_nonblocking fd)) in
                   if sid < 0 then (sysdo E ss (Sys_close fd), -1)
                   else (send_request ss (Req_N sid fd opaque (gen_udp_address protocol ai)), sid)))"

definition socket_server_udp_send :: "sockenv \<Rightarrow> server \<Rightarrow> u8 list \<Rightarrow> sendbuffer \<Rightarrow> (server \<times> int) res" where
  "socket_server_udp_send E ss udp_address buf =
     (let i = HASH_ID (sb_id buf); s = srv_slot ss i in
      if socket_invalid s (sb_id buf) \<or> hd udp_address \<notin> {PROTOCOL_UDP, PROTOCOL_UDPv6} then
        cbind (free_buffer E ss (sb_type buf) (sb_buffer buf)) (\<lambda>ss. Inr (ss, -1))
      else
        let request = (\<lambda>ss. cbind (clone_buffer ss buf) (\<lambda>(ss, p, len).
              Inr (send_request ss (Req_A (sb_id buf) len p (take (addr_len (hd udp_address)) udp_address)), 0))) in
        if can_direct_write s (sb_id buf) then
          (case socket_trylock ss i 0 of
             None \<Rightarrow> request ss
           | Some (ss, l) \<Rightarrow>
               let so = send_object_init_from_sendbuffer E buf in
               (case udp_socket_address s udp_address of
                  None \<Rightarrow>
                    cbind (socket_unlock ss i l) (\<lambda>ss.
                    cbind (free_object E ss (ob_free so) (sb_buffer buf)) (\<lambda>ss. Inr (ss, -1)))
                | Some sa \<Rightarrow>
                    cbind (read_ptr ss (ob_buffer so) (ob_sz so)) (\<lambda>bs.
                    let (ss, a) = sysc E ss (Sys_sendto (so_fd s) bs sa) in
                    if an_ret a \<ge> 0 then
                      cbind (socket_unlock (stat_write ss i (an_ret a)) i l) (\<lambda>ss.
                      cbind (free_object E ss (ob_free so) (sb_buffer buf)) (\<lambda>ss. Inr (ss, 0)))
                    else cbind (socket_unlock ss i l) request)))
        else request ss)"

definition socket_server_udp_connect :: "sockenv \<Rightarrow> server \<Rightarrow> int \<Rightarrow> string \<Rightarrow> int \<Rightarrow> (server \<times> int) res" where
  "socket_server_udp_connect E ss sid addr port =
     (let i = HASH_ID sid in
      if socket_invalid (srv_slot ss i) sid then Inr (ss, -1)
      else
        cbind (socket_lock ss i 0) (\<lambda>(ss, l).
        let s = srv_slot ss i in
        cbind (socket_unlock (set_sock ss i (s\<lparr>so_udpconnecting := so_udpconnecting s + 1\<rparr>)) i l) (\<lambda>ss.
        let (ss, a) = sysc E ss (Sys_getaddrinfo addr port False) in
        if an_ret a \<noteq> 0 then Inr (ss, -1)
        else
          case an_addrs a of
            [] \<Rightarrow> Inr (ss, -1)
          | ai # _ \<Rightarrow>
              (case family_protocol (sa_family ai) of
                 None \<Rightarrow> Inr (ss, -1)
               | Some protocol \<Rightarrow> Inr (send_request ss (Req_C sid (gen_udp_address protocol ai)), 0)))))"

text \<open>The address behind the data of a datagram, with its size.\<close>

definition socket_server_udp_address :: "u8 list \<Rightarrow> nat \<Rightarrow> (u8 list \<times> nat) option res" where
  "socket_server_udp_address data ud =
     (if ud < length data then
        let address = drop ud data in
        Inr (if hd address \<in> {PROTOCOL_UDP, PROTOCOL_UDPv6} then Some (address, addr_len (hd address)) else None)
      else Inl OutOfBounds)"

subsection \<open>Information\<close>

datatype info_type = SOCKET_INFO_LISTEN | SOCKET_INFO_TCP | SOCKET_INFO_UDP | SOCKET_INFO_BIND | SOCKET_INFO_CLOSING

record socket_info =
  si_id :: int
  si_type :: info_type
  si_opaque :: u64
  si_read :: u64
  si_write :: u64
  si_rtime :: u64
  si_wtime :: u64
  si_wbuffer :: int
  si_reading :: bool
  si_writing :: bool
  si_name :: "string option"

text \<open>The name is \<open>None\<close> where the code leaves the array of the caller as it was.\<close>

definition info_name :: "sockenv \<Rightarrow> answer \<Rightarrow> string option" where
  "info_name E a =
     (if an_ret a = 0 then
        (case an_addrs a of [] \<Rightarrow> None | sa # _ \<Rightarrow> Some (case getname E sa of None \<Rightarrow> [] | Some t \<Rightarrow> t)) else None)"

definition query_info :: "sockenv \<Rightarrow> server \<Rightarrow> nat \<Rightarrow> server \<times> socket_info option" where
  "query_info E ss i =
     (let s = srv_slot ss i;
          info = (\<lambda>t nm. Some \<lparr>si_id = so_id s, si_type = t, si_opaque = so_opaque s, si_read = so_read s, si_write = so_write s,
            si_rtime = so_rtime s, si_wtime = so_wtime s, si_wbuffer = so_wb_size s, si_reading = so_reading s,
            si_writing = so_writing s, si_name = nm\<rparr>);
          stream = (\<lambda>closing.
            if so_protocol s = PROTOCOL_TCP then
              let (ss, a) = sysc E ss (Sys_getpeername (so_fd s)) in
              (ss, info (if closing then SOCKET_INFO_CLOSING else SOCKET_INFO_TCP) (info_name E a))
            else
              (ss, info SOCKET_INFO_UDP
                (case udp_socket_address s (so_addr s) of
                   None \<Rightarrow> None | Some sa \<Rightarrow> Some (case getname E sa of None \<Rightarrow> [] | Some t \<Rightarrow> t)))) in
      case so_type s of
        SOCKET_TYPE_BIND \<Rightarrow> (ss, info SOCKET_INFO_BIND (Some []))
      | SOCKET_TYPE_LISTEN \<Rightarrow>
          let (ss, a) = sysc E ss (Sys_getsockname (so_fd s)) in (ss, info SOCKET_INFO_LISTEN (info_name E a))
      | SOCKET_TYPE_HALFCLOSE_READ \<Rightarrow> stream True
      | SOCKET_TYPE_HALFCLOSE_WRITE \<Rightarrow> stream True
      | SOCKET_TYPE_CONNECTED \<Rightarrow> stream False
      | _ \<Rightarrow> (ss, None))"

text \<open>The list is built from its end: the last slot comes first.\<close>

primrec info_slots :: "sockenv \<Rightarrow> nat \<Rightarrow> server \<Rightarrow> socket_info list \<Rightarrow> server \<times> socket_info list" where
  "info_slots E 0 ss si = (ss, si)"
| "info_slots E (Suc k) ss si =
     (let (ss, r) = query_info E ss (MAX_SOCKET - Suc k) in
      info_slots E k ss (case r of None \<Rightarrow> si | Some x \<Rightarrow> x # si))"

definition socket_server_info :: "sockenv \<Rightarrow> server \<Rightarrow> server \<times> socket_info list" where
  "socket_server_info E ss = info_slots E MAX_SOCKET ss []"

end
