(* ===== verification/Sky_Socket_Write.thy ===== *)
theory Sky_Socket_Write
  imports Sky_Socket_Ops
begin

text \<open>
  Properties of the socket server: the ids it gives out, and the write side of a socket. The central
  notion is \<open>flow\<close>: what an operation of the socket thread may do to the data a socket has to send.
\<close>

section \<open>Frames\<close>

lemma set_sock_fields [simp]:
  "srv_slot (set_sock ss i s) = (srv_slot ss)(i := s)" "srv_mem (set_sock ss i s) = srv_mem ss"
  "srv_pipe (set_sock ss i s) = srv_pipe ss" "srv_trace (set_sock ss i s) = srv_trace ss"
  "srv_alloc_id (set_sock ss i s) = srv_alloc_id ss" "srv_brk (set_sock ss i s) = srv_brk ss"
  "srv_errno (set_sock ss i s) = srv_errno ss" "srv_time (set_sock ss i s) = srv_time ss"
  "srv_ev (set_sock ss i s) = srv_ev ss" "srv_event_index (set_sock ss i s) = srv_event_index ss"
  "srv_result (set_sock ss i s) = srv_result ss" "srv_reserve_fd (set_sock ss i s) = srv_reserve_fd ss"
  "srv_checkctrl (set_sock ss i s) = srv_checkctrl ss"
  by (simp_all add: set_sock_def)

lemma set_sock_twice [simp]: "set_sock (set_sock ss i s) i t = set_sock ss i t"
  by (simp add: set_sock_def)

section \<open>Socket ids\<close>

lemma next_id: "0 \<le> a \<Longrightarrow> a < 2 ^ 31 \<Longrightarrow>
  (if to_int (a + 1) < 0 then to_int (a + 1) mod 2 ^ 31 else to_int (a + 1)) = (a + 1) mod 2 ^ 31"
proof (cases "a = 2 ^ 31 - 1")
  case True
  then show ?thesis by (simp add: to_int_def)
next
  case False
  assume "0 \<le> a" "a < 2 ^ 31"
  with False have "signed_take_bit 31 (a + 1) = a + 1" by (intro signed_take_bit_int_eq_self) auto
  then have "to_int (a + 1) = a + 1" unfolding to_int_def sint_sbintrunc' by simp
  then show ?thesis using False \<open>0 \<le> a\<close> \<open>a < 2 ^ 31\<close> by simp
qed

lemma HASH_ID_wrap [simp]: "HASH_ID (a mod 2 ^ 31) = HASH_ID a" "HASH_ID (a mod 2147483648) = HASH_ID a"
  by (simp_all add: HASH_ID_def mod_mod_cancel)

lemma mod_add_1: "0 \<le> a \<Longrightarrow> ((a + 1) mod 2 ^ 31 + d) mod 2 ^ 31 = (a + (1 + d)) mod (2 ^ 31 :: int)"
  by (simp add: mod_add_left_eq add.assoc)

text \<open>The \<open>d\<close>-th id from the counter on, and the slot of the server when it is reserved.\<close>

definition id_after :: "server \<Rightarrow> nat \<Rightarrow> int" where
  "id_after ss d = (srv_alloc_id ss + int d) mod 2 ^ 31"

definition reserved :: "sock \<Rightarrow> int \<Rightarrow> sock" where
  "reserved s sid = s\<lparr>so_type := SOCKET_TYPE_RESERVE, so_id := sid, so_protocol := PROTOCOL_UNKNOWN, so_udpconnecting := 0, so_fd := -1\<rparr>"

definition free_slot :: "server \<Rightarrow> int \<Rightarrow> bool" where
  "free_slot ss sid \<longleftrightarrow> so_type (srv_slot ss (HASH_ID sid)) = SOCKET_TYPE_INVALID"

lemma reserve_loop_eq:
  assumes "0 \<le> srv_alloc_id ss" "srv_alloc_id ss < 2 ^ 31"
  shows "reserve_loop k ss =
    (case find (\<lambda>d. free_slot ss (id_after ss d)) [1..<Suc k] of
       None \<Rightarrow> (ss\<lparr>srv_alloc_id := id_after ss k\<rparr>, -1)
     | Some d \<Rightarrow> (set_sock (ss\<lparr>srv_alloc_id := id_after ss d\<rparr>) (HASH_ID (id_after ss d))
                   (reserved (srv_slot ss (HASH_ID (id_after ss d))) (id_after ss d)), id_after ss d))"
  using assms
proof (induction k arbitrary: ss)
  case 0
  then show ?case by (simp add: id_after_def)
next
  case (Suc k)
  let ?i = "id_after ss 1" and ?ss = "ss\<lparr>srv_alloc_id := id_after ss 1\<rparr>"
  have i: "(if to_int (srv_alloc_id ss + 1) < 0 then to_int (srv_alloc_id ss + 1) mod 2 ^ 31 else to_int (srv_alloc_id ss + 1)) = ?i"
    using next_id [OF Suc.prems] by (simp add: id_after_def)
  have bound: "0 \<le> ?i" "?i < 2 ^ 31" by (simp_all add: id_after_def)
  have shift: "id_after ?ss d = id_after ss (Suc d)" for d
    using mod_add_1 [OF Suc.prems(1), of "int d"] by (simp add: id_after_def)
  have fs: "free_slot ?ss = free_slot ss" by (rule ext) (simp add: free_slot_def)
  have up: "[1..<Suc (Suc k)] = 1 # map Suc [1..<Suc k]" by (simp add: map_Suc_upt upt_conv_Cons del: upt_Suc)
  have step: "reserve_loop (Suc k) ss = (if free_slot ss ?i
      then (set_sock ?ss (HASH_ID ?i) (reserved (srv_slot ss (HASH_ID ?i)) ?i), ?i) else reserve_loop k ?ss)"
    unfolding reserve_loop.simps Let_def i by (simp add: free_slot_def reserved_def)
  have fm: "find P (map Suc xs) = map_option Suc (find (P \<circ> Suc) xs)" for P and xs :: "nat list" by (induction xs) auto
  show ?case
  proof (cases "free_slot ss ?i")
    case True
    then show ?thesis unfolding step up by simp
  next
    case False
    have "reserve_loop k ?ss = (case find (\<lambda>d. free_slot ss (id_after ss (Suc d))) [1..<Suc k] of
       None \<Rightarrow> (ss\<lparr>srv_alloc_id := id_after ss (Suc k)\<rparr>, -1)
     | Some d \<Rightarrow> (set_sock (ss\<lparr>srv_alloc_id := id_after ss (Suc d)\<rparr>) (HASH_ID (id_after ss (Suc d)))
                   (reserved (srv_slot ss (HASH_ID (id_after ss (Suc d)))) (id_after ss (Suc d))), id_after ss (Suc d)))"
      using Suc.IH [of ?ss] bound unfolding shift fs by (simp del: upt_Suc split: option.splits)
    then show ?thesis unfolding step up using False by (simp add: fm comp_def del: upt_Suc split: option.splits)
  qed
qed

text \<open>Every slot comes up within \<open>MAX_SOCKET\<close> ids.\<close>

lemma every_slot_met:
  assumes "j < MAX_SOCKET"
  shows "\<exists>d \<in> {1..MAX_SOCKET}. HASH_ID (id_after ss d) = j"
proof -
  define d where "d = (int j - srv_alloc_id ss - 1) mod 65536"
  have d: "0 \<le> d" "d < 65536" by (simp_all add: d_def)
  have "HASH_ID (id_after ss (Suc (nat d))) = nat ((srv_alloc_id ss + 1 + d) mod 65536)"
    using d unfolding id_after_def HASH_ID_wrap by (simp add: HASH_ID_def ac_simps)
  also have "(srv_alloc_id ss + 1 + d) mod 65536 = int j mod 65536"
    unfolding d_def by (simp add: mod_add_right_eq)
  finally have "HASH_ID (id_after ss (Suc (nat d))) = j" using assms by (simp add: MAX_SOCKET_def)
  moreover have "Suc (nat d) \<in> {1..MAX_SOCKET}" using d by (simp add: MAX_SOCKET_def)
  ultimately show ?thesis by blast
qed

text \<open>
  C24. Reserving an id. With the counter anywhere in its range, its wrap-around at INT_MAX included,
  \<open>reserve_id\<close> fails exactly when no slot is free; otherwise it gives a non-negative id whose slot was
  free, reserves that slot under this id, moves the counter to it, and changes no other slot.
\<close>

theorem reserve_id_correct:
  assumes "0 \<le> srv_alloc_id ss" "srv_alloc_id ss < 2 ^ 31"
  shows "(snd (reserve_id ss) = -1 \<and> (\<forall>j < MAX_SOCKET. so_type (srv_slot ss j) \<noteq> SOCKET_TYPE_INVALID) \<and> srv_slot (fst (reserve_id ss)) = srv_slot ss)
    \<or> (\<exists>sid j. snd (reserve_id ss) = sid \<and> 0 \<le> sid \<and> sid < 2 ^ 31 \<and> j = HASH_ID sid \<and> j < MAX_SOCKET
        \<and> so_type (srv_slot ss j) = SOCKET_TYPE_INVALID \<and> srv_alloc_id (fst (reserve_id ss)) = sid
        \<and> srv_slot (fst (reserve_id ss)) = (srv_slot ss)(j := reserved (srv_slot ss j) sid))"
proof (cases "find (\<lambda>d. free_slot ss (id_after ss d)) [1..<Suc MAX_SOCKET]")
  case None
  then have nf: "\<not> free_slot ss (id_after ss d)" if "1 \<le> d" "d \<le> MAX_SOCKET" for d
    using that by (simp add: find_None_iff del: upt_Suc)
  have "so_type (srv_slot ss j) \<noteq> SOCKET_TYPE_INVALID" if "j < MAX_SOCKET" for j
    using every_slot_met [OF that, of ss] nf by (auto simp: free_slot_def)
  then show ?thesis using None reserve_loop_eq [OF assms, of MAX_SOCKET] by (simp add: reserve_id_def)
next
  case (Some d)
  then have "free_slot ss (id_after ss d)" by (auto simp: find_Some_iff)
  moreover have "0 \<le> id_after ss d" "id_after ss d < 2 ^ 31" by (simp_all add: id_after_def)
  moreover have "HASH_ID sid < MAX_SOCKET" for sid by (simp add: HASH_ID_def MAX_SOCKET_def nat_less_iff)
  ultimately show ?thesis using Some reserve_loop_eq [OF assms, of MAX_SOCKET] by (simp add: reserve_id_def free_slot_def)
qed
theorem reserve_id_correct_witness:
  "\<exists>ss. srv_alloc_id ss = 2 ^ 31 - 1 \<and> snd (reserve_id ss) = 0 \<and> so_type (srv_slot (fst (reserve_id ss)) 0) = SOCKET_TYPE_RESERVE"
proof -
  let ?ss = "\<lparr>srv_time = 0, srv_reserve_fd = -1, srv_checkctrl = True, srv_alloc_id = 2 ^ 31 - 1, srv_ev = [], srv_event_index = 0,
    srv_slot = (\<lambda>_. empty_sock), srv_pipe = [], srv_mem = (\<lambda>_. None), srv_brk = 1, srv_trace = [], srv_errno = EINTR,
    srv_log = [], srv_result = \<lparr>pr_id = 0, pr_opaque = 0, pr_ud = 0, pr_data = NoData\<rparr>\<rparr>"
  have max: "MAX_SOCKET = Suc 65535" by (simp add: MAX_SOCKET_def)
  have "snd (reserve_id ?ss) = 0"
    unfolding reserve_id_def max reserve_loop.simps by (simp add: to_int_def empty_sock_def)
  then have "so_type (srv_slot (fst (reserve_id ?ss)) 0) = SOCKET_TYPE_RESERVE"
    using reserve_id_correct [of ?ss] by (auto simp: HASH_ID_def reserved_def)
  then show ?thesis using \<open>snd (reserve_id ?ss) = 0\<close> by (intro exI [of _ ?ss]) simp
qed

section \<open>The kernel\<close>

text \<open>
  What the code relies on: a write takes no more than it was given, and it is not interrupted for ever.
\<close>

inductive settles :: "sockenv \<Rightarrow> (syscall \<times> answer) list \<Rightarrow> syscall \<Rightarrow> bool" for E where
  answered: "\<not> (an_ret (en_os E tr c) < 0 \<and> an_errno (en_os E tr c) = EINTR) \<Longrightarrow> settles E tr c"
| interrupted: "settles E (tr @ [(c, en_os E tr c)]) c \<Longrightarrow> settles E tr c"

definition kernel_ok :: "sockenv \<Rightarrow> bool" where
  "kernel_ok E \<longleftrightarrow>
     (\<forall>tr fd bs. an_ret (en_os E tr (Sys_write fd bs)) \<le> int (length bs) \<and> settles E tr (Sys_write fd bs))"

text \<open>The bytes a descriptor has taken.\<close>

fun taken :: "int \<Rightarrow> syscall \<times> answer \<Rightarrow> u8 list" where
  "taken fd (Sys_write fd' bs, a) = (if fd' = fd then take (nat (an_ret a)) bs else [])"
| "taken fd (_, a) = []"

definition written :: "int \<Rightarrow> (syscall \<times> answer) list \<Rightarrow> u8 list" where
  "written fd tr = concat (map (taken fd) tr)"

lemma written_append [simp]: "written fd (tr @ tr') = written fd tr @ written fd tr'" "written fd [] = []"
  "written fd (x # tr) = taken fd x @ written fd tr"
  by (simp_all add: written_def)

text \<open>The trace with the errno of a server; everything else is the same.\<close>

definition traced :: "server \<Rightarrow> (syscall \<times> answer) list \<Rightarrow> errno \<Rightarrow> server" where
  "traced ss tr e = ss\<lparr>srv_trace := tr, srv_errno := e\<rparr>"

lemma traced_fields [simp]:
  "srv_slot (traced ss tr e) = srv_slot ss" "srv_mem (traced ss tr e) = srv_mem ss" "srv_trace (traced ss tr e) = tr"
  "srv_pipe (traced ss tr e) = srv_pipe ss" "srv_alloc_id (traced ss tr e) = srv_alloc_id ss" "srv_brk (traced ss tr e) = srv_brk ss"
  "srv_result (traced ss tr e) = srv_result ss" "srv_time (traced ss tr e) = srv_time ss"
  "traced (traced ss tr e) tr' e' = traced ss tr' e'"
  by (simp_all add: traced_def)

lemma sysc_traced: "sysc E ss c = (traced ss (srv_trace ss @ [(c, en_os E (srv_trace ss) c)])
    (if an_ret (en_os E (srv_trace ss) c) < 0 then an_errno (en_os E (srv_trace ss) c) else srv_errno ss), en_os E (srv_trace ss) c)"
  by (simp add: sysc_def traced_def Let_def)

lemma write_retry_settles:
  assumes "settles E tr c" "c = Sys_write fd bs" "tr = srv_trace ss"
  shows "\<exists>tr' e a. write_retry E ss fd bs = Some (traced ss tr' e, a) \<and> \<not> (an_ret a < 0 \<and> an_errno a = EINTR)
    \<and> (\<exists>t. a = en_os E t c) \<and> written fd tr' = written fd (srv_trace ss) @ take (nat (an_ret a)) bs
    \<and> (\<forall>f. f \<noteq> fd \<longrightarrow> written f tr' = written f (srv_trace ss))"
  using assms
proof (induction arbitrary: ss rule: settles.induct)
  case (answered tr c)
  then show ?case by (subst write_retry.simps) (auto simp: sysc_traced)
next
  case (interrupted tr c)
  let ?a = "en_os E tr c" and ?ss = "fst (sysc E ss c)"
  show ?case
  proof (cases "an_ret ?a < 0 \<and> an_errno ?a = EINTR")
    case True
    have ss: "sysc E ss c = (?ss, ?a)" "srv_trace ?ss = tr @ [(c, ?a)]" using interrupted.prems by (auto simp: sysc_traced)
    have "write_retry E ss fd bs = write_retry E ?ss fd bs"
      using True interrupted.prems by (subst write_retry.simps) (simp add: sysc_traced)
    moreover obtain tr' e a where r: "write_retry E ?ss fd bs = Some (traced ?ss tr' e, a)" "\<not> (an_ret a < 0 \<and> an_errno a = EINTR)"
      "\<exists>t. a = en_os E t c" "written fd tr' = written fd (srv_trace ?ss) @ take (nat (an_ret a)) bs"
      "\<forall>f. f \<noteq> fd \<longrightarrow> written f tr' = written f (srv_trace ?ss)"
      using interrupted.IH [OF interrupted.prems(1), of ?ss] ss(2) by auto
    moreover have "traced ?ss tr' e = traced ss tr' e" by (simp add: sysc_traced)
    moreover have "written f (srv_trace ?ss) = written f (srv_trace ss)" for f
      using True interrupted.prems ss(2) by auto
    ultimately show ?thesis by auto
  next
    case False
    then show ?thesis using interrupted.prems by (subst write_retry.simps) (auto simp: sysc_traced)
  qed
qed

lemma write_result_ok:
  assumes "kernel_ok E"
  shows "\<exists>tr' e a. write_result E ss fd bs = Inr (traced ss tr' e, a) \<and> \<not> (an_ret a < 0 \<and> an_errno a = EINTR)
    \<and> an_ret a \<le> int (length bs) \<and> written fd tr' = written fd (srv_trace ss) @ take (nat (an_ret a)) bs
    \<and> (\<forall>f. f \<noteq> fd \<longrightarrow> written f tr' = written f (srv_trace ss))"
proof -
  have "settles E (srv_trace ss) (Sys_write fd bs)" using assms by (simp add: kernel_ok_def)
  from write_retry_settles [OF this refl refl] show ?thesis
    using assms unfolding kernel_ok_def write_result_def by fastforce
qed

section \<open>Sending a list\<close>

definition wb_ok :: "(nat \<Rightarrow> u8 list option) \<Rightarrow> write_buffer \<Rightarrow> bool" where
  "wb_ok mem wb \<longleftrightarrow> \<not> wb_user wb \<and> wb_buffer wb \<noteq> 0 \<and> fst (wb_ptr wb) = wb_buffer wb
     \<and> (\<exists>bs. mem (wb_buffer wb) = Some bs \<and> snd (wb_ptr wb) + wb_sz wb \<le> length bs)"

definition wbs_ok :: "(nat \<Rightarrow> u8 list option) \<Rightarrow> write_buffer list \<Rightarrow> bool" where
  "wbs_ok mem wbs \<longleftrightarrow> (\<forall>wb \<in> set wbs. wb_ok mem wb) \<and> distinct (map wb_buffer wbs)"

definition wb_bytes :: "(nat \<Rightarrow> u8 list option) \<Rightarrow> write_buffer \<Rightarrow> u8 list" where
  "wb_bytes mem wb = take (wb_sz wb) (drop (snd (wb_ptr wb)) (the (mem (wb_buffer wb))))"

definition bytes_of :: "(nat \<Rightarrow> u8 list option) \<Rightarrow> write_buffer list \<Rightarrow> u8 list" where
  "bytes_of mem wbs = concat (map (wb_bytes mem) wbs)"

definition wb_total :: "write_buffer list \<Rightarrow> int" where
  "wb_total wbs = int (sum_list (map wb_sz wbs))"

lemma bytes_of_simps [simp]: "bytes_of mem [] = []" "bytes_of mem (wb # wbs) = wb_bytes mem wb @ bytes_of mem wbs"
  "bytes_of mem (xs @ ys) = bytes_of mem xs @ bytes_of mem ys"
  by (simp_all add: bytes_of_def)

lemma wb_total_simps [simp]: "wb_total [] = 0" "wb_total (wb # wbs) = int (wb_sz wb) + wb_total wbs" "wb_total (xs @ ys) = wb_total xs + wb_total ys"
  by (simp_all add: wb_total_def)

lemma wbs_ok_Cons: "wbs_ok mem (wb # wbs) \<longleftrightarrow> wb_ok mem wb \<and> wb_buffer wb \<notin> wb_buffer ` set wbs \<and> wbs_ok mem wbs"
  by (auto simp: wbs_ok_def)

lemma wb_bytes_length: "wb_ok mem wb \<Longrightarrow> length (wb_bytes mem wb) = wb_sz wb"
  by (auto simp: wb_ok_def wb_bytes_def)

lemma read_wb: "wb_ok (srv_mem ss) wb \<Longrightarrow> read_ptr ss (wb_ptr wb) (wb_sz wb) = Inr (wb_bytes (srv_mem ss) wb)"
  by (auto simp: wb_ok_def read_ptr_def wb_bytes_def deref_Some)

lemma wb_bytes_other: "wb_buffer wb \<noteq> p \<Longrightarrow> wb_bytes (mem(p := v)) wb = wb_bytes mem wb" "wb_buffer wb \<noteq> p \<Longrightarrow> wb_ok (mem(p := v)) wb = wb_ok mem wb"
  by (simp_all add: wb_bytes_def wb_ok_def)

lemma bytes_of_other: "p \<notin> wb_buffer ` set wbs \<Longrightarrow> bytes_of (mem(p := v)) wbs = bytes_of mem wbs"
  by (induction wbs) (auto simp: wb_bytes_other)

lemma wbs_ok_other: "p \<notin> wb_buffer ` set wbs \<Longrightarrow> wbs_ok (mem(p := v)) wbs = wbs_ok mem wbs"
  unfolding wbs_ok_def by (metis (no_types, lifting) image_eqI wb_bytes_other(2))

lemma advance_ok:
  assumes "wb_ok mem wb" "n \<le> wb_sz wb"
  shows "wb_ok mem (advance wb n)" "wb_bytes mem wb = take n (wb_bytes mem wb) @ wb_bytes mem (advance wb n)"
    "wb_sz (advance wb n) = wb_sz wb - n" "wb_buffer (advance wb n) = wb_buffer wb"
proof -
  show "wb_ok mem (advance wb n)" "wb_sz (advance wb n) = wb_sz wb - n" "wb_buffer (advance wb n) = wb_buffer wb"
    using assms by (auto simp: wb_ok_def advance_def)
  let ?d = "drop (snd (wb_ptr wb)) (the (mem (wb_buffer wb)))"
  have "wb_bytes mem (advance wb n) = drop n (take (wb_sz wb) ?d)"
    by (simp add: wb_bytes_def advance_def drop_take add.commute)
  then show "wb_bytes mem wb = take n (wb_bytes mem wb) @ wb_bytes mem (advance wb n)" by (metis append_take_drop_id wb_bytes_def)
qed

text \<open>
  The state after a part of the list was sent: \<open>xs\<close> was in the list, \<open>ys\<close> is left. The buffers that
  were sent whole are freed, the first one left may have been sent in part.
\<close>

definition sent_state ::
  "nat \<Rightarrow> bool \<Rightarrow> server \<Rightarrow> write_buffer list \<Rightarrow> write_buffer list \<Rightarrow> u64 \<Rightarrow> u64 \<Rightarrow> (nat \<Rightarrow> u8 list option)
   \<Rightarrow> (syscall \<times> answer) list \<Rightarrow> errno \<Rightarrow> server" where
  "sent_state i hi ss xs ys w t mem tr e =
     ss\<lparr>srv_trace := tr, srv_errno := e, srv_slot := (srv_slot ss)(i := (set_list hi ys (srv_slot ss i))
          \<lparr>so_write := w, so_wtime := t, so_wb_size := so_wb_size (srv_slot ss i) - (wb_total xs - wb_total ys)\<rparr>), srv_mem := mem\<rparr>"

definition left_of :: "write_buffer list \<Rightarrow> write_buffer list \<Rightarrow> bool" where
  "left_of xs ys \<longleftrightarrow> (\<exists>done. xs = done @ ys) \<or> (\<exists>done x rest n. xs = done @ x # rest \<and> ys = advance x n # rest \<and> n < wb_sz x)"

definition sent_part :: "int \<Rightarrow> server \<Rightarrow> write_buffer list \<Rightarrow> write_buffer list \<Rightarrow> (nat \<Rightarrow> u8 list option) \<Rightarrow> (syscall \<times> answer) list \<Rightarrow> bool" where
  "sent_part fd ss xs ys mem tr \<longleftrightarrow>
     left_of xs ys \<and> wbs_ok mem ys
     \<and> (\<exists>sent. written fd tr = written fd (srv_trace ss) @ sent \<and> bytes_of (srv_mem ss) xs = sent @ bytes_of mem ys)
     \<and> (\<forall>f. f \<noteq> fd \<longrightarrow> written f tr = written f (srv_trace ss))
     \<and> (\<forall>p. mem p = (if p \<in> wb_buffer ` set xs - wb_buffer ` set ys then None else srv_mem ss p))"

lemma left_of_refl [simp]: "left_of xs xs"
  by (auto simp: left_of_def)

lemma left_of_Cons: "left_of xs ys \<Longrightarrow> left_of (x # xs) ys"
  unfolding left_of_def by (metis append_Cons)

lemma left_of_buffers: "left_of xs ys \<Longrightarrow> wb_buffer ` set ys \<subseteq> wb_buffer ` set xs"
  by (auto simp: left_of_def advance_def)

lemma set_list_simps [simp]: "wb_list hi (set_list hi ys s) = ys" "set_list hi xs (set_list hi ys s) = set_list hi xs s"
  "set_list hi (wb_list hi s) s = s"
  by (simp_all add: set_list_def wb_list_def)

lemma set_list_id: "wb_list hi s = xs \<Longrightarrow> set_list hi xs s = s"
  by auto

lemma set_list_fields [simp]:
  "so_fd (set_list hi ys s) = so_fd s" "so_wb_size (set_list hi ys s) = so_wb_size s" "so_type (set_list hi ys s) = so_type s"
  "so_protocol (set_list hi ys s) = so_protocol s" "so_closing (set_list hi ys s) = so_closing s" "so_lock (set_list hi ys s) = so_lock s"
  "so_write (set_list hi ys s) = so_write s" "so_id (set_list hi ys s) = so_id s"
  "set_list hi ys (s\<lparr>so_wb_size := k\<rparr>) = (set_list hi ys s)\<lparr>so_wb_size := k\<rparr>"
  "set_list hi ys (s\<lparr>so_write := w\<rparr>) = (set_list hi ys s)\<lparr>so_write := w\<rparr>"
  "set_list hi ys (s\<lparr>so_wtime := t\<rparr>) = (set_list hi ys s)\<lparr>so_wtime := t\<rparr>"
  "wb_list hi (s\<lparr>so_wb_size := k\<rparr>) = wb_list hi s" "wb_list hi (s\<lparr>so_write := w\<rparr>) = wb_list hi s"
  "wb_list hi (s\<lparr>so_wtime := t\<rparr>) = wb_list hi s"
  by (auto simp: set_list_def wb_list_def)

lemma tcp_loop_flush:
  assumes "kernel_ok E" "wbs_ok (srv_mem ss) xs" "wb_list hi (srv_slot ss i) = xs"
  shows "\<exists>ys w t mem tr e. sent_part (so_fd (srv_slot ss i)) ss xs ys mem tr
    \<and> (tcp_loop E i hi l ss xs = Inr (sent_state i hi ss xs ys w t mem tr e, -1)
       \<or> (\<exists>done. xs = done @ ys) \<and> tcp_loop E i hi l ss xs = close_write E (sent_state i hi ss xs ys w t mem tr e) i l)"
  using assms(2,3)
proof (induction xs arbitrary: ss)
  case Nil
  have "sent_state i hi ss [] [] (so_write (srv_slot ss i)) (so_wtime (srv_slot ss i)) (srv_mem ss) (srv_trace ss) (srv_errno ss) = ss"
    using set_list_id [OF Nil(2)] by (simp add: sent_state_def)
  then have "tcp_loop E i hi l ss [] =
      Inr (sent_state i hi ss [] [] (so_write (srv_slot ss i)) (so_wtime (srv_slot ss i)) (srv_mem ss) (srv_trace ss) (srv_errno ss), -1)"
    by simp
  moreover have "sent_part (so_fd (srv_slot ss i)) ss [] [] (srv_mem ss) (srv_trace ss)" by (simp add: sent_part_def wbs_ok_def)
  ultimately show ?case by blast
next
  case (Cons x rest)
  let ?fd = "so_fd (srv_slot ss i)" and ?bs = "wb_bytes (srv_mem ss) x"
  have x: "wb_ok (srv_mem ss) x" "wb_buffer x \<notin> wb_buffer ` set rest" "wbs_ok (srv_mem ss) rest"
    using Cons.prems(1) by (auto simp: wbs_ok_Cons)
  obtain tr e a where a: "write_result E ss ?fd ?bs = Inr (traced ss tr e, a)" "\<not> (an_ret a < 0 \<and> an_errno a = EINTR)"
    "an_ret a \<le> int (wb_sz x)" "written ?fd tr = written ?fd (srv_trace ss) @ take (nat (an_ret a)) ?bs"
    "\<forall>f. f \<noteq> ?fd \<longrightarrow> written f tr = written f (srv_trace ss)"
    using write_result_ok [OF assms(1), of ss ?fd ?bs] wb_bytes_length [OF x(1)] by auto
  have step: "tcp_loop E i hi l ss (x # rest) = (if an_ret a < 0 then
       if an_errno a = EAGAIN then Inr (traced ss tr e, -1) else close_write E (traced ss tr e) i l
     else
       let n = nat (an_ret a); ss = shrink (stat_write (traced ss tr e) i (an_ret a)) i n in
       if n \<noteq> wb_sz x then Inr (put_list ss i hi (advance x n # rest), -1)
       else cbind (write_buffer_free E (put_list ss i hi rest) x) (\<lambda>ss. tcp_loop E i hi l ss rest))"
    using a(1) read_wb [OF x(1)] by simp
  show ?case
  proof (cases "an_ret a < 0")
    case True
    have "sent_state i hi ss (x # rest) (x # rest) (so_write (srv_slot ss i)) (so_wtime (srv_slot ss i)) (srv_mem ss) tr e = traced ss tr e"
      using set_list_id [OF Cons.prems(2)] by (simp add: sent_state_def traced_def)
    moreover have "sent_part ?fd ss (x # rest) (x # rest) (srv_mem ss) tr"
      using Cons.prems(1) a(4,5) True by (simp add: sent_part_def)
    ultimately show ?thesis unfolding step using True by (metis append_Nil)
  next
    case False
    let ?n = "nat (an_ret a)" and ?s = "srv_slot ss i"
    let ?ss = "shrink (stat_write (traced ss tr e) i (an_ret a)) i ?n"
    show ?thesis
    proof (cases "?n = wb_sz x")
      case False
      then have n: "?n < wb_sz x" using a(3) \<open>\<not> an_ret a < 0\<close> by linarith
      note adv = advance_ok [OF x(1) less_imp_le [OF n]]
      have "tcp_loop E i hi l ss (x # rest) = Inr (put_list ?ss i hi (advance x ?n # rest), -1)"
        unfolding step using False \<open>\<not> an_ret a < 0\<close> by (simp add: Let_def)
      moreover have "put_list ?ss i hi (advance x ?n # rest)
          = sent_state i hi ss (x # rest) (advance x ?n # rest) (so_write ?s + of_int (an_ret a)) (srv_time ss) (srv_mem ss) tr e"
        using n adv(3) by (simp add: sent_state_def put_list_def shrink_def stat_write_def set_sock_def traced_def)
      moreover have "sent_part ?fd ss (x # rest) (advance x ?n # rest) (srv_mem ss) tr"
        using a(4,5) adv x n unfolding sent_part_def left_of_def by (force simp: wbs_ok_Cons)
      ultimately show ?thesis by metis
    next
      case True
      let ?m = "(srv_mem ss)(wb_buffer x := None)"
      define s1 where "s1 = (put_list ?ss i hi rest)\<lparr>srv_mem := ?m\<rparr>"
      have "write_buffer_free E (put_list ?ss i hi rest) x = Inr s1"
        using x(1) by (auto simp: s1_def write_buffer_free_def wb_ok_def srv_free_def put_list_def shrink_def stat_write_def deref_Some)
      then have go: "tcp_loop E i hi l ss (x # rest) = tcp_loop E i hi l s1 rest"
        unfolding step using True \<open>\<not> an_ret a < 0\<close> by (simp add: Let_def)
      have f: "srv_mem s1 = ?m" "srv_trace s1 = tr" "so_fd (srv_slot s1 i) = ?fd" "wb_list hi (srv_slot s1 i) = rest"
        by (simp_all add: s1_def put_list_def shrink_def stat_write_def)
      have "wbs_ok (srv_mem s1) rest" using x(2,3) f(1) by (simp add: wbs_ok_other)
      from Cons.IH [OF this f(4)] obtain ys w t mem tr' e' where
        r: "sent_part ?fd s1 rest ys mem tr'" "tcp_loop E i hi l s1 rest = Inr (sent_state i hi s1 rest ys w t mem tr' e', -1)
         \<or> (\<exists>done. rest = done @ ys) \<and> tcp_loop E i hi l s1 rest = close_write E (sent_state i hi s1 rest ys w t mem tr' e') i l"
        unfolding f(3) by blast
      have "sent_state i hi s1 rest ys w t mem tr' e' = sent_state i hi ss (x # rest) ys w t mem tr' e'"
        using True by (simp add: s1_def sent_state_def put_list_def shrink_def stat_write_def set_sock_def traced_def algebra_simps)
      moreover have "sent_part ?fd ss (x # rest) ys mem tr'"
      proof -
        have lo: "left_of rest ys" and b: "wb_buffer x \<notin> wb_buffer ` set ys"
          using r(1) x(2) left_of_buffers [of rest ys] by (auto simp: sent_part_def)
        have "take ?n ?bs = ?bs" using True wb_bytes_length [OF x(1)] by simp
        then show ?thesis using r(1) f a(4,5) x(2) lo b
          unfolding sent_part_def by (auto simp: left_of_Cons bytes_of_other)
      qed
      ultimately show ?thesis unfolding go using r(2) by (metis append_Cons)
    qed
  qed
qed

section \<open>What a socket owns and has to send\<close>

definition dw_list :: "sock \<Rightarrow> write_buffer list" where
  "dw_list s = (if so_dw_buffer s = 0 then []
     else [\<lparr>wb_buffer = so_dw_buffer s, wb_ptr = (so_dw_buffer s, so_dw_offset s), wb_sz = so_dw_size s - so_dw_offset s,
            wb_user = False, wb_addr = []\<rparr>])"

text \<open>The rest of a direct write, the high list and the low list, in the order in which they are sent.\<close>

definition queued :: "sock \<Rightarrow> write_buffer list" where
  "queued s = dw_list s @ so_high s @ so_low s"

definition owned :: "sock \<Rightarrow> nat set" where
  "owned s = wb_buffer ` set (queued s)"

definition waiting :: "(nat \<Rightarrow> u8 list option) \<Rightarrow> sock \<Rightarrow> u8 list" where
  "waiting mem s = bytes_of mem (queued s)"

definition send_ok :: "(nat \<Rightarrow> u8 list option) \<Rightarrow> sock \<Rightarrow> bool" where
  "send_ok mem s \<longleftrightarrow> wbs_ok mem (queued s) \<and> (so_dw_buffer s \<noteq> 0 \<longrightarrow> so_dw_size s \<noteq> USEROBJECT \<and> so_dw_offset s \<le> so_dw_size s)
     \<and> (so_type s = SOCKET_TYPE_INVALID \<or> so_wb_size s = wb_total (so_high s @ so_low s))"

definition low_fresh :: "sock \<Rightarrow> bool" where
  "low_fresh s \<longleftrightarrow> (\<forall>wb \<in> set (so_low s). wb_ptr wb = (wb_buffer wb, 0))"

text \<open>The fields of a socket that sending leaves alone.\<close>

definition same_sock :: "sock \<Rightarrow> sock \<Rightarrow> bool" where
  "same_sock s s' \<longleftrightarrow> so_id s' = so_id s \<and> so_fd s' = so_fd s \<and> so_protocol s' = so_protocol s \<and> so_sending s' = so_sending s
     \<and> so_lock s' = so_lock s \<and> so_closing s' = so_closing s \<and> so_udpconnecting s' = so_udpconnecting s"

definition flow :: "nat \<Rightarrow> server \<Rightarrow> server \<Rightarrow> bool" where
  "flow i ss ss' \<longleftrightarrow>
     (let s = srv_slot ss i; s' = srv_slot ss' i; fd = so_fd s in
      send_ok (srv_mem ss') s' \<and> same_sock s s' \<and> (so_low s = [] \<longrightarrow> so_low s' = []) \<and> (\<forall>j. j \<noteq> i \<longrightarrow> srv_slot ss' j = srv_slot ss j) \<and> srv_pipe ss' = srv_pipe ss
      \<and> srv_alloc_id ss' = srv_alloc_id ss \<and> srv_brk ss' = srv_brk ss
      \<and> (\<forall>f. f \<noteq> fd \<longrightarrow> written f (srv_trace ss') = written f (srv_trace ss))
      \<and> owned s' \<subseteq> owned s \<and> (\<forall>p. srv_mem ss' p = (if p \<in> owned s - owned s' then None else srv_mem ss p))
      \<and> (\<exists>sent. written fd (srv_trace ss') = written fd (srv_trace ss) @ sent
          \<and> (if so_type s' = SOCKET_TYPE_INVALID then \<exists>rest. waiting (srv_mem ss) s = sent @ rest
             else so_type s' \<in> {so_type s, SOCKET_TYPE_HALFCLOSE_WRITE} \<and> waiting (srv_mem ss) s = sent @ waiting (srv_mem ss') s')))"

lemma same_sock_refl [simp]: "same_sock s s"
  by (simp add: same_sock_def)

lemma flow_refl: "send_ok (srv_mem ss) (srv_slot ss i) \<Longrightarrow> flow i ss ss"
  by (simp add: flow_def Let_def)

lemma flow_trans:
  assumes "flow i ss ss1" "flow i ss1 ss2" "so_type (srv_slot ss1 i) \<noteq> SOCKET_TYPE_INVALID"
  shows "flow i ss ss2"
proof -
  let ?s = "srv_slot ss i" and ?s1 = "srv_slot ss1 i" and ?s2 = "srv_slot ss2 i"
  have fd: "so_fd ?s1 = so_fd ?s" using assms(1) by (simp add: flow_def Let_def same_sock_def)
  obtain a where a: "written (so_fd ?s) (srv_trace ss1) = written (so_fd ?s) (srv_trace ss) @ a"
    "waiting (srv_mem ss) ?s = a @ waiting (srv_mem ss1) ?s1" "so_type ?s1 \<in> {so_type ?s, SOCKET_TYPE_HALFCLOSE_WRITE}"
    using assms(1,3) unfolding flow_def Let_def by auto
  obtain b where b: "written (so_fd ?s) (srv_trace ss2) = written (so_fd ?s) (srv_trace ss1) @ b"
    "if so_type ?s2 = SOCKET_TYPE_INVALID then \<exists>rest. waiting (srv_mem ss1) ?s1 = b @ rest
     else so_type ?s2 \<in> {so_type ?s1, SOCKET_TYPE_HALFCLOSE_WRITE} \<and> waiting (srv_mem ss1) ?s1 = b @ waiting (srv_mem ss2) ?s2"
    using assms(2) unfolding flow_def Let_def fd by auto
  have own: "owned ?s2 \<subseteq> owned ?s1" "owned ?s1 \<subseteq> owned ?s" using assms(1,2) by (auto simp: flow_def Let_def)
  have "\<exists>sent. written (so_fd ?s) (srv_trace ss2) = written (so_fd ?s) (srv_trace ss) @ sent
      \<and> (if so_type ?s2 = SOCKET_TYPE_INVALID then \<exists>rest. waiting (srv_mem ss) ?s = sent @ rest
         else so_type ?s2 \<in> {so_type ?s, SOCKET_TYPE_HALFCLOSE_WRITE} \<and> waiting (srv_mem ss) ?s = sent @ waiting (srv_mem ss2) ?s2)"
    using a b by (intro exI [of _ "a @ b"]) (auto split: if_splits)
  moreover have "srv_mem ss2 p = (if p \<in> owned ?s - owned ?s2 then None else srv_mem ss p)" for p
    using assms(1,2) own unfolding flow_def Let_def by auto
  moreover have "same_sock ?s ?s2" using assms(1,2) by (simp add: flow_def Let_def same_sock_def)
  moreover have "written f (srv_trace ss2) = written f (srv_trace ss)" if "f \<noteq> so_fd ?s" for f
    using assms(1,2) that fd unfolding flow_def Let_def by metis
  ultimately show ?thesis using assms(1,2) own unfolding flow_def Let_def by auto
qed

lemma flowI:
  assumes "send_ok (srv_mem ss') (srv_slot ss' i)" "same_sock (srv_slot ss i) (srv_slot ss' i)"
    "so_low (srv_slot ss i) = [] \<Longrightarrow> so_low (srv_slot ss' i) = []"
    "\<And>j. j \<noteq> i \<Longrightarrow> srv_slot ss' j = srv_slot ss j" "srv_pipe ss' = srv_pipe ss" "srv_alloc_id ss' = srv_alloc_id ss" "srv_brk ss' = srv_brk ss"
    "\<And>f. f \<noteq> so_fd (srv_slot ss i) \<Longrightarrow> written f (srv_trace ss') = written f (srv_trace ss)"
    "owned (srv_slot ss' i) \<subseteq> owned (srv_slot ss i)"
    "\<And>p. srv_mem ss' p = (if p \<in> owned (srv_slot ss i) - owned (srv_slot ss' i) then None else srv_mem ss p)"
    "written (so_fd (srv_slot ss i)) (srv_trace ss') = written (so_fd (srv_slot ss i)) (srv_trace ss) @ sent"
    "so_type (srv_slot ss' i) = SOCKET_TYPE_INVALID \<Longrightarrow> \<exists>rest. waiting (srv_mem ss) (srv_slot ss i) = sent @ rest"
    "so_type (srv_slot ss' i) \<noteq> SOCKET_TYPE_INVALID \<Longrightarrow> so_type (srv_slot ss' i) \<in> {so_type (srv_slot ss i), SOCKET_TYPE_HALFCLOSE_WRITE}
      \<and> waiting (srv_mem ss) (srv_slot ss i) = sent @ waiting (srv_mem ss') (srv_slot ss' i)"
  shows "flow i ss ss'"
  unfolding flow_def Let_def using assms by (intro conjI) (auto intro!: exI [of _ sent])

text \<open>Steps that send nothing.\<close>

lemma taken_none [simp]: "(\<And>fd bs. c \<noteq> Sys_write fd bs) \<Longrightarrow> taken f (c, a) = []"
  by (cases c) auto

lemma flow_quiet:
  assumes "send_ok (srv_mem ss) (srv_slot ss i)" "srv_mem ss' = srv_mem ss" "srv_pipe ss' = srv_pipe ss"
    "srv_alloc_id ss' = srv_alloc_id ss" "srv_brk ss' = srv_brk ss"
    "\<And>f. written f (srv_trace ss') = written f (srv_trace ss)" "\<And>j. j \<noteq> i \<Longrightarrow> srv_slot ss' j = srv_slot ss j"
    "same_sock (srv_slot ss i) (srv_slot ss' i)" "so_low (srv_slot ss i) = [] \<Longrightarrow> so_low (srv_slot ss' i) = []"
    "queued (srv_slot ss' i) = queued (srv_slot ss i)"
    "so_type (srv_slot ss i) \<noteq> SOCKET_TYPE_INVALID" "so_type (srv_slot ss' i) \<in> {so_type (srv_slot ss i), SOCKET_TYPE_HALFCLOSE_WRITE}"
    "send_ok (srv_mem ss) (srv_slot ss' i)"
  shows "flow i ss ss'"
  by (rule flowI [where sent = "[]"]) (use assms in \<open>auto simp: owned_def waiting_def\<close>)

lemma wbs_cong:
  "\<forall>wb \<in> set zs. mem' (wb_buffer wb) = mem (wb_buffer wb) \<Longrightarrow> bytes_of mem' zs = bytes_of mem zs"
  "\<forall>wb \<in> set zs. mem' (wb_buffer wb) = mem (wb_buffer wb) \<Longrightarrow> wbs_ok mem' zs = wbs_ok mem zs"
  by (auto simp: bytes_of_def wbs_ok_def wb_ok_def wb_bytes_def intro!: arg_cong [where f = concat])

lemma wbs_ok_append: "wbs_ok mem (xs @ zs) \<longleftrightarrow> wbs_ok mem xs \<and> wbs_ok mem zs \<and> wb_buffer ` set xs \<inter> wb_buffer ` set zs = {}"
  by (auto simp: wbs_ok_def)

lemma sent_part_append:
  assumes "sent_part fd ss xs ys mem tr" "wbs_ok (srv_mem ss) (xs @ zs)"
  shows "sent_part fd ss (xs @ zs) (ys @ zs) mem tr"
proof -
  have keep: "\<forall>wb \<in> set zs. mem (wb_buffer wb) = srv_mem ss (wb_buffer wb)"
    using assms by (auto simp: sent_part_def wbs_ok_append)
  have "left_of (xs @ zs) (ys @ zs)" using assms(1) unfolding sent_part_def left_of_def by (metis append.assoc append_Cons)
  moreover have "wbs_ok mem (ys @ zs)"
    using assms left_of_buffers [of xs ys] wbs_cong(2) [OF keep] unfolding sent_part_def wbs_ok_append by blast
  moreover have eq: "wb_buffer ` set (xs @ zs) - wb_buffer ` set (ys @ zs) = wb_buffer ` set xs - wb_buffer ` set ys"
    using assms(2) unfolding wbs_ok_append by auto
  moreover obtain sent where "written fd tr = written fd (srv_trace ss) @ sent" "bytes_of (srv_mem ss) xs = sent @ bytes_of mem ys"
    using assms(1) unfolding sent_part_def by blast
  then have "\<exists>sent. written fd tr = written fd (srv_trace ss) @ sent \<and> bytes_of (srv_mem ss) (xs @ zs) = sent @ bytes_of mem (ys @ zs)"
    using wbs_cong(1) [OF keep] by (intro exI [of _ sent]) simp
  ultimately show ?thesis using assms(1) unfolding sent_part_def eq by blast
qed

lemma dw_list_simps [simp]: "so_dw_buffer s = 0 \<Longrightarrow> dw_list s = []"
  by (simp add: dw_list_def)

lemma sent_state_fields [simp]:
  "srv_slot (sent_state i hi ss xs ys w t mem tr e) = (srv_slot ss)(i := (set_list hi ys (srv_slot ss i))
      \<lparr>so_write := w, so_wtime := t, so_wb_size := so_wb_size (srv_slot ss i) - (wb_total xs - wb_total ys)\<rparr>)"
  "srv_mem (sent_state i hi ss xs ys w t mem tr e) = mem" "srv_trace (sent_state i hi ss xs ys w t mem tr e) = tr"
  "srv_pipe (sent_state i hi ss xs ys w t mem tr e) = srv_pipe ss" "srv_alloc_id (sent_state i hi ss xs ys w t mem tr e) = srv_alloc_id ss"
  "srv_brk (sent_state i hi ss xs ys w t mem tr e) = srv_brk ss"
  by (simp_all add: sent_state_def)

lemma flow_sent:
  assumes "send_ok (srv_mem ss) (srv_slot ss i)" "so_dw_buffer (srv_slot ss i) = 0" "hi \<or> so_high (srv_slot ss i) = []"
    "xs = wb_list hi (srv_slot ss i)" "sent_part (so_fd (srv_slot ss i)) ss xs ys mem tr" "so_type (srv_slot ss i) \<noteq> SOCKET_TYPE_INVALID"
  shows "flow i ss (sent_state i hi ss xs ys w t mem tr e)"
proof -
  let ?s = "srv_slot ss i" and ?ss = "sent_state i hi ss xs ys w t mem tr e"
  define zs where "zs = (if hi then so_low ?s else [])"
  let ?s' = "srv_slot ?ss i"
  have q: "queued ?s = xs @ zs" "queued ?s' = ys @ zs" "so_dw_buffer ?s' = 0" "so_high ?s @ so_low ?s = xs @ zs" "so_high ?s' @ so_low ?s' = ys @ zs"
    using assms(2-4) by (auto simp: queued_def zs_def wb_list_def set_list_def)
  have sp: "sent_part (so_fd ?s) ss (xs @ zs) (ys @ zs) mem tr"
    using sent_part_append [OF assms(5)] assms(1) q(1) by (simp add: send_ok_def)
  then obtain sent where sent: "written (so_fd ?s) tr = written (so_fd ?s) (srv_trace ss) @ sent"
    "bytes_of (srv_mem ss) (xs @ zs) = sent @ bytes_of mem (ys @ zs)" unfolding sent_part_def by blast
  have "so_wb_size ?s = wb_total (xs @ zs)" using assms(1,6) unfolding send_ok_def q(4) by blast
  then have "so_wb_size ?s' = wb_total (ys @ zs)" by simp
  then have "so_wb_size ?s' = wb_total (so_high ?s' @ so_low ?s')" unfolding q(5) .
  then have "send_ok (srv_mem ?ss) ?s'" using sp q(3) unfolding send_ok_def q(2) sent_part_def sent_state_fields(2) by blast
  moreover have "same_sock ?s ?s'" by (simp add: same_sock_def set_list_def)
  moreover have "so_low ?s' = []" if "so_low ?s = []"
    using that assms(4,5) by (auto simp: set_list_def wb_list_def sent_part_def left_of_def split: if_splits)
  moreover have "wb_buffer ` set (ys @ zs) \<subseteq> wb_buffer ` set (xs @ zs)" using sp left_of_buffers unfolding sent_part_def by blast
  ultimately show ?thesis
    by (intro flowI [where sent = sent])
      (use sp sent q assms(6) in \<open>auto simp: owned_def waiting_def sent_part_def simp del: set_append bytes_of_simps(3)\<close>)
qed

lemma free_wb_list_ok:
  "wbs_ok (srv_mem ss) wbs \<Longrightarrow>
     free_wb_list E ss wbs = Inr (ss\<lparr>srv_mem := (\<lambda>p. if p \<in> wb_buffer ` set wbs then None else srv_mem ss p)\<rparr>)"
proof (induction wbs arbitrary: ss)
  case (Cons wb wbs)
  let ?ss = "ss\<lparr>srv_mem := (srv_mem ss)(wb_buffer wb := None)\<rparr>"
  have "write_buffer_free E ss wb = Inr ?ss"
    using Cons.prems by (auto simp: wbs_ok_Cons wb_ok_def write_buffer_free_def srv_free_def deref_Some)
  moreover have "wbs_ok (srv_mem ?ss) wbs" using Cons.prems by (simp add: wbs_ok_Cons wbs_ok_other)
  note Cons.IH [OF this]
  moreover have "(\<lambda>p. if p \<in> wb_buffer ` set wbs then None else srv_mem ?ss p)
      = (\<lambda>p. if p \<in> wb_buffer ` set (wb # wbs) then None else srv_mem ss p)" by (auto simp: fun_eq_iff)
  ultimately show ?case by simp
qed simp

section \<open>Closing\<close>

lemma sysc_quiet:
  assumes "\<And>fd bs. c \<noteq> Sys_write fd bs"
  obtains tr e where "sysc E ss c = (traced ss tr e, en_os E (srv_trace ss) c)" "\<And>f. written f tr = written f (srv_trace ss)"
  by (rule that [OF sysc_traced]) (simp add: assms)

lemma sysdo_traced: "\<exists>tr e. sysdo E ss c = traced ss tr e \<and> ((\<forall>fd bs. c \<noteq> Sys_write fd bs) \<longrightarrow> (\<forall>f. written f tr = written f (srv_trace ss)))"
  by (auto simp: sysdo_def sysc_traced)

text \<open>Releasing the memory of a socket, in the order of the code.\<close>

definition freed_mem :: "sock \<Rightarrow> (nat \<Rightarrow> u8 list option) \<Rightarrow> (nat \<Rightarrow> u8 list option)" where
  "freed_mem s mem = (\<lambda>p. if p \<in> owned s then None else mem p)"

definition closed_sock :: "sock \<Rightarrow> sock" where
  "closed_sock s = s\<lparr>so_high := [], so_low := [], so_type := SOCKET_TYPE_INVALID, so_dw_buffer := 0\<rparr>"

lemma closed_sock_dw0: "so_dw_buffer s = 0 \<Longrightarrow> closed_sock s = s\<lparr>so_high := [], so_low := [], so_type := SOCKET_TYPE_INVALID\<rparr>"
  by (rule sock.equality) (simp_all add: closed_sock_def)

definition same_server :: "server \<Rightarrow> server \<Rightarrow> bool" where
  "same_server ss ss' \<longleftrightarrow> srv_pipe ss' = srv_pipe ss \<and> srv_alloc_id ss' = srv_alloc_id ss \<and> srv_brk ss' = srv_brk ss
     \<and> srv_ev ss' = srv_ev ss \<and> srv_event_index ss' = srv_event_index ss \<and> (\<forall>f. written f (srv_trace ss') = written f (srv_trace ss))"

lemma set_lock_same: "so_lock (srv_slot ss i) = b \<Longrightarrow> set_sock ss i ((srv_slot ss i)\<lparr>so_lock := b\<rparr>) = ss"
  by (erule subst) (simp add: set_sock_def)

lemma set_sock_same [simp]: "set_sock ss i (srv_slot ss i) = ss"
  by (simp add: set_sock_def)

lemma socket_lock_unlock:
  assumes "0 < l \<or> \<not> so_lock (srv_slot ss i)"
  obtains lk where "socket_lock ss i l = Inr (set_sock ss i ((srv_slot ss i)\<lparr>so_lock := lk\<rparr>), Suc l)"
    "\<And>ss'. so_lock (srv_slot ss' i) = lk \<Longrightarrow> socket_unlock ss' i (Suc l) = Inr (set_sock ss' i ((srv_slot ss' i)\<lparr>so_lock := so_lock (srv_slot ss i)\<rparr>))"
proof (cases "l = 0")
  case True
  then show ?thesis using assms by (intro that [of True]) (auto simp: socket_lock_def socket_unlock_def)
next
  case False
  then show ?thesis by (intro that [of "so_lock (srv_slot ss i)"]) (simp_all add: socket_lock_def socket_unlock_def set_lock_same)
qed

lemma force_close_ok:
  assumes "send_ok (srv_mem ss) (srv_slot ss i)" "so_type (srv_slot ss i) \<notin> {SOCKET_TYPE_INVALID, SOCKET_TYPE_RESERVE}"
    "0 < l \<or> \<not> so_lock (srv_slot ss i)"
  shows "\<exists>ss'. force_close E ss i l = Inr ss' \<and> srv_slot ss' = (srv_slot ss)(i := closed_sock (srv_slot ss i))
    \<and> srv_mem ss' = freed_mem (srv_slot ss i) (srv_mem ss) \<and> same_server ss ss'
    \<and> srv_result ss' = \<lparr>pr_id = so_id (srv_slot ss i), pr_opaque = so_opaque (srv_slot ss i), pr_ud = 0, pr_data = NoData\<rparr>"
proof -
  let ?s = "srv_slot ss i" and ?high = "wb_buffer ` set (so_high (srv_slot ss i))" and ?low = "wb_buffer ` set (so_low (srv_slot ss i))"
  let ?m1 = "\<lambda>p. if p \<in> ?high then None else srv_mem ss p" and ?m2 = "\<lambda>p. if p \<in> ?high \<union> ?low then None else srv_mem ss p"
  have ok: "wbs_ok (srv_mem ss) (so_high ?s)" "wbs_ok (srv_mem ss) (so_low ?s)" "?high \<inter> ?low = {}"
    "wbs_ok (srv_mem ss) (dw_list ?s)" "wb_buffer ` set (dw_list ?s) \<inter> (?high \<union> ?low) = {}"
    using assms(1) by (auto simp: send_ok_def queued_def wbs_ok_append)
  define s0 where "s0 = sock_result ss i 0 NoData"
  have s0: "srv_slot s0 = srv_slot ss" "srv_mem s0 = srv_mem ss" "same_server ss s0"
    "srv_result s0 = \<lparr>pr_id = so_id ?s, pr_opaque = so_opaque ?s, pr_ud = 0, pr_data = NoData\<rparr>"
    by (simp_all add: s0_def sock_result_def put_result_def same_server_def)
  have f1: "free_wb_list E s0 (so_high ?s) = Inr (s0\<lparr>srv_mem := ?m1\<rparr>)" using free_wb_list_ok [of s0 "so_high ?s" E] ok(1) unfolding s0(2) by simp
  define s1 where "s1 = set_sock (s0\<lparr>srv_mem := ?m1\<rparr>) i (?s\<lparr>so_high := []\<rparr>)"
  have m1: "srv_mem s1 = ?m1" by (simp add: s1_def)
  have "\<forall>wb \<in> set (so_low ?s). ?m1 (wb_buffer wb) = srv_mem ss (wb_buffer wb)" using ok(3) by (auto simp: disjoint_iff)
  then have "wbs_ok ?m1 (so_low ?s)" using ok(2) by (simp only: wbs_cong(2))
  moreover have "(\<lambda>p. if p \<in> ?low then None else ?m1 p) = ?m2" by (auto simp: fun_eq_iff)
  ultimately have f2: "free_wb_list E s1 (so_low ?s) = Inr (s1\<lparr>srv_mem := ?m2\<rparr>)"
    using free_wb_list_ok [of s1 "so_low ?s" E] unfolding m1 by simp
  define s2 where "s2 = sysdo E (set_sock (s1\<lparr>srv_mem := ?m2\<rparr>) i (?s\<lparr>so_high := [], so_low := []\<rparr>)) (Sp_del (so_fd ?s))"
  obtain tr2 e2 where s2: "s2 = traced (set_sock (s1\<lparr>srv_mem := ?m2\<rparr>) i (?s\<lparr>so_high := [], so_low := []\<rparr>)) tr2 e2"
    "\<forall>f. written f tr2 = written f (srv_trace s1)"
    unfolding s2_def using sysdo_traced [of E "set_sock (s1\<lparr>srv_mem := ?m2\<rparr>) i (?s\<lparr>so_high := [], so_low := []\<rparr>)" "Sp_del (so_fd ?s)"] by auto
  have l2: "0 < l \<or> \<not> so_lock (srv_slot s2 i)" using assms(3) s2(1) by simp
  from socket_lock_unlock [OF l2] obtain lk where lk: "socket_lock s2 i l = Inr (set_sock s2 i ((srv_slot s2 i)\<lparr>so_lock := lk\<rparr>), Suc l)"
    "\<And>ss'. so_lock (srv_slot ss' i) = lk \<Longrightarrow> socket_unlock ss' i (Suc l) = Inr (set_sock ss' i ((srv_slot ss' i)\<lparr>so_lock := so_lock (srv_slot s2 i)\<rparr>))"
    by blast
  define s3 where "s3 = set_sock s2 i ((srv_slot s2 i)\<lparr>so_lock := lk\<rparr>)"
  define s4 where "s4 = (if so_type ?s \<noteq> SOCKET_TYPE_BIND then sysdo E s3 (Sys_close (so_fd ?s)) else s3)"
  obtain tr4 e4 where s4: "s4 = traced s3 tr4 e4" "\<forall>f. written f tr4 = written f (srv_trace s3)"
  proof (cases "so_type ?s = SOCKET_TYPE_BIND")
    case True
    then have "s4 = traced s3 (srv_trace s3) (srv_errno s3)" by (simp add: s4_def traced_def)
    then show ?thesis using that by blast
  next
    case False
    then show ?thesis using sysdo_traced [of E s3 "Sys_close (so_fd ?s)"] that by (auto simp: s4_def)
  qed
  define s5 where "s5 = set_type s4 i SOCKET_TYPE_INVALID"
  let ?t = "?s\<lparr>so_high := [], so_low := [], so_lock := lk, so_type := SOCKET_TYPE_INVALID\<rparr>"
  have s5: "srv_slot s5 = (srv_slot ss)(i := ?t)" "srv_mem s5 = ?m2" "same_server ss s5" "srv_result s5 = srv_result s0"
    using s0 s2 s4 by (simp_all add: s5_def s3_def s1_def set_type_def same_server_def traced_def)
  define s6 where "s6 = (if so_dw_buffer ?s \<noteq> 0 then set_sock (s5\<lparr>srv_mem := ?m2(so_dw_buffer ?s := None)\<rparr>) i (?t\<lparr>so_dw_buffer := 0\<rparr>) else s5)"
  have dw: "(if so_dw_buffer (srv_slot s5 i) \<noteq> 0 then
       cbind (free_buffer E s5 (if so_dw_size (srv_slot s5 i) = USEROBJECT then SOCKET_BUFFER_OBJECT else SOCKET_BUFFER_MEMORY)
                (so_dw_buffer (srv_slot s5 i))) (\<lambda>ss. Inr (set_sock ss i ((srv_slot ss i)\<lparr>so_dw_buffer := 0\<rparr>))) else Inr s5) = Inr s6"
    using assms(1) ok(4,5) s5(1,2)
    by (auto simp: s6_def send_ok_def free_buffer_def srv_free_def dw_list_def wbs_ok_Cons wb_ok_def deref_def split: option.splits)
  have u: "socket_unlock s6 i (Suc l) = Inr (set_sock s6 i ((srv_slot s6 i)\<lparr>so_lock := so_lock ?s\<rparr>))"
    using lk(2) [of s6] s5(1) s2(1) by (simp add: s6_def)
  have eq: "force_close E ss i l = Inr (set_sock s6 i ((srv_slot s6 i)\<lparr>so_lock := so_lock ?s\<rparr>))"
  proof -
    have t: "(so_type ?s = SOCKET_TYPE_INVALID) = False" "c_assert (so_type ?s \<noteq> SOCKET_TYPE_RESERVE) = Inr ()" using assms(2) by auto
    have a: "set_sock (s0\<lparr>srv_mem := ?m1\<rparr>) i ((srv_slot (s0\<lparr>srv_mem := ?m1\<rparr>) i)\<lparr>so_high := []\<rparr>) = s1" "so_low (srv_slot s1 i) = so_low ?s"
      using s0(1) by (simp_all add: s1_def)
    have b: "sysdo E (set_sock (s1\<lparr>srv_mem := ?m2\<rparr>) i ((srv_slot (s1\<lparr>srv_mem := ?m2\<rparr>) i)\<lparr>so_low := []\<rparr>))
        (Sp_del (so_fd (srv_slot (set_sock (s1\<lparr>srv_mem := ?m2\<rparr>) i ((srv_slot (s1\<lparr>srv_mem := ?m2\<rparr>) i)\<lparr>so_low := []\<rparr>)) i))) = s2"
      by (simp add: s2_def s1_def)
    have c: "(if so_type ?s \<noteq> SOCKET_TYPE_BIND then sysdo E s3 (Sys_close (so_fd (srv_slot s3 i))) else s3) = s4"
      using s2(1) by (simp add: s4_def s3_def)
    show ?thesis
      by (simp only: force_close_def Let_def s0_def [symmetric] s0(1) t if_False cbind.simps f1 a f2 b lk(1) s3_def [symmetric]
          prod.case c s5_def [symmetric] dw u)
  qed
  have "set_sock s6 i ((srv_slot s6 i)\<lparr>so_lock := so_lock ?s\<rparr>) = s6\<lparr>srv_slot := (srv_slot ss)(i := closed_sock ?s)\<rparr>"
  proof (cases "so_dw_buffer ?s = 0")
    case True
    then show ?thesis using s5(1) by (simp add: s6_def set_sock_def closed_sock_dw0)
  next
    case False
    then show ?thesis using s5(1) by (simp add: s6_def set_sock_def closed_sock_def)
  qed
  moreover have "srv_mem s6 = freed_mem ?s (srv_mem ss)"
    using s5(2) by (auto simp: s6_def freed_mem_def owned_def queued_def dw_list_def fun_eq_iff)
  moreover have "same_server ss s6" "srv_result s6 = srv_result s0" using s5(3,4) by (simp_all add: s6_def same_server_def)
  ultimately show ?thesis using eq s0(4) by (simp add: same_server_def)
qed

text \<open>The socket is gone, and with it what it had to send.\<close>

lemma queued_closed [simp]: "queued (closed_sock s) = []" "so_low (closed_sock s) = []" "so_type (closed_sock s) = SOCKET_TYPE_INVALID" "same_sock s (closed_sock s)"
  by (simp_all add: queued_def closed_sock_def same_sock_def)

lemma flow_force_close:
  assumes "send_ok (srv_mem ss) (srv_slot ss i)" "so_type (srv_slot ss i) \<notin> {SOCKET_TYPE_INVALID, SOCKET_TYPE_RESERVE}"
    "0 < l \<or> \<not> so_lock (srv_slot ss i)"
  shows "\<exists>ss'. force_close E ss i l = Inr ss' \<and> flow i ss ss' \<and> so_type (srv_slot ss' i) = SOCKET_TYPE_INVALID \<and> low_fresh (srv_slot ss' i)
    \<and> queued (srv_slot ss' i) = []"
proof -
  obtain ss' where ss': "force_close E ss i l = Inr ss'" "srv_slot ss' = (srv_slot ss)(i := closed_sock (srv_slot ss i))"
    "srv_mem ss' = freed_mem (srv_slot ss i) (srv_mem ss)" "same_server ss ss'" using force_close_ok [OF assms] by blast
  have "send_ok (srv_mem ss') (srv_slot ss' i)" using ss'(2)
    by (simp add: send_ok_def wbs_ok_def) (simp add: closed_sock_def)
  then have "flow i ss ss'"
    by (intro flowI [where sent = "[]"]) (use ss'(2-4) in \<open>auto simp: same_server_def owned_def freed_mem_def waiting_def\<close>)
  then show ?thesis using ss'(1,2) by (simp add: low_fresh_def)
qed

lemma enable_write_traced:
  "\<exists>tr e b. enable_write E ss i en = (traced (set_sock ss i ((srv_slot ss i)\<lparr>so_writing := en\<rparr>)) tr e, b)
    \<and> (\<forall>f. written f tr = written f (srv_trace ss))"
proof (cases "so_writing (srv_slot ss i) = en")
  case True
  then have same: "(srv_slot ss i)\<lparr>so_writing := en\<rparr> = srv_slot ss i" by (rule subst) simp
  have "enable_write E ss i en = (traced (set_sock ss i ((srv_slot ss i)\<lparr>so_writing := en\<rparr>)) (srv_trace ss) (srv_errno ss), False)"
    unfolding same using True by (simp add: enable_write_def traced_def)
  then show ?thesis by blast
next
  case False
  let ?c = "Sp_enable (so_fd (srv_slot ss i)) i (so_reading (srv_slot ss i)) en"
  obtain tr e where "sysc E (set_sock ss i ((srv_slot ss i)\<lparr>so_writing := en\<rparr>)) ?c
      = (traced (set_sock ss i ((srv_slot ss i)\<lparr>so_writing := en\<rparr>)) tr e, en_os E (srv_trace ss) ?c)" "\<And>f. written f tr = written f (srv_trace ss)"
    by (rule sysc_quiet [of ?c E "set_sock ss i ((srv_slot ss i)\<lparr>so_writing := en\<rparr>)"]) simp_all
  then show ?thesis using False by (auto simp: enable_write_def Let_def)
qed

lemma flow_enable_write:
  assumes "send_ok (srv_mem ss) (srv_slot ss i)" "so_type (srv_slot ss i) \<noteq> SOCKET_TYPE_INVALID"
  shows "\<exists>ss' b. enable_write E ss i en = (ss', b) \<and> flow i ss ss' \<and> (\<exists>w. srv_slot ss' i = (srv_slot ss i)\<lparr>so_writing := w\<rparr>)"
proof -
  obtain tr e b where eq: "enable_write E ss i en = (traced (set_sock ss i ((srv_slot ss i)\<lparr>so_writing := en\<rparr>)) tr e, b)"
    "\<forall>f. written f tr = written f (srv_trace ss)" using enable_write_traced by blast
  have "flow i ss (traced (set_sock ss i ((srv_slot ss i)\<lparr>so_writing := en\<rparr>)) tr e)"
    by (rule flow_quiet) (use assms eq(2) in \<open>auto simp: same_sock_def queued_def dw_list_def send_ok_def\<close>)
  then show ?thesis using eq(1) by auto
qed

lemma flow_result [simp]: "flow i ss (ss'\<lparr>srv_result := r\<rparr>) = flow i ss ss'"
  by (simp add: flow_def Let_def)

lemma sock_result_slot [simp]: "srv_slot (sock_result ss i ud d) = srv_slot ss"
  by (simp add: sock_result_def put_result_def)

lemma flow_sock_result: "flow i ss ss' \<Longrightarrow> flow i ss (sock_result ss' j ud d)"
  by (simp add: sock_result_def put_result_def flow_result)

lemma flow_send_ok: "flow i ss ss' \<Longrightarrow> send_ok (srv_mem ss') (srv_slot ss' i)"
  by (simp add: flow_def Let_def)

lemma flow_close_write:
  assumes "send_ok (srv_mem ss) (srv_slot ss i)" "so_type (srv_slot ss i) \<notin> {SOCKET_TYPE_INVALID, SOCKET_TYPE_RESERVE}"
    "0 < l \<or> \<not> so_lock (srv_slot ss i)" "low_fresh (srv_slot ss i)"
  shows "\<exists>ss' r. close_write E ss i l = Inr (ss', r) \<and> flow i ss ss' \<and> low_fresh (srv_slot ss' i)
    \<and> so_type (srv_slot ss' i) \<in> {SOCKET_TYPE_INVALID, SOCKET_TYPE_HALFCLOSE_WRITE} \<and> r \<in> {SOCKET_RST, SOCKET_ERR}"
proof -
  let ?s = "srv_slot ss i"
  consider "so_closing ?s \<or> so_type ?s = SOCKET_TYPE_HALFCLOSE_READ"
    | "\<not> (so_closing ?s \<or> so_type ?s = SOCKET_TYPE_HALFCLOSE_READ)" "so_type ?s = SOCKET_TYPE_HALFCLOSE_WRITE"
    | "\<not> (so_closing ?s \<or> so_type ?s = SOCKET_TYPE_HALFCLOSE_READ)" "so_type ?s \<noteq> SOCKET_TYPE_HALFCLOSE_WRITE" by blast
  then show ?thesis
  proof cases
    case 1
    then show ?thesis using flow_force_close [OF assms(1-3), of E] by (auto simp: close_write_def Let_def)
  next
    case 2
    then show ?thesis using assms flow_refl by (auto simp: close_write_def Let_def)
  next
    case 3
    let ?h = "set_type ss i SOCKET_TYPE_HALFCLOSE_WRITE"
    obtain tr e where x: "sysdo E ?h (Sys_shutdown_wr (so_fd ?s)) = traced ?h tr e" "\<forall>f. written f tr = written f (srv_trace ss)"
      using sysdo_traced [of E ?h "Sys_shutdown_wr (so_fd ?s)"] by (auto simp: set_type_def)
    have f: "flow i ss (traced ?h tr e)"
      by (rule flow_quiet) (use assms x(2) in \<open>auto simp: set_type_def same_sock_def queued_def dw_list_def send_ok_def\<close>)
    obtain s2 b where s2: "enable_write E (traced ?h tr e) i False = (s2, b)" "flow i (traced ?h tr e) s2"
      "\<exists>w. srv_slot s2 i = (srv_slot (traced ?h tr e) i)\<lparr>so_writing := w\<rparr>"
      using flow_enable_write [OF flow_send_ok [OF f], of E False] by (auto simp: set_type_def)
    have "flow i ss s2" by (rule flow_trans [OF f s2(2)]) (simp add: set_type_def)
    moreover have "close_write E ss i l = Inr (report_error s2 i (strerr E s2))"
      using 3 x(1) s2(1) by (simp add: close_write_def Let_def)
    ultimately show ?thesis using s2(3) assms(4)
      by (auto simp: report_error_def flow_sock_result set_type_def low_fresh_def)
  qed
qed

section \<open>Writing a socket\<close>

lemma flow_fields:
  assumes "flow i ss ss'"
  shows "send_ok (srv_mem ss') (srv_slot ss' i)" "so_fd (srv_slot ss' i) = so_fd (srv_slot ss i)"
    "so_protocol (srv_slot ss' i) = so_protocol (srv_slot ss i)" "so_lock (srv_slot ss' i) = so_lock (srv_slot ss i)"
    "so_closing (srv_slot ss' i) = so_closing (srv_slot ss i)"
    "so_type (srv_slot ss' i) \<in> {so_type (srv_slot ss i), SOCKET_TYPE_HALFCLOSE_WRITE, SOCKET_TYPE_INVALID}"
  using assms by (auto simp: flow_def Let_def same_sock_def split: if_splits)

text \<open>The type of a socket that can be written to.\<close>

definition open_type :: "sock \<Rightarrow> bool" where
  "open_type s \<longleftrightarrow> so_type s \<notin> {SOCKET_TYPE_INVALID, SOCKET_TYPE_RESERVE}"

lemma left_of_fresh:
  assumes "left_of xs ys" "\<forall>wb \<in> set xs. wb_ptr wb = (wb_buffer wb, 0)"
  shows "\<forall>wb \<in> set (tl ys). wb_ptr wb = (wb_buffer wb, 0)"
  using assms by (cases ys) (auto simp: left_of_def)

lemma flow_send_list:
  assumes "kernel_ok E" "send_ok (srv_mem ss) (srv_slot ss i)" "so_dw_buffer (srv_slot ss i) = 0" "hi \<or> so_high (srv_slot ss i) = []"
    "open_type (srv_slot ss i)" "low_fresh (srv_slot ss i)" "0 < l" "so_protocol (srv_slot ss i) = PROTOCOL_TCP"
  shows "\<exists>ss' r. send_list E i hi l ss = Inr (ss', r) \<and> flow i ss ss'
    \<and> (if r = -1 then open_type (srv_slot ss' i) \<and> so_dw_buffer (srv_slot ss' i) = 0 \<and> (if hi then low_fresh (srv_slot ss' i)
         else so_high (srv_slot ss' i) = [] \<and> (\<forall>wb \<in> set (tl (so_low (srv_slot ss' i))). wb_ptr wb = (wb_buffer wb, 0)))
       else low_fresh (srv_slot ss' i))"
proof -
  let ?s = "srv_slot ss i"
  let ?xs = "wb_list hi ?s"
  have ty: "so_type ?s \<noteq> SOCKET_TYPE_INVALID" using assms(5) by (simp add: open_type_def)
  have "wbs_ok (srv_mem ss) ?xs" using assms(2) by (cases hi) (auto simp: send_ok_def queued_def wbs_ok_append wb_list_def)
  from tcp_loop_flush [OF assms(1) this refl, of l] obtain ys w t mem tr e where
    sp: "sent_part (so_fd ?s) ss ?xs ys mem tr"
    and r: "tcp_loop E i hi l ss ?xs = Inr (sent_state i hi ss ?xs ys w t mem tr e, -1)
       \<or> (\<exists>done. ?xs = done @ ys) \<and> tcp_loop E i hi l ss ?xs = close_write E (sent_state i hi ss ?xs ys w t mem tr e) i l" by blast
  let ?ss = "sent_state i hi ss ?xs ys w t mem tr e"
  have fl: "flow i ss ?ss" by (rule flow_sent [OF assms(2-4) refl sp ty])
  have lists: "so_dw_buffer (srv_slot ?ss i) = 0" "open_type (srv_slot ?ss i)" "wb_list hi (srv_slot ?ss i) = ys"
    "hi \<Longrightarrow> so_low (srv_slot ?ss i) = so_low ?s" "\<not> hi \<Longrightarrow> so_high (srv_slot ?ss i) = []"
    using assms(3-5) by (auto simp: open_type_def set_list_def wb_list_def)
  have sl: "send_list E i hi l ss = tcp_loop E i hi l ss ?xs" using assms(8) by (simp add: send_list_def send_list_tcp_def)
  from r show ?thesis
  proof (elim disjE conjE exE)
    assume "tcp_loop E i hi l ss ?xs = Inr (?ss, -1)"
    moreover have "\<forall>wb \<in> set (tl ys). wb_ptr wb = (wb_buffer wb, 0)" if "\<not> hi"
      using left_of_fresh [of ?xs ys] sp assms(6) that by (simp add: sent_part_def low_fresh_def wb_list_def)
    ultimately show ?thesis unfolding sl using fl lists assms(6)
      by (intro exI [of _ ?ss] exI [of _ "-1"]) (auto simp: low_fresh_def wb_list_def simp del: sent_state_fields)
  next
    fix don assume d: "?xs = don @ ys" and c: "tcp_loop E i hi l ss ?xs = close_write E ?ss i l"
    have "low_fresh (srv_slot ?ss i)"
      using d assms(6) lists by (cases hi) (auto simp: low_fresh_def wb_list_def simp del: sent_state_fields)
    then obtain s2 r2 where s2: "close_write E ?ss i l = Inr (s2, r2)" "flow i ?ss s2" "low_fresh (srv_slot s2 i)" "r2 \<in> {SOCKET_RST, SOCKET_ERR}"
      using flow_close_write [OF flow_send_ok [OF fl], of l E] lists(2) assms(7) unfolding open_type_def by blast
    have "flow i ss s2" by (rule flow_trans [OF fl s2(2)]) (use lists(2) in \<open>simp add: open_type_def\<close>)
    then show ?thesis unfolding sl c using s2 by (auto simp: socket_events)
  qed
qed

lemma flow_finish_write:
  assumes "send_ok (srv_mem ss) (srv_slot ss i)" "so_dw_buffer (srv_slot ss i) = 0" "open_type (srv_slot ss i)" "0 < l"
    "so_high (srv_slot ss i) = []" "so_low (srv_slot ss i) = []"
  shows "\<exists>ss' r. finish_write E ss i l = Inr (ss', r) \<and> flow i ss ss' \<and> low_fresh (srv_slot ss' i)"
proof -
  let ?s = "srv_slot ss i"
  have "so_wb_size ?s = 0" using assms(1,3,5,6) by (simp add: send_ok_def open_type_def)
  then have a: "c_assert (send_buffer_empty ?s \<and> so_wb_size ?s = 0) = Inr ()" using assms(5,6) by (simp add: send_buffer_empty_def)
  show ?thesis
  proof (cases "so_closing ?s")
    case True
    then show ?thesis using flow_force_close [OF assms(1), of l E] assms(3,4) a by (auto simp: finish_write_def open_type_def)
  next
    case False
    obtain s2 b where s2: "enable_write E ss i False = (s2, b)" "flow i ss s2" "\<exists>w. srv_slot s2 i = ?s\<lparr>so_writing := w\<rparr>"
      using flow_enable_write [OF assms(1), of E False] assms(3) by (auto simp: open_type_def)
    have low: "low_fresh (srv_slot s2 i)" "open_type (srv_slot s2 i)" using s2(3) assms(3,6) by (auto simp: low_fresh_def open_type_def)
    let ?s3 = "set_sock s2 i ((srv_slot s2 i)\<lparr>so_warn_size := 0\<rparr>)"
    have "flow i s2 ?s3"
      by (rule flow_quiet) (use flow_send_ok [OF s2(2)] low(2) in \<open>auto simp: same_sock_def queued_def dw_list_def send_ok_def open_type_def\<close>)
    then have "flow i ss ?s3" using flow_trans [OF s2(2)] low(2) by (simp add: open_type_def)
    then show ?thesis using False a s2(1,2) low
      by (auto simp: finish_write_def Let_def report_error_def flow_sock_result low_fresh_def)
  qed
qed

lemma flow_raise:
  assumes "send_ok (srv_mem ss) (srv_slot ss i)" "so_dw_buffer (srv_slot ss i) = 0" "open_type (srv_slot ss i)"
    "so_high (srv_slot ss i) = []" "so_low (srv_slot ss i) \<noteq> []"
    "\<forall>wb \<in> set (tl (so_low (srv_slot ss i))). wb_ptr wb = (wb_buffer wb, 0)"
  shows "\<exists>ss'. raise_uncomplete ss i = Inr ss' \<and> flow i ss ss' \<and> low_fresh (srv_slot ss' i)"
proof -
  let ?s = "srv_slot ss i"
  obtain tmp rest where l: "so_low ?s = tmp # rest" using assms(5) by (cases "so_low ?s") auto
  let ?ss = "set_sock ss i (?s\<lparr>so_low := rest, so_high := [tmp]\<rparr>)"
  have "flow i ss ?ss"
    by (rule flow_quiet) (use assms l in \<open>auto simp: same_sock_def queued_def dw_list_def send_ok_def open_type_def\<close>)
  then show ?thesis using assms(4,6) l by (auto simp: raise_uncomplete_def Let_def low_fresh_def)
qed

lemma flow_send_buffer_locked:
  assumes "kernel_ok E" "send_ok (srv_mem ss) (srv_slot ss i)" "so_dw_buffer (srv_slot ss i) = 0"
    "open_type (srv_slot ss i)" "low_fresh (srv_slot ss i)" "0 < l" "so_protocol (srv_slot ss i) = PROTOCOL_TCP"
  shows "\<exists>ss' r. send_buffer_locked E i l ss = Inr (ss', r) \<and> flow i ss ss' \<and> low_fresh (srv_slot ss' i)"
proof -
  have fresh: "\<not> list_uncomplete (so_low s)" if "low_fresh s" for s
    using that by (auto simp: list_uncomplete_def low_fresh_def split: list.splits)
  obtain s1 r1 where s1: "send_list E i True l ss = Inr (s1, r1)" "flow i ss s1"
    "if r1 = -1 then open_type (srv_slot s1 i) \<and> so_dw_buffer (srv_slot s1 i) = 0 \<and> low_fresh (srv_slot s1 i) else low_fresh (srv_slot s1 i)"
    using flow_send_list [where hi = True, OF assms(1-3) disjI1 [OF TrueI] assms(4-7)] by auto
  have low1: "low_fresh (srv_slot s1 i)" using s1(3) by (auto split: if_splits)
  have b: "send_buffer_locked E i l ss = (if r1 \<noteq> -1 then Inr (s1, if r1 = SOCKET_ERR then SOCKET_ERR else -1)
     else if so_high (srv_slot s1 i) \<noteq> [] then Inr (s1, -1)
     else if so_low (srv_slot s1 i) = [] then finish_write E s1 i l
     else cbind (send_list E i False l s1) (\<lambda>(ss, ret).
       if ret \<noteq> -1 then Inr (ss, if ret = SOCKET_ERR then SOCKET_ERR else -1)
       else if list_uncomplete (so_low (srv_slot ss i)) then cbind (raise_uncomplete ss i) (\<lambda>ss. Inr (ss, -1))
       else if so_low (srv_slot ss i) \<noteq> [] then Inr (ss, -1)
       else finish_write E ss i l))"
    using fresh [OF assms(5)] s1(1) by (simp add: send_buffer_locked_def)
  show ?thesis
  proof (cases "r1 \<noteq> -1 \<or> so_high (srv_slot s1 i) \<noteq> []")
    case True
    then show ?thesis unfolding b using s1(2) low1 by auto
  next
    case False
    then have o1: "r1 = -1" "open_type (srv_slot s1 i)" "so_dw_buffer (srv_slot s1 i) = 0" "so_high (srv_slot s1 i) = []"
      using s1(3) by auto
    note ok1 = flow_fields(1) [OF s1(2)]
    have tcp: "so_protocol (srv_slot s1 i) = PROTOCOL_TCP" using flow_fields(3) [OF s1(2)] assms(7) by simp
    have then_flow: "flow i ss s'" if "flow i s1 s'" for s' using flow_trans [OF s1(2) that] o1(2) by (simp add: open_type_def)
    show ?thesis
    proof (cases "so_low (srv_slot s1 i) = []")
      case True
      then show ?thesis unfolding b using o1 then_flow flow_finish_write [OF ok1 o1(3,2) assms(6) o1(4) True, of E] by auto
    next
      case low: False
      obtain s2 r2 where s2: "send_list E i False l s1 = Inr (s2, r2)" "flow i s1 s2"
        "if r2 = -1 then open_type (srv_slot s2 i) \<and> so_dw_buffer (srv_slot s2 i) = 0 \<and> so_high (srv_slot s2 i) = []
           \<and> (\<forall>wb \<in> set (tl (so_low (srv_slot s2 i))). wb_ptr wb = (wb_buffer wb, 0)) else low_fresh (srv_slot s2 i)"
        using flow_send_list [OF assms(1) ok1 o1(3) disjI2 [OF o1(4)] o1(2) low1 assms(6) tcp, of False] by auto
      have b2: "send_buffer_locked E i l ss = (if r2 \<noteq> -1 then Inr (s2, if r2 = SOCKET_ERR then SOCKET_ERR else -1)
         else if list_uncomplete (so_low (srv_slot s2 i)) then cbind (raise_uncomplete s2 i) (\<lambda>ss. Inr (ss, -1))
         else if so_low (srv_slot s2 i) \<noteq> [] then Inr (s2, -1) else finish_write E s2 i l)"
        unfolding b using o1 low s2(1) by simp
      show ?thesis
      proof (cases "r2 = -1")
        case False
        then show ?thesis unfolding b2 using s2(2,3) then_flow by auto
      next
        case True
        then have o2: "open_type (srv_slot s2 i)" "so_dw_buffer (srv_slot s2 i) = 0" "so_high (srv_slot s2 i) = []"
          "\<forall>wb \<in> set (tl (so_low (srv_slot s2 i))). wb_ptr wb = (wb_buffer wb, 0)" using s2(3) by auto
        note ok2 = flow_fields(1) [OF s2(2)]
        have then_flow2: "flow i ss s'" if "flow i s2 s'" for s'
          using then_flow [OF flow_trans [OF s2(2) that]] o2(1) by (simp add: open_type_def)
        show ?thesis
        proof (cases "so_low (srv_slot s2 i)")
          case Nil
          then show ?thesis unfolding b2 using True then_flow2 flow_finish_write [OF ok2 o2(2,1) assms(6) o2(3) Nil, of E]
            by (auto simp: list_uncomplete_def)
        next
          case (Cons tmp rest)
          have "\<exists>s'. raise_uncomplete s2 i = Inr s' \<and> flow i s2 s' \<and> low_fresh (srv_slot s' i)"
            by (rule flow_raise [OF ok2 o2(2,1,3) _ o2(4)]) (simp add: Cons)
          then obtain s' where s': "raise_uncomplete s2 i = Inr s'" "flow i s2 s'" "low_fresh (srv_slot s' i)" by blast
          have "low_fresh (srv_slot s2 i)" if "\<not> list_uncomplete (so_low (srv_slot s2 i))"
            using that o2(4) Cons by (simp add: list_uncomplete_def low_fresh_def)
          then show ?thesis unfolding b2 using True s' then_flow2 then_flow [OF s2(2)] Cons by auto
        qed
      qed
    qed
  qed
qed

end
