(* ===== verification/Sky_Socket_Spec.thy ===== *)
theory Sky_Socket_Spec
  imports Sky_Socket_Write
begin

text \<open>
  The data of a TCP connection between the calls of \<open>socket_server_send\<close> and the kernel: the requests in
  the pipe, the direct writes of the workers and the queues of the socket, over every interleaving.
\<close>

lemma flowE:
  assumes "flow i ss ss'"
  obtains sent where "written (so_fd (srv_slot ss i)) (srv_trace ss') = written (so_fd (srv_slot ss i)) (srv_trace ss) @ sent"
    "if so_type (srv_slot ss' i) = SOCKET_TYPE_INVALID then \<exists>rest. waiting (srv_mem ss) (srv_slot ss i) = sent @ rest
     else so_type (srv_slot ss' i) \<in> {so_type (srv_slot ss i), SOCKET_TYPE_HALFCLOSE_WRITE}
       \<and> waiting (srv_mem ss) (srv_slot ss i) = sent @ waiting (srv_mem ss') (srv_slot ss' i)"
  using assms unfolding flow_def Let_def by blast

lemma lock_irrelevant:
  "queued (s\<lparr>so_lock := b\<rparr>) = queued s" "owned (s\<lparr>so_lock := b\<rparr>) = owned s" "waiting m (s\<lparr>so_lock := b\<rparr>) = waiting m s"
  "send_ok m (s\<lparr>so_lock := b\<rparr>) = send_ok m s" "dw_list (s\<lparr>so_lock := b\<rparr>) = dw_list s"
  by (simp_all add: queued_def owned_def waiting_def send_ok_def dw_list_def)

lemma flow_unlock:
  assumes "flow i (set_sock ss i ((srv_slot ss i)\<lparr>so_lock := True\<rparr>)) ss'" "\<not> so_lock (srv_slot ss i)"
  shows "flow i ss (set_sock ss' i ((srv_slot ss' i)\<lparr>so_lock := False\<rparr>))"
proof -
  let ?s = "(srv_slot ss i)\<lparr>so_lock := True\<rparr>"
  obtain sent where sent: "written (so_fd ?s) (srv_trace ss') = written (so_fd ?s) (srv_trace ss) @ sent"
    "if so_type (srv_slot ss' i) = SOCKET_TYPE_INVALID then \<exists>rest. waiting (srv_mem ss) ?s = sent @ rest
     else so_type (srv_slot ss' i) \<in> {so_type ?s, SOCKET_TYPE_HALFCLOSE_WRITE} \<and> waiting (srv_mem ss) ?s = sent @ waiting (srv_mem ss') (srv_slot ss' i)"
    using flowE [OF assms(1), unfolded set_sock_fields fun_upd_same] by blast
  show ?thesis
    by (rule flowI [where sent = sent]) (use assms sent in \<open>auto simp: flow_def Let_def lock_irrelevant same_sock_def split: if_splits\<close>)
qed

lemma flow_send_buffer:
  assumes "kernel_ok E" "send_ok (srv_mem ss) (srv_slot ss i)" "open_type (srv_slot ss i)" "low_fresh (srv_slot ss i)"
    "so_protocol (srv_slot ss i) = PROTOCOL_TCP"
  shows "\<exists>ss' r. send_buffer E i 0 ss = Inr (ss', r) \<and> flow i ss ss' \<and> low_fresh (srv_slot ss' i)"
proof (cases "so_lock (srv_slot ss i)")
  case True
  then show ?thesis using assms(2,4) flow_refl by (auto simp: send_buffer_def socket_trylock_def)
next
  case False
  let ?s = "(srv_slot ss i)\<lparr>so_lock := True\<rparr>"
  let ?ss = "set_sock ss i ?s"
  let ?d = "take_direct E ?ss i"
  have ok: "send_ok (srv_mem ss) ?s" using assms(2) by (simp only: lock_irrelevant)
  have d: "flow i ?ss ?d \<and> so_dw_buffer (srv_slot ?d i) = 0 \<and> low_fresh (srv_slot ?d i) \<and> open_type (srv_slot ?d i)"
  proof (cases "so_dw_buffer ?s = 0")
    case True
    then show ?thesis using ok assms(3,4) flow_refl [of ?ss i] by (auto simp: take_direct_def low_fresh_def open_type_def)
  next
    case False
    then have u: "so_dw_size ?s \<noteq> USEROBJECT" using ok by (simp add: send_ok_def)
    have eq: "?d = set_sock ss i (?s\<lparr>so_wb_size := so_wb_size ?s + int (so_dw_size ?s - so_dw_offset ?s),
        so_high := hd (dw_list ?s) # so_high ?s, so_dw_buffer := 0\<rparr>)"
      using False u by (simp add: take_direct_def send_object_init_def dw_list_def)
    have "flow i ?ss ?d" unfolding eq
      by (rule flow_quiet) (use ok False assms(3) in \<open>auto simp: same_sock_def queued_def dw_list_def send_ok_def open_type_def\<close>)
    then show ?thesis unfolding eq using assms(3,4) by (simp add: low_fresh_def open_type_def)
  qed
  have tcp: "so_protocol (srv_slot ?d i) = PROTOCOL_TCP" using d flow_fields(3) [of i ?ss ?d] assms(5) by simp
  obtain s2 r where s2: "send_buffer_locked E i 1 ?d = Inr (s2, r)" "flow i ?d s2" "low_fresh (srv_slot s2 i)"
    using flow_send_buffer_locked [OF assms(1), of ?d i 1] d flow_fields(1) [of i ?ss ?d] tcp by auto
  have f: "flow i ?ss s2" using flow_trans [of i ?ss ?d s2] d s2(2) by (simp add: open_type_def)
  have "send_buffer E i 0 ss = Inr (set_sock s2 i ((srv_slot s2 i)\<lparr>so_lock := False\<rparr>), r)"
    using False s2(1) by (simp add: send_buffer_def socket_trylock_def socket_unlock_def)
  moreover have "low_fresh ((srv_slot s2 i)\<lparr>so_lock := False\<rparr>)" using s2(3) by (simp add: low_fresh_def)
  ultimately show ?thesis using flow_unlock [OF f False] by auto
qed

section \<open>A connection\<close>

text \<open>The requests for a socket that carry data, as the buffers they become.\<close>

definition mem_wb :: "nat \<Rightarrow> nat \<Rightarrow> write_buffer" where
  "mem_wb p len = \<lparr>wb_buffer = p, wb_ptr = (p, 0), wb_sz = len, wb_user = False, wb_addr = []\<rparr>"

fun req_wbs :: "int \<Rightarrow> request \<Rightarrow> write_buffer list" where
  "req_wbs sid (Req_D s len p) = (if s = sid then [mem_wb p len] else [])"
| "req_wbs sid _ = []"

definition coming :: "int \<Rightarrow> server \<Rightarrow> write_buffer list" where
  "coming sid ss = concat (map (req_wbs sid) (srv_pipe ss))"

fun high_only :: "int \<Rightarrow> request \<Rightarrow> bool" where
  "high_only sid (Req_D s len p) \<longleftrightarrow> s = sid \<longrightarrow> len \<noteq> USEROBJECT"
| "high_only sid (Req_P s len p) \<longleftrightarrow> s \<noteq> sid"
| "high_only sid _ \<longleftrightarrow> True"

definition sock_of :: "int \<Rightarrow> server \<Rightarrow> sock" where
  "sock_of sid ss = srv_slot ss (HASH_ID sid)"

text \<open>All that is to be sent on the connection.\<close>

definition backlog :: "int \<Rightarrow> server \<Rightarrow> u8 list" where
  "backlog sid ss = waiting (srv_mem ss) (sock_of sid ss) @ bytes_of (srv_mem ss) (coming sid ss)"

definition conn_inv :: "int \<Rightarrow> server \<Rightarrow> bool" where
  "conn_inv sid ss \<longleftrightarrow>
     (let s = sock_of sid ss in
      so_id s = sid \<and> so_type s = SOCKET_TYPE_CONNECTED \<and> \<not> so_closing s \<and> so_protocol s = PROTOCOL_TCP
      \<and> send_ok (srv_mem ss) s \<and> so_low s = [] \<and> wbs_ok (srv_mem ss) (queued s @ coming sid ss)
      \<and> (\<forall>r \<in> set (srv_pipe ss). high_only sid r) \<and> so_sending s = ID_TAG16 sid * 65536 + length (coming sid ss)
      \<and> length (coming sid ss) < 65536)"

definition conn_stream :: "int \<Rightarrow> server \<Rightarrow> u8 list" where
  "conn_stream sid ss = written (so_fd (sock_of sid ss)) (srv_trace ss) @ backlog sid ss"

text \<open>The data the caller of \<open>socket_server_send\<close> hands over: a block of memory it owns.\<close>

definition sendable :: "int \<Rightarrow> server \<Rightarrow> sendbuffer \<Rightarrow> u8 list \<Rightarrow> bool" where
  "sendable sid ss buf bs \<longleftrightarrow>
     sb_id buf = sid \<and> sb_type buf = SOCKET_BUFFER_MEMORY \<and> sb_buffer buf \<noteq> 0 \<and> sb_sz buf \<noteq> USEROBJECT
     \<and> (\<exists>blk. srv_mem ss (sb_buffer buf) = Some blk \<and> sb_sz buf \<le> length blk \<and> bs = take (sb_sz buf) blk)
     \<and> sb_buffer buf \<notin> owned (sock_of sid ss) \<union> wb_buffer ` set (coming sid ss)
     \<and> length (coming sid ss) < 65535"

text \<open>
  Everything else that happens: other sockets, requests for them, reads of this one, the lock taken and
  released by others. It leaves the write side of the socket and its requests alone.
\<close>

definition unrelated :: "int \<Rightarrow> server \<Rightarrow> server \<Rightarrow> bool" where
  "unrelated sid ss ss' \<longleftrightarrow>
     (let s = sock_of sid ss; s' = sock_of sid ss' in
      so_id s' = so_id s \<and> so_type s' = so_type s \<and> so_closing s' = so_closing s \<and> so_protocol s' = so_protocol s
      \<and> so_fd s' = so_fd s \<and> so_sending s' = so_sending s \<and> so_wb_size s' = so_wb_size s \<and> so_high s' = so_high s \<and> so_low s' = so_low s
      \<and> so_dw_buffer s' = so_dw_buffer s \<and> so_dw_size s' = so_dw_size s \<and> so_dw_offset s' = so_dw_offset s
      \<and> coming sid ss' = coming sid ss \<and> (\<forall>r \<in> set (srv_pipe ss'). high_only sid r)
      \<and> written (so_fd s) (srv_trace ss') = written (so_fd s) (srv_trace ss)
      \<and> (\<forall>p \<in> owned s \<union> wb_buffer ` set (coming sid ss). srv_mem ss' p = srv_mem ss p))"

text \<open>A step with the bytes it accepts.\<close>

inductive conn_step :: "sockenv \<Rightarrow> int \<Rightarrow> server \<Rightarrow> u8 list \<Rightarrow> server \<Rightarrow> bool" for E sid where
  send: "sendable sid ss buf bs \<Longrightarrow> socket_server_send E ss buf = Inr (ss', r) \<Longrightarrow> conn_step E sid ss bs ss'"
| request: "srv_pipe ss = q # qs \<Longrightarrow> q = Req_W sid \<or> (\<exists>len p. q = Req_D sid len p) \<Longrightarrow> ctrl_cmd E ss = Inr (ss', r) \<Longrightarrow>
    conn_step E sid ss [] ss'"
| writable: "send_buffer E (HASH_ID sid) 0 ss = Inr (ss', r) \<Longrightarrow> conn_step E sid ss [] ss'"
| other: "unrelated sid ss ss' \<Longrightarrow> conn_step E sid ss [] ss'"

inductive conn_run :: "sockenv \<Rightarrow> int \<Rightarrow> server \<Rightarrow> u8 list \<Rightarrow> server \<Rightarrow> bool" for E sid ss0 where
  start: "conn_run E sid ss0 [] ss0"
| step: "conn_run E sid ss0 acc ss \<Longrightarrow> so_type (sock_of sid ss) = SOCKET_TYPE_CONNECTED \<Longrightarrow> conn_step E sid ss bs ss' \<Longrightarrow>
    conn_run E sid ss0 (acc @ bs) ss'"

text \<open>What a step keeps: the stream, as long as the connection stands; a prefix of it when a write error ended it.\<close>

definition keeps :: "int \<Rightarrow> server \<Rightarrow> u8 list \<Rightarrow> server \<Rightarrow> bool" where
  "keeps sid ss bs ss' \<longleftrightarrow>
     so_fd (sock_of sid ss') = so_fd (sock_of sid ss)
     \<and> (if so_type (sock_of sid ss') = SOCKET_TYPE_CONNECTED then conn_inv sid ss' \<and> conn_stream sid ss' = conn_stream sid ss @ bs
        else \<exists>rest. conn_stream sid ss @ bs = written (so_fd (sock_of sid ss)) (srv_trace ss') @ rest)"

lemma conn_inv_open: "conn_inv sid ss \<Longrightarrow> send_ok (srv_mem ss) (sock_of sid ss) \<and> open_type (sock_of sid ss) \<and> low_fresh (sock_of sid ss)
    \<and> so_protocol (sock_of sid ss) = PROTOCOL_TCP"
  by (simp add: conn_inv_def Let_def open_type_def low_fresh_def)

text \<open>The write side of the socket thread keeps the stream.\<close>

lemma keeps_flow:
  assumes "conn_inv sid ss" "flow (HASH_ID sid) ss ss'"
  shows "keeps sid ss [] ss'"
proof -
  let ?i = "HASH_ID sid"
  let ?s = "srv_slot ss ?i" and ?s' = "srv_slot ss' ?i"
  have inv: "so_id ?s = sid" "so_type ?s = SOCKET_TYPE_CONNECTED" "\<not> so_closing ?s" "so_low ?s = []"
    "wbs_ok (srv_mem ss) (queued ?s @ coming sid ss)" "\<forall>r \<in> set (srv_pipe ss). high_only sid r"
    "so_sending ?s = ID_TAG16 sid * 65536 + length (coming sid ss)" "length (coming sid ss) < 65536" "so_protocol ?s = PROTOCOL_TCP"
    using assms(1) by (simp_all add: conn_inv_def Let_def sock_of_def)
  have fl: "send_ok (srv_mem ss') ?s'" "same_sock ?s ?s'" "so_low ?s' = []" "srv_pipe ss' = srv_pipe ss" "owned ?s' \<subseteq> owned ?s"
    "\<And>p. srv_mem ss' p = (if p \<in> owned ?s - owned ?s' then None else srv_mem ss p)"
    using assms(2) inv(4) unfolding flow_def Let_def by auto
  obtain sent where sent: "written (so_fd ?s) (srv_trace ss') = written (so_fd ?s) (srv_trace ss) @ sent"
    "if so_type ?s' = SOCKET_TYPE_INVALID then \<exists>rest. waiting (srv_mem ss) ?s = sent @ rest
     else so_type ?s' \<in> {so_type ?s, SOCKET_TYPE_HALFCLOSE_WRITE} \<and> waiting (srv_mem ss) ?s = sent @ waiting (srv_mem ss') ?s'"
    using flowE [OF assms(2)] by blast
  have c: "coming sid ss' = coming sid ss" using fl(4) by (simp add: coming_def)
  have disj: "owned ?s \<inter> wb_buffer ` set (coming sid ss) = {}" using inv(5) by (simp add: wbs_ok_append owned_def)
  then have keep: "\<forall>wb \<in> set (coming sid ss). srv_mem ss' (wb_buffer wb) = srv_mem ss (wb_buffer wb)" unfolding fl(6) by auto
  have "wbs_ok (srv_mem ss') (queued ?s' @ coming sid ss)"
    using fl(1,5) inv(5) disj wbs_cong(2) [OF keep] unfolding wbs_ok_append send_ok_def owned_def by blast
  then have "conn_inv sid ss'" if "so_type ?s' = SOCKET_TYPE_CONNECTED"
    using that fl inv by (simp add: conn_inv_def Let_def sock_of_def c same_sock_def)
  moreover have "conn_stream sid ss' = conn_stream sid ss" if "so_type ?s' = SOCKET_TYPE_CONNECTED"
    using that sent fl(2) wbs_cong(1) [OF keep] by (simp add: conn_stream_def backlog_def sock_of_def c same_sock_def)
  moreover have "\<exists>rest. conn_stream sid ss = written (so_fd ?s) (srv_trace ss') @ rest"
    using sent by (auto simp: conn_stream_def backlog_def sock_of_def split: if_splits)
  ultimately show ?thesis using fl(2) by (simp add: keeps_def sock_of_def same_sock_def)
qed

lemma step_writable:
  assumes "kernel_ok E" "conn_inv sid ss"
  shows "\<exists>ss' r. send_buffer E (HASH_ID sid) 0 ss = Inr (ss', r) \<and> keeps sid ss [] ss'"
  using flow_send_buffer [OF assms(1), of ss "HASH_ID sid"] conn_inv_open [OF assms(2)] keeps_flow [OF assms(2)]
  by (auto simp: sock_of_def)

text \<open>A change that leaves the stream as it is before the rest of the step.\<close>

lemma keeps_after:
  assumes "keeps sid ss1 [] ss'" "so_fd (sock_of sid ss1) = so_fd (sock_of sid ss)" "conn_stream sid ss1 = conn_stream sid ss @ bs"
  shows "keeps sid ss bs ss'"
  using assms(1) unfolding keeps_def assms(2,3) append_Nil2 by simp

lemma sending_irrelevant:
  "queued (s\<lparr>so_sending := k\<rparr>) = queued s" "owned (s\<lparr>so_sending := k\<rparr>) = owned s" "waiting m (s\<lparr>so_sending := k\<rparr>) = waiting m s"
  "send_ok m (s\<lparr>so_sending := k\<rparr>) = send_ok m s"
  by (simp_all add: queued_def owned_def waiting_def send_ok_def dw_list_def)

lemma flow_sending:
  assumes "flow i ss ss'"
  shows "flow i (set_sock ss i ((srv_slot ss i)\<lparr>so_sending := k\<rparr>)) (set_sock ss' i ((srv_slot ss' i)\<lparr>so_sending := k\<rparr>))"
  using assms by (auto simp: flow_def Let_def sending_irrelevant same_sock_def)

lemma flow_warn_size:
  assumes "send_ok (srv_mem ss) (srv_slot ss i)" "so_type (srv_slot ss i) \<noteq> SOCKET_TYPE_INVALID"
  shows "flow i ss (fst (warn_size ss i))"
proof -
  have "flow i ss (set_sock ss i ((srv_slot ss i)\<lparr>so_warn_size := w\<rparr>))" for w
    by (rule flow_quiet) (use assms in \<open>auto simp: same_sock_def queued_def dw_list_def send_ok_def\<close>)
  then show ?thesis using assms(1) by (auto simp: warn_size_def Let_def flow_sock_result flow_refl)
qed

lemma flow_enable_warn:
  assumes "send_ok (srv_mem ss) (srv_slot ss i)" "so_type (srv_slot ss i) \<noteq> SOCKET_TYPE_INVALID"
  shows "\<exists>ss' r. (let (ss, err) = enable_write E ss i True in
      if err then Inr (report_error ss i t) else Inr (warn_size ss i)) = (Inr (ss', r) :: (server \<times> int) res) \<and> flow i ss ss'"
proof -
  obtain s1 b w where e: "enable_write E ss i True = (s1, b)" "flow i ss s1" "srv_slot s1 i = (srv_slot ss i)\<lparr>so_writing := w\<rparr>"
    using flow_enable_write [OF assms] by blast
  have "flow i s1 (fst (warn_size s1 i))" using flow_warn_size [of s1 i] flow_send_ok [OF e(2)] e(3) assms(2) by simp
  then have "flow i ss (fst (warn_size s1 i))" using flow_trans [OF e(2)] e(3) assms(2) by simp
  then show ?thesis using e(1,2) by (cases "warn_size s1 i") (auto simp: report_error_def flow_sock_result)
qed

lemma step_request_W:
  assumes "conn_inv sid ss" "srv_pipe ss = Req_W sid # qs"
  shows "\<exists>ss' r. ctrl_cmd E ss = Inr (ss', r) \<and> keeps sid ss [] ss'"
proof -
  let ?ss = "ss\<lparr>srv_pipe := qs\<rparr>" and ?i = "HASH_ID sid"
  have c: "coming sid ss = coming sid ?ss" using assms(2) by (simp add: coming_def)
  have inv: "conn_inv sid ?ss" using assms c by (simp add: conn_inv_def Let_def sock_of_def)
  then have s: "send_ok (srv_mem ss) (srv_slot ss ?i)" "so_type (srv_slot ss ?i) = SOCKET_TYPE_CONNECTED" "so_id (srv_slot ss ?i) = sid"
    by (simp_all add: conn_inv_def Let_def sock_of_def)
  obtain s1 b where e: "enable_write E ?ss ?i True = (s1, b)" "flow ?i ?ss s1"
    using flow_enable_write [of ?ss ?i E True] s by auto
  have "\<exists>ss' r. ctrl_cmd E ss = Inr (ss', r) \<and> flow ?i ?ss ss'"
    using assms(2) s e by (auto simp: ctrl_cmd_def trigger_write_def socket_invalid_def report_error_def flow_sock_result)
  moreover have "conn_stream sid ?ss = conn_stream sid ss" using c by (simp add: conn_stream_def backlog_def sock_of_def)
  ultimately show ?thesis using keeps_flow [OF inv] keeps_after [of sid ?ss _ ss "[]"] by (fastforce simp: sock_of_def)
qed

lemma step_request_D:
  assumes "conn_inv sid ss" "srv_pipe ss = Req_D sid len p # qs"
  shows "\<exists>ss' r. ctrl_cmd E ss = Inr (ss', r) \<and> keeps sid ss [] ss'"
proof -
  let ?i = "HASH_ID sid" and ?ss = "ss\<lparr>srv_pipe := qs\<rparr>" and ?s = "srv_slot ss (HASH_ID sid)" and ?wb = "mem_wb p len"
  have c: "coming sid ss = ?wb # coming sid ?ss" using assms(2) by (simp add: coming_def)
  have inv: "so_id ?s = sid" "so_type ?s = SOCKET_TYPE_CONNECTED" "\<not> so_closing ?s" "so_low ?s = []" "send_ok (srv_mem ss) ?s"
    "wbs_ok (srv_mem ss) (queued ?s @ coming sid ss)" "\<forall>r \<in> set (srv_pipe ss). high_only sid r"
    "so_sending ?s = ID_TAG16 sid * 65536 + length (coming sid ss)" "length (coming sid ss) < 65536" "so_protocol ?s = PROTOCOL_TCP"
    using assms(1) by (simp_all add: conn_inv_def Let_def sock_of_def)
  have u: "len \<noteq> USEROBJECT" using inv(7) assms(2) by simp
  let ?t = "?s\<lparr>so_high := so_high ?s @ [?wb], so_wb_size := so_wb_size ?s + int len\<rparr>"
  let ?a = "set_sock ?ss ?i ?t"
  have app: "append_sendbuffer E ?ss ?i True len p [] = ?a"
    using u by (simp add: append_sendbuffer_def send_object_init_def set_list_def wb_list_def mem_wb_def Let_def)
  have q: "queued ?t = queued ?s @ [?wb]" using inv(4) by (simp add: queued_def dw_list_def)
  have ok: "send_ok (srv_mem ss) ?t"
    using inv(4,5,6) unfolding send_ok_def q c by (auto simp: wbs_ok_append wbs_ok_Cons mem_wb_def wbs_ok_def)
  have "\<exists>s1 r. send_socket E ?ss sid len p True None = Inr (s1, r) \<and> flow ?i ?a s1"
  proof (cases "send_buffer_empty ?s")
    case True
    then show ?thesis using flow_enable_warn [of ?a ?i E "''enable write failed''"] ok inv app
      by (simp add: send_socket_def Let_def)
  next
    case False
    then show ?thesis using flow_warn_size [of ?a ?i] ok inv app
      by (cases "warn_size ?a ?i") (simp add: send_socket_def Let_def)
  qed
  then obtain s1 r where s1: "send_socket E ?ss sid len p True None = Inr (s1, r)" "flow ?i ?a s1" by blast
  let ?k = "so_sending ?s - 1"
  let ?dec = "\<lambda>z. set_sock z ?i ((srv_slot z ?i)\<lparr>so_sending := ?k\<rparr>)"
  have same: "so_id (srv_slot s1 ?i) = sid" "so_protocol (srv_slot s1 ?i) = PROTOCOL_TCP" "so_sending (srv_slot s1 ?i) = so_sending ?s"
    using s1(2) inv by (simp_all add: flow_def Let_def same_sock_def)
  have "so_sending ?s mod 65536 \<noteq> 0" using inv(8,9) c by simp
  then have run: "ctrl_cmd E ss = Inr (?dec s1, r)"
    using assms(2) s1(1) same by (simp add: ctrl_cmd_def send_request_cmd_def dec_sending_ref_def c_assert_def Let_def)
  let ?b = "?dec ?a"
  have cb: "coming sid ?b = coming sid ?ss" by (simp add: coming_def)
  have invb: "conn_inv sid ?b"
    using inv ok c assms(2) cb by (simp add: conn_inv_def Let_def sock_of_def sending_irrelevant q)
  moreover have "flow ?i ?b (?dec s1)" using flow_sending [OF s1(2)] by simp
  moreover have "conn_stream sid ?b = conn_stream sid ss"
    using c cb by (simp add: conn_stream_def backlog_def sock_of_def sending_irrelevant waiting_def q)
  ultimately show ?thesis using run keeps_flow [of sid ?b "?dec s1"] keeps_after [of sid ?b "?dec s1" ss "[]"] by (simp add: sock_of_def)
qed

text \<open>A send that leaves a request behind.\<close>

lemma step_send_request:
  assumes "conn_inv sid ss" "sendable sid ss buf bs"
  shows "\<exists>ss' r. send_by_request ss buf Req_D = Inr (ss', r) \<and> keeps sid ss bs ss'"
proof -
  let ?i = "HASH_ID sid" and ?s = "srv_slot ss (HASH_ID sid)" and ?wb = "mem_wb (sb_buffer buf) (sb_sz buf)"
  have inv: "so_id ?s = sid" "so_type ?s = SOCKET_TYPE_CONNECTED" "\<not> so_closing ?s" "so_low ?s = []" "send_ok (srv_mem ss) ?s"
    "wbs_ok (srv_mem ss) (queued ?s @ coming sid ss)" "\<forall>r \<in> set (srv_pipe ss). high_only sid r"
    "so_sending ?s = ID_TAG16 sid * 65536 + length (coming sid ss)" "so_protocol ?s = PROTOCOL_TCP"
    using assms(1) by (simp_all add: conn_inv_def Let_def sock_of_def)
  have b: "sb_id buf = sid" "sb_type buf = SOCKET_BUFFER_MEMORY" "sb_sz buf \<noteq> USEROBJECT" "length (coming sid ss) < 65535"
    "wb_ok (srv_mem ss) ?wb" "wb_bytes (srv_mem ss) ?wb = bs" "sb_buffer buf \<notin> owned ?s \<union> wb_buffer ` set (coming sid ss)"
    using assms(2) by (auto simp: sendable_def sock_of_def wb_ok_def wb_bytes_def mem_wb_def)
  let ?t = "set_sock ss ?i (?s\<lparr>so_sending := so_sending ?s + 1\<rparr>)"
  let ?ss = "send_request ?t (Req_D sid (sb_sz buf) (sb_buffer buf))"
  have run: "send_by_request ss buf Req_D = Inr (?ss, 0)"
    using inv b by (simp add: send_by_request_def inc_sending_ref_def clone_buffer_def Let_def)
  have c: "coming sid ?ss = coming sid ss @ [?wb]" by (simp add: coming_def send_request_def)
  have so: "sock_of sid ?ss = ?s\<lparr>so_sending := so_sending ?s + 1\<rparr>" "srv_mem ?ss = srv_mem ss" "srv_trace ?ss = srv_trace ss"
    "srv_pipe ?ss = srv_pipe ss @ [Req_D sid (sb_sz buf) (sb_buffer buf)]"
    by (simp_all add: sock_of_def send_request_def)
  have "wbs_ok (srv_mem ss) (queued ?s @ coming sid ss @ [?wb])"
    using inv(6) b(5,7) by (simp add: wbs_ok_append wbs_ok_Cons owned_def) (auto simp: mem_wb_def wbs_ok_def)
  then have "conn_inv sid ?ss" unfolding conn_inv_def Let_def so c
    using inv b by (simp add: sending_irrelevant)
  moreover have "conn_stream sid ?ss = conn_stream sid ss @ bs"
    using b(6) unfolding conn_stream_def backlog_def so c by (simp add: sending_irrelevant sock_of_def)
  ultimately have "keeps sid ss bs ?ss" using inv so(1) by (simp add: keeps_def sock_of_def)
  then show ?thesis using run by blast
qed

lemma direct_write_tcp:
  fixes E ss fd bs
  defines "a \<equiv> en_os E (srv_trace ss) (Sys_write fd bs)"
  assumes "sb_id buf = sid" "so_protocol (srv_slot ss (HASH_ID sid)) = PROTOCOL_TCP" "so_fd (srv_slot ss (HASH_ID sid)) = fd"
    "sb_type buf = SOCKET_BUFFER_MEMORY" "sb_sz buf \<noteq> USEROBJECT" "read_ptr ss (sb_buffer buf, 0) (sb_sz buf) = Inr bs"
    "(if an_ret a < 0 then 0 else an_ret a) = int n"
    "z = stat_write (traced ss (srv_trace ss @ [(Sys_write fd bs, a)]) (if an_ret a < 0 then an_errno a else srv_errno ss)) (HASH_ID sid) (int n)"
  shows "direct_write E ss buf l =
    (if n = sb_sz buf then cbind (socket_unlock z (HASH_ID sid) l) (\<lambda>ss. cbind (srv_free ss (sb_buffer buf)) (\<lambda>ss. Inr (ss, 0)))
     else cbind (socket_unlock (set_sock z (HASH_ID sid) ((srv_slot z (HASH_ID sid))
       \<lparr>so_dw_buffer := sb_buffer buf, so_dw_size := sb_sz buf, so_dw_offset := n\<rparr>)) (HASH_ID sid) l) (\<lambda>ss. Inr (send_request ss (Req_W sid), 0)))"
  by (cases "an_ret a < 0") (use assms(2-9) in
    \<open>simp_all add: direct_write_def Let_def send_object_init_from_sendbuffer_def send_object_init_def sysc_traced clone_buffer_def flip: a_def\<close>)

text \<open>A direct write leaves nothing or the rest of its own data.\<close>

lemma keeps_direct:
  assumes "conn_inv sid ss" "coming sid ss = []" "queued (sock_of sid ss) = []"
    "same_sock (sock_of sid ss) (sock_of sid ss')" "so_type (sock_of sid ss') = SOCKET_TYPE_CONNECTED"
    "so_low (sock_of sid ss') = []" "coming sid ss' = []" "\<forall>r \<in> set (srv_pipe ss'). high_only sid r"
    "send_ok (srv_mem ss') (sock_of sid ss')"
    "written (so_fd (sock_of sid ss)) (srv_trace ss') @ waiting (srv_mem ss') (sock_of sid ss') = written (so_fd (sock_of sid ss)) (srv_trace ss) @ bs"
  shows "keeps sid ss bs ss'"
  using assms by (simp add: keeps_def conn_inv_def Let_def same_sock_def conn_stream_def backlog_def waiting_def send_ok_def)

lemma step_send_direct:
  assumes "kernel_ok E" "conn_inv sid ss" "sendable sid ss buf bs" "can_direct_write (sock_of sid ss) sid" "\<not> so_lock (sock_of sid ss)"
  shows "\<exists>ss' r. direct_write E (set_sock ss (HASH_ID sid) ((sock_of sid ss)\<lparr>so_lock := True\<rparr>)) buf 1 = Inr (ss', r) \<and> keeps sid ss bs ss'"
proof -
  let ?i = "HASH_ID sid" and ?s = "srv_slot ss (HASH_ID sid)" and ?fd = "so_fd (srv_slot ss (HASH_ID sid))"
  have inv: "so_id ?s = sid" "so_type ?s = SOCKET_TYPE_CONNECTED" "\<not> so_closing ?s" "so_low ?s = []" "send_ok (srv_mem ss) ?s"
    "\<forall>r \<in> set (srv_pipe ss). high_only sid r" "so_protocol ?s = PROTOCOL_TCP"
    "so_sending ?s = ID_TAG16 sid * 65536 + length (coming sid ss)" "length (coming sid ss) < 65536"
    using assms(2) by (simp_all add: conn_inv_def Let_def sock_of_def)
  have e: "so_high ?s = []" "so_dw_buffer ?s = 0" "so_sending ?s mod 65536 = 0"
    using assms(4) inv(2) by (simp_all add: can_direct_write_def nomore_sending_data_def send_buffer_empty_def sock_of_def)
  then have c: "coming sid ss = []" "so_wb_size ?s = 0" "queued ?s = []"
    using inv(2,4,5,8,9) by (simp_all add: send_ok_def queued_def)
  obtain blk where b: "sb_id buf = sid" "sb_type buf = SOCKET_BUFFER_MEMORY" "sb_sz buf \<noteq> USEROBJECT" "sb_buffer buf \<noteq> 0"
    "srv_mem ss (sb_buffer buf) = Some blk" "sb_sz buf \<le> length blk" "bs = take (sb_sz buf) blk"
    using assms(3) by (auto simp: sendable_def)
  let ?a = "en_os E (srv_trace ss) (Sys_write ?fd bs)"
  define n where "n = nat (an_ret ?a)"
  have n: "(if an_ret ?a < 0 then 0 else an_ret ?a) = int n" "n \<le> sb_sz buf"
  proof -
    have "an_ret ?a \<le> int (length bs)" using assms(1) by (simp add: kernel_ok_def)
    then show "(if an_ret ?a < 0 then 0 else an_ret ?a) = int n" "n \<le> sb_sz buf" using b(6,7) by (auto simp: n_def)
  qed
  let ?e = "if an_ret ?a < 0 then an_errno ?a else srv_errno ss"
  let ?tr = "srv_trace ss @ [(Sys_write ?fd bs, ?a)]"
  let ?t = "?s\<lparr>so_write := so_write ?s + of_nat n, so_wtime := srv_time ss, so_lock := False\<rparr>"
  have w: "written ?fd ?tr = written ?fd (srv_trace ss) @ take n bs" by (simp add: n_def)
  let ?z = "stat_write (traced (set_sock ss ?i (?s\<lparr>so_lock := True\<rparr>)) ?tr ?e) ?i (int n)"
  have dw: "direct_write E (set_sock ss ?i (?s\<lparr>so_lock := True\<rparr>)) buf 1 =
    (if n = sb_sz buf then cbind (socket_unlock ?z ?i 1) (\<lambda>ss. cbind (srv_free ss (sb_buffer buf)) (\<lambda>ss. Inr (ss, 0)))
     else cbind (socket_unlock (set_sock ?z ?i ((srv_slot ?z ?i)
       \<lparr>so_dw_buffer := sb_buffer buf, so_dw_size := sb_sz buf, so_dw_offset := n\<rparr>)) ?i 1) (\<lambda>ss. Inr (send_request ss (Req_W sid), 0)))"
    by (rule direct_write_tcp [where fd = ?fd and bs = bs]) (use b inv(7) n(1) in \<open>simp_all add: read_ptr_def deref_Some split: if_splits\<close>)
  show ?thesis
  proof (cases "n = sb_sz buf")
    case True
    let ?ss = "(traced (set_sock ss ?i ?t) ?tr ?e)\<lparr>srv_mem := (srv_mem ss)(sb_buffer buf := None)\<rparr>"
    have "direct_write E (set_sock ss ?i (?s\<lparr>so_lock := True\<rparr>)) buf 1 = Inr (?ss, 0)"
      unfolding dw using True b(4,5) by (simp add: stat_write_def socket_unlock_def srv_free_def deref_Some set_sock_def traced_def)
    moreover have "keeps sid ss bs ?ss"
      by (rule keeps_direct) (use assms(2) assms(5) [unfolded sock_of_def] c e inv w True b(7) in
        \<open>simp_all add: sock_of_def same_sock_def coming_def queued_def dw_list_def waiting_def send_ok_def wbs_ok_def\<close>)
    ultimately show ?thesis by (auto simp: sock_of_def)
  next
    case False
    let ?u = "?s\<lparr>so_write := so_write ?s + of_nat n, so_wtime := srv_time ss, so_dw_buffer := sb_buffer buf, so_dw_size := sb_sz buf,
      so_dw_offset := n, so_lock := False\<rparr>"
    let ?ss = "send_request (set_sock (traced ss ?tr ?e) ?i ?u) (Req_W sid)"
    have "direct_write E (set_sock ss ?i (?s\<lparr>so_lock := True\<rparr>)) buf 1 = Inr (?ss, 0)"
      unfolding dw using False by (simp add: stat_write_def socket_unlock_def set_sock_def traced_def)
    moreover have "keeps sid ss bs ?ss"
    proof (rule keeps_direct)
      have "waiting (srv_mem ?ss) (sock_of sid ?ss) = drop n bs"
        using b n(2) c(3) e inv(4) by (simp add: sock_of_def send_request_def waiting_def queued_def dw_list_def wb_bytes_def drop_take)
      then show "written (so_fd (sock_of sid ss)) (srv_trace ?ss) @ waiting (srv_mem ?ss) (sock_of sid ?ss)
          = written (so_fd (sock_of sid ss)) (srv_trace ss) @ bs" using w by (simp add: sock_of_def send_request_def)
    qed (use assms(2) assms(5) [unfolded sock_of_def] c e inv b n(2) in
        \<open>simp_all add: sock_of_def same_sock_def coming_def queued_def dw_list_def send_ok_def wbs_ok_def wb_ok_def send_request_def\<close>)
    ultimately show ?thesis by (auto simp: sock_of_def)
  qed
qed

lemma step_send:
  assumes "kernel_ok E" "conn_inv sid ss" "sendable sid ss buf bs"
  shows "\<exists>ss' r. socket_server_send E ss buf = Inr (ss', r) \<and> keeps sid ss bs ss'"
proof -
  let ?s = "srv_slot ss (HASH_ID sid)"
  have s: "sb_id buf = sid" "\<not> socket_invalid ?s sid" "\<not> so_closing ?s"
    using assms(2,3) by (simp_all add: sendable_def conn_inv_def Let_def sock_of_def socket_invalid_def)
  show ?thesis
  proof (cases "can_direct_write ?s sid \<and> \<not> so_lock ?s")
    case True
    then show ?thesis using step_send_direct [OF assms] s by (auto simp: socket_server_send_def socket_trylock_def sock_of_def)
  next
    case False
    then show ?thesis using step_send_request [OF assms(2,3)] s by (auto simp: socket_server_send_def socket_trylock_def Let_def)
  qed
qed

lemma step_other:
  assumes "conn_inv sid ss" "unrelated sid ss ss'"
  shows "keeps sid ss [] ss'"
proof -
  let ?s = "sock_of sid ss" and ?s' = "sock_of sid ss'"
  have u: "so_id ?s' = so_id ?s" "so_type ?s' = so_type ?s" "so_closing ?s' = so_closing ?s" "so_protocol ?s' = so_protocol ?s"
    "so_fd ?s' = so_fd ?s" "so_sending ?s' = so_sending ?s" "so_wb_size ?s' = so_wb_size ?s" "so_high ?s' = so_high ?s" "so_low ?s' = so_low ?s"
    "so_dw_buffer ?s' = so_dw_buffer ?s" "so_dw_size ?s' = so_dw_size ?s" "so_dw_offset ?s' = so_dw_offset ?s"
    "coming sid ss' = coming sid ss" "\<forall>r \<in> set (srv_pipe ss'). high_only sid r" "written (so_fd ?s) (srv_trace ss') = written (so_fd ?s) (srv_trace ss)"
    using assms(2) by (simp_all add: unrelated_def Let_def)
  have q: "queued ?s' = queued ?s" using u by (simp add: queued_def dw_list_def)
  have mem: "\<forall>wb \<in> set (queued ?s @ coming sid ss). srv_mem ss' (wb_buffer wb) = srv_mem ss (wb_buffer wb)"
    using assms(2) by (auto simp: unrelated_def Let_def owned_def)
  have "wbs_ok (srv_mem ss') (queued ?s @ coming sid ss)" using assms(1) wbs_cong(2) [OF mem] by (simp add: conn_inv_def Let_def)
  then have "conn_inv sid ss'" using assms(1) u q by (auto simp: conn_inv_def Let_def send_ok_def wbs_ok_append)
  moreover have "conn_stream sid ss' = conn_stream sid ss"
    using wbs_cong(1) [OF mem] u q by (simp add: conn_stream_def backlog_def waiting_def)
  ultimately show ?thesis using u(5) assms(1) by (auto simp: keeps_def conn_inv_def Let_def u(2))
qed

lemma conn_step_keeps:
  assumes "kernel_ok E" "conn_inv sid ss" "conn_step E sid ss bs ss'"
  shows "keeps sid ss bs ss'"
  using assms(3)
proof cases
  case (send buf r)
  then show ?thesis using step_send [OF assms(1,2)] by fastforce
next
  case (request q qs r)
  then show ?thesis using step_request_W [OF assms(2), of qs E] step_request_D [OF assms(2), of _ _ qs E] by fastforce
next
  case (writable r)
  then show ?thesis using step_writable [OF assms(1,2)] by fastforce
next
  case other
  then show ?thesis using step_other [OF assms(2)] by simp
qed

lemma conn_run_keeps:
  assumes "conn_run E sid ss0 acc ss" "kernel_ok E" "conn_inv sid ss0"
  shows "keeps sid ss0 acc ss"
  using assms
proof (induction rule: conn_run.induct)
  case start
  then show ?case by (simp add: keeps_def conn_inv_def Let_def)
next
  case (step acc ss bs ss')
  then have k: "keeps sid ss0 acc ss" by simp
  then have "conn_inv sid ss" "conn_stream sid ss = conn_stream sid ss0 @ acc" "so_fd (sock_of sid ss) = so_fd (sock_of sid ss0)"
    using step.hyps(2) by (simp_all add: keeps_def)
  then show ?case using conn_step_keeps [OF step.prems(1) _ step.hyps(3)] by (auto simp: keeps_def split: if_splits)
qed


text \<open>A connection at work: the kernel takes at most two bytes of a write.\<close>

definition two_bytes :: sockenv where
  "two_bytes = \<lparr>en_os = (\<lambda>_ c. \<lparr>an_ret = (case c of Sys_write fd bs \<Rightarrow> min 2 (int (length bs)) | _ \<Rightarrow> 0), an_errno = EAGAIN, an_bytes = [],
     an_addrs = [], an_so_error = None, an_events = [], an_text = []\<rparr>), en_strerror = (\<lambda>_. []), en_ntop = (\<lambda>_. None),
     en_soi_buffer = (\<lambda>p. (p, 0)), en_soi_size = (\<lambda>_. 0), en_soi_free = (\<lambda>_ mem. Inr mem)\<rparr>"

definition one_connection :: server where
  "one_connection = \<lparr>srv_time = 0, srv_reserve_fd = -1, srv_checkctrl = True, srv_alloc_id = 0, srv_ev = [], srv_event_index = 0,
     srv_slot = (\<lambda>_. empty_sock)(7 := empty_sock\<lparr>so_id := 7, so_type := SOCKET_TYPE_CONNECTED, so_fd := 5, so_protocol := PROTOCOL_TCP\<rparr>),
     srv_pipe = [], srv_mem = (\<lambda>_. None)(1 := Some [10, 11, 12]), srv_brk = 2, srv_trace = [], srv_errno = EINTR,
     srv_log = [], srv_result = \<lparr>pr_id = 0, pr_opaque = 0, pr_ud = 0, pr_data = NoData\<rparr>\<rparr>"

lemma two_bytes_ok: "kernel_ok two_bytes"
  by (auto simp: kernel_ok_def two_bytes_def intro!: settles.answered)

lemma one_connection_ok: "conn_inv 7 one_connection"
  by (simp add: conn_inv_def Let_def sock_of_def one_connection_def HASH_ID_def empty_sock_def send_ok_def queued_def wbs_ok_def
    coming_def ID_TAG16_def MAX_SOCKET_def)

definition ten_to_twelve :: sendbuffer where
  "ten_to_twelve = \<lparr>sb_id = 7, sb_type = SOCKET_BUFFER_MEMORY, sb_buffer = 1, sb_sz = 3\<rparr>"

lemma two_bytes_os: "en_os two_bytes tr c = \<lparr>an_ret = (case c of Sys_write fd bs \<Rightarrow> min 2 (int (length bs)) | _ \<Rightarrow> 0), an_errno = EAGAIN,
    an_bytes = [], an_addrs = [], an_so_error = None, an_events = [], an_text = []\<rparr>"
  by (simp add: two_bytes_def)

lemma two_bytes_write: "write_result two_bytes ss fd bs = Inr (sysc two_bytes ss (Sys_write fd bs))"
  unfolding write_result_def by (subst write_retry.simps) (simp add: sysc_def two_bytes_os Let_def)

lemma one_connection_slot: "srv_slot one_connection 7 = empty_sock\<lparr>so_id := 7, so_type := SOCKET_TYPE_CONNECTED, so_fd := 5, so_protocol := PROTOCOL_TCP\<rparr>"
  "srv_mem one_connection = [1 \<mapsto> [10, 11, 12]]" "srv_pipe one_connection = []" "srv_trace one_connection = []"
  by (simp_all add: one_connection_def)

lemma one_connection_first:
  "\<exists>s1. socket_server_send two_bytes one_connection ten_to_twelve = Inr (s1, 0) \<and> srv_pipe s1 = [Req_W 7]
    \<and> srv_trace s1 = [(Sys_write 5 [10, 11, 12], en_os two_bytes [] (Sys_write 5 [10, 11, 12]))] \<and> srv_mem s1 = [1 \<mapsto> [10, 11, 12]]
    \<and> (\<exists>w t. srv_slot s1 7 = empty_sock\<lparr>so_id := 7, so_type := SOCKET_TYPE_CONNECTED, so_fd := 5, so_protocol := PROTOCOL_TCP,
         so_write := w, so_wtime := t, so_dw_buffer := 1, so_dw_size := 3, so_dw_offset := 2\<rparr>)"
  by (simp add: socket_server_send_def ten_to_twelve_def one_connection_slot HASH_ID_def empty_sock_def socket_invalid_def can_direct_write_def nomore_sending_data_def send_buffer_empty_def socket_trylock_def direct_write_tcp [where n = 2 and fd = 5 and bs = "[10, 11, 12]" and sid = 7] read_ptr_def deref_def two_bytes_os USEROBJECT_def stat_write_def socket_unlock_def send_request_def)

lemma one_connection_rest:
  assumes "srv_mem s1 = [1 \<mapsto> [10, 11, 12]]" "srv_slot s1 7 = empty_sock\<lparr>so_id := 7, so_type := SOCKET_TYPE_CONNECTED, so_fd := 5,
      so_protocol := PROTOCOL_TCP, so_write := w, so_wtime := t, so_dw_buffer := 1, so_dw_size := 3, so_dw_offset := 2\<rparr>"
  shows "\<exists>s2 r. send_buffer two_bytes 7 0 s1 = Inr (s2, r) \<and> so_type (srv_slot s2 7) = SOCKET_TYPE_CONNECTED \<and> so_fd (srv_slot s2 7) = 5
    \<and> written 5 (srv_trace s2) = written 5 (srv_trace s1) @ [12]"
  using assms by (simp add: send_buffer_def socket_trylock_def take_direct_def send_object_init_def USEROBJECT_def empty_sock_def
    send_buffer_locked_def list_uncomplete_def send_list_def send_list_tcp_def two_bytes_write read_ptr_def deref_def sysc_def two_bytes_os
    put_list_def shrink_def stat_write_def set_list_def write_buffer_free_def srv_free_def finish_write_def send_buffer_empty_def
    enable_write_def socket_unlock_def c_assert_def wb_list_def Let_def)

lemma one_connection_run:
  "\<exists>ss. conn_run two_bytes 7 one_connection [10, 11, 12] ss \<and> so_type (sock_of 7 ss) = SOCKET_TYPE_CONNECTED \<and> so_fd (sock_of 7 ss) = 5
    \<and> written 5 (srv_trace ss) = [10, 11, 12]"
proof -
  have id: "HASH_ID 7 = 7" by (simp add: HASH_ID_def)
  obtain s1 w t where s1: "socket_server_send two_bytes one_connection ten_to_twelve = Inr (s1, 0)"
    "srv_trace s1 = [(Sys_write 5 [10, 11, 12], en_os two_bytes [] (Sys_write 5 [10, 11, 12]))]" "srv_mem s1 = [1 \<mapsto> [10, 11, 12]]"
    "srv_slot s1 7 = empty_sock\<lparr>so_id := 7, so_type := SOCKET_TYPE_CONNECTED, so_fd := 5, so_protocol := PROTOCOL_TCP,
       so_write := w, so_wtime := t, so_dw_buffer := 1, so_dw_size := 3, so_dw_offset := 2\<rparr>"
    using one_connection_first by blast
  obtain s2 r where s2: "send_buffer two_bytes (HASH_ID 7) 0 s1 = Inr (s2, r)" "so_type (sock_of 7 s2) = SOCKET_TYPE_CONNECTED" "so_fd (sock_of 7 s2) = 5"
    "written 5 (srv_trace s2) = written 5 (srv_trace s1) @ [12]"
    using one_connection_rest [OF s1(3,4)] by (auto simp: id sock_of_def)
  have "sendable 7 one_connection ten_to_twelve [10, 11, 12]"
    by (simp add: sendable_def ten_to_twelve_def one_connection_slot coming_def sock_of_def id owned_def queued_def empty_sock_def USEROBJECT_def)
  then have "conn_run two_bytes 7 one_connection ([] @ [10, 11, 12]) s1"
    by (intro conn_run.step [OF conn_run.start _ conn_step.send [OF _ s1(1)]]) (simp_all add: sock_of_def id one_connection_slot)
  then have "conn_run two_bytes 7 one_connection (([] @ [10, 11, 12]) @ []) s2"
    by (rule conn_run.step) (use s1(4) s2(1) in \<open>auto simp: sock_of_def id intro: conn_step.writable\<close>)
  moreover have "written 5 (srv_trace s2) = [10, 11, 12]" using s2(4) s1(2) by (simp add: two_bytes_os)
  ultimately show ?thesis using s2(2,3) by auto
qed


end
