(* ===== verification/Sky_Socket_Close.thy ===== *)
theory Sky_Socket_Close
  imports Sky_Socket_Spec
begin

text \<open>
  What a poll of the socket server reports: its codes, and that a socket is reported closed at most once.
\<close>

section \<open>Ids and types\<close>

definition slot_view :: "server \<Rightarrow> nat \<Rightarrow> int \<times> socket_type" where
  "slot_view ss j = (so_id (srv_slot ss j), so_type (srv_slot ss j))"

text \<open>Operations that leave the ids, the types and the requests of all sockets alone.\<close>

definition same_view :: "server \<Rightarrow> server \<Rightarrow> bool" where
  "same_view ss ss' \<longleftrightarrow> slot_view ss' = slot_view ss \<and> srv_pipe ss' = srv_pipe ss"

lemma same_view_refl [simp]: "same_view ss ss"
  by (simp add: same_view_def)

lemma same_view_trans: "same_view a b \<Longrightarrow> same_view b c \<Longrightarrow> same_view a c"
  by (simp add: same_view_def)

lemma slot_view_set [simp]: "slot_view (set_sock ss i s) = (slot_view ss)(i := (so_id s, so_type s))"
  by (rule ext) (simp add: slot_view_def)

lemma slot_view_triv [simp]: "a = so_id (srv_slot ss i) \<Longrightarrow> t = so_type (srv_slot ss i) \<Longrightarrow> (slot_view ss)(i := (a, t)) = slot_view ss"
  by (rule ext) (simp add: slot_view_def)

lemma same_view_set [simp]: "so_id s = so_id (srv_slot ss i) \<Longrightarrow> so_type s = so_type (srv_slot ss i) \<Longrightarrow> same_view ss (set_sock ss i s)"
  by (simp add: same_view_def)

lemma slot_view_fields [simp]:
  "slot_view (ss\<lparr>srv_trace := a\<rparr>) = slot_view ss" "slot_view (ss\<lparr>srv_errno := b\<rparr>) = slot_view ss" "slot_view (ss\<lparr>srv_mem := c\<rparr>) = slot_view ss"
  "slot_view (ss\<lparr>srv_brk := d\<rparr>) = slot_view ss" "slot_view (ss\<lparr>srv_log := e\<rparr>) = slot_view ss" "slot_view (ss\<lparr>srv_result := f\<rparr>) = slot_view ss"
  "slot_view (ss\<lparr>srv_ev := g\<rparr>) = slot_view ss" "slot_view (ss\<lparr>srv_event_index := h\<rparr>) = slot_view ss" "slot_view (ss\<lparr>srv_reserve_fd := k\<rparr>) = slot_view ss"
  "slot_view (ss\<lparr>srv_checkctrl := l\<rparr>) = slot_view ss" "slot_view (ss\<lparr>srv_alloc_id := m\<rparr>) = slot_view ss" "slot_view (ss\<lparr>srv_pipe := n\<rparr>) = slot_view ss"
  "slot_view (traced ss tr er) = slot_view ss"
  by (simp_all add: slot_view_def fun_eq_iff)

lemma sysdo_fields [simp]:
  "srv_slot (sysdo E ss c) = srv_slot ss" "srv_pipe (sysdo E ss c) = srv_pipe ss" "srv_result (sysdo E ss c) = srv_result ss"
  "slot_view (sysdo E ss c) = slot_view ss"
  by (simp_all add: sysdo_def sysc_traced slot_view_def fun_eq_iff)

lemma same_view_basic [simp]:
  "same_view ss (fst (sysc E ss c))" "same_view ss (sysdo E ss c)" "same_view ss (log_error ss t)" "same_view ss (put_result ss sid op ud d)"
  "same_view ss (sock_result ss i ud d)" "same_view ss (result_data ss d)" "same_view ss (stat_read ss i n)" "same_view ss (stat_write ss i n)"
  "same_view ss (shrink ss i k)" "same_view ss (put_list ss i hi wbs)" "same_view ss (append_sendbuffer E ss i hi len p ad)" "same_view ss (fst (srv_malloc ss bs))"
  "same_view ss (fst (report_error ss i t))" "same_view ss (take_direct E ss i)" "same_view ss (fst (warn_size ss i))" "same_view ss (accept_reserve E ss i)"
  "same_view ss (poll_wait E ss)" "same_view ss (back_event ss)" "same_view ss (no_read ss)" "same_view ss (clear_closed_event ss type)"
  by (simp_all add: same_view_def sysc_def sysdo_def log_error_def put_result_def sock_result_def result_data_def stat_read_def stat_write_def
      shrink_def put_list_def append_sendbuffer_def srv_malloc_def report_error_def take_direct_def warn_size_def accept_reserve_def poll_wait_def
      back_event_def no_read_def clear_closed_event_def Let_def case_prod_beta set_list_def)

lemmas view_basic [simp] = same_view_basic [unfolded same_view_def]

lemma same_view_enable: "same_view ss (fst (enable_write E ss i en))" "same_view ss (fst (enable_read E ss i en))"
  by (simp_all add: same_view_def enable_write_def enable_read_def sysc_def Let_def)

lemmas view_enable [simp] = same_view_enable [unfolded same_view_def]

lemma same_view_free:
  "free_object E ss f p = Inr ss' \<Longrightarrow> same_view ss ss'" "write_buffer_free E ss wb = Inr ss' \<Longrightarrow> same_view ss ss'"
  "free_buffer E ss ty p = Inr ss' \<Longrightarrow> same_view ss ss'" "socket_unlock ss i l = Inr ss' \<Longrightarrow> same_view ss ss'"
  "socket_lock ss i l = Inr (ss', l') \<Longrightarrow> same_view ss ss'" "socket_trylock ss i l = Some (ss', l') \<Longrightarrow> same_view ss ss'"
  "clone_buffer ss buf = Inr (ss', p, len) \<Longrightarrow> same_view ss ss'" "raise_uncomplete ss i = Inr ss' \<Longrightarrow> same_view ss ss'"
  "dec_sending_ref ss sid = Inr ss' \<Longrightarrow> same_view ss ss'" "inc_sending_ref ss i sid = Inr ss' \<Longrightarrow> same_view ss ss'"
proof -
  show f: "free_object E ss f p = Inr ss' \<Longrightarrow> same_view ss ss'" for E ss f p ss'
    by (cases f) (auto simp: same_view_def soi_free_def srv_free_def cbind_Inr_iff split: if_splits)
  show "write_buffer_free E ss wb = Inr ss' \<Longrightarrow> same_view ss ss'" "free_buffer E ss ty p = Inr ss' \<Longrightarrow> same_view ss ss'"
    by (auto simp: write_buffer_free_def free_buffer_def intro: f)
qed (auto simp: same_view_def socket_unlock_def socket_lock_def socket_trylock_def clone_buffer_def raise_uncomplete_def dec_sending_ref_def
      inc_sending_ref_def srv_malloc_def c_assert_def Let_def cbind_Inr_iff split: if_splits buffer_type.splits list.splits)

lemma same_result_free:
  "free_object E ss f p = Inr ss' \<Longrightarrow> srv_result ss' = srv_result ss" "socket_unlock ss i l = Inr ss' \<Longrightarrow> srv_result ss' = srv_result ss"
  "socket_lock ss i l = Inr (ss', l') \<Longrightarrow> srv_result ss' = srv_result ss"
  by (cases f; auto simp: soi_free_def srv_free_def cbind_Inr_iff split: if_splits)
    (auto simp: socket_unlock_def socket_lock_def c_assert_def cbind_Inr_iff split: if_splits)

lemma free_wb_list_view:
  "free_wb_list E ss wbs = Inr ss' \<Longrightarrow> same_view ss ss' \<and> srv_result ss' = srv_result ss"
proof (induction wbs arbitrary: ss)
  case (Cons wb wbs)
  then obtain s1 where "write_buffer_free E ss wb = Inr s1" "free_wb_list E s1 wbs = Inr ss'" by (auto simp: cbind_Inr_iff)
  then show ?case using Cons.IH [of s1] same_view_free(2) same_result_free(1) same_view_trans
    unfolding write_buffer_free_def by metis
qed simp

section \<open>Closing and writing\<close>

lemma slot_viewD: "same_view ss ss' \<Longrightarrow> so_id (srv_slot ss' i) = so_id (srv_slot ss i) \<and> so_type (srv_slot ss' i) = so_type (srv_slot ss i)"
  unfolding same_view_def slot_view_def by (metis prod.inject)

lemma force_close_view:
  assumes "force_close E ss i l = Inr ss'"
  shows "slot_view ss' = (slot_view ss)(i := (so_id (srv_slot ss i), SOCKET_TYPE_INVALID)) \<and> srv_pipe ss' = srv_pipe ss
    \<and> pr_id (srv_result ss') = so_id (srv_slot ss i)"
proof (cases "so_type (srv_slot ss i) = SOCKET_TYPE_INVALID")
  case True
  then have "(so_id (srv_slot ss i), SOCKET_TYPE_INVALID) = slot_view ss i" by (simp add: slot_view_def)
  then show ?thesis using assms True by (auto simp: force_close_def sock_result_def put_result_def)
next
  case False
  let ?s0 = "sock_result ss i 0 NoData"
  let ?clear = "\<lambda>z. set_sock z i ((srv_slot z i)\<lparr>so_high := []\<rparr>)" and ?clear2 = "\<lambda>z. set_sock z i ((srv_slot z i)\<lparr>so_low := []\<rparr>)"
  let ?fin = "\<lambda>z. set_type (if so_type (srv_slot ss i) \<noteq> SOCKET_TYPE_BIND then sysdo E z (Sys_close (so_fd (srv_slot z i))) else z) i SOCKET_TYPE_INVALID"
  obtain s1 s3 s6 l' s10 where f: "free_wb_list E ?s0 (so_high (srv_slot ss i)) = Inr s1"
    "free_wb_list E (?clear s1) (so_low (srv_slot s1 i)) = Inr s3"
    "socket_lock (sysdo E (?clear2 s3) (Sp_del (so_fd (srv_slot s3 i)))) i l = Inr (s6, l')"
    "(if so_dw_buffer (srv_slot (?fin s6) i) \<noteq> 0 then
        cbind (free_buffer E (?fin s6) (if so_dw_size (srv_slot (?fin s6) i) = USEROBJECT then SOCKET_BUFFER_OBJECT else SOCKET_BUFFER_MEMORY)
          (so_dw_buffer (srv_slot (?fin s6) i))) (\<lambda>z. Inr (set_sock z i ((srv_slot z i)\<lparr>so_dw_buffer := 0\<rparr>)))
      else Inr (?fin s6)) = Inr s10"
    "socket_unlock s10 i l' = Inr ss'"
    using assms False by (auto simp: force_close_def Let_def cbind_Inr_iff)
  have v1: "same_view ss s1" "srv_result s1 = srv_result ?s0" using free_wb_list_view [OF f(1)] by (auto intro: same_view_trans [OF same_view_basic(5)])
  have v3: "same_view s1 s3" "srv_result s3 = srv_result s1" using free_wb_list_view [OF f(2)] by (auto simp: same_view_def)
  have v6: "same_view s3 s6" "srv_result s6 = srv_result s3"
    using same_view_free(5) [OF f(3)] same_result_free(3) [OF f(3)] by (auto simp: same_view_def)
  have v8: "slot_view (?fin s6) = (slot_view s6)(i := (so_id (srv_slot s6 i), SOCKET_TYPE_INVALID))" "srv_pipe (?fin s6) = srv_pipe s6"
    "srv_result (?fin s6) = srv_result s6"
    by (auto simp: set_type_def)
  have v10: "same_view (?fin s6) s10 \<and> srv_result s10 = srv_result (?fin s6)"
  proof (cases "so_dw_buffer (srv_slot (?fin s6) i) = 0")
    case True
    then show ?thesis using f(4) by simp
  next
    case False
    then obtain z ty where z: "free_buffer E (?fin s6) ty (so_dw_buffer (srv_slot (?fin s6) i)) = Inr z"
      "s10 = set_sock z i ((srv_slot z i)\<lparr>so_dw_buffer := 0\<rparr>)"
      using f(4) by (auto simp: cbind_Inr_iff)
    then have "same_view z s10" "srv_result s10 = srv_result z" by (simp_all add: same_view_def)
    then show ?thesis using same_view_trans [OF same_view_free(3) [OF z(1)]] same_result_free(1) [OF z(1) [unfolded free_buffer_def]] by simp
  qed
  have "same_view ss s6" using v1(1) v3(1) v6(1) same_view_trans by blast
  then show ?thesis using v8 v10 same_view_free(4) [OF f(5)] same_result_free(2) [OF f(5)] v6(2) v3(2) v1(2) slot_viewD [of ss s6 i]
    by (simp add: same_view_def sock_result_def put_result_def)
qed

text \<open>What sending may do to the type of a socket.\<close>

definition write_view :: "nat \<Rightarrow> server \<Rightarrow> server \<Rightarrow> bool" where
  "write_view i ss ss' \<longleftrightarrow> srv_pipe ss' = srv_pipe ss \<and>
     (\<exists>t. slot_view ss' = (slot_view ss)(i := (so_id (srv_slot ss i), t))
        \<and> (t \<in> {so_type (srv_slot ss i), SOCKET_TYPE_INVALID} \<or> t = SOCKET_TYPE_HALFCLOSE_WRITE \<and> so_type (srv_slot ss i) \<noteq> SOCKET_TYPE_HALFCLOSE_READ))"

lemma write_view_quiet: "same_view ss ss' \<Longrightarrow> write_view i ss ss'"
  unfolding write_view_def same_view_def by (auto intro!: exI [of _ "so_type (srv_slot ss i)"])

lemma write_view_close: "force_close E ss i l = Inr ss' \<Longrightarrow> write_view i ss ss'"
  using force_close_view unfolding write_view_def by blast

lemma write_view_pre: "same_view ss s1 \<Longrightarrow> write_view i s1 ss' \<Longrightarrow> write_view i ss ss'"
  using slot_viewD [of ss s1 i] unfolding write_view_def same_view_def by auto

lemma write_view_post: "write_view i ss s1 \<Longrightarrow> same_view s1 ss' \<Longrightarrow> write_view i ss ss'"
  unfolding write_view_def same_view_def by auto

lemma close_write_view:
  assumes "close_write E ss i l = Inr (ss', t)"
  shows "write_view i ss ss' \<and> t \<in> {SOCKET_RST, SOCKET_ERR}"
proof -
  let ?s = "srv_slot ss i"
  consider "so_closing ?s \<or> so_type ?s = SOCKET_TYPE_HALFCLOSE_READ"
    | "\<not> (so_closing ?s \<or> so_type ?s = SOCKET_TYPE_HALFCLOSE_READ)" "so_type ?s = SOCKET_TYPE_HALFCLOSE_WRITE"
    | "\<not> (so_closing ?s \<or> so_type ?s = SOCKET_TYPE_HALFCLOSE_READ)" "so_type ?s \<noteq> SOCKET_TYPE_HALFCLOSE_WRITE" by blast
  then show ?thesis
  proof cases
    case 1
    then show ?thesis using assms write_view_close by (auto simp: close_write_def cbind_Inr_iff)
  next
    case 2
    then show ?thesis using assms by (auto simp: close_write_def intro: write_view_quiet)
  next
    case 3
    let ?a = "sysdo E (set_type ss i SOCKET_TYPE_HALFCLOSE_WRITE) (Sys_shutdown_wr (so_fd ?s))"
    have "write_view i ss ?a" using 3 by (auto simp: write_view_def set_type_def)
    moreover have "same_view ?a (fst (enable_write E ?a i False))" by (rule same_view_enable)
    ultimately have "write_view i ss (fst (enable_write E ?a i False))" by (rule write_view_post)
    then show ?thesis using 3 assms write_view_post [OF _ same_view_basic(13)]
      by (auto simp: close_write_def Let_def case_prod_beta report_error_def)
  qed
qed

lemma write_retry_view:
  assumes "write_retry E ss fd bs = Some r"
  shows "same_view ss (fst r)"
proof (rule write_retry.raw_induct [where P = "\<lambda>E ss fd bs r. same_view ss (fst r)", OF _ assms])
  fix f E ss fd bs r
  assume IH: "\<And>E ss fd bs r. f E ss fd bs = Some r \<Longrightarrow> same_view ss (fst r)"
    and "(case sysc E ss (Sys_write fd bs) of (ss, a) \<Rightarrow> if an_ret a < 0 \<and> an_errno a = EINTR then f E ss fd bs else Some (ss, a)) = Some r"
  then show "same_view ss (fst r)" using same_view_trans [OF same_view_basic(1) IH]
    by (auto simp: case_prod_beta split: if_splits)
qed

lemma write_result_view: "write_result E ss fd bs = Inr (ss', a) \<Longrightarrow> same_view ss ss'"
  using write_retry_view [of E ss fd bs] by (force simp: write_result_def split: option.splits)

lemma tcp_loop_view:
  "tcp_loop E i hi l ss wbs = Inr (ss', t) \<Longrightarrow> write_view i ss ss' \<and> t \<in> {-1, SOCKET_RST, SOCKET_ERR} \<and> (t = -1 \<longrightarrow> same_view ss ss')"
proof (induction wbs arbitrary: ss)
  case Nil
  then show ?case by (simp add: write_view_quiet)
next
  case (Cons wb wbs)
  then obtain bs s1 a where w: "read_ptr ss (wb_ptr wb) (wb_sz wb) = Inr bs" "write_result E ss (so_fd (srv_slot ss i)) bs = Inr (s1, a)"
    by (auto simp: cbind_Inr_iff)
  let ?s2 = "shrink (stat_write s1 i (an_ret a)) i (nat (an_ret a))"
  have v1: "same_view ss s1" using write_result_view [OF w(2)] .
  have v2: "same_view ss (put_list ?s2 i hi x)" for x
    using v1 by (meson same_view_basic(8,9,10) same_view_trans)
  show ?case
  proof (cases "an_ret a < 0")
    case True
    then show ?thesis using Cons.prems w v1 close_write_view [of E s1 i l ss' t] write_view_pre [OF v1] write_view_quiet [OF v1]
      by (auto simp: socket_events split: if_splits)
  next
    case False
    show ?thesis
    proof (cases "nat (an_ret a) = wb_sz wb")
      case True
      then obtain s3 where s3: "write_buffer_free E (put_list ?s2 i hi wbs) wb = Inr s3" "tcp_loop E i hi l s3 wbs = Inr (ss', t)"
        using Cons.prems w False by (auto simp: Let_def cbind_Inr_iff)
      then show ?thesis using Cons.IH [OF s3(2)] write_view_pre [of ss s3] same_view_trans [OF v2 same_view_free(2) [OF s3(1)]] same_view_trans by blast
    next
      case False
      then show ?thesis using Cons.prems w \<open>\<not> an_ret a < 0\<close> write_view_quiet [OF v2] v2 by (auto simp: Let_def)
    qed
  qed
qed

lemma udp_loop_view:
  "udp_loop E i hi ss wbs = Inr (ss', t) \<Longrightarrow> same_view ss ss' \<and> t = -1"
proof (induction wbs arbitrary: ss)
  case (Cons wb wbs)
  have d: "same_view z y" if "drop_udp E z' i hi wb wbs = Inr y" "same_view z z'" for z z' y
    using that same_view_free(2) unfolding drop_udp_def by (meson same_view_basic(9,10) same_view_trans)
  show ?case
  proof (cases "udp_socket_address (srv_slot ss i) (wb_addr wb)")
    case None
    then show ?thesis using Cons.prems d [OF _ same_view_basic(3)] by (auto simp: cbind_Inr_iff)
  next
    case (Some sa)
    then obtain bs where bs: "read_ptr ss (wb_ptr wb) (wb_sz wb) = Inr bs" using Cons.prems by (auto simp: cbind_Inr_iff)
    let ?c = "sysc E ss (Sys_sendto (so_fd (srv_slot ss i)) bs sa)"
    have v1: "same_view ss (log_error (fst ?c) x)" for x by (rule same_view_trans [OF same_view_basic(1) same_view_basic(3)])
    have v2: "same_view ss (stat_write (fst ?c) i n)" for n by (rule same_view_trans [OF same_view_basic(1) same_view_basic(8)])
    show ?thesis
    proof (cases "an_ret (snd ?c) < 0")
      case True
      then show ?thesis using Cons.prems Some bs d [OF _ v1] same_view_basic(1) [of ss E "Sys_sendto (so_fd (srv_slot ss i)) bs sa"]
        by (auto simp: cbind_Inr_iff case_prod_beta split: if_splits)
    next
      case False
      then obtain s1 where s1: "drop_udp E (stat_write (fst ?c) i (int (wb_sz wb))) i hi wb wbs = Inr s1" "udp_loop E i hi s1 wbs = Inr (ss', t)"
        using Cons.prems Some bs by (auto simp: cbind_Inr_iff case_prod_beta)
      have "same_view ss s1" by (rule d [OF s1(1) v2])
      then show ?thesis using Cons.IH [OF s1(2)] same_view_trans [of ss s1 ss'] by simp
    qed
  qed
qed simp

lemma send_list_view:
  "send_list E i hi l ss = Inr (ss', t) \<Longrightarrow> write_view i ss ss' \<and> t \<in> {-1, SOCKET_RST, SOCKET_ERR} \<and> (t = -1 \<longrightarrow> same_view ss ss')"
  using tcp_loop_view [of E i hi l ss] udp_loop_view [of E i hi ss] write_view_quiet [of ss ss' i]
  by (simp add: send_list_def send_list_tcp_def send_list_udp_def split: if_splits)

lemma finish_write_view:
  assumes "finish_write E ss i l = Inr (ss', t)"
  shows "write_view i ss ss' \<and> t \<in> {-1, SOCKET_ERR, SOCKET_WARNING}"
proof (cases "so_closing (srv_slot ss i)")
  case True
  then show ?thesis using assms write_view_close by (auto simp: finish_write_def cbind_Inr_iff)
next
  case False
  let ?e = "fst (enable_write E ss i False)"
  have "same_view ss ?e" by (rule same_view_enable)
  then have "same_view ss (fst (report_error ?e i x))" "same_view ss (sock_result (set_sock ?e i ((srv_slot ?e i)\<lparr>so_warn_size := 0\<rparr>)) i 0 NoData)" for x
    by (auto intro!: same_view_trans [of ss ?e] same_view_trans [OF same_view_set same_view_basic(5)])
  then show ?thesis using assms False \<open>same_view ss ?e\<close> write_view_quiet
    by (auto simp: finish_write_def cbind_Inr_iff c_assert_def case_prod_beta Let_def report_error_def split: if_splits)
qed

lemma send_buffer_locked_view:
  assumes "send_buffer_locked E i l ss = Inr (ss', t)"
  shows "write_view i ss ss' \<and> t \<in> {-1, SOCKET_ERR, SOCKET_WARNING}"
proof -
  obtain s1 r1 where s1: "send_list E i True l ss = Inr (s1, r1)" using assms by (auto simp: send_buffer_locked_def cbind_Inr_iff)
  note v1 = send_list_view [OF s1]
  show ?thesis
  proof (cases "r1 \<noteq> -1 \<or> so_high (srv_slot s1 i) \<noteq> [] \<or> so_low (srv_slot s1 i) = []")
    case True
    then show ?thesis using assms s1 v1 finish_write_view [of E s1 i l ss' t] write_view_pre [of ss s1 i ss']
      by (auto simp: send_buffer_locked_def cbind_Inr_iff split: if_splits)
  next
    case False
    then obtain s2 r2 where s2: "send_list E i False l s1 = Inr (s2, r2)" using assms s1 by (auto simp: send_buffer_locked_def cbind_Inr_iff)
    have q: "same_view ss s1" using v1 False by simp
    note v2 = send_list_view [OF s2]
    have w: "write_view i ss s2" using write_view_pre [OF q] v2 by blast
    show ?thesis
    proof (cases "r2 \<noteq> -1")
      case True
      then show ?thesis using assms s1 s2 False w by (auto simp: send_buffer_locked_def cbind_Inr_iff split: if_splits)
    next
      case r2: False
      then have q2: "same_view ss s2" using v2 q same_view_trans by blast
      show ?thesis using assms s1 s2 False r2 q2 w write_view_quiet finish_write_view [of E s2 i l ss' t] write_view_pre [OF q2]
          write_view_quiet [OF same_view_trans [OF q2 same_view_free(8)]]
        by (auto simp: send_buffer_locked_def cbind_Inr_iff split: if_splits)
    qed
  qed
qed

lemma send_buffer_view:
  assumes "send_buffer E i l ss = Inr (ss', t)"
  shows "write_view i ss ss' \<and> t \<in> {-1, SOCKET_ERR, SOCKET_WARNING}"
proof (cases "socket_trylock ss i l")
  case None
  then show ?thesis using assms by (simp add: send_buffer_def write_view_quiet)
next
  case (Some r)
  obtain s1 l1 where r: "r = (s1, l1)" by (cases r)
  obtain s2 where s2: "send_buffer_locked E i l1 (take_direct E s1 i) = Inr (s2, t)" "socket_unlock s2 i l1 = Inr ss'"
    using assms Some r by (auto simp: send_buffer_def cbind_Inr_iff)
  have "same_view ss (take_direct E s1 i)" using same_view_trans [OF same_view_free(6) same_view_basic(14)] Some r by blast
  then show ?thesis using send_buffer_locked_view [OF s2(1)] write_view_pre write_view_post [OF _ same_view_free(4) [OF s2(2)]] by blast
qed

section \<open>The reports of a poll\<close>

text \<open>The socket \<open>sid\<close> is over: its slot is closed or half closed, or belongs to another socket.\<close>

definition over :: "int \<Rightarrow> server \<Rightarrow> bool" where
  "over sid ss \<longleftrightarrow> fst (slot_view ss (HASH_ID sid)) = sid \<longrightarrow>
     snd (slot_view ss (HASH_ID sid)) \<in> {SOCKET_TYPE_INVALID, SOCKET_TYPE_HALFCLOSE_READ}"

text \<open>A slot in use is the slot of its id.\<close>

definition slots_placed :: "server \<Rightarrow> bool" where
  "slots_placed ss \<longleftrightarrow> (\<forall>j. snd (slot_view ss j) \<noteq> SOCKET_TYPE_INVALID \<longrightarrow> HASH_ID (fst (slot_view ss j)) = j)"

definition reports :: "int \<Rightarrow> server \<Rightarrow> server \<Rightarrow> int option \<Rightarrow> bool" where
  "reports sid ss ss' t \<longleftrightarrow> srv_pipe ss' = srv_pipe ss \<and> (slots_placed ss \<longrightarrow> slots_placed ss') \<and> (over sid ss \<longrightarrow> over sid ss')
     \<and> (slots_placed ss \<and> t = Some SOCKET_CLOSE \<and> pr_id (srv_result ss') = sid \<longrightarrow> \<not> over sid ss \<and> over sid ss')
     \<and> (t \<noteq> None \<longrightarrow> the t \<in> {0..7})"

lemma reports_quiet: "same_view ss ss' \<Longrightarrow> t \<noteq> Some SOCKET_CLOSE \<Longrightarrow> (t \<noteq> None \<longrightarrow> the t \<in> {0..7}) \<Longrightarrow> reports sid ss ss' t"
  by (auto simp: reports_def same_view_def over_def slots_placed_def)

lemma reports_pre: "same_view ss s1 \<Longrightarrow> reports sid s1 ss' t \<Longrightarrow> reports sid ss ss' t"
  by (simp add: reports_def same_view_def over_def slots_placed_def)

lemma reports_post: "reports sid ss s1 t \<Longrightarrow> same_view s1 ss' \<Longrightarrow> srv_result ss' = srv_result s1 \<Longrightarrow> reports sid ss ss' t"
  by (simp add: reports_def same_view_def over_def slots_placed_def)

lemma reports_change:
  "slot_view ss' = (slot_view ss)(i := (x, t)) \<Longrightarrow> srv_pipe ss' = srv_pipe ss \<Longrightarrow> (t \<noteq> SOCKET_TYPE_INVALID \<Longrightarrow> slots_placed ss \<Longrightarrow> HASH_ID x = i)
    \<Longrightarrow> (x = sid \<and> i = HASH_ID sid \<longrightarrow> t \<in> {SOCKET_TYPE_INVALID, SOCKET_TYPE_HALFCLOSE_READ} \<or> \<not> over sid ss)
    \<Longrightarrow> r \<noteq> Some SOCKET_CLOSE \<Longrightarrow> (r \<noteq> None \<longrightarrow> the r \<in> {0..7}) \<Longrightarrow> reports sid ss ss' r"
  unfolding reports_def by (auto simp: over_def slots_placed_def split: if_splits)

lemma slot_placedD: "slots_placed ss \<Longrightarrow> so_type (srv_slot ss i) \<noteq> SOCKET_TYPE_INVALID \<Longrightarrow> HASH_ID (so_id (srv_slot ss i)) = i"
  by (auto simp: slots_placed_def slot_view_def)

lemma reports_write:
  assumes "write_view i ss ss'" "so_type (srv_slot ss i) \<noteq> SOCKET_TYPE_INVALID" "r \<noteq> Some SOCKET_CLOSE" "r \<noteq> None \<longrightarrow> the r \<in> {0..7}"
  shows "reports sid ss ss' r"
proof -
  obtain t where t: "slot_view ss' = (slot_view ss)(i := (so_id (srv_slot ss i), t))" "srv_pipe ss' = srv_pipe ss"
    "t \<in> {so_type (srv_slot ss i), SOCKET_TYPE_INVALID} \<or> t = SOCKET_TYPE_HALFCLOSE_WRITE \<and> so_type (srv_slot ss i) \<noteq> SOCKET_TYPE_HALFCLOSE_READ"
    using assms(1) by (auto simp: write_view_def)
  have i: "slot_view ss i = (so_id (srv_slot ss i), so_type (srv_slot ss i))" by (simp add: slot_view_def)
  have "slots_placed ss'" if "slots_placed ss" using that slot_placedD [OF that assms(2)] t(1) by (auto simp: slots_placed_def)
  moreover have "over sid ss'" if "over sid ss" using that assms(2) t i by (auto simp: over_def)
  ultimately show ?thesis using assms(3,4) t(2) unfolding reports_def by blast
qed

text \<open>Closing a socket that was open, whole or for reading.\<close>

lemma reports_shut:
  assumes "slot_view ss' = (slot_view ss)(i := (so_id (srv_slot ss i), t))" "srv_pipe ss' = srv_pipe ss" "pr_id (srv_result ss') = so_id (srv_slot ss i)"
    "t \<in> {SOCKET_TYPE_INVALID, SOCKET_TYPE_HALFCLOSE_READ}" "so_type (srv_slot ss i) \<noteq> SOCKET_TYPE_INVALID" "r \<noteq> None \<longrightarrow> the r \<in> {0..7}"
    "r = Some SOCKET_CLOSE \<longrightarrow> so_type (srv_slot ss i) \<noteq> SOCKET_TYPE_HALFCLOSE_READ"
  shows "reports sid ss ss' r"
proof -
  have i: "slot_view ss i = (so_id (srv_slot ss i), so_type (srv_slot ss i))" by (simp add: slot_view_def)
  have "slots_placed ss'" if "slots_placed ss" using that slot_placedD [OF that assms(5)] assms(1) by (auto simp: slots_placed_def)
  moreover have "over sid ss'" if "over sid ss" using that assms(1,4) by (auto simp: over_def)
  moreover have "\<not> over sid ss \<and> over sid ss'" if "slots_placed ss \<and> r = Some SOCKET_CLOSE \<and> pr_id (srv_result ss') = sid"
    using that slot_placedD [OF _ assms(5)] assms i by (auto simp: over_def)
  ultimately show ?thesis using assms(2,6) unfolding reports_def by blast
qed

lemma reports_close:
  assumes "force_close E ss i l = Inr ss'" "so_type (srv_slot ss i) \<noteq> SOCKET_TYPE_INVALID" "r \<noteq> None \<longrightarrow> the r \<in> {0..7}"
    "r = Some SOCKET_CLOSE \<longrightarrow> so_type (srv_slot ss i) \<noteq> SOCKET_TYPE_HALFCLOSE_READ"
  shows "reports sid ss ss' r"
  using reports_shut [of ss' ss i SOCKET_TYPE_INVALID r sid] force_close_view [OF assms(1)] assms(2-4) by blast

lemma reports_half:
  assumes "so_type (srv_slot ss i) \<notin> {SOCKET_TYPE_INVALID, SOCKET_TYPE_HALFCLOSE_READ}"
  shows "reports sid ss (close_read E ss i) (Some SOCKET_CLOSE)"
proof (rule reports_shut [of _ _ i SOCKET_TYPE_HALFCLOSE_READ])
  let ?a = "set_type ss i SOCKET_TYPE_HALFCLOSE_READ"
  have v: "same_view ?a (fst (enable_read E ?a i False))" by (rule same_view_enable)
  show "slot_view (close_read E ss i) = (slot_view ss)(i := (so_id (srv_slot ss i), SOCKET_TYPE_HALFCLOSE_READ))"
    "srv_pipe (close_read E ss i) = srv_pipe ss" "pr_id (srv_result (close_read E ss i)) = so_id (srv_slot ss i)"
    using v slot_viewD [OF v, of i]
    by (auto simp: close_read_def Let_def case_prod_beta same_view_def set_type_def sock_result_def put_result_def)
qed (use assms in \<open>auto simp: socket_events\<close>)

section \<open>The requests\<close>

lemma new_fd_view:
  assumes "new_fd E ss sid fd protocol op rd = Inr (ss', r)"
  shows "so_type (srv_slot ss (HASH_ID sid)) = SOCKET_TYPE_RESERVE \<and> srv_pipe ss' = srv_pipe ss \<and> r \<in> {None, Some (HASH_ID sid)} \<and>
    (\<exists>x. slot_view ss' = (slot_view ss)(HASH_ID sid := if r = None then (x, SOCKET_TYPE_INVALID) else (sid, SOCKET_TYPE_RESERVE)))"
proof -
  have f: "slot_view (fst (enable_read E z i en)) = slot_view z" "srv_pipe (fst (enable_read E z i en)) = srv_pipe z" for z i en
    using same_view_enable(2) unfolding same_view_def by blast+
  show ?thesis
    using assms f by (auto simp: new_fd_def Let_def case_prod_beta cbind_Inr_iff c_assert_def set_type_def sysc_traced split: if_splits)
qed

lemma new_fd_id:
  assumes "new_fd E ss sid fd protocol op rd = Inr (ss', r)"
  shows "r \<noteq> None \<Longrightarrow> so_id (srv_slot ss' (HASH_ID sid)) = sid" "r = None \<Longrightarrow> so_type (srv_slot ss' (HASH_ID sid)) = SOCKET_TYPE_INVALID"
proof -
  obtain x where "slot_view ss' = (slot_view ss)(HASH_ID sid := if r = None then (x, SOCKET_TYPE_INVALID) else (sid, SOCKET_TYPE_RESERVE))"
    using new_fd_view [OF assms] by blast
  then have "slot_view ss' (HASH_ID sid) = (if r = None then (x, SOCKET_TYPE_INVALID) else (sid, SOCKET_TYPE_RESERVE))" by simp
  then show "r \<noteq> None \<Longrightarrow> so_id (srv_slot ss' (HASH_ID sid)) = sid" "r = None \<Longrightarrow> so_type (srv_slot ss' (HASH_ID sid)) = SOCKET_TYPE_INVALID"
    by (auto simp: slot_view_def)
qed

text \<open>A request that opens the socket.\<close>

fun opens :: "int \<Rightarrow> request \<Rightarrow> bool" where
  "opens sid (Req_O sid' port op host) \<longleftrightarrow> sid' = sid"
| "opens sid (Req_B sid' fd op) \<longleftrightarrow> sid' = sid"
| "opens sid (Req_L sid' fd op) \<longleftrightarrow> sid' = sid"
| "opens sid (Req_U sid' fd fam op) \<longleftrightarrow> sid' = sid"
| "opens sid (Req_N sid' fd op a) \<longleftrightarrow> sid' = sid"
| "opens sid _ \<longleftrightarrow> False"

lemma reports_new_fd:
  assumes "new_fd E ss sid' fd protocol op rd = Inr (s1, r)" "sid' \<noteq> sid"
    "r = None \<Longrightarrow> slot_view ss' = slot_view s1 \<or> (\<exists>y. slot_view ss' = (slot_view s1)(HASH_ID sid' := (y, SOCKET_TYPE_INVALID)))"
    "r \<noteq> None \<Longrightarrow> slot_view ss' = (slot_view s1)(HASH_ID sid' := (sid', ty))" "srv_pipe ss' = srv_pipe s1"
    "t \<noteq> Some SOCKET_CLOSE" "t \<noteq> None \<longrightarrow> the t \<in> {0..7}"
  shows "reports sid ss ss' t"
proof -
  note v = new_fd_view [OF assms(1)]
  show ?thesis
  proof (cases r)
    case None
    then obtain x where "slot_view ss' = (slot_view ss)(HASH_ID sid' := (x, SOCKET_TYPE_INVALID))" using v assms(3) by fastforce
    then show ?thesis by (rule reports_change) (use v assms in auto)
  next
    case (Some i)
    then have "slot_view ss' = (slot_view ss)(HASH_ID sid' := (sid', ty))" using v assms(4) by fastforce
    then show ?thesis by (rule reports_change) (use v assms in auto)
  qed
qed

lemma connect_loop_view: "same_view ss (fst (connect_loop E ss ais))"
proof (induction ais arbitrary: ss)
  case (Cons ai ais)
  let ?a = "sysc E ss (Sys_socket (sa_family ai) True)"
  let ?fd = "an_ret (snd ?a)"
  let ?b = "sysdo E (sysdo E (fst ?a) (Sys_keepalive ?fd)) (Sys_nonblocking ?fd)"
  let ?c = "sysc E ?b (Sys_connect ?fd ai)"
  have a: "same_view ss (fst ?a)" by simp
  have b: "same_view ss ?b" using same_view_trans [OF a same_view_trans [OF same_view_basic(2) same_view_basic(2)]] .
  have c: "same_view ss (fst ?c)" using same_view_trans [OF b same_view_basic(1)] .
  have d: "same_view ss (sysdo E (fst ?c) (Sys_close ?fd))" using same_view_trans [OF c same_view_basic(2)] .
  show ?case using same_view_trans [OF a Cons.IH] same_view_trans [OF d Cons.IH] c by (simp add: Let_def case_prod_beta)
qed simp

lemma view_result [simp]: "srv_slot (put_result ss a b c d) = srv_slot ss" "srv_slot (result_data ss d) = srv_slot ss" "srv_slot (fst (sysc E ss call)) = srv_slot ss"
  "slot_view (set_type ss i ty) = (slot_view ss)(i := (so_id (srv_slot ss i), ty))" "srv_pipe (set_type ss i ty) = srv_pipe ss"
  "srv_slot (log_error ss x) = srv_slot ss" "srv_result (set_type ss i ty) = srv_result ss" "srv_result (fst (sysc E ss call)) = srv_result ss"
  by (simp_all add: put_result_def result_data_def sysc_traced set_type_def log_error_def)

lemma reports_listen:
  assumes "listen_socket E ss sid' fd op = Inr (ss', t)" "sid' \<noteq> sid"
  shows "reports sid ss ss' (Some t)"
proof -
  obtain s1 r where s1: "new_fd E ss sid' fd PROTOCOL_TCP op False = Inr (s1, r)" using assms(1) by (auto simp: listen_socket_def cbind_Inr_iff)
  note v = new_fd_view [OF s1] new_fd_id [OF s1]
  show ?thesis
    by (rule reports_new_fd [OF s1 assms(2), of _ SOCKET_TYPE_PLISTEN])
      (use assms(1) s1 v in \<open>auto simp: listen_socket_def Let_def case_prod_beta socket_events split: if_splits list.splits option.splits\<close>)
qed

lemma reports_bind:
  assumes "bind_socket E ss sid' fd op = Inr (ss', t)" "sid' \<noteq> sid"
  shows "reports sid ss ss' (Some t)"
proof -
  let ?ss = "put_result ss sid' op 0 NoData"
  obtain s1 r where s1: "new_fd E ?ss sid' fd PROTOCOL_TCP op True = Inr (s1, r)" using assms(1) by (auto simp: bind_socket_def cbind_Inr_iff)
  note v = new_fd_view [OF s1] new_fd_id [OF s1]
  have "reports sid ?ss ss' (Some t)"
    by (rule reports_new_fd [OF s1 assms(2), of _ SOCKET_TYPE_BIND])
      (use assms(1) s1 v in \<open>auto simp: bind_socket_def socket_events split: option.splits\<close>)
  then show ?thesis using reports_pre same_view_basic(4) by blast
qed

lemma reports_open:
  assumes "open_socket E ss sid' port op host = Inr (ss', t)" "sid' \<noteq> sid"
  shows "reports sid ss ss' (if t = -1 then None else Some t)"
proof -
  let ?a = "sysc E (put_result ss sid' op 0 NoData) (Sys_getaddrinfo host port True)"
  have a: "same_view ss (fst ?a)" using same_view_trans [OF same_view_basic(4) same_view_basic(1)] .
  have fail: "reports sid ss (fst (open_failed z sid' x)) (Some (snd (open_failed z sid' x)))" if "same_view ss z" for z x
    using that assms(2) by (intro reports_change [of _ _ "HASH_ID sid'" "so_id (srv_slot z (HASH_ID sid'))" SOCKET_TYPE_INVALID])
      (auto simp: open_failed_def same_view_def socket_events)
  let ?c = "connect_loop E (fst ?a) (an_addrs (snd ?a))"
  have c: "same_view ss (fst ?c)" using same_view_trans [OF a connect_loop_view] .
  show ?thesis
  proof (cases "an_ret (snd ?a) \<noteq> 0 \<or> snd ?c = None")
    case True
    then show ?thesis using assms(1) fail [OF a] fail [OF c]
      by (auto simp: open_socket_def Let_def case_prod_beta open_failed_def socket_events split: if_splits)
  next
    case False
    then obtain fd status ai where c': "snd ?c = Some (fd, status, ai)" by (cases "snd ?c") auto
    then obtain s1 r where s1: "new_fd E (fst ?c) sid' fd PROTOCOL_TCP op True = Inr (s1, r)"
      using assms(1) False by (auto simp: open_socket_def Let_def case_prod_beta cbind_Inr_iff)
    note v = new_fd_view [OF s1] new_fd_id [OF s1]
    have e: "slot_view (fst (enable_write E s1 i b)) = slot_view s1" "so_id (srv_slot (fst (enable_write E s1 i b)) j) = so_id (srv_slot s1 j)" for i b j
      using slot_viewD [OF same_view_enable(1)] by auto
    have "reports sid (fst ?c) ss' (if t = -1 then None else Some t)"
      by (rule reports_new_fd [OF s1 assms(2), of _ "if t = SOCKET_OPEN then SOCKET_TYPE_CONNECTED else if t = -1 then SOCKET_TYPE_CONNECTING else SOCKET_TYPE_INVALID"])
        (use assms(1) False s1 v c' e in \<open>auto simp: open_socket_def Let_def case_prod_beta open_failed_def socket_events split: if_splits option.splits\<close>)
    then show ?thesis using reports_pre [OF c] by blast
  qed
qed

lemma reports_close_socket:
  assumes "close_socket E ss sid' shut = Inr (ss', t)"
  shows "reports sid ss ss' (if t = -1 then None else Some t)"
proof -
  let ?i = "HASH_ID sid'" and ?s = "srv_slot ss (HASH_ID sid')"
  consider "socket_invalid ?s sid'" | "\<not> socket_invalid ?s sid'" "shut \<or> nomore_sending_data ?s"
    | "\<not> socket_invalid ?s sid'" "\<not> (shut \<or> nomore_sending_data ?s)" by blast
  then show ?thesis
  proof cases
    case 1
    then show ?thesis using assms by (auto simp: close_socket_def intro: reports_quiet)
  next
    case 2
    then have "force_close E ss ?i 0 = Inr ss'" "t = (if halfclose_read ?s then -1 else SOCKET_CLOSE)"
      using assms by (auto simp: close_socket_def cbind_Inr_iff Let_def)
    then show ?thesis using 2(1) by (intro reports_close) (auto simp: socket_invalid_def halfclose_read_def socket_events)
  next
    case 3
    let ?a = "set_sock ss ?i (?s\<lparr>so_closing := True\<rparr>)"
    have a: "same_view ss ?a" by simp
    show ?thesis
    proof (cases "halfclose_read ?s")
      case True
      then show ?thesis using 3 assms a by (auto simp: close_socket_def Let_def intro: reports_quiet)
    next
      case False
      then have "reports sid ?a (close_read E ?a ?i) (Some SOCKET_CLOSE)" using 3(1) by (intro reports_half) (auto simp: socket_invalid_def halfclose_read_def)
      then show ?thesis using 3 False assms reports_pre [OF a] by (auto simp: close_socket_def Let_def socket_events)
    qed
  qed
qed

text \<open>The code \<open>-1\<close> reports nothing.\<close>

definition told :: "int \<Rightarrow> int option" where
  "told t = (if t = -1 then None else Some t)"

lemma reports_told: "same_view ss ss' \<Longrightarrow> t \<in> {-1, SOCKET_ERR, SOCKET_WARNING, SOCKET_OPEN, SOCKET_EXIT} \<Longrightarrow> reports sid ss ss' (told t)"
  by (rule reports_quiet) (auto simp: told_def socket_events)

lemma warn_size_code: "snd (warn_size ss i) \<in> {-1, SOCKET_WARNING}"
  by (simp add: warn_size_def Let_def)

lemma enable_warn_view:
  assumes "(let (ss, err) = enable_write E ss i True in if err then Inr (report_error ss i x) else Inr (warn_size ss i)) = (Inr (ss', t) :: (server \<times> int) res)"
  shows "same_view ss ss' \<and> t \<in> {-1, SOCKET_ERR, SOCKET_WARNING}"
proof -
  let ?e = "fst (enable_write E ss i True)"
  have e: "same_view ss ?e" by (rule same_view_enable)
  have "same_view ss (fst (report_error ?e i x))" "same_view ss (fst (warn_size ?e i))"
    using same_view_trans [OF e same_view_basic(13)] same_view_trans [OF e same_view_basic(15)] .
  then show ?thesis using assms warn_size_code [of ?e i]
    by (cases "warn_size ?e i") (auto simp: case_prod_beta report_error_def split: if_splits)
qed

lemma send_socket_view:
  assumes "send_socket E ss sid' len p hi ad = Inr (ss', t)"
  shows "same_view ss ss' \<and> t \<in> {-1, SOCKET_ERR, SOCKET_WARNING}"
proof -
  let ?i = "HASH_ID sid'" and ?s = "srv_slot ss (HASH_ID sid')"
  let ?f = "ob_free (fst (send_object_init E p len))"
  let ?addr = "case ad of None \<Rightarrow> so_addr ?s | Some a \<Rightarrow> a"
  have drop: "same_view ss ss' \<and> t = -1" if "cbind (free_object E z ?f p) (\<lambda>ss. Inr (ss, -1)) = Inr (ss', t)" "same_view ss z" for z
    using that same_view_trans [OF that(2) same_view_free(1)] by (auto simp: cbind_Inr_iff)
  have app: "same_view ss (append_sendbuffer E z ?i h len p a)" if "same_view ss z" for z h a
    using same_view_trans [OF that same_view_basic(11)] .
  have warn: "same_view ss ss' \<and> t \<in> {-1, SOCKET_WARNING}" if "Inr (warn_size z ?i) = (Inr (ss', t) :: (server \<times> int) res)" "same_view ss z" for z
    using that warn_size_code [of z ?i] same_view_trans [OF that(2) same_view_basic(15) [of z ?i]] by auto
  consider (gone) "so_type ?s = SOCKET_TYPE_INVALID \<or> so_id ?s \<noteq> sid' \<or> so_type ?s = SOCKET_TYPE_HALFCLOSE_WRITE \<or> so_type ?s = SOCKET_TYPE_PACCEPT \<or> so_closing ?s"
    | (listen) "\<not> (so_type ?s = SOCKET_TYPE_INVALID \<or> so_id ?s \<noteq> sid' \<or> so_type ?s = SOCKET_TYPE_HALFCLOSE_WRITE \<or> so_type ?s = SOCKET_TYPE_PACCEPT \<or> so_closing ?s)"
        "so_type ?s = SOCKET_TYPE_PLISTEN \<or> so_type ?s = SOCKET_TYPE_LISTEN"
    | (send) "\<not> (so_type ?s = SOCKET_TYPE_INVALID \<or> so_id ?s \<noteq> sid' \<or> so_type ?s = SOCKET_TYPE_HALFCLOSE_WRITE \<or> so_type ?s = SOCKET_TYPE_PACCEPT \<or> so_closing ?s)"
        "\<not> (so_type ?s = SOCKET_TYPE_PLISTEN \<or> so_type ?s = SOCKET_TYPE_LISTEN)" by blast
  then show ?thesis
  proof cases
    case gone
    then have "cbind (free_object E ss ?f p) (\<lambda>ss. Inr (ss, -1)) = Inr (ss', t)" using assms by (simp add: send_socket_def Let_def)
    then show ?thesis using drop by simp
  next
    case listen
    then have "\<exists>x. cbind (free_object E (log_error ss x) ?f p) (\<lambda>ss. Inr (ss, -1)) = Inr (ss', t)" using assms by (auto simp: send_socket_def Let_def)
    then show ?thesis using drop by force
  next
    case send
    show ?thesis
    proof (cases "send_buffer_empty ?s")
      case False
      then show ?thesis using assms send warn [OF _ app [OF same_view_refl]] by (auto simp: send_socket_def Let_def split: if_splits)
    next
      case empty: True
      show ?thesis
      proof (cases "so_protocol ?s = PROTOCOL_TCP")
        case True
        then show ?thesis using assms send empty enable_warn_view [of E "append_sendbuffer E ss ?i True len p []" ?i "''enable write failed''" ss' t]
            same_view_trans [OF app [OF same_view_refl]] by (auto simp: send_socket_def Let_def)
      next
        case udp: False
        show ?thesis
        proof (cases "udp_socket_address ?s ?addr")
          case None
          then have "\<exists>x. cbind (free_object E (log_error ss x) ?f p) (\<lambda>ss. Inr (ss, -1)) = Inr (ss', t)"
            using assms send empty udp by (auto simp: send_socket_def Let_def)
          then show ?thesis using drop by force
        next
          case (Some sa)
          let ?so = "fst (send_object_init E p len)"
          obtain bs where bs: "read_ptr ss (ob_buffer ?so) (ob_sz ?so) = Inr bs"
            using assms send empty udp Some by (auto simp: send_socket_def Let_def cbind_Inr_iff)
          let ?c = "sysc E ss (Sys_sendto (so_fd ?s) bs sa)"
          have c: "same_view ss (fst ?c)" "same_view ss (stat_write (fst ?c) ?i n)" for n
            using same_view_trans [OF same_view_basic(1) same_view_basic(8)] by simp_all
          show ?thesis using assms send empty udp Some bs drop [OF _ c(2)]
              enable_warn_view [of E "append_sendbuffer E (fst ?c) ?i hi len p ?addr" ?i "''enable write failed''" ss' t] same_view_trans [OF app [OF c(1)]]
            by (auto simp: send_socket_def Let_def case_prod_beta split: if_splits)
        qed
      qed
    qed
  qed
qed

lemma reports_resume:
  assumes "resume_socket E ss sid' op = (ss', t)"
  shows "reports sid ss ss' (told t)"
proof -
  let ?a = "put_result ss sid' op 0 NoData" and ?i = "HASH_ID sid'" and ?s = "srv_slot ss (HASH_ID sid')"
  have a: "same_view ss ?a" by simp
  show ?thesis
  proof (cases "socket_invalid ?s sid' \<or> halfclose_read ?s")
    case True
    then show ?thesis using assms reports_told [OF same_view_trans [OF a same_view_basic(6)]] by (auto simp: resume_socket_def Let_def split: if_splits)
  next
    case False
    let ?e = "fst (enable_read E ?a ?i True)"
    have e: "same_view ss ?e" using same_view_trans [OF a same_view_enable(2)] .
    have id: "so_id (srv_slot ?e ?i) = sid'" "so_type (srv_slot ?e ?i) = so_type ?s" "so_id ?s = sid'"
      using slot_viewD [OF e] False by (auto simp: socket_invalid_def)
    show ?thesis
    proof (cases "\<not> snd (enable_read E ?a ?i True) \<and> so_type ?s \<in> {SOCKET_TYPE_PACCEPT, SOCKET_TYPE_PLISTEN}")
      case True
      let ?t = "if so_type ?s = SOCKET_TYPE_PACCEPT then SOCKET_TYPE_CONNECTED else SOCKET_TYPE_LISTEN"
      have r: "ss' = result_data (set_sock (set_type ?e ?i ?t) ?i ((srv_slot (set_type ?e ?i ?t) ?i)\<lparr>so_opaque := op\<rparr>)) (Text ''start'')" "t = SOCKET_OPEN"
        using assms False True by (auto simp: resume_socket_def Let_def case_prod_beta)
      show ?thesis
        by (rule reports_change [of _ _ ?i sid' ?t]) (use e id r True in \<open>auto simp: same_view_def set_type_def told_def socket_events over_def slot_view_def\<close>)
    next
      case no: False
      have "same_view ss (result_data ?e x)" "same_view ss (result_data (set_sock ?e ?i ((srv_slot ?e ?i)\<lparr>so_opaque := op\<rparr>)) x)" for x
        using same_view_trans [OF e same_view_basic(6)] same_view_trans [OF e same_view_trans [OF same_view_set same_view_basic(6)]] by simp_all
      then show ?thesis using assms False no e by (auto simp: resume_socket_def Let_def case_prod_beta split: if_splits intro: reports_told)
    qed
  qed
qed

lemma enable_view: "same_view ss (fst (let (ss, err) = en in if err then report_error ss i x else (ss, -1)))
    \<and> snd (let (ss, err) = en in if err then report_error ss i x else (ss, -1)) \<in> {-1, SOCKET_ERR}" if "same_view ss (fst en)"
  using that same_view_trans [OF that same_view_basic(13)] by (auto simp: case_prod_beta report_error_def)

lemma reports_dial:
  assumes "dial_udp_socket E ss sid' fd op ad = Inr (ss', t)" "sid' \<noteq> sid"
  shows "reports sid ss ss' (told t)"
proof -
  obtain s1 r where s1: "new_fd E ss sid' fd (hd ad) op True = Inr (s1, r)" using assms(1) by (auto simp: dial_udp_socket_def cbind_Inr_iff)
  note v = new_fd_view [OF s1] new_fd_id [OF s1]
  show ?thesis
    by (rule reports_new_fd [OF s1 assms(2), of _ SOCKET_TYPE_CONNECTED])
      (use assms(1) s1 v in \<open>auto simp: dial_udp_socket_def told_def socket_events Let_def split: option.splits\<close>)
qed

lemma reports_add_udp:
  assumes "add_udp_socket E ss sid' fd fam op = Inr ss'" "sid' \<noteq> sid"
  shows "reports sid ss ss' None"
proof -
  obtain s1 r pr where s1: "new_fd E ss sid' fd pr op True = Inr (s1, r)" "pr = (if fam = AF_INET6 then PROTOCOL_UDPv6 else PROTOCOL_UDP)"
    using assms(1) by (auto simp: add_udp_socket_def cbind_Inr_iff)
  note v = new_fd_view [OF s1(1)] new_fd_id [OF s1(1)]
  show ?thesis
    by (rule reports_new_fd [OF s1(1) assms(2), of _ SOCKET_TYPE_CONNECTED])
      (use assms(1) s1 v in \<open>auto simp: add_udp_socket_def Let_def set_type_def split: option.splits\<close>)
qed

lemma reports_request:
  assumes "ctrl_request E ss q = Inr (ss', t)" "\<not> opens sid q"
  shows "reports sid ss ss' (told t)"
proof (cases q)
  case (Req_R sid' op)
  then show ?thesis using assms(1) reports_resume [of E ss sid' op] by simp
next
  case (Req_S sid' op)
  then show ?thesis using assms(1) enable_view [of ss "enable_read E ss (HASH_ID sid') False" "HASH_ID sid'" "''enable read failed''", OF same_view_enable(2)] reports_told
    by (cases "socket_invalid (srv_slot ss (HASH_ID sid')) sid'") (auto simp: pause_socket_def Let_def)
next
  case (Req_W sid')
  then show ?thesis using assms(1) enable_view [of ss "enable_write E ss (HASH_ID sid') True" "HASH_ID sid'" "''enable write failed''", OF same_view_enable(1)] reports_told
    by (cases "socket_invalid (srv_slot ss (HASH_ID sid')) sid'") (auto simp: trigger_write_def Let_def)
next
  case (Req_D sid' len p)
  then obtain s1 where "send_socket E ss sid' len p True None = Inr (s1, t)" "dec_sending_ref s1 sid' = Inr ss'"
    using assms(1) by (auto simp: send_request_cmd_def cbind_Inr_iff)
  then show ?thesis using send_socket_view same_view_free(9) same_view_trans by (intro reports_told) blast+
next
  case (Req_P sid' len p)
  then obtain s1 where "send_socket E ss sid' len p False None = Inr (s1, t)" "dec_sending_ref s1 sid' = Inr ss'"
    using assms(1) by (auto simp: send_request_cmd_def cbind_Inr_iff)
  then show ?thesis using send_socket_view same_view_free(9) same_view_trans by (intro reports_told) blast+
next
  case (Req_A sid' len p ad)
  then show ?thesis using assms(1) send_socket_view [of E ss sid' len p True "Some ad" ss' t] by (intro reports_told) auto
next
  case (Req_C sid' ad)
  have "same_view ss ss' \<and> t \<in> {-1, SOCKET_ERR}"
    using assms(1) Req_C same_view_basic(13) by (auto simp: set_udp_address_def Let_def report_error_def split: if_splits)
  then show ?thesis by (intro reports_told) auto
next
  case (Req_K sid' shut op)
  then show ?thesis using assms(1) reports_close_socket [of E ss sid' shut ss' t sid] by (simp add: told_def)
next
  case (Req_O sid' port op host)
  then show ?thesis using assms reports_open [of E ss sid' port op host ss' t sid] by (simp add: told_def)
next
  case (Req_B sid' fd op)
  then show ?thesis using assms reports_bind [of E ss sid' fd op ss' t sid] by (auto simp: told_def reports_def)
next
  case (Req_L sid' fd op)
  then show ?thesis using assms reports_listen [of E ss sid' fd op ss' t sid] by (auto simp: told_def reports_def)
next
  case (Req_N sid' fd op ad)
  then show ?thesis using assms reports_dial by simp
next
  case (Req_U sid' fd fam op)
  then show ?thesis using assms reports_add_udp by (auto simp: cbind_Inr_iff told_def)
next
  case (Req_T sid' what v)
  then show ?thesis using assms(1) by (auto simp: setopt_socket_def Let_def intro!: reports_told split: if_splits)
next
  case Req_X
  then show ?thesis using assms(1) by (auto intro!: reports_told)
qed

section \<open>The events\<close>

lemma reports_tcp:
  assumes "forward_message_tcp E ss i l = Inr (ss', t)" "so_type (srv_slot ss i) \<noteq> SOCKET_TYPE_INVALID"
  shows "reports sid ss ss' (told (if t = SOCKET_MORE then SOCKET_DATA else t))"
proof -
  let ?a = "sysc E ss (Sys_read (so_fd (srv_slot ss i)) (nat (so_size (srv_slot ss i))))"
  let ?n = "an_ret (snd ?a)" and ?s = "srv_slot ss i"
  have a: "same_view ss (fst ?a)" by simp
  have type: "so_type (srv_slot (fst ?a) i) = so_type ?s" by simp
  consider (err) "?n < 0" | (eof) "?n = 0" | (data) "?n > 0" by linarith
  then show ?thesis
  proof cases
    case err
    then show ?thesis using assms(1) reports_told [OF a] reports_told [OF same_view_trans [OF a same_view_basic(13)]]
      by (auto simp: forward_message_tcp_def Let_def case_prod_beta report_error_def socket_events split: if_splits)
  next
    case eof
    then show ?thesis
      using assms reports_told [OF a, of "-1" sid] reports_pre [OF a reports_close [of E "fst ?a" i l ss' "told (-1)" sid]]
        reports_pre [OF a reports_close [of E "fst ?a" i l ss' "told SOCKET_CLOSE" sid]] reports_pre [OF a reports_half [of "fst ?a" i sid E]]
      by (auto simp: forward_message_tcp_def Let_def case_prod_beta told_def socket_events cbind_Inr_iff split: if_splits)
  next
    case data
    let ?m = "srv_malloc (stat_read (fst ?a) i ?n) (take (nat ?n) (an_bytes (snd ?a)))"
    let ?d = "sock_result (fst ?m) i ?n (Block (snd ?m))"
    have d: "same_view ss ?d"
      using same_view_trans [OF a same_view_trans [OF same_view_basic(7) same_view_trans [OF same_view_basic(12) same_view_basic(5)]]] .
    then have e: "same_view ss (set_sock ?d i ((srv_slot ?d i)\<lparr>so_size := k\<rparr>))" for k using same_view_trans [OF d same_view_set] by simp
    show ?thesis
      using assms(1) data reports_told [OF a, of "-1"] reports_quiet [OF d, of "Some SOCKET_DATA"] reports_quiet [OF e, of "Some SOCKET_DATA"]
      by (auto simp: forward_message_tcp_def Let_def case_prod_beta told_def socket_events split: if_splits)
  qed
qed

lemma reports_udp:
  assumes "forward_message_udp E ss i l = Inr (ss', t)" "so_type (srv_slot ss i) \<noteq> SOCKET_TYPE_INVALID"
  shows "reports sid ss ss' (told t)"
proof -
  let ?a = "sysc E ss (Sys_recvfrom (so_fd (srv_slot ss i)))"
  have a: "same_view ss (fst ?a)" "same_view ss (stat_read (fst ?a) i n)" for n
    using same_view_trans [OF same_view_basic(1) same_view_basic(7)] by simp_all
  show ?thesis
  proof (cases "an_ret (snd ?a) < 0")
    case True
    have "reports sid ss (result_data z d) (told SOCKET_ERR)" if "force_close E (fst ?a) i l = Inr z" for z d
    proof -
      have "reports sid (fst ?a) z (told SOCKET_ERR)" using that assms(2) by (intro reports_close) (auto simp: told_def socket_events)
      then show ?thesis using reports_pre [OF a(1)] by (auto simp: reports_def told_def socket_events over_def slots_placed_def)
    qed
    then show ?thesis using True assms(1) reports_told [OF a(1), of "-1"]
      by (auto simp: forward_message_udp_def Let_def case_prod_beta cbind_Inr_iff split: if_splits)
  next
    case False
    have "same_view ss (sock_result (fst (srv_malloc (stat_read (fst ?a) i n) bs)) i n d)" for n bs d
      using same_view_trans [OF a(2) same_view_trans [OF same_view_basic(12) same_view_basic(5)]] .
    then show ?thesis using False assms(1) reports_told [OF a(2), of "-1"] reports_quiet [of ss _ "Some SOCKET_UDP" sid]
      by (auto simp: forward_message_udp_def Let_def case_prod_beta told_def socket_events split: if_splits list.splits)
  qed
qed

text \<open>The id a new socket gets.\<close>

lemma reserve_loop_view:
  "reserve_loop k ss = (ss', sid') \<Longrightarrow>
    (sid' = -1 \<and> same_view ss ss') \<or> (0 \<le> sid' \<and> slot_view ss' = (slot_view ss)(HASH_ID sid' := (sid', SOCKET_TYPE_RESERVE))
      \<and> snd (slot_view ss (HASH_ID sid')) = SOCKET_TYPE_INVALID \<and> srv_pipe ss' = srv_pipe ss)"
proof (induction k arbitrary: ss)
  case (Suc k)
  let ?a = "to_int (srv_alloc_id ss + 1)"
  define i where "i = (if ?a < 0 then ?a mod 2 ^ 31 else ?a)"
  have i: "0 \<le> i" by (simp add: i_def)
  let ?ss = "ss\<lparr>srv_alloc_id := i\<rparr>"
  have step: "reserve_loop (Suc k) ss = (if so_type (srv_slot ss (HASH_ID i)) = SOCKET_TYPE_INVALID
      then (set_sock ?ss (HASH_ID i) (reserved (srv_slot ss (HASH_ID i)) i), i) else reserve_loop k ?ss)"
    unfolding reserve_loop.simps Let_def i_def by (simp add: reserved_def)
  show ?case
  proof (cases "so_type (srv_slot ss (HASH_ID i)) = SOCKET_TYPE_INVALID")
    case True
    then show ?thesis using Suc.prems i unfolding step by (auto simp: reserved_def slot_view_def fun_eq_iff)
  next
    case False
    then show ?thesis using Suc.IH [of ?ss] Suc.prems unfolding step by (auto simp: same_view_def)
  qed
qed simp

lemma reports_connect:
  assumes "report_connect E ss i l = Inr (ss', t)" "so_type (srv_slot ss i) = SOCKET_TYPE_CONNECTING"
  shows "reports sid ss ss' (Some t)"
proof -
  let ?a = "sysc E ss (Sys_so_error (so_fd (srv_slot ss i)))"
  let ?failed = "if an_ret (snd ?a) < 0 then Some (an_errno (snd ?a)) else an_so_error (snd ?a)"
  have a: "same_view ss (fst ?a)" by simp
  have change: "reports sid ss z (Some r)" if "slot_view z = (slot_view ss)(i := (so_id (srv_slot ss i), ty))" "srv_pipe z = srv_pipe ss"
    "r \<in> {SOCKET_OPEN, SOCKET_ERR}" for z ty r
    using that slot_placedD [of ss i] assms(2) by (intro reports_change [of z ss i "so_id (srv_slot ss i)" ty])
      (auto simp: socket_events over_def slot_view_def)
  show ?thesis
  proof (cases ?failed)
    case (Some err)
    then obtain z where "force_close E (fst ?a) i l = Inr z" "ss' = result_data z (Text (en_strerror E err))" "t = SOCKET_ERR"
      using assms(1) by (auto simp: report_connect_def Let_def case_prod_beta cbind_Inr_iff)
    then show ?thesis using change [of ss' SOCKET_TYPE_INVALID] force_close_view [of E "fst ?a" i l z] by simp
  next
    case None
    let ?b = "sock_result (set_type (fst ?a) i SOCKET_TYPE_CONNECTED) i 0 NoData"
    let ?e = "if nomore_sending_data (srv_slot ?b i) then enable_write E ?b i False else (?b, False)"
    have e: "same_view ?b (fst ?e)" using same_view_enable(1) by simp
    then have ve: "slot_view (fst ?e) = (slot_view ss)(i := (so_id (srv_slot ss i), SOCKET_TYPE_CONNECTED))" "srv_pipe (fst ?e) = srv_pipe ss"
      "so_id (srv_slot (fst ?e) i) = so_id (srv_slot ss i)"
      using slot_viewD [OF e, of i] by (auto simp: same_view_def sock_result_def put_result_def set_type_def)
    show ?thesis
    proof (cases "snd ?e")
      case True
      then obtain z where z: "force_close E (fst ?e) i l = Inr z" "ss' = result_data z (Text ''disable write failed'')" "t = SOCKET_ERR"
        using assms(1) None by (auto simp: report_connect_def Let_def case_prod_beta cbind_Inr_iff)
      then show ?thesis using change [of ss' SOCKET_TYPE_INVALID] force_close_view [OF z(1)] ve by simp
    next
      case False
      let ?g = "sysc E (fst ?e) (Sys_getpeername (so_fd (srv_slot (fst ?e) i)))"
      have "\<exists>d. ss' = result_data (fst ?g) d \<and> t = SOCKET_OPEN"
        using assms(1) None False by (auto simp: report_connect_def Let_def case_prod_beta)
      then show ?thesis using change [of ss' SOCKET_TYPE_CONNECTED] ve by auto
    qed
  qed
qed

lemma reports_accept:
  assumes "report_accept E ss i = Inr (ss', ok)" "ok > 0 \<longrightarrow> pr_ud (srv_result ss') \<noteq> sid"
  shows "reports sid ss ss' (if ok > 0 then Some SOCKET_ACCEPT else if ok < 0 then Some SOCKET_ERR else None)"
proof -
  let ?a = "sysc E ss (Sys_accept (so_fd (srv_slot ss i)))"
  have a: "same_view ss (fst ?a)" by simp
  show ?thesis
  proof (cases "an_ret (snd ?a) < 0")
    case True
    have "same_view ss (accept_reserve E (sock_result (fst ?a) i 0 x) i)" for x
      using same_view_trans [OF a same_view_trans [OF same_view_basic(5) same_view_basic(16)]] .
    then show ?thesis using True assms(1) reports_quiet [OF a, of None] reports_quiet [of ss _ "Some SOCKET_ERR"]
      by (auto simp: report_accept_def Let_def case_prod_beta socket_events split: if_splits)
  next
    case conn: False
    let ?r = "reserve_id (fst ?a)" and ?fd = "an_ret (snd ?a)"
    let ?k = "sysdo E (sysdo E (fst ?r) (Sys_keepalive ?fd)) (Sys_nonblocking ?fd)"
    have r: "(snd ?r = -1 \<and> same_view (fst ?a) (fst ?r)) \<or> (0 \<le> snd ?r \<and> slot_view (fst ?r) = (slot_view ss)(HASH_ID (snd ?r) := (snd ?r, SOCKET_TYPE_RESERVE))
      \<and> snd (slot_view ss (HASH_ID (snd ?r))) = SOCKET_TYPE_INVALID \<and> srv_pipe (fst ?r) = srv_pipe ss)"
      using reserve_loop_view [of MAX_SOCKET "fst ?a" "fst ?r" "snd ?r"] by (simp add: reserve_id_def)
    show ?thesis
    proof (cases "snd ?r < 0")
      case True
      then have "same_view ss (sysdo E (fst ?r) (Sys_close ?fd))" using r same_view_trans [OF a same_view_trans [OF _ same_view_basic(2)]] by auto
      then show ?thesis using True conn assms(1) reports_quiet [of ss _ None sid]
        by (auto simp: report_accept_def Let_def case_prod_beta split: if_splits)
    next
      case False
      then have r: "slot_view (fst ?r) = (slot_view ss)(HASH_ID (snd ?r) := (snd ?r, SOCKET_TYPE_RESERVE))" "srv_pipe (fst ?r) = srv_pipe ss"
        "snd (slot_view ss (HASH_ID (snd ?r))) = SOCKET_TYPE_INVALID" using r by auto
      obtain s1 n where s1: "new_fd E ?k (snd ?r) ?fd PROTOCOL_TCP (so_opaque (srv_slot ?k i)) False = Inr (s1, n)"
        using conn False assms(1) by (auto simp: report_accept_def Let_def case_prod_beta cbind_Inr_iff)
      obtain x where v: "srv_pipe s1 = srv_pipe ss"
        "slot_view s1 = (slot_view ss)(HASH_ID (snd ?r) := if n = None then (x, SOCKET_TYPE_INVALID) else (snd ?r, SOCKET_TYPE_RESERVE))"
        using new_fd_view [OF s1] r by auto
      show ?thesis
      proof (cases n)
        case None
        then have res: "ss' = sysdo E s1 (Sys_close ?fd)" "ok = 0"
          using conn False assms(1) s1 by (auto simp: report_accept_def Let_def case_prod_beta)
        show ?thesis by (rule reports_change [of _ _ "HASH_ID (snd ?r)" x SOCKET_TYPE_INVALID]) (use res v None in \<open>auto simp: socket_events\<close>)
      next
        case (Some j)
        then have j: "j = HASH_ID (snd ?r)" using new_fd_view [OF s1] by simp
        let ?z = "set_type (stat_read s1 i 1) j SOCKET_TYPE_PACCEPT"
        have res: "\<exists>d. ss' = sock_result ?z i (snd ?r) d" "ok = 1"
          using conn False assms(1) s1 Some by (auto simp: report_accept_def Let_def case_prod_beta)
        have id: "so_id (srv_slot (stat_read s1 i 1) j) = snd ?r"
          using new_fd_id(1) [OF s1] Some j slot_viewD [OF same_view_basic(7), of s1 i 1 j] by simp
        have "snd ?r \<noteq> sid" using assms(2) res by (auto simp: sock_result_def put_result_def)
        then show ?thesis by (intro reports_change [of _ _ j "snd ?r" SOCKET_TYPE_PACCEPT]) (use res id v Some j in \<open>auto simp: socket_events\<close>)
      qed
    qed
  qed
qed

lemma reports_event_io:
  assumes "event_io E ss e i = Inr (ss', r)" "so_type (srv_slot ss i) \<noteq> SOCKET_TYPE_INVALID"
  shows "reports sid ss ss' r"
proof -
  let ?tcp = "so_protocol (srv_slot ss i) = PROTOCOL_TCP"
  have nr: "same_view z (back_event (no_read z)) \<and> srv_result (back_event (no_read z)) = srv_result z" "srv_result (back_event z) = srv_result z" for z
    using same_view_trans [OF same_view_basic(19) same_view_basic(18)] by (simp_all add: back_event_def no_read_def)
  consider (read) "ev_read e" | (wr) "\<not> ev_read e" "ev_write e" | (error) "\<not> ev_read e" "\<not> ev_write e" "ev_error e"
    | (eof) "\<not> ev_read e" "\<not> ev_write e" "\<not> ev_error e" "ev_eof e" | (none) "\<not> ev_read e" "\<not> ev_write e" "\<not> ev_error e" "\<not> ev_eof e" by blast
  then show ?thesis
  proof cases
    case read
    then obtain z t where z: "(if ?tcp then forward_message_tcp E ss i 0 else forward_message_udp E ss i 0) = Inr (z, t)"
      using assms(1) by (auto simp: event_io_def Let_def cbind_Inr_iff)
    have "reports sid ss z (told (if ?tcp \<and> t = SOCKET_MORE then SOCKET_DATA else t))"
      using z assms(2) reports_tcp [of E ss i 0 z t sid] reports_udp [of E ss i 0 z t sid] by (auto split: if_splits)
    note w = this reports_post [OF this same_view_basic(18) nr(2)] reports_post [OF this] nr(1) [of z]
    show ?thesis using assms(1) read z w
      by (auto simp: event_io_def Let_def returned_def told_def socket_events split: if_splits)
  next
    case wr
    then obtain z t where z: "send_buffer E i 0 ss = Inr (z, t)" "(ss', r) = returned (z, t)"
      using assms(1) by (auto simp: event_io_def Let_def cbind_Inr_iff)
    then show ?thesis using send_buffer_view [OF z(1)] assms(2) reports_write [of i ss z r sid]
      by (auto simp: returned_def socket_events split: if_splits)
  next
    case error
    let ?a = "fst (sysc E ss (Sys_so_error (so_fd (srv_slot ss i))))"
    have "\<exists>x. ss' = fst (report_error ?a i x) \<and> r = Some SOCKET_ERR"
      using assms(1) error by (auto simp: event_io_def Let_def case_prod_beta returned_def report_error_def socket_events)
    then show ?thesis using reports_quiet [OF same_view_trans [OF same_view_basic(1) same_view_basic(13)]] by (auto simp: socket_events)
  next
    case eof
    then have "force_close E ss i 0 = Inr ss'" "r = (if halfclose_read (srv_slot ss i) then None else Some SOCKET_CLOSE)"
      using assms(1) by (auto simp: event_io_def Let_def cbind_Inr_iff)
    then show ?thesis using assms(2) by (intro reports_close) (auto simp: halfclose_read_def socket_events)
  next
    case none
    then show ?thesis using assms(1) by (auto simp: event_io_def Let_def intro: reports_quiet)
  qed
qed

lemma reports_event:
  assumes "poll_event_pass E ss = Inr (ss', r)" "r = Some SOCKET_ACCEPT \<longrightarrow> pr_ud (srv_result ss') \<noteq> sid"
  shows "reports sid ss ss' r"
proof -
  let ?e = "srv_ev ss ! srv_event_index ss" and ?z = "ss\<lparr>srv_event_index := Suc (srv_event_index ss)\<rparr>"
  have z: "same_view ss ?z" by (simp add: same_view_def)
  show ?thesis
  proof (cases "ev_s ?e")
    case None
    then show ?thesis using assms(1) reports_quiet [OF z, of None] by (auto simp: poll_event_pass_def)
  next
    case (Some i)
    let ?ty = "so_type (srv_slot ss i)"
    consider (connecting) "?ty = SOCKET_TYPE_CONNECTING" | (listen) "?ty = SOCKET_TYPE_LISTEN" | (invalid) "?ty = SOCKET_TYPE_INVALID"
      | (io) "?ty \<notin> {SOCKET_TYPE_CONNECTING, SOCKET_TYPE_LISTEN, SOCKET_TYPE_INVALID}" by blast
    then have "reports sid ?z ss' r"
    proof cases
      case connecting
      then show ?thesis using assms(1) Some reports_connect [of E ?z i 0] by (auto simp: poll_event_pass_def Let_def cbind_Inr_iff)
    next
      case listen
      then obtain ok where ok: "report_accept E ?z i = Inr (ss', ok)" "r = (if ok > 0 then Some SOCKET_ACCEPT else if ok < 0 then Some SOCKET_ERR else None)"
        using assms(1) Some by (auto simp: poll_event_pass_def Let_def cbind_Inr_iff)
      then show ?thesis using assms(2) reports_accept [OF ok(1)] by simp
    next
      case invalid
      then show ?thesis using assms(1) Some reports_quiet [OF same_view_basic(3), of None] by (auto simp: poll_event_pass_def Let_def)
    next
      case io
      then have "event_io E ?z ?e i = Inr (ss', r)" using assms(1) Some by (auto simp: poll_event_pass_def Let_def split: socket_type.splits)
      then show ?thesis using reports_event_io io by auto
    qed
    then show ?thesis using reports_pre [OF z] by blast
  qed
qed

text \<open>A pass of the loop of \<open>socket_server_poll\<close>.\<close>

lemma poll_pass_reports:
  assumes "poll_pass E ss more_flag = Inr (ss', more_flag', r)" "r = Some SOCKET_ACCEPT \<longrightarrow> pr_ud (srv_result ss') \<noteq> sid"
    "\<forall>q \<in> set (srv_pipe ss). \<not> opens sid q"
  shows "\<exists>s0. slot_view s0 = slot_view ss \<and> set (srv_pipe ss') \<subseteq> set (srv_pipe ss) \<and> reports sid s0 ss' r"
proof (cases "srv_checkctrl ss \<and> has_cmd ss")
  case True
  then obtain q qs where q: "srv_pipe ss = q # qs" by (cases "srv_pipe ss") (auto simp: has_cmd_def)
  let ?s0 = "ss\<lparr>srv_pipe := qs\<rparr>"
  obtain z t where z: "ctrl_request E ?s0 q = Inr (z, t)" "ss' = (if t = -1 then z else clear_closed_event z t)" "r = told t"
    using assms(1) True q by (auto simp: poll_pass_def ctrl_cmd_def cbind_Inr_iff told_def split: if_splits)
  have z': "reports sid ?s0 z (told t)" using reports_request [OF z(1)] assms(3) q by simp
  have "srv_result (clear_closed_event z t) = srv_result z" by (simp add: clear_closed_event_def)
  then have "reports sid ?s0 ss' r" using z' reports_post [OF z' same_view_basic(20)] z(2,3) by (cases "t = -1") auto
  then show ?thesis using q by (intro exI [of _ ?s0]) (auto simp: reports_def)
next
  case False
  let ?s0 = "ss\<lparr>srv_checkctrl := False\<rparr>"
  let ?w = "poll_wait E ?s0"
  have w: "same_view ?s0 ?w" "same_view ?s0 (log_error ?w x)" for x using same_view_trans [OF same_view_basic(17) same_view_basic(3)] by simp_all
  have "reports sid ?s0 ss' r"
  proof (cases "srv_event_index ss = length (srv_ev ss)")
    case ev: True
    then show ?thesis using False assms(1,2) reports_quiet [OF w(1), of None] reports_quiet [OF w(2), of None] reports_pre [OF w(1) reports_event [of E ?w ss' r sid]]
      by (auto simp: poll_pass_def Let_def cbind_Inr_iff split: if_splits)
  next
    case ev: False
    then show ?thesis using False assms(1,2) reports_event [of E ?s0 ss' r sid] by (auto simp: poll_pass_def Let_def cbind_Inr_iff)
  qed
  then show ?thesis by (intro exI [of _ ?s0]) (auto simp: reports_def)
qed

section \<open>Runs\<close>

text \<open>
  What may happen to the server while the id \<open>sid\<close> is not given out again: a pass of the socket thread,
  a request of a worker, an id reserved by a worker, data sent, and anything that leaves the ids, the
  types and the requests alone. A step of the socket thread may report a message.
\<close>

inductive srv_step :: "sockenv \<Rightarrow> int \<Rightarrow> server \<Rightarrow> (int \<times> poll_result) list \<Rightarrow> server \<Rightarrow> bool" for E sid where
  poll: "poll_pass E ss more_flag = Inr (ss', more_flag', r) \<Longrightarrow> r = Some SOCKET_ACCEPT \<longrightarrow> pr_ud (srv_result ss') \<noteq> sid \<Longrightarrow>
    srv_step E sid ss (case r of None \<Rightarrow> [] | Some t \<Rightarrow> [(t, srv_result ss')]) ss'"
| ask: "\<not> opens sid q \<Longrightarrow> srv_step E sid ss [] (send_request ss q)"
| reserve: "reserve_id ss = (ss', sid') \<Longrightarrow> sid' \<noteq> sid \<Longrightarrow> srv_step E sid ss [] ss'"
| send: "socket_server_send E ss buf = Inr (ss', r) \<Longrightarrow> srv_step E sid ss [] ss'"
| low: "socket_server_send_lowpriority E ss buf = Inr (ss', r) \<Longrightarrow> srv_step E sid ss [] ss'"
| other: "same_view ss ss' \<Longrightarrow> srv_step E sid ss [] ss'"

inductive srv_run :: "sockenv \<Rightarrow> int \<Rightarrow> server \<Rightarrow> (int \<times> poll_result) list \<Rightarrow> server \<Rightarrow> bool" for E sid ss0 where
  start: "srv_run E sid ss0 [] ss0"
| step: "srv_run E sid ss0 evs ss \<Longrightarrow> srv_step E sid ss es ss' \<Longrightarrow> srv_run E sid ss0 (evs @ es) ss'"

definition closes :: "int \<Rightarrow> (int \<times> poll_result) list \<Rightarrow> nat" where
  "closes sid evs = length (filter (\<lambda>(t, r). t = SOCKET_CLOSE \<and> pr_id r = sid) evs)"

definition settled :: "int \<Rightarrow> server \<Rightarrow> bool" where
  "settled sid ss \<longleftrightarrow> slots_placed ss \<and> (\<forall>q \<in> set (srv_pipe ss). \<not> opens sid q)"

definition close_step :: "int \<Rightarrow> server \<Rightarrow> (int \<times> poll_result) list \<Rightarrow> server \<Rightarrow> bool" where
  "close_step sid ss es ss' \<longleftrightarrow> settled sid ss' \<and> (over sid ss \<longrightarrow> over sid ss' \<and> closes sid es = 0) \<and> closes sid es \<le> 1
     \<and> (closes sid es = 1 \<longrightarrow> over sid ss') \<and> (\<forall>e \<in> set es. fst e \<in> {0..7})"

lemma close_step_quiet: "settled sid ss \<Longrightarrow> slot_view ss' = slot_view ss \<Longrightarrow> \<forall>q \<in> set (srv_pipe ss'). \<not> opens sid q \<Longrightarrow> close_step sid ss [] ss'"
  by (simp add: close_step_def settled_def slots_placed_def over_def closes_def)

lemma send_request_view:
  assumes "send_by_request ss buf req = Inr (ss', r)"
  shows "slot_view ss' = slot_view ss \<and> (\<exists>len p. srv_pipe ss' = srv_pipe ss @ [req (sb_id buf) len p])"
proof -
  obtain s1 s2 p len where "inc_sending_ref ss (HASH_ID (sb_id buf)) (sb_id buf) = Inr s1" "clone_buffer s1 buf = Inr (s2, p, len)"
    "ss' = send_request s2 (req (sb_id buf) len p)" using assms by (auto simp: send_by_request_def cbind_Inr_iff)
  then show ?thesis using same_view_free(7,10) by (fastforce simp: same_view_def send_request_def)
qed

lemma direct_write_view:
  assumes "direct_write E ss buf l = Inr (ss', r)"
  shows "slot_view ss' = slot_view ss \<and> set (srv_pipe ss') \<subseteq> insert (Req_W (sb_id buf)) (set (srv_pipe ss))"
proof -
  let ?i = "HASH_ID (sb_id buf)" and ?s = "srv_slot ss (HASH_ID (sb_id buf))" and ?so = "send_object_init_from_sendbuffer E buf"
  let ?tcp = "so_protocol (srv_slot ss (HASH_ID (sb_id buf))) = PROTOCOL_TCP"
  let ?sa = "udp_socket_address ?s (so_addr ?s)"
  have unlock_free: "same_view ss s2" if "same_view ss z" "socket_unlock z ?i l = Inr s1" "free_object E s1 (ob_free ?so) (sb_buffer buf) = Inr s2" for z s1 s2
    using same_view_trans [OF that(1) same_view_trans [OF same_view_free(4) [OF that(2)] same_view_free(1) [OF that(3)]]] .
  show ?thesis
  proof (cases "\<not> ?tcp \<and> ?sa = None")
    case True
    then show ?thesis using assms unlock_free [OF same_view_basic(3)] by (fastforce simp: direct_write_def Let_def cbind_Inr_iff same_view_def)
  next
    case False
    obtain bs where bs: "read_ptr ss (ob_buffer ?so) (ob_sz ?so) = Inr bs"
      using assms False by (auto simp: direct_write_def Let_def cbind_Inr_iff split: if_splits)
    let ?c = "sysc E ss (if ?tcp then Sys_write (so_fd ?s) bs else Sys_sendto (so_fd ?s) bs (the ?sa))"
    define n where "n = (if an_ret (snd ?c) < 0 then 0 else an_ret (snd ?c))"
    define z where "z = stat_write (fst ?c) ?i n"
    have z: "same_view ss z" unfolding z_def using same_view_trans [OF same_view_basic(1) same_view_basic(8)] .
    have run: "direct_write E ss buf l = (if n = int (ob_sz ?so) then
          cbind (socket_unlock z ?i l) (\<lambda>ss. cbind (free_object E ss (ob_free ?so) (sb_buffer buf)) (\<lambda>ss. Inr (ss, 0)))
        else cbind (clone_buffer z buf) (\<lambda>(ss, p, len).
          cbind (socket_unlock (set_sock ss ?i ((srv_slot ss ?i)\<lparr>so_dw_buffer := p, so_dw_size := len, so_dw_offset := nat n\<rparr>)) ?i l)
            (\<lambda>ss. Inr (send_request ss (Req_W (sb_id buf)), 0))))"
      using False bs by (simp only: direct_write_def Let_def case_prod_beta cbind.simps if_False z_def n_def)
    show ?thesis
    proof (cases "n = int (ob_sz ?so)")
      case True
      then obtain s1 where s1: "socket_unlock z ?i l = Inr s1" "free_object E s1 (ob_free ?so) (sb_buffer buf) = Inr ss'"
        using assms unfolding run by (auto simp: cbind_Inr_iff)
      show ?thesis using unlock_free [OF z s1] by (auto simp: same_view_def)
    next
      case part: False
      obtain s1 p len s2 where s1: "clone_buffer z buf = Inr (s1, p, len)"
        "socket_unlock (set_sock s1 ?i ((srv_slot s1 ?i)\<lparr>so_dw_buffer := p, so_dw_size := len, so_dw_offset := nat n\<rparr>)) ?i l = Inr s2"
        "ss' = send_request s2 (Req_W (sb_id buf))" using assms part unfolding run by (auto simp: cbind_Inr_iff)
      have "same_view ss s1" using same_view_trans [OF z same_view_free(7) [OF s1(1)]] .
      then have "same_view ss (set_sock s1 ?i ((srv_slot s1 ?i)\<lparr>so_dw_buffer := p, so_dw_size := len, so_dw_offset := nat n\<rparr>))"
        using same_view_trans [OF _ same_view_set] by simp
      then have "same_view ss s2" using same_view_trans [OF _ same_view_free(4) [OF s1(2)]] by blast
      then show ?thesis using s1(3) by (auto simp: same_view_def send_request_def)
    qed
  qed
qed

lemma send_view:
  assumes "socket_server_send E ss buf = Inr (ss', r)" "\<forall>q \<in> set (srv_pipe ss). \<not> opens sid q"
  shows "slot_view ss' = slot_view ss \<and> (\<forall>q \<in> set (srv_pipe ss'). \<not> opens sid q)"
proof -
  let ?s = "srv_slot ss (HASH_ID (sb_id buf))"
  consider (gone) "free_buffer E ss (sb_type buf) (sb_buffer buf) = Inr ss'" | (ask) "send_by_request ss buf Req_D = Inr (ss', r)"
    | (direct) z l where "socket_trylock ss (HASH_ID (sb_id buf)) 0 = Some (z, l)" "direct_write E z buf l = Inr (ss', r)"
    using assms(1) by (auto simp: socket_server_send_def Let_def cbind_Inr_iff split: if_splits option.splits)
  then show ?thesis
  proof cases
    case gone
    then show ?thesis using same_view_free(3) assms(2) by (auto simp: same_view_def)
  next
    case ask
    then show ?thesis using send_request_view assms(2) by fastforce
  next
    case (direct z l)
    then show ?thesis using same_view_free(6) [OF direct(1)] direct_write_view [OF direct(2)] assms(2) by (fastforce simp: same_view_def)
  qed
qed

lemma close_step_run:
  assumes "srv_step E sid ss es ss'" "settled sid ss"
  shows "close_step sid ss es ss'"
  using assms(1)
proof cases
  case (poll more_flag more_flag' r)
  obtain s0 where s0: "slot_view s0 = slot_view ss" "set (srv_pipe ss') \<subseteq> set (srv_pipe ss)" "reports sid s0 ss' r"
    using poll_pass_reports [OF poll(2,3)] assms(2) by (auto simp: settled_def)
  have "slots_placed s0" "over sid s0 = over sid ss" using assms(2) s0(1) by (simp_all add: settled_def slots_placed_def over_def)
  then show ?thesis using s0 assms(2) poll(1)
    by (auto simp: close_step_def reports_def settled_def closes_def split: option.splits)
next
  case (ask q)
  then show ?thesis using assms(2) by (auto simp: send_request_def settled_def intro!: close_step_quiet)
next
  case (reserve sid')
  then show ?thesis using reserve_loop_view [of MAX_SOCKET ss ss' sid'] assms(2)
    by (auto simp: reserve_id_def close_step_def settled_def same_view_def slots_placed_def over_def closes_def split: if_splits)
next
  case (send buf r)
  then show ?thesis using send_view [OF send(2), of sid] assms(2) close_step_quiet [of sid ss ss'] by (auto simp: settled_def)
next
  case (low buf r)
  then show ?thesis using assms(2) same_view_free(3) [of E ss] send_request_view [of ss buf Req_P ss' r]
    by (auto simp: socket_server_send_lowpriority_def cbind_Inr_iff settled_def same_view_def intro!: close_step_quiet split: if_splits)
next
  case other
  then show ?thesis using assms(2) by (auto simp: same_view_def settled_def intro!: close_step_quiet)
qed

lemma closes_append [simp]: "closes sid (xs @ ys) = closes sid xs + closes sid ys" "closes sid [] = 0"
  by (simp_all add: closes_def)

text \<open>
  C25. A socket is reported closed at most once. Let the socket thread poll and the workers use the server
  in any order, with any answers of the kernel and whatever happens to other sockets, while no open
  request for the id is in the pipe and the id is not given out again. Then at most one
  \<open>SOCKET_CLOSE\<close> for the id is reported, however the socket came to its end (closed by its owner, shut
  down, end of file, event of the pool), and every report has one of the codes of \<open>socket_server.h\<close>.
\<close>

theorem socket_close_once:
  assumes "settled sid ss0" "srv_run E sid ss0 evs ss"
  shows "closes sid evs \<le> 1 \<and> (over sid ss0 \<longrightarrow> closes sid evs = 0) \<and> (\<forall>e \<in> set evs. fst e \<in> {0..7})"
proof -
  have "settled sid ss \<and> closes sid evs \<le> 1 \<and> (over sid ss0 \<longrightarrow> over sid ss \<and> closes sid evs = 0) \<and> (closes sid evs = 1 \<longrightarrow> over sid ss)
    \<and> (\<forall>e \<in> set evs. fst e \<in> {0..7})"
    using assms(2)
  proof induction
    case start
    then show ?case using assms(1) by simp
  next
    case (step evs ss es ss')
    then have "close_step sid ss es ss'" using close_step_run by blast
    then show ?case using step.IH by (auto simp: close_step_def)
  qed
  then show ?thesis by blast
qed

text \<open>The connection of the example, shut down twice by its owner.\<close>

lemma one_connection_settled: "settled 7 one_connection"
  by (simp add: settled_def slots_placed_def slot_view_def one_connection_def empty_sock_def HASH_ID_def)

lemma shut_first:
  "\<exists>s1. poll_pass two_bytes (send_request one_connection (Req_K 7 True 0)) True = Inr (s1, True, Some SOCKET_CLOSE)
    \<and> srv_result s1 = \<lparr>pr_id = 7, pr_opaque = 0, pr_ud = 0, pr_data = NoData\<rparr> \<and> srv_pipe s1 = [] \<and> srv_checkctrl s1
    \<and> so_type (srv_slot s1 7) = SOCKET_TYPE_INVALID"
  by (simp add: poll_pass_def send_request_def one_connection_def has_cmd_def ctrl_cmd_def close_socket_def HASH_ID_def socket_invalid_def
    empty_sock_def force_close_def sock_result_def put_result_def c_assert_def socket_lock_def socket_unlock_def set_type_def halfclose_read_def
    clear_closed_event_def Let_def sysdo_def sysc_def socket_events)

theorem socket_close_once_witness:
  "\<exists>evs ss. srv_run two_bytes 7 one_connection evs ss \<and> srv_pipe ss = [Req_K 7 True 0] \<and> length evs = 1 \<and> closes 7 evs = 1"
proof -
  obtain s1 where s1: "poll_pass two_bytes (send_request one_connection (Req_K 7 True 0)) True = Inr (s1, True, Some SOCKET_CLOSE)"
    "srv_result s1 = \<lparr>pr_id = 7, pr_opaque = 0, pr_ud = 0, pr_data = NoData\<rparr>" "srv_pipe s1 = []" using shut_first by blast
  let ?evs = "(([] @ []) @ [(SOCKET_CLOSE, srv_result s1)]) @ []"
  have "srv_run two_bytes 7 one_connection ([] @ []) (send_request one_connection (Req_K 7 True 0))"
    by (rule srv_run.step [OF srv_run.start srv_step.ask]) simp
  then have "srv_run two_bytes 7 one_connection (([] @ []) @ [(SOCKET_CLOSE, srv_result s1)]) s1"
    by (rule srv_run.step) (use srv_step.poll [OF s1(1), of 7] in \<open>simp add: socket_events\<close>)
  then have run: "srv_run two_bytes 7 one_connection ?evs (send_request s1 (Req_K 7 True 0))"
    by (rule srv_run.step) (rule srv_step.ask, simp)
  have "closes 7 ?evs \<le> 1" using socket_close_once [OF one_connection_settled run] by blast
  moreover have "closes 7 ?evs \<noteq> 0" by (simp add: closes_def s1(2))
  ultimately show ?thesis using run s1(3) by (intro exI [of _ ?evs] exI [of _ "send_request s1 (Req_K 7 True 0)"]) (simp add: send_request_def)
qed

text \<open>The codes alone need no assumption on the ids.\<close>

lemma poll_pass_code:
  assumes "poll_pass E ss more_flag = Inr (ss', more_flag', Some t)"
  shows "t \<in> {0..7}"
proof -
  have "finite {sid. \<exists>q \<in> set (srv_pipe ss). opens sid q}"
  proof (rule finite_subset)
    show "{sid. \<exists>q \<in> set (srv_pipe ss). opens sid q} \<subseteq> (\<Union>q \<in> set (srv_pipe ss). {sid. opens sid q})" by blast
    have "finite {sid. opens sid q}" for q by (cases q) auto
    then show "finite (\<Union>q \<in> set (srv_pipe ss). {sid. opens sid q})" by simp
  qed
  then have "finite (insert (pr_ud (srv_result ss')) {sid. \<exists>q \<in> set (srv_pipe ss). opens sid q})" by simp
  then obtain sid where "sid \<notin> insert (pr_ud (srv_result ss')) {sid. \<exists>q \<in> set (srv_pipe ss). opens sid q}"
    using ex_new_if_finite [OF infinite_UNIV_int] by blast
  then show ?thesis using poll_pass_reports [OF assms, of sid] by (auto simp: reports_def)
qed

text \<open>
  The codes of the socket server. A call of \<open>socket_server_poll\<close> that returns gives one of the codes
  from \<open>SOCKET_DATA\<close> to \<open>SOCKET_WARNING\<close>: the codes \<open>SOCKET_RST\<close> and \<open>SOCKET_MORE\<close> and the \<open>-1\<close> of the
  functions below it never come out.
\<close>

theorem socket_poll_codes:
  assumes "socket_server_poll E ss more_flag = Some (Inr (ss', more_flag', t))"
  shows "t \<in> {SOCKET_DATA, SOCKET_CLOSE, SOCKET_OPEN, SOCKET_ACCEPT, SOCKET_ERR, SOCKET_EXIT, SOCKET_UDP, SOCKET_WARNING}"
proof -
  have "\<forall>z. r = Inr z \<longrightarrow> snd (snd z) \<in> {0..7}" if "socket_server_poll E ss more_flag = Some r" for r
  proof (rule socket_server_poll.raw_induct [where P = "\<lambda>E ss m r. \<forall>z. r = Inr z \<longrightarrow> snd (snd z) \<in> {0..7}", OF _ that])
    fix f E ss m r
    assume IH: "\<And>E ss m r. f E ss m = Some r \<Longrightarrow> \<forall>z. r = Inr z \<longrightarrow> snd (snd z) \<in> {0..7}"
      and "(case poll_pass E ss m of Inl e \<Rightarrow> Some (Inl e) | Inr (ss, m, Some t) \<Rightarrow> Some (Inr (ss, m, t)) | Inr (ss, m, None) \<Rightarrow> f E ss m) = Some r"
    then show "\<forall>z. r = Inr z \<longrightarrow> snd (snd z) \<in> {0..7}" using poll_pass_code [of E ss m]
      by (auto split: sum.splits prod.splits option.splits dest!: IH)
  qed
  from this [OF assms] show ?thesis by (auto simp: socket_events)
qed

theorem socket_poll_codes_witness:
  "\<exists>ss'. socket_server_poll two_bytes (send_request one_connection (Req_K 7 True 0)) True = Some (Inr (ss', True, SOCKET_CLOSE))
    \<and> SOCKET_CLOSE \<in> {SOCKET_DATA, SOCKET_CLOSE, SOCKET_OPEN, SOCKET_ACCEPT, SOCKET_ERR, SOCKET_EXIT, SOCKET_UDP, SOCKET_WARNING}"
proof -
  obtain s1 where "poll_pass two_bytes (send_request one_connection (Req_K 7 True 0)) True = Inr (s1, True, Some SOCKET_CLOSE)" using shut_first by blast
  then have "socket_server_poll two_bytes (send_request one_connection (Req_K 7 True 0)) True = Some (Inr (s1, True, SOCKET_CLOSE))"
    by (subst socket_server_poll.simps) simp
  from this socket_poll_codes [OF this] show ?thesis by blast
qed

end
