(* ===== verification/Sky_Socket_Faults.thy ===== *)
theory Sky_Socket_Faults
  imports Sky_Socket_Close
begin

text \<open>
  Faults of the socket server that modelling it shows.
\<close>

section \<open>Sending before the connection is open\<close>

lemma new_fd_fields:
  assumes "new_fd E ss sid fd protocol op rd = Inr (ss', Some i)"
  shows "i = HASH_ID sid" "so_id (srv_slot ss' i) = sid" "so_protocol (srv_slot ss' i) = protocol" "so_sending (srv_slot ss' i) = ID_TAG16 sid * 65536"
    "\<not> so_closing (srv_slot ss' i)" "so_high (srv_slot ss' i) = []" "so_low (srv_slot ss' i) = []" "srv_pipe ss' = srv_pipe ss"
proof -
  show pipe: "i = HASH_ID sid" "srv_pipe ss' = srv_pipe ss" using new_fd_view [OF assms] by auto
  have e: "so_id (srv_slot (fst (enable_read E z j en)) j) = so_id (srv_slot z j)" "so_protocol (srv_slot (fst (enable_read E z j en)) j) = so_protocol (srv_slot z j)"
    "so_sending (srv_slot (fst (enable_read E z j en)) j) = so_sending (srv_slot z j)" "so_closing (srv_slot (fst (enable_read E z j en)) j) = so_closing (srv_slot z j)"
    "so_high (srv_slot (fst (enable_read E z j en)) j) = so_high (srv_slot z j)" "so_low (srv_slot (fst (enable_read E z j en)) j) = so_low (srv_slot z j)" for z j en
    by (simp_all add: enable_read_def Let_def sysc_traced)
  show "so_id (srv_slot ss' i) = sid" "so_protocol (srv_slot ss' i) = protocol" "so_sending (srv_slot ss' i) = ID_TAG16 sid * 65536"
    "\<not> so_closing (srv_slot ss' i)" "so_high (srv_slot ss' i) = []" "so_low (srv_slot ss' i) = []"
    using assms pipe(1) by (auto simp: new_fd_def Let_def case_prod_beta cbind_Inr_iff c_assert_def sysc_traced e split: if_splits)
qed

text \<open>A connection that \<open>open_socket\<close> has opened, with nothing to send.\<close>

definition just_opened :: "int \<Rightarrow> server \<Rightarrow> bool" where
  "just_opened sid ss \<longleftrightarrow> (let s = srv_slot ss (HASH_ID sid) in so_id s = sid \<and> so_protocol s = PROTOCOL_TCP \<and> so_sending s = ID_TAG16 sid * 65536
     \<and> \<not> so_closing s \<and> so_high s = [] \<and> so_low s = [] \<and> so_type s \<in> {SOCKET_TYPE_CONNECTED, SOCKET_TYPE_CONNECTING})"

lemma enable_write_slot: "\<exists>w. srv_slot (fst (enable_write E ss i en)) i = (srv_slot ss i)\<lparr>so_writing := w\<rparr>"
  using enable_write_traced [of E ss i en] by auto

lemma open_socket_opens:
  assumes "open_socket E ss sid port op host = Inr (ss', t)" "t \<noteq> SOCKET_ERR"
  shows "just_opened sid ss' \<and> srv_pipe ss' = srv_pipe ss"
proof -
  let ?a = "sysc E (put_result ss sid op 0 NoData) (Sys_getaddrinfo host port True)"
  let ?c = "connect_loop E (fst ?a) (an_addrs (snd ?a))"
  have pipe: "srv_pipe (fst ?c) = srv_pipe ss" using connect_loop_view [of "fst ?a" E "an_addrs (snd ?a)"] by (simp add: same_view_def)
  have ok: "an_ret (snd ?a) = 0" "snd ?c \<noteq> None"
    using assms by (cases "snd ?c"; auto simp: open_socket_def Let_def case_prod_beta open_failed_def split: if_splits)+
  then obtain fd status ai where c: "snd ?c = Some (fd, status, ai)" by (cases "snd ?c") auto
  then obtain s1 r where s1: "new_fd E (fst ?c) sid fd PROTOCOL_TCP op True = Inr (s1, r)"
    using assms(1) ok by (auto simp: open_socket_def Let_def case_prod_beta cbind_Inr_iff)
  then obtain i where r: "r = Some i" using assms ok c by (cases r) (auto simp: open_socket_def Let_def case_prod_beta open_failed_def)
  note f = new_fd_fields [OF s1 [unfolded r]]
  let ?e = "enable_write E s1 i True"
  have pe: "srv_pipe (fst ?e) = srv_pipe s1" by simp
  show ?thesis using assms ok c s1 r f pipe pe enable_write_slot [of E s1 i True]
    by (auto simp: open_socket_def Let_def case_prod_beta open_failed_def just_opened_def set_type_def split: if_splits)
qed

lemma send_just_opened:
  assumes "just_opened sid ss"
  shows "\<exists>ss' t. send_socket E ss sid len p True None = Inr (ss', t) \<and> so_id (srv_slot ss' (HASH_ID sid)) = sid
    \<and> so_protocol (srv_slot ss' (HASH_ID sid)) = PROTOCOL_TCP \<and> so_sending (srv_slot ss' (HASH_ID sid)) = ID_TAG16 sid * 65536"
proof -
  let ?i = "HASH_ID sid"
  let ?a = "append_sendbuffer E ss ?i True len p []"
  have a: "so_id (srv_slot ?a ?i) = sid" "so_protocol (srv_slot ?a ?i) = PROTOCOL_TCP" "so_sending (srv_slot ?a ?i) = ID_TAG16 sid * 65536"
    using assms by (auto simp: append_sendbuffer_def just_opened_def Let_def case_prod_beta set_list_def)
  have w: "so_id (srv_slot (fst (warn_size z ?i)) ?i) = so_id (srv_slot z ?i)" "so_protocol (srv_slot (fst (warn_size z ?i)) ?i) = so_protocol (srv_slot z ?i)"
    "so_sending (srv_slot (fst (warn_size z ?i)) ?i) = so_sending (srv_slot z ?i)" for z
    by (auto simp: warn_size_def Let_def)
  let ?e = "enable_write E ?a ?i True"
  have run: "send_socket E ss sid len p True None = Inr (if snd ?e then report_error (fst ?e) ?i ''enable write failed'' else warn_size (fst ?e) ?i)"
    using assms by (auto simp: send_socket_def just_opened_def Let_def send_buffer_empty_def case_prod_beta)
  then show ?thesis using a w [of "fst ?e"] enable_write_slot [of E ?a ?i True]
    by (cases "warn_size (fst ?e) ?i") (auto simp: report_error_def)
qed

lemma reserve_loop_slot:
  "reserve_loop k ss = (ss', sid) \<Longrightarrow> 0 \<le> sid \<Longrightarrow> srv_slot ss' (HASH_ID sid) = reserved (srv_slot ss (HASH_ID sid)) sid \<and> srv_pipe ss' = srv_pipe ss"
  by (induction k arbitrary: ss) (auto simp: Let_def reserved_def split: if_splits)

text \<open>
  C26. Sending before the connection is open. \<open>socket_server_connect\<close> returns the id before the socket
  thread has opened the socket, and \<open>socket_server_send\<close> accepts it: the request is left in the pipe,
  uncounted, because the protocol of a reserved slot is unknown. When the socket thread has opened the
  connection, taking the request fails the assertion of \<open>dec_sending_ref\<close> and aborts the node.
\<close>

theorem send_before_open_aborts:
  assumes "socket_server_connect ss opaque addr port = (s1, sid)" "0 \<le> sid" "srv_pipe ss = []"
    "\<not> so_closing (srv_slot ss (HASH_ID sid))" "sb_id buf = sid" "sb_type buf = SOCKET_BUFFER_MEMORY"
  shows "\<exists>s2. socket_server_send E s1 buf = Inr (s2, 0)
    \<and> (\<forall>s3 t. ctrl_cmd E s2 = Inr (s3, t) \<and> t \<noteq> SOCKET_ERR \<longrightarrow> ctrl_cmd E s3 = Inl AssertFail)"
proof -
  let ?i = "HASH_ID sid"
  have long: "\<not> length addr + 24 \<ge> 256" using assms(1,2) by (auto simp: socket_server_connect_def open_request_def split: if_splits)
  obtain z where z: "reserve_loop MAX_SOCKET ss = (z, sid)" "s1 = send_request z (Req_O sid port opaque addr)"
    using assms(1,2) long by (auto simp: socket_server_connect_def open_request_def reserve_id_def split: prod.splits if_splits)
  note f = reserve_loop_slot [OF z(1) assms(2)]
  let ?s2 = "send_request s1 (Req_D sid (sb_sz buf) (sb_buffer buf))"
  have send: "socket_server_send E s1 buf = Inr (?s2, 0)"
    using assms(4-6) z(2) f by (simp add: socket_server_send_def send_request_def socket_invalid_def can_direct_write_def Let_def
      send_by_request_def inc_sending_ref_def clone_buffer_def reserved_def PROTOCOL_TCP_def PROTOCOL_UNKNOWN_def)
  have pipe: "srv_pipe ?s2 = [Req_O sid port opaque addr, Req_D sid (sb_sz buf) (sb_buffer buf)]"
    using z(2) f assms(3) by (simp add: send_request_def)
  have "ctrl_cmd E s3 = Inl AssertFail" if "ctrl_cmd E ?s2 = Inr (s3, t)" "t \<noteq> SOCKET_ERR" for s3 t
  proof -
    have "open_socket E (?s2\<lparr>srv_pipe := [Req_D sid (sb_sz buf) (sb_buffer buf)]\<rparr>) sid port opaque addr = Inr (s3, t)"
      using that(1) pipe by (simp add: ctrl_cmd_def)
    from open_socket_opens [OF this that(2)] have o3: "just_opened sid s3" "srv_pipe s3 = [Req_D sid (sb_sz buf) (sb_buffer buf)]" by simp_all
    have "just_opened sid (s3\<lparr>srv_pipe := []\<rparr>)" using o3(1) by (simp add: just_opened_def)
    from send_just_opened [OF this, of E "sb_sz buf" "sb_buffer buf"] show ?thesis using o3(2)
      by (auto simp: ctrl_cmd_def send_request_cmd_def dec_sending_ref_def Let_def)
  qed
  then show ?thesis using send by blast
qed

definition one_address :: sockenv where
  "one_address = two_bytes\<lparr>en_os := (\<lambda>tr c. (en_os two_bytes tr c)\<lparr>an_addrs := [\<lparr>sa_family = AF_INET, sa_port = [0, 80], sa_bytes = [127, 0, 0, 1]\<rparr>]\<rparr>)\<rparr>"

lemma one_address_os:
  "en_os one_address tr c = \<lparr>an_ret = (case c of Sys_write fd bs \<Rightarrow> min 2 (int (length bs)) | _ \<Rightarrow> 0), an_errno = EAGAIN, an_bytes = [],
    an_addrs = [\<lparr>sa_family = AF_INET, sa_port = [0, 80], sa_bytes = [127, 0, 0, 1]\<rparr>], an_so_error = None, an_events = [], an_text = []\<rparr>"
  by (simp add: one_address_def two_bytes_os)

lemma one_address_connects:
  "\<exists>s1. socket_server_connect one_connection 0 ''host'' 80 = (s1, 1) \<and> srv_pipe s1 = [Req_O 1 80 0 ''host'']
    \<and> srv_slot s1 1 = reserved empty_sock 1"
proof -
  have max: "MAX_SOCKET = Suc 65535" by (simp add: MAX_SOCKET_def)
  show ?thesis unfolding socket_server_connect_def open_request_def reserve_id_def max reserve_loop.simps
    by (simp add: one_connection_def HASH_ID_def empty_sock_def to_int_def send_request_def reserved_def Let_def)
qed

lemma one_address_opens:
  assumes "srv_slot ss 1 = reserved empty_sock 1"
  shows "\<exists>ss'. open_socket one_address ss 1 80 0 ''host'' = Inr (ss', SOCKET_OPEN)"
  using assms by (simp add: open_socket_def Let_def case_prod_beta sysc_def one_address_os new_fd_def HASH_ID_def reserved_def empty_sock_def
    c_assert_def enable_read_def put_result_def)

theorem send_before_open_aborts_witness:
  "\<exists>s1 s2 s3. socket_server_connect one_connection 0 ''host'' 80 = (s1, 1)
    \<and> socket_server_send one_address s1 \<lparr>sb_id = 1, sb_type = SOCKET_BUFFER_MEMORY, sb_buffer = 1, sb_sz = 3\<rparr> = Inr (s2, 0)
    \<and> ctrl_cmd one_address s2 = Inr (s3, SOCKET_OPEN) \<and> ctrl_cmd one_address s3 = Inl AssertFail"
proof -
  let ?buf = "\<lparr>sb_id = 1, sb_type = SOCKET_BUFFER_MEMORY, sb_buffer = 1, sb_sz = 3\<rparr>"
  obtain s1 where s1: "socket_server_connect one_connection 0 ''host'' 80 = (s1, 1)" "srv_pipe s1 = [Req_O 1 80 0 ''host'']"
    "srv_slot s1 1 = reserved empty_sock 1" using one_address_connects by blast
  have id: "HASH_ID 1 = 1" by (simp add: HASH_ID_def)
  obtain s2 where s2: "socket_server_send one_address s1 ?buf = Inr (s2, 0)"
    "\<forall>s3 t. ctrl_cmd one_address s2 = Inr (s3, t) \<and> t \<noteq> SOCKET_ERR \<longrightarrow> ctrl_cmd one_address s3 = Inl AssertFail"
    using send_before_open_aborts [OF s1(1), of ?buf one_address] by (auto simp: one_connection_def HASH_ID_def empty_sock_def)
  have "s2 = send_request s1 (Req_D 1 3 1)"
    using s2(1) s1(3) by (simp add: socket_server_send_def id socket_invalid_def can_direct_write_def Let_def send_by_request_def
      inc_sending_ref_def clone_buffer_def reserved_def empty_sock_def PROTOCOL_TCP_def PROTOCOL_UNKNOWN_def)
  then obtain s3 where "ctrl_cmd one_address s2 = Inr (s3, SOCKET_OPEN)"
    using one_address_opens [of "s2\<lparr>srv_pipe := [Req_D 1 3 1]\<rparr>"] s1(2,3) by (auto simp: ctrl_cmd_def send_request_def)
  moreover from this have "ctrl_cmd one_address s3 = Inl AssertFail" using s2(2) by (auto simp: socket_events)
  ultimately show ?thesis using s1(1) s2(1) by blast
qed

section \<open>User objects of low priority\<close>

lemma only_request: "srv_pipe ss = [] \<Longrightarrow> ctrl_cmd E (send_request ss q) = ctrl_request E ss q"
  by (cases ss) (simp add: ctrl_cmd_def send_request_def)

text \<open>
  A user object sent with low priority behind other data aborts the node: its data is not at the
  address of the object, so that \<open>list_uncomplete\<close> takes it for a buffer sent in part, and the assertion
  at the start of \<open>send_buffer_\<close> fails when the socket thread sends next.
\<close>

theorem low_object_aborts:
  assumes "so_type (srv_slot ss (HASH_ID sid)) = SOCKET_TYPE_CONNECTED" "so_id (srv_slot ss (HASH_ID sid)) = sid" "\<not> so_closing (srv_slot ss (HASH_ID sid))"
    "so_protocol (srv_slot ss (HASH_ID sid)) = PROTOCOL_TCP" "\<not> send_buffer_empty (srv_slot ss (HASH_ID sid))" "so_low (srv_slot ss (HASH_ID sid)) = []"
    "so_sending (srv_slot ss (HASH_ID sid)) = ID_TAG16 sid * 65536" "\<not> so_lock (srv_slot ss (HASH_ID sid))" "srv_pipe ss = []"
    "sb_id buf = sid" "sb_type buf = SOCKET_BUFFER_OBJECT" "en_soi_buffer E (sb_buffer buf) \<noteq> (sb_buffer buf, 0)"
  shows "\<exists>s1 s2 t. socket_server_send_lowpriority E ss buf = Inr (s1, 0) \<and> ctrl_cmd E s1 = Inr (s2, t)
    \<and> send_buffer E (HASH_ID sid) 0 s2 = Inl AssertFail"
proof -
  let ?i = "HASH_ID sid" and ?s = "srv_slot ss (HASH_ID sid)"
  let ?s1 = "send_request (set_sock ss ?i (?s\<lparr>so_sending := so_sending ?s + 1\<rparr>)) (Req_P sid USEROBJECT (sb_buffer buf))"
  have send: "socket_server_send_lowpriority E ss buf = Inr (?s1, 0)"
    using assms by (simp add: socket_server_send_lowpriority_def socket_invalid_def send_by_request_def inc_sending_ref_def clone_buffer_def Let_def)
  let ?z = "set_sock ss ?i (?s\<lparr>so_sending := so_sending ?s + 1\<rparr>)"
  let ?a = "append_sendbuffer E ?z ?i False USEROBJECT (sb_buffer buf) []"
  let ?w = "fst (warn_size ?a ?i)"
  have run: "send_socket E ?z sid USEROBJECT (sb_buffer buf) False None = Inr (warn_size ?a ?i)"
    using assms by (simp add: send_socket_def Let_def send_buffer_empty_def)
  have w: "so_id (srv_slot ?w ?i) = sid" "so_protocol (srv_slot ?w ?i) = PROTOCOL_TCP" "so_sending (srv_slot ?w ?i) = ID_TAG16 sid * 65536 + 1"
    "list_uncomplete (so_low (srv_slot ?w ?i))" "\<not> so_lock (srv_slot ?w ?i)"
    using assms by (auto simp: warn_size_def append_sendbuffer_def Let_def send_object_init_def set_list_def wb_list_def list_uncomplete_def)
  let ?s2 = "set_sock ?w ?i ((srv_slot ?w ?i)\<lparr>so_sending := so_sending (srv_slot ?w ?i) - 1\<rparr>)"
  have pipe: "ctrl_cmd E ?s1 = send_request_cmd E ?z sid USEROBJECT (sb_buffer buf) False"
    using only_request [of ?z] assms(9) by simp
  have "ctrl_cmd E ?s1 = Inr (?s2, snd (warn_size ?a ?i))"
    unfolding pipe send_request_cmd_def run using w by (cases "warn_size ?a ?i") (simp add: dec_sending_ref_def Let_def mod_Suc)
  moreover have "list_uncomplete (so_low (srv_slot (take_direct E (set_sock ?s2 ?i ((srv_slot ?s2 ?i)\<lparr>so_lock := True\<rparr>)) ?i) ?i))"
    using w(4) by (auto simp: take_direct_def Let_def case_prod_beta)
  then have "send_buffer E ?i 0 ?s2 = Inl AssertFail"
    using w(5) by (simp add: send_buffer_def socket_trylock_def send_buffer_locked_def)
  ultimately show ?thesis using send by blast
qed

theorem low_object_aborts_witness:
  "\<exists>ss s1 s2 t. socket_server_send_lowpriority (two_bytes\<lparr>en_soi_buffer := (\<lambda>p. (Suc p, 0))\<rparr>) ss \<lparr>sb_id = 7, sb_type = SOCKET_BUFFER_OBJECT, sb_buffer = 1, sb_sz = 0\<rparr> = Inr (s1, 0)
    \<and> ctrl_cmd (two_bytes\<lparr>en_soi_buffer := (\<lambda>p. (Suc p, 0))\<rparr>) s1 = Inr (s2, t)
    \<and> send_buffer (two_bytes\<lparr>en_soi_buffer := (\<lambda>p. (Suc p, 0))\<rparr>) 7 0 s2 = Inl AssertFail"
proof -
  let ?ss = "set_sock one_connection 7 ((srv_slot one_connection 7)\<lparr>so_high := [mem_wb 1 3], so_wb_size := 3\<rparr>)"
  have id: "HASH_ID 7 = 7" by (simp add: HASH_ID_def)
  show ?thesis
    using low_object_aborts [of ?ss 7 "\<lparr>sb_id = 7, sb_type = SOCKET_BUFFER_OBJECT, sb_buffer = 1, sb_sz = 0\<rparr>" "two_bytes\<lparr>en_soi_buffer := (\<lambda>p. (Suc p, 0))\<rparr>"]
    by (simp add: id one_connection_slot empty_sock_def send_buffer_empty_def ID_TAG16_def) blast
qed

section \<open>Addresses of datagrams\<close>

text \<open>
  Addresses of datagrams. The bytes \<open>gen_udp_address\<close> makes of an address give the address back when
  \<open>udp_socket_address\<close> reads them for a socket of the same protocol, also after they were copied over the
  address a socket had before; for a socket of the other protocol they give none.
\<close>

theorem udp_address_roundtrip:
  assumes "sa_family sa = AF_INET \<and> protocol = PROTOCOL_UDP \<and> length (sa_bytes sa) = 4
      \<or> sa_family sa = AF_INET6 \<and> protocol = PROTOCOL_UDPv6 \<and> length (sa_bytes sa) = 16"
    "length (sa_port sa) = 2"
  shows "udp_socket_address s (gen_udp_address protocol sa) = (if so_protocol s = protocol then Some sa else None)
    \<and> udp_socket_address s (copy_addr (gen_udp_address protocol sa) old) = (if so_protocol s = protocol then Some sa else None)"
  using assms by (cases sa) (auto simp: udp_socket_address_def gen_udp_address_def copy_addr_def addr_len_def PROTOCOL_UDP_def PROTOCOL_UDPv6_def)

theorem udp_address_roundtrip_witness:
  "udp_socket_address (empty_sock\<lparr>so_protocol := PROTOCOL_UDP\<rparr>)
     (copy_addr (gen_udp_address PROTOCOL_UDP \<lparr>sa_family = AF_INET, sa_port = [0, 80], sa_bytes = [127, 0, 0, 1]\<rparr>) (replicate 19 9))
   = Some \<lparr>sa_family = AF_INET, sa_port = [0, 80], sa_bytes = [127, 0, 0, 1]\<rparr>"
  using udp_address_roundtrip [of "\<lparr>sa_family = AF_INET, sa_port = [0, 80], sa_bytes = [127, 0, 0, 1]\<rparr>" PROTOCOL_UDP
    "empty_sock\<lparr>so_protocol := PROTOCOL_UDP\<rparr>" "replicate 19 9"] by simp

end
