(* ===== verification/Sky_Malloc.thy ===== *)
theory Sky_Malloc
  imports Sky_Prelude
begin

text \<open>
  Model of \<^verbatim>\<open>skynet-src/malloc_hook.c\<close> and \<^verbatim>\<open>skynet-src/mem_info.c\<close>: the prefix in front of every block of
  \<open>skynet_malloc\<close> and the memory statistics of the services. The allocator below, jemalloc, is a
  parameter; the model is that of the build with jemalloc and without \<open>MEMORY_CHECK\<close>.
\<close>

section \<open>Statistics\<close>

record mem_info =
  mi_alloc :: u64
  mi_alloc_count :: u64
  mi_free :: u64
  mi_free_count :: u64

definition meminfo_init :: mem_info where
  "meminfo_init = \<lparr>mi_alloc = 0, mi_alloc_count = 0, mi_free = 0, mi_free_count = 0\<rparr>"

definition meminfo_alloc :: "mem_info \<Rightarrow> u64 \<Rightarrow> mem_info" where
  "meminfo_alloc i n = i\<lparr>mi_alloc := mi_alloc i + n, mi_alloc_count := mi_alloc_count i + 1\<rparr>"

definition meminfo_free :: "mem_info \<Rightarrow> u64 \<Rightarrow> mem_info" where
  "meminfo_free i n = i\<lparr>mi_free := mi_free i + n, mi_free_count := mi_free_count i + 1\<rparr>"

definition meminfo_merge :: "mem_info \<Rightarrow> mem_info \<Rightarrow> mem_info" where
  "meminfo_merge d s = \<lparr>mi_alloc = mi_alloc d + mi_alloc s, mi_alloc_count = mi_alloc_count d + mi_alloc_count s,
     mi_free = mi_free d + mi_free s, mi_free_count = mi_free_count d + mi_free_count s\<rparr>"

text \<open>
  The counters of a service are atomic one by one: \<open>atomic_meminfo_alloc\<close> and
  \<open>atomic_meminfo_free\<close> are two steps each, between which other threads run.
\<close>

datatype stat_op = AddAlloc u64 | AddAllocCount | AddFree u64 | AddFreeCount

fun stat_apply :: "stat_op \<Rightarrow> mem_info \<Rightarrow> mem_info" where
  "stat_apply (AddAlloc n) i = i\<lparr>mi_alloc := mi_alloc i + n\<rparr>"
| "stat_apply AddAllocCount i = i\<lparr>mi_alloc_count := mi_alloc_count i + 1\<rparr>"
| "stat_apply (AddFree n) i = i\<lparr>mi_free := mi_free i + n\<rparr>"
| "stat_apply AddFreeCount i = i\<lparr>mi_free_count := mi_free_count i + 1\<rparr>"

definition atomic_meminfo_alloc :: "u64 \<Rightarrow> stat_op list" where
  "atomic_meminfo_alloc n = [AddAlloc n, AddAllocCount]"

definition atomic_meminfo_free :: "u64 \<Rightarrow> stat_op list" where
  "atomic_meminfo_free n = [AddFree n, AddFreeCount]"

text \<open>The loads of \<open>atomic_meminfo_merge\<close>, in their order, from the shared counters \<open>s\<close> into the local ones.\<close>

definition merge_loads :: "(mem_info \<Rightarrow> mem_info \<Rightarrow> mem_info) list" where
  "merge_loads =
     [\<lambda>s l. l\<lparr>mi_free_count := mi_free_count s\<rparr>,
      \<lambda>s l. l\<lparr>mi_free := mi_free s\<rparr>,
      \<lambda>s l. l\<lparr>mi_alloc_count := mi_alloc_count s\<rparr>,
      \<lambda>s l. l\<lparr>mi_alloc := mi_alloc s\<rparr>]"

definition atomic_meminfo_merge :: "mem_info \<Rightarrow> mem_info \<Rightarrow> mem_info" where
  "atomic_meminfo_merge d s = meminfo_merge d (fold (\<lambda>load. load s) merge_loads meminfo_init)"

record mem_data =
  md_handle :: u32
  md_info :: mem_info

definition SLOT_SIZE :: nat where "SLOT_SIZE = 0x10000"

definition PREFIX_SIZE :: nat where "PREFIX_SIZE = 16"

text \<open>The blocks of the allocator by their address, and the table \<open>mem_stats\<close>.\<close>

record heap =
  hp_mem :: "nat \<Rightarrow> u8 list option"
  hp_stat :: "nat \<Rightarrow> mem_data"

definition get_mem_stat :: "u32 \<Rightarrow> nat" where
  "get_mem_stat handle = unat (handle AND 0xffff)"

definition update_xmalloc_stat_alloc :: "heap \<Rightarrow> u32 \<Rightarrow> u64 \<Rightarrow> heap" where
  "update_xmalloc_stat_alloc hp handle n =
     hp\<lparr>hp_stat := (hp_stat hp)(get_mem_stat handle :=
       \<lparr>md_handle = handle, md_info = meminfo_alloc (md_info (hp_stat hp (get_mem_stat handle))) n\<rparr>)\<rparr>"

definition update_xmalloc_stat_free :: "heap \<Rightarrow> u32 \<Rightarrow> u64 \<Rightarrow> heap" where
  "update_xmalloc_stat_free hp handle n =
     hp\<lparr>hp_stat := (hp_stat hp)(get_mem_stat handle :=
       (hp_stat hp (get_mem_stat handle))\<lparr>md_info := meminfo_free (md_info (hp_stat hp (get_mem_stat handle))) n\<rparr>)\<rparr>"

section \<open>Bytes of a block\<close>

text \<open>Numbers are stored with the low byte first.\<close>

fun le_bytes :: "nat \<Rightarrow> nat \<Rightarrow> u8 list" where
  "le_bytes 0 v = []"
| "le_bytes (Suc n) v = of_nat (v mod 256) # le_bytes n (v div 256)"

fun le_value :: "u8 list \<Rightarrow> nat" where
  "le_value [] = 0"
| "le_value (b # bs) = unat b + 256 * le_value bs"

text \<open>A write and a read of bytes at an offset of a block, which may be negative.\<close>

definition poke :: "(nat \<Rightarrow> u8 list option) \<Rightarrow> nat \<Rightarrow> int \<Rightarrow> u8 list \<Rightarrow> (nat \<Rightarrow> u8 list option) res" where
  "poke mem b off bs =
     cbind (deref mem b) (\<lambda>blk.
     if 0 \<le> off \<and> nat off + length bs \<le> length blk
     then Inr (mem(b \<mapsto> take (nat off) blk @ bs @ drop (nat off + length bs) blk)) else Inl OutOfBounds)"

definition peek :: "(nat \<Rightarrow> u8 list option) \<Rightarrow> nat \<Rightarrow> int \<Rightarrow> nat \<Rightarrow> nat res" where
  "peek mem b off n =
     cbind (deref mem b) (\<lambda>blk.
     if 0 \<le> off \<and> nat off + n \<le> length blk then Inr (le_value (take n (drop (nat off) blk))) else Inl OutOfBounds)"

section \<open>The prefix\<close>

text \<open>
  A pointer is a block with an offset. \<open>handle\<close> is the result of \<open>skynet_current_handle\<close>. The fields
  \<open>size\<close> and \<open>handle\<close> are at the start of the block, the size of the cookie is in front of the pointer.
\<close>

type_synonym hptr = "nat \<times> int"

definition fill_prefix :: "u32 \<Rightarrow> heap \<Rightarrow> nat \<Rightarrow> u64 \<Rightarrow> u32 \<Rightarrow> (heap \<times> hptr) res" where
  "fill_prefix handle hp b sz cookie_size =
     (let sz = sz + ucast cookie_size in
      cbind (poke (hp_mem hp) b 0 (le_bytes 8 (unat sz))) (\<lambda>mem.
      cbind (poke mem b 8 (le_bytes 4 (unat handle))) (\<lambda>mem.
      let hp = update_xmalloc_stat_alloc hp handle sz in
      cbind (poke mem b (uint cookie_size - 4) (le_bytes 4 (unat cookie_size))) (\<lambda>mem.
      Inr (hp\<lparr>hp_mem := mem\<rparr>, (b, uint cookie_size))))))"

definition get_cookie_size :: "heap \<Rightarrow> hptr \<Rightarrow> u32 res" where
  "get_cookie_size hp p = cbind (peek (hp_mem hp) (fst p) (snd p - 4) 4) (\<lambda>n. Inr (of_nat n))"

definition clean_prefix :: "heap \<Rightarrow> hptr \<Rightarrow> (heap \<times> hptr) res" where
  "clean_prefix hp p =
     cbind (get_cookie_size hp p) (\<lambda>cookie_size.
     let off = snd p - uint cookie_size in
     cbind (peek (hp_mem hp) (fst p) (off + 8) 4) (\<lambda>handle.
     cbind (peek (hp_mem hp) (fst p) off 8) (\<lambda>sz.
     Inr (update_xmalloc_stat_free hp (of_nat handle) (of_nat sz), (fst p, off)))))"

section \<open>The hooks\<close>

text \<open>
  The allocator: the address with the first contents of a new block, given the blocks there are and
  the size; \<open>None\<close> is out of memory, on which the hooks abort.
\<close>

record allocator =
  je_malloc :: "(nat \<Rightarrow> u8 list option) \<Rightarrow> nat \<Rightarrow> (nat \<times> u8 list) option"
  je_calloc :: "(nat \<Rightarrow> u8 list option) \<Rightarrow> nat \<Rightarrow> nat \<Rightarrow> (nat \<times> u8 list) option"
  je_realloc :: "(nat \<Rightarrow> u8 list option) \<Rightarrow> nat \<Rightarrow> nat \<Rightarrow> (nat \<times> u8 list) option"
  je_memalign :: "(nat \<Rightarrow> u8 list option) \<Rightarrow> nat \<Rightarrow> nat \<Rightarrow> (nat \<times> u8 list) option"

text \<open>A new block, or the end of the process (\<open>malloc_oom\<close>).\<close>

definition new_block :: "heap \<Rightarrow> (nat \<times> u8 list) option \<Rightarrow> (heap \<times> nat) res" where
  "new_block hp r = (case r of None \<Rightarrow> Inl Exits | Some (b, bs) \<Rightarrow> Inr (hp\<lparr>hp_mem := (hp_mem hp)(b \<mapsto> bs)\<rparr>, b))"

definition je_free :: "heap \<Rightarrow> hptr \<Rightarrow> heap res" where
  "je_free hp p =
     cbind (deref (hp_mem hp) (fst p)) (\<lambda>_.
     if snd p = 0 then Inr (hp\<lparr>hp_mem := (hp_mem hp)(fst p := None)\<rparr>) else Inl UseAfterFree)"

definition skynet_malloc_hook :: "allocator \<Rightarrow> u32 \<Rightarrow> heap \<Rightarrow> u64 \<Rightarrow> (heap \<times> hptr) res" where
  "skynet_malloc_hook J handle hp bytes =
     cbind (new_block hp (je_malloc J (hp_mem hp) (unat (bytes + of_nat PREFIX_SIZE)))) (\<lambda>(hp, b).
     fill_prefix handle hp b bytes (of_nat PREFIX_SIZE))"

text \<open>The pointer is \<open>None\<close> for the null pointer.\<close>

definition skynet_realloc :: "allocator \<Rightarrow> u32 \<Rightarrow> heap \<Rightarrow> hptr option \<Rightarrow> u64 \<Rightarrow> (heap \<times> hptr) res" where
  "skynet_realloc J handle hp ptr bytes =
     (case ptr of
        None \<Rightarrow> skynet_malloc_hook J handle hp bytes
      | Some p \<Rightarrow>
          cbind (get_cookie_size hp p) (\<lambda>cookie_size.
          cbind (clean_prefix hp p) (\<lambda>(hp, raw).
          if snd raw \<noteq> 0 then Inl UseAfterFree
          else
            case je_realloc J (hp_mem hp) (fst raw) (unat (bytes + ucast cookie_size)) of
              None \<Rightarrow> Inl Exits
            | Some (b, bs) \<Rightarrow>
                fill_prefix handle (hp\<lparr>hp_mem := (hp_mem hp)(fst raw := None, b := Some bs)\<rparr>) b bytes cookie_size)))"

definition skynet_free_hook :: "heap \<Rightarrow> hptr option \<Rightarrow> heap res" where
  "skynet_free_hook hp ptr =
     (case ptr of
        None \<Rightarrow> Inr hp
      | Some p \<Rightarrow> cbind (clean_prefix hp p) (\<lambda>(hp, raw). je_free hp raw))"

definition skynet_calloc :: "allocator \<Rightarrow> u32 \<Rightarrow> heap \<Rightarrow> u64 \<Rightarrow> u64 \<Rightarrow> (heap \<times> hptr) res" where
  "skynet_calloc J handle hp nmemb bytes =
     (if bytes = 0 then Inl DivByZero
      else
        let cookie_n = (ucast ((of_nat PREFIX_SIZE + bytes - 1) div bytes) :: u32) in
        cbind (new_block hp (je_calloc J (hp_mem hp) (unat (nmemb + ucast cookie_n)) (unat bytes))) (\<lambda>(hp, b).
        fill_prefix handle hp b (nmemb * bytes) (ucast (ucast cookie_n * bytes))))"

definition alignment_cookie_size :: "u64 \<Rightarrow> u32 res" where
  "alignment_cookie_size alignment =
     (if of_nat PREFIX_SIZE \<le> alignment then Inr (ucast alignment)
      else if alignment = 4 then Inr (of_nat ((PREFIX_SIZE + 3) div 4 * 4))
      else if alignment = 8 then Inr (of_nat ((PREFIX_SIZE + 7) div 8 * 8))
      else if alignment = 16 then Inr (of_nat ((PREFIX_SIZE + 15) div 16 * 16))
      else if alignment = 0 then Inl DivByZero
      else Inr (ucast ((of_nat PREFIX_SIZE + alignment - 1) div alignment * alignment)))"

text \<open>\<open>skynet_memalign\<close>, and \<open>skynet_aligned_alloc\<close> and \<open>skynet_posix_memalign\<close>, which do the same.\<close>

definition skynet_memalign :: "allocator \<Rightarrow> u32 \<Rightarrow> heap \<Rightarrow> u64 \<Rightarrow> u64 \<Rightarrow> (heap \<times> hptr) res" where
  "skynet_memalign J handle hp alignment bytes =
     cbind (alignment_cookie_size alignment) (\<lambda>cookie_size.
     cbind (new_block hp (je_memalign J (hp_mem hp) (unat alignment) (unat (bytes + ucast cookie_size)))) (\<lambda>(hp, b).
     fill_prefix handle hp b bytes cookie_size))"

definition skynet_aligned_alloc :: "allocator \<Rightarrow> u32 \<Rightarrow> heap \<Rightarrow> u64 \<Rightarrow> u64 \<Rightarrow> (heap \<times> hptr) res" where
  "skynet_aligned_alloc = skynet_memalign"

definition skynet_posix_memalign :: "allocator \<Rightarrow> u32 \<Rightarrow> heap \<Rightarrow> u64 \<Rightarrow> u64 \<Rightarrow> (heap \<times> hptr) res" where
  "skynet_posix_memalign = skynet_memalign"

text \<open>The memory of Lua has no prefix: \<open>raw_realloc\<close> and \<open>raw_free\<close>.\<close>

definition skynet_lalloc :: "allocator \<Rightarrow> heap \<Rightarrow> nat option \<Rightarrow> u64 \<Rightarrow> (heap \<times> nat option) res" where
  "skynet_lalloc J hp ptr nsize =
     (if nsize = 0 then
        (case ptr of None \<Rightarrow> Inr (hp, None) | Some b \<Rightarrow> cbind (je_free hp (b, 0)) (\<lambda>hp. Inr (hp, None)))
      else
        case ptr of
          None \<Rightarrow>
            (case je_malloc J (hp_mem hp) (unat nsize) of
               None \<Rightarrow> Inr (hp, None) | Some (b, bs) \<Rightarrow> Inr (hp\<lparr>hp_mem := (hp_mem hp)(b \<mapsto> bs)\<rparr>, Some b))
        | Some p \<Rightarrow>
            cbind (deref (hp_mem hp) p) (\<lambda>_.
            case je_realloc J (hp_mem hp) p (unat nsize) of
              None \<Rightarrow> Inr (hp, None)
            | Some (b, bs) \<Rightarrow> Inr (hp\<lparr>hp_mem := (hp_mem hp)(p := None, b := Some bs)\<rparr>, Some b)))"

text \<open>\<open>skynet_strdup\<close> on the characters before the zero.\<close>

definition skynet_strdup_hook :: "allocator \<Rightarrow> u32 \<Rightarrow> heap \<Rightarrow> u8 list \<Rightarrow> (heap \<times> hptr) res" where
  "skynet_strdup_hook J handle hp str =
     cbind (skynet_malloc_hook J handle hp (of_nat (length str) + 1)) (\<lambda>(hp, p).
     cbind (poke (hp_mem hp) (fst p) (snd p) (str @ [0])) (\<lambda>mem. Inr (hp\<lparr>hp_mem := mem\<rparr>, p)))"

section \<open>Reports\<close>

text \<open>The slots some service has used, merged.\<close>

definition used_slots :: "heap \<Rightarrow> mem_data list" where
  "used_slots hp = filter (\<lambda>d. md_handle d \<noteq> 0) (map (hp_stat hp) [0..<SLOT_SIZE])"

definition merged :: "heap \<Rightarrow> mem_info" where
  "merged hp = foldl atomic_meminfo_merge meminfo_init (map md_info (used_slots hp))"

definition malloc_used_memory :: "heap \<Rightarrow> u64" where
  "malloc_used_memory hp = (let total = merged hp in mi_alloc total - mi_free total)"

definition malloc_memory_block :: "heap \<Rightarrow> u64" where
  "malloc_memory_block hp = (let total = merged hp in mi_alloc_count total - mi_free_count total)"

definition malloc_current_memory :: "u32 \<Rightarrow> heap \<Rightarrow> u64" where
  "malloc_current_memory handle hp =
     (let data = hp_stat hp (get_mem_stat handle) in
      if md_handle data \<noteq> handle then 0
      else let info = atomic_meminfo_merge meminfo_init (md_info data) in mi_alloc info - mi_free info)"

text \<open>What \<open>dump_c_mem\<close> prints for each service, and the table of \<open>dump_mem_lua\<close>.\<close>

definition dump_mem :: "heap \<Rightarrow> (u32 \<times> u64) list" where
  "dump_mem hp =
     map (\<lambda>d. let info = atomic_meminfo_merge meminfo_init (md_info d) in (md_handle d, mi_alloc info - mi_free info))
       (used_slots hp)"

text \<open>The total in the last line of \<open>dump_c_mem\<close>.\<close>

definition dump_total :: "heap \<Rightarrow> u64" where
  "dump_total hp =
     (let total = foldl meminfo_merge meminfo_init (map (\<lambda>d. atomic_meminfo_merge meminfo_init (md_info d)) (used_slots hp))
      in mi_alloc total - mi_free total)"

end
