(* ===== verification/Sky_Malloc_Spec.thy ===== *)
theory Sky_Malloc_Spec
  imports Sky_Malloc
begin

text \<open>
  What the hooks of \<^verbatim>\<open>skynet-src/malloc_hook.c\<close> promise: every block a client holds keeps a valid
  prefix, so that it can be freed and resized at any time, and the statistics of the services add up
  to the memory that is held.
\<close>

section \<open>Numbers and bytes\<close>

lemma unat_of_nat_u32: "n < 2 ^ 32 \<Longrightarrow> unat (of_nat n :: u32) = n"
  by (simp add: unsigned_of_nat take_bit_nat_eq_self)

lemma unat_of_nat_u64: "n < 2 ^ 64 \<Longrightarrow> unat (of_nat n :: u64) = n"
  by (simp add: unsigned_of_nat take_bit_nat_eq_self)

lemma unat_ucast_u64: "unat (ucast w :: u64) = unat w" for w :: u32
proof -
  have "unat w < 2 ^ 64"
    using unsigned_less[of w, where ?'a = nat] by simp
  then show ?thesis
    by (simp add: unsigned_ucast_eq take_bit_nat_eq_self)
qed

lemma ucast_of_nat_u32: "unat w = m \<Longrightarrow> m < 2 ^ 32 \<Longrightarrow> of_nat m = (ucast w :: u32)" for w :: u64
  by (simp add: word_unat_eq_iff unsigned_ucast_eq unat_of_nat_u32 take_bit_nat_eq_self)

lemma unat_add_u64: "unat x + unat y < 2 ^ 64 \<Longrightarrow> unat (x + y) = unat x + unat y" for x y :: u64
  by (rule unat_add_lem[THEN iffD1]) simp

lemma unat_mult_u64: "unat x * unat y < 2 ^ 64 \<Longrightarrow> unat (x * y) = unat x * unat y" for x y :: u64
  by (rule unat_mult_lem[THEN iffD1]) simp


lemma length_le_bytes [simp]: "length (le_bytes n v) = n"
  by (induction n arbitrary: v) auto

lemma le_value_bytes: "v < 256 ^ n \<Longrightarrow> le_value (le_bytes n v) = v"
proof (induction n arbitrary: v)
  case (Suc n)
  have "v div 256 < 256 ^ n"
    using Suc.prems by (simp add: less_mult_imp_div_less mult.commute)
  then show ?case
    by (simp add: Suc.IH take_bit_eq_mod unsigned_of_nat)
qed simp

lemma poke_at:
  assumes "mem b = Some (xs @ ys @ zs)" and "length ys = length bs" and "off = int (length xs)"
  shows "poke mem b off bs = Inr (mem(b \<mapsto> xs @ bs @ zs))"
  using assms by (simp add: poke_def deref_def)

lemma peek_at:
  assumes "mem b = Some (xs @ ys @ zs)" and "n = length ys" and "off = int (length xs)"
  shows "peek mem b off n = Inr (le_value ys)"
  using assms by (simp add: peek_def deref_def)

section \<open>Blocks in use\<close>

text \<open>The allocator: what the manual of \<open>malloc\<close> says of each function.\<close>

definition je_ok :: "allocator \<Rightarrow> bool" where
  "je_ok J \<longleftrightarrow>
     (\<forall>mem n b bs. je_malloc J mem n = Some (b, bs) \<longrightarrow> mem b = None \<and> length bs = n) \<and>
     (\<forall>mem k n b bs. je_calloc J mem k n = Some (b, bs) \<longrightarrow> mem b = None \<and> bs = replicate (k * n) 0) \<and>
     (\<forall>mem a n b bs. je_memalign J mem a n = Some (b, bs) \<longrightarrow> mem b = None \<and> length bs = n \<and> a dvd b) \<and>
     (\<forall>mem old n b bs. je_realloc J mem old n = Some (b, bs) \<longrightarrow>
        (b = old \<or> mem b = None) \<and> length bs = n \<and>
        (\<forall>blk. mem old = Some blk \<longrightarrow> take (length blk) bs = take n blk))"

lemma je_okD:
  assumes "je_ok J"
  shows "je_malloc J mem n = Some (b, bs) \<Longrightarrow> mem b = None \<and> length bs = n"
    and "je_calloc J mem k n = Some (b, bs) \<Longrightarrow> mem b = None \<and> bs = replicate (k * n) 0"
    and "je_memalign J mem a n = Some (b, bs) \<Longrightarrow> mem b = None \<and> length bs = n \<and> a dvd b"
    and "je_realloc J mem old n = Some (b, bs) \<Longrightarrow>
      (b = old \<or> mem b = None) \<and> length bs = n \<and> (\<forall>blk. mem old = Some blk \<longrightarrow> take (length blk) bs = take n blk)"
  using assms unfolding je_ok_def by meson+

text \<open>What is known of a block a client holds: the size of its cookie, its service and its length.\<close>

record chunk =
  ck_cookie :: nat
  ck_owner :: u32
  ck_len :: nat

definition ck_raw :: "chunk \<Rightarrow> nat" where "ck_raw c = ck_cookie c + ck_len c"

definition ck_ok :: "chunk \<Rightarrow> bool" where
  "ck_ok c \<longleftrightarrow> 16 \<le> ck_cookie c \<and> ck_cookie c < 2 ^ 32 \<and> ck_raw c < 2 ^ 64 \<and> ck_owner c \<noteq> 0"

definition block_of :: "chunk \<Rightarrow> u8 list \<Rightarrow> u8 list \<Rightarrow> u8 list" where
  "block_of c gap data = le_bytes 8 (ck_raw c) @ le_bytes 4 (unat (ck_owner c)) @ gap @ le_bytes 4 (ck_cookie c) @ data"

definition ck_holds :: "(nat \<Rightarrow> u8 list option) \<Rightarrow> nat \<Rightarrow> chunk \<Rightarrow> bool" where
  "ck_holds mem b c \<longleftrightarrow> ck_ok c \<and>
     (\<exists>gap data. length gap = ck_cookie c - 16 \<and> length data = ck_len c \<and> mem b = Some (block_of c gap data))"

definition ck_slot :: "chunk \<Rightarrow> nat" where "ck_slot c = get_mem_stat (ck_owner c)"

definition slot_bytes :: "(nat \<rightharpoonup> chunk) \<Rightarrow> nat \<Rightarrow> nat" where
  "slot_bytes live s = (\<Sum>b\<in>dom live. if ck_slot (the (live b)) = s then ck_raw (the (live b)) else 0)"

definition slot_blocks :: "(nat \<rightharpoonup> chunk) \<Rightarrow> nat \<Rightarrow> nat" where
  "slot_blocks live s = (\<Sum>b\<in>dom live. if ck_slot (the (live b)) = s then 1 else 0)"

abbreviation stat_info :: "heap \<Rightarrow> nat \<Rightarrow> mem_info" where
  "stat_info hp s \<equiv> md_info (hp_stat hp s)"

definition slots_balanced :: "(nat \<Rightarrow> mem_data) \<Rightarrow> (nat \<rightharpoonup> chunk) \<Rightarrow> bool" where
  "slots_balanced st live \<longleftrightarrow>
     (\<forall>s. mi_alloc (md_info (st s)) - mi_free (md_info (st s)) = of_nat (slot_bytes live s) \<and>
          mi_alloc_count (md_info (st s)) - mi_free_count (md_info (st s)) = of_nat (slot_blocks live s)) \<and>
     (\<forall>b c. live b = Some c \<longrightarrow> md_handle (st (ck_slot c)) \<noteq> 0)"

definition balanced :: "heap \<Rightarrow> (nat \<rightharpoonup> chunk) \<Rightarrow> bool" where
  "balanced hp live \<longleftrightarrow> finite (dom live) \<and> (\<forall>b c. live b = Some c \<longrightarrow> ck_holds (hp_mem hp) b c) \<and>
     slots_balanced (hp_stat hp) live"

lemma balancedD:
  assumes "balanced hp live"
  shows "finite (dom live)" and "live b = Some c \<Longrightarrow> ck_holds (hp_mem hp) b c"
    and "slots_balanced (hp_stat hp) live"
  using assms by (auto simp: balanced_def)

lemma slot_insert:
  assumes "finite (dom live)" and "live b = None"
  shows "slot_bytes (live(b \<mapsto> c)) s = (if ck_slot c = s then ck_raw c else 0) + slot_bytes live s"
    and "slot_blocks (live(b \<mapsto> c)) s = (if ck_slot c = s then 1 else 0) + slot_blocks live s"
proof -
  have b: "b \<notin> dom live"
    using assms by auto
  then have eq: "(\<Sum>x\<in>dom live. f (the ((live(b \<mapsto> c)) x))) = (\<Sum>x\<in>dom live. f (the (live x)))" for f :: "chunk \<Rightarrow> nat"
    by (intro sum.cong) auto
  show "slot_bytes (live(b \<mapsto> c)) s = (if ck_slot c = s then ck_raw c else 0) + slot_bytes live s"
    using assms b eq[of "\<lambda>c. if ck_slot c = s then ck_raw c else 0"] by (simp add: slot_bytes_def)
  show "slot_blocks (live(b \<mapsto> c)) s = (if ck_slot c = s then 1 else 0) + slot_blocks live s"
    using assms b eq[of "\<lambda>c. if ck_slot c = s then 1 else 0"] by (simp add: slot_blocks_def)
qed

lemma slot_remove:
  assumes "finite (dom live)" and "live b = Some c"
  shows "slot_bytes live s = (if ck_slot c = s then ck_raw c else 0) + slot_bytes (live(b := None)) s"
    and "slot_blocks live s = (if ck_slot c = s then 1 else 0) + slot_blocks (live(b := None)) s"
proof -
  have "live = (live(b := None))(b \<mapsto> c)" and "finite (dom (live(b := None)))"
    using assms by auto
  then show "slot_bytes live s = (if ck_slot c = s then ck_raw c else 0) + slot_bytes (live(b := None)) s"
    and "slot_blocks live s = (if ck_slot c = s then 1 else 0) + slot_blocks (live(b := None)) s"
    using slot_insert[of "live(b := None)" b c s] by auto
qed

lemma slots_balancedD:
  assumes "slots_balanced st live"
  shows "mi_alloc (md_info (st s)) = mi_free (md_info (st s)) + of_nat (slot_bytes live s)"
    and "mi_alloc_count (md_info (st s)) = mi_free_count (md_info (st s)) + of_nat (slot_blocks live s)"
    and "live b = Some c \<Longrightarrow> md_handle (st (ck_slot c)) \<noteq> 0"
  using assms by (auto simp: slots_balanced_def diff_eq_eq algebra_simps)

lemma slots_balancedI:
  assumes "\<And>s. mi_alloc (md_info (st s)) = mi_free (md_info (st s)) + of_nat (slot_bytes live s)"
    and "\<And>s. mi_alloc_count (md_info (st s)) = mi_free_count (md_info (st s)) + of_nat (slot_blocks live s)"
    and "\<And>b c. live b = Some c \<Longrightarrow> md_handle (st (ck_slot c)) \<noteq> 0"
  shows "slots_balanced st live"
  using assms unfolding slots_balanced_def by simp

lemma slots_balanced_alloc:
  assumes "finite (dom live)" and "live b = None" and "slots_balanced (hp_stat hp) live" and "ck_owner c \<noteq> 0"
  shows "slots_balanced (hp_stat (update_xmalloc_stat_alloc hp (ck_owner c) (of_nat (ck_raw c)))) (live(b \<mapsto> c))"
  using slots_balancedD[OF assms(3)] assms(4)
  by (intro slots_balancedI)
    (auto simp: update_xmalloc_stat_alloc_def meminfo_alloc_def slot_insert[OF assms(1,2)] ck_slot_def split: if_splits)

lemma slots_balanced_free:
  assumes "finite (dom live)" and "live b = Some c" and "slots_balanced (hp_stat hp) live"
  shows "slots_balanced (hp_stat (update_xmalloc_stat_free hp (ck_owner c) (of_nat (ck_raw c)))) (live(b := None))"
  using slots_balancedD[OF assms(3)] slots_balancedD(3)[OF assms(3,2)]
  by (intro slots_balancedI)
    (auto simp: update_xmalloc_stat_free_def meminfo_free_def ck_slot_def slot_remove[OF assms(1,2)] split: if_splits)

section \<open>The prefix\<close>

lemma block_split:
  assumes "length blk = k + n" and "16 \<le> k"
  obtains xs ys gap zs where "blk = xs @ ys @ gap @ zs @ drop k blk" and "length xs = 8" and "length ys = 4"
    and "length gap = k - 16" and "length zs = 4"
proof
  have "drop k blk = drop 4 (drop (k - 16) (drop 4 (drop 8 blk)))"
    using assms by simp
  then show "blk = take 8 blk @ take 4 (drop 8 blk) @ take (k - 16) (drop 4 (drop 8 blk)) @
      take 4 (drop (k - 16) (drop 4 (drop 8 blk))) @ drop k blk"
    by (simp only: append_take_drop_id)
qed (use assms in auto)

lemma fill_prefix_block:
  assumes "hp_mem hp b = Some blk" and "length blk = ck_raw c" and "ck_ok c"
  shows "\<exists>gap. length gap = ck_cookie c - 16 \<and>
    fill_prefix (ck_owner c) hp b (of_nat (ck_len c)) (of_nat (ck_cookie c)) =
      Inr (update_xmalloc_stat_alloc hp (ck_owner c) (of_nat (ck_raw c))
             \<lparr>hp_mem := (hp_mem hp)(b \<mapsto> block_of c gap (drop (ck_cookie c) blk))\<rparr>, (b, int (ck_cookie c)))"
proof -
  let ?k = "ck_cookie c" and ?u = "update_xmalloc_stat_alloc hp (ck_owner c) (of_nat (ck_raw c))"
  have k: "16 \<le> ?k" "?k < 2 ^ 32" "ck_raw c < 2 ^ 64"
    using assms(3) by (auto simp: ck_ok_def)
  obtain xs ys gap zs where blk: "blk = xs @ ys @ gap @ zs @ drop ?k blk"
    and len: "length xs = 8" "length ys = 4" "length gap = ?k - 16" "length zs = 4"
    by (rule block_split[of blk ?k "ck_len c"]) (use assms(2) k(1) in \<open>auto simp: ck_raw_def\<close>)
  have uk: "uint (of_nat ?k :: u32) = int ?k" "unat (of_nat ?k :: u32) = ?k"
    using k by (simp_all add: uint_nat unsigned_of_nat take_bit_nat_eq_self)
  have sz: "of_nat (ck_len c) + (ucast (of_nat ?k :: u32) :: u64) = of_nat (ck_raw c)"
    using of_nat_unat[of "of_nat ?k :: u32", where 'a = "64 word"] uk(2) by (simp add: ck_raw_def algebra_simps)
  have raw: "unat (of_nat (ck_raw c) :: u64) = ck_raw c"
    using k by (simp add: unsigned_of_nat take_bit_nat_eq_self)
  define m1 where "m1 = (hp_mem hp)(b \<mapsto> le_bytes 8 (ck_raw c) @ ys @ gap @ zs @ drop ?k blk)"
  define m2 where "m2 = m1(b \<mapsto> le_bytes 8 (ck_raw c) @ le_bytes 4 (unat (ck_owner c)) @ gap @ zs @ drop ?k blk)"
  have p1: "poke (hp_mem hp) b 0 (le_bytes 8 (ck_raw c)) = Inr m1"
    using poke_at[of "hp_mem hp" b "[]" xs _ "le_bytes 8 (ck_raw c)" 0] assms(1) blk len by (auto simp: m1_def)
  have p2: "poke m1 b 8 (le_bytes 4 (unat (ck_owner c))) = Inr m2"
    using poke_at[of m1 b "le_bytes 8 (ck_raw c)" ys _ "le_bytes 4 (unat (ck_owner c))" 8] len
    by (simp add: m1_def m2_def)
  have p3: "poke m2 b (int ?k - 4) (le_bytes 4 ?k) = Inr (m2(b \<mapsto> block_of c gap (drop ?k blk)))"
    using poke_at[of m2 b "le_bytes 8 (ck_raw c) @ le_bytes 4 (unat (ck_owner c)) @ gap" zs _ "le_bytes 4 ?k" "int ?k - 4"] len k(1)
    by (simp add: m2_def block_of_def)
  have "fill_prefix (ck_owner c) hp b (of_nat (ck_len c)) (of_nat ?k) =
      Inr (?u\<lparr>hp_mem := (hp_mem hp)(b \<mapsto> block_of c gap (drop ?k blk))\<rparr>, (b, int ?k))"
    unfolding fill_prefix_def Let_def sz raw uk by (simp add: p1 p2 p3) (simp add: m2_def m1_def)
  then show ?thesis
    using len(3) by blast
qed

lemma clean_prefix_block:
  assumes "ck_holds (hp_mem hp) b c"
  shows "get_cookie_size hp (b, int (ck_cookie c)) = Inr (of_nat (ck_cookie c))"
    and "clean_prefix hp (b, int (ck_cookie c)) =
      Inr (update_xmalloc_stat_free hp (ck_owner c) (of_nat (ck_raw c)), (b, 0))"
proof -
  let ?k = "ck_cookie c"
  obtain gap data where len: "length gap = ?k - 16"
    and mem: "hp_mem hp b = Some (block_of c gap data)" and k: "16 \<le> ?k" "?k < 2 ^ 32" "ck_raw c < 2 ^ 64"
    using assms by (auto simp: ck_holds_def ck_ok_def)
  have c: "peek (hp_mem hp) b (int ?k - 4) 4 = Inr ?k"
    using peek_at[of "hp_mem hp" b "le_bytes 8 (ck_raw c) @ le_bytes 4 (unat (ck_owner c)) @ gap" "le_bytes 4 ?k" data 4 "int ?k - 4"]
      mem len k by (simp add: block_of_def le_value_bytes)
  have h: "peek (hp_mem hp) b 8 4 = Inr (unat (ck_owner c))"
    using peek_at[of "hp_mem hp" b "le_bytes 8 (ck_raw c)" "le_bytes 4 (unat (ck_owner c))" _ 4 8] mem
      unsigned_less[of "ck_owner c", where ?'a = nat]
    by (simp add: block_of_def le_value_bytes)
  have s: "peek (hp_mem hp) b 0 8 = Inr (ck_raw c)"
    using peek_at[of "hp_mem hp" b "[]" "le_bytes 8 (ck_raw c)" _ 8 0] mem k by (simp add: block_of_def le_value_bytes)
  have uk: "uint (of_nat ?k :: u32) = int ?k"
    using k by (simp add: uint_nat unsigned_of_nat take_bit_nat_eq_self)
  show g: "get_cookie_size hp (b, int ?k) = Inr (of_nat ?k)"
    by (simp add: get_cookie_size_def c)
  show "clean_prefix hp (b, int ?k) = Inr (update_xmalloc_stat_free hp (ck_owner c) (of_nat (ck_raw c)), (b, 0))"
    unfolding clean_prefix_def g by (simp add: uk h s)
qed

section \<open>The operations\<close>

definition block_data :: "heap \<Rightarrow> hptr \<Rightarrow> u8 list" where
  "block_data hp p = drop (nat (snd p)) (the (hp_mem hp (fst p)))"

lemma stat_mem [simp]: "hp_mem (update_xmalloc_stat_alloc hp h n) = hp_mem hp" "hp_mem (update_xmalloc_stat_free hp h n) = hp_mem hp"
  by (simp_all add: update_xmalloc_stat_alloc_def update_xmalloc_stat_free_def)

lemma stat_alloc_mem: "hp_stat (update_xmalloc_stat_alloc (hp\<lparr>hp_mem := m\<rparr>) h n) = hp_stat (update_xmalloc_stat_alloc hp h n)"
  by (simp add: update_xmalloc_stat_alloc_def)

lemma ck_holds_mem: "ck_holds mem b c \<Longrightarrow> mem' b = mem b \<Longrightarrow> ck_holds mem' b c"
  by (simp add: ck_holds_def)

lemma balanced_not_live:
  assumes "balanced hp live" and "hp_mem hp b = None"
  shows "live b = None"
  using balancedD(2)[OF assms(1), of b] assms(2) by (cases "live b") (auto simp: ck_holds_def)

lemma balanced_free:
  assumes "balanced hp live" and "live b = Some c"
  shows "balanced (update_xmalloc_stat_free hp (ck_owner c) (of_nat (ck_raw c))\<lparr>hp_mem := (hp_mem hp)(b := v)\<rparr>) (live(b := None))"
  using balancedD[OF assms(1)] slots_balanced_free[OF balancedD(1)[OF assms(1)] assms(2) balancedD(3)[OF assms(1)]]
  by (auto simp: balanced_def intro: ck_holds_mem[of "hp_mem hp"])

text \<open>A block got from the allocator becomes a block of the service: \<open>fill_prefix\<close> on a block that is not in use.\<close>

lemma fill_prefix_fresh:
  assumes "balanced hp live" and "live b = None" and "length blk = ck_raw c" and "ck_ok c"
  obtains hp' where "fill_prefix (ck_owner c) (hp\<lparr>hp_mem := (hp_mem hp)(b \<mapsto> blk)\<rparr>) b (of_nat (ck_len c)) (of_nat (ck_cookie c)) =
      Inr (hp', (b, int (ck_cookie c)))"
    and "balanced hp' (live(b \<mapsto> c))" and "block_data hp' (b, int (ck_cookie c)) = drop (ck_cookie c) blk"
    and "\<And>x. x \<noteq> b \<Longrightarrow> hp_mem hp' x = hp_mem hp x"
proof -
  let ?hp = "hp\<lparr>hp_mem := (hp_mem hp)(b \<mapsto> blk)\<rparr>"
  obtain gap where gap: "length gap = ck_cookie c - 16"
    and fill: "fill_prefix (ck_owner c) ?hp b (of_nat (ck_len c)) (of_nat (ck_cookie c)) =
      Inr (update_xmalloc_stat_alloc ?hp (ck_owner c) (of_nat (ck_raw c))
             \<lparr>hp_mem := (hp_mem ?hp)(b \<mapsto> block_of c gap (drop (ck_cookie c) blk))\<rparr>, (b, int (ck_cookie c)))"
      (is "_ = Inr (?hp', _)")
    using fill_prefix_block[of ?hp b blk c] assms(3,4) by auto
  have len: "length (drop (ck_cookie c) blk) = ck_len c"
    using assms(3) by (simp add: ck_raw_def)
  have holds: "ck_holds (hp_mem ?hp') b c"
    unfolding ck_holds_def using gap len assms(4) by (intro conjI exI[of _ gap] exI[of _ "drop (ck_cookie c) blk"]) simp_all
  have "slots_balanced (hp_stat ?hp') (live(b \<mapsto> c))"
    using slots_balanced_alloc[OF balancedD(1)[OF assms(1)] assms(2) balancedD(3)[OF assms(1)], of c] assms(4)
    by (simp add: stat_alloc_mem ck_ok_def)
  then have bal: "balanced ?hp' (live(b \<mapsto> c))"
    using balancedD[OF assms(1)] holds by (auto simp: balanced_def intro: ck_holds_mem[of "hp_mem hp"])
  have "drop (ck_cookie c) (block_of c gap (drop (ck_cookie c) blk)) = drop (ck_cookie c) blk"
  proof -
    have "block_of c gap d = (le_bytes 8 (ck_raw c) @ le_bytes 4 (unat (ck_owner c)) @ gap @ le_bytes 4 (ck_cookie c)) @ d" for d
      by (simp add: block_of_def)
    moreover have "length (le_bytes 8 (ck_raw c) @ le_bytes 4 (unat (ck_owner c)) @ gap @ le_bytes 4 (ck_cookie c)) = ck_cookie c"
      using gap assms(4) by (simp add: ck_ok_def)
    ultimately show ?thesis
      by (metis append_eq_conv_conj)
  qed
  then have "block_data ?hp' (b, int (ck_cookie c)) = drop (ck_cookie c) blk"
    by (simp add: block_data_def)
  with fill bal show thesis
    by (intro that[of ?hp']) auto
qed

lemma fill_prefix_errors: "hp_mem hp b \<noteq> None \<Longrightarrow> fill_prefix h hp b sz k = Inl e \<Longrightarrow> e = OutOfBounds"
  by (auto simp: fill_prefix_def poke_def deref_def Let_def split: if_splits)

text \<open>What a client gets from an allocating function: the end of the process or a new block of its own.\<close>

definition new_result :: "heap \<Rightarrow> (nat \<rightharpoonup> chunk) \<Rightarrow> chunk \<Rightarrow> (heap \<times> hptr) res \<Rightarrow> bool" where
  "new_result hp live c r \<longleftrightarrow> r = Inl Exits \<or>
     (\<exists>hp' b. r = Inr (hp', (b, int (ck_cookie c))) \<and> live b = None \<and> balanced hp' (live(b \<mapsto> c)) \<and>
        length (block_data hp' (b, int (ck_cookie c))) = ck_len c \<and> (\<forall>x. x \<noteq> b \<longrightarrow> hp_mem hp' x = hp_mem hp x))"

lemma new_block_result:
  assumes "balanced hp live" and "ck_ok c"
    and "\<And>b bs. r = Some (b, bs) \<Longrightarrow> hp_mem hp b = None \<and> length bs = ck_raw c"
    and "ck_owner c = h" and "of_nat (ck_len c) = sz" and "of_nat (ck_cookie c) = k"
  shows "new_result hp live c (cbind (new_block hp r) (\<lambda>(hp, b). fill_prefix h hp b sz k))"
proof (cases r)
  case (Some a)
  obtain b bs where a: "a = (b, bs)" and b: "hp_mem hp b = None" "length bs = ck_raw c"
    using assms(3) Some by (cases a) auto
  obtain hp' where f: "fill_prefix (ck_owner c) (hp\<lparr>hp_mem := (hp_mem hp)(b \<mapsto> bs)\<rparr>) b (of_nat (ck_len c)) (of_nat (ck_cookie c)) =
      Inr (hp', (b, int (ck_cookie c)))"
    and "balanced hp' (live(b \<mapsto> c))" "block_data hp' (b, int (ck_cookie c)) = drop (ck_cookie c) bs"
      "\<And>x. x \<noteq> b \<Longrightarrow> hp_mem hp' x = hp_mem hp x"
    using fill_prefix_fresh[OF assms(1) balanced_not_live[OF assms(1) b(1)] b(2) assms(2)] by metis
  then show ?thesis
    using balanced_not_live[OF assms(1) b(1)] b(2) assms(4-6)
    by (auto simp: new_result_def new_block_def Some a ck_raw_def)
qed (simp add: new_result_def new_block_def)

lemma malloc_new:
  assumes "je_ok J" and "balanced hp live" and "h \<noteq> 0" and "unat n + 16 < 2 ^ 64"
  shows "new_result hp live \<lparr>ck_cookie = 16, ck_owner = h, ck_len = unat n\<rparr> (skynet_malloc_hook J h hp n)"
proof -
  have "unat (n + 16) = unat n + 16"
    using assms(4) by (subst unat_add_lem[THEN iffD1]) auto
  then show ?thesis
    unfolding skynet_malloc_hook_def
    by (intro new_block_result) (use assms in \<open>auto simp: je_ok_def ck_ok_def ck_raw_def PREFIX_SIZE_def\<close>)
qed

lemma round_up_bounds:
  fixes n :: nat
  assumes "0 < n"
  shows "16 \<le> (15 + n) div n * n" and "(15 + n) div n * n \<le> n + 15"
  using div_mult_mod_eq[of "15 + n" n] mod_less_divisor[OF assms, of "15 + n"] by linarith+

lemma calloc_new:
  assumes "je_ok J" and "balanced hp live" and "h \<noteq> 0" and "0 < unat n" and "unat n + 15 < 2 ^ 32"
    and "unat k * unat n + unat n + 15 < 2 ^ 64"
  shows "new_result hp live \<lparr>ck_cookie = (15 + unat n) div unat n * unat n, ck_owner = h, ck_len = unat k * unat n\<rparr>
    (skynet_calloc J h hp k n)"
proof -
  let ?c = "(15 + unat n) div unat n"
  note up = round_up_bounds[OF assms(4)]
  have "n \<noteq> 0"
    using assms(4) by auto
  have "of_nat PREFIX_SIZE + n - 1 = of_nat (15 + unat n)"
    by (simp add: PREFIX_SIZE_def)
  then have s: "unat (of_nat PREFIX_SIZE + n - 1) = 15 + unat n"
    using unat_of_nat_u64[of "15 + unat n"] assms(5) by simp
  have c32: "?c < 2 ^ 32"
    using assms(5) div_le_dividend[of "15 + unat n" "unat n"] by linarith
  define cn :: u32 where "cn = ucast ((of_nat PREFIX_SIZE + n - 1) div n)"
  have cn: "unat cn = ?c"
    unfolding cn_def unsigned_ucast_eq using c32 s by (simp add: unat_div take_bit_nat_eq_self)
  have ne: "?c * unat n + unat k * unat n < 2 ^ 64"
    using up assms(6) by linarith
  have lt: "m < 2 ^ 64" if "m * unat n \<le> ?c * unat n + unat k * unat n" for m
    using le_less_trans[OF that ne] mult_le_mono2[of 1 "unat n" m] assms(4) by linarith
  have kc: "unat (k + ucast cn) = unat k + ?c"
    using unat_add_u64[of k "ucast cn"] lt[of "unat k + ?c"] cn by (simp add: algebra_simps unat_ucast_u64)
  have kn: "unat (k * n) = unat k * unat n"
    using unat_mult_u64[of k n] ne by linarith
  have cs: "unat (ucast cn * n) = ?c * unat n"
    using unat_mult_u64[of "ucast cn" n] ne cn by (simp add: unat_ucast_u64)
  have "?c * unat n < 2 ^ 32"
    using up assms(5) by linarith
  then have cs32: "of_nat (?c * unat n) = (ucast (ucast cn * n) :: u32)"
    by (rule ucast_of_nat_u32[OF cs])
  have "new_result hp live \<lparr>ck_cookie = ?c * unat n, ck_owner = h, ck_len = unat k * unat n\<rparr>
      (cbind (new_block hp (je_calloc J (hp_mem hp) (unat (k + ucast cn)) (unat n)))
        (\<lambda>(hp, b). fill_prefix h hp b (k * n) (ucast (ucast cn * n))))"
  proof (rule new_block_result[OF assms(2)])
    show "ck_ok \<lparr>ck_cookie = ?c * unat n, ck_owner = h, ck_len = unat k * unat n\<rparr>"
      using up ne assms(3) \<open>?c * unat n < 2 ^ 32\<close> by (simp add: ck_ok_def ck_raw_def)
    show "hp_mem hp b = None \<and> length bs = ck_raw \<lparr>ck_cookie = ?c * unat n, ck_owner = h, ck_len = unat k * unat n\<rparr>"
      if "je_calloc J (hp_mem hp) (unat (k + ucast cn)) (unat n) = Some (b, bs)" for b bs
    proof -
      have "hp_mem hp b = None \<and> length bs = unat (k + ucast cn) * unat n"
        using je_okD(2)[OF assms(1) that] by simp
      then show ?thesis
        by (simp add: kc ck_raw_def add_mult_distrib)
    qed
    show "of_nat (ck_len \<lparr>ck_cookie = ?c * unat n, ck_owner = h, ck_len = unat k * unat n\<rparr>) = k * n"
      by simp
  qed (simp_all only: cs32 chunk.simps)
  then show ?thesis
    using \<open>n \<noteq> 0\<close> by (simp only: skynet_calloc_def Let_def cn_def if_False)
qed

lemma alignment_cookie_ok:
  assumes "0 < unat a" and "unat a < 2 ^ 32"
  shows "\<exists>k. alignment_cookie_size a = Inr k \<and> 16 \<le> unat k \<and> unat a dvd unat k \<and> unat k \<le> unat a + 15"
proof (cases "16 \<le> unat a")
  case True
  then show ?thesis
    using assms by (simp add: alignment_cookie_size_def PREFIX_SIZE_def word_le_nat_alt unsigned_ucast_eq take_bit_nat_eq_self)
next
  case False
  then have "unat a \<in> {1..<16}"
    using assms by auto
  then have "unat a \<in> {1, 2, 3, 4, 5, 6, 7, 8, 9, 10, 11, 12, 13, 14, 15}"
    by (auto simp: atLeastLessThan_nat_numeral)
  then obtain i where "a = of_nat i" "i \<in> {1::nat, 2, 3, 4, 5, 6, 7, 8, 9, 10, 11, 12, 13, 14, 15}"
    by (metis of_nat_unat ucast_id)
  then show ?thesis
    by (auto simp: alignment_cookie_size_def PREFIX_SIZE_def word_le_nat_alt)
qed

text \<open>\<open>skynet_memalign\<close> gives an address that is a multiple of the alignment.\<close>

lemma memalign_new:
  assumes "je_ok J" and "balanced hp live" and "h \<noteq> 0" and "0 < unat a" and "unat a < 2 ^ 32"
    and "unat n + unat a + 15 < 2 ^ 64"
  shows "\<exists>k. unat a dvd unat k \<and> unat k \<le> unat a + 15 \<and> alignment_cookie_size a = Inr k \<and>
    new_result hp live \<lparr>ck_cookie = unat k, ck_owner = h, ck_len = unat n\<rparr> (skynet_memalign J h hp a n) \<and>
    (\<forall>hp' b off. skynet_memalign J h hp a n = Inr (hp', (b, off)) \<longrightarrow> int (unat a) dvd int b + off)"
proof -
  obtain k where k: "alignment_cookie_size a = Inr k" "16 \<le> unat k" "unat a dvd unat k" "unat k \<le> unat a + 15"
    using alignment_cookie_ok[OF assms(4,5)] by blast
  have nk: "unat (n + ucast k) = unat n + unat k"
    using unat_add_u64[of n "ucast k"] k(4) assms(6) by (simp add: unat_ucast_u64)
  have k32: "unat k < 2 ^ 32"
    using unsigned_less[of k, where ?'a = nat] by simp
  have new: "new_result hp live \<lparr>ck_cookie = unat k, ck_owner = h, ck_len = unat n\<rparr> (skynet_memalign J h hp a n)"
    unfolding skynet_memalign_def k(1) cbind.simps
    by (intro new_block_result) (use assms k(2,4) k32 nk in \<open>auto simp: je_ok_def ck_ok_def ck_raw_def\<close>)
  have "int (unat a) dvd int b + off" if r: "skynet_memalign J h hp a n = Inr (hp', (b, off))" for hp' b off
  proof -
    obtain bs where "je_memalign J (hp_mem hp) (unat a) (unat (n + ucast k)) = Some (b, bs)"
      using r by (auto simp: skynet_memalign_def k(1) new_block_def fill_prefix_def Let_def cbind_Inr_iff split: option.splits)
    then have "unat a dvd b"
      using assms(1) by (auto simp: je_ok_def)
    moreover have "off = int (unat k)"
      using new r by (auto simp: new_result_def)
    ultimately show ?thesis
      using k(3) by (metis dvd_add int_dvd_int_iff)
  qed
  with k new show ?thesis
    by blast
qed

text \<open>\<open>skynet_free\<close> of a block in use succeeds.\<close>

lemma free_live:
  assumes "balanced hp live" and "live b = Some c"
  shows "\<exists>hp'. skynet_free_hook hp (Some (b, int (ck_cookie c))) = Inr hp' \<and> balanced hp' (live(b := None)) \<and>
    hp_mem hp' = (hp_mem hp)(b := None)"
proof -
  have "hp_mem hp b \<noteq> None"
    using balancedD(2)[OF assms] by (auto simp: ck_holds_def)
  then show ?thesis
    using balanced_free[OF assms, of None] clean_prefix_block(2)[OF balancedD(2)[OF assms]]
    by (auto simp: skynet_free_hook_def je_free_def deref_def)
qed

text \<open>\<open>skynet_realloc\<close> of a block in use gives one with the same data, as far as it fits.\<close>

definition moved_result :: "heap \<Rightarrow> (nat \<rightharpoonup> chunk) \<Rightarrow> nat \<Rightarrow> chunk \<Rightarrow> (heap \<times> hptr) res \<Rightarrow> bool" where
  "moved_result hp live b c r \<longleftrightarrow> r = Inl Exits \<or>
     (\<exists>hp' b'. r = Inr (hp', (b', int (ck_cookie c))) \<and> (live(b := None)) b' = None \<and>
        balanced hp' ((live(b := None))(b' \<mapsto> c)) \<and> length (block_data hp' (b', int (ck_cookie c))) = ck_len c \<and>
        (\<forall>x. x \<noteq> b \<and> x \<noteq> b' \<longrightarrow> hp_mem hp' x = hp_mem hp x) \<and>
        take (ck_len c) (block_data hp (b, int (ck_cookie c))) =
          take (length (block_data hp (b, int (ck_cookie c)))) (block_data hp' (b', int (ck_cookie c))))"

lemma realloc_moves:
  assumes "je_ok J" and "balanced hp live" and "h \<noteq> 0" and "live b = Some c" and "unat n + ck_cookie c < 2 ^ 64"
  shows "moved_result hp live b (c\<lparr>ck_owner := h, ck_len := unat n\<rparr>)
    (skynet_realloc J h hp (Some (b, int (ck_cookie c))) n)"
proof -
  let ?k = "ck_cookie c" and ?d = "c\<lparr>ck_owner := h, ck_len := unat n\<rparr>"
  let ?f = "update_xmalloc_stat_free hp (ck_owner c) (of_nat (ck_raw c))" and ?m = "(hp_mem hp)(b := None)"
  have holds: "ck_holds (hp_mem hp) b c"
    using balancedD(2)[OF assms(2,4)] .
  then have ok: "16 \<le> ?k" "?k < 2 ^ 32"
    by (auto simp: ck_holds_def ck_ok_def)
  have okd: "ck_ok ?d"
    using ok assms(3,5) by (simp add: ck_ok_def ck_raw_def)
  obtain blk where blk: "hp_mem hp b = Some blk"
    using holds by (auto simp: ck_holds_def)
  have nk: "unat (n + ucast (of_nat ?k :: u32)) = unat n + ?k"
    using unat_add_u64[of n "ucast (of_nat ?k :: u32)"] assms(5) ok by (simp add: unat_ucast_u64 unat_of_nat_u32)
  have bal: "balanced (?f\<lparr>hp_mem := ?m\<rparr>) (live(b := None))"
    using balanced_free[OF assms(2,4)] .
  have run: "skynet_realloc J h hp (Some (b, int ?k)) n =
      (case je_realloc J (hp_mem hp) b (unat n + ?k) of
         None \<Rightarrow> Inl Exits
       | Some (b', bs) \<Rightarrow> fill_prefix h (?f\<lparr>hp_mem := ?m(b' := Some bs)\<rparr>) b' n (of_nat ?k))"
    by (simp add: skynet_realloc_def clean_prefix_block[OF holds] nk split: option.splits)
  show ?thesis
  proof (cases "je_realloc J (hp_mem hp) b (unat n + ?k)")
    case (Some a)
    obtain b' bs where a: "a = (b', bs)"
      by (cases a)
    have new: "b' = b \<or> hp_mem hp b' = None" "length bs = unat n + ?k" "take (length blk) bs = take (unat n + ?k) blk"
      using assms(1) Some a blk by (auto simp: je_ok_def)
    then have none: "(live(b := None)) b' = None"
      using balanced_not_live[OF assms(2)] by auto
    have len: "length bs = ck_raw ?d"
      using new(2) by (simp add: ck_raw_def)
    obtain hp' where f: "fill_prefix (ck_owner ?d) (?f\<lparr>hp_mem := ?m\<rparr>\<lparr>hp_mem := (hp_mem (?f\<lparr>hp_mem := ?m\<rparr>))(b' \<mapsto> bs)\<rparr>) b'
        (of_nat (ck_len ?d)) (of_nat (ck_cookie ?d)) = Inr (hp', (b', int (ck_cookie ?d)))"
      and hp': "balanced hp' ((live(b := None))(b' \<mapsto> ?d))" "block_data hp' (b', int (ck_cookie ?d)) = drop (ck_cookie ?d) bs"
        "\<And>x. x \<noteq> b' \<Longrightarrow> hp_mem hp' x = hp_mem (?f\<lparr>hp_mem := ?m\<rparr>) x"
      using fill_prefix_fresh[OF bal none len okd] by metis
    have data: "take (unat n) (drop ?k blk) = take (length blk - ?k) (drop ?k bs)"
      using arg_cong[OF new(3), of "drop ?k"] by (simp add: drop_take)
    have "block_data hp (b, int ?k) = drop ?k blk" and "length (block_data hp' (b', int ?k)) = unat n"
      using hp'(2) new(2) by (simp_all add: block_data_def[of hp] blk)
    then show ?thesis
      using f hp' none data by (auto simp: moved_result_def run Some a)
  qed (simp add: moved_result_def run)
qed

text \<open>A client writes into the data of a block it holds.\<close>

lemma store_live:
  assumes "balanced hp live" and "live b = Some c" and "i + length bs \<le> ck_len c"
  shows "\<exists>mem'. poke (hp_mem hp) b (int (ck_cookie c + i)) bs = Inr mem' \<and> balanced (hp\<lparr>hp_mem := mem'\<rparr>) live"
proof -
  let ?k = "ck_cookie c"
  obtain gap data where c: "ck_ok c" "length gap = ?k - 16" "length data = ck_len c"
    and mem: "hp_mem hp b = Some (block_of c gap data)"
    using balancedD(2)[OF assms(1,2)] by (auto simp: ck_holds_def)
  let ?p = "le_bytes 8 (ck_raw c) @ le_bytes 4 (unat (ck_owner c)) @ gap @ le_bytes 4 ?k"
  let ?d = "take i data @ bs @ drop (i + length bs) data"
  have len: "length ?p = ?k"
    using c by (simp add: ck_ok_def)
  have split: "data = take i data @ take (length bs) (drop i data) @ drop (i + length bs) data"
    by (metis append_take_drop_id drop_drop add.commute)
  have "poke (hp_mem hp) b (int (?k + i)) bs = Inr ((hp_mem hp)(b \<mapsto> (?p @ take i data) @ bs @ drop (i + length bs) data))"
    using mem split len c(3) assms(3)
    by (intro poke_at[where ys = "take (length bs) (drop i data)"]) (simp_all add: block_of_def)
  moreover have "ck_holds ((hp_mem hp)(b \<mapsto> (?p @ take i data) @ bs @ drop (i + length bs) data)) b c"
    unfolding ck_holds_def using c assms(3)
    by (intro conjI exI[of _ gap] exI[of _ ?d]) (simp_all add: block_of_def)
  moreover have "ck_holds ((hp_mem hp)(b \<mapsto> v)) b' c'" if "live b' = Some c'" and "ck_holds ((hp_mem hp)(b \<mapsto> v)) b c" for b' c' v
    using balancedD(2)[OF assms(1) that(1)] that assms(2) by (cases "b' = b") (auto intro: ck_holds_mem[of "hp_mem hp"])
  ultimately show ?thesis
    using balancedD[OF assms(1)] by (simp add: balanced_def del: append_assoc)
qed

section \<open>Reports\<close>

lemma atomic_merge_eq: "atomic_meminfo_merge d s = meminfo_merge d s"
  by (simp add: atomic_meminfo_merge_def merge_loads_def meminfo_merge_def)

lemma foldl_merge:
  "mi_alloc (foldl meminfo_merge d is) = mi_alloc d + (\<Sum>i\<leftarrow>is. mi_alloc i)"
  "mi_free (foldl meminfo_merge d is) = mi_free d + (\<Sum>i\<leftarrow>is. mi_free i)"
  "mi_alloc_count (foldl meminfo_merge d is) = mi_alloc_count d + (\<Sum>i\<leftarrow>is. mi_alloc_count i)"
  "mi_free_count (foldl meminfo_merge d is) = mi_free_count d + (\<Sum>i\<leftarrow>is. mi_free_count i)"
  by (induction "is" arbitrary: d) (auto simp: meminfo_merge_def)

lemma merged_diff:
  "mi_alloc (merged hp) - mi_free (merged hp) = (\<Sum>d\<leftarrow>used_slots hp. mi_alloc (md_info d) - mi_free (md_info d))"
  "mi_alloc_count (merged hp) - mi_free_count (merged hp) =
     (\<Sum>d\<leftarrow>used_slots hp. mi_alloc_count (md_info d) - mi_free_count (md_info d))"
proof -
  have "atomic_meminfo_merge = meminfo_merge"
    by (intro ext atomic_merge_eq)
  then show "mi_alloc (merged hp) - mi_free (merged hp) = (\<Sum>d\<leftarrow>used_slots hp. mi_alloc (md_info d) - mi_free (md_info d))"
    and "mi_alloc_count (merged hp) - mi_free_count (merged hp) =
     (\<Sum>d\<leftarrow>used_slots hp. mi_alloc_count (md_info d) - mi_free_count (md_info d))"
    by (simp_all add: merged_def foldl_merge meminfo_init_def o_def sum_list_subtractf)
qed

lemma get_mem_stat_less: "get_mem_stat h < SLOT_SIZE"
proof -
  have "h AND 0xffff = take_bit 16 h"
    by (simp add: take_bit_eq_mask mask_eq_exp_minus_1)
  then show ?thesis
    by (simp add: get_mem_stat_def SLOT_SIZE_def unsigned_take_bit_eq take_bit_nat_less_exp[of 16, simplified])
qed

lemma sum_used_slots:
  assumes "\<And>s. f s = of_nat (g s)" and "\<And>s. md_handle (hp_stat hp s) = 0 \<Longrightarrow> g s = 0"
  shows "(\<Sum>s\<leftarrow>filter (\<lambda>s. md_handle (hp_stat hp s) \<noteq> 0) [0..<n]. f s) = (of_nat (\<Sum>s<n. g s) :: u64)"
  using assms by (induction n) (auto simp: algebra_simps)

lemma slot_unused:
  assumes "slots_balanced (hp_stat hp) live" and "md_handle (hp_stat hp s) = 0"
  shows "slot_bytes live s = 0" and "slot_blocks live s = 0"
  using slots_balancedD(3)[OF assms(1)] assms(2) by (force simp: slot_bytes_def slot_blocks_def intro!: sum.neutral)+

definition live_bytes :: "(nat \<rightharpoonup> chunk) \<Rightarrow> nat" where
  "live_bytes live = (\<Sum>b\<in>dom live. ck_raw (the (live b)))"

lemma slots_total:
  assumes "finite (dom live)"
  shows "(\<Sum>s<SLOT_SIZE. slot_bytes live s) = live_bytes live" and "(\<Sum>s<SLOT_SIZE. slot_blocks live s) = card (dom live)"
proof -
  have one: "(\<Sum>s<SLOT_SIZE. if ck_slot c = s then x else 0) = x" for c and x :: nat
    using get_mem_stat_less by (simp add: ck_slot_def)
  show "(\<Sum>s<SLOT_SIZE. slot_bytes live s) = live_bytes live"
    unfolding slot_bytes_def live_bytes_def by (subst sum.swap) (simp only: one)
  show "(\<Sum>s<SLOT_SIZE. slot_blocks live s) = card (dom live)"
    unfolding slot_blocks_def by (subst sum.swap) (simp only: one, simp)
qed

lemma used_memory_balanced:
  assumes "balanced hp live"
  shows "malloc_used_memory hp = of_nat (live_bytes live)" and "malloc_memory_block hp = of_nat (card (dom live))"
proof -
  note sb = balancedD(3)[OF assms]
  have used: "(\<Sum>d\<leftarrow>used_slots hp. f d) = (\<Sum>s\<leftarrow>filter (\<lambda>s. md_handle (hp_stat hp s) \<noteq> 0) [0..<SLOT_SIZE]. f (hp_stat hp s))"
    for f :: "mem_data \<Rightarrow> u64"
    by (simp add: used_slots_def filter_map o_def)
  have "malloc_used_memory hp = of_nat (\<Sum>s<SLOT_SIZE. slot_bytes live s)"
    unfolding malloc_used_memory_def Let_def merged_diff(1) used
    by (rule sum_used_slots) (use sb slot_unused[OF sb] in \<open>auto simp: slots_balanced_def\<close>)
  then show "malloc_used_memory hp = of_nat (live_bytes live)"
    by (simp only: slots_total(1)[OF balancedD(1)[OF assms]])
  have "malloc_memory_block hp = of_nat (\<Sum>s<SLOT_SIZE. slot_blocks live s)"
    unfolding malloc_memory_block_def Let_def merged_diff(2) used
    by (rule sum_used_slots) (use sb slot_unused[OF sb] in \<open>auto simp: slots_balanced_def\<close>)
  then show "malloc_memory_block hp = of_nat (card (dom live))"
    by (simp only: slots_total(2)[OF balancedD(1)[OF assms]])
qed

lemma current_memory_balanced:
  assumes "balanced hp live" and "md_handle (hp_stat hp (get_mem_stat h)) = h"
  shows "malloc_current_memory h hp = of_nat (slot_bytes live (get_mem_stat h))"
  using balancedD(3)[OF assms(1)] assms(2)
  by (simp add: malloc_current_memory_def Let_def atomic_merge_eq meminfo_merge_def meminfo_init_def slots_balanced_def)

section \<open>Runs\<close>

text \<open>The clients: the services through the hooks, their writes to their own blocks, and Lua.\<close>

inductive mem_step :: "allocator \<Rightarrow> heap \<times> (nat \<rightharpoonup> chunk) \<Rightarrow> heap \<times> (nat \<rightharpoonup> chunk) \<Rightarrow> bool" for J where
  ms_malloc: "\<lbrakk>h \<noteq> 0; unat n + 16 < 2 ^ 64; skynet_malloc_hook J h hp n = Inr (hp', (b, off))\<rbrakk> \<Longrightarrow>
    mem_step J (hp, live) (hp', live(b \<mapsto> \<lparr>ck_cookie = nat off, ck_owner = h, ck_len = unat n\<rparr>))"
| ms_calloc: "\<lbrakk>h \<noteq> 0; 0 < unat n; unat n + 15 < 2 ^ 32; unat k * unat n + unat n + 15 < 2 ^ 64;
    skynet_calloc J h hp k n = Inr (hp', (b, off))\<rbrakk> \<Longrightarrow>
    mem_step J (hp, live) (hp', live(b \<mapsto> \<lparr>ck_cookie = nat off, ck_owner = h, ck_len = unat k * unat n\<rparr>))"
| ms_memalign: "\<lbrakk>h \<noteq> 0; 0 < unat a; unat a < 2 ^ 32; unat n + unat a + 15 < 2 ^ 64;
    skynet_memalign J h hp a n = Inr (hp', (b, off))\<rbrakk> \<Longrightarrow>
    mem_step J (hp, live) (hp', live(b \<mapsto> \<lparr>ck_cookie = nat off, ck_owner = h, ck_len = unat n\<rparr>))"
| ms_realloc: "\<lbrakk>h \<noteq> 0; live b = Some c; unat n + ck_cookie c < 2 ^ 64;
    skynet_realloc J h hp (Some (b, int (ck_cookie c))) n = Inr (hp', (b', off))\<rbrakk> \<Longrightarrow>
    mem_step J (hp, live) (hp', (live(b := None))(b' \<mapsto> \<lparr>ck_cookie = nat off, ck_owner = h, ck_len = unat n\<rparr>))"
| ms_free: "\<lbrakk>live b = Some c; skynet_free_hook hp (Some (b, int (ck_cookie c))) = Inr hp'\<rbrakk> \<Longrightarrow>
    mem_step J (hp, live) (hp', live(b := None))"
| ms_store: "\<lbrakk>live b = Some c; i + length bs \<le> ck_len c; poke (hp_mem hp) b (int (ck_cookie c + i)) bs = Inr mem'\<rbrakk> \<Longrightarrow>
    mem_step J (hp, live) (hp\<lparr>hp_mem := mem'\<rparr>, live)"
| ms_lua: "\<lbrakk>\<And>b. p = Some b \<Longrightarrow> live b = None; skynet_lalloc J hp p n = Inr (hp', r)\<rbrakk> \<Longrightarrow>
    mem_step J (hp, live) (hp', live)"

lemma balanced_mem:
  assumes "balanced hp live" and "\<And>b. live b \<noteq> None \<Longrightarrow> mem' b = hp_mem hp b"
  shows "balanced (hp\<lparr>hp_mem := mem'\<rparr>) live"
  using assms balancedD[OF assms(1)] by (auto simp: balanced_def intro: ck_holds_mem[of "hp_mem hp"])

lemma lalloc_balanced:
  assumes "je_ok J" and "balanced hp live" and "\<And>b. p = Some b \<Longrightarrow> live b = None" and "skynet_lalloc J hp p n = Inr (hp', r)"
  shows "balanced hp' live"
proof (cases "n = 0")
  case True
  then show ?thesis
    using assms(2-4)
    by (auto simp: skynet_lalloc_def je_free_def cbind_Inr_iff split: option.splits intro!: balanced_mem[OF assms(2)])
next
  case False
  note fresh = balanced_not_live[OF assms(2)]
  show ?thesis
  proof (cases p)
    case None
    then show ?thesis
      using assms(2,4) False fresh je_okD(1)[OF assms(1)]
      by (auto simp: skynet_lalloc_def split: option.splits intro!: balanced_mem[OF assms(2)])
  next
    case (Some b)
    then show ?thesis
      using assms(2-4) False
      by (auto simp: skynet_lalloc_def cbind_Inr_iff fresh split: option.splits intro!: balanced_mem[OF assms(2)]
          dest!: je_okD(4)[OF assms(1)])
  qed
qed

lemma mem_step_balanced:
  assumes "je_ok J" and "mem_step J s s'" and "balanced (fst s) (snd s)"
  shows "balanced (fst s') (snd s')"
  using assms(2,3)
proof cases
  case (ms_malloc h n hp hp' b off live)
  then show ?thesis
    using malloc_new[OF assms(1), of hp live h n] assms(3) by (auto simp: new_result_def)
next
  case (ms_calloc h n k hp hp' b off live)
  then show ?thesis
    using calloc_new[OF assms(1), of hp live h n k] assms(3) by (auto simp: new_result_def nat_mult_distrib)
next
  case (ms_memalign h a n hp hp' b off live)
  then show ?thesis
    using memalign_new[OF assms(1), of hp live h a n] assms(3) by (auto simp: new_result_def)
next
  case (ms_realloc h live b c n hp hp' b' off)
  then show ?thesis
    using realloc_moves[OF assms(1), of hp live h b c n] assms(3) by (cases c) (auto simp: moved_result_def)
next
  case (ms_free live b c hp hp')
  then show ?thesis
    using free_live[of hp live b c] assms(3) by auto
next
  case (ms_store live b c i bs hp mem')
  then show ?thesis
    using store_live[of hp live b c i bs] assms(3) by auto
next
  case (ms_lua p live hp n hp' r)
  then show ?thesis
    using lalloc_balanced[OF assms(1), of hp live p n hp' r] assms(3) by auto
qed

text \<open>The states of a run that starts with no statistics.\<close>

definition mem_run :: "allocator \<Rightarrow> heap \<Rightarrow> (nat \<rightharpoonup> chunk) \<Rightarrow> bool" where
  "mem_run J hp live \<longleftrightarrow>
     (\<exists>mem. (mem_step J)\<^sup>*\<^sup>* (\<lparr>hp_mem = mem, hp_stat = \<lambda>_. \<lparr>md_handle = 0, md_info = meminfo_init\<rparr>\<rparr>, Map.empty) (hp, live))"

lemma mem_run_balanced:
  assumes "je_ok J" and "mem_run J hp live"
  shows "balanced hp live"
proof -
  obtain mem where run: "(mem_step J)\<^sup>*\<^sup>*
      (\<lparr>hp_mem = mem, hp_stat = \<lambda>_. \<lparr>md_handle = 0, md_info = meminfo_init\<rparr>\<rparr>, Map.empty) (hp, live)"
    using assms(2) by (auto simp: mem_run_def)
  have "balanced (fst (hp, live)) (snd (hp, live))"
    using run
  proof induction
    case base
    show ?case
      by (auto simp: balanced_def slots_balanced_def slot_bytes_def slot_blocks_def meminfo_init_def)
  qed (rule mem_step_balanced[OF assms(1)])
  then show ?thesis
    by simp
qed

lemma fill_prefix_overrun:
  assumes "hp_mem hp b = Some blk" and "int (length blk) < uint k \<or> uint k < 4"
  shows "fill_prefix h hp b sz k = Inl OutOfBounds"
  using assms by (auto simp: fill_prefix_def poke_def deref_def Let_def)

lemma new_block_overrun:
  assumes "\<And>b bs. r = Some (b, bs) \<Longrightarrow> int (length bs) < uint k \<or> uint k < 4"
  shows "cbind (new_block hp r) (\<lambda>(hp, b). fill_prefix h hp b sz k) \<in> {Inl Exits, Inl OutOfBounds}"
proof (cases r)
  case (Some a)
  then show ?thesis
    using assms by (cases a) (auto simp: new_block_def intro!: fill_prefix_overrun)
qed (simp add: new_block_def)

section \<open>Properties of the hooks\<close>

text \<open>An allocator with one block, to run the model on.\<close>

definition one_block :: allocator where
  "one_block =
     \<lparr>je_malloc = \<lambda>mem n. if mem 0 = None then Some (0, replicate n 7) else None,
      je_calloc = \<lambda>mem k n. if mem 0 = None then Some (0, replicate (k * n) 0) else None,
      je_realloc = \<lambda>mem b n. (case mem b of None \<Rightarrow> None | Some blk \<Rightarrow> Some (b, take n blk @ replicate (n - length blk) 7)),
      je_memalign = \<lambda>mem a n. if mem 0 = None then Some (0, replicate n 7) else None\<rparr>"

lemma one_block_ok: "je_ok one_block"
proof -
  have "take (length blk) (take n blk @ replicate (n - length blk) 7) = take n blk" for n and blk :: "u8 list"
    by (cases "length blk \<le> n") auto
  then show ?thesis
    by (auto simp: je_ok_def one_block_def split: if_splits option.splits)
qed

definition no_stats :: heap where
  "no_stats = \<lparr>hp_mem = Map.empty, hp_stat = \<lambda>_. \<lparr>md_handle = 0, md_info = meminfo_init\<rparr>\<rparr>"

lemma one_block_run:
  obtains hp where "mem_run one_block hp [0 \<mapsto> \<lparr>ck_cookie = 16, ck_owner = 1, ck_len = 3\<rparr>]"
    and "block_data hp (0, 16) = replicate 3 7"
proof -
  define m where "m = ([0 \<mapsto> replicate 19 7] :: nat \<rightharpoonup> u8 list)"
  have c: "ck_ok \<lparr>ck_cookie = 16, ck_owner = 1, ck_len = 3\<rparr>"
    by (simp add: ck_ok_def ck_raw_def)
  have bal: "balanced no_stats Map.empty"
    by (auto simp: balanced_def slots_balanced_def slot_bytes_def slot_blocks_def meminfo_init_def no_stats_def)
  obtain hp where f: "fill_prefix 1 (no_stats\<lparr>hp_mem := (hp_mem no_stats)(0 \<mapsto> replicate 19 7)\<rparr>) 0 3 16 = Inr (hp, (0, 16))"
    and d: "block_data hp (0, 16) = drop 16 (replicate 19 7)"
    using fill_prefix_fresh[OF bal _ _ c, where b = 0 and blk = "replicate 19 7"] by (auto simp: ck_raw_def)
  have "skynet_malloc_hook one_block 1 no_stats 3 = Inr (hp, (0, 16))"
    using f by (simp add: skynet_malloc_hook_def one_block_def new_block_def no_stats_def PREFIX_SIZE_def)
  then have "mem_step one_block (no_stats, Map.empty) (hp, Map.empty(0 \<mapsto> \<lparr>ck_cookie = nat 16, ck_owner = 1, ck_len = unat (3 :: u64)\<rparr>))"
    by (intro ms_malloc) simp_all
  then have "mem_run one_block hp [0 \<mapsto> \<lparr>ck_cookie = 16, ck_owner = 1, ck_len = 3\<rparr>]"
    unfolding mem_run_def no_stats_def by (intro exI r_into_rtranclp) simp
  with d show thesis
    by (intro that) (simp_all add: numeral_eq_Suc)
qed



text \<open>
  C28. \<open>skynet_realloc\<close> of a block in use ends the process for want of memory or gives a block of the
  new length that begins with the old data, as far as both go, and leaves every other block alone.
\<close>

theorem realloc_keeps_data:
  assumes "je_ok J" and "mem_run J hp live" and "live b = Some c" and "h \<noteq> 0" and "unat n + ck_cookie c < 2 ^ 64"
  defines "old \<equiv> block_data hp (b, int (ck_cookie c))"
  shows "skynet_realloc J h hp (Some (b, int (ck_cookie c))) n = Inl Exits \<or>
    (\<exists>hp' p. skynet_realloc J h hp (Some (b, int (ck_cookie c))) n = Inr (hp', p) \<and>
       length (block_data hp' p) = unat n \<and> take (length old) (block_data hp' p) = take (unat n) old \<and>
       (\<forall>x\<in>dom live - {b}. fst p \<noteq> x \<and> hp_mem hp' x = hp_mem hp x))"
  using realloc_moves[OF assms(1) mem_run_balanced[OF assms(1,2)] assms(4,3,5)]
  unfolding moved_result_def old_def by (fastforce split: if_splits)

theorem realloc_keeps_data_witness:
  "\<exists>hp hp' p. block_data hp (0, 16) = [7, 7, 7] \<and> skynet_realloc one_block 1 hp (Some (0, 16)) 2 = Inr (hp', p) \<and>
     block_data hp' p = [7, 7]"
proof -
  obtain hp where run: "mem_run one_block hp [0 \<mapsto> \<lparr>ck_cookie = 16, ck_owner = 1, ck_len = 3\<rparr>]"
    and d: "block_data hp (0, 16) = replicate 3 7"
    by (rule one_block_run)
  have holds: "ck_holds (hp_mem hp) 0 \<lparr>ck_cookie = 16, ck_owner = 1, ck_len = 3\<rparr>"
    using balancedD(2)[OF mem_run_balanced[OF one_block_ok run], of 0] by simp
  then have "hp_mem hp 0 \<noteq> None"
    by (auto simp: ck_holds_def)
  then have "skynet_realloc one_block 1 hp (Some (0, 16)) 2 \<noteq> Inl Exits"
    using clean_prefix_block[OF holds]
    by (auto simp: skynet_realloc_def one_block_def split: option.splits dest!: fill_prefix_errors[rotated])
  then obtain hp' p where "skynet_realloc one_block 1 hp (Some (0, 16)) 2 = Inr (hp', p)"
    and len: "length (block_data hp' p) = 2" and "take 3 (block_data hp' p) = take 2 (replicate 3 7)"
    using realloc_keeps_data[OF one_block_ok run, of 0 "\<lparr>ck_cookie = 16, ck_owner = 1, ck_len = 3\<rparr>" 1 2] d by auto
  moreover have "take 3 (block_data hp' p) = block_data hp' p"
    using len by simp
  ultimately show ?thesis
    using d by (intro exI[of _ hp] exI[of _ hp'] exI[of _ p]) (simp add: numeral_eq_Suc)
qed

text \<open>
  A size too close to the end of the numbers wraps when the prefix is added: \<open>skynet_malloc\<close> of one
  of the last 16 sizes, and \<open>skynet_calloc\<close> of elements whose size is a multiple of 2 to the 32, whose cookie
  size is cut to zero, end the process or write the prefix outside the block; they never give a block.
\<close>

theorem malloc_size_wraps:
  assumes "je_ok J"
  shows "(2 ^ 64 - 16 \<le> unat n \<longrightarrow> skynet_malloc_hook J h hp n \<in> {Inl Exits, Inl OutOfBounds}) \<and>
    (2 ^ 32 dvd unat m \<and> m \<noteq> 0 \<longrightarrow> skynet_calloc J h hp k m \<in> {Inl Exits, Inl OutOfBounds})"
proof (intro conjI impI)
  assume "2 ^ 64 - 16 \<le> unat n"
  then have "unat (n + 16) < 16"
    using unsigned_less[of n, where ?'a = nat] by (simp add: unat_plus_if')
  then show "skynet_malloc_hook J h hp n \<in> {Inl Exits, Inl OutOfBounds}"
    unfolding skynet_malloc_hook_def
    by (intro new_block_overrun) (auto simp: PREFIX_SIZE_def dest!: je_okD(1)[OF assms])
next
  assume "2 ^ 32 dvd unat m \<and> m \<noteq> 0"
  then have m: "2 ^ 32 dvd unat m" "0 < unat m"
    by (simp_all add: unat_gt_0)
  then have "2 ^ 32 \<le> unat m"
    by (auto dest: dvd_imp_le)
  have "unat m \<le> 2 ^ 64 - 2 ^ 32"
    using m(1) unsigned_less[of m, where ?'a = nat] by (auto elim!: dvdE)
  then have "unat (of_nat PREFIX_SIZE + m - 1) = 15 + unat m"
    using unat_of_nat_u64[of "15 + unat m"] by (simp add: PREFIX_SIZE_def)
  then have "unat ((of_nat PREFIX_SIZE + m - 1) div m) = 1"
    using \<open>2 ^ 32 \<le> unat m\<close> by (simp add: unat_div div_nat_eqI)
  then have one: "(of_nat PREFIX_SIZE + m - 1) div m = 1"
    by (simp add: word_unat_eq_iff)
  have "(ucast m :: u32) = 0"
    using m(1) by (simp add: word_unat_eq_iff unsigned_ucast_eq take_bit_eq_mod)
  then show "skynet_calloc J h hp k m \<in> {Inl Exits, Inl OutOfBounds}"
    using m(2) unfolding skynet_calloc_def Let_def one
    by (auto intro!: new_block_overrun[simplified])
qed

theorem malloc_size_wraps_witness:
  "skynet_calloc one_block 1 no_stats 1 0x100000000 \<in> {Inl Exits, Inl OutOfBounds}"
  using malloc_size_wraps[OF one_block_ok, where m = "0x100000000" and h = 1 and hp = no_stats and k = 1] by simp

end
