(* ===== verification/Sky_Meminfo.thy ===== *)
theory Sky_Meminfo
  imports Sky_Malloc
begin

text \<open>
  The order of the loads in \<open>atomic_meminfo_merge\<close> (\<^verbatim>\<open>skynet-src/mem_info.c\<close>): the counters of a service are
  read while threads allocate and free, and what is read never has more freed than allocated.
\<close>

section \<open>Threads and a reader\<close>

text \<open>
  The life of a block: it is counted by \<open>atomic_meminfo_alloc\<close> before its pointer is known to anyone,
  and by \<open>atomic_meminfo_free\<close> when it is freed, in each case counter by counter. The state has the
  counters of the service, how far the life of each block has come, and what the reader has loaded.
\<close>

definition life :: "u64 \<Rightarrow> stat_op list" where
  "life n = atomic_meminfo_alloc n @ atomic_meminfo_free n"

record stat_reader =
  rp_info :: mem_info
  rp_done :: "nat \<Rightarrow> nat"
  rp_local :: mem_info
  rp_loads :: nat

inductive report_step :: "(nat \<Rightarrow> u64) \<Rightarrow> stat_reader \<Rightarrow> stat_reader \<Rightarrow> bool" for sizes where
  work: "rp_done s b < 4 \<Longrightarrow>
    report_step sizes s (s\<lparr>rp_info := stat_apply (life (sizes b) ! rp_done s b) (rp_info s), rp_done := (rp_done s)(b := Suc (rp_done s b))\<rparr>)"
| load: "rp_loads s < 4 \<Longrightarrow>
    report_step sizes s (s\<lparr>rp_local := (merge_loads ! rp_loads s) (rp_info s) (rp_local s), rp_loads := rp_loads s + 1\<rparr>)"

definition report_init :: stat_reader where
  "report_init = \<lparr>rp_info = meminfo_init, rp_done = \<lambda>_. 0, rp_local = meminfo_init, rp_loads = 0\<rparr>"

section \<open>The counters\<close>

text \<open>The blocks whose life has come to step \<open>i\<close>, their number and the sum of their sizes.\<close>

definition reached :: "nat \<Rightarrow> (nat \<Rightarrow> nat) \<Rightarrow> nat set" where
  "reached i d = {b. i \<le> d b}"

definition bytes_at :: "(nat \<Rightarrow> u64) \<Rightarrow> nat \<Rightarrow> (nat \<Rightarrow> nat) \<Rightarrow> nat" where
  "bytes_at sizes i d = (\<Sum>b\<in>reached i d. unat (sizes b))"

definition counters :: "(nat \<Rightarrow> u64) \<Rightarrow> (nat \<Rightarrow> nat) \<Rightarrow> mem_info" where
  "counters sizes d = \<lparr>mi_alloc = of_nat (bytes_at sizes 1 d), mi_alloc_count = of_nat (card (reached 2 d)),
     mi_free = of_nat (bytes_at sizes 3 d), mi_free_count = of_nat (card (reached 4 d))\<rparr>"

lemma reached_mono: "i \<le> j \<Longrightarrow> reached j d \<subseteq> reached i d"
  by (auto simp: reached_def)

lemma reached_finite: "finite (reached 1 d) \<Longrightarrow> 1 \<le> i \<Longrightarrow> finite (reached i d)"
  using finite_subset[OF reached_mono[of 1 i d]] by simp

lemma reached_next:
  "reached i (d(b := Suc (d b))) = (if i = Suc (d b) then insert b (reached i d) else reached i d)"
  by (auto simp: reached_def)

lemma bytes_next:
  assumes "finite (reached 1 d)" and "1 \<le> i"
  shows "bytes_at sizes i (d(b := Suc (d b))) = (if i = Suc (d b) then unat (sizes b) else 0) + bytes_at sizes i d"
proof -
  have "b \<notin> reached (Suc (d b)) d"
    by (simp add: reached_def)
  then show ?thesis
    using reached_finite[OF assms] by (auto simp: bytes_at_def reached_next)
qed

lemma card_next:
  assumes "finite (reached 1 d)" and "1 \<le> i"
  shows "card (reached i (d(b := Suc (d b)))) = (if i = Suc (d b) then 1 else 0) + card (reached i d)"
proof -
  have "b \<notin> reached (Suc (d b)) d"
    by (simp add: reached_def)
  then show ?thesis
    using reached_finite[OF assms] by (auto simp: reached_next)
qed

lemma counters_next:
  assumes "finite (reached 1 d)" and "d b < 4"
  shows "counters sizes (d(b := Suc (d b))) = stat_apply (life (sizes b) ! d b) (counters sizes d)"
proof -
  define e where "e = d(b := Suc (d b))"
  note next_e = bytes_next[OF assms(1), of _ sizes b, folded e_def] card_next[OF assms(1), of _ b, folded e_def]
  have "d b = 0 \<or> d b = 1 \<or> d b = 2 \<or> d b = 3"
    using assms(2) by auto
  then show ?thesis
    unfolding e_def[symmetric] counters_def using next_e(1)[of 1] next_e(1)[of 3] next_e(2)[of 2] next_e(2)[of 4]
    by (elim disjE) (simp_all add: life_def atomic_meminfo_alloc_def atomic_meminfo_free_def algebra_simps)
qed

section \<open>What is read\<close>

text \<open>No more is counted as allocated than the numbers hold.\<close>

definition in_range :: "(nat \<Rightarrow> u64) \<Rightarrow> (nat \<Rightarrow> nat) \<Rightarrow> bool" where
  "in_range sizes d \<longleftrightarrow> bytes_at sizes 1 d < 2 ^ 64 \<and> card (reached 1 d) < 2 ^ 64"

text \<open>What was loaded has been reached, and what is loaded later has been reached later.\<close>

definition report_ok :: "(nat \<Rightarrow> u64) \<Rightarrow> stat_reader \<Rightarrow> bool" where
  "report_ok sizes s \<longleftrightarrow> finite (reached 1 (rp_done s)) \<and> rp_info s = counters sizes (rp_done s) \<and>
     (1 \<le> rp_loads s \<longrightarrow> unat (mi_free_count (rp_local s)) \<le> card (reached 4 (rp_done s))) \<and>
     (2 \<le> rp_loads s \<longrightarrow> unat (mi_free (rp_local s)) \<le> bytes_at sizes 3 (rp_done s)) \<and>
     (3 \<le> rp_loads s \<longrightarrow> mi_free_count (rp_local s) \<le> mi_alloc_count (rp_local s)) \<and>
     (4 \<le> rp_loads s \<longrightarrow> mi_free (rp_local s) \<le> mi_alloc (rp_local s))"

lemma reached_le:
  assumes "finite (reached 1 d)" and "1 \<le> i" and "i \<le> j"
  shows "card (reached j d) \<le> card (reached i d)" and "bytes_at sizes j d \<le> bytes_at sizes i d"
  using reached_finite[OF assms(1,2)] reached_mono[OF assms(3), of d]
  by (auto simp: bytes_at_def intro: card_mono sum_mono2)

lemma counters_unat:
  assumes "finite (reached 1 d)" and "in_range sizes d"
  shows "unat (mi_alloc (counters sizes d)) = bytes_at sizes 1 d"
    and "unat (mi_alloc_count (counters sizes d)) = card (reached 2 d)"
    and "unat (mi_free (counters sizes d)) = bytes_at sizes 3 d"
    and "unat (mi_free_count (counters sizes d)) = card (reached 4 d)"
proof -
  have small: "unat (of_nat n :: u64) = n" if "n < 2 ^ 64" for n
    using that by (simp add: unsigned_of_nat take_bit_nat_eq_self)
  have "bytes_at sizes 3 d < 2 ^ 64" "card (reached 2 d) < 2 ^ 64" "card (reached 4 d) < 2 ^ 64"
    using assms(2) reached_le(2)[OF assms(1), of 1 3 sizes] reached_le(1)[OF assms(1), of 1 2] reached_le(1)[OF assms(1), of 1 4]
    unfolding in_range_def by linarith+
  moreover have "bytes_at sizes 1 d < 2 ^ 64"
    using assms(2) by (simp add: in_range_def)
  ultimately show "unat (mi_alloc (counters sizes d)) = bytes_at sizes 1 d"
    and "unat (mi_alloc_count (counters sizes d)) = card (reached 2 d)"
    and "unat (mi_free (counters sizes d)) = bytes_at sizes 3 d"
    and "unat (mi_free_count (counters sizes d)) = card (reached 4 d)"
    by (simp_all add: counters_def small del: unsigned_of_nat)
qed

lemma report_step_ok:
  assumes "report_step sizes s s'" and "report_ok sizes s" and "in_range sizes (rp_done s)"
  shows "report_ok sizes s'"
  using assms(1)
proof cases
  case (work b)
  have fin: "finite (reached 1 (rp_done s))"
    using assms(2) by (simp add: report_ok_def)
  then have "finite (reached 1 (rp_done s'))"
    by (simp add: work(1) reached_next)
  moreover have "rp_info s' = counters sizes (rp_done s')"
    using counters_next[OF fin work(2)] assms(2) by (simp add: work(1) report_ok_def)
  moreover have "card (reached i (rp_done s)) \<le> card (reached i (rp_done s'))" if "1 \<le> i" for i
    using card_next[OF fin that, of b] by (simp add: work(1))
  moreover have "bytes_at sizes i (rp_done s) \<le> bytes_at sizes i (rp_done s')" if "1 \<le> i" for i
    using bytes_next[OF fin that, of sizes b] by (simp add: work(1))
  ultimately show ?thesis
    using assms(2) by (auto simp: report_ok_def work(1) intro: order_trans)
next
  case load
  have fin: "finite (reached 1 (rp_done s))" and info: "rp_info s = counters sizes (rp_done s)"
    using assms(2) by (simp_all add: report_ok_def)
  note un = counters_unat[OF fin assms(3)]
  have "rp_loads s = 0 \<or> rp_loads s = 1 \<or> rp_loads s = 2 \<or> rp_loads s = 3"
    using load(2) by auto
  then show ?thesis
    using assms(2) un reached_le[OF fin, of 2 4] reached_le[OF fin, of 1 3]
    unfolding report_ok_def load(1)
    by (elim disjE) (auto simp: info merge_loads_def word_le_nat_alt intro: order_trans)
qed

lemma in_range_step:
  assumes "report_step sizes s s'" and "in_range sizes (rp_done s')" and "finite (reached 1 (rp_done s))"
  shows "in_range sizes (rp_done s)"
  using assms(1)
proof cases
  case (work b)
  then show ?thesis
    using assms(2) bytes_next[OF assms(3) order_refl, of sizes b] card_next[OF assms(3) order_refl, of b]
    by (simp add: in_range_def)
qed (use assms(2) in simp)

lemma report_run_ok:
  assumes "(report_step sizes)\<^sup>*\<^sup>* report_init s"
  shows "finite (reached 1 (rp_done s)) \<and> (in_range sizes (rp_done s) \<longrightarrow> report_ok sizes s)"
  using assms
proof induction
  case base
  show ?case
    by (simp add: report_init_def report_ok_def reached_def counters_def bytes_at_def meminfo_init_def)
next
  case (step s s')
  have "finite (reached 1 (rp_done s'))"
    using step.hyps(2) step.IH by cases (auto simp: reached_next simp del: fun_upd_apply)
  then show ?case
    using step in_range_step[OF step.hyps(2)] report_step_ok[OF step.hyps(2)] by blast
qed

text \<open>
  C29. However the threads run between the loads of \<open>atomic_meminfo_merge\<close>, as long as less than 2 to the 64 was
  allocated, the bytes and the blocks it has read as freed are at most those it has read as
  allocated: the memory in use it reports is not below zero.
\<close>

theorem report_not_negative:
  assumes "(report_step sizes)\<^sup>*\<^sup>* report_init s" and "in_range sizes (rp_done s)" and "rp_loads s = 4"
  shows "mi_free (rp_local s) \<le> mi_alloc (rp_local s) \<and> mi_free_count (rp_local s) \<le> mi_alloc_count (rp_local s)"
  using report_run_ok[OF assms(1)] assms(2,3) by (simp add: report_ok_def)

text \<open>A block of five bytes that is freed after the first load.\<close>

theorem report_not_negative_witness:
  "\<exists>s. (report_step (\<lambda>_. 5))\<^sup>*\<^sup>* report_init s \<and> rp_loads s = 4 \<and> mi_free (rp_local s) = 5 \<and>
     mi_free (rp_local s) \<le> mi_alloc (rp_local s) \<and> mi_free_count (rp_local s) \<le> mi_alloc_count (rp_local s)"
proof -
  define w where "w s = s\<lparr>rp_info := stat_apply (life 5 ! rp_done s 0) (rp_info s), rp_done := (rp_done s)(0 := Suc (rp_done s 0))\<rparr>"
    for s :: stat_reader
  define l where "l s = s\<lparr>rp_local := (merge_loads ! rp_loads s) (rp_info s) (rp_local s), rp_loads := rp_loads s + 1\<rparr>"
    for s :: stat_reader
  note defs = report_init_def meminfo_init_def life_def atomic_meminfo_alloc_def atomic_meminfo_free_def merge_loads_def
  have sel: "rp_done (w s) = (rp_done s)(0 := Suc (rp_done s 0))" "rp_loads (w s) = rp_loads s" "rp_local (w s) = rp_local s"
      "rp_info (w s) = stat_apply (life 5 ! rp_done s 0) (rp_info s)"
      "rp_done (l s) = rp_done s" "rp_loads (l s) = rp_loads s + 1" "rp_info (l s) = rp_info s"
      "rp_local (l s) = (merge_loads ! rp_loads s) (rp_info s) (rp_local s)" for s
    by (simp_all add: w_def l_def)
  define s where "s = l (l (l (w (l (w (w report_init))))))"
  have w: "(report_step (\<lambda>_. 5))\<^sup>*\<^sup>* report_init (w s)" if "(report_step (\<lambda>_. 5))\<^sup>*\<^sup>* report_init s" and "rp_done s 0 < 4" for s
    using that(1) work[of s 0 "\<lambda>_. 5", OF that(2)] unfolding w_def by (rule rtranclp.rtrancl_into_rtrancl)
  have l: "(report_step (\<lambda>_. 5))\<^sup>*\<^sup>* report_init (l s)" if "(report_step (\<lambda>_. 5))\<^sup>*\<^sup>* report_init s" and "rp_loads s < 4" for s
    using that(1) load[of s "\<lambda>_. 5", OF that(2)] unfolding l_def by (rule rtranclp.rtrancl_into_rtrancl)
  have run: "(report_step (\<lambda>_. 5))\<^sup>*\<^sup>* report_init s"
    unfolding s_def by (intro l w rtranclp.rtrancl_refl) (simp_all add: sel report_init_def)
  have "reached i (rp_done s) \<subseteq> {0}" if "1 \<le> i" for i
    using that by (auto simp: reached_def s_def sel report_init_def split: if_splits)
  then have "reached 1 (rp_done s) = {} \<or> reached 1 (rp_done s) = {0}"
    by (simp add: subset_singleton_iff)
  then have "in_range (\<lambda>_. 5) (rp_done s)"
    unfolding in_range_def bytes_at_def by (elim disjE) (simp_all only:, simp_all)
  moreover have "rp_loads s = 4"
    by (simp add: s_def sel report_init_def)
  moreover have "mi_free (rp_local s) = 5"
    by (simp add: s_def sel defs)
  ultimately show ?thesis
    using report_not_negative[OF run] run by blast
qed

end
