(* ===== verification/Sky_Snlua_Signal.thy ===== *)
theory Sky_Snlua_Signal
  imports Sky_Prelude
begin

text \<open>
  Model of what runs concurrently in \<^verbatim>\<open>service-src/service_snlua.c\<close>: the seed all Lua states share
  (\<open>global_seed\<close>), and the trap by which another thread interrupts the Lua code of a service
  (\<open>snlua_signal\<close>, \<open>signal_hook\<close>, \<open>switchL\<close>, \<open>lua_resumeX\<close>). A step is one access to shared memory.
\<close>

section \<open>The seed\<close>

datatype seed_pc = SeedLoad | SeedMake | SeedCas u32 | SeedReturn u32

record seeds =
  sd_seed :: u32
  sd_pc :: "nat \<Rightarrow> seed_pc"

definition seeds_init :: seeds where "seeds_init = \<lparr>sd_seed = 0, sd_pc = \<lambda>_. SeedLoad\<rparr>"

definition after_load :: "u32 \<Rightarrow> seed_pc" where
  "after_load v = (if v = 0 then SeedMake else SeedReturn v)"

text \<open>The number \<open>t\<close> is what \<open>luaL_makeseed\<close> returns.\<close>

inductive seed_step :: "seeds \<Rightarrow> seeds \<Rightarrow> bool" where
  seed_load: "sd_pc s i = SeedLoad \<Longrightarrow> seed_step s (s\<lparr>sd_pc := (sd_pc s)(i := after_load (sd_seed s))\<rparr>)"
| seed_make: "sd_pc s i = SeedMake \<Longrightarrow> seed_step s (s\<lparr>sd_pc := (sd_pc s)(i := SeedCas (if t = 0 then 1 else t))\<rparr>)"
| seed_cas: "sd_pc s i = SeedCas t \<Longrightarrow>
    seed_step s (s\<lparr>sd_seed := if sd_seed s = 0 then t else sd_seed s, sd_pc := (sd_pc s)(i := SeedLoad)\<rparr>)"

inductive_cases seed_stepE: "seed_step s s'"

definition seeds_ok :: "seeds \<Rightarrow> bool" where
  "seeds_ok s \<longleftrightarrow> (\<forall>i. (\<forall>t. sd_pc s i = SeedCas t \<longrightarrow> t \<noteq> 0) \<and> (\<forall>r. sd_pc s i = SeedReturn r \<longrightarrow> r \<noteq> 0 \<and> r = sd_seed s))"

lemma seed_step_ok: "seed_step s s' \<Longrightarrow> seeds_ok s \<Longrightarrow> seeds_ok s'"
  by (erule seed_stepE) (auto simp: seeds_ok_def after_load_def split: if_splits)

lemma seed_run_ok: "seed_step\<^sup>*\<^sup>* seeds_init s \<Longrightarrow> seeds_ok s"
proof (induction rule: rtranclp_induct)
  case base
  show ?case
    by (simp add: seeds_init_def seeds_ok_def)
qed (rule seed_step_ok)

lemma seed_once: "seed_step\<^sup>*\<^sup>* s s' \<Longrightarrow> sd_seed s \<noteq> 0 \<Longrightarrow> sd_seed s' = sd_seed s"
  by (induction rule: rtranclp_induct) (auto elim: seed_stepE)

text \<open>
  Every thread gets the same seed, which is not zero, however the calls of \<open>global_seed\<close>
  interleave; once a thread has tried to set it the seed is there, and the next load ends the loop.
\<close>

theorem seeds_agree:
  assumes "seed_step\<^sup>*\<^sup>* seeds_init s" and "seed_step\<^sup>*\<^sup>* s s'"
    and "sd_pc s i = SeedReturn r" and "sd_pc s' j = SeedReturn r'"
  shows "r = r' \<and> r \<noteq> 0"
proof -
  have "seeds_ok s" "seeds_ok s'"
    using assms(1,2) seed_run_ok rtranclp_trans[OF assms(1,2)] by auto
  then show ?thesis
    using assms(3,4) seed_once[OF assms(2)] by (auto simp: seeds_ok_def)
qed

lemma seed_cas_sets: "seeds_ok s \<Longrightarrow> sd_pc s i = SeedCas t \<Longrightarrow> (if sd_seed s = 0 then t else sd_seed s) \<noteq> 0"
  by (auto simp: seeds_ok_def)

section \<open>The trap\<close>

text \<open>
  A Lua thread (a coroutine or the main thread) is a number. The worker runs the thread on top of
  its stack and is at one of these points: in Lua code; in \<open>switchL\<close> before the store of \<open>activeL\<close>,
  before the load of \<open>trap\<close> and before \<open>lua_sethook\<close>; after the return of \<open>lua_resume\<close> and in the
  loop that waits; in \<open>signal_hook\<close> before \<open>lua_sethook\<close>, before the load and before the store of \<open>trap\<close>.
\<close>

datatype worker_at = WRun | WStore nat | WTrap nat | WHook nat | WBack | WSpin | WOff | WLoad | WClear

text \<open>A thread that signals: \<open>snlua_signal\<close> before the \<open>CAS\<close>, before the load of \<open>activeL\<close>, before \<open>lua_sethook\<close> and at the end.\<close>

datatype signal_at = SIdle | SCas | SActive | SHook "nat option" | SDone

record lua_traps =
  lt_trap :: int
  lt_active :: "nat option"
  lt_hooks :: "nat set"
  lt_stack :: "nat list"
  lt_worker :: worker_at
  lt_signal :: "nat \<Rightarrow> signal_at"
  lt_crash :: bool

definition traps_init :: "nat \<Rightarrow> lua_traps" where
  "traps_init main = \<lparr>lt_trap = 0, lt_active = None, lt_hooks = {}, lt_stack = [main], lt_worker = WRun,
     lt_signal = \<lambda>_. SIdle, lt_crash = False\<rparr>"

abbreviation at_signal :: "lua_traps \<Rightarrow> nat \<Rightarrow> signal_at \<Rightarrow> lua_traps" where
  "at_signal s i p \<equiv> s\<lparr>lt_signal := (lt_signal s)(i := p)\<rparr>"

inductive snlua_signal_step :: "nat \<Rightarrow> lua_traps \<Rightarrow> lua_traps \<Rightarrow> bool" for i where
  sig_load: "lt_signal s i = SIdle \<Longrightarrow> snlua_signal_step i s (at_signal s i (if lt_trap s = 0 then SCas else SIdle))"
| sig_cas: "lt_signal s i = SCas \<Longrightarrow>
    snlua_signal_step i s
      (if lt_trap s = 0 then at_signal (s\<lparr>lt_trap := 1\<rparr>) i SActive else at_signal s i SIdle)"
| sig_active: "lt_signal s i = SActive \<Longrightarrow> snlua_signal_step i s (at_signal s i (SHook (lt_active s)))"
| sig_hook: "lt_signal s i = SHook a \<Longrightarrow>
    snlua_signal_step i s
      (case a of None \<Rightarrow> s\<lparr>lt_crash := True\<rparr> | Some c \<Rightarrow> at_signal (s\<lparr>lt_hooks := insert c (lt_hooks s)\<rparr>) i SDone)"
| sig_done: "lt_signal s i = SDone \<Longrightarrow>
    snlua_signal_step i s (at_signal (s\<lparr>lt_trap := if lt_trap s = 1 then -1 else lt_trap s\<rparr>) i SIdle)"

text \<open>
  The worker. The thread that runs resumes another (\<open>lua_resumeX\<close> starts with \<open>switchL\<close>), or yields, ends or
  fails, so that \<open>lua_resume\<close> returns; a thread with a hook may call it. The error of
  \<open>signal_hook\<close> is caught in the same thread or ends it.
\<close>

inductive switchL_step :: "lua_traps \<Rightarrow> lua_traps \<Rightarrow> bool" where
  sw_store: "lt_worker s = WStore c \<Longrightarrow> switchL_step s (s\<lparr>lt_active := Some c, lt_worker := WTrap c\<rparr>)"
| sw_trap: "lt_worker s = WTrap c \<Longrightarrow> switchL_step s (s\<lparr>lt_worker := if lt_trap s \<noteq> 0 then WHook c else WRun\<rparr>)"
| sw_hook: "lt_worker s = WHook c \<Longrightarrow> switchL_step s (s\<lparr>lt_hooks := insert c (lt_hooks s), lt_worker := WRun\<rparr>)"

inductive lua_resumeX_step :: "lua_traps \<Rightarrow> lua_traps \<Rightarrow> bool" where
  res_call: "lt_worker s = WRun \<Longrightarrow> c \<notin> set (lt_stack s) \<Longrightarrow>
    lua_resumeX_step s (s\<lparr>lt_stack := c # lt_stack s, lt_worker := WStore c\<rparr>)"
| res_return: "lt_worker s = WRun \<Longrightarrow> lt_stack s = c # from # st \<Longrightarrow>
    lua_resumeX_step s (s\<lparr>lt_stack := from # st, lt_worker := WBack\<rparr>)"
| res_trap: "lt_worker s = WBack \<Longrightarrow> lt_stack s = from # st \<Longrightarrow>
    lua_resumeX_step s (s\<lparr>lt_worker := if lt_trap s \<noteq> 0 then WSpin else WStore from\<rparr>)"
| res_spin: "lt_worker s = WSpin \<Longrightarrow> lt_stack s = from # st \<Longrightarrow>
    lua_resumeX_step s (s\<lparr>lt_worker := if 0 \<le> lt_trap s then WSpin else WStore from\<rparr>)"

inductive signal_hook_step :: "lua_traps \<Rightarrow> lua_traps \<Rightarrow> bool" where
  hook_call: "lt_worker s = WRun \<Longrightarrow> lt_stack s = c # st \<Longrightarrow> c \<in> lt_hooks s \<Longrightarrow> signal_hook_step s (s\<lparr>lt_worker := WOff\<rparr>)"
| hook_off: "lt_worker s = WOff \<Longrightarrow> lt_stack s = c # st \<Longrightarrow>
    signal_hook_step s (s\<lparr>lt_hooks := lt_hooks s - {c}, lt_worker := WLoad\<rparr>)"
| hook_load: "lt_worker s = WLoad \<Longrightarrow> signal_hook_step s (s\<lparr>lt_worker := if lt_trap s \<noteq> 0 then WClear else WRun\<rparr>)"
| hook_clear: "lt_worker s = WClear \<Longrightarrow> signal_hook_step s (s\<lparr>lt_trap := 0, lt_worker := WRun\<rparr>)"

inductive trap_step :: "lua_traps \<Rightarrow> lua_traps \<Rightarrow> bool" where
  ts_signal: "\<not> lt_crash s \<Longrightarrow> snlua_signal_step i s s' \<Longrightarrow> trap_step s s'"
| ts_switch: "\<not> lt_crash s \<Longrightarrow> switchL_step s s' \<Longrightarrow> trap_step s s'"
| ts_resume: "\<not> lt_crash s \<Longrightarrow> lua_resumeX_step s s' \<Longrightarrow> trap_step s s'"
| ts_hook: "\<not> lt_crash s \<Longrightarrow> signal_hook_step s s' \<Longrightarrow> trap_step s s'"

inductive_cases snlua_signalE: "snlua_signal_step i s s'"
inductive_cases switchLE: "switchL_step s s'"
inductive_cases lua_resumeXE: "lua_resumeX_step s s'"
inductive_cases signal_hookE: "signal_hook_step s s'"
inductive_cases trap_stepE: "trap_step s s'"

section \<open>Signals are not lost\<close>

definition signalling :: "signal_at \<Rightarrow> bool" where
  "signalling p \<longleftrightarrow> p \<noteq> SIdle \<and> p \<noteq> SCas"

text \<open>A thread that signals will still hook the Lua thread that runs, or will crash the node.\<close>

definition will_hook :: "lua_traps \<Rightarrow> nat \<Rightarrow> bool" where
  "will_hook s c \<longleftrightarrow> (\<exists>i. lt_signal s i = SActive \<or> lt_signal s i = SHook None \<or> lt_signal s i = SHook (Some c))"

definition worker_ok :: "lua_traps \<Rightarrow> nat \<Rightarrow> bool" where
  "worker_ok s c \<longleftrightarrow>
     (case lt_worker s of
        WRun \<Rightarrow> (lt_active s = None \<or> lt_active s = Some c) \<and> (lt_trap s \<noteq> 0 \<longrightarrow> c \<in> lt_hooks s \<or> will_hook s c)
      | WStore c' \<Rightarrow> c' = c | WTrap c' \<Rightarrow> c' = c \<and> lt_active s = Some c | WHook c' \<Rightarrow> c' = c \<and> lt_active s = Some c
      | WSpin \<Rightarrow> lt_trap s \<noteq> 0 | WBack \<Rightarrow> True
      | _ \<Rightarrow> lt_active s = None \<or> lt_active s = Some c)"

definition traps_ok :: "lua_traps \<Rightarrow> bool" where
  "traps_ok s \<longleftrightarrow> lt_stack s \<noteq> [] \<and> lt_trap s \<in> {0, 1, -1} \<and> (lt_trap s = 1 \<longrightarrow> (\<exists>i. signalling (lt_signal s i))) \<and>
     (\<not> lt_crash s \<longrightarrow> worker_ok s (hd (lt_stack s)))"

lemma traps_ok_init: "traps_ok (traps_init m)"
  by (simp add: traps_ok_def traps_init_def worker_ok_def)

text \<open>What a step of a thread that signals has to keep.\<close>

lemma traps_ok_frame:
  assumes "traps_ok s" and "lt_stack s' = lt_stack s" "lt_worker s' = lt_worker s" "lt_active s' = lt_active s"
    and "lt_trap s' \<in> {0, 1, -1}" and "lt_trap s' = 1 \<Longrightarrow> \<exists>j. signalling (lt_signal s' j)"
    and "lt_hooks s \<subseteq> lt_hooks s'" and "lt_trap s \<noteq> 0 \<Longrightarrow> lt_trap s' \<noteq> 0" and "\<not> lt_crash s"
    and "\<And>c. lt_active s = None \<or> lt_active s = Some c \<Longrightarrow> lt_trap s' \<noteq> 0 \<Longrightarrow> lt_trap s = 0 \<or> will_hook s c \<Longrightarrow>
      will_hook s' c \<or> c \<in> lt_hooks s' \<or> lt_crash s'"
  shows "traps_ok s'"
proof -
  let ?c = "hd (lt_stack s)"
  have "lt_trap s' \<noteq> 0 \<Longrightarrow> ?c \<in> lt_hooks s' \<or> will_hook s' ?c" if "worker_ok s ?c" "lt_worker s = WRun" "\<not> lt_crash s'"
    using that assms(7) assms(10)[of ?c] by (auto simp: worker_ok_def)
  then have "\<not> lt_crash s' \<Longrightarrow> worker_ok s' ?c"
    using assms(1,3,4,8,9) by (cases "lt_worker s") (auto simp: traps_ok_def worker_ok_def)
  then show ?thesis
    using assms(1,2,5,6) by (auto simp: traps_ok_def)
qed

lemma signal_step_ok:
  assumes "snlua_signal_step i s s'" and "traps_ok s" and "\<not> lt_crash s"
  shows "traps_ok s'"
proof -
  have will: "will_hook r c \<longleftrightarrow> lt_signal r i = SActive \<or> lt_signal r i = SHook None \<or> lt_signal r i = SHook (Some c) \<or>
      (\<exists>j. j \<noteq> i \<and> (lt_signal r j = SActive \<or> lt_signal r j = SHook None \<or> lt_signal r j = SHook (Some c)))" for r c
    unfolding will_hook_def by metis
  have some: "(\<exists>j. signalling (lt_signal r j)) \<longleftrightarrow> signalling (lt_signal r i) \<or> (\<exists>j. j \<noteq> i \<and> signalling (lt_signal r j))" for r
    by metis
  have trap: "lt_trap s = 0 \<or> lt_trap s = 1 \<or> lt_trap s = -1"
    and one: "lt_trap s = 1 \<Longrightarrow> signalling (lt_signal s i) \<or> (\<exists>j. j \<noteq> i \<and> signalling (lt_signal s j))"
    using assms(2) by (auto simp: traps_ok_def some[symmetric])
  show ?thesis
    using assms(1)
  proof cases
    case sig_load
    show ?thesis
      by (rule traps_ok_frame[OF assms(2)]; insert assms(3) trap one sig_load)
        (auto simp: will some signalling_def split: if_splits option.splits)
  next
    case sig_cas
    show ?thesis
      by (rule traps_ok_frame[OF assms(2)]; insert assms(3) trap one sig_cas)
        (auto simp: will some signalling_def split: if_splits option.splits)
  next
    case sig_active
    show ?thesis
      by (rule traps_ok_frame[OF assms(2)]; insert assms(3) trap one sig_active)
        (auto simp: will some signalling_def split: if_splits option.splits)
  next
    case (sig_hook a)
    show ?thesis
      by (rule traps_ok_frame[OF assms(2)]; insert assms(3) trap one sig_hook)
        (auto simp: will some signalling_def intro: exI[of _ i] split: if_splits option.splits)
  next
    case sig_done
    show ?thesis
      by (rule traps_ok_frame[OF assms(2)]; insert assms(3) trap one sig_done)
        (auto simp: will some signalling_def split: if_splits option.splits)
  qed
qed

lemma worker_step_ok:
  assumes "switchL_step s s' \<or> lua_resumeX_step s s' \<or> signal_hook_step s s'" and "traps_ok s"
  shows "traps_ok s'"
  using assms
  by (elim disjE switchLE lua_resumeXE signal_hookE)
    (auto simp: traps_ok_def worker_ok_def will_hook_def split: if_splits)

lemma trap_run_ok: "trap_step\<^sup>*\<^sup>* (traps_init m) s \<Longrightarrow> traps_ok s"
proof (induction rule: rtranclp_induct)
  case (step s s')
  then show ?case
    by (elim trap_stepE) (blast intro: signal_step_ok worker_step_ok)+
qed (rule traps_ok_init)

text \<open>
  C30. However the service resumes and leaves its Lua threads and however many threads signal: when no
  thread is inside \<open>snlua_signal\<close> any more and the trap is set, the Lua thread that runs has the hook,
  so that the signal interrupts it; and the loop in \<open>lua_resumeX\<close> that waits for the threads that
  signal ends with the next load.
\<close>

theorem signal_not_lost:
  assumes "trap_step\<^sup>*\<^sup>* (traps_init m) s" and "\<not> lt_crash s" and "\<And>i. lt_signal s i = SIdle"
  shows "(lt_worker s = WRun \<and> lt_trap s \<noteq> 0 \<longrightarrow> hd (lt_stack s) \<in> lt_hooks s) \<and>
    (lt_worker s = WSpin \<longrightarrow> lt_trap s = -1)"
  using trap_run_ok[OF assms(1)] assms(2,3)
  by (auto simp: traps_ok_def worker_ok_def will_hook_def signalling_def)

lemma trap_run_to: "trap_step\<^sup>*\<^sup>* s0 s \<Longrightarrow> (\<not> lt_crash s \<Longrightarrow> P s \<Longrightarrow> trap_step s s') \<Longrightarrow> \<not> lt_crash s \<Longrightarrow> P s \<Longrightarrow> trap_step\<^sup>*\<^sup>* s0 s'"
  by (blast intro: rtranclp.rtrancl_into_rtrancl)

lemma run_start: "trap_step\<^sup>*\<^sup>* (traps_init 0) \<lparr>lt_trap = 0, lt_active = None, lt_hooks = {}, lt_stack = [0], lt_worker = WRun, lt_signal = (\<lambda>_. SIdle)(0 := SIdle), lt_crash = False\<rparr>"
  by (simp add: traps_init_def fun_upd_idem)

text \<open>A thread signals a service that runs the Lua thread 1.\<close>

theorem signal_not_lost_witness:
  "\<exists>s. trap_step\<^sup>*\<^sup>* (traps_init 0) s \<and> lt_worker s = WRun \<and> lt_trap s = -1 \<and> hd (lt_stack s) \<in> lt_hooks s"
proof -
  from trap_run_to[OF run_start ts_resume[OF _ res_call[of _ 1]]] have r1: "trap_step\<^sup>*\<^sup>* (traps_init 0) \<lparr>lt_trap = 0, lt_active = None, lt_hooks = {}, lt_stack = [1, 0], lt_worker = WStore 1, lt_signal = (\<lambda>_. SIdle)(0 := SIdle), lt_crash = False\<rparr>"
    by simp
  from trap_run_to[OF r1 ts_switch[OF _ sw_store]] have r2: "trap_step\<^sup>*\<^sup>* (traps_init 0) \<lparr>lt_trap = 0, lt_active = Some 1, lt_hooks = {}, lt_stack = [1, 0], lt_worker = WTrap 1, lt_signal = (\<lambda>_. SIdle)(0 := SIdle), lt_crash = False\<rparr>"
    by simp
  from trap_run_to[OF r2 ts_switch[OF _ sw_trap]] have r3: "trap_step\<^sup>*\<^sup>* (traps_init 0) \<lparr>lt_trap = 0, lt_active = Some 1, lt_hooks = {}, lt_stack = [1, 0], lt_worker = WRun, lt_signal = (\<lambda>_. SIdle)(0 := SIdle), lt_crash = False\<rparr>"
    by simp
  from trap_run_to[OF r3 ts_signal[OF _ sig_load[of _ 0]]] have r4: "trap_step\<^sup>*\<^sup>* (traps_init 0) \<lparr>lt_trap = 0, lt_active = Some 1, lt_hooks = {}, lt_stack = [1, 0], lt_worker = WRun, lt_signal = (\<lambda>_. SIdle)(0 := SCas), lt_crash = False\<rparr>"
    by simp
  from trap_run_to[OF r4 ts_signal[OF _ sig_cas[of _ 0]]] have r5: "trap_step\<^sup>*\<^sup>* (traps_init 0) \<lparr>lt_trap = 1, lt_active = Some 1, lt_hooks = {}, lt_stack = [1, 0], lt_worker = WRun, lt_signal = (\<lambda>_. SIdle)(0 := SActive), lt_crash = False\<rparr>"
    by simp
  from trap_run_to[OF r5 ts_signal[OF _ sig_active[of _ 0]]] have r6: "trap_step\<^sup>*\<^sup>* (traps_init 0) \<lparr>lt_trap = 1, lt_active = Some 1, lt_hooks = {}, lt_stack = [1, 0], lt_worker = WRun, lt_signal = (\<lambda>_. SIdle)(0 := SHook (Some 1)), lt_crash = False\<rparr>"
    by simp
  from trap_run_to[OF r6 ts_signal[OF _ sig_hook[of _ 0]]] have r7: "trap_step\<^sup>*\<^sup>* (traps_init 0) \<lparr>lt_trap = 1, lt_active = Some 1, lt_hooks = {1}, lt_stack = [1, 0], lt_worker = WRun, lt_signal = (\<lambda>_. SIdle)(0 := SDone), lt_crash = False\<rparr>"
    by simp
  from trap_run_to[OF r7 ts_signal[OF _ sig_done[of _ 0]]] have r8: "trap_step\<^sup>*\<^sup>* (traps_init 0) \<lparr>lt_trap = -1, lt_active = Some 1, lt_hooks = {1}, lt_stack = [1, 0], lt_worker = WRun, lt_signal = (\<lambda>_. SIdle)(0 := SIdle), lt_crash = False\<rparr>"
    by simp
  show ?thesis
    using signal_not_lost[OF r8] r8 by (intro exI[of _ "\<lparr>lt_trap = -1, lt_active = Some 1, lt_hooks = {1}, lt_stack = [1, 0], lt_worker = WRun, lt_signal = (\<lambda>_. SIdle)(0 := SIdle), lt_crash = False\<rparr>"]) simp
qed

text \<open>
  C31. Two faults of the protocol. A signal before the service has resumed its first Lua thread passes a null
  pointer to \<open>lua_sethook\<close>. And the thread that signals can still be about to hook a Lua thread
  whose \<open>lua_resumeX\<close> has already returned to the caller, which the loop there is meant to prevent.
\<close>

theorem signal_faults:
  "(\<forall>(s :: lua_traps) i. lt_active s = None \<and> lt_trap s = 0 \<and> lt_signal s i = SIdle \<longrightarrow>
      (\<exists>s'. (snlua_signal_step i)\<^sup>*\<^sup>* s s' \<and> lt_crash s')) \<and>
    (\<exists>s c. trap_step\<^sup>*\<^sup>* (traps_init 0) s \<and> lt_worker s = WRun \<and> lt_signal s 0 = SHook (Some c) \<and> c \<notin> set (lt_stack s))"
proof (intro conjI allI impI)
  fix s :: lua_traps and i
  assume s: "lt_active s = None \<and> lt_trap s = 0 \<and> lt_signal s i = SIdle"
  let ?s1 = "at_signal s i SCas" and ?s2 = "at_signal (s\<lparr>lt_trap := 1\<rparr>) i SActive" and ?s3 = "at_signal (s\<lparr>lt_trap := 1\<rparr>) i (SHook None)"
  have "snlua_signal_step i s ?s1" "snlua_signal_step i ?s1 ?s2" "snlua_signal_step i ?s2 ?s3"
    using s sig_load[of s i] sig_cas[of ?s1 i] sig_active[of ?s2 i] by simp_all
  moreover have "snlua_signal_step i ?s3 (?s3\<lparr>lt_crash := True\<rparr>)"
    using sig_hook[of ?s3 i None] by simp
  ultimately have "(snlua_signal_step i)\<^sup>*\<^sup>* s (?s3\<lparr>lt_crash := True\<rparr>)"
    by (meson converse_rtranclp_into_rtranclp rtranclp.rtrancl_refl)
  then show "\<exists>s'. (snlua_signal_step i)\<^sup>*\<^sup>* s s' \<and> lt_crash s'"
    by (intro exI conjI) auto
next
  from trap_run_to[OF run_start ts_resume[OF _ res_call[of _ 1]]] have r1: "trap_step\<^sup>*\<^sup>* (traps_init 0) \<lparr>lt_trap = 0, lt_active = None, lt_hooks = {}, lt_stack = [1, 0], lt_worker = WStore 1, lt_signal = (\<lambda>_. SIdle)(0 := SIdle), lt_crash = False\<rparr>"
    by simp
  from trap_run_to[OF r1 ts_switch[OF _ sw_store]] have r2: "trap_step\<^sup>*\<^sup>* (traps_init 0) \<lparr>lt_trap = 0, lt_active = Some 1, lt_hooks = {}, lt_stack = [1, 0], lt_worker = WTrap 1, lt_signal = (\<lambda>_. SIdle)(0 := SIdle), lt_crash = False\<rparr>"
    by simp
  from trap_run_to[OF r2 ts_switch[OF _ sw_trap]] have r3: "trap_step\<^sup>*\<^sup>* (traps_init 0) \<lparr>lt_trap = 0, lt_active = Some 1, lt_hooks = {}, lt_stack = [1, 0], lt_worker = WRun, lt_signal = (\<lambda>_. SIdle)(0 := SIdle), lt_crash = False\<rparr>"
    by simp
  from trap_run_to[OF r3 ts_resume[OF _ res_return]] have r4: "trap_step\<^sup>*\<^sup>* (traps_init 0) \<lparr>lt_trap = 0, lt_active = Some 1, lt_hooks = {}, lt_stack = [0], lt_worker = WBack, lt_signal = (\<lambda>_. SIdle)(0 := SIdle), lt_crash = False\<rparr>"
    by simp
  from trap_run_to[OF r4 ts_resume[OF _ res_trap]] have r5: "trap_step\<^sup>*\<^sup>* (traps_init 0) \<lparr>lt_trap = 0, lt_active = Some 1, lt_hooks = {}, lt_stack = [0], lt_worker = WStore 0, lt_signal = (\<lambda>_. SIdle)(0 := SIdle), lt_crash = False\<rparr>"
    by simp
  from trap_run_to[OF r5 ts_signal[OF _ sig_load[of _ 0]]] have r6: "trap_step\<^sup>*\<^sup>* (traps_init 0) \<lparr>lt_trap = 0, lt_active = Some 1, lt_hooks = {}, lt_stack = [0], lt_worker = WStore 0, lt_signal = (\<lambda>_. SIdle)(0 := SCas), lt_crash = False\<rparr>"
    by simp
  from trap_run_to[OF r6 ts_signal[OF _ sig_cas[of _ 0]]] have r7: "trap_step\<^sup>*\<^sup>* (traps_init 0) \<lparr>lt_trap = 1, lt_active = Some 1, lt_hooks = {}, lt_stack = [0], lt_worker = WStore 0, lt_signal = (\<lambda>_. SIdle)(0 := SActive), lt_crash = False\<rparr>"
    by simp
  from trap_run_to[OF r7 ts_signal[OF _ sig_active[of _ 0]]] have r8: "trap_step\<^sup>*\<^sup>* (traps_init 0) \<lparr>lt_trap = 1, lt_active = Some 1, lt_hooks = {}, lt_stack = [0], lt_worker = WStore 0, lt_signal = (\<lambda>_. SIdle)(0 := SHook (Some 1)), lt_crash = False\<rparr>"
    by simp
  from trap_run_to[OF r8 ts_switch[OF _ sw_store]] have r9: "trap_step\<^sup>*\<^sup>* (traps_init 0) \<lparr>lt_trap = 1, lt_active = Some 0, lt_hooks = {}, lt_stack = [0], lt_worker = WTrap 0, lt_signal = (\<lambda>_. SIdle)(0 := SHook (Some 1)), lt_crash = False\<rparr>"
    by simp
  from trap_run_to[OF r9 ts_switch[OF _ sw_trap]] have r10: "trap_step\<^sup>*\<^sup>* (traps_init 0) \<lparr>lt_trap = 1, lt_active = Some 0, lt_hooks = {}, lt_stack = [0], lt_worker = WHook 0, lt_signal = (\<lambda>_. SIdle)(0 := SHook (Some 1)), lt_crash = False\<rparr>"
    by simp
  from trap_run_to[OF r10 ts_switch[OF _ sw_hook]] have r11: "trap_step\<^sup>*\<^sup>* (traps_init 0) \<lparr>lt_trap = 1, lt_active = Some 0, lt_hooks = {0}, lt_stack = [0], lt_worker = WRun, lt_signal = (\<lambda>_. SIdle)(0 := SHook (Some 1)), lt_crash = False\<rparr>"
    by simp
  show "\<exists>s c. trap_step\<^sup>*\<^sup>* (traps_init 0) s \<and> lt_worker s = WRun \<and> lt_signal s 0 = SHook (Some c) \<and> c \<notin> set (lt_stack s)"
    using r11 by (intro exI[of _ "\<lparr>lt_trap = 1, lt_active = Some 0, lt_hooks = {0}, lt_stack = [0], lt_worker = WRun, lt_signal = (\<lambda>_. SIdle)(0 := SHook (Some 1)), lt_crash = False\<rparr>"] exI[of _ 1]) simp
qed

theorem signal_faults_witness:
  "\<exists>s'. (snlua_signal_step 0)\<^sup>*\<^sup>* (traps_init 0) s' \<and> lt_crash s'"
  using signal_faults by (auto simp: traps_init_def)

end
