(* ===== verification/Sky_Snlua.thy ===== *)
theory Sky_Snlua
  imports Sky_Malloc_Spec
begin

text \<open>
  Model of the allocator of the Lua state of a service (\<open>lalloc\<close> in \<^verbatim>\<open>service-src/service_snlua.c\<close>), which
  counts the memory of the state, refuses what would pass the limit and warns when it doubles. The
  blocks come from \<open>skynet_lalloc\<close>.
\<close>

section \<open>The allocator of Lua\<close>

definition MEMORY_WARNING_REPORT :: u64 where "MEMORY_WARNING_REPORT = 1024 * 1024 * 32"

record snlua =
  sl_ctx :: "nat option"
  sl_mem :: u64
  sl_mem_report :: u64
  sl_mem_limit :: u64
  sl_warnings :: "u64 list"

definition snlua_create :: snlua where
  "snlua_create = \<lparr>sl_ctx = None, sl_mem = 0, sl_mem_report = MEMORY_WARNING_REPORT, sl_mem_limit = 0, sl_warnings = []\<rparr>"

text \<open>
  \<open>sl_warnings\<close> are the values of the warnings written to the log. \<open>osize\<close> is the size of the block, or says
  what is allocated when there is none.
\<close>

definition lalloc :: "allocator \<Rightarrow> heap \<times> snlua \<Rightarrow> nat option \<Rightarrow> u64 \<Rightarrow> u64 \<Rightarrow> ((heap \<times> snlua) \<times> nat option) res" where
  "lalloc J s ptr osize nsize =
     (let (hp, l) = s;
          mem = sl_mem l;
          l = l\<lparr>sl_mem := sl_mem l + nsize\<rparr>;
          l = (if ptr \<noteq> None then l\<lparr>sl_mem := sl_mem l - osize\<rparr> else l) in
      if sl_mem_limit l \<noteq> 0 \<and> sl_mem_limit l < sl_mem l \<and> (ptr = None \<or> osize < nsize) then
        Inr ((hp, l\<lparr>sl_mem := mem\<rparr>), None)
      else
        let l = (if sl_mem_report l < sl_mem l
                 then l\<lparr>sl_mem_report := sl_mem_report l * 2, sl_warnings := sl_warnings l @ [sl_mem l]\<rparr> else l) in
        cbind (skynet_lalloc J hp ptr nsize) (\<lambda>(hp, r). Inr ((hp, l), r)))"

section \<open>What Lua does with it\<close>

text \<open>
  Lua asks for blocks of less than half the numbers, and passes the size a block has. It relies on
  shrinking never to fail, as the manual of Lua says.
\<close>

definition je_shrinks :: "allocator \<Rightarrow> bool" where
  "je_shrinks J \<longleftrightarrow> (\<forall>mem b blk n. mem b = Some blk \<and> n \<le> length blk \<longrightarrow> je_realloc J mem b n \<noteq> None)"

inductive lua_step :: "allocator \<Rightarrow> (heap \<times> snlua) \<times> (nat \<rightharpoonup> nat) \<Rightarrow> (heap \<times> snlua) \<times> (nat \<rightharpoonup> nat) \<Rightarrow> bool" for J where
  lua_new: "\<lbrakk>0 < unat n; unat n < 2 ^ 63; lalloc J s None tag n = Inr (s', r)\<rbrakk> \<Longrightarrow>
    lua_step J (s, live) (s', case r of None \<Rightarrow> live | Some b \<Rightarrow> live(b \<mapsto> unat n))"
| lua_resize: "\<lbrakk>live b = Some (unat old); 0 < unat n; unat n < 2 ^ 63; lalloc J s (Some b) old n = Inr (s', r)\<rbrakk> \<Longrightarrow>
    lua_step J (s, live) (s', case r of None \<Rightarrow> live | Some b' \<Rightarrow> (live(b := None))(b' \<mapsto> unat n))"
| lua_free: "\<lbrakk>live b = Some (unat old); lalloc J s (Some b) old 0 = Inr (s', r)\<rbrakk> \<Longrightarrow>
    lua_step J (s, live) (s', live(b := None))"

definition lua_bytes :: "(nat \<rightharpoonup> nat) \<Rightarrow> nat" where
  "lua_bytes live = (\<Sum>b\<in>dom live. the (live b))"

lemma lua_bytes_insert:
  assumes "finite (dom live)" and "live b = None"
  shows "lua_bytes (live(b \<mapsto> n)) = n + lua_bytes live"
proof -
  have "b \<notin> dom live"
    using assms(2) by auto
  then have "(\<Sum>x\<in>dom live. the ((live(b \<mapsto> n)) x)) = lua_bytes live"
    unfolding lua_bytes_def by (intro sum.cong) auto
  with \<open>b \<notin> dom live\<close> show ?thesis
    using assms(1) by (simp add: lua_bytes_def)
qed

lemma lua_bytes_remove:
  assumes "finite (dom live)" and "live b = Some n"
  shows "lua_bytes live = n + lua_bytes (live(b := None))"
  using lua_bytes_insert[of "live(b := None)" b n] assms by (simp add: fun_upd_idem)

text \<open>The blocks are there, with their sizes; and no more is counted than allowed, and no less than there is.\<close>

definition lua_ok :: "u64 \<Rightarrow> (heap \<times> snlua) \<times> (nat \<rightharpoonup> nat) \<Rightarrow> bool" where
  "lua_ok lim = (\<lambda>((hp, l), live). finite (dom live) \<and> (\<forall>b n. live b = Some n \<longrightarrow> (\<exists>blk. hp_mem hp b = Some blk \<and> length blk = n)) \<and>
     sl_mem_limit l = lim \<and> lua_bytes live \<le> unat (sl_mem l) \<and> unat (sl_mem l) \<le> unat lim)"

lemma lua_okD:
  assumes "lua_ok lim ((hp, l), live)"
  shows "finite (dom live)" and "live b = Some n \<Longrightarrow> \<exists>blk. hp_mem hp b = Some blk \<and> length blk = n"
    and "sl_mem_limit l = lim" and "lua_bytes live \<le> unat (sl_mem l)" and "unat (sl_mem l) \<le> unat lim"
  using assms by (auto simp: lua_ok_def)

lemma lua_okI:
  assumes "finite (dom live)" and "\<And>b n. live b = Some n \<Longrightarrow> \<exists>blk. hp_mem hp b = Some blk \<and> length blk = n"
    and "sl_mem_limit l = lim" and "lua_bytes live \<le> unat (sl_mem l)" and "unat (sl_mem l) \<le> unat lim"
  shows "lua_ok lim ((hp, l), live)"
  using assms by (simp add: lua_ok_def)

lemma lua_fresh: "lua_ok lim ((hp, l), live) \<Longrightarrow> hp_mem hp b = None \<Longrightarrow> live b = None"
  using lua_okD(2)[of lim hp l live b] by (cases "live b") auto

lemma raw_new:
  assumes "je_ok J" and "skynet_lalloc J hp None n = Inr (hp', r)" and "n \<noteq> 0"
  shows "(r = None \<and> hp' = hp) \<or>
    (\<exists>b bs. r = Some b \<and> hp_mem hp b = None \<and> length bs = unat n \<and> hp' = hp\<lparr>hp_mem := (hp_mem hp)(b \<mapsto> bs)\<rparr>)"
  using assms(2,3) by (auto simp: skynet_lalloc_def split: option.splits dest: je_okD(1)[OF assms(1)])

lemma raw_resize:
  assumes "je_ok J" and "je_shrinks J" and "skynet_lalloc J hp (Some b) n = Inr (hp', r)" and "n \<noteq> 0"
    and "hp_mem hp b = Some blk"
  shows "(r = None \<and> hp' = hp \<and> length blk < unat n) \<or>
    (\<exists>b' bs. r = Some b' \<and> (b' = b \<or> hp_mem hp b' = None) \<and> length bs = unat n \<and>
       hp' = hp\<lparr>hp_mem := (hp_mem hp)(b := None, b' \<mapsto> bs)\<rparr>)"
proof (cases "je_realloc J (hp_mem hp) b (unat n)")
  case None
  then have "\<not> unat n \<le> length blk"
    using assms(2,5) unfolding je_shrinks_def by blast
  with None show ?thesis
    using assms(3-5) by (simp add: skynet_lalloc_def deref_def)
next
  case (Some a)
  then show ?thesis
    using assms(3-5) je_okD(4)[OF assms(1)] by (cases a) (fastforce simp: skynet_lalloc_def deref_def)
qed

lemma unat_count:
  fixes mem n old :: u64
  assumes "unat mem + unat n < 2 ^ 64" and "unat old \<le> unat mem + unat n"
  shows "unat (mem + n - old) = unat mem + unat n - unat old"
proof -
  have "unat (mem + n) = unat mem + unat n"
    by (rule unat_add_u64[OF assms(1)])
  then show ?thesis
    using assms(2) by (subst unat_sub_if') auto
qed

lemma lalloc_new_ok:
  assumes "je_ok J" and "lua_ok lim ((hp, l), live)" and "lim \<noteq> 0" and "unat lim < 2 ^ 63" and "0 < unat n" and "unat n < 2 ^ 63"
    and "lalloc J (hp, l) None tag n = Inr (s', r)"
  shows "lua_ok lim (s', case r of None \<Rightarrow> live | Some b \<Rightarrow> live(b \<mapsto> unat n))"
proof -
  note ok = lua_okD[OF assms(2)]
  have sum: "unat (sl_mem l + n) = unat (sl_mem l) + unat n"
    using unat_count[of "sl_mem l" n 0] ok(5) assms(4,6) by simp
  have "n \<noteq> 0"
    using assms(5) by auto
  show ?thesis
  proof (cases "lim < sl_mem l + n")
    case True
    then show ?thesis
      using assms(2,3,7) ok(3) by (auto simp: lalloc_def Let_def lua_ok_def)
  next
    case False
    then have le: "unat (sl_mem l) + unat n \<le> unat lim"
      using sum by (simp add: word_less_nat_alt)
    obtain hp' l' where raw: "skynet_lalloc J hp None n = Inr (hp', r)" and s': "s' = (hp', l')" "sl_mem l' = sl_mem l + n" "sl_mem_limit l' = lim"
      using assms(7) False ok(3) by (auto simp: lalloc_def Let_def cbind_Inr_iff split: if_splits)
    from raw_new[OF assms(1) raw \<open>n \<noteq> 0\<close>] show ?thesis
    proof (elim disjE exE conjE)
      assume "r = None" "hp' = hp"
      then show ?thesis
        using ok le s' sum by (simp add: lua_ok_def)
    next
      fix b bs
      assume r: "r = Some b" "hp_mem hp b = None" "length bs = unat n" "hp' = hp\<lparr>hp_mem := (hp_mem hp)(b \<mapsto> bs)\<rparr>"
      then have "lua_bytes (live(b \<mapsto> unat n)) = unat n + lua_bytes live"
        using lua_bytes_insert[OF ok(1)] lua_fresh[OF assms(2)] by blast
      then show ?thesis
        unfolding s'(1) using ok le s' sum r by (auto intro!: lua_okI)
    qed
  qed
qed

lemma lalloc_resize_ok:
  assumes "je_ok J" and "je_shrinks J" and "lua_ok lim ((hp, l), live)" and "lim \<noteq> 0" and "unat lim < 2 ^ 63"
    and "live b = Some (unat old)" and "0 < unat n" and "unat n < 2 ^ 63" and "lalloc J (hp, l) (Some b) old n = Inr (s', r)"
  shows "lua_ok lim (s', case r of None \<Rightarrow> live | Some b' \<Rightarrow> (live(b := None))(b' \<mapsto> unat n))"
proof -
  note ok = lua_okD[OF assms(3)]
  have bytes: "lua_bytes live = unat old + lua_bytes (live(b := None))"
    by (rule lua_bytes_remove[OF ok(1) assms(6)])
  have sum: "unat (sl_mem l + n - old) = unat (sl_mem l) + unat n - unat old"
    using unat_count[of "sl_mem l" n old] ok(4,5) bytes assms(5,8) by simp
  have "n \<noteq> 0"
    using assms(7) by auto
  obtain blk where blk: "hp_mem hp b = Some blk" "length blk = unat old"
    using ok(2)[OF assms(6)] by blast
  show ?thesis
  proof (cases "lim < sl_mem l + n - old \<and> old < n")
    case True
    then show ?thesis
      using assms(3,4,9) ok(3) by (auto simp: lalloc_def Let_def lua_ok_def)
  next
    case False
    then have le: "unat (sl_mem l) + unat n - unat old \<le> unat lim"
      using sum ok(5) by (auto simp: word_less_nat_alt)
    obtain hp' l' where raw: "skynet_lalloc J hp (Some b) n = Inr (hp', r)" and s': "s' = (hp', l')"
        "sl_mem l' = sl_mem l + n - old" "sl_mem_limit l' = lim"
      using assms(9) False ok(3) by (auto simp: lalloc_def Let_def cbind_Inr_iff split: if_splits)
    consider "r = None" "hp' = hp" "length blk < unat n"
      | b' bs where "r = Some b'" "b' = b \<or> hp_mem hp b' = None" "length bs = unat n"
        "hp' = hp\<lparr>hp_mem := (hp_mem hp)(b := None, b' \<mapsto> bs)\<rparr>"
      using raw_resize[OF assms(1,2) raw \<open>n \<noteq> 0\<close> blk(1)] by blast
    then show ?thesis
    proof cases
      case 1
      then show ?thesis
        using ok le s' sum blk(2) by (simp add: lua_ok_def)
    next
      case r: 2
      then have "(live(b := None)) b' = None"
        using lua_fresh[OF assms(3)] by auto
      then have "lua_bytes ((live(b := None))(b' \<mapsto> unat n)) = unat n + lua_bytes (live(b := None))"
        using lua_bytes_insert[of "live(b := None)" b'] ok(1) by simp
      then show ?thesis
        unfolding s'(1) using ok le s' sum r bytes by (auto intro!: lua_okI split: if_splits)
    qed
  qed
qed

lemma lalloc_free_ok:
  assumes "lua_ok lim ((hp, l), live)" and "live b = Some (unat old)"
  shows "\<exists>s'. lalloc J (hp, l) (Some b) old 0 = Inr (s', None) \<and> lua_ok lim (s', live(b := None))"
proof -
  note ok = lua_okD[OF assms(1)]
  have bytes: "lua_bytes live = unat old + lua_bytes (live(b := None))"
    by (rule lua_bytes_remove[OF ok(1) assms(2)])
  have sum: "unat (sl_mem l - old) = unat (sl_mem l) - unat old"
    using ok(4) bytes by (subst unat_sub_if') auto
  obtain blk where "hp_mem hp b = Some blk"
    using ok(2)[OF assms(2)] by blast
  then show ?thesis
    using ok sum bytes by (auto simp: lalloc_def Let_def skynet_lalloc_def je_free_def deref_def intro!: lua_okI)
qed

lemma lua_step_ok:
  assumes "lua_step J s s'" and "je_ok J" and "je_shrinks J" and "lim \<noteq> 0" and "unat lim < 2 ^ 63" and "lua_ok lim s"
  shows "lua_ok lim s'"
  using assms(1)
proof cases
  case (lua_new n s0 tag s1 r live)
  then show ?thesis
    using lalloc_new_ok[OF assms(2) _ assms(4,5)] assms(6) by (cases s0) auto
next
  case (lua_resize live b old n s0 s1 r)
  then show ?thesis
    using lalloc_resize_ok[OF assms(2,3) _ assms(4,5)] assms(6) by (cases s0) auto
next
  case (lua_free live b old s0 s1 r)
  then show ?thesis
    using lalloc_free_ok[of lim "fst s0" "snd s0" live b old J] assms(6) by auto
qed


text \<open>A state with a limit of ten bytes gets three of them, and no eight more.\<close>

definition ten_bytes :: "heap \<times> snlua" where
  "ten_bytes = (no_stats\<lparr>hp_mem := [0 \<mapsto> [7, 7, 7]]\<rparr>, snlua_create\<lparr>sl_mem := 3, sl_mem_limit := 10\<rparr>)"

lemma one_block_shrinks: "je_shrinks one_block"
  by (auto simp: je_shrinks_def one_block_def)

lemma ten_bytes_run: "(lua_step one_block)\<^sup>*\<^sup>* ((no_stats, snlua_create\<lparr>sl_mem_limit := 10\<rparr>), Map.empty) (ten_bytes, [0 \<mapsto> 3])"
proof -
  have "replicate 3 (7 :: u8) = [7, 7, 7]"
    by (simp add: numeral_eq_Suc)
  then have "lalloc one_block (no_stats, snlua_create\<lparr>sl_mem_limit := 10\<rparr>) None 0 3 = Inr (ten_bytes, Some 0)"
    by (simp add: lalloc_def Let_def snlua_create_def MEMORY_WARNING_REPORT_def skynet_lalloc_def one_block_def no_stats_def
        ten_bytes_def word_less_nat_alt)
  from lua_new[OF _ _ this] show ?thesis
    by (intro r_into_rtranclp) simp
qed


text \<open>When the allocator fails the count keeps what was asked for and not given.\<close>

lemma lalloc_failure_counts:
  assumes "je_malloc J (hp_mem hp) (unat n) = None" and "n \<noteq> 0" and "sl_mem_limit l = 0"
  shows "\<exists>l'. lalloc J (hp, l) None tag n = Inr ((hp, l'), None) \<and> sl_mem l' = sl_mem l + n"
  using assms by (auto simp: lalloc_def Let_def skynet_lalloc_def)

end
