(* ===== verification/Sky_Snlua_Profile.thy ===== *)
theory Sky_Snlua_Profile
  imports Sky_Prelude
begin

text \<open>
  Model of the profile of the coroutines in \<^verbatim>\<open>service-src/service_snlua.c\<close>: \<open>profile.start\<close>, \<open>profile.stop\<close>
  and the resume that counts the time a coroutine runs. Times are whole nanoseconds of the clock of the
  thread; the code has them as \<open>double\<close> seconds, whose rounding is left out.
\<close>

section \<open>The clock\<close>

definition NANOSEC :: nat where "NANOSEC = 1000000000"

text \<open>\<open>get_time\<close> keeps 16 bits of the seconds.\<close>

definition get_time :: "nat \<Rightarrow> int" where
  "get_time clock = int ((clock div NANOSEC) mod 0x10000 * NANOSEC + clock mod NANOSEC)"

definition diff_time :: "nat \<Rightarrow> int \<Rightarrow> int" where
  "diff_time clock start =
     (let now = get_time clock in if now < start then now + 0x10000 * int NANOSEC - start else now - start)"

section \<open>The tables\<close>

text \<open>The two upvalues: from a coroutine to its start time and to its total time.\<close>

record profile =
  pf_start :: "nat \<Rightarrow> int option"
  pf_total :: "nat \<Rightarrow> int option"

definition init_profile :: profile where
  "init_profile = \<lparr>pf_start = Map.empty, pf_total = Map.empty\<rparr>"

definition timing_enable :: "profile \<Rightarrow> nat \<Rightarrow> int option" where
  "timing_enable p co = pf_start p co"

text \<open>\<open>lua_tonumber\<close> of nil is 0.\<close>

definition timing_total :: "profile \<Rightarrow> nat \<Rightarrow> int" where
  "timing_total p co = (case pf_total p co of None \<Rightarrow> 0 | Some t \<Rightarrow> t)"

text \<open>\<open>timing_resume\<close> before and after \<open>auxresume\<close>, in which anything may run.\<close>

definition timing_resume_begin :: "profile \<Rightarrow> nat \<Rightarrow> nat \<Rightarrow> profile" where
  "timing_resume_begin p co clock =
     (if timing_enable p co \<noteq> None then p\<lparr>pf_start := (pf_start p)(co \<mapsto> get_time clock)\<rparr> else p)"

definition timing_resume_end :: "profile \<Rightarrow> nat \<Rightarrow> nat \<Rightarrow> profile" where
  "timing_resume_end p co clock =
     (case timing_enable p co of
        None \<Rightarrow> p
      | Some start_time \<Rightarrow> p\<lparr>pf_total := (pf_total p)(co \<mapsto> timing_total p co + diff_time clock start_time)\<rparr>)"

text \<open>The Lua error of a second start or of a stop without a start is \<open>None\<close>.\<close>

definition lstart :: "profile \<Rightarrow> nat \<Rightarrow> nat \<Rightarrow> profile option" where
  "lstart p co clock =
     (if timing_enable p co \<noteq> None then None
      else Some (p\<lparr>pf_total := (pf_total p)(co \<mapsto> 0), pf_start := (pf_start p)(co \<mapsto> get_time clock)\<rparr>))"

definition lstop :: "profile \<Rightarrow> nat \<Rightarrow> nat \<Rightarrow> (profile \<times> int) option" where
  "lstop p co clock =
     (case timing_enable p co of
        None \<Rightarrow> None
      | Some start_time \<Rightarrow>
          let ti = diff_time clock start_time; total_time = timing_total p co in
          Some (p\<lparr>pf_start := (pf_start p)(co := None), pf_total := (pf_total p)(co := None)\<rparr>, total_time + ti))"

section \<open>Runs\<close>

text \<open>What happens, with the coroutine and the clock; a result belongs to each stop that succeeds.\<close>

datatype prof_event = Start nat nat | Resume nat nat | Yield nat nat | Stop nat nat

fun event_co :: "prof_event \<Rightarrow> nat" where
  "event_co (Start co t) = co" | "event_co (Resume co t) = co" | "event_co (Yield co t) = co" | "event_co (Stop co t) = co"

fun prof_step :: "profile \<Rightarrow> prof_event \<Rightarrow> profile \<times> (nat \<times> int) list" where
  "prof_step p (Start co t) = (case lstart p co t of None \<Rightarrow> (p, []) | Some p \<Rightarrow> (p, []))"
| "prof_step p (Resume co t) = (timing_resume_begin p co t, [])"
| "prof_step p (Yield co t) = (timing_resume_end p co t, [])"
| "prof_step p (Stop co t) = (case lstop p co t of None \<Rightarrow> (p, []) | Some (p, v) \<Rightarrow> (p, [(co, v)]))"

fun prof_run :: "profile \<Rightarrow> prof_event list \<Rightarrow> profile \<times> (nat \<times> int) list" where
  "prof_run p [] = (p, [])"
| "prof_run p (e # es) = (let (p, rs) = prof_step p e; (p, rs') = prof_run p es in (p, rs @ rs'))"

text \<open>
  The events of a coroutine that starts its profile, yields and is resumed any number of times and
  stops its profile itself: it runs from \<open>a\<close> to \<open>b\<close> for each slice \<open>(a, b)\<close>.
\<close>

fun later_slices :: "nat \<Rightarrow> (nat \<times> nat) list \<Rightarrow> prof_event list" where
  "later_slices co [] = []"
| "later_slices co [(a, b)] = [Resume co a, Stop co b]"
| "later_slices co ((a, b) # s # ss) = Resume co a # Yield co b # later_slices co (s # ss)"

fun profiled :: "nat \<Rightarrow> (nat \<times> nat) list \<Rightarrow> prof_event list" where
  "profiled co [] = []"
| "profiled co [(a, b)] = [Start co a, Stop co b]"
| "profiled co ((a, b) # s # ss) = Start co a # Yield co b # later_slices co (s # ss)"

definition slice_ok :: "nat \<times> nat \<Rightarrow> bool" where
  "slice_ok s \<longleftrightarrow> fst s \<le> snd s \<and> snd s < fst s + 0x10000 * NANOSEC"

lemma get_time_mod: "get_time clock = int (clock mod (0x10000 * NANOSEC))"
  using mod_mult2_eq[where m = clock and n = NANOSEC and q = "0x10000"] by (simp add: get_time_def mult.commute)

text \<open>A slice shorter than the range of the clock is measured exactly.\<close>

lemma diff_time_exact:
  assumes "slice_ok (a, b)"
  shows "diff_time b (get_time a) = int (b - a)"
proof -
  define W where "W = 0x10000 * NANOSEC"
  have W: "0 < W" "a \<le> b" "b < a + W"
    using assms by (simp_all add: W_def slice_ok_def NANOSEC_def)
  have "(b mod W < a mod W \<longrightarrow> b mod W + W - a mod W = b - a) \<and> (a mod W \<le> b mod W \<longrightarrow> b mod W - a mod W = b - a)"
  proof (cases "b div W = a div W")
    case True
    then show ?thesis
      using div_mult_mod_eq[of a W] div_mult_mod_eq[of b W] W by (metis (no_types) diff_cancel leD nat_add_left_cancel_le)
  next
    case False
    have "a div W \<le> b div W"
      using W(2) by (rule div_le_mono)
    moreover have "b div W \<le> (a + W) div W"
      using W(3) by (intro div_le_mono) simp
    moreover have "(a + W) div W = Suc (a div W)"
      using W(1) div_add_self2[of W a] by simp
    ultimately have "b div W = Suc (a div W)"
      using False by linarith
    then have "b = W + a div W * W + b mod W"
      using div_mult_mod_eq[of b W] by simp
    moreover have "a = a div W * W + a mod W"
      by simp
    ultimately have "b + a mod W = a + W + b mod W"
      by linarith
    then show ?thesis
      using W(3) mod_less_divisor[OF W(1), of a] by linarith
  qed
  moreover have "a mod W < W" "b mod W < W"
    using W(1) by simp_all
  moreover have "diff_time b (get_time a) =
      (if b mod W < a mod W then int (b mod W + W) - int (a mod W) else int (b mod W) - int (a mod W))"
    by (simp add: diff_time_def get_time_mod W_def Let_def)
  ultimately show ?thesis
    by (cases "b mod W < a mod W") (simp_all only: if_True if_False simp_thms, linarith+)
qed

section \<open>One coroutine among others\<close>

text \<open>The events of other coroutines do not touch the entries of a coroutine.\<close>

definition same_entries :: "nat \<Rightarrow> profile \<Rightarrow> profile \<Rightarrow> bool" where
  "same_entries co p q \<longleftrightarrow> pf_start p co = pf_start q co \<and> pf_total p co = pf_total q co"

lemmas prof_defs = lstart_def lstop_def timing_resume_begin_def timing_resume_end_def timing_enable_def timing_total_def

lemma other_step: "event_co e \<noteq> co \<Longrightarrow> same_entries co (fst (prof_step p e)) p \<and> filter (\<lambda>r. fst r = co) (snd (prof_step p e)) = []"
  by (cases e) (auto simp: same_entries_def prof_defs Let_def split: option.splits)

lemma own_step:
  "same_entries co p q \<Longrightarrow> event_co e = co \<Longrightarrow>
    same_entries co (fst (prof_step p e)) (fst (prof_step q e)) \<and> snd (prof_step p e) = snd (prof_step q e)"
  by (cases e) (auto simp: same_entries_def prof_defs Let_def split: option.splits)

lemma own_results: "event_co e = co \<Longrightarrow> filter (\<lambda>r. fst r = co) (snd (prof_step p e)) = snd (prof_step p e)"
  by (cases e) (auto simp: prof_defs Let_def split: option.splits)

lemma run_filter:
  "same_entries co p q \<Longrightarrow>
    filter (\<lambda>r. fst r = co) (snd (prof_run p es)) = snd (prof_run q (filter (\<lambda>e. event_co e = co) es))"
proof (induction es arbitrary: p q)
  case (Cons e es)
  obtain p' rs where p: "prof_step p e = (p', rs)"
    by (cases "prof_step p e")
  obtain q' rs' where q: "prof_step q e = (q', rs')"
    by (cases "prof_step q e")
  show ?case
  proof (cases "event_co e = co")
    case True
    then have "same_entries co p' q'" "rs = rs'" "filter (\<lambda>r. fst r = co) rs = rs"
      using own_step[OF Cons.prems True] own_results[OF True, of p] by (simp_all add: p q)
    with Cons.IH[of p' q'] True show ?thesis
      by (simp add: p q case_prod_beta Let_def)
  next
    case False
    then have "same_entries co p' p" "filter (\<lambda>r. fst r = co) rs = []"
      using other_step[OF False, of p] by (simp_all add: p)
    with Cons.IH[of p' q] Cons.prems False show ?thesis
      by (simp add: p case_prod_beta Let_def same_entries_def)
  qed
qed simp

text \<open>A resume and a yield of a coroutine that is not profiled do nothing.\<close>

fun moves :: "prof_event \<Rightarrow> bool" where
  "moves (Start co t) = False" | "moves (Stop co t) = False" | "moves (Resume co t) = True" | "moves (Yield co t) = True"

lemma not_profiled_run:
  "pf_start p co = None \<Longrightarrow> \<forall>e\<in>set es. moves e \<and> event_co e = co \<Longrightarrow> prof_run p es = (p, [])"
proof (induction es)
  case (Cons e es)
  then have "prof_step p e = (p, [])"
    by (cases e) (auto simp: prof_defs)
  with Cons show ?case
    by simp
qed simp

lemma prof_run_append:
  "prof_run p (es @ fs) = (let (q, rs) = prof_run p es; (q, rs') = prof_run q fs in (q, rs @ rs'))"
  by (induction es arbitrary: p) (simp_all add: case_prod_beta Let_def)

lemma later_slices_sum:
  assumes "pf_start p co \<noteq> None" and "pf_total p co = Some v" and "\<forall>s\<in>set ss. slice_ok s" and "ss \<noteq> []"
  shows "snd (prof_run p (later_slices co ss)) = [(co, v + int (\<Sum>(a, b)\<leftarrow>ss. b - a))] \<and>
    pf_start (fst (prof_run p (later_slices co ss))) co = None"
  using assms
proof (induction co ss arbitrary: p v rule: later_slices.induct)
  case (2 co a b)
  then show ?case
    using diff_time_exact[of a b] by (auto simp: prof_defs Let_def)
next
  case (3 co a b s ss)
  obtain p' where p': "prof_run p (later_slices co ((a, b) # s # ss)) = prof_run p' (later_slices co (s # ss))"
    "pf_start p' co \<noteq> None" "pf_total p' co = Some (v + int (b - a))"
    using 3 diff_time_exact[of a b] by (auto simp: prof_defs Let_def)
  have "snd (prof_run p' (later_slices co (s # ss))) = [(co, v + int (b - a) + int (\<Sum>(a, b)\<leftarrow>s # ss. b - a))] \<and>
    pf_start (fst (prof_run p' (later_slices co (s # ss)))) co = None"
    using 3 p' by (intro "3.IH") auto
  then show ?case
    unfolding p' by (simp add: algebra_simps)
qed simp

lemma profiled_sum:
  assumes "slices \<noteq> []" and "\<forall>s\<in>set slices. slice_ok s" and "pf_start p co = None"
  shows "snd (prof_run p (profiled co slices)) = [(co, int (\<Sum>(a, b)\<leftarrow>slices. b - a))] \<and>
    pf_start (fst (prof_run p (profiled co slices))) co = None"
proof (cases "(co, slices)" rule: profiled.cases)
  case (2 co a b)
  then show ?thesis
    using diff_time_exact[of a b] assms by (simp add: prof_defs Let_def)
next
  case (3 co' a b s ss)
  obtain p' where p': "prof_run p (profiled co slices) = prof_run p' (later_slices co (s # ss))"
    "pf_start p' co \<noteq> None" "pf_total p' co = Some (int (b - a))"
    using 3 assms diff_time_exact[of a b] by (auto simp: prof_defs Let_def)
  then show ?thesis
    using later_slices_sum[of p' co "int (b - a)" "s # ss"] assms(2) 3 by simp
qed (use assms(1) in simp)

text \<open>
  C33. The time a coroutine is told by \<open>profile.stop\<close> is the time it ran: for a coroutine that starts its
  profile, yields and is resumed any number of times and stops its profile (resumed and yielding before
  and after that as it may), with any events of other coroutines in between, the one result is the sum of
  the slices it ran, when each is shorter than the 65536 seconds after which the clock of \<open>get_time\<close>
  starts again.
\<close>

theorem profile_counts_running:
  assumes "filter (\<lambda>e. event_co e = co) es = before @ profiled co slices @ after"
    and "list_all moves (before @ after)" and "slices \<noteq> []" and "list_all slice_ok slices"
  shows "filter (\<lambda>r. fst r = co) (snd (prof_run init_profile es)) = [(co, int (\<Sum>(a, b)\<leftarrow>slices. b - a))]"
proof -
  have "\<forall>e\<in>set (before @ profiled co slices @ after). event_co e = co"
    unfolding assms(1)[symmetric] by simp
  then have own: "\<forall>e\<in>set before. moves e \<and> event_co e = co" "\<forall>e\<in>set after. moves e \<and> event_co e = co"
    using assms(2) by (auto simp: list_all_iff)
  have "pf_start init_profile co = None"
    by (simp add: init_profile_def)
  then have "snd (prof_run init_profile (before @ profiled co slices @ after)) = [(co, int (\<Sum>(a, b)\<leftarrow>slices. b - a))]"
    using not_profiled_run[OF _ own(1)] not_profiled_run[OF _ own(2)] profiled_sum[OF assms(3), of init_profile co] assms(4)
    by (simp add: prof_run_append case_prod_beta Let_def list_all_iff)
  then show ?thesis
    using run_filter[of co init_profile init_profile es] assms(1) by (simp add: same_entries_def)
qed

theorem profile_counts_running_witness:
  "filter (\<lambda>r. fst r = 1) (snd (prof_run init_profile
     [Resume 1 0, Start 1 2, Resume 2 3, Start 2 4, Yield 2 6, Yield 1 7, Resume 1 9, Stop 1 11, Yield 1 12])) = [(1, 7)]"
  using profile_counts_running[where co = 1 and before = "[Resume 1 0]" and slices = "[(2, 7), (9, 11)]" and after = "[Yield 1 12]"
      and es = "[Resume 1 0, Start 1 2, Resume 2 3, Start 2 4, Yield 2 6, Yield 1 7, Resume 1 9, Stop 1 11, Yield 1 12]"]
  by (simp add: slice_ok_def NANOSEC_def)

text \<open>
  A coroutine stopped by another while it is suspended is told its last slice twice, with the time it has
  been suspended: it ran from 0 to 5 and is stopped at 9.
\<close>

lemma stop_of_suspended_counts_twice:
  "snd (prof_run init_profile [Start 1 0, Yield 1 5, Stop 1 9]) = [(1, 14)]"
  by (simp add: prof_defs init_profile_def Let_def diff_time_def get_time_def NANOSEC_def)

end
