(* ===== verification/Sky_Logger.thy ===== *)
theory Sky_Logger
  imports Sky_Node_Spec
begin

text \<open>
  Model of the two services every node starts with. \<^verbatim>\<open>service-src/service_logger.c\<close>: the log service, which
  writes the texts it gets to a file. \<^verbatim>\<open>service-src/service_snlua.c\<close>: how a Lua service starts
  (\<open>snlua_init\<close>, \<open>launch_cb\<close>); the Lua code it loads is a parameter.
\<close>

section \<open>The log service\<close>

text \<open>The handle is the address of the open file, 0 for the null pointer.\<close>

record logger =
  lg_file :: nat
  lg_filename :: "string option"
  lg_starttime :: u32
  lg_close :: bool

definition logger_create :: logger where
  "logger_create = \<lparr>lg_file = 0, lg_filename = None, lg_starttime = 0, lg_close = False\<rparr>"

definition logger_release :: "node \<Rightarrow> logger \<Rightarrow> node res" where
  "logger_release n inst =
     (if lg_close inst then if lg_file inst = 0 then Inl NullDeref else fclose n (lg_file inst) else Inr n)"

text \<open>
  What the program relies on: \<open>lo_time\<close> is \<open>localtime_r\<close> with \<open>strftime\<close>, \<open>lo_stdout\<close> the address of the
  standard output.
\<close>

record log_os =
  lo_time :: "u64 \<Rightarrow> string"
  lo_stdout :: nat

definition timestring :: "log_os \<Rightarrow> node \<Rightarrow> logger \<Rightarrow> string \<times> int" where
  "timestring os n inst =
     (let now = skynet_now (n_timer n); ti = now div 100 + ucast (lg_starttime inst) in
      (lo_time os ti, uint (now mod 100)))"

text \<open>\<open>fopen\<close>, and \<open>freopen\<close>, which closes the old file also when it cannot open the new one.\<close>

definition log_fopen :: "svc \<Rightarrow> node \<Rightarrow> string \<Rightarrow> node \<times> nat" where
  "log_fopen sv n path =
     (if sv_fopen sv path then (n\<lparr>n_brk := Suc (n_brk n), n_files := (n_files n)(n_brk n \<mapsto> [])\<rparr>, n_brk n) else (n, 0))"

definition log_freopen :: "svc \<Rightarrow> node \<Rightarrow> string \<Rightarrow> nat \<Rightarrow> (node \<times> nat) res" where
  "log_freopen sv n path f = cbind (if f = 0 then Inl NullDeref else fclose n f) (\<lambda>n. Inr (log_fopen sv n path))"

text \<open>Printing to the file; the null pointer is not one.\<close>

definition log_print :: "node \<Rightarrow> logger \<Rightarrow> string \<Rightarrow> node res" where
  "log_print n inst s = (if lg_file inst = 0 then Inl NullDeref else fputs n (lg_file inst) s)"

definition logger_cb :: "svc \<Rightarrow> log_os \<Rightarrow> node \<Rightarrow> logger \<Rightarrow> int \<Rightarrow> u32 \<Rightarrow> nat \<Rightarrow> u64 \<Rightarrow> (node \<times> logger \<times> int) res" where
  "logger_cb sv os n inst type src msg len =
     (if type = int PTYPE_SYSTEM then
        case lg_filename inst of
          None \<Rightarrow> Inr (n, inst, 0)
        | Some path \<Rightarrow>
            cbind (log_freopen sv n path (lg_file inst)) (\<lambda>(n, f). Inr (n, inst\<lparr>lg_file := f\<rparr>, 0))
      else if type = int PTYPE_TEXT then
        cbind (if lg_filename inst = None then Inr n
               else let (tmp, csec) = timestring os n inst in
                 log_print n inst (tmp @ ''.'' @ pad_left 2 (CHR ''0'') (int_str csec) @ '' '')) (\<lambda>n.
        cbind (log_print n inst (''[:'' @ hex08 src @ ''] '')) (\<lambda>n.
        cbind (if len = 0 then Inr [] else read_bytes n msg (unat len)) (\<lambda>bs.
        cbind (log_print n inst (bytes_str bs)) (\<lambda>n.
        cbind (log_print n inst [CHR 0x0A]) (\<lambda>n.
        Inr (n, inst, 0))))))
      else Inr (n, inst, 0))"

definition strtoul10 :: "string \<Rightarrow> u64" where
  "strtoul10 s =
     (let (neg, s) = skip_sign s; v = digits_val 10 (leading_digits 10 s) in
      if v \<ge> 2 ^ 64 then -1 else if neg then - of_nat v else of_nat v)"

text \<open>\<open>inst\<close> and \<open>cb\<close> are the addresses of the instance and of \<open>logger_cb\<close>. The parameter may be the null pointer.\<close>

definition logger_init ::
  "svc \<Rightarrow> log_os \<Rightarrow> node \<Rightarrow> logger \<Rightarrow> cptr \<Rightarrow> nat \<Rightarrow> nat \<Rightarrow> string option \<Rightarrow> (node \<times> logger \<times> int) res" where
  "logger_init sv os n inst ctx ud cb parm =
     cbind (skynet_command sv n ctx ''STARTTIME'' None) (\<lambda>(n, r).
     case r of
       None \<Rightarrow> Inl NullDeref
     | Some s \<Rightarrow>
         let inst = inst\<lparr>lg_starttime := ucast (strtoul10 s)\<rparr> in
         case parm of
           Some path \<Rightarrow>
             let (n, f) = log_fopen sv n path in
             if f = 0 then Inr (n, inst\<lparr>lg_file := 0\<rparr>, 1)
             else
               cbind (skynet_callback n ctx ud (Some cb)) (\<lambda>n.
               Inr (n, inst\<lparr>lg_file := f, lg_filename := Some path, lg_close := True\<rparr>, 0))
         | None \<Rightarrow>
             if lo_stdout os = 0 then Inr (n, inst\<lparr>lg_file := 0\<rparr>, 1)
             else cbind (skynet_callback n ctx ud (Some cb)) (\<lambda>n. Inr (n, inst\<lparr>lg_file := lo_stdout os\<rparr>, 0)))"

section \<open>The start of a Lua service\<close>

text \<open>\<open>ud\<close> and \<open>cb\<close> are the addresses of the \<open>snlua\<close> and of \<open>launch_cb\<close>.\<close>

definition snlua_init :: "svc \<Rightarrow> node \<Rightarrow> cptr \<Rightarrow> nat \<Rightarrow> nat \<Rightarrow> string \<Rightarrow> (node \<times> int) res" where
  "snlua_init sv n ctx ud cb args =
     (let len = word_of_int (to_int (int (length args)));
          (n, tmp) = skynet_malloc n (Bytes (str_bytes args)) in
      cbind (skynet_callback n ctx ud (Some cb)) (\<lambda>n.
      cbind (skynet_command sv n ctx ''REG'' None) (\<lambda>(n, self).
      case self of
        None \<Rightarrow> Inl NullDeref
      | Some s \<Rightarrow>
          cbind (skynet_send sv n (Some ctx) 0 (ucast (strtoul16 (drop 1 s))) PTYPE_TAG_DONTCOPY 0 tmp len) (\<lambda>(n, _).
          Inr (n, 0)))))"

text \<open>\<open>init\<close> is \<open>init_cb\<close>, which runs the loader in Lua.\<close>

definition launch_cb ::
  "svc \<Rightarrow> (node \<Rightarrow> u8 list \<Rightarrow> (node \<times> int) res) \<Rightarrow> node \<Rightarrow> cptr \<Rightarrow> int \<Rightarrow> int \<Rightarrow> nat \<Rightarrow> u64 \<Rightarrow> (node \<times> int) res" where
  "launch_cb sv init n ctx type sess msg len =
     cbind (c_assert (type = 0 \<and> sess = 0)) (\<lambda>_.
     cbind (skynet_callback n ctx 0 None) (\<lambda>n.
     cbind (read_bytes n msg (unat len)) (\<lambda>args.
     cbind (init n args) (\<lambda>(n, err).
     cbind (if err \<noteq> 0 then skynet_command sv n ctx ''EXIT'' None else Inr (n, None)) (\<lambda>(n, _).
     Inr (n, 0))))))"

section \<open>Properties\<close>

lemma to_int_small: "k < 2 ^ 31 \<Longrightarrow> to_int (int k) = int k"
  unfolding to_int_def by (subst signed_of_int) (simp add: signed_take_bit_int_eq_self)

lemma set_ctx_keeps:
  assumes "n_ctxs n c = Some x" and "c_handle y = c_handle x" "c_ref y = c_ref x" "c_queue y = c_queue x"
  shows "skynet_context_handle (set_ctx n c y) = skynet_context_handle n" and "reaches n h d q \<Longrightarrow> reaches (set_ctx n c y) h d q"
    and "accepts (set_ctx n c y) = accepts n" and "messages (set_ctx n c y) = messages n"
    and "context_source (set_ctx n c y) (Some c) = context_source n (Some c)"
    and "skynet_harbor_message_isremote (set_ctx n c y) = skynet_harbor_message_isremote n"
proof -
  show h: "skynet_context_handle (set_ctx n c y) = skynet_context_handle n"
    using assms by (auto simp: skynet_context_handle_def set_ctx_def fun_eq_iff)
  show "reaches n h d q \<Longrightarrow> reaches (set_ctx n c y) h d q"
    unfolding reaches_def h using assms by (auto simp: set_ctx_def)
  show "context_source (set_ctx n c y) (Some c) = context_source n (Some c)"
    using assms(1,2) by (simp add: context_source_def ctx_at_def set_ctx_def deref_Some)
qed (simp_all add: accepts_def messages_def set_ctx_def skynet_harbor_message_isremote_def fun_eq_iff)

text \<open>
  C35. The first message of a Lua service carries its arguments. \<open>snlua_init\<close> on a context that is
  registered and whose queue takes messages puts one message into its queue; \<open>launch_cb\<close>, called with the type, the
  session and the data that message has, passes the assertion and hands exactly the bytes of the
  arguments to \<open>init_cb\<close>.
\<close>

theorem snlua_first_message:
  assumes "n_ctxs n c = Some x" and "reaches n (c_handle x) c q" and "accepts n ps q mq" and "c_handle x \<noteq> 0"
    and "skynet_harbor_message_isremote n (c_handle x) = Inr False"
    and "length args < 2 ^ 31" and "\<And>p. n_brk n \<le> p \<Longrightarrow> n_mem n p = None" and "0 < n_brk n"
  shows "\<exists>n' m. snlua_init sv n c ud cb args = Inr (n', 0) \<and> messages n' q = messages n q @ [m] \<and>
    (\<forall>init. launch_cb sv init n' c (msg_type m) (session m) (msg_data m) (msg_size m) =
       cbind (init (set_ctx n' c ((the (n_ctxs n' c))\<lparr>c_cb := None, c_cb_ud := 0\<rparr>)) (str_bytes args)) (\<lambda>(n, err).
       cbind (if err \<noteq> 0 then skynet_command sv n c ''EXIT'' None else Inr (n, None)) (\<lambda>(n, _). Inr (n, 0))))"
proof -
  let ?p = "n_brk n" and ?h = "c_handle x"
  let ?n1 = "n\<lparr>n_mem := (n_mem n)(?p \<mapsto> Bytes (str_bytes args)), n_brk := Suc ?p\<rparr>"
  let ?x2 = "x\<lparr>c_cb := Some cb, c_cb_ud := ud\<rparr>" and ?x3 = "x\<lparr>c_cb := Some cb, c_cb_ud := ud, c_result := CHR '':'' # hex_str ?h\<rparr>"
  let ?n3 = "set_ctx ?n1 c ?x3"
  have x1: "n_ctxs ?n1 c = Some x"
    using assms(1) by simp
  have hex: "length (CHR '':'' # hex_str ?h) < 32"
    using length_hex_str[of ?h] by simp
  have len: "word_of_int (to_int (int (length args))) = (of_nat (length args) :: u64)"
    using to_int_small[OF assms(6)] by simp
  have ulen: "unat (of_nat (length args) :: u64) = length args"
    using assms(6) by (simp add: unsigned_of_nat take_bit_nat_eq_self)
  have send: "snlua_init sv n c ud cb args =
      cbind (skynet_send sv ?n3 (Some c) 0 ?h PTYPE_TAG_DONTCOPY 0 ?p (of_nat (length args))) (\<lambda>(n, _). Inr (n, 0))"
    using x1 hex
    by (simp add: snlua_init_def skynet_malloc_def skynet_callback_def ctx_at_def deref_Some skynet_command_def cmd_funcs_def
        cmd_reg_def set_result_def hex_str_read len)
  note keeps = set_ctx_keeps[OF x1, of ?x3]
  have reach: "reaches ?n3 ?h c q" and acc: "accepts ?n3 ps q mq" and rem: "skynet_harbor_message_isremote ?n3 ?h = Inr False"
    and src: "context_source ?n3 (Some c) = Inr ?h" and msgs: "messages ?n3 = messages n"
    using keeps(2)[of ?h c q] keeps(3-6) assms(1,2,3,5) by (simp_all add: context_source_def ctx_at_def deref_Some)
  have small: "\<not> too_large (of_nat (length args))"
    unfolding not_too_large word_unat_eq_iff unsigned_take_bit_eq ulen
    using assms(6) by (simp add: take_bit_nat_eq_self)
  have pay: "payload ?n3 ?p (of_nat (length args)) (str_bytes args)"
    using ulen by (simp add: payload_def set_ctx_def str_bytes_def)
  have tag: "PTYPE_TAG_DONTCOPY AND PTYPE_TAG_ALLOCSESSION = 0" "\<not> copies PTYPE_TAG_DONTCOPY ?p" "PTYPE_TAG_DONTCOPY AND 0xff = 0"
    by (simp_all add: PTYPE_TAG_DONTCOPY_def PTYPE_TAG_ALLOCSESSION_def copies_def)
  obtain n' where sent: "skynet_send sv ?n3 (Some c) 0 ?h PTYPE_TAG_DONTCOPY 0 ?p (of_nat (length args)) = Inr (n', 0)"
    and q: "messages n' q = messages ?n3 q @ [sent_message ?h PTYPE_TAG_DONTCOPY 0 (of_nat (length args)) ?p]"
    and m: "msg_type (sent_message ?h PTYPE_TAG_DONTCOPY 0 (of_nat (length args)) ?p) = 0"
      "msg_size (sent_message ?h PTYPE_TAG_DONTCOPY 0 (of_nat (length args)) ?p) = of_nat (length args)"
    and mem: "n_mem n' = n_mem ?n3" "n_ctxs n' = n_ctxs ?n3"
    using send_delivers[OF reach acc assms(4) rem small tag(1) pay, of 0 "Some c" ?h sv 0] src tag(2,3)
    by (auto simp: set_ctx_def assms(7))
  have data: "read_bytes (set_ctx n' c y) ?p (length args) = Inr (str_bytes args)" for y
    by (simp add: read_bytes_def set_ctx_def mem(1) deref_Some str_bytes_def)
  have "launch_cb sv init n' c 0 0 ?p (of_nat (length args)) =
      cbind (init (set_ctx n' c ((the (n_ctxs n' c))\<lparr>c_cb := None, c_cb_ud := 0\<rparr>)) (str_bytes args)) (\<lambda>(n, err).
       cbind (if err \<noteq> 0 then skynet_command sv n c ''EXIT'' None else Inr (n, None)) (\<lambda>(n, _). Inr (n, 0)))" for init
    by (simp add: launch_cb_def c_assert_def skynet_callback_def ctx_at_def mem(2) deref_Some ulen data)
  then show ?thesis
    using sent q m send by (intro exI[of _ n'] exI[of _ "sent_message ?h PTYPE_TAG_DONTCOPY 0 (of_nat (length args)) ?p"])
      (simp add: msgs sent_message_def)
qed

theorem snlua_first_message_witness:
  "\<exists>sv n n' m. messages n 2 = [] \<and> snlua_init sv n 1 9 8 ''main'' = Inr (n', 0) \<and> messages n' 2 = [m] \<and>
     launch_cb sv (\<lambda>n args. Inr (n, if args = str_bytes ''main'' then 0 else 1)) n' 1 (msg_type m) (session m) (msg_data m) (msg_size m)
       = Inr (set_ctx n' 1 ((the (n_ctxs n' 1))\<lparr>c_cb := None, c_cb_ud := 0\<rparr>), 0)"
proof -
  obtain n where n: "reaches n 0x1000001 1 2" "accepts n [] 2 (mq_new 0x1000001)" "n_mem n = (\<lambda>_. None)" "n_brk n = 3"
    "skynet_harbor_message_isremote n 0x1000001 = Inr False" "context_source n (Some 1) = Inr 0x1000001" "messages n 2 = []"
    using demo_setup by blast
  obtain x where x: "n_ctxs n 1 = Some x"
    using n(1) by (auto simp: reaches_def)
  then have h: "c_handle x = 0x1000001"
    using n(6) by (simp add: context_source_def ctx_at_def deref_Some)
  obtain n' m where r: "snlua_init undefined n 1 9 8 ''main'' = Inr (n', 0)" "messages n' 2 = messages n 2 @ [m]"
    "launch_cb undefined (\<lambda>n args. Inr (n, if args = str_bytes ''main'' then 0 else 1)) n' 1 (msg_type m) (session m) (msg_data m) (msg_size m)
       = Inr (set_ctx n' 1 ((the (n_ctxs n' 1))\<lparr>c_cb := None, c_cb_ud := 0\<rparr>), 0)"
    using snlua_first_message[of n 1 x 2 "[]" "mq_new 0x1000001" "''main''" undefined 9 8] n x h by auto
  show ?thesis
    using r n(7) by (intro exI[of _ undefined] exI[of _ n] exI[of _ n'] exI[of _ m]) simp
qed

text \<open>
  C36. An error message is a line of the log. When the handle of the log service is known and its queue
  takes messages, \<open>skynet_error\<close> of a service puts one message into that queue, and \<open>logger_cb\<close>, called with the type,
  the sender, the data and the size that message has at any later time, appends the handle of the
  sender and exactly the text to the open file, after the time when the log is a file of its own.
\<close>

theorem error_reaches_log:
  assumes "n_logger n \<noteq> 0" and "reaches n (n_logger n) d q" and "accepts n ps q mq" and "context_source n (Some c) = Inr src"
    and "length text < 2 ^ 56"
  defines "line \<equiv> ''[:'' @ hex08 src @ ''] '' @ text @ [CHR 0x0A]"
  shows "\<exists>n' m. skynet_error sv n (Some c) text = Inr n' \<and> messages n' q = messages n q @ [m] \<and>
    (\<forall>n1 inst old. n_mem n1 (msg_data m) = n_mem n' (msg_data m) \<and> lg_file inst \<noteq> 0 \<and> n_files n1 (lg_file inst) = Some old \<longrightarrow>
      (\<exists>n2. logger_cb sv os n1 inst (msg_type m) (source m) (msg_data m) (msg_size m) = Inr (n2, inst, 0) \<and>
        n_files n2 = (n_files n1)(lg_file inst \<mapsto> old @
          (if lg_filename inst = None then [] else (let (tmp, csec) = timestring os n1 inst in
             tmp @ ''.'' @ pad_left 2 (CHR ''0'') (int_str csec) @ '' '')) @ line)))"
proof -
  let ?p = "n_brk n" and ?len = "of_nat (length text) :: u64"
  let ?n1 = "n\<lparr>n_mem := (n_mem n)(?p \<mapsto> Bytes (str_bytes text @ [0])), n_brk := Suc ?p\<rparr>"
  let ?m = "sent_message src 0 0 ?len ?p"
  have m: "?m = \<lparr>source = src, session = 0, msg_data = ?p, sz = ?len OR push_bit MESSAGE_TYPE_SHIFT (of_nat PTYPE_TEXT)\<rparr>"
    by (simp add: sent_message_def PTYPE_TEXT_def)
  have reach: "reaches ?n1 (n_logger n) d q" and acc: "accepts ?n1 ps q mq" and src: "context_source ?n1 (Some c) = Inr src"
    using assms(2-4) by simp_all
  obtain g where g: "skynet_context_push sv ?n1 (n_logger n) ?m = Inr (?n1\<lparr>n_gq := g\<rparr>, 0)"
    and q: "messages (?n1\<lparr>n_gq := g\<rparr>) q = messages ?n1 q @ [?m]"
    using push_delivers[OF reach acc] by blast
  have err: "skynet_error sv n (Some c) text = Inr (?n1\<lparr>n_gq := g\<rparr>)"
    using assms(1) g[unfolded m] src by (simp add: skynet_error_def skynet_malloc_def)
  have ulen: "unat ?len = length text"
    using assms(5) by (simp add: unsigned_of_nat take_bit_nat_eq_self)
  have "\<not> too_large ?len"
    unfolding not_too_large word_unat_eq_iff unsigned_take_bit_eq ulen using assms(5) by (simp add: take_bit_nat_eq_self)
  note ts = type_in_size[OF this, of 0]
  have fields: "msg_type ?m = int PTYPE_TEXT" "msg_size ?m = ?len" "source ?m = src" "msg_data ?m = ?p"
    using ts by (simp_all add: sent_message_def msg_type_def msg_size_def PTYPE_TEXT_def)
  have cb: "\<exists>n2. logger_cb sv os k inst (int PTYPE_TEXT) src ?p ?len = Inr (n2, inst, 0) \<and>
      n_files n2 = (n_files k)(lg_file inst \<mapsto> old @
        (if lg_filename inst = None then [] else (let (tmp, csec) = timestring os k inst in
           tmp @ ''.'' @ pad_left 2 (CHR ''0'') (int_str csec) @ '' '')) @ line)"
    if k: "n_mem k ?p = Some (Bytes (str_bytes text @ [0]))" "lg_file inst \<noteq> 0" "n_files k (lg_file inst) = Some old" for k inst old
  proof -
    obtain tmp csec where time: "timestring os k inst = (tmp, csec)"
      by (cases "timestring os k inst")
    have bytes: "(if ?len = 0 then Inr [] else read_bytes k' ?p (length text)) = Inr (str_bytes text)" if "n_mem k' = n_mem k" for k'
      using k(1) ulen that by (auto simp: read_bytes_def deref_Some str_bytes_def)
    show ?thesis
      using k(2,3) unfolding logger_cb_def ulen
      by (auto simp: time log_print_def fputs_def deref_Some bytes bytes_str_inverse line_def PTYPE_TEXT_def PTYPE_SYSTEM_def)
  qed
  show ?thesis
    using err q cb by (intro exI[of _ "?n1\<lparr>n_gq := g\<rparr>"] exI[of _ ?m]) (simp add: fields)
qed

theorem error_reaches_log_witness:
  "\<exists>sv os n n' m n2. messages n 2 = [] \<and> skynet_error sv n (Some 1) ''hi'' = Inr n' \<and> messages n' 2 = [m] \<and>
     logger_cb sv os (n'\<lparr>n_files := [5 \<mapsto> ''old '']\<rparr>) (logger_create\<lparr>lg_file := 5\<rparr>) (msg_type m) (source m) (msg_data m) (msg_size m)
       = Inr (n2, logger_create\<lparr>lg_file := 5\<rparr>, 0) \<and> n_files n2 5 = Some (''old [:'' @ hex08 0x1000001 @ ''] hi'' @ [CHR 0x0A])"
proof -
  obtain n where n: "reaches n 0x1000001 1 2" "accepts n [] 2 (mq_new 0x1000001)" "context_source n (Some 1) = Inr 0x1000001"
    "messages n 2 = []"
    using demo_setup by blast
  let ?n = "n\<lparr>n_logger := 0x1000001\<rparr>"
  have h: "skynet_context_handle ?n = skynet_context_handle n"
    by (simp add: fun_eq_iff skynet_context_handle_def)
  have keep: "reaches ?n 0x1000001 1 2" "accepts ?n [] 2 (mq_new 0x1000001)" "context_source ?n (Some 1) = Inr 0x1000001" "messages ?n 2 = []"
    using n by (simp_all add: reaches_def accepts_def context_source_def ctx_at_def messages_def h)
  obtain n' m where r: "skynet_error undefined ?n (Some 1) ''hi'' = Inr n'" "messages n' 2 = messages ?n 2 @ [m]"
    and later: "\<And>n1 inst old. n_mem n1 (msg_data m) = n_mem n' (msg_data m) \<Longrightarrow> lg_file inst \<noteq> 0 \<Longrightarrow> n_files n1 (lg_file inst) = Some old \<Longrightarrow>
      \<exists>n2. logger_cb undefined undefined n1 inst (msg_type m) (source m) (msg_data m) (msg_size m) = Inr (n2, inst, 0) \<and>
        n_files n2 = (n_files n1)(lg_file inst \<mapsto> old @
          (if lg_filename inst = None then [] else (let (tmp, csec) = timestring undefined n1 inst in
             tmp @ ''.'' @ pad_left 2 (CHR ''0'') (int_str csec) @ '' '')) @ ''[:'' @ hex08 0x1000001 @ ''] '' @ ''hi'' @ [CHR 0x0A])"
    using error_reaches_log[of ?n 1 2 "[]" "mq_new 0x1000001" 1 "0x1000001" "''hi''" undefined undefined] keep by auto
  obtain n2 where "logger_cb undefined undefined (n'\<lparr>n_files := [5 \<mapsto> ''old '']\<rparr>) (logger_create\<lparr>lg_file := 5\<rparr>) (msg_type m) (source m)
      (msg_data m) (msg_size m) = Inr (n2, logger_create\<lparr>lg_file := 5\<rparr>, 0)"
    and "n_files n2 5 = Some (''old '' @ ''[:'' @ hex08 0x1000001 @ ''] '' @ ''hi'' @ [CHR 0x0A])"
    using later[of "n'\<lparr>n_files := [5 \<mapsto> ''old '']\<rparr>" "logger_create\<lparr>lg_file := 5\<rparr>" "''old ''"] by (auto simp: logger_create_def)
  with r keep(4) show ?thesis
    by (intro exI[of _ undefined] exI[of _ ?n] exI[of _ n'] exI[of _ m] exI[of _ n2] exI[of _ undefined]) simp
qed

text \<open>
  When the log file cannot be opened again, the next text is printed to the null pointer: the log
  service ends the process.
\<close>

lemma reopen_failure_crashes:
  assumes "lg_filename inst = Some path" and "lg_file inst \<noteq> 0" and "n_files n (lg_file inst) = Some old" and "\<not> sv_fopen sv path"
  shows "\<exists>n' inst'. logger_cb sv os n inst (int PTYPE_SYSTEM) src 0 0 = Inr (n', inst', 0) \<and>
    logger_cb sv os n' inst' (int PTYPE_TEXT) src' msg len = Inl NullDeref"
  using assms
  by (auto simp: logger_cb_def log_freopen_def log_fopen_def fclose_def deref_Some log_print_def PTYPE_SYSTEM_def PTYPE_TEXT_def
      split: prod.splits)

end
