(* ===== verification/Sky_Deliver.thy ===== *)
theory Sky_Deliver
  imports Sky_Node_Spec
begin

text \<open>
  Several messages one after the other: what a push leaves of the room in the queues, what a call that
  puts one message into a queue leaves of the node, and the delivery of a list of messages.
\<close>

section \<open>Messages one after the other\<close>

text \<open>Queue \<open>q\<close> takes \<open>k\<close> messages, when the global list holds the queues \<open>ps\<close>.\<close>

definition takes :: "node \<Rightarrow> qptr list \<Rightarrow> nat \<Rightarrow> qptr \<Rightarrow> bool" where
  "takes n ps k q \<longleftrightarrow> (\<exists>mq. qview (n_gq n) q = Some mq \<and> mq_wf mq \<and> skynet_mq_length mq + k < 2 ^ 30 \<and>
     (mq_in_global mq = 0 \<longrightarrow> q \<notin> set ps))"

lemma push_takes:
  assumes wf: "global_wf (n_gq n) ps" and q: "takes n ps (Suc k) q"
  shows "\<exists>g ps'. skynet_mq_push (n_gq n) q m = Inr g \<and> global_wf g ps' \<and>
    (\<forall>j. takes n ps (Suc j) q \<longrightarrow> takes (n\<lparr>n_gq := g\<rparr>) ps' j q) \<and>
    (\<forall>p j. p \<noteq> q \<longrightarrow> takes n ps j p \<longrightarrow> takes (n\<lparr>n_gq := g\<rparr>) ps' j p) \<and>
    messages (n\<lparr>n_gq := g\<rparr>) q = messages n q @ [m] \<and> (\<forall>p. p \<noteq> q \<longrightarrow> messages (n\<lparr>n_gq := g\<rparr>) p = messages n p)"
proof -
  obtain mq where mq: "qview (n_gq n) q = Some mq" "mq_wf mq" "Suc (skynet_mq_length mq) < 2 ^ 30" "mq_in_global mq = 0 \<Longrightarrow> q \<notin> set ps"
    using q by (auto simp: takes_def)
  then obtain mq0 where mq0: "mqs (n_gq n) q = Some mq0" "mq = mq0\<lparr>mq_next := None\<rparr>"
    by (auto simp: qview_def)
  let ?ps = "if mq_in_global mq = 0 then ps @ [q] else ps"
  obtain g q' where g: "skynet_mq_push (n_gq n) q m = Inr g" "qview g = (qview (n_gq n))(q \<mapsto> q')" "global_wf g ?ps"
    "mq_wf q'" "mq_contents q' = mq_contents mq @ [m]" "mq_in_global q' = (if mq_in_global mq = 0 then 1 else mq_in_global mq)"
    using mq_push_ok[OF wf mq0(1), of m] mq(2-4) mq0(2) by auto
  have len: "skynet_mq_length q' = Suc (skynet_mq_length mq)"
    using arg_cong[OF g(5), of length] by simp
  have same: "takes (n\<lparr>n_gq := g\<rparr>) ?ps j q" if "takes n ps (Suc j) q" for j
    using that g(2,4,6) len mq(1) by (auto simp: takes_def)
  have other: "takes (n\<lparr>n_gq := g\<rparr>) ?ps j p" if "takes n ps j p" "p \<noteq> q" for j p
    using that g(2) by (auto simp: takes_def)
  have msgs: "messages (n\<lparr>n_gq := g\<rparr>) q = messages n q @ [m]" "p \<noteq> q \<Longrightarrow> messages (n\<lparr>n_gq := g\<rparr>) p = messages n p" for p
    using g(2,5) mq(1) by (simp_all add: messages_qview)
  show ?thesis
    using g(1,3) same other msgs by blast
qed

lemma takes_malloc [simp]: "takes (n\<lparr>n_mem := m, n_brk := b\<rparr>) = takes n"
  by (simp add: fun_eq_iff takes_def)

text \<open>From \<open>n\<close> to \<open>n'\<close> the message \<open>m\<close> is put into queue \<open>q\<close>; blocks may be made, and nothing else changes.\<close>

definition posts :: "node \<Rightarrow> qptr list \<Rightarrow> node \<Rightarrow> qptr list \<Rightarrow> qptr \<Rightarrow> skynet_message \<Rightarrow> bool" where
  "posts n ps n' ps' q m \<longleftrightarrow>
     n' = n\<lparr>n_mem := n_mem n', n_brk := n_brk n', n_gq := n_gq n'\<rparr> \<and>
     (\<forall>a<n_brk n. n_mem n' a = n_mem n a) \<and> n_brk n \<le> n_brk n' \<and> (\<forall>a\<ge>n_brk n'. n_mem n' a = None) \<and>
     global_wf (n_gq n') ps' \<and> (\<forall>k. takes n ps (Suc k) q \<longrightarrow> takes n' ps' k q) \<and>
     (\<forall>p k. p \<noteq> q \<longrightarrow> takes n ps k p \<longrightarrow> takes n' ps' k p) \<and>
     messages n' q = messages n q @ [m] \<and> (\<forall>p. p \<noteq> q \<longrightarrow> messages n' p = messages n p)"

lemma posts_keep:
  assumes "posts n ps n' ps' q m"
  shows "n_ctxs n' = n_ctxs n" and "n_storage n' = n_storage n" and "n_logger n' = n_logger n"
    and "n_monitor_exit n' = n_monitor_exit n" and "reaches n' = reaches n"
    and "skynet_harbor_message_isremote n' = skynet_harbor_message_isremote n"
    and "skynet_context_handle n' = skynet_context_handle n"
proof -
  have n': "n' = n\<lparr>n_mem := n_mem n', n_brk := n_brk n', n_gq := n_gq n'\<rparr>"
    using assms by (simp add: posts_def)
  show "n_ctxs n' = n_ctxs n" "n_storage n' = n_storage n" "n_logger n' = n_logger n" "n_monitor_exit n' = n_monitor_exit n"
    by (subst n', simp)+
  show "reaches n' = reaches n" "skynet_harbor_message_isremote n' = skynet_harbor_message_isremote n"
    "skynet_context_handle n' = skynet_context_handle n"
    by (subst n', simp)+
qed

lemma postsD:
  assumes "posts n ps n' ps' q m"
  shows "a < n_brk n \<Longrightarrow> n_mem n' a = n_mem n a" and "n_brk n \<le> n_brk n'" and "n_brk n' \<le> a \<Longrightarrow> n_mem n' a = None"
    and "global_wf (n_gq n') ps'" and "takes n ps (Suc k) q \<Longrightarrow> takes n' ps' k q"
    and "p \<noteq> q \<Longrightarrow> takes n ps k p \<Longrightarrow> takes n' ps' k p"
    and "messages n' q = messages n q @ [m]" and "p \<noteq> q \<Longrightarrow> messages n' p = messages n p"
  using assms by (auto simp: posts_def)

lemma push_posts:
  assumes "global_wf (n_gq n) ps" and "takes n ps 1 q" and fresh: "\<And>a. n_brk n \<le> a \<Longrightarrow> n_mem n a = None"
  shows "\<exists>g ps'. skynet_mq_push (n_gq n) q m = Inr g \<and> posts n ps (n\<lparr>n_gq := g\<rparr>) ps' q m"
proof -
  obtain g ps' where g: "skynet_mq_push (n_gq n) q m = Inr g" "global_wf g ps'"
    "\<And>j. takes n ps (Suc j) q \<Longrightarrow> takes (n\<lparr>n_gq := g\<rparr>) ps' j q" "\<And>p j. p \<noteq> q \<Longrightarrow> takes n ps j p \<Longrightarrow> takes (n\<lparr>n_gq := g\<rparr>) ps' j p"
    "messages (n\<lparr>n_gq := g\<rparr>) q = messages n q @ [m]" "\<And>p. p \<noteq> q \<Longrightarrow> messages (n\<lparr>n_gq := g\<rparr>) p = messages n p"
    using push_takes[of n ps 0 q m] assms(1,2) by auto
  then have "posts n ps (n\<lparr>n_gq := g\<rparr>) ps' q m"
    unfolding posts_def using fresh by simp
  with g(1) show ?thesis
    by blast
qed

section \<open>A list of messages\<close>

text \<open>Every handle is unknown, or its queue takes \<open>k\<close> messages.\<close>

definition open_to :: "node \<Rightarrow> qptr list \<Rightarrow> nat \<Rightarrow> bool" where
  "open_to n ps k \<longleftrightarrow> global_wf (n_gq n) ps \<and>
     (\<forall>h. handle_lookup (skynet_context_handle n) (n_storage n) h = Inr None \<or> (\<exists>c q. reaches n h c q \<and> takes n ps k q))"

lemma reaches_one: "reaches n h c q \<Longrightarrow> reaches n h c' q' \<Longrightarrow> q' = q"
  by (auto simp: reaches_def)

lemma takes_less: "takes n ps (Suc k) q \<Longrightarrow> takes n ps k q"
  by (auto simp: takes_def)

definition for_queue :: "node \<Rightarrow> qptr \<Rightarrow> push list \<Rightarrow> skynet_message list" where
  "for_queue n q out = map snd (filter (\<lambda>(h, _). \<exists>c. reaches n h c q) out)"

lemma push_all_delivers:
  assumes "open_to n ps (length out)"
  shows "\<exists>g. push_all sv n out = Inr (n\<lparr>n_gq := g\<rparr>) \<and> (\<forall>q. messages (n\<lparr>n_gq := g\<rparr>) q = messages n q @ for_queue n q out)"
  using assms
proof (induction out arbitrary: n ps)
  case Nil
  then show ?case
    by (intro exI[of _ "n_gq n"]) (simp add: for_queue_def)
next
  case (Cons a out)
  obtain h m where a: "a = (h, m)"
    by (cases a)
  have wf: "global_wf (n_gq n) ps"
    using Cons.prems by (simp add: open_to_def)
  show ?case
  proof (cases "handle_lookup (skynet_context_handle n) (n_storage n) h = Inr None")
    case True
    then have "\<not> reaches n h c q" for c q
      by (simp add: reaches_def)
    moreover have "open_to n ps (length out)"
      using Cons.prems unfolding open_to_def by (metis length_Cons takes_less)
    from Cons.IH[OF this] obtain g where "push_all sv n out = Inr (n\<lparr>n_gq := g\<rparr>)"
      "\<forall>q. messages (n\<lparr>n_gq := g\<rparr>) q = messages n q @ for_queue n q out"
      by blast
    ultimately show ?thesis
      using context_push_dead[OF True] by (intro exI[of _ g]) (simp add: a for_queue_def)
  next
    case False
    then obtain c q where r: "reaches n h c q" and t: "takes n ps (Suc (length out)) q"
      using Cons.prems by (auto simp: open_to_def)
    obtain g ps' where g: "skynet_mq_push (n_gq n) q m = Inr g" "global_wf g ps'"
      "\<And>j. takes n ps (Suc j) q \<Longrightarrow> takes (n\<lparr>n_gq := g\<rparr>) ps' j q" "\<And>p j. p \<noteq> q \<Longrightarrow> takes n ps j p \<Longrightarrow> takes (n\<lparr>n_gq := g\<rparr>) ps' j p"
      "messages (n\<lparr>n_gq := g\<rparr>) q = messages n q @ [m]" "\<And>p. p \<noteq> q \<Longrightarrow> messages (n\<lparr>n_gq := g\<rparr>) p = messages n p"
      using push_takes[OF wf t, of m] by blast
    have "takes (n\<lparr>n_gq := g\<rparr>) ps' (length out) p" if "takes n ps (Suc (length out)) p" for p
      using g(3,4) that takes_less by (cases "p = q") blast+
    moreover have "handle_lookup (skynet_context_handle n) (n_storage n) h' = Inr None \<or> (\<exists>c p. reaches n h' c p \<and> takes n ps (Suc (length out)) p)" for h'
      using Cons.prems unfolding open_to_def by simp
    moreover have "n_gq (n\<lparr>n_gq := g\<rparr>) = g" "n_storage (n\<lparr>n_gq := g\<rparr>) = n_storage n"
      by simp_all
    ultimately have "open_to (n\<lparr>n_gq := g\<rparr>) ps' (length out)"
      using g(2) unfolding open_to_def by (simp only: handle_keeps reaches_gq) blast
    from Cons.IH[OF this] obtain g' where g': "push_all sv (n\<lparr>n_gq := g\<rparr>) out = Inr (n\<lparr>n_gq := g'\<rparr>)"
      "\<forall>p. messages (n\<lparr>n_gq := g'\<rparr>) p = messages (n\<lparr>n_gq := g\<rparr>) p @ for_queue (n\<lparr>n_gq := g\<rparr>) p out"
      by auto
    have "for_queue n p (a # out) = (if p = q then [m] else []) @ for_queue (n\<lparr>n_gq := g\<rparr>) p out" for p
    proof -
      have "(\<exists>c. reaches n h c p) \<longleftrightarrow> p = q"
        using r reaches_one[OF r] by blast
      then show ?thesis
        by (simp add: for_queue_def a)
    qed
    then have "messages (n\<lparr>n_gq := g'\<rparr>) p = messages n p @ for_queue n p (a # out)" for p
      using g'(2) g(5,6) by simp
    then show ?thesis
      using context_push_live[OF r g(1), of sv] g'(1) by (intro exI[of _ g']) (simp add: a)
  qed
qed

end
