(* ===== verification/Sky_Snlua_Launch.thy ===== *)
theory Sky_Snlua_Launch
  imports Sky_Logger Sky_Snlua Sky_Deliver
begin

text \<open>
  Model of the start of a Lua service in \<^verbatim>\<open>service-src/service_snlua.c\<close> (\<open>init_cb\<close>): the settings that go to Lua
  as global names, the loader, and what happens when it fails. The files of Lua are a parameter.
\<close>

section \<open>The start of a Lua service\<close>

text \<open>
  What Lua does: \<open>la_load\<close> compiles the loader, with the text of its error; \<open>la_run\<close> runs it on the
  arguments of the service, with the text \<open>traceback\<close> makes of an error, or the number it has left in the
  registry as \<open>memlimit\<close>. Both see the global names and may call the node and allocate.
  \<open>la_mega\<close> is the text of a number of bytes in megabytes with two digits.
\<close>

type_synonym lua_globals = "(string \<times> string option) list"

record lua_code =
  la_load :: "lua_globals \<Rightarrow> string \<Rightarrow> node \<times> snlua \<Rightarrow> (node \<times> snlua) \<times> string option"
  la_run :: "lua_globals \<Rightarrow> string \<Rightarrow> u8 list \<Rightarrow> node \<times> snlua \<Rightarrow> (node \<times> snlua) \<times> (string + u64 option)"
  la_mega :: "u64 \<Rightarrow> string"

text \<open>The literal \<open>"ERROR"\<close> is a block of the memory while the call runs, which copies it.\<close>

definition report_launcher_error :: "svc \<Rightarrow> node \<Rightarrow> cptr \<Rightarrow> node res" where
  "report_launcher_error sv n c =
     (let (n, lit) = skynet_malloc n (Bytes (str_bytes ''ERROR'' @ [0])) in
      cbind (skynet_sendname sv n (Some c) 0 ''.launcher'' (int PTYPE_TEXT) 0 lit 5) (\<lambda>(n, _). skynet_free n lit))"

definition snlua_optstring :: "svc \<Rightarrow> node \<Rightarrow> cptr \<Rightarrow> string \<Rightarrow> string \<Rightarrow> (node \<times> string) res" where
  "snlua_optstring sv n c key str =
     cbind (skynet_command sv n c ''GETENV'' (Some key)) (\<lambda>(n, ret).
     case ret of None \<Rightarrow> Inr (n, str) | Some s \<Rightarrow> Inr (n, s))"

definition load_and_run ::
  "lua_code \<Rightarrow> lua_globals \<Rightarrow> string \<Rightarrow> u8 list \<Rightarrow> node \<times> snlua \<Rightarrow> (node \<times> snlua) \<times> (string + u64 option)" where
  "load_and_run la gs loader args s =
     (let (s, r) = la_load la gs loader s in
      case r of
        Some e \<Rightarrow> (s, Inl (''Can't load '' @ loader @ '' : '' @ e))
      | None \<Rightarrow>
          (let (s, r) = la_run la gs loader args s in
           case r of
             Inl e \<Rightarrow> (s, Inl (''lua loader error : '' @ e))
           | Inr limit \<Rightarrow> (s, Inr limit)))"

definition init_cb :: "svc \<Rightarrow> lua_code \<Rightarrow> node \<Rightarrow> snlua \<Rightarrow> cptr \<Rightarrow> u8 list \<Rightarrow> ((node \<times> snlua) \<times> int) res" where
  "init_cb sv la n l c args =
     cbind (snlua_optstring sv n c ''lua_path'' ''./lualib/?.lua;./lualib/?/init.lua'') (\<lambda>(n, path).
     cbind (snlua_optstring sv n c ''lua_cpath'' ''./luaclib/?.so'') (\<lambda>(n, cpath).
     cbind (snlua_optstring sv n c ''luaservice'' ''./service/?.lua'') (\<lambda>(n, service).
     cbind (skynet_command sv n c ''GETENV'' (Some ''preload'')) (\<lambda>(n, preload).
     cbind (snlua_optstring sv n c ''lualoader'' ''./lualib/loader.lua'') (\<lambda>(n, loader).
     let gs = [(''LUA_PATH'', Some path), (''LUA_CPATH'', Some cpath), (''LUA_SERVICE'', Some service), (''LUA_PRELOAD'', preload)];
         ((n, l), r) = load_and_run la gs loader args (n, l\<lparr>sl_ctx := Some c\<rparr>) in
     case r of
       Inl err \<Rightarrow>
         cbind (skynet_error sv n (Some c) err) (\<lambda>n.
         cbind (report_launcher_error sv n c) (\<lambda>n. Inr ((n, l), 1)))
     | Inr None \<Rightarrow> Inr ((n, l), 0)
     | Inr (Some limit) \<Rightarrow>
         cbind (skynet_error sv n (Some c) (''Set memory limit to '' @ la_mega la limit @ '' M'')) (\<lambda>n.
         Inr ((n, l\<lparr>sl_mem_limit := limit\<rparr>), 0)))))))"

text \<open>\<open>init_cb\<close> as \<open>launch_cb\<close> calls it, with the instance \<open>l\<close>.\<close>

definition launch_init :: "svc \<Rightarrow> lua_code \<Rightarrow> snlua \<Rightarrow> cptr \<Rightarrow> node \<Rightarrow> u8 list \<Rightarrow> (node \<times> int) res" where
  "launch_init sv la l c n args = cbind (init_cb sv la n l c args) (\<lambda>((n, _), err). Inr (n, err))"

section \<open>Messages one after the other\<close>

lemma malloc_posts:
  assumes "posts (fst (skynet_malloc n b)) ps n' ps' q m"
  shows "posts n ps n' ps' q m"
  using assms by (auto simp: posts_def skynet_malloc_def takes_def)

text \<open>What \<open>skynet_error\<close> puts into the queue of the log.\<close>

definition text_message :: "u32 \<Rightarrow> string \<Rightarrow> nat \<Rightarrow> skynet_message" where
  "text_message src txt p = sent_message src (int PTYPE_TEXT) 0 (of_nat (length txt)) p"

definition is_text :: "node \<Rightarrow> u32 \<Rightarrow> string \<Rightarrow> skynet_message \<Rightarrow> bool" where
  "is_text n src txt m \<longleftrightarrow> (\<exists>p. m = text_message src txt p \<and> n_mem n p = Some (Bytes (str_bytes txt @ [0])))"

lemma is_text_kept:
  assumes "posts n ps n' ps' q m" and "is_text n src txt m'" and "\<And>a. n_brk n \<le> a \<Longrightarrow> n_mem n a = None"
  shows "is_text n' src txt m'"
proof -
  obtain p where p: "m' = text_message src txt p" "n_mem n p = Some (Bytes (str_bytes txt @ [0]))"
    using assms(2) by (auto simp: is_text_def)
  then have "p < n_brk n"
    using assms(3)[of p] by (cases "n_brk n \<le> p") auto
  with postsD(1)[OF assms(1)] p show ?thesis
    by (auto simp: is_text_def)
qed

lemma error_posts:
  assumes "n_logger n \<noteq> 0" and "reaches n (n_logger n) d q" and "global_wf (n_gq n) ps" and "takes n ps 1 q"
    and "\<And>a. n_brk n \<le> a \<Longrightarrow> n_mem n a = None" and "context_source n (Some c) = Inr src"
  shows "\<exists>n' ps' m. skynet_error sv n (Some c) txt = Inr n' \<and> posts n ps n' ps' q m \<and> is_text n' src txt m"
proof -
  let ?n1 = "n\<lparr>n_mem := (n_mem n)(n_brk n \<mapsto> Bytes (str_bytes txt @ [0])), n_brk := Suc (n_brk n)\<rparr>"
  have n1: "fst (skynet_malloc n (Bytes (str_bytes txt @ [0]))) = ?n1"
    by (simp add: skynet_malloc_def)
  have reach: "reaches ?n1 (n_logger n) d q" and src: "context_source ?n1 (Some c) = Inr src"
    using assms(2,6) by simp_all
  have room: "global_wf (n_gq ?n1) ps" "takes ?n1 ps 1 q"
    using assms(3,4) by simp_all
  have fresh: "n_mem ?n1 a = None" if "n_brk ?n1 \<le> a" for a
    using assms(5)[of a] that by simp
  obtain g ps' where g: "skynet_mq_push (n_gq ?n1) q (text_message src txt (n_brk n)) = Inr g"
    "posts ?n1 ps (?n1\<lparr>n_gq := g\<rparr>) ps' q (text_message src txt (n_brk n))"
    using push_posts[OF room fresh] by blast
  have m: "text_message src txt (n_brk n) = \<lparr>source = src, session = 0, msg_data = n_brk n,
      sz = of_nat (length txt) OR push_bit MESSAGE_TYPE_SHIFT (of_nat PTYPE_TEXT)\<rparr>"
    by (simp add: text_message_def sent_message_def PTYPE_TEXT_def)
  have "skynet_error sv n (Some c) txt = Inr (?n1\<lparr>n_gq := g\<rparr>)"
    using context_push_live[OF reach g(1), of sv, unfolded m] assms(1) src by (simp add: skynet_error_def skynet_malloc_def)
  moreover have "posts n ps (?n1\<lparr>n_gq := g\<rparr>) ps' q (text_message src txt (n_brk n))"
    by (rule malloc_posts[of n "Bytes (str_bytes txt @ [0])", unfolded n1, OF g(2)])
  moreover have "is_text (?n1\<lparr>n_gq := g\<rparr>) src txt (text_message src txt (n_brk n))"
    unfolding is_text_def by (intro exI[of _ "n_brk n"]) simp
  ultimately show ?thesis
    by blast
qed

lemma launcher_posts:
  assumes "skynet_handle_findname (n_storage n) ''launcher'' = Inr h" and "h \<noteq> 0" and "reaches n h d q"
    and "skynet_harbor_message_isremote n h = Inr False" and "global_wf (n_gq n) ps" and "takes n ps 1 q"
    and "\<And>a. n_brk n \<le> a \<Longrightarrow> n_mem n a = None" and "0 < n_brk n" and "context_source n (Some c) = Inr src"
  shows "\<exists>n' ps' m. report_launcher_error sv n c = Inr n' \<and> posts n ps n' ps' q m \<and> is_text n' src ''ERROR'' m"
proof -
  let ?b = "n_brk n" and ?s = "str_bytes ''ERROR'' @ [0]"
  let ?n1 = "n\<lparr>n_mem := (n_mem n)(?b \<mapsto> Bytes ?s), n_brk := Suc ?b\<rparr>"
  let ?n2 = "n\<lparr>n_mem := (n_mem n)(?b \<mapsto> Bytes ?s, Suc ?b \<mapsto> Bytes ?s), n_brk := Suc (Suc ?b)\<rparr>"
  let ?m = "text_message src ''ERROR'' (Suc ?b)"
  have keep: "reaches ?n2 h d q" "skynet_harbor_message_isremote ?n2 h = Inr False" "context_source ?n1 (Some c) = Inr src"
    "context_source ?n2 (Some c) = Inr src"
    using assms(3,4,9) by simp_all
  have room: "global_wf (n_gq ?n2) ps" "takes ?n2 ps 1 q"
    using assms(5,6) by simp_all
  have fresh: "n_mem ?n2 a = None" if "n_brk ?n2 \<le> a" for a
    using assms(7)[of a] that by simp
  obtain g ps' where g: "skynet_mq_push (n_gq ?n2) q ?m = Inr g" "posts ?n2 ps (?n2\<lparr>n_gq := g\<rparr>) ps' q ?m"
    using push_posts[OF room fresh] by blast
  have push: "skynet_context_push sv ?n2 h ?m = Inr (?n2\<lparr>n_gq := g\<rparr>, 0)"
    using context_push_live[OF keep(1) g(1)] .
  have tag: "int PTYPE_TEXT AND PTYPE_TAG_ALLOCSESSION = 0" "copies (int PTYPE_TEXT) ?b" "payload ?n1 ?b 5 ?s" "\<not> too_large 5"
    using assms(8) by (simp_all add: PTYPE_TEXT_def PTYPE_TAG_ALLOCSESSION_def copies_def payload_def too_large_def
        MESSAGE_TYPE_MASK_mask mask_eq_exp_minus_1 str_bytes_def)
  have five: "take (unat (5 :: u64)) ?s @ [0] = ?s"
    by (simp add: str_bytes_def)
  have f: "filter_args ?n1 (Some c) (int PTYPE_TEXT) 0 ?b 5 =
      Inr (?n2, 0, Suc ?b, 5 OR push_bit MESSAGE_TYPE_SHIFT (word_of_int (int PTYPE_TEXT AND 0xff)))"
    unfolding filter_args_plain[OF tag(1,3)] five using tag(2) by (simp add: skynet_malloc_def)
  have m: "?m = \<lparr>source = src, session = 0, msg_data = Suc ?b, sz = 5 OR push_bit MESSAGE_TYPE_SHIFT (word_of_int (int PTYPE_TEXT AND 0xff))\<rparr>"
    by (simp add: text_message_def sent_message_def)
  have send: "skynet_send sv ?n1 (Some c) src h (int PTYPE_TEXT) 0 ?b 5 = Inr (?n2\<lparr>n_gq := g\<rparr>, 0)"
    using tag(4) f keep(2,4) push[unfolded m] assms(2) by (cases "src = 0") (simp_all add: skynet_send_def)
  let ?n' = "?n2\<lparr>n_gq := g, n_mem := (n_mem ?n2)(?b := None)\<rparr>"
  have "report_launcher_error sv n c = Inr ?n'"
    using assms(1,2,8) keep(3) send by (simp add: report_launcher_error_def skynet_malloc_def skynet_sendname_def skynet_free_def deref_Some)
  moreover have "posts n ps ?n' ps' q ?m"
    using g(2) by (auto simp: posts_def takes_def messages_def)
  moreover have "is_text ?n' src ''ERROR'' ?m"
    unfolding is_text_def by (intro exI[of _ "Suc ?b"]) simp
  ultimately show ?thesis
    by blast
qed

section \<open>A loader that fails\<close>

definition setting :: "node \<Rightarrow> string \<Rightarrow> string \<Rightarrow> string" where
  "setting n key str = (case skynet_getenv n key of None \<Rightarrow> str | Some s \<Rightarrow> s)"

definition lua_settings :: "node \<Rightarrow> lua_globals" where
  "lua_settings n =
     [(''LUA_PATH'', Some (setting n ''lua_path'' ''./lualib/?.lua;./lualib/?/init.lua'')),
      (''LUA_CPATH'', Some (setting n ''lua_cpath'' ''./luaclib/?.so'')),
      (''LUA_SERVICE'', Some (setting n ''luaservice'' ''./service/?.lua'')),
      (''LUA_PRELOAD'', skynet_getenv n ''preload'')]"

lemma getenv_command: "skynet_command sv n c ''GETENV'' (Some key) = Inr (n, skynet_getenv n key)"
  by (simp add: skynet_command_def cmd_funcs_def cmd_getenv_def with_param_def)

lemma optstring_setting: "snlua_optstring sv n c key str = Inr (n, setting n key str)"
  by (simp add: snlua_optstring_def getenv_command setting_def split: option.split)

text \<open>
  The node after the loader: the service \<open>c\<close> is registered and held by the dispatch of its message too,
  the log (queue \<open>q\<close>) and the launcher (queue \<open>p\<close>) are there and their queues are not full.
\<close>

definition can_report :: "node \<Rightarrow> qptr list \<Rightarrow> cptr \<Rightarrow> skynet_context \<Rightarrow> qptr \<Rightarrow> qptr \<Rightarrow> bool" where
  "can_report n ps c x q p \<longleftrightarrow>
     n_ctxs n c = Some x \<and> 2 \<le> c_ref x \<and> handle_lookup (skynet_context_handle n) (n_storage n) (c_handle x) = Inr (Some c) \<and>
     handle_wf (skynet_context_handle n) (n_storage n) \<and> names_wf (n_storage n) \<and>
     n_logger n \<noteq> 0 \<and> (\<exists>d. reaches n (n_logger n) d q) \<and>
     (\<exists>h d. name_map (n_storage n) ''launcher'' = Some h \<and> h \<noteq> 0 \<and> skynet_harbor_message_isremote n h = Inr False \<and> reaches n h d p) \<and>
     p \<noteq> q \<and> global_wf (n_gq n) ps \<and> takes n ps 2 q \<and> takes n ps 1 p \<and> n_monitor_exit n = 0 \<and>
     0 < n_brk n \<and> (\<forall>a\<ge>n_brk n. n_mem n a = None)"

lemma exit_retires:
  assumes "skynet_error sv n (Some c) ''KILL self'' = Inr n'" and "n_ctxs n c = Some x" and "n_ctxs n' = n_ctxs n"
    and "n_monitor_exit n' = 0" and "handle_wf (skynet_context_handle n') (n_storage n')" and "names_wf (n_storage n')"
    and "handle_lookup (skynet_context_handle n') (n_storage n') (c_handle x) = Inr (Some c)" and "2 \<le> c_ref x"
  shows "\<exists>s. skynet_command sv n c ''EXIT'' None = Inr (n'\<lparr>n_storage := s, n_ctxs := (n_ctxs n)(c \<mapsto> x\<lparr>c_ref := c_ref x - 1\<rparr>)\<rparr>, None) \<and>
    handle_lookup (skynet_context_handle n') s (c_handle x) = Inr None"
proof -
  obtain s r where s: "handle_retire (skynet_context_handle n') (n_storage n') (c_handle x) = Inr (s, r)"
    "handle_wf (skynet_context_handle n') s" "\<forall>d. r = Some d \<longleftrightarrow> d \<in> registered (n_storage n') \<and> skynet_context_handle n' d = c_handle x"
    "registered s = registered (n_storage n') - set_option r"
    using handle_retire_ok[OF assms(5,6), of "c_handle x"] by blast
  have "c \<in> registered (n_storage n') \<and> skynet_context_handle n' c = c_handle x"
    using handle_lookup_ok[OF assms(5), of "c_handle x"] assms(7) by auto
  then have r: "r = Some c"
    using s(3) by blast
  have gone: "handle_lookup (skynet_context_handle n') s (c_handle x) = Inr None"
  proof -
    obtain t where t: "handle_lookup (skynet_context_handle n') s (c_handle x) = Inr t"
      "\<forall>d. t = Some d \<longleftrightarrow> d \<in> registered s \<and> skynet_context_handle n' d = c_handle x"
      using handle_lookup_ok[OF s(2), of "c_handle x"] by blast
    have "t = None"
      using t(2) s(3,4) r by (cases t) auto
    with t(1) show ?thesis
      by simp
  qed
  have rel: "skynet_context_release sv (n'\<lparr>n_storage := s\<rparr>) c =
      Inr (n'\<lparr>n_storage := s, n_ctxs := (n_ctxs n)(c \<mapsto> x\<lparr>c_ref := c_ref x - 1\<rparr>)\<rparr>)"
    using assms(2,3,8) by (simp add: skynet_context_release_def ctx_at_def deref_Some set_ctx_def)
  have "skynet_command sv n c ''EXIT'' None = Inr (n'\<lparr>n_storage := s, n_ctxs := (n_ctxs n)(c \<mapsto> x\<lparr>c_ref := c_ref x - 1\<rparr>)\<rparr>, None)"
    using assms(1,2,4) s(1) r rel
    by (simp add: skynet_command_def cmd_funcs_def cmd_exit_def handle_exit_def ctx_at_def deref_Some skynet_handle_retire_def)
  with gone show ?thesis
    by blast
qed


text \<open>A node with a Lua service (1), the log (2) and the launcher (3).\<close>

definition demo_launch :: node where
  "demo_launch = demo_node\<lparr>n_logger := 0x1000002, n_brk := 21, n_mem := [20 \<mapsto> Bytes (str_bytes ''main'')],
     n_storage := (skynet_handle_init 1)\<lparr>slot := [None, Some 1, Some 2, Some 3], handle_index := 4, name_count := 1,
       name := [Some \<lparr>hn_name = ''launcher'', hn_handle = 0x1000003\<rparr>, None]\<rparr>,
     n_gq := skynet_mq_create (skynet_mq_create (skynet_mq_create skynet_mq_init 11 0x1000001) 12 0x1000002) 13 0x1000003,
     n_ctxs := [1 \<mapsto> (new_context demo_node 0 9)\<lparr>c_handle := 0x1000001, c_queue := Some 11\<rparr>,
       2 \<mapsto> (new_context demo_node 0 9)\<lparr>c_handle := 0x1000002, c_queue := Some 12\<rparr>,
       3 \<mapsto> (new_context demo_node 0 9)\<lparr>c_handle := 0x1000003, c_queue := Some 13\<rparr>]\<rparr>"

definition demo_service :: skynet_context where
  "demo_service = (new_context demo_node 0 9)\<lparr>c_handle := 0x1000001, c_queue := Some 11\<rparr>"

definition no_file :: lua_code where
  "no_file = \<lparr>la_load = \<lambda>gs loader s. (s, Some ''no file''), la_run = \<lambda>gs loader args s. (s, Inr None), la_mega = \<lambda>_. ''0.00''\<rparr>"

lemma demo_launch_reports: "can_report (set_ctx demo_launch 1 (demo_service\<lparr>c_cb := None, c_cb_ud := 0\<rparr>)) [] 1 (demo_service\<lparr>c_cb := None, c_cb_ud := 0\<rparr>) 12 13"
proof -
  let ?n = "set_ctx demo_launch 1 (demo_service\<lparr>c_cb := None, c_cb_ud := 0\<rparr>)"
  have ch: "skynet_context_handle ?n = (\<lambda>c. if c = 1 then 0x1000001 else if c = 2 then 0x1000002 else if c = 3 then 0x1000003 else 0)"
    by (auto simp: fun_eq_iff skynet_context_handle_def set_ctx_def demo_launch_def demo_service_def)
  have st: "n_storage ?n = (skynet_handle_init 1)\<lparr>slot := [None, Some 1, Some 2, Some 3], handle_index := 4, name_count := 1,
       name := [Some \<lparr>hn_name = ''launcher'', hn_handle = 0x1000003\<rparr>, None]\<rparr>"
    by (simp add: set_ctx_def demo_launch_def)
  have look: "handle_lookup (skynet_context_handle ?n) (n_storage ?n) h = Inr (Some c)"
    if "(h, c) \<in> {(0x1000001, 1), (0x1000002, 2), (0x1000003, 3)}" for h c
    using that unfolding ch st
    by (auto simp: handle_lookup_def slot_hash_def slot_at_def skynet_handle_init_def DEFAULT_SLOT_SIZE_def)
  have reach: "reaches ?n 0x1000002 2 12" "reaches ?n 0x1000003 3 13"
    using look by (auto simp: reaches_def set_ctx_def demo_launch_def new_context_def)
  have wf: "handle_wf (skynet_context_handle ?n) (n_storage ?n)"
  proof -
    have cell: "i = c \<and> (c = 1 \<or> c = 2 \<or> c = 3)" 
      if "i < Suc (Suc (Suc (Suc 0)))" "[None, Some (Suc 0), Some 2, Some 3] ! i = Some c" for i c :: nat
      using that by (auto simp: less_Suc_eq numeral_eq_Suc)
    have "(4 :: nat) \<in> (\<lambda>k. 2 ^ k) ` {2..24}"
      by (rule image_eqI[of _ _ 2]) auto
    then show ?thesis
      unfolding ch st handle_wf_def skynet_handle_init_def DEFAULT_SLOT_SIZE_def slot_hash_def HANDLE_MASK_def HANDLE_REMOTE_SHIFT_def
      by (auto dest: cell)
  qed
  have names: "names_wf (n_storage ?n)" "name_map (n_storage ?n) ''launcher'' = Some 0x1000003"
    unfolding st by (simp_all add: names_wf_def name_tbl_def name_map_def skynet_handle_init_def cap_ok_2)
  have gq: "n_gq ?n = skynet_mq_create (skynet_mq_create (skynet_mq_create skynet_mq_init 11 0x1000001) 12 0x1000002) 13 0x1000003"
    by (simp add: set_ctx_def demo_launch_def)
  have "global_wf (n_gq ?n) []"
    unfolding gq by (auto simp: global_wf_def skynet_mq_create_def skynet_mq_init_def upd_mq_def mq_new_def)
  moreover have "takes ?n [] 2 12" "takes ?n [] 1 13"
    unfolding takes_def gq using mq_new_wf
    by (simp_all add: qview_def skynet_mq_create_def upd_mq_def skynet_mq_length_def mq_new_def)
  moreover have "n_ctxs ?n 1 = Some (demo_service\<lparr>c_cb := None, c_cb_ud := 0\<rparr>)"
    "2 \<le> c_ref (demo_service\<lparr>c_cb := None, c_cb_ud := 0\<rparr>)" "c_handle (demo_service\<lparr>c_cb := None, c_cb_ud := 0\<rparr>) = 0x1000001"
    by (simp_all add: set_ctx_def demo_service_def new_context_def)
  moreover have "n_logger ?n = 0x1000002" "n_monitor_exit ?n = 0" "0 < n_brk ?n" "\<forall>a\<ge>n_brk ?n. n_mem ?n a = None"
    "skynet_harbor_message_isremote ?n 0x1000003 = Inr False"
    by (simp_all add: set_ctx_def demo_launch_def demo_node_def node_init_def skynet_harbor_init_def skynet_harbor_message_isremote_def
        HANDLE_REMOTE_SHIFT_def HANDLE_MASK_def)
  moreover have "handle_lookup (skynet_context_handle ?n) (n_storage ?n) 0x1000001 = Inr (Some 1)"
    using look by simp
  ultimately show ?thesis
    unfolding can_report_def using wf names reach by auto
qed


end
