(* ===== verification/Sky_Main.thy ===== *)
theory Sky_Main
  imports Sky_Start
begin

text \<open>
  Model of \<^verbatim>\<open>skynet-src/skynet_main.c\<close>: the settings of a node. The table that the configuration file
  leaves in Lua is a parameter; its entries go to the environment (\<open>_init_env\<close>), from where \<open>main\<close> reads the
  settings, with a default for each (\<open>optint\<close>, \<open>optboolean\<close>, \<open>optstring\<close>).
\<close>

section \<open>Settings\<close>

definition optint :: "node \<Rightarrow> string \<Rightarrow> int \<Rightarrow> (node \<times> int) res" where
  "optint n key opt =
     (case skynet_getenv n key of
        None \<Rightarrow> cbind (skynet_setenv n key (int_str opt)) (\<lambda>n. Inr (n, opt))
      | Some str \<Rightarrow> Inr (n, to_int (strtol10 str)))"

definition optboolean :: "node \<Rightarrow> string \<Rightarrow> bool \<Rightarrow> (node \<times> bool) res" where
  "optboolean n key opt =
     (case skynet_getenv n key of
        None \<Rightarrow> cbind (skynet_setenv n key (if opt then ''true'' else ''false'')) (\<lambda>n. Inr (n, opt))
      | Some str \<Rightarrow> Inr (n, str = ''true''))"

definition optstring :: "node \<Rightarrow> string \<Rightarrow> string option \<Rightarrow> (node \<times> string option) res" where
  "optstring n key opt =
     (case skynet_getenv n key of
        None \<Rightarrow>
          (case opt of
             None \<Rightarrow> Inr (n, None)
           | Some s \<Rightarrow> cbind (skynet_setenv n key s) (\<lambda>n. Inr (n, skynet_getenv n key)))
      | Some str \<Rightarrow> Inr (n, Some str))"

text \<open>Keys and values of the table: \<open>lua_tostring\<close> gives the text of a string and of a number.\<close>

datatype lua_key = Key_string string | Key_other

datatype lua_value = Val_bool bool | Val_text string | Val_other

fun init_env :: "node \<Rightarrow> (lua_key \<times> lua_value) list \<Rightarrow> node res" where
  "init_env n [] = Inr n"
| "init_env n ((k, v) # kvs) =
     (case k of
        Key_other \<Rightarrow> Inl Exits
      | Key_string key \<Rightarrow>
          (case v of
             Val_bool b \<Rightarrow> cbind (skynet_setenv n key (if b then ''true'' else ''false'')) (\<lambda>n. init_env n kvs)
           | Val_text s \<Rightarrow> cbind (skynet_setenv n key s) (\<lambda>n. init_env n kvs)
           | Val_other \<Rightarrow> Inl Exits))"

section \<open>The program\<close>

definition SKYNET_MAXTHREAD :: int where "SKYNET_MAXTHREAD = 1024"

text \<open>
  \<open>load\<close> runs the configuration file and gives its table, \<open>None\<close> when it fails. The result is the exit
  code, and the configuration with the name of the file for the daemon when \<open>skynet_start\<close> is called.
\<close>

definition main ::
  "(string \<Rightarrow> (lua_key \<times> lua_value) list option) \<Rightarrow> node \<Rightarrow> string list
   \<Rightarrow> (node \<times> int \<times> (string option \<times> skynet_config) option) res" where
  "main load n argv =
     (case drop 1 argv of
        [] \<Rightarrow> Inr (n, 1, None)
      | config_file # _ \<Rightarrow>
          let n = (skynet_globalinit n)\<lparr>n_env := Map.empty\<rparr> in
          case load config_file of
            None \<Rightarrow> Inr (n, 1, None)
          | Some tbl \<Rightarrow>
              cbind (init_env n tbl) (\<lambda>n.
              cbind (optint n ''thread'' 8) (\<lambda>(n, thread).
              if thread < 1 \<or> SKYNET_MAXTHREAD < thread then Inr (n, 1, None)
              else
                cbind (optstring n ''cpath'' (Some ''./cservice/?.so'')) (\<lambda>(n, module_path).
                cbind (optint n ''harbor'' 1) (\<lambda>(n, harbor).
                cbind (optstring n ''bootstrap'' (Some ''snlua bootstrap'')) (\<lambda>(n, bootstrap).
                cbind (optstring n ''daemon'' None) (\<lambda>(n, daemon).
                cbind (optstring n ''logger'' None) (\<lambda>(n, logger).
                cbind (optstring n ''logservice'' (Some ''logger'')) (\<lambda>(n, logservice).
                cbind (optboolean n ''profile'' True) (\<lambda>(n, profile).
                Inr (n, 0, Some (daemon, \<lparr>cf_thread = nat thread, cf_harbor = harbor, cf_profile = profile,
                  cf_module_path = the module_path, cf_bootstrap = the bootstrap, cf_logger = logger,
                  cf_logservice = the logservice\<rparr>))))))))))))"

section \<open>Numbers in the environment\<close>

lemma to_int_in_range: "- (2 ^ 31) \<le> v \<Longrightarrow> v < 2 ^ 31 \<Longrightarrow> to_int v = v"
  unfolding to_int_def by (subst signed_of_int) (simp add: signed_take_bit_int_eq_self)

lemma nat_digits_not_empty: "nat_digits base n \<noteq> []"
  by (subst nat_digits.simps) auto

lemma skip_sign_digits: "skip_sign (nat_digits 10 n @ rest) = (False, nat_digits 10 n @ rest)"
proof -
  obtain c cs where c: "nat_digits 10 n = c # cs"
    using nat_digits_not_empty by (cases "nat_digits 10 n") auto
  then have "digit_val c < 16"
    using nat_digits_digits[of 10 c n] by simp
  then show ?thesis
    using isspace_digit digit_no_sign by (auto simp: c skip_sign_def)
qed

lemma skip_sign_minus: "skip_sign (CHR ''-'' # s) = (True, s)"
  by (simp add: skip_sign_def isspace_def)

text \<open>A number that is printed is read back, whatever follows it, if that is no digit.\<close>

lemma strtol10_int_str:
  assumes "- (2 ^ 63) < v" and "v < 2 ^ 63" and "rest = [] \<or> 10 \<le> digit_val (hd rest)"
  shows "strtol10 (int_str v @ rest) = v"
proof -
  have "takeWhile (\<lambda>c. digit_val c < 10) rest = []"
    using assms(3) by (cases rest) auto
  then have lead: "leading_digits 10 (nat_digits 10 n @ rest) = nat_digits 10 n" for n
    using nat_digits_digits[of 10 _ n] by (simp add: leading_digits_def takeWhile_append2)
  have val: "digits_val 10 (nat_digits 10 n) = n" for n
    by (simp add: nat_digits_val)
  show ?thesis
    using assms(1,2) by (auto simp: int_str_def strtol10_def skip_sign_digits skip_sign_minus lead val)
qed

section \<open>Properties\<close>

text \<open>
  A default is read back as it was set: after \<open>optint\<close>, \<open>optstring\<close> or \<open>optboolean\<close> has put the
  default of an unset key into the environment, reading that key gives it, whatever default is
  passed then; the other keys are not changed.
\<close>

theorem settings_roundtrip:
  assumes "n_env n key = None" and "- (2 ^ 31) \<le> v" and "v < 2 ^ 31"
  shows "(\<exists>n'. optint n key v = Inr (n', v) \<and> optint n' key d = Inr (n', v) \<and> (\<forall>k. k \<noteq> key \<longrightarrow> n_env n' k = n_env n k)) \<and>
    (\<exists>n'. optstring n key (Some s) = Inr (n', Some s) \<and> optstring n' key d' = Inr (n', Some s) \<and> (\<forall>k. k \<noteq> key \<longrightarrow> n_env n' k = n_env n k)) \<and>
    (\<exists>n'. optboolean n key b = Inr (n', b) \<and> optboolean n' key d'' = Inr (n', b) \<and> (\<forall>k. k \<noteq> key \<longrightarrow> n_env n' k = n_env n k))"
proof (intro conjI)
  have read: "to_int (strtol10 (int_str v)) = v"
    using strtol10_int_str[of v "[]"] assms(2,3) by (simp add: to_int_in_range)
  show "\<exists>n'. optint n key v = Inr (n', v) \<and> optint n' key d = Inr (n', v) \<and> (\<forall>k. k \<noteq> key \<longrightarrow> n_env n' k = n_env n k)"
    using assms(1) read by (simp add: optint_def skynet_getenv_def skynet_setenv_def c_assert_def)
  show "\<exists>n'. optstring n key (Some s) = Inr (n', Some s) \<and> optstring n' key d' = Inr (n', Some s) \<and> (\<forall>k. k \<noteq> key \<longrightarrow> n_env n' k = n_env n k)"
    using assms(1) by (simp add: optstring_def skynet_getenv_def skynet_setenv_def c_assert_def)
  show "\<exists>n'. optboolean n key b = Inr (n', b) \<and> optboolean n' key d'' = Inr (n', b) \<and> (\<forall>k. k \<noteq> key \<longrightarrow> n_env n' k = n_env n k)"
  proof (intro exI conjI)
    let ?s = "if b then ''true'' else ''false''"
    have "(?s = ''true'') = b"
      by simp
    moreover have "n_env (n\<lparr>n_env := (n_env n)(key \<mapsto> ?s)\<rparr>) key = Some ?s"
      by simp
    ultimately show "optboolean (n\<lparr>n_env := (n_env n)(key \<mapsto> ?s)\<rparr>) key d'' = Inr (n\<lparr>n_env := (n_env n)(key \<mapsto> ?s)\<rparr>, b)"
      by (simp only: optboolean_def skynet_getenv_def option.case)
    show "optboolean n key b = Inr (n\<lparr>n_env := (n_env n)(key \<mapsto> ?s)\<rparr>, b)"
      using assms(1) by (simp add: optboolean_def skynet_getenv_def skynet_setenv_def c_assert_def)
  qed simp
qed

theorem settings_roundtrip_witness:
  "\<exists>n n' n''. optint n ''harbor'' 1 = Inr (n', 1) \<and> optint n' ''harbor'' 7 = Inr (n', 1) \<and>
     optstring n ''logservice'' (Some ''logger'') = Inr (n'', Some ''logger'') \<and> n_env n'' ''harbor'' = None"
proof -
  let ?n = "demo_node\<lparr>n_env := Map.empty\<rparr>"
  obtain n' where "optint ?n ''harbor'' 1 = Inr (n', 1)" "optint n' ''harbor'' 7 = Inr (n', 1)"
    using settings_roundtrip[of ?n "''harbor''" 1 7 "[]" None True True] by auto
  moreover obtain n'' where "optstring ?n ''logservice'' (Some ''logger'') = Inr (n'', Some ''logger'')"
      "\<forall>k. k \<noteq> ''logservice'' \<longrightarrow> n_env n'' k = n_env ?n k"
    using settings_roundtrip[of ?n "''logservice''" 1 7 "''logger''" None True True] by auto
  moreover have "n_env n'' ''harbor'' = None"
    using calculation(4) by simp
  ultimately show ?thesis
    by blast
qed

text \<open>The text an entry of the table becomes, and the settings as they are meant: the entry, or a default.\<close>

fun value_text :: "lua_value \<Rightarrow> string" where
  "value_text (Val_bool b) = (if b then ''true'' else ''false'')"
| "value_text (Val_text s) = s"
| "value_text Val_other = []"

definition int_setting :: "(string \<Rightarrow> string option) \<Rightarrow> string \<Rightarrow> int \<Rightarrow> int" where
  "int_setting t key d = (case t key of None \<Rightarrow> d | Some s \<Rightarrow> to_int (strtol10 s))"

definition text_setting :: "(string \<Rightarrow> string option) \<Rightarrow> string \<Rightarrow> string \<Rightarrow> string" where
  "text_setting t key d = (case t key of None \<Rightarrow> d | Some s \<Rightarrow> s)"

definition meant :: "(string \<Rightarrow> string option) \<Rightarrow> string option \<times> skynet_config" where
  "meant t = (t ''daemon'',
     \<lparr>cf_thread = nat (int_setting t ''thread'' 8), cf_harbor = int_setting t ''harbor'' 1,
      cf_profile = (text_setting t ''profile'' ''true'' = ''true''), cf_module_path = text_setting t ''cpath'' ''./cservice/?.so'',
      cf_bootstrap = text_setting t ''bootstrap'' ''snlua bootstrap'', cf_logger = t ''logger'',
      cf_logservice = text_setting t ''logservice'' ''logger''\<rparr>)"

lemma init_env_table:
  assumes "distinct (map fst kvs)" and "\<And>k v. (k, v) \<in> set kvs \<Longrightarrow> v \<noteq> Val_other \<and> n_env n k = None"
  shows "\<exists>n'. init_env n (map (\<lambda>(k, v). (Key_string k, v)) kvs) = Inr n' \<and>
    n_env n' = n_env n ++ map_of (map (\<lambda>(k, v). (k, value_text v)) kvs)"
  using assms
proof (induction kvs arbitrary: n)
  case (Cons kv kvs)
  obtain k v where kv: "kv = (k, v)"
    by (cases kv)
  let ?n = "n\<lparr>n_env := (n_env n)(k \<mapsto> value_text v)\<rparr>"
  have set: "skynet_setenv n k (value_text v) = Inr ?n"
    using Cons.prems(2)[of k v] by (simp add: kv skynet_setenv_def c_assert_def)
  have "k \<notin> fst ` set kvs"
    using Cons.prems(1) by (simp add: kv)
  have rest: "v' \<noteq> Val_other \<and> n_env ?n k' = None" if "(k', v') \<in> set kvs" for k' v'
  proof -
    have "k' \<noteq> k"
      using \<open>k \<notin> fst ` set kvs\<close> image_eqI[of k' fst "(k', v')" "set kvs"] that by auto
    then show ?thesis
      using Cons.prems(2)[of k' v'] that by simp
  qed
  have "distinct (map fst kvs)"
    using Cons.prems(1) by (simp add: kv)
  from Cons.IH[OF this rest] obtain n' where n': "init_env ?n (map (\<lambda>(k, v). (Key_string k, v)) kvs) = Inr n'"
    "n_env n' = n_env ?n ++ map_of (map (\<lambda>(k, v). (k, value_text v)) kvs)"
    by blast
  have "map_of (map (\<lambda>(k, v). (k, value_text v)) kvs) k = None"
    using \<open>k \<notin> fst ` set kvs\<close> by (force simp: map_of_eq_None_iff)
  then have "n_env ?n ++ map_of (map (\<lambda>(k, v). (k, value_text v)) kvs) =
      n_env n ++ map_of (map (\<lambda>(k, v). (k, value_text v)) (kv # kvs))"
    by (auto simp: kv map_add_def fun_eq_iff split: option.splits)
  then have "n_env n' = n_env n ++ map_of (map (\<lambda>(k, v). (k, value_text v)) (kv # kvs))"
    by (rule trans[OF n'(2)])
  moreover have "v \<noteq> Val_other"
    using Cons.prems(2)[of k v] by (simp add: kv)
  then have "init_env n (map (\<lambda>(k, v). (Key_string k, v)) (kv # kvs)) = Inr n'"
    using set n'(1) by (cases v) (auto simp: kv)
  ultimately show ?case
    by blast
qed simp

lemma optint_reads:
  assumes "n_env m key = t key"
  shows "\<exists>m'. optint m key d = Inr (m', int_setting t key d) \<and> (\<forall>k. k \<noteq> key \<longrightarrow> n_env m' k = n_env m k)"
  using assms
  by (cases "t key") (auto simp: optint_def skynet_getenv_def skynet_setenv_def c_assert_def int_setting_def)

lemma optstring_reads:
  assumes "n_env m key = t key"
  shows "\<exists>m'. optstring m key (Some d) = Inr (m', Some (text_setting t key d)) \<and> (\<forall>k. k \<noteq> key \<longrightarrow> n_env m' k = n_env m k)"
  using assms
  by (cases "t key") (auto simp: optstring_def skynet_getenv_def skynet_setenv_def c_assert_def text_setting_def)

lemma optboolean_reads:
  assumes "n_env m key = t key"
  shows "\<exists>m'. optboolean m key True = Inr (m', text_setting t key ''true'' = ''true'')"
  using assms
  by (cases "t key") (auto simp: optboolean_def skynet_getenv_def skynet_setenv_def c_assert_def text_setting_def)

lemma optstring_none: "optstring m key None = Inr (m, n_env m key)"
  by (simp add: optstring_def skynet_getenv_def split: option.splits)

text \<open>
  C38. For a configuration table with string keys and with texts, numbers and truth values, \<open>main\<close> calls \<open>skynet_start\<close> with
  exactly the settings of the table and the defaults for those that are missing, when the number of
  threads is between 1 and 1024, and exits with 1 otherwise; it never fails an assertion.
\<close>

theorem main_reads_settings:
  assumes "load file = Some (map (\<lambda>(k, v). (Key_string k, v)) kvs)" and "distinct (map fst kvs)"
    and "\<And>k v. (k, v) \<in> set kvs \<Longrightarrow> v \<noteq> Val_other"
  defines "t \<equiv> map_of (map (\<lambda>(k, v). (k, value_text v)) kvs)"
  shows "\<exists>n'. main load n [prog, file] =
    (if int_setting t ''thread'' 8 \<in> {1..1024} then Inr (n', 0, Some (meant t)) else Inr (n', 1, None))"
proof -
  let ?n = "(skynet_globalinit n)\<lparr>n_env := Map.empty\<rparr>"
  obtain n1 where init: "init_env ?n (map (\<lambda>(k, v). (Key_string k, v)) kvs) = Inr n1" and env: "n_env n1 = t"
    using init_env_table[OF assms(2), of ?n] assms(3) by (auto simp: t_def)
  have "n_env n1 ''thread'' = t ''thread''"
    by (simp only: env)
  from optint_reads[of n1 "''thread''" t, OF this, of 8] obtain n2 where r2: "optint n1 ''thread'' 8 = Inr (n2, int_setting t ''thread'' 8)"
    and "\<And>k. k \<noteq> ''thread'' \<Longrightarrow> n_env n2 k = n_env n1 k" by blast
  then have e2: "n_env n2 ''cpath'' = t ''cpath''" "n_env n2 ''harbor'' = t ''harbor''" "n_env n2 ''bootstrap'' = t ''bootstrap''"
    "n_env n2 ''daemon'' = t ''daemon''" "n_env n2 ''logger'' = t ''logger''" "n_env n2 ''logservice'' = t ''logservice''"
    "n_env n2 ''profile'' = t ''profile''" by (simp_all add: env)
  from optstring_reads[of n2 "''cpath''" t, OF e2(1), of "''./cservice/?.so''"] obtain n3
    where r3: "optstring n2 ''cpath'' (Some ''./cservice/?.so'') = Inr (n3, Some (text_setting t ''cpath'' ''./cservice/?.so''))"
    and "\<And>k. k \<noteq> ''cpath'' \<Longrightarrow> n_env n3 k = n_env n2 k" by blast
  then have e3: "n_env n3 ''harbor'' = t ''harbor''" "n_env n3 ''bootstrap'' = t ''bootstrap''"
    "n_env n3 ''daemon'' = t ''daemon''" "n_env n3 ''logger'' = t ''logger''" "n_env n3 ''logservice'' = t ''logservice''"
    "n_env n3 ''profile'' = t ''profile''" by (simp_all add: e2)
  from optint_reads[of n3 "''harbor''" t, OF e3(1), of 1] obtain n4 where r4: "optint n3 ''harbor'' 1 = Inr (n4, int_setting t ''harbor'' 1)"
    and "\<And>k. k \<noteq> ''harbor'' \<Longrightarrow> n_env n4 k = n_env n3 k" by blast
  then have e4: "n_env n4 ''bootstrap'' = t ''bootstrap''" "n_env n4 ''daemon'' = t ''daemon''" "n_env n4 ''logger'' = t ''logger''"
    "n_env n4 ''logservice'' = t ''logservice''" "n_env n4 ''profile'' = t ''profile''" by (simp_all add: e3)
  from optstring_reads[of n4 "''bootstrap''" t, OF e4(1), of "''snlua bootstrap''"] obtain n5
    where r5: "optstring n4 ''bootstrap'' (Some ''snlua bootstrap'') = Inr (n5, Some (text_setting t ''bootstrap'' ''snlua bootstrap''))"
    and "\<And>k. k \<noteq> ''bootstrap'' \<Longrightarrow> n_env n5 k = n_env n4 k" by blast
  then have e5: "n_env n5 ''daemon'' = t ''daemon''" "n_env n5 ''logger'' = t ''logger''"
    "n_env n5 ''logservice'' = t ''logservice''" "n_env n5 ''profile'' = t ''profile''" by (simp_all add: e4)
  from optstring_reads[of n5 "''logservice''" t, OF e5(3), of "''logger''"] obtain n6
    where r6: "optstring n5 ''logservice'' (Some ''logger'') = Inr (n6, Some (text_setting t ''logservice'' ''logger''))"
    and "\<And>k. k \<noteq> ''logservice'' \<Longrightarrow> n_env n6 k = n_env n5 k" by blast
  then have e6: "n_env n6 ''profile'' = t ''profile''"
    by (simp add: e5)
  obtain n7 where r7: "optboolean n6 ''profile'' True = Inr (n7, text_setting t ''profile'' ''true'' = ''true'')"
    using optboolean_reads[of n6 "''profile''" t, OF e6] by blast
  have "main load n [prog, file] =
      (if int_setting t ''thread'' 8 < 1 \<or> SKYNET_MAXTHREAD < int_setting t ''thread'' 8 then Inr (n2, 1, None) else Inr (n7, 0, Some (meant t)))"
    by (simp add: main_def assms(1) init r2 r3 r4 r5 r6 r7 optstring_none e5 meant_def)
  then show ?thesis
    by (auto simp: SKYNET_MAXTHREAD_def)
qed

theorem main_reads_settings_witness:
  "\<exists>n'. main (\<lambda>_. Some [(Key_string ''thread'', Val_text ''4''), (Key_string ''profile'', Val_bool False)]) demo_node [''skynet'', ''config''] =
     Inr (n', 0, Some (None, \<lparr>cf_thread = 4, cf_harbor = 1, cf_profile = False, cf_module_path = ''./cservice/?.so'',
       cf_bootstrap = ''snlua bootstrap'', cf_logger = None, cf_logservice = ''logger''\<rparr>))"
proof -
  let ?kvs = "[(''thread'', Val_text ''4''), (''profile'', Val_bool False)]"
  let ?t = "map_of (map (\<lambda>(k, v). (k, value_text v)) ?kvs)"
  have four: "strtol10 ''4'' = 4" "to_int 4 = 4"
    by (code_simp, simp add: to_int_in_range)
  obtain n' where "main (\<lambda>_. Some (map (\<lambda>(k, v). (Key_string k, v)) ?kvs)) demo_node [''skynet'', ''config''] =
      (if int_setting ?t ''thread'' 8 \<in> {1..1024} then Inr (n', 0, Some (meant ?t)) else Inr (n', 1, None))"
    using main_reads_settings[of "\<lambda>_. Some (map (\<lambda>(k, v). (Key_string k, v)) ?kvs)" "''config''" ?kvs demo_node "''skynet''"] by auto
  then show ?thesis
    by (simp add: meant_def int_setting_def text_setting_def four)
qed

end
