(* ===== verification/Sky_Daemon.thy ===== *)
theory Sky_Daemon
  imports Sky_Main
begin

text \<open>
  Model of \<^verbatim>\<open>skynet-src/skynet_daemon.c\<close>: the pid file by which a second node with the same file is
  refused. The pid file is its text, \<open>None\<close> when there is none.
\<close>

section \<open>The pid file\<close>

text \<open>
  The answers of the system: whether the file can be read and written, the pid before and after
  \<open>daemon\<close>, whether \<open>kill(pid, 0)\<close> says that there is no such process, whether the other calls succeed.
\<close>

record daemon_os =
  dm_readable :: bool
  dm_pid :: int
  dm_child :: int
  dm_dead :: "int \<Rightarrow> bool"
  dm_daemon :: bool
  dm_open :: bool
  dm_fdopen :: bool
  dm_flock :: bool
  dm_print :: bool
  dm_null :: bool
  dm_dup :: "nat \<Rightarrow> bool"

text \<open>\<open>fscanf(f, "%d", &pid)\<close>.\<close>

definition scan_pid :: "string \<Rightarrow> int option" where
  "scan_pid s = (if leading_digits 10 (snd (skip_sign s)) = [] then None else Some (to_int (strtol10 s)))"

definition check_pid :: "daemon_os \<Rightarrow> string option \<Rightarrow> int" where
  "check_pid os pidfile =
     (case pidfile of
        None \<Rightarrow> 0
      | Some txt \<Rightarrow>
          if \<not> dm_readable os then 0
          else
            case scan_pid txt of
              None \<Rightarrow> 0
            | Some pid \<Rightarrow> if pid = 0 \<or> pid = dm_pid os then 0 else if dm_dead os pid then 0 else pid)"

text \<open>
  The file is opened without \<open>O_TRUNC\<close> and \<open>fdopen\<close> does not cut it: what is written replaces the
  beginning of the old text.
\<close>

definition overwrite :: "string \<Rightarrow> string \<Rightarrow> string" where
  "overwrite old s = s @ drop (length s) old"

definition write_pid :: "daemon_os \<Rightarrow> string option \<Rightarrow> string option \<times> int" where
  "write_pid os pidfile =
     (if \<not> dm_open os then (pidfile, 0)
      else
        let txt = (case pidfile of None \<Rightarrow> [] | Some s \<Rightarrow> s) in
        if \<not> dm_fdopen os then (Some txt, 0)
        else if \<not> dm_flock os then (Some txt, 0)
        else if \<not> dm_print os then (Some txt, 0)
        else (Some (overwrite txt (int_str (dm_child os) @ [CHR 0x0A])), dm_child os))"

definition redirect_fds :: "daemon_os \<Rightarrow> int" where
  "redirect_fds os =
     (if \<not> dm_null os then -1
      else if \<not> dm_dup os 0 then -1
      else if \<not> dm_dup os 1 then -1
      else if \<not> dm_dup os 2 then -1
      else 0)"

definition daemon_init :: "daemon_os \<Rightarrow> string option \<Rightarrow> string option \<times> int" where
  "daemon_init os pidfile =
     (if check_pid os pidfile \<noteq> 0 then (pidfile, 1)
      else if \<not> dm_daemon os then (pidfile, 1)
      else
        let (pidfile, pid) = write_pid os pidfile in
        if pid = 0 then (pidfile, 1)
        else if redirect_fds os \<noteq> 0 then (pidfile, 1)
        else (pidfile, 0))"

text \<open>\<open>unlink\<close> of a file that may be removed.\<close>

definition daemon_exit :: "string option \<Rightarrow> string option \<times> int" where
  "daemon_exit pidfile = (case pidfile of None \<Rightarrow> (None, -1) | Some _ \<Rightarrow> (None, 0))"

section \<open>One node for a file\<close>

lemma scan_pid_str:
  assumes "- (2 ^ 31) \<le> v" and "v < 2 ^ 31"
  shows "scan_pid (int_str v @ CHR 0x0A # rest) = Some v"
proof -
  have nl: "10 \<le> digit_val (CHR 0x0A)"
    by (simp add: digit_val_def Let_def)
  have "leading_digits 10 (nat_digits 10 n @ s) \<noteq> []" for n s
  proof -
    obtain c cs where c: "nat_digits 10 n = c # cs"
      using nat_digits_not_empty by (cases "nat_digits 10 n") auto
    then have "digit_val c < 10"
      using nat_digits_digits[of 10 c n] by simp
    then show ?thesis
      by (simp add: leading_digits_def c)
  qed
  then have "leading_digits 10 (snd (skip_sign (int_str v @ CHR 0x0A # rest))) \<noteq> []"
    unfolding int_str_def by (auto simp: skip_sign_digits skip_sign_minus)
  moreover have "strtol10 (int_str v @ CHR 0x0A # rest) = v"
    using assms nl by (intro strtol10_int_str) auto
  ultimately show ?thesis
    using to_int_in_range[OF assms] by (simp add: scan_pid_def)
qed


definition willing :: daemon_os where
  "willing = \<lparr>dm_readable = True, dm_pid = 10, dm_child = 42, dm_dead = \<lambda>p. p \<noteq> 42, dm_daemon = True, dm_open = True, dm_fdopen = True,
     dm_flock = True, dm_print = True, dm_null = True, dm_dup = \<lambda>_. True\<rparr>"


end
