(* ===== verification/Sky_Socket_Api.thy ===== *)
theory Sky_Socket_Api
  imports Sky_Start Sky_Socket_Close
begin

text \<open>
  Model of the rest of \<^verbatim>\<open>skynet-src/skynet_socket.c\<close>: the functions by which services use the one socket
  server of the node, on the node \<open>n\<close>, the calling context \<open>ctx\<close> and the server \<open>ss\<close>; and the pass of the
  socket thread, which takes a result of the socket server and forwards it.
\<close>

section \<open>The life of the server\<close>

definition skynet_socket_init :: "sockenv \<Rightarrow> node \<Rightarrow> int \<Rightarrow> server option" where
  "skynet_socket_init E n recvctrl_fd = socket_server_create E (skynet_now (n_timer n)) recvctrl_fd"

definition skynet_socket_exit :: "server \<Rightarrow> server" where
  "skynet_socket_exit ss = socket_server_exit ss"

definition skynet_socket_free :: "sockenv \<Rightarrow> server \<Rightarrow> server res" where
  "skynet_socket_free E ss = socket_server_release E ss"

definition skynet_socket_updatetime :: "node \<Rightarrow> server \<Rightarrow> server" where
  "skynet_socket_updatetime n ss = socket_server_updatetime ss (skynet_now (n_timer n))"

section \<open>The functions of the services\<close>

definition opaque_of :: "node \<Rightarrow> cptr \<Rightarrow> u64" where
  "opaque_of n ctx = ucast (skynet_context_handle n ctx)"

definition skynet_socket_sendbuffer :: "sockenv \<Rightarrow> server \<Rightarrow> sendbuffer \<Rightarrow> (server \<times> int) res" where
  "skynet_socket_sendbuffer E ss buffer = socket_server_send E ss buffer"

definition skynet_socket_sendbuffer_lowpriority :: "sockenv \<Rightarrow> server \<Rightarrow> sendbuffer \<Rightarrow> (server \<times> int) res" where
  "skynet_socket_sendbuffer_lowpriority E ss buffer = socket_server_send_lowpriority E ss buffer"

definition skynet_socket_listen :: "sockenv \<Rightarrow> node \<Rightarrow> cptr \<Rightarrow> server \<Rightarrow> string option \<Rightarrow> int \<Rightarrow> int \<Rightarrow> server \<times> int" where
  "skynet_socket_listen E n ctx ss host port conns = socket_server_listen E ss (opaque_of n ctx) host port conns"

definition skynet_socket_connect :: "node \<Rightarrow> cptr \<Rightarrow> server \<Rightarrow> string \<Rightarrow> int \<Rightarrow> server \<times> int" where
  "skynet_socket_connect n ctx ss host port = socket_server_connect ss (opaque_of n ctx) host port"

definition skynet_socket_bind :: "node \<Rightarrow> cptr \<Rightarrow> server \<Rightarrow> int \<Rightarrow> server \<times> int" where
  "skynet_socket_bind n ctx ss fd = socket_server_bind ss (opaque_of n ctx) fd"

definition skynet_socket_close :: "node \<Rightarrow> cptr \<Rightarrow> server \<Rightarrow> int \<Rightarrow> server" where
  "skynet_socket_close n ctx ss sid = socket_server_close ss (opaque_of n ctx) sid"

definition skynet_socket_shutdown :: "node \<Rightarrow> cptr \<Rightarrow> server \<Rightarrow> int \<Rightarrow> server" where
  "skynet_socket_shutdown n ctx ss sid = socket_server_shutdown ss (opaque_of n ctx) sid"

definition skynet_socket_start :: "node \<Rightarrow> cptr \<Rightarrow> server \<Rightarrow> int \<Rightarrow> server" where
  "skynet_socket_start n ctx ss sid = socket_server_start ss (opaque_of n ctx) sid"

definition skynet_socket_pause :: "node \<Rightarrow> cptr \<Rightarrow> server \<Rightarrow> int \<Rightarrow> server" where
  "skynet_socket_pause n ctx ss sid = socket_server_pause ss (opaque_of n ctx) sid"

definition skynet_socket_nodelay :: "server \<Rightarrow> int \<Rightarrow> server" where
  "skynet_socket_nodelay ss sid = socket_server_nodelay ss sid"

definition skynet_socket_udp :: "sockenv \<Rightarrow> node \<Rightarrow> cptr \<Rightarrow> server \<Rightarrow> string option \<Rightarrow> int \<Rightarrow> server \<times> int" where
  "skynet_socket_udp E n ctx ss addr port = socket_server_udp E ss (opaque_of n ctx) addr port"

definition skynet_socket_udp_dial :: "sockenv \<Rightarrow> node \<Rightarrow> cptr \<Rightarrow> server \<Rightarrow> string \<Rightarrow> int \<Rightarrow> server \<times> int" where
  "skynet_socket_udp_dial E n ctx ss addr port = socket_server_udp_dial E ss (opaque_of n ctx) addr port"

definition skynet_socket_udp_listen :: "sockenv \<Rightarrow> node \<Rightarrow> cptr \<Rightarrow> server \<Rightarrow> string option \<Rightarrow> int \<Rightarrow> server \<times> int" where
  "skynet_socket_udp_listen E n ctx ss addr port = socket_server_udp_listen E ss (opaque_of n ctx) addr port"

definition skynet_socket_udp_connect :: "sockenv \<Rightarrow> server \<Rightarrow> int \<Rightarrow> string \<Rightarrow> int \<Rightarrow> (server \<times> int) res" where
  "skynet_socket_udp_connect E ss sid addr port = socket_server_udp_connect E ss sid addr port"

definition skynet_socket_udp_sendbuffer :: "sockenv \<Rightarrow> server \<Rightarrow> u8 list \<Rightarrow> sendbuffer \<Rightarrow> (server \<times> int) res" where
  "skynet_socket_udp_sendbuffer E ss address buffer = socket_server_udp_send E ss address buffer"

text \<open>The type of the message, its buffer and its \<open>ud\<close>.\<close>

definition skynet_socket_udp_address :: "int \<Rightarrow> u8 list \<Rightarrow> nat \<Rightarrow> (u8 list \<times> nat) option res" where
  "skynet_socket_udp_address type data ud =
     (if type \<noteq> SKYNET_SOCKET_TYPE_UDP then Inr None else socket_server_udp_address data ud)"

definition skynet_socket_info :: "sockenv \<Rightarrow> server \<Rightarrow> server \<times> socket_info list" where
  "skynet_socket_info E ss = socket_server_info E ss"

section \<open>The pass of the socket thread\<close>

text \<open>
  The message of the socket server with its data at \<open>p\<close>, which is an address of the memory of the node.
\<close>

definition event_of :: "poll_result \<Rightarrow> nat \<Rightarrow> sock_event" where
  "event_of r p = \<lparr>se_id = pr_id r, se_opaque = pr_opaque r, se_ud = pr_ud r, se_data = p\<rparr>"

text \<open>The type a service gets for a code of the socket server, and whether the text goes behind the message.\<close>

definition forwarded :: "(int \<times> int \<times> bool) set" where
  "forwarded = {(SOCKET_DATA, SKYNET_SOCKET_TYPE_DATA, False), (SOCKET_CLOSE, SKYNET_SOCKET_TYPE_CLOSE, False),
     (SOCKET_OPEN, SKYNET_SOCKET_TYPE_CONNECT, True), (SOCKET_ERR, SKYNET_SOCKET_TYPE_ERROR, True),
     (SOCKET_ACCEPT, SKYNET_SOCKET_TYPE_ACCEPT, True), (SOCKET_UDP, SKYNET_SOCKET_TYPE_UDP, False),
     (SOCKET_WARNING, SKYNET_SOCKET_TYPE_WARNING, False)}"

text \<open>
  C37. Whatever \<open>socket_server_poll\<close> returns, \<open>skynet_socket_poll\<close> forwards it to the service as a message of the
  type that belongs to it, or ends the socket thread on \<open>SOCKET_EXIT\<close>; its error for an unknown type
  is never reached. It returns -1, so that the socket thread does not wake workers, exactly when \<open>more\<close> is set.
\<close>

theorem socket_thread_forwards:
  assumes "socket_server_poll E ss more_flag = Some (Inr (ss', more_flag', t))"
  shows "t = SOCKET_EXIT \<and> skynet_socket_poll sv n t (event_of (srv_result ss') p) more_flag' = Inr (n, 0) \<or>
    (\<exists>type padding. (t, type, padding) \<in> forwarded \<and>
       skynet_socket_poll sv n t (event_of (srv_result ss') p) more_flag' =
         cbind (forward_message sv n type padding (event_of (srv_result ss') p)) (\<lambda>n. Inr (n, if more_flag' then -1 else 1)))"
proof -
  have codes: "SOCKET_DATA = 0" "SOCKET_CLOSE = 1" "SOCKET_OPEN = 2" "SOCKET_ACCEPT = 3" "SOCKET_ERR = 4" "SOCKET_EXIT = 5"
    "SOCKET_UDP = 6" "SOCKET_WARNING = 7"
    by (simp_all add: SOCKET_DATA_def SOCKET_CLOSE_def SOCKET_OPEN_def SOCKET_ACCEPT_def SOCKET_ERR_def SOCKET_EXIT_def
        SOCKET_UDP_def SOCKET_WARNING_def)
  have "t \<in> {0, 1, 2, 3, 4, 5, 6, 7}"
    using socket_poll_codes[OF assms] by (auto simp: codes)
  then show ?thesis
    by (elim insertE emptyE) (simp_all add: skynet_socket_poll_def forwarded_def codes Let_def ex_bool_eq)
qed

theorem socket_thread_forwards_witness:
  "\<exists>ss' sv n p. socket_server_poll two_bytes (send_request one_connection (Req_K 7 True 0)) True = Some (Inr (ss', True, SOCKET_CLOSE)) \<and>
     skynet_socket_poll sv n SOCKET_CLOSE (event_of (srv_result ss') p) True =
       cbind (forward_message sv n SKYNET_SOCKET_TYPE_CLOSE False (event_of (srv_result ss') p)) (\<lambda>n. Inr (n, -1))"
proof -
  obtain s1 where "poll_pass two_bytes (send_request one_connection (Req_K 7 True 0)) True = Inr (s1, True, Some SOCKET_CLOSE)"
    using shut_first by blast
  then have poll: "socket_server_poll two_bytes (send_request one_connection (Req_K 7 True 0)) True = Some (Inr (s1, True, SOCKET_CLOSE))"
    by (subst socket_server_poll.simps) simp
  have "(SOCKET_CLOSE, type, padding) \<in> forwarded \<Longrightarrow> type = SKYNET_SOCKET_TYPE_CLOSE \<and> \<not> padding" for type padding
    by (simp add: forwarded_def SOCKET_DATA_def SOCKET_CLOSE_def SOCKET_OPEN_def SOCKET_ACCEPT_def SOCKET_ERR_def SOCKET_UDP_def SOCKET_WARNING_def)
  then have "skynet_socket_poll sv n SOCKET_CLOSE (event_of (srv_result s1) p) True =
      cbind (forward_message sv n SKYNET_SOCKET_TYPE_CLOSE False (event_of (srv_result s1) p)) (\<lambda>n. Inr (n, -1))" for sv n p
    using socket_thread_forwards[OF poll, of sv n p] by (fastforce simp: SOCKET_CLOSE_def SOCKET_EXIT_def)
  with poll show ?thesis
    by blast
qed

end
