(* ===== verification/Sky_Threads.thy ===== *)
theory Sky_Threads
  imports Sky_Socket_Api Sky_Daemon Sky_Deliver Sky_Timer_Spec
begin

text \<open>
  Model of what the threads of \<^verbatim>\<open>skynet-src/skynet_start.c\<close> do in a pass of their loops (\<open>thread_timer\<close>,
  \<open>thread_socket\<close>, \<open>thread_worker\<close>), of their creation (\<open>start\<close>) and of \<open>skynet_start\<close> as a whole. How the passes
  interleave with the sleep of the workers is \<open>monitor_step\<close> in \<open>Sky_Start\<close>.
\<close>

section \<open>The signal\<close>

definition SIGHUP :: int where "SIGHUP = 1"

definition handle_hup :: "int \<Rightarrow> bool \<Rightarrow> bool" where
  "handle_hup signal SIG = (if signal = SIGHUP then True else SIG)"

section \<open>A pass of a thread\<close>

text \<open>A pass ends the loop, or goes on, after a test of \<open>wakeup\<close> that has signalled a worker or not.\<close>

datatype pass = Breaks | Continues bool

text \<open>
  \<open>skynet_updatetime\<close> on the node: the time going back is logged, and the messages of the timer are
  pushed. \<open>env\<close> are the timeouts requested by other threads while it dispatches.
\<close>

definition node_updatetime :: "svc \<Rightarrow> int \<times> int \<Rightarrow> env \<Rightarrow> node \<Rightarrow> node res option" where
  "node_updatetime sv clock env n =
     (let cp = gettime clock; point = tm_current_point (n_timer n) in
      case (if cp < point
            then skynet_error sv n None (''time diff error: change from '' @ int_str (sint cp) @ '' to '' @ int_str (sint point))
            else Inr n) of
        Inl e \<Rightarrow> Some (Inl e)
      | Inr n \<Rightarrow>
          Option.bind (skynet_updatetime clock env (n_timer n)) (\<lambda>r.
          Some (cbind r (\<lambda>(T, out, _). push_all sv (n\<lparr>n_timer := T\<rparr>) out))))"

definition timer_pass ::
  "svc \<Rightarrow> int \<times> int \<Rightarrow> env \<Rightarrow> monitor \<Rightarrow> node \<times> server \<times> bool \<Rightarrow> ((node \<times> server \<times> bool) \<times> pass) res option" where
  "timer_pass sv clock env m = (\<lambda>(n, ss, SIG).
     Option.bind (node_updatetime sv clock env n) (\<lambda>r.
     Some (cbind r (\<lambda>n.
       let ss = skynet_socket_updatetime n ss in
       if skynet_context_total n = 0 then Inr ((n, skynet_socket_exit ss, SIG), Breaks)
       else
         cbind (if SIG then cbind (signal_hup sv n) (\<lambda>n. Inr (n, False)) else Inr (n, SIG)) (\<lambda>(n, SIG).
         Inr ((n, ss, SIG), Continues (wakeup m (int (mo_count m) - 1))))))))"

text \<open>\<open>p\<close> is the address of the data of the result, and \<open>more\<close> is 1 before every poll.\<close>

definition socket_pass :: "svc \<Rightarrow> sockenv \<Rightarrow> monitor \<Rightarrow> nat \<Rightarrow> node \<times> server \<Rightarrow> ((node \<times> server) \<times> pass) res option" where
  "socket_pass sv E m p = (\<lambda>(n, ss).
     Option.bind (socket_server_poll E ss True) (\<lambda>r.
     Some (cbind r (\<lambda>(ss, more_flag, type).
       cbind (skynet_socket_poll sv n type (event_of (srv_result ss) p) more_flag) (\<lambda>(n, r).
       if r = 0 then Inr ((n, ss), Breaks)
       else if r < 0 then Inr ((n, ss), if skynet_context_total n = 0 then Breaks else Continues False)
       else Inr ((n, ss), Continues (wakeup m 0)))))))"

text \<open>A worker that has got no queue sleeps before its next pass.\<close>

definition worker_pass ::
  "svc \<Rightarrow> int \<Rightarrow> monitor \<Rightarrow> skynet_monitor \<times> node \<times> qptr option \<Rightarrow> ((skynet_monitor \<times> node \<times> qptr option) \<times> bool option) res" where
  "worker_pass sv weight m = (\<lambda>(sm, n, q).
     if mo_quit m then Inr ((sm, n, q), None)
     else cbind (skynet_context_message_dispatch sv sm n q weight) (\<lambda>(sm, n, q). Inr ((sm, n, q), Some (q = None))))"

section \<open>The creation of the threads\<close>

text \<open>What the system answers: whether the mutex, the condition variable and the \<open>i\<close>-th thread can be made.\<close>

record thread_os =
  th_mutex :: bool
  th_cond :: bool
  th_create :: "nat \<Rightarrow> bool"

definition create_thread :: "thread_os \<Rightarrow> nat \<Rightarrow> unit res" where
  "create_thread os i = (if th_create os i then Inr () else Inl Exits)"

text \<open>The threads 0 to 2 are the monitor, the timer and the socket thread, then the workers with their weights.\<close>

fun create_workers :: "thread_os \<Rightarrow> nat \<Rightarrow> nat \<Rightarrow> (nat \<times> int) list res" where
  "create_workers os i 0 = Inr []"
| "create_workers os i (Suc k) =
     cbind (create_thread os (i + 3)) (\<lambda>_. cbind (create_workers os (Suc i) k) (\<lambda>wp. Inr ((i, worker_weight i) # wp)))"

definition start :: "thread_os \<Rightarrow> nat \<Rightarrow> (monitor \<times> skynet_monitor list \<times> (nat \<times> int) list) res" where
  "start os thread =
     (let ms = replicate thread skynet_monitor_new in
      if \<not> th_mutex os then Inl Exits
      else if \<not> th_cond os then Inl Exits
      else
        cbind (create_thread os 0) (\<lambda>_.
        cbind (create_thread os 1) (\<lambda>_.
        cbind (create_thread os 2) (\<lambda>_.
        cbind (create_workers os 0 thread) (\<lambda>wp. Inr (monitor_start thread, ms, wp))))))"

section \<open>The node from start to end\<close>

text \<open>
  \<open>run\<close> is the run of the threads until all of them are joined. The socket server is made before the
  first service; \<open>None\<close> when it fails, which nothing checks before its first use. The result is the
  node, the pid file and what is left of the socket server.
\<close>

definition skynet_start ::
  "svc \<Rightarrow> sockenv \<Rightarrow> thread_os \<Rightarrow> daemon_os \<Rightarrow> string option \<Rightarrow> bool \<Rightarrow> skynet_config \<Rightarrow> timer \<Rightarrow> int \<Rightarrow> (string \<Rightarrow> string option)
   \<Rightarrow> (monitor \<times> skynet_monitor list \<times> (nat \<times> int) list \<Rightarrow> node \<times> server \<Rightarrow> (node \<times> server) res)
   \<Rightarrow> (node \<times> server \<times> string option) res" where
  "skynet_start sv E os dm pidfile daemon config T recvctrl_fd environment run =
     (let (pidfile, r) = (if daemon then daemon_init dm pidfile else (pidfile, 0)) in
      if r \<noteq> 0 then Inl Exits
      else
        let n0 = node_init (cf_harbor config) (cf_module_path config) T (cf_profile config) environment in
        cbind (skynet_start_boot sv config T environment) (\<lambda>n.
        cbind (start os (cf_thread config)) (\<lambda>threads.
        case skynet_socket_init E n0 recvctrl_fd of
          None \<Rightarrow> Inl AssertFail
        | Some ss \<Rightarrow>
            cbind (run threads (n, ss)) (\<lambda>(n, ss).
            cbind (skynet_start_exit sv n) (\<lambda>n.
            cbind (skynet_socket_free E ss) (\<lambda>ss.
            Inr (n, ss, if daemon then fst (daemon_exit pidfile) else pidfile)))))))"

section \<open>From the command to the queue\<close>

text \<open>The timeouts of a list that a service gets in \<open>k\<close> ticks, in the order of the ticks and of the requests.\<close>

definition responses_at :: "waiting \<Rightarrow> u32 \<Rightarrow> nat \<Rightarrow> skynet_message list" where
  "responses_at L h i = map (\<lambda>ev. timeout_message (te_session ev)) (filter (\<lambda>ev. te_handle ev = h) (map snd (filter (\<lambda>x. fst x = i) L)))"

definition due_in :: "waiting \<Rightarrow> nat \<Rightarrow> u32 \<Rightarrow> skynet_message list" where
  "due_in L k h = concat (map (responses_at L h) [1..<Suc k])"

lemma due_in_Suc: "due_in L (Suc k) h = responses_at L h 1 @ due_in (spec_rest L) k h"
proof -
  have "[1..<Suc (Suc k)] = 1 # map Suc [1..<Suc k]"
    by (simp add: map_Suc_upt upt_conv_Cons)
  then have "due_in L (Suc k) h = responses_at L h 1 @ concat (map (\<lambda>i. responses_at L h (Suc i)) [1..<Suc k])"
    by (simp add: due_in_def comp_def del: upt_Suc)
  also have "map (\<lambda>i. responses_at L h (Suc i)) [1..<Suc k] = map (responses_at (spec_rest L) h) [1..<Suc k]"
  proof (intro map_cong refl)
    show "responses_at L h (Suc i) = responses_at (spec_rest L) h i" if "i \<in> set [1..<Suc k]" for i
      unfolding responses_at_def using that by (subst filter_spec_rest) auto
  qed
  finally show ?thesis
    by (simp only: due_in_def)
qed

lemma in_due_in:
  "m \<in> set (due_in L k h) \<longleftrightarrow>
     (\<exists>t ev. (t, ev) \<in> set L \<and> 1 \<le> t \<and> t \<le> k \<and> te_handle ev = h \<and> m = timeout_message (te_session ev))"
proof -
  have "set (due_in L k h) = (\<Union>i\<in>{1..k}. (\<lambda>ev. timeout_message (te_session ev)) ` {ev. (i, ev) \<in> set L \<and> te_handle ev = h})"
    by (force simp: due_in_def responses_at_def atLeastLessThanSuc_atLeastAtMost simp del: upt_Suc)
  then show ?thesis
    by auto blast
qed

lemma run_due:
  assumes "spec_run ok (replicate k Update) [] L = (L', outs, env')"
  shows "map snd (filter (\<lambda>(h', _). h' = h) (concat outs)) = due_in L k h \<and> length (concat outs) \<le> length L"
  using assms
proof (induction k arbitrary: L outs)
  case 0
  then show ?case
    by (simp add: due_in_def)
next
  case (Suc k)
  have u: "spec_update [] L = (spec_rest L, spec_due L, [])"
    by (simp add: spec_update_def spec_adds_def window_def)
  then obtain outs1 where run: "spec_run ok (replicate k Update) [] (spec_rest L) = (L', outs1, env')"
    and outs: "outs = map push_event (spec_due L) # outs1"
    using Suc.prems by (auto split: prod.splits)
  have "length (spec_due L) + length (spec_rest L) = length L"
    using sum_length_filter_compl[of "\<lambda>x. fst x = 1" L] by (simp add: spec_due_def spec_rest_def)
  moreover have "map snd (filter (\<lambda>(h', _). h' = h) (map push_event evs)) =
      map (\<lambda>ev. timeout_message (te_session ev)) (filter (\<lambda>ev. te_handle ev = h) evs)" for evs
    by (induction evs) (simp_all add: push_event_def)
  then have "map snd (filter (\<lambda>(h', _). h' = h) (map push_event (spec_due L))) = responses_at L h 1"
    unfolding responses_at_def spec_due_def .
  ultimately show ?case
    using Suc.IH[OF run] by (simp add: outs due_in_Suc)
qed

lemma newsession_positive:
  assumes "n_ctxs n c = Some x"
  shows "\<exists>w s. skynet_context_newsession n c = Inr (set_ctx n c (x\<lparr>c_session_id := w\<rparr>), s) \<and> 0 < s \<and> s < 2 ^ 31"
proof -
  have "sint (c_session_id x + 1) < 2 ^ 31"
    using sint_lt[of "c_session_id x + 1"] by simp
  then show ?thesis
    using assms by (auto simp: skynet_context_newsession_def ctx_at_def deref_Some Let_def not_le)
qed

lemma length_int_str:
  assumes "0 \<le> v" and "v < 2 ^ 31"
  shows "length (int_str v) \<le> 10"
  using length_nat_digits[of 10 "nat v" 9] assms by (simp add: int_str_def)

text \<open>A context whose handle, references and queue are the same is reached in the same way.\<close>

lemma same_reach:
  assumes "n_ctxs n c = Some x" and "c_handle y = c_handle x" "c_ref y = c_ref x" "c_queue y = c_queue x"
    and n'_def: "n' = (set_ctx n c y)\<lparr>n_timer := T\<rparr>"
  shows "reaches n' = reaches n" and "takes n' = takes n" and "messages n' = messages n"
    and "open_to n' = open_to n"
proof -
  have h: "skynet_context_handle n' = skynet_context_handle n"
    using assms(1,2) by (auto simp: n'_def skynet_context_handle_def set_ctx_def fun_eq_iff)
  have st: "n_storage n' = n_storage n" "n_gq n' = n_gq n"
    by (simp_all add: n'_def set_ctx_def)
  have "(\<exists>z. n_ctxs n' d = Some z \<and> 1 \<le> c_ref z \<and> c_queue z = Some q) \<longleftrightarrow> (\<exists>z. n_ctxs n d = Some z \<and> 1 \<le> c_ref z \<and> c_queue z = Some q)" for d q
    using assms(1,3,4) by (simp add: n'_def set_ctx_def)
  then show r: "reaches n' = reaches n"
    by (simp add: fun_eq_iff reaches_def h st)
  show t: "takes n' = takes n" and "messages n' = messages n"
    by (simp_all add: fun_eq_iff takes_def messages_def st)
  show "open_to n' = open_to n"
    by (simp add: fun_eq_iff open_to_def r t h st)
qed

lemma timer_keeps:
  "reaches (n\<lparr>n_timer := T\<rparr>) = reaches n" "takes (n\<lparr>n_timer := T\<rparr>) = takes n" "messages (n\<lparr>n_timer := T\<rparr>) = messages n"
  "open_to (n\<lparr>n_timer := T\<rparr>) = open_to n"
proof -
  let ?n = "n\<lparr>n_timer := T\<rparr>"
  have h: "skynet_context_handle ?n = skynet_context_handle n"
    by (simp add: skynet_context_handle_def fun_eq_iff)
  show t: "takes ?n = takes n" "messages ?n = messages n"
    by (simp_all add: fun_eq_iff takes_def messages_def)
  show r: "reaches ?n = reaches n"
    by (intro ext) (simp add: reaches_def h)
  show "open_to ?n = open_to n"
    by (intro ext) (simp add: open_to_def h t r)
qed

lemma timeout_command:
  assumes "timer_rel (n_timer n) L" and "n_ctxs n c = Some x" and "0 < to_int (strtol10 str)"
    and "skynet_context_newsession n c = Inr (m, s)"
  shows "\<exists>y T. skynet_command sv n c ''TIMEOUT'' (Some str) = Inr ((set_ctx n c y)\<lparr>n_timer := T\<rparr>, Some (int_str s)) \<and> 0 < s \<and>
    c_handle y = c_handle x \<and> c_ref y = c_ref x \<and> c_queue y = c_queue x \<and> clocks T = clocks (n_timer n) \<and>
    timer_rel T (L @ [(nat (to_int (strtol10 str)), \<lparr>te_handle = c_handle x, te_session = s\<rparr>)])"
proof -
  let ?d = "to_int (strtol10 str)"
  obtain w where s: "skynet_context_newsession n c = Inr (set_ctx n c (x\<lparr>c_session_id := w\<rparr>), s)" "0 < s" "s < 2 ^ 31"
    using newsession_positive[OF assms(2)] assms(4) by auto
  have "delay_ok ?d"
    using assms(3) sint_lt[of "word_of_int (strtol10 str) :: 32 word"] by (simp add: delay_ok_def INT_MAX_def to_int_def)
  then obtain T where T: "timer_add (n_timer n) \<lparr>te_handle = c_handle x, te_session = s\<rparr> ?d = Inr T" "clocks T = clocks (n_timer n)"
    "timer_rel T (L @ [(nat ?d, \<lparr>te_handle = c_handle x, te_session = s\<rparr>)])"
    using timer_add_rel[OF assms(1)] by blast
  have "length (int_str s) < 32"
    using length_int_str[of s] s(2,3) by simp
  then have "skynet_command sv n c ''TIMEOUT'' (Some str) =
      Inr ((set_ctx n c (x\<lparr>c_session_id := w, c_result := int_str s\<rparr>))\<lparr>n_timer := T\<rparr>, Some (int_str s))"
    using s(1) T(1) assms(3)
    by (simp add: skynet_command_def cmd_funcs_def cmd_timeout_def with_param_def ctx_at_def deref_Some skynet_timeout_def set_result_def set_ctx_def)
  then show ?thesis
    using s(2) T(2,3) by (intro exI[of _ "x\<lparr>c_session_id := w, c_result := int_str s\<rparr>"] exI[of _ T]) simp
qed

lemma updatetime_delivers:
  assumes "timer_rel (n_timer n) L" and "open_to n ps (length L)" and "\<And>h' d. reaches n h' d q \<Longrightarrow> h' = h" and "reaches n h c q"
    and "tm_current_point (n_timer n) \<le> gettime clock" and "k = unat (gettime clock - tm_current_point (n_timer n))" and "k \<le> INT_MAX"
  shows "\<exists>n'. node_updatetime sv clock [] n = Some (Inr n') \<and> messages n' q = messages n q @ due_in L k h"
proof -
  obtain L' outs env' where run: "spec_run (\<lambda>_. True) (replicate k Update) [] L = (L', outs, env')"
    by (cases "spec_run (\<lambda>_. True) (replicate k Update) [] L")
  obtain T where T: "skynet_updatetime clock [] (n_timer n) = Some (Inr (T, concat outs, env'))"
    using updatetime_catches_up[OF assms(1) env_ok_Nil assms(5,6,7) run] by blast
  let ?n = "n\<lparr>n_timer := T\<rparr>"
  note same = timer_keeps[where n = n and T = T]
  have less: "takes n ps j p" if "takes n ps k p" "j \<le> k" for j k p
    using that by (auto simp: takes_def)
  have "open_to ?n ps (length (concat outs))"
    using assms(2) run_due[OF run] less unfolding same open_to_def by blast
  then obtain g where g: "push_all sv ?n (concat outs) = Inr (?n\<lparr>n_gq := g\<rparr>)"
    "messages (?n\<lparr>n_gq := g\<rparr>) q = messages ?n q @ for_queue ?n q (concat outs)"
    using push_all_delivers by blast
  have "(\<exists>c. reaches ?n h' c q) \<longleftrightarrow> h' = h" for h'
    using assms(3,4) unfolding same by blast
  then have "for_queue ?n q (concat outs) = due_in L k h"
    using run_due[OF run, of h] by (simp add: for_queue_def)
  then have "messages (?n\<lparr>n_gq := g\<rparr>) q = messages n q @ due_in L k h"
    using g(2) by (simp add: same)
  moreover have "node_updatetime sv clock [] n = Some (Inr (?n\<lparr>n_gq := g\<rparr>))"
    using g(1) T leD[OF assms(5)] by (simp add: node_updatetime_def Let_def)
  ultimately show ?thesis
    by blast
qed

text \<open>
  C39. A timeout from the command to the queue. When a service calls \<open>TIMEOUT\<close> with a positive delay, the command
  returns the text of a new positive session; and when the timer thread next looks at the clock, \<open>k\<close>
  centiseconds later, the queue of the service has got exactly the responses that are due for its handle
  within \<open>k\<close> ticks, in the order of their ticks: those of its earlier timeouts, and the response with the new
  session if and only if the delay is at most \<open>k\<close>. The other timeouts of the node, whose services may be gone, do not disturb it.
\<close>

theorem timeout_command_answered:
  assumes "timer_rel (n_timer n) L" and "n_ctxs n c = Some x" and "reaches n (c_handle x) c q"
    and "\<And>h d. reaches n h d q \<Longrightarrow> h = c_handle x" and "open_to n ps (Suc (length L))" and "0 < to_int (strtol10 str)"
    and "tm_current_point (n_timer n) \<le> gettime clock" and "k = unat (gettime clock - tm_current_point (n_timer n))" and "k \<le> INT_MAX"
    and "skynet_context_newsession n c = Inr (m, s)" and "\<lparr>te_handle = c_handle x, te_session = s\<rparr> \<notin> snd ` set L"
  shows "\<exists>n1 n2 new. skynet_command sv n c ''TIMEOUT'' (Some str) = Inr (n1, Some (int_str s)) \<and> 0 < s \<and>
    node_updatetime sv clock [] n1 = Some (Inr n2) \<and> messages n2 q = messages n q @ new \<and>
    new = due_in (L @ [(nat (to_int (strtol10 str)), \<lparr>te_handle = c_handle x, te_session = s\<rparr>)]) k (c_handle x) \<and>
    (timeout_message s \<in> set new \<longleftrightarrow> to_int (strtol10 str) \<le> int k)"
proof -
  let ?d = "to_int (strtol10 str)" and ?h = "c_handle x"
  let ?L = "L @ [(nat ?d, \<lparr>te_handle = ?h, te_session = s\<rparr>)]"
  obtain y T where cmd: "skynet_command sv n c ''TIMEOUT'' (Some str) = Inr ((set_ctx n c y)\<lparr>n_timer := T\<rparr>, Some (int_str s))"
    "0 < s" "c_handle y = ?h" "c_ref y = c_ref x" "c_queue y = c_queue x" "clocks T = clocks (n_timer n)" "timer_rel T ?L"
    using timeout_command[OF assms(1,2,6,10), of sv] by blast
  define n1 where "n1 = (set_ctx n c y)\<lparr>n_timer := T\<rparr>"
  note same = same_reach[OF assms(2) cmd(3-5) n1_def]
  have timer: "n_timer n1 = T" "tm_current_point T = tm_current_point (n_timer n)"
    using cmd(6) by (simp_all add: n1_def clocks_def)
  have "timer_rel (n_timer n1) ?L" "open_to n1 ps (length ?L)" "reaches n1 ?h c q"
    "tm_current_point (n_timer n1) \<le> gettime clock" "k = unat (gettime clock - tm_current_point (n_timer n1))"
    using assms(3,5,7,8) cmd(7) by (simp_all add: same timer)
  moreover have "h' = ?h" if "reaches n1 h' d q" for h' d
    using that assms(4) by (simp add: same)
  ultimately obtain n2 where n2: "node_updatetime sv clock [] n1 = Some (Inr n2)" "messages n2 q = messages n1 q @ due_in ?L k ?h"
    using updatetime_delivers[of n1 ?L ps q ?h c clock k sv] assms(9) by blast
  have "te_session ev \<noteq> s" if "(t, ev) \<in> set L" "te_handle ev = ?h" for t ev
    using assms(11) that by (cases ev) force
  moreover have "(nat ?d, \<lparr>te_handle = ?h, te_session = s\<rparr>) \<in> set ?L \<and> 1 \<le> nat ?d"
    using assms(6) by simp
  ultimately have "timeout_message s \<in> set (due_in ?L k ?h) \<longleftrightarrow> ?d \<le> int k"
    unfolding in_due_in by (intro iffI) (fastforce simp: timeout_message_def, force)
  then show ?thesis
    using n2 cmd(1,2) unfolding n1_def[symmetric] same by blast
qed

theorem timeout_command_answered_witness:
  "\<exists>sv n n1 n2 s. messages n 2 = [] \<and> skynet_command sv n 1 ''TIMEOUT'' (Some ''2'') = Inr (n1, Some (int_str s)) \<and>
     node_updatetime sv (0, 30000000) [] n1 = Some (Inr n2) \<and> messages n2 2 = [timeout_message s]"
proof -
  obtain n where n: "reaches n 0x1000001 1 2" "accepts n [] 2 (mq_new 0x1000001)" "context_source n (Some 1) = Inr 0x1000001"
    "messages n 2 = []" "\<And>s. s \<noteq> 0x1000001 \<Longrightarrow> handle_lookup (skynet_context_handle n) (n_storage n) s = Inr None"
    using demo_setup by blast
  let ?T = "skynet_timer_init (0, 0) (0, 0)"
  let ?n = "n\<lparr>n_timer := ?T\<rparr>"
  obtain x where x: "n_ctxs ?n 1 = Some x"
    using n(1) by (auto simp: reaches_def)
  then have h: "c_handle x = 0x1000001"
    using n(3) by (simp add: context_source_def ctx_at_def deref_Some)
  have one: "d = c_handle x" if "reaches ?n d e 2" for d e
    using that n(5)[of d] unfolding timer_keeps h by (auto simp: reaches_def)
  have "qview (n_gq n) 2 = Some ((mq_new 0x1000001)\<lparr>mq_next := None\<rparr>)" "global_wf (n_gq n) []"
    using n(2) by (simp_all add: accepts_def qview_def)
  then have "takes n [] 1 2" "global_wf (n_gq n) []"
    using mq_new_wf[of "0x1000001"] by (simp_all add: takes_def skynet_mq_length_def mq_new_def)
  then have "open_to n [] (Suc 0)"
    unfolding open_to_def using n(1,5) by (metis One_nat_def)
  then have room: "open_to ?n [] (Suc (length ([] :: waiting)))"
    by (simp add: timer_keeps)
  have two: "to_int (strtol10 ''2'') = 2"
    by (simp add: strtol10_def skip_sign_def isspace_def leading_digits_def digits_val_def digit_val_def to_int_def)
  have clock: "gettime (0, 30000000) = 3" "tm_current_point (n_timer ?n) = 0"
    by (simp_all add: gettime_def skynet_timer_init_def systime_def)
  obtain w s where s: "skynet_context_newsession ?n 1 = Inr (set_ctx ?n 1 (x\<lparr>c_session_id := w\<rparr>), s)"
    using newsession_positive[OF x] by blast
  have "reaches ?n (c_handle x) 1 2" "timer_rel (n_timer ?n) []" "0 < to_int (strtol10 ''2'')"
    "tm_current_point (n_timer ?n) \<le> gettime (0, 30000000)" "3 = unat (gettime (0, 30000000) - tm_current_point (n_timer ?n))"
    "3 \<le> INT_MAX" "\<lparr>te_handle = c_handle x, te_session = s\<rparr> \<notin> snd ` set []"
    using n(1) timer_init_rel clock by (simp_all add: timer_keeps h two INT_MAX_def)
  note args = this
  have "\<exists>n1 n2 new. skynet_command undefined ?n 1 ''TIMEOUT'' (Some ''2'') = Inr (n1, Some (int_str s)) \<and> 0 < s \<and>
      node_updatetime undefined (0, 30000000) [] n1 = Some (Inr n2) \<and> messages n2 2 = messages ?n 2 @ new \<and>
      new = due_in ([] @ [(nat (to_int (strtol10 ''2'')), \<lparr>te_handle = c_handle x, te_session = s\<rparr>)]) 3 (c_handle x) \<and>
      (timeout_message s \<in> set new \<longleftrightarrow> to_int (strtol10 ''2'') \<le> int 3)"
    by (rule timeout_command_answered[OF args(2) x args(1) _ room args(3-6) s args(7)]) (erule one)
  then obtain n1 n2 new where "skynet_command undefined ?n 1 ''TIMEOUT'' (Some ''2'') = Inr (n1, Some (int_str s))"
    "node_updatetime undefined (0, 30000000) [] n1 = Some (Inr n2)" "messages n2 2 = messages ?n 2 @ new"
    "new = due_in [(2, \<lparr>te_handle = c_handle x, te_session = s\<rparr>)] 3 (c_handle x)"
    unfolding two by auto
  moreover from this have "new = [timeout_message s]"
    by (simp add: due_in_def responses_at_def upt_rec)
  ultimately show ?thesis
    using n(4) by (intro exI[of _ undefined] exI[of _ ?n] exI[of _ n1] exI[of _ n2] exI[of _ s]) (simp add: timer_keeps)
qed

end
