(* ===== verification/Spec2Isabelle.thy ===== *)
theory Spec2Isabelle
  imports Sky_Prelude Sky_Queue Sky_MQ Sky_Sched Sky_Handle Sky_Handle_Spec
    Sky_Timer Sky_Wheel Sky_Timer_Spec Sky_Locks
    Sky_CString Sky_Service Sky_Hashid Sky_Databuffer Sky_Gate Sky_Gate_Frames Sky_Gate_Spec
    Sky_Harbor_Queue Sky_Harbor Sky_Harbor_Wire Sky_Harbor_Spec
    Sky_Module Sky_Node Sky_Server Sky_Node_Spec Sky_Start
    Sky_Socket Sky_Socket_Ops Sky_Socket_Write Sky_Socket_Spec
    Sky_Socket_Close Sky_Socket_Faults
    Sky_Malloc Sky_Malloc_Spec Sky_Meminfo Sky_Snlua_Signal Sky_Snlua Sky_Snlua_Profile Sky_Logger Sky_Deliver Sky_Snlua_Launch
    Sky_Main Sky_Daemon Sky_Socket_Api Sky_Threads
begin

text \<open>
  A verification of the C core of skynet (\<^verbatim>\<open>skynet/skynet-src\<close> and \<^verbatim>\<open>skynet/service-src\<close>): the actor runtime
  and the services written in C.

  The program. A node runs services. A service is a context (\<^verbatim>\<open>skynet_server.c\<close>) with a handle
  (\<^verbatim>\<open>skynet_handle.c\<close>), an instance of a C module (\<^verbatim>\<open>skynet_module.c\<close>) and a queue of messages; a queue with
  messages is in the global queue (\<^verbatim>\<open>skynet_mq.c\<close>), from which the worker threads (\<^verbatim>\<open>skynet_start.c\<close>) take it, call
  the callback of the service on its messages and put it back. The timer thread (\<^verbatim>\<open>skynet_timer.c\<close>) and the
  socket thread (\<^verbatim>\<open>socket_server.c\<close> behind \<^verbatim>\<open>skynet_socket.c\<close>) answer the services by messages too. The gate
  (\<^verbatim>\<open>service_gate.c\<close>) cuts the streams of clients into messages, the harbor (\<^verbatim>\<open>service_harbor.c\<close>) joins the nodes of a
  network, the logger writes the log and \<open>snlua\<close> runs a service written in Lua. \<^verbatim>\<open>malloc_hook.c\<close> counts the
  memory of each service, \<^verbatim>\<open>skynet_main.c\<close> and \<^verbatim>\<open>skynet_daemon.c\<close> start the process.

  Conventions. A statement that can go wrong is a value of \<open>'a res\<close>: \<open>Inl\<close> of a \<open>c_error\<close> (a failed assertion, a
  null pointer, a block after its \<open>free\<close>, an index outside its array, a read of memory never written,
  an overflow of a signed number, an endless loop, \<open>exit\<close>, a division by zero, bytes that are not data of
  the model), or \<open>Inr\<close> of the state after it and the result of the C function. A theorem that gives \<open>Inr\<close>
  therefore says that the code does none of these. Integers have the width of the C types on a 64-bit
  machine (\<open>u8\<close>, \<open>u16\<close>, \<open>u32\<close>, \<open>u64\<close>); an \<open>int\<close> is an integer, cut to 32 bits by \<open>to_int\<close> where the code can leave
  its range. Memory is a map from addresses to blocks, with \<open>malloc\<close> taking the next unused address
  (\<open>n_brk\<close>) and \<open>free\<close> removing the block. Calls of the system and of the modules of services are
  parameters: the record \<open>svc\<close> holds what a module does, \<open>sockenv\<close> what the kernel answers, \<open>daemon_os\<close>
  what the system answers to the daemon, \<open>allocator\<close> what the allocator below the hooks gives.

  The theories, in the order of the code.

  \<^item> \<open>Sky_Prelude\<close>: the types of the integers, errors and results; bits, hexadecimal and decimal text.
    \<open>Sky_CString\<close>: the functions on C strings. \<open>Sky_Queue\<close>: the interface of a queue as the locales \<open>fifo_source\<close> and
    \<open>fifo_queue\<close>, with the proof, once for both ring buffers, that runs of a queue are runs of a list.

  \<^item> \<open>Sky_MQ\<close>: \<^verbatim>\<open>skynet_mq.c\<close>, the ring buffer of a service (\<open>message_queue\<close>), with its growth, the estimate of
    overload, and the linked list of queues (\<open>global_queue\<close>); \<open>mq_refines_fifo\<close> through the interpretation \<open>mq\<close>.
    \<open>Sky_Sched\<close>: the queue operations of any number of workers, in any order, as a step relation; one
    worker a queue, no queue lost, no fault, and the drop of a released queue through the interpretation \<open>store\<close>.

  \<^item> \<open>Sky_Handle\<close>: \<^verbatim>\<open>skynet_handle.c\<close>, the table of contexts (\<open>handle_storage\<close>) and the sorted array of names.
    \<open>Sky_Handle_Spec\<close>: the functional properties, and the locale \<open>name_service\<close> with its interpretation \<open>handle_names\<close>.

  \<^item> \<open>Sky_Timer\<close>: \<^verbatim>\<open>skynet_timer.c\<close>, the wheel of 256 near slots and four levels of 64. \<open>Sky_Wheel\<close>: its invariant, and that
    a shift of a level refines the list of waiting events. \<open>Sky_Timer_Spec\<close>: runs, through the locale \<open>delay_queue\<close> and
    its interpretation \<open>wheel\<close>.

  \<^item> \<open>Sky_Locks\<close>: \<^verbatim>\<open>rwlock.h\<close> and \<^verbatim>\<open>spinlock.h\<close>, one step for each atomic operation.

  \<^item> \<open>Sky_Module\<close>: \<^verbatim>\<open>skynet_module.c\<close>, the search along the path. \<open>Sky_Node\<close>: the state of a node (\<open>node\<close>), its contexts and
    their counts of references, sending, sessions, the registration and the retirement of handles, \<^verbatim>\<open>skynet_harbor.c\<close>,
    \<^verbatim>\<open>skynet_error.c\<close>. \<open>Sky_Server\<close>: dispatch, the commands, \<^verbatim>\<open>skynet_monitor.c\<close>, \<^verbatim>\<open>skynet_env.c\<close>, \<^verbatim>\<open>skynet_log.c\<close>.
    \<open>Sky_Node_Spec\<close>: delivery, sessions, the answers to the messages of a dead service.

  \<^item> \<open>Sky_Start\<close>: \<^verbatim>\<open>skynet_start.c\<close>, the boot of a node, and the workers, the condition variable and the shutdown as
    a step relation (\<open>monitor_step\<close>) with its invariant and the bound of the shutdown. \<open>Sky_Threads\<close>: the passes of the
    threads, their creation and \<open>skynet_start\<close> as a whole, and a timeout from the command through the timer
    thread to the queue. \<open>Sky_Deliver\<close>: several messages one after the other.
    \<open>Sky_Main\<close>: \<^verbatim>\<open>skynet_main.c\<close>, the settings. \<open>Sky_Daemon\<close>: \<^verbatim>\<open>skynet_daemon.c\<close>, the file with the pid.

  \<^item> \<open>Sky_Socket\<close>: the data of \<^verbatim>\<open>socket_server.c\<close>, the ids, reference counts, buffers and the writes to the kernel.
    \<open>Sky_Socket_Ops\<close>: the requests and events of the socket thread (\<open>ctrl_cmd\<close>, \<open>socket_server_poll\<close>) and the functions
    the workers call. \<open>Sky_Socket_Write\<close>: the write side (\<open>flow\<close>) and \<open>reserve_id\<close>. \<open>Sky_Socket_Spec\<close>: the stream of a
    connection. \<open>Sky_Socket_Close\<close>: the codes of a poll, one close an id. \<open>Sky_Socket_Faults\<close>: runs that go wrong.
    \<open>Sky_Socket_Api\<close>: the rest of \<^verbatim>\<open>skynet_socket.c\<close>.

  \<^item> \<open>Sky_Service\<close>: what a C service does to the node. \<open>Sky_Hashid\<close>: \<^verbatim>\<open>hashid.h\<close>, with the locale \<open>slot_map\<close> and its
    interpretation \<open>hashids\<close>. \<open>Sky_Databuffer\<close>: \<^verbatim>\<open>databuffer.h\<close>. \<open>Sky_Gate\<close>, \<open>Sky_Gate_Frames\<close>, \<open>Sky_Gate_Spec\<close>: \<^verbatim>\<open>service_gate.c\<close>,
    the framing, and the properties of the callback. \<open>Sky_Harbor_Queue\<close> (interpretation \<open>hq\<close>), \<open>Sky_Harbor\<close>,
    \<open>Sky_Harbor_Wire\<close>, \<open>Sky_Harbor_Spec\<close>: \<^verbatim>\<open>service_harbor.c\<close>, its queues, its wire format and its properties.
    \<open>Sky_Logger\<close>: \<^verbatim>\<open>service_logger.c\<close> and the start of \<open>snlua\<close>.

  \<^item> \<open>Sky_Malloc\<close>, \<open>Sky_Malloc_Spec\<close>: \<^verbatim>\<open>malloc_hook.c\<close> and \<^verbatim>\<open>mem_info.c\<close>, the prefix of each block and the counters.
    \<open>Sky_Meminfo\<close>: the order of the loads of the counters. \<open>Sky_Snlua\<close>, \<open>Sky_Snlua_Signal\<close>, \<open>Sky_Snlua_Profile\<close>,
    \<open>Sky_Snlua_Launch\<close>: \<^verbatim>\<open>service_snlua.c\<close>, the allocator of a Lua state with its limit, the trap by which other
    threads interrupt Lua, the profile of the coroutines, and the loader.

  Concurrency. Where threads meet the model is a step relation with one step for each atomic
  operation or for each critical section under a spin lock, and the theorems hold for every
  interleaving; the order of memory is sequentially consistent, as C11 atomics are unless they say
  otherwise. Elsewhere a function runs without interruption, and what other threads may do in a window
  in which the code holds no lock is a parameter (the events added while the timer dispatches, the
  answers of the kernel).

  Bounds and fuel. The loops of \<^verbatim>\<open>hashid.h\<close> along a chain take the length of the table as fuel, and its invariant
  gives chains no longer. The loops that may run for ever in C are partial functions, with \<open>None\<close> for that:
  \<open>dispatch_loop\<close> of the gate, \<open>data_loop\<close> of the harbor, \<open>retire_pass\<close> and \<open>skynet_handle_retireall\<close>, \<open>timer_execute\<close>,
  \<open>write_retry\<close>, \<open>socket_server_poll\<close>, and \<open>drain\<close> of a queue; where a property needs the result, its theorem gives
  \<open>Some\<close>. The other loops are total by structural recursion or by a measure. Queues are bounded by
  \<open>2 ^ 30\<close> elements, above which the capacity, an \<open>int\<close>, overflows; the names of the handle table likewise.

  Not modelled. The Lua interpreter, \<open>lpeg\<close> and \<open>md5\<close> (\<^verbatim>\<open>3rd\<close>) are the work of others, and so is \<^verbatim>\<open>3rd/compat-mingw\<close>,
  which gives Windows the calls of POSIX. \<^verbatim>\<open>socket_epoll.h\<close> and \<^verbatim>\<open>socket_kqueue.h\<close> only hand their arguments to the
  kernel; the event pool is a part of \<open>sockenv\<close>. Debug output, the options of jemalloc (\<open>mallctl\<close>), the variants
  of the locks on \<open>pthread\<close>, and the functions of \<^verbatim>\<open>service_snlua.c\<close> that only move values between Lua stacks
  (\<open>auxresume\<close>, \<open>luaB_coresume\<close>, \<open>luaB_auxwrap\<close>, \<open>traceback\<close>) are left out. \<^verbatim>\<open>crynet-server\<close> is a program of its own in C++, and
  \<^verbatim>\<open>crynet-client\<close> holds only settings.
\<close>

end
